(* ===== verification/Driver_Prelude.thy ===== *)
theory Driver_Prelude
  imports Main "HOL-Library.Word" "HOL-Library.Multiset"
begin

unbundle bit_operations_syntax

text \<open>
  Shared vocabulary of the development: the driver's fixed-width integers, byte buffers with
  explicit out-of-range reads, the little- and big-endian accessors of
  \<^verbatim>\<open>include/osdep_service.h\<close> and \<^verbatim>\<open>include/ieee80211.h\<close>, the driver's return codes, the generic
  lemmas on lists and words that several components use, and two generic interfaces: a transition
  system with an invariant that every operation keeps, and authenticated encryption.
\<close>

section \<open>Integers, buffers and return codes\<close>

type_synonym u8 = "8 word"
type_synonym u16 = "16 word"
type_synonym u32 = "32 word"
type_synonym u64 = "64 word"
type_synonym bytes = "u8 list"

named_theorems byte_bits \<open>bits of masks and of words assembled from bytes\<close>

text \<open>The driver's integer return codes (\<^verbatim>\<open>_FAIL\<close> 0, \<^verbatim>\<open>_SUCCESS\<close> 1, \<^verbatim>\<open>RTW_RX_HANDLED\<close> 2).\<close>

datatype ret = RET_FAIL | RET_SUCCESS | RET_RX_HANDLED

text \<open>A read of a C buffer: \<open>None\<close> is an access outside the buffer.\<close>

definition rd :: "bytes \<Rightarrow> nat \<Rightarrow> u8 option" where
  "rd buf i = (if i < length buf then Some (buf ! i) else None)"

text \<open>\<^verbatim>\<open>_rtw_memcmp(&buf[i], pat, n) == _TRUE\<close>, with \<open>None\<close> for an access outside the buffer.\<close>

definition memcmp_at :: "bytes \<Rightarrow> nat \<Rightarrow> bytes \<Rightarrow> bool option" where
  "memcmp_at buf i pat =
     (if i + length pat \<le> length buf then Some (take (length pat) (drop i buf) = pat) else None)"

definition get_le16 :: "bytes \<Rightarrow> nat \<Rightarrow> u16 option" where
  "get_le16 buf i =
     (if i + 1 < length buf then Some (ucast (buf ! i) OR push_bit 8 (ucast (buf ! (i + 1)))) else None)"

definition get_be16 :: "bytes \<Rightarrow> nat \<Rightarrow> u16 option" where
  "get_be16 buf i =
     (if i + 1 < length buf then Some (push_bit 8 (ucast (buf ! i)) OR ucast (buf ! (i + 1))) else None)"

definition put_le16 :: "u16 \<Rightarrow> bytes" where
  "put_le16 v = [ucast v, ucast (drop_bit 8 v)]"

definition put_be16 :: "u16 \<Rightarrow> bytes" where
  "put_be16 v = [ucast (drop_bit 8 v), ucast v]"

text \<open>\<^verbatim>\<open>IS_MCAST\<close> of \<^verbatim>\<open>include/wifi.h\<close>: the group bit of the first address byte.\<close>

definition IS_MCAST :: "bytes \<Rightarrow> bool" where
  "IS_MCAST da = (case da of [] \<Rightarrow> False | b # _ \<Rightarrow> b AND 1 \<noteq> 0)"

section \<open>Generic lemmas\<close>

lemma rd_Some_iff [simp]: "rd buf i = Some b \<longleftrightarrow> i < length buf \<and> buf ! i = b"
  by (auto simp: rd_def)

lemma rd_None_iff [simp]: "rd buf i = None \<longleftrightarrow> length buf \<le> i"
  by (auto simp: rd_def)

lemma rd_in: "i < length buf \<Longrightarrow> rd buf i = Some (buf ! i)"
  by (simp add: rd_def)

lemma le16_roundtrip [simp]: "get_le16 (put_le16 v) 0 = Some v"
proof -
  have "(ucast (ucast v :: u8) OR push_bit 8 (ucast (ucast (drop_bit 8 v) :: u8)) :: u16) = v"
    by (rule bit_word_eqI) (auto simp: bit_simps)
  then show ?thesis by (simp add: get_le16_def put_le16_def)
qed

lemma be16_roundtrip [simp]: "get_be16 (put_be16 v) 0 = Some v"
proof -
  have "(push_bit 8 (ucast (ucast (drop_bit 8 v) :: u8)) OR ucast (ucast v :: u8) :: u16) = v"
    by (rule bit_word_eqI) (auto simp: bit_simps)
  then show ?thesis by (simp add: get_be16_def put_be16_def)
qed

lemma drop_take_split: "i + n \<le> length xs \<Longrightarrow> xs = take i xs @ take n (drop i xs) @ drop (i + n) xs"
  by (metis add.commute append_take_drop_id drop_drop)

lemma option_eqI: "(\<And>j. x = Some j \<longleftrightarrow> y = Some j) \<Longrightarrow> x = y"
  by (metis not_None_eq)

lemma unat_less_4096_u16: "(x :: u16) < 4096 \<longleftrightarrow> unat x < 4096"
  by (simp add: word_less_nat_alt)

lemma u8_bound: "unat (w :: u8) < 256"
  using unsigned_less [where w = w] by simp

lemma all_less_8: "(\<forall>n<8. P n) \<longleftrightarrow> P 0 \<and> P 1 \<and> P 2 \<and> P 3 \<and> P 4 \<and> P 5 \<and> P 6 \<and> P (7::nat)"
  by (simp add: eval_nat_numeral All_less_Suc conj_ac)

lemma bit_255 [byte_bits]: "bit (0xFF :: 'a::len word) n \<longleftrightarrow> n < 8 \<and> n < LENGTH('a)"
proof -
  have "(0xFF :: 'a word) = mask 8" by (simp add: mask_eq_exp_minus_1)
  then show ?thesis by (simp only: bit_mask_iff) (auto simp: possible_bit_word)
qed

lemma bit_255_int: "bit (0xFF :: int) n \<longleftrightarrow> n < 8"
proof -
  have "(0xFF :: int) = mask 8" by (simp add: mask_eq_exp_minus_1)
  then show ?thesis by (simp only: bit_mask_iff) auto
qed

lemma bit_times2: "bit (c * 2) n \<longleftrightarrow> 0 < n \<and> n < LENGTH('a) \<and> bit c (n - 1)" for c :: "'a::len word"
  using bit_push_bit_iff [of 1 c n] by (auto simp: push_bit_eq_mult Suc_le_eq dest: bit_imp_le_length)

lemma and_255_unat: "unat (w AND 0xFF) < 256" for w :: u32
proof -
  have "w AND 0xFF \<le> 0xFF" by (rule word_and_le1)
  then have "unat (w AND 0xFF) \<le> unat (0xFF :: u32)" by (simp only: word_le_nat_alt)
  then show ?thesis by simp
qed

lemma map2_xor_cancel: "length ks = length xs \<Longrightarrow> map2 (XOR) (map2 (XOR) xs ks) ks = (xs :: bytes)"
  by (induction xs ks rule: list_induct2') (auto simp: xor.assoc)

lemma swap_mset: "i < length xs \<Longrightarrow> j < length xs \<Longrightarrow> mset (xs[j := xs ! i, i := xs ! j]) = mset xs"
  by (metis mset_swap)

lemma unat_ucast_up [simp]:
  "unat (ucast (w :: u8) :: u32) = unat w" "unat (ucast (w :: u8) :: u16) = unat w"
  "unat (ucast (v :: u16) :: u32) = unat v"
  by (simp_all add: unsigned_ucast_eq take_bit_nat_eq_self unsigned_less [where ?'a = nat, THEN less_le_trans])

lemma unat_sub_ge: "unat b \<le> unat a \<Longrightarrow> unat (a - b) = unat a - unat b"
  by (simp add: unat_sub word_le_nat_alt)

lemma not_bit_ge: "0 \<le> k \<Longrightarrow> k < 2 ^ m \<Longrightarrow> m \<le> n \<Longrightarrow> \<not> bit k n" for k :: int
proof -
  assume a: "0 \<le> k" "k < 2 ^ m" "m \<le> n"
  then have "k < 2 ^ n" by (meson less_le_trans power_increasing one_le_numeral)
  then show ?thesis using a(1) by (simp add: bit_iff_odd)
qed

lemma bit_top: "0 \<le> d \<Longrightarrow> d < 2 ^ Suc n \<Longrightarrow> bit d n \<longleftrightarrow> 2 ^ n \<le> d" for d :: int
proof (cases "d < 2 ^ n")
  case True
  assume "0 \<le> d"
  then show ?thesis using True not_bit_ge [of d n n] by simp
next
  case False
  assume "0 \<le> d" "d < 2 ^ Suc n"
  then have "d div 2 ^ n = 1" using False by (intro int_div_pos_eq [of _ _ _ "d - 2 ^ n"]) auto
  then show ?thesis using False by (simp add: bit_iff_odd)
qed

lemma mset_concat_update:
  "i < length xs \<Longrightarrow> mset (concat (map g (xs[i := s]))) + mset (g (xs ! i)) = mset (concat (map g xs)) + mset (g s)"
proof (induction xs arbitrary: i)
  case (Cons x xs)
  then show ?case
  proof (cases i)
    case (Suc j)
    then have "mset (concat (map g (xs[j := s]))) + mset (g (xs ! j)) = mset (concat (map g xs)) + mset (g s)"
      using Cons by simp
    then show ?thesis using Suc by (simp add: add.assoc)
  qed simp
qed simp

lemma wrap_below:
  assumes "a < s" "s < (1000 :: nat)"
  shows "65536 \<le> uint (of_int (int a - int s) :: u32)"
proof -
  have u: "uint (of_int x :: u32) = x mod 2 ^ 32" for x by (simp add: uint_word_of_int)
  have "(int a - int s) mod 2 ^ 32 = (int a - int s + 2 ^ 32) mod 2 ^ 32" by (simp only: mod_add_self2)
  also have "\<dots> = int a - int s + 2 ^ 32" using assms by (intro mod_pos_pos_trivial) simp_all
  finally show ?thesis using assms unfolding u by simp
qed

lemma map2_xor_twice: "length xs \<le> length ks \<Longrightarrow> map2 (XOR) ks (map2 (XOR) ks xs) = (xs :: bytes)"
  by (auto simp: list_eq_iff_nth_eq)

lemma zero_xor: "length b \<le> n \<Longrightarrow> map2 (XOR) (replicate n 0) b = (b :: bytes)"
  by (auto simp: list_eq_iff_nth_eq)

lemma map2_xor_comm: "map2 (XOR) x y = map2 (XOR) y (x :: bytes)"
  by (auto simp: list_eq_iff_nth_eq xor.commute)

lemma unat_eq_word:
  fixes w :: "'a :: len word"
  assumes "unat w = n"
  shows "w = of_nat n"
  using assms by auto

section \<open>Transition systems with an invariant\<close>

text \<open>
  The contract several components share: a step function over events, an invariant and an
  admissibility condition on events under which a step keeps the invariant. The client's fact,
  proved once here, is that every run of admissible events keeps it.
\<close>

primrec run :: "('s \<Rightarrow> 'e \<Rightarrow> 's) \<Rightarrow> 's \<Rightarrow> 'e list \<Rightarrow> 's" where
  "run step s [] = s"
| "run step s (e # es) = run step (step s e) es"

primrec adm_run :: "('s \<Rightarrow> 'e \<Rightarrow> 's) \<Rightarrow> ('s \<Rightarrow> 'e \<Rightarrow> bool) \<Rightarrow> 's \<Rightarrow> 'e list \<Rightarrow> bool" where
  "adm_run step adm s [] = True"
| "adm_run step adm s (e # es) = (adm s e \<and> adm_run step adm (step s e) es)"

locale invariant_system =
  fixes step :: "'s \<Rightarrow> 'e \<Rightarrow> 's"
    and adm :: "'s \<Rightarrow> 'e \<Rightarrow> bool"
    and inv :: "'s \<Rightarrow> bool"
  assumes step_inv: "inv s \<Longrightarrow> adm s e \<Longrightarrow> inv (step s e)"
begin

lemma run_inv: "inv s \<Longrightarrow> adm_run step adm s es \<Longrightarrow> inv (run step s es)"
  by (induction es arbitrary: s) (auto intro: step_inv)

end

section \<open>Authenticated encryption\<close>

text \<open>
  What the frame formats rely on from a mode of authenticated encryption: key, nonce, message and
  associated data give a ciphertext of the same length and a tag of a fixed length, and decryption
  accepts exactly what encryption produces.
\<close>

locale aead =
  fixes ae :: "bytes \<Rightarrow> bytes \<Rightarrow> bytes \<Rightarrow> bytes \<Rightarrow> (bytes \<times> bytes) option"
    and ad :: "bytes \<Rightarrow> bytes \<Rightarrow> bytes \<Rightarrow> bytes \<Rightarrow> bytes \<Rightarrow> bytes option"
    and tag_len :: nat
  assumes ad_iff: "length t = tag_len \<Longrightarrow> ad k n c a t = Some p \<longleftrightarrow> ae k n p a = Some (c, t)"
    and ae_length: "ae k n p a = Some (c, t) \<Longrightarrow> length c = length p \<and> length t = tag_len"

end
