(* ===== verification/Recv_Frame.thy ===== *)
theory Recv_Frame
  imports Driver_Prelude
begin

unbundle bit_operations_syntax

text \<open>
  Receive frames and their pool: \<^verbatim>\<open>struct rx_pkt_attrib\<close>, \<^verbatim>\<open>union recv_frame\<close> and the inline
  buffer operations of \<^verbatim>\<open>include/rtw_recv.h\<close>, the pool and queue operations of
  \<^verbatim>\<open>core/rtw_recv.c\<close>. A frame is a value that carries its identity \<open>fr_id\<close> (the address of the
  \<^verbatim>\<open>union recv_frame\<close>); a queue is the list of the frames linked in it, head first. The buffer
  pointers \<^verbatim>\<open>rx_data\<close> and \<^verbatim>\<open>rx_tail\<close> are offsets from \<^verbatim>\<open>rx_head\<close>, and \<^verbatim>\<open>rx_end\<close> is the end of
  the buffer \<open>rx_mem\<close>.
\<close>

section \<open>Data\<close>

record rx_pkt_attrib =
  pa_hdrlen :: u8
  pa_to_fr_ds :: u8
  pa_amsdu :: bool
  pa_qos :: bool
  pa_priority :: u8
  pa_seq_num :: u16
  pa_frag_num :: u8
  pa_mfrag :: bool
  pa_privacy :: bool
  pa_bdecrypted :: bool
  pa_encrypt :: u8
  pa_iv_len :: u8
  pa_icv_len :: u8
  pa_dst :: bytes
  pa_src :: bytes
  pa_ta :: bytes
  pa_ra :: bytes
  pa_bssid :: bytes
  pa_key_index :: u8
  pa_physts_rpt_valid :: bool
  pa_order :: bool
  pa_pw_save :: bool
  pa_mdata :: bool
  pa_ack_policy :: u8
  pa_pkt_len :: u16

record recv_frame =
  fr_id :: nat
  fr_keytrack :: int
  fr_attrib :: rx_pkt_attrib
  fr_len :: u32
  rx_mem :: bytes
  rx_data :: int
  rx_tail :: int
  fr_psta :: "nat option"
  fr_preorder_ctrl :: "(nat \<times> nat) option"

record recv_priv =
  free_recv_queue :: "recv_frame list"
  free_recvframe_cnt :: u32
  uc_swdec_pending_queue :: "recv_frame list"
  rx_drop :: u64
  dbg_rx_drop_count :: u64
  dbg_rx_ampdu_drop_count :: u64
  dbg_rx_ampdu_forced_indicate_count :: u64
  dbg_rx_ampdu_loss_count :: u64
  dbg_rx_ampdu_window_shift_cnt :: u64

text \<open>\<^verbatim>\<open>enum security_type\<close>.\<close>

definition NO_PRIVACY :: u8 where "NO_PRIVACY = 0"
definition WEP40 :: u8 where "WEP40 = 1"
definition TKIP :: u8 where "TKIP = 2"
definition AES :: u8 where "AES = 4"
definition WEP104 :: u8 where "WEP104 = 5"
definition GCMP :: u8 where "GCMP = 7"
definition CCMP_256 :: u8 where "CCMP_256 = 0x14"
definition GCMP_256 :: u8 where "GCMP_256 = 0x17"

lemmas sec_type_defs = NO_PRIVACY_def WEP40_def TKIP_def AES_def WEP104_def GCMP_def
  CCMP_256_def GCMP_256_def

section \<open>Buffer operations\<close>

definition recvframe_push :: "recv_frame \<Rightarrow> int \<Rightarrow> int option \<times> recv_frame" where
  "recvframe_push f sz =
     (let d = rx_data f - sz in
      if d < 0 then (None, f)
      else (Some d, f\<lparr>rx_data := d, fr_len := fr_len f + word_of_int sz\<rparr>))"

definition recvframe_pull :: "recv_frame \<Rightarrow> int \<Rightarrow> int option \<times> recv_frame" where
  "recvframe_pull f sz =
     (let d = rx_data f + sz in
      if d > rx_tail f then (None, f)
      else (Some d, f\<lparr>rx_data := d, fr_len := fr_len f - word_of_int sz\<rparr>))"

definition recvframe_put :: "recv_frame \<Rightarrow> int \<Rightarrow> int option \<times> recv_frame" where
  "recvframe_put f sz =
     (let t = rx_tail f + sz in
      if t > int (length (rx_mem f)) then (None, f)
      else (Some t, f\<lparr>rx_tail := t, fr_len := fr_len f + word_of_int sz\<rparr>))"

definition recvframe_pull_tail :: "recv_frame \<Rightarrow> int \<Rightarrow> int option \<times> recv_frame" where
  "recvframe_pull_tail f sz =
     (let t = rx_tail f - sz in
      if t < rx_data f then (None, f)
      else (Some t, f\<lparr>rx_tail := t, fr_len := fr_len f - word_of_int sz\<rparr>))"

text \<open>\<^verbatim>\<open>_rtw_memcpy(rx_head + off, src, len)\<close> inside the frame's own buffer; \<open>None\<close> outside it.\<close>

definition frame_write :: "recv_frame \<Rightarrow> int \<Rightarrow> bytes \<Rightarrow> recv_frame option" where
  "frame_write f off src =
     (if 0 \<le> off \<and> off + int (length src) \<le> int (length (rx_mem f))
      then Some (f\<lparr>rx_mem := take (nat off) (rx_mem f) @ src
                             @ drop (nat off + length src) (rx_mem f)\<rparr>)
      else None)"

text \<open>A read of \<open>n\<close> bytes at \<^verbatim>\<open>rx_data + off\<close>; \<open>None\<close> outside the frame's buffer.\<close>

definition frame_rd :: "recv_frame \<Rightarrow> int \<Rightarrow> nat \<Rightarrow> bytes option" where
  "frame_rd f off n =
     (if 0 \<le> rx_data f + off \<and> rx_data f + off + int n \<le> int (length (rx_mem f))
      then Some (take n (drop (nat (rx_data f + off)) (rx_mem f))) else None)"

text \<open>The bytes between \<^verbatim>\<open>rx_data\<close> and \<^verbatim>\<open>rx_tail\<close>.\<close>

definition frame_payload :: "recv_frame \<Rightarrow> bytes" where
  "frame_payload f = take (nat (rx_tail f - rx_data f)) (drop (nat (rx_data f)) (rx_mem f))"

text \<open>The buffer invariant every operation relies on; buffers are shorter than 64 KiB.\<close>

definition frame_wf :: "recv_frame \<Rightarrow> bool" where
  "frame_wf f \<longleftrightarrow> 0 \<le> rx_data f \<and> rx_data f \<le> rx_tail f \<and> rx_tail f \<le> int (length (rx_mem f))
     \<and> length (rx_mem f) < 65536 \<and> uint (fr_len f) = rx_tail f - rx_data f"

section \<open>The frame pool\<close>

datatype rxq = FREE_RECV_QUEUE | UC_SWDEC_PENDING_QUEUE

fun rxq_get :: "rxq \<Rightarrow> recv_priv \<Rightarrow> recv_frame list" where
  "rxq_get FREE_RECV_QUEUE rp = free_recv_queue rp"
| "rxq_get UC_SWDEC_PENDING_QUEUE rp = uc_swdec_pending_queue rp"

fun rxq_set :: "rxq \<Rightarrow> recv_frame list \<Rightarrow> recv_priv \<Rightarrow> recv_priv" where
  "rxq_set FREE_RECV_QUEUE q rp = rp\<lparr>free_recv_queue := q\<rparr>"
| "rxq_set UC_SWDEC_PENDING_QUEUE q rp = rp\<lparr>uc_swdec_pending_queue := q\<rparr>"

text \<open>\<^verbatim>\<open>rtw_list_delete(&f->u.hdr.list)\<close> on the queue the frame is linked in.\<close>

definition list_unlink :: "nat \<Rightarrow> recv_frame list \<Rightarrow> recv_frame list" where
  "list_unlink i q = filter (\<lambda>g. fr_id g \<noteq> i) q"

definition rp_unlink :: "nat \<Rightarrow> recv_priv \<Rightarrow> recv_priv" where
  "rp_unlink i rp = rp\<lparr>free_recv_queue := list_unlink i (free_recv_queue rp),
                       uc_swdec_pending_queue := list_unlink i (uc_swdec_pending_queue rp)\<rparr>"

definition rtw_alloc_recvframe :: "rxq \<Rightarrow> recv_priv \<Rightarrow> recv_frame option \<times> recv_priv" where
  "rtw_alloc_recvframe q rp =
     (case rxq_get q rp of
        [] \<Rightarrow> (None, rp)
      | f # fs \<Rightarrow>
          (let rp = rxq_set q fs rp in
           (Some f, if q = FREE_RECV_QUEUE
                    then rp\<lparr>free_recvframe_cnt := free_recvframe_cnt rp - 1\<rparr> else rp)))"

definition rtw_init_recvframe :: "recv_frame \<Rightarrow> recv_frame" where
  "rtw_init_recvframe f = f\<lparr>fr_len := 0\<rparr>"

definition rtw_free_recvframe :: "recv_frame \<Rightarrow> recv_priv \<Rightarrow> recv_priv" where
  "rtw_free_recvframe f rp =
     (let rp = rp_unlink (fr_id f) rp;
          f = f\<lparr>fr_len := 0, fr_attrib := (fr_attrib f)\<lparr>pa_physts_rpt_valid := False\<rparr>\<rparr> in
      rp\<lparr>free_recv_queue := free_recv_queue rp @ [f],
         free_recvframe_cnt := free_recvframe_cnt rp + 1\<rparr>)"

definition rtw_enqueue_recvframe :: "rxq \<Rightarrow> recv_frame \<Rightarrow> recv_priv \<Rightarrow> recv_priv" where
  "rtw_enqueue_recvframe q f rp =
     (let rp = rp_unlink (fr_id f) rp;
          rp = rxq_set q (rxq_get q rp @ [f]) rp in
      if q = FREE_RECV_QUEUE then rp\<lparr>free_recvframe_cnt := free_recvframe_cnt rp + 1\<rparr> else rp)"

text \<open>\<^verbatim>\<open>rtw_free_recvframe_queue\<close>: frees every frame of the queue, which is empty afterwards.\<close>

fun rtw_free_recvframe_queue :: "recv_frame list \<Rightarrow> recv_priv \<Rightarrow> recv_priv" where
  "rtw_free_recvframe_queue [] rp = rp"
| "rtw_free_recvframe_queue (f # fs) rp = rtw_free_recvframe_queue fs (rtw_free_recvframe f rp)"

function rtw_free_uc_swdec_pending_queue :: "recv_priv \<Rightarrow> u32 \<Rightarrow> u32 \<times> recv_priv" where
  "rtw_free_uc_swdec_pending_queue rp cnt =
     (case rtw_alloc_recvframe UC_SWDEC_PENDING_QUEUE rp of
        (None, rp) \<Rightarrow> (cnt, rp)
      | (Some f, rp) \<Rightarrow> rtw_free_uc_swdec_pending_queue (rtw_free_recvframe f rp) (cnt + 1))"
  by pat_completeness auto
termination
  by (relation "measure (\<lambda>(rp, cnt). length (uc_swdec_pending_queue rp))")
    (auto simp: rtw_alloc_recvframe_def rtw_free_recvframe_def rp_unlink_def list_unlink_def
        Let_def less_Suc_eq_le split: list.splits)

section \<open>Buffer invariant and payload refinement\<close>

lemma frame_wf_len: "frame_wf f \<Longrightarrow> unat (fr_len f) = length (frame_payload f)"
  by (auto simp: frame_wf_def frame_payload_def nat_eq_iff min_def simp flip: nat_uint_eq)

lemma uint_sub_small:
  fixes w :: u32
  assumes "0 \<le> k" "k \<le> uint w"
  shows "uint (w - word_of_int k) = uint w - k"
proof -
  have "uint w < 2 ^ 32" using unsigned_less [where w = w] by simp
  then show ?thesis
    using assms by (simp add: uint_word_ariths uint_word_of_int mod_simps)
qed

lemma uint_add_small:
  fixes w :: u32
  assumes "0 \<le> k" "uint w + k < 2 ^ 32"
  shows "uint (w + word_of_int k) = uint w + k"
  using assms by (simp add: uint_word_ariths uint_word_of_int mod_simps)

lemma pull_wf:
  assumes "frame_wf f" "0 \<le> sz"
  shows "frame_wf (snd (recvframe_pull f sz))"
  using assms by (auto simp: recvframe_pull_def Let_def frame_wf_def uint_sub_small)

lemma pull_tail_wf:
  assumes "frame_wf f" "0 \<le> sz"
  shows "frame_wf (snd (recvframe_pull_tail f sz))"
  using assms by (auto simp: recvframe_pull_tail_def Let_def frame_wf_def uint_sub_small)

lemma push_wf:
  assumes "frame_wf f" "0 \<le> sz"
  shows "frame_wf (snd (recvframe_push f sz))"
  using assms by (auto simp: recvframe_push_def Let_def frame_wf_def uint_add_small)

lemma put_wf:
  assumes "frame_wf f" "0 \<le> sz"
  shows "frame_wf (snd (recvframe_put f sz))"
  using assms by (auto simp: recvframe_put_def Let_def frame_wf_def uint_add_small)

lemma pull_payload:
  assumes "frame_wf f" "0 \<le> sz" "fst (recvframe_pull f sz) = Some d"
  shows "frame_payload (snd (recvframe_pull f sz)) = drop (nat sz) (frame_payload f)"
  using assms
  by (auto simp: recvframe_pull_def Let_def frame_wf_def frame_payload_def drop_take nat_add_distrib
      add.commute nat_diff_distrib' split: if_splits)

lemma pull_tail_payload:
  assumes "frame_wf f" "0 \<le> sz" "fst (recvframe_pull_tail f sz) = Some t"
  shows "frame_payload (snd (recvframe_pull_tail f sz))
       = take (length (frame_payload f) - nat sz) (frame_payload f)"
proof -
  from assms have b: "0 \<le> rx_data f" "rx_data f \<le> rx_tail f - sz" "rx_tail f \<le> int (length (rx_mem f))"
    and s: "snd (recvframe_pull_tail f sz)
          = f\<lparr>rx_tail := rx_tail f - sz, fr_len := fr_len f - word_of_int sz\<rparr>"
    by (auto simp: recvframe_pull_tail_def Let_def frame_wf_def split: if_splits)
  have "length (frame_payload f) - nat sz = nat (rx_tail f - sz - rx_data f)"
    using b assms(2) by (simp add: frame_payload_def)
  then show ?thesis
    using b assms(2) by (simp add: s frame_payload_def)
qed

lemma put_write_payload:
  assumes wf: "frame_wf f"
    and w: "frame_write f (rx_tail f) src = Some g"
    and p: "recvframe_put g (int (length src)) = (Some t, h)"
  shows "frame_payload h = frame_payload f @ src" and "frame_wf h"
proof -
  from w have g: "g = f\<lparr>rx_mem := take (nat (rx_tail f)) (rx_mem f) @ src
                          @ drop (nat (rx_tail f) + length src) (rx_mem f)\<rparr>"
    and fit: "0 \<le> rx_tail f" "rx_tail f + int (length src) \<le> int (length (rx_mem f))"
    by (auto simp: frame_write_def split: if_splits)
  from p have h: "h = g\<lparr>rx_tail := rx_tail g + int (length src),
                         fr_len := fr_len g + word_of_int (int (length src))\<rparr>"
    by (auto simp: recvframe_put_def Let_def split: if_splits)
  have len: "length (rx_mem g) = length (rx_mem f)"
    using fit by (auto simp: g nat_le_iff)
  have ord: "0 \<le> rx_data f" "rx_data f \<le> rx_tail f"
    using wf by (auto simp: frame_wf_def)
  show "frame_wf h"
  proof -
    have "uint (fr_len f + word_of_int (int (length src))) = uint (fr_len f) + int (length src)"
      using wf fit by (intro uint_add_small) (auto simp: frame_wf_def)
    then show ?thesis
      using wf fit len by (auto simp: frame_wf_def h) (auto simp: g)
  qed
  have "nat (rx_tail f + int (length src) - rx_data f) = nat (rx_tail f - rx_data f) + length src"
    using ord by simp
  moreover have "drop (nat (rx_data f)) (take (nat (rx_tail f)) (rx_mem f)) = frame_payload f"
    using ord by (simp add: frame_payload_def drop_take nat_diff_distrib')
  moreover have "length (frame_payload f) = nat (rx_tail f - rx_data f)"
    using wf by (auto simp: frame_payload_def frame_wf_def min_def)
  moreover have "nat (rx_data f) \<le> length (take (nat (rx_tail f)) (rx_mem f))"
    using ord fit by auto
  ultimately show "frame_payload h = frame_payload f @ src"
    by (simp add: frame_payload_def [of "recv_frame.rx_mem_update _ _"]
        frame_payload_def [of "rx_tail_update _ _"] frame_payload_def [of "fr_len_update _ _"] h g)
qed

lemma frame_payload_length: "frame_wf f \<Longrightarrow> int (length (frame_payload f)) = rx_tail f - rx_data f"
  by (auto simp: frame_wf_def frame_payload_def min_def)

lemma frame_rd_payload:
  assumes "frame_wf f" "0 \<le> off" "nat off + n \<le> length (frame_payload f)"
  shows "frame_rd f off n = Some (take n (drop (nat off) (frame_payload f)))"
proof -
  have l: "off + int n \<le> rx_tail f - rx_data f"
    using assms frame_payload_length [OF assms(1)] by linarith
  have d: "0 \<le> rx_data f" "rx_tail f \<le> int (length (rx_mem f))" using assms(1) by (auto simp: frame_wf_def)
  define D T o' where "D = nat (rx_data f)" and "T = nat (rx_tail f)" and "o' = nat off"
  have n: "nat (rx_data f + off) = D + o'" "o' + n \<le> T - D" "nat (rx_tail f - rx_data f) = T - D"
    using l d assms(2) by (auto simp: D_def T_def o'_def nat_add_distrib nat_diff_distrib)
  have "take n (drop o' (take (T - D) (drop D (rx_mem f)))) = take n (drop (D + o') (rx_mem f))"
    using n(2) by (simp add: drop_take min_def add.commute)
  then have "take n (drop (nat off) (frame_payload f)) = take n (drop (nat (rx_data f + off)) (rx_mem f))"
    unfolding frame_payload_def n o'_def [symmetric] D_def [symmetric] .
  then show ?thesis using l d assms(2) by (simp add: frame_rd_def)
qed

lemma frame_write_payload:
  assumes "frame_wf f" "0 \<le> off" "nat off + length src \<le> length (frame_payload f)"
  obtains g where "frame_write f (rx_data f + off) src = Some g" "frame_wf g" "fr_attrib g = fr_attrib f"
    "fr_len g = fr_len f" "rx_data g = rx_data f"
    "frame_payload g = take (nat off) (frame_payload f) @ src @ drop (nat off + length src) (frame_payload f)"
proof -
  have l: "off + int (length src) \<le> rx_tail f - rx_data f"
    using assms frame_payload_length [OF assms(1)] by linarith
  have d: "0 \<le> rx_data f" "rx_tail f \<le> int (length (rx_mem f))" using assms(1) by (auto simp: frame_wf_def)
  define D T where "D = nat (rx_data f)" and "T = nat (rx_tail f)"
  define o' where "o' = nat off"
  have n: "nat (rx_data f + off) = D + o'" "D + o' + length src \<le> T" "T \<le> length (rx_mem f)"
    "nat (rx_tail f - rx_data f) = T - D"
    using l d assms(2) by (auto simp: D_def T_def o'_def nat_add_distrib nat_diff_distrib)
  let ?g = "f\<lparr>rx_mem := take (D + o') (rx_mem f) @ src @ drop (D + o' + length src) (rx_mem f)\<rparr>"
  have w: "frame_write f (rx_data f + off) src = Some ?g"
    using l d assms(2) n(1) by (simp add: frame_write_def)
  have "frame_payload ?g = take (T - D) (drop D (take (D + o') (rx_mem f) @ src @ drop (D + o' + length src) (rx_mem f)))"
    by (simp add: frame_payload_def n(4) D_def)
  also have "\<dots> = take o' (drop D (rx_mem f)) @ src @ take (T - (D + o' + length src)) (drop (D + o' + length src) (rx_mem f))"
    using n(2,3) by (simp add: drop_take)
  also have "\<dots> = take o' (frame_payload f) @ src @ drop (o' + length src) (frame_payload f)"
    using n(2,3) by (simp add: frame_payload_def n(4) D_def [symmetric] drop_take min_def add.commute add.left_commute)
  finally have "frame_payload ?g = \<dots>" .
  moreover have "frame_wf ?g" using assms(1) n by (auto simp: frame_wf_def)
  ultimately show thesis using that [OF w] by (simp add: o'_def)
qed

section \<open>The free pool\<close>

text \<open>A frame as \<^verbatim>\<open>rtw_free_recvframe\<close> leaves it, and frames no pool queue holds.\<close>

definition freed_frame :: "recv_frame \<Rightarrow> recv_frame" where
  "freed_frame f = f\<lparr>fr_len := 0, fr_attrib := (fr_attrib f)\<lparr>pa_physts_rpt_valid := False\<rparr>\<rparr>"

definition not_pooled :: "recv_frame list \<Rightarrow> recv_priv \<Rightarrow> bool" where
  "not_pooled fs rp \<longleftrightarrow> distinct (map fr_id fs)
     \<and> fr_id ` set fs \<inter> fr_id ` set (free_recv_queue rp @ uc_swdec_pending_queue rp) = {}"

lemma freed_frame_id [simp]: "fr_id (freed_frame f) = fr_id f"
  by (simp add: freed_frame_def)

lemma list_unlink_id: "i \<notin> fr_id ` set q \<Longrightarrow> list_unlink i q = q"
  by (auto simp: list_unlink_def filter_id_conv)

lemma free_recvframe_pool:
  assumes "fr_id f \<notin> fr_id ` set (free_recv_queue rp @ uc_swdec_pending_queue rp)"
  shows "rtw_free_recvframe f rp = rp\<lparr>free_recv_queue := free_recv_queue rp @ [freed_frame f],
           free_recvframe_cnt := free_recvframe_cnt rp + 1\<rparr>"
proof -
  have "list_unlink (fr_id f) (free_recv_queue rp) = free_recv_queue rp"
    "list_unlink (fr_id f) (uc_swdec_pending_queue rp) = uc_swdec_pending_queue rp"
    using assms by (auto intro!: list_unlink_id)
  then show ?thesis by (simp add: rtw_free_recvframe_def rp_unlink_def freed_frame_def)
qed

lemma free_recvframe_queue_pool:
  assumes "not_pooled fs rp"
  shows "rtw_free_recvframe_queue fs rp = rp\<lparr>free_recv_queue := free_recv_queue rp @ map freed_frame fs,
           free_recvframe_cnt := free_recvframe_cnt rp + of_nat (length fs)\<rparr>"
  using assms
proof (induction fs arbitrary: rp)
  case (Cons f fs)
  have f: "fr_id f \<notin> fr_id ` set (free_recv_queue rp @ uc_swdec_pending_queue rp)"
    using Cons.prems by (auto simp: not_pooled_def)
  have "not_pooled fs (rtw_free_recvframe f rp)"
    using Cons.prems unfolding free_recvframe_pool [OF f] by (auto simp: not_pooled_def)
  from Cons.IH [OF this] show ?case by (simp add: free_recvframe_pool [OF f] algebra_simps)
qed simp

lemma not_pooled_append:
  "not_pooled (xs @ ys) rp \<longleftrightarrow> not_pooled xs rp \<and> not_pooled ys rp \<and> fr_id ` set xs \<inter> fr_id ` set ys = {}"
  by (auto simp: not_pooled_def image_Un Int_Un_distrib Int_Un_distrib2)

lemma not_pooled_after_free:
  assumes "not_pooled (xs @ ys) rp"
  shows "not_pooled ys (rtw_free_recvframe_queue xs rp)"
proof -
  have "fr_id ` freed_frame ` set xs = fr_id ` set xs" by (simp add: image_image)
  then show ?thesis
    using assms
    by (simp add: not_pooled_append free_recvframe_queue_pool)
       (simp add: not_pooled_def image_Un Int_Un_distrib Int_commute)
qed

section \<open>Sample frames\<close>

text \<open>Concrete frames on which the properties of the receive path are instantiated.\<close>

definition sample_attrib :: rx_pkt_attrib where
  "sample_attrib = \<lparr>pa_hdrlen = 26, pa_to_fr_ds = 2, pa_amsdu = False, pa_qos = True, pa_priority = 0,
     pa_seq_num = 0, pa_frag_num = 0, pa_mfrag = False, pa_privacy = False, pa_bdecrypted = False,
     pa_encrypt = 0, pa_iv_len = 0, pa_icv_len = 0, pa_dst = replicate 6 2, pa_src = replicate 6 4,
     pa_ta = replicate 6 6, pa_ra = replicate 6 2, pa_bssid = replicate 6 6, pa_key_index = 0,
     pa_physts_rpt_valid = False, pa_order = False, pa_pw_save = False, pa_mdata = False, pa_ack_policy = 0, pa_pkt_len = 0\<rparr>"

definition sample_frame :: "nat \<Rightarrow> u16 \<Rightarrow> recv_frame" where
  "sample_frame i s = \<lparr>fr_id = i, fr_keytrack = 0, fr_attrib = sample_attrib\<lparr>pa_seq_num := s\<rparr>,
     fr_len = 0, rx_mem = [], rx_data = 0, rx_tail = 0, fr_psta = None, fr_preorder_ctrl = None\<rparr>"

definition sample_recv_priv :: recv_priv where
  "sample_recv_priv = \<lparr>free_recv_queue = [], free_recvframe_cnt = 0, uc_swdec_pending_queue = [],
     rx_drop = 0, dbg_rx_drop_count = 0, dbg_rx_ampdu_drop_count = 0,
     dbg_rx_ampdu_forced_indicate_count = 0, dbg_rx_ampdu_loss_count = 0,
     dbg_rx_ampdu_window_shift_cnt = 0\<rparr>"

lemma sample_frame_sel [simp]:
  "fr_id (sample_frame i s) = i" "pa_seq_num (fr_attrib (sample_frame i s)) = s"
  "pa_qos (fr_attrib (sample_frame i s))"
  by (simp_all add: sample_frame_def sample_attrib_def)

end
