(* ===== verification/Recv_Reorder.thy ===== *)
theory Recv_Reorder
  imports Recv_Frame
begin

unbundle bit_operations_syntax

text \<open>
  The A-MPDU reorder buffer of \<^verbatim>\<open>core/rtw_recv.c\<close>: \<^verbatim>\<open>struct recv_reorder_ctrl\<close>,
  \<^verbatim>\<open>check_indicate_seq\<close>, \<^verbatim>\<open>enqueue_reorder_recvframe\<close>, \<^verbatim>\<open>recv_indicatepkts_in_order\<close>,
  \<^verbatim>\<open>recv_indicatepkt_reorder\<close> and the timeout handler. The MPDU consumer
  \<^verbatim>\<open>recv_process_mpdu\<close> is a function argument \<open>pm\<close>, instantiated by the receive pipeline; every
  operation also returns the list of frames it handed to \<open>pm\<close>, in order. A pending timer is the flag
  \<open>reordering_ctrl_timer\<close>. The lemmas show that the pending queue is kept inside the window and
  sorted, that nothing is lost or duplicated, and that delivery follows sequence order.
\<close>

section \<open>Data and operations\<close>

record recv_reorder_ctrl =
  rc_tid :: u8
  rc_enable :: bool
  indicate_seq :: u16
  wend_b :: u16
  wsize_b :: u8
  ampdu_size :: u8
  pending_recvframe_queue :: "recv_frame list"
  reordering_ctrl_timer :: bool
  bReorderWaiting :: bool
  rec_abba_rsp_ack :: bool

type_synonym mpdu_consumer = "recv_frame \<Rightarrow> recv_priv \<Rightarrow> ret \<times> recv_priv"

abbreviation seq_of :: "recv_frame \<Rightarrow> u16" where
  "seq_of f \<equiv> pa_seq_num (fr_attrib f)"

text \<open>
  \<^verbatim>\<open>(((a-b) & 0x800) != 0)\<close> on promoted \<^verbatim>\<open>u16\<close> operands: bit 11 of the difference, which the
  16-bit difference has in common with the promoted one.
\<close>

definition SN_LESS :: "u16 \<Rightarrow> u16 \<Rightarrow> bool" where
  "SN_LESS a b \<longleftrightarrow> (a - b) AND 0x800 \<noteq> 0"

definition SN_EQUAL :: "u16 \<Rightarrow> u16 \<Rightarrow> bool" where
  "SN_EQUAL a b \<longleftrightarrow> a = b"

definition check_indicate_seq ::
  "recv_reorder_ctrl \<Rightarrow> u16 \<Rightarrow> recv_priv \<Rightarrow> bool \<times> recv_reorder_ctrl \<times> recv_priv" where
  "check_indicate_seq rc seq_num rp =
     (let wsize = wsize_b rc;
          rc = (if indicate_seq rc = 0xFFFF then rc\<lparr>indicate_seq := seq_num\<rparr> else rc);
          wend = (indicate_seq rc + ucast wsize - 1) AND 0xFFF in
      if SN_LESS seq_num (indicate_seq rc) then (False, rc, rp)
      else if SN_EQUAL seq_num (indicate_seq rc) then
        (True, rc\<lparr>indicate_seq := (indicate_seq rc + 1) AND 0xFFF\<rparr>, rp)
      else if SN_LESS wend seq_num then
        (True,
         (if uint seq_num \<ge> uint wsize - 1
          then rc\<lparr>indicate_seq := seq_num + 1 - ucast wsize\<rparr>
          else rc\<lparr>indicate_seq := 0xFFF - (ucast wsize - (seq_num + 1)) + 1\<rparr>),
         rp\<lparr>dbg_rx_ampdu_window_shift_cnt := dbg_rx_ampdu_window_shift_cnt rp + 1\<rparr>)
      else (True, rc, rp))"

text \<open>The insertion scan over the pending queue; \<open>None\<close> is the duplicate exit.\<close>

fun enqueue_scan :: "recv_frame \<Rightarrow> recv_frame list \<Rightarrow> recv_frame list option" where
  "enqueue_scan f [] = Some [f]"
| "enqueue_scan f (g # q) =
     (if SN_LESS (seq_of g) (seq_of f) then map_option ((#) g) (enqueue_scan f q)
      else if SN_EQUAL (seq_of g) (seq_of f) then None
      else Some (f # g # q))"

definition enqueue_reorder_recvframe ::
  "recv_reorder_ctrl \<Rightarrow> recv_frame \<Rightarrow> bool \<times> recv_reorder_ctrl" where
  "enqueue_reorder_recvframe rc f =
     (case enqueue_scan f (pending_recvframe_queue rc) of
        None \<Rightarrow> (False, rc)
      | Some q \<Rightarrow> (True, rc\<lparr>pending_recvframe_queue := q\<rparr>))"

definition recv_indicatepkts_pkt_loss_cnt :: "u64 \<Rightarrow> u64 \<Rightarrow> recv_priv \<Rightarrow> recv_priv" where
  "recv_indicatepkts_pkt_loss_cnt prev_seq current_seq rp =
     (let d = (if current_seq < prev_seq then 4096 + current_seq - prev_seq
               else current_seq - prev_seq) in
      rp\<lparr>dbg_rx_ampdu_loss_count := dbg_rx_ampdu_loss_count rp + d, rx_drop := rx_drop rp + d\<rparr>)"

text \<open>
  The indication loop: the window start, the pending queue, the receive counters; it returns the
  \<^verbatim>\<open>bPktInBuf\<close> flag, the new window start, the frames left and the frames handed to \<open>pm\<close>.
\<close>

fun indicate_loop :: "mpdu_consumer \<Rightarrow> u16 \<Rightarrow> recv_frame list \<Rightarrow> recv_priv \<Rightarrow>
    bool \<times> u16 \<times> recv_frame list \<times> recv_frame list \<times> recv_priv" where
  "indicate_loop pm iseq [] rp = (False, iseq, [], [], rp)"
| "indicate_loop pm iseq (f # q) rp =
     (if \<not> SN_LESS iseq (seq_of f) then
        (let iseq' = (if SN_EQUAL iseq (seq_of f) then (iseq + 1) AND 0xFFF else iseq);
             (r, rp) = pm f rp;
             rp = (if r \<noteq> RET_SUCCESS then rp\<lparr>dbg_rx_drop_count := dbg_rx_drop_count rp + 1\<rparr> else rp);
             (b, i, left, out, rp) = indicate_loop pm iseq' q rp
         in (b, i, left, f # out, rp))
      else (True, iseq, f # q, [], rp))"

definition recv_indicatepkts_in_order :: "mpdu_consumer \<Rightarrow> recv_reorder_ctrl \<Rightarrow> bool \<Rightarrow> recv_priv \<Rightarrow>
    bool \<times> recv_reorder_ctrl \<times> recv_frame list \<times> recv_priv" where
  "recv_indicatepkts_in_order pm rc bforced rp =
     (let rp = (if bforced
                then rp\<lparr>dbg_rx_ampdu_forced_indicate_count := dbg_rx_ampdu_forced_indicate_count rp + 1\<rparr>
                else rp) in
      if bforced \<and> pending_recvframe_queue rc = [] then (True, rc, [], rp)
      else
       (let (rc, rp) =
          (if bforced then
             (let s = seq_of (hd (pending_recvframe_queue rc)) in
              (rc\<lparr>indicate_seq := s\<rparr>,
               recv_indicatepkts_pkt_loss_cnt (ucast (indicate_seq rc)) (ucast s) rp))
           else (rc, rp));
            (b, i, left, out, rp) = indicate_loop pm (indicate_seq rc) (pending_recvframe_queue rc) rp
        in (b, rc\<lparr>indicate_seq := i, pending_recvframe_queue := left\<rparr>, out, rp)))"

text \<open>
  \<^verbatim>\<open>recv_indicatepkt_reorder\<close>. The control block is \<open>None\<close> when the frame carries no
  \<^verbatim>\<open>preorder_ctrl\<close>.
\<close>

definition recv_indicatepkt_reorder :: "mpdu_consumer \<Rightarrow> recv_frame \<Rightarrow> recv_reorder_ctrl option \<Rightarrow> recv_priv \<Rightarrow>
    ret \<times> recv_reorder_ctrl option \<times> recv_frame list \<times> recv_priv" where
  "recv_indicatepkt_reorder pm f orc rp =
     (case orc of
        None \<Rightarrow> (RET_SUCCESS, None, [], rp)
      | Some rc \<Rightarrow>
          if \<not> pa_qos (fr_attrib f) \<or> \<not> rc_enable rc then (RET_SUCCESS, Some rc, [], rp)
          else
           (let rc = (if rec_abba_rsp_ack rc then rc\<lparr>rec_abba_rsp_ack := False, indicate_seq := 0xFFFF\<rparr>
                      else rc);
                (ok, rc, rp) = check_indicate_seq rc (seq_of f) rp in
            if \<not> ok then
              (RET_FAIL, Some rc, [], rp\<lparr>dbg_rx_ampdu_drop_count := dbg_rx_ampdu_drop_count rp + 1\<rparr>)
            else
             (let (queued, rc) = enqueue_reorder_recvframe rc f in
              if \<not> queued then (RET_FAIL, Some rc, [], rp)
              else
               (let (inbuf, rc, out, rp) = recv_indicatepkts_in_order pm rc False rp;
                    rc = (if inbuf then
                            (if \<not> bReorderWaiting rc
                             then rc\<lparr>bReorderWaiting := True, reordering_ctrl_timer := True\<rparr> else rc)
                          else rc\<lparr>bReorderWaiting := False, reordering_ctrl_timer := False\<rparr>)
                in (RET_RX_HANDLED, Some rc, out, rp)))))"

text \<open>
  \<^verbatim>\<open>rtw_reordering_ctrl_timeout_handler\<close>: the timer has fired, so it is no longer pending when the
  handler starts; \<open>cannot_run\<close> is \<^verbatim>\<open>RTW_CANNOT_RUN(padapter)\<close>.
\<close>

definition rtw_reordering_ctrl_timeout_handler :: "mpdu_consumer \<Rightarrow> bool \<Rightarrow> recv_reorder_ctrl \<Rightarrow> recv_priv \<Rightarrow>
    recv_reorder_ctrl \<times> recv_frame list \<times> recv_priv" where
  "rtw_reordering_ctrl_timeout_handler pm cannot_run rc rp =
     (let rc = rc\<lparr>reordering_ctrl_timer := False\<rparr> in
      if cannot_run then (rc, [], rp)
      else
       (let rc = rc\<lparr>bReorderWaiting := False\<rparr>;
            (inbuf, rc, out, rp) = recv_indicatepkts_in_order pm rc True rp;
            rc = (if inbuf then rc\<lparr>reordering_ctrl_timer := True\<rparr> else rc)
        in (rc, out, rp)))"

definition recv_set_iseq_before_mpdu_process :: "recv_reorder_ctrl option \<Rightarrow> u16 \<Rightarrow> recv_reorder_ctrl option" where
  "recv_set_iseq_before_mpdu_process orc seq_num = map_option (\<lambda>rc. rc\<lparr>indicate_seq := seq_num\<rparr>) orc"

definition recv_set_iseq_after_mpdu_process :: "recv_reorder_ctrl option \<Rightarrow> recv_reorder_ctrl option" where
  "recv_set_iseq_after_mpdu_process orc =
     map_option (\<lambda>rc. rc\<lparr>indicate_seq := (indicate_seq rc + 1) mod 4096\<rparr>) orc"

section \<open>Modulo-4096 sequence arithmetic\<close>

text \<open>Distance from \<open>a\<close> forward to \<open>b\<close> in the 12-bit sequence space.\<close>

definition sdist :: "u16 \<Rightarrow> u16 \<Rightarrow> nat" where
  "sdist a b = (unat b + 4096 - unat a) mod 4096"

lemma sdist_less [simp]: "sdist a b < 4096"
  by (simp add: sdist_def)

lemma sdist_self [simp]: "sdist a a = 0"
  by (simp add: sdist_def)

lemma sdist_eq:
  assumes "a < 4096" "b < 4096"
  shows "sdist a b = (if unat a \<le> unat b then unat b - unat a else 4096 + unat b - unat a)"
  using assms by (auto simp: sdist_def word_less_nat_alt not_le le_mod_geq)

lemma sdist_0_iff: "a < 4096 \<Longrightarrow> b < 4096 \<Longrightarrow> sdist a b = 0 \<longleftrightarrow> a = b"
  by (auto simp: sdist_eq word_less_nat_alt word_unat_eq_iff)

lemma odd_div_2048:
  "n < 4096 \<Longrightarrow> odd (n div 2048) \<longleftrightarrow> 2048 \<le> (n :: nat)"
  "61440 \<le> n \<Longrightarrow> n < 65536 \<Longrightarrow> odd (n div 2048) \<longleftrightarrow> 63488 \<le> (n :: nat)"
proof -
  assume "n < 4096"
  then have "n div 2048 = (if 2048 \<le> n then 1 else 0)" by (auto intro!: div_nat_eqI)
  then show "odd (n div 2048) \<longleftrightarrow> 2048 \<le> n" by simp
next
  assume "61440 \<le> n" "n < 65536"
  then have "n div 2048 = (if 63488 \<le> n then 31 else 30)" by (auto intro!: div_nat_eqI)
  then show "odd (n div 2048) \<longleftrightarrow> 63488 \<le> n" by simp
qed

lemma SN_LESS_iff:
  assumes "a < 4096" "b < 4096"
  shows "SN_LESS a b \<longleftrightarrow> 2048 \<le> sdist b a"
proof -
  have ab: "unat a < 4096" "unat b < 4096"
    using assms by (simp_all add: word_less_nat_alt)
  have "(a - b) AND 0x800 \<noteq> 0 \<longleftrightarrow> bit (a - b) 11"
  proof -
    have "(0x800 :: u16) = push_bit 11 1" by simp
    then show ?thesis by (metis bit_iff_and_push_bit_not_eq_0)
  qed
  also have "\<dots> \<longleftrightarrow> odd (unat (a - b) div 2048)"
  proof -
    have "bit (a - b) 11 \<longleftrightarrow> bit (unat (a - b)) 11" by (simp add: bit_unsigned_iff)
    then show ?thesis by (simp add: bit_iff_odd)
  qed
  also have "\<dots> \<longleftrightarrow> 2048 \<le> sdist b a"
  proof (cases "unat b \<le> unat a")
    case True
    then have "unat (a - b) = unat a - unat b" by (simp add: unat_sub word_le_nat_alt)
    moreover have "sdist b a = unat a - unat b"
      using True assms by (simp add: sdist_eq)
    ultimately show ?thesis using ab by (simp add: odd_div_2048)
  next
    case False
    then have "unat (a - b) = 65536 + unat a - unat b"
      using ab by (simp add: unat_sub_if' )
    moreover have "sdist b a = 4096 + unat a - unat b"
      using False assms by (simp add: sdist_eq)
    ultimately show ?thesis using ab False by (subst odd_div_2048) auto
  qed
  finally show ?thesis by (simp add: SN_LESS_def)
qed

lemma sdist_advance:
  assumes "i < 4096" "j < 4096" "s < 4096" "sdist i j \<le> sdist i s"
  shows "sdist j s = sdist i s - sdist i j"
  using assms by (auto simp: sdist_eq word_less_nat_alt split: if_splits)

lemma sdist_behind:
  assumes "i < 4096" "j < 4096" "s < 4096" "sdist i s < sdist i j"
  shows "sdist j s = 4096 + sdist i s - sdist i j"
  using assms by (auto simp: sdist_eq word_less_nat_alt split: if_splits)

lemma SN_LESS_off:
  assumes "i < 4096" "a < 4096" "b < 4096" "sdist i a \<le> 2047" "sdist i b \<le> 2047"
  shows "SN_LESS a b \<longleftrightarrow> sdist i a < sdist i b"
proof (cases "sdist i b \<le> sdist i a")
  case True
  then have "sdist b a = sdist i a - sdist i b" using assms by (intro sdist_advance) auto
  then show ?thesis using True assms by (simp add: SN_LESS_iff)
next
  case False
  then have "sdist b a = 4096 + sdist i a - sdist i b" using assms by (intro sdist_behind) auto
  then show ?thesis using False assms by (simp add: SN_LESS_iff)
qed

lemma and_0xFFF: "unat (x AND 0xFFF :: u16) = unat x mod 4096"
proof -
  have "(0xFFF :: u16) = mask 12" by (simp add: mask_eq_exp_minus_1)
  then have "x AND 0xFFF = take_bit 12 x" by (simp only: take_bit_eq_mask)
  then have "unat (x AND 0xFFF) = take_bit 12 (unat x)" by (simp only: unsigned_take_bit_eq)
  then show ?thesis by (simp add: take_bit_eq_mod)
qed

lemma and_0xFFF_less [simp]: "(x AND 0xFFF :: u16) < 4096"
  by (simp add: word_less_nat_alt and_0xFFF)

lemma unat_succ_and: "x < 4096 \<Longrightarrow> unat ((x + 1) AND 0xFFF :: u16) = (unat x + 1) mod 4096"
  by (simp add: and_0xFFF unat_word_ariths word_less_nat_alt mod_mod_cancel)

lemma sdist_succ:
  assumes "i < 4096" "j < 4096" "sdist i j < 4095"
  shows "sdist i ((j + 1) AND 0xFFF) = Suc (sdist i j)"
proof -
  have "unat ((j + 1) AND 0xFFF) = (if unat j = 4095 then 0 else unat j + 1)"
    using assms(2) by (auto simp: unat_succ_and word_less_nat_alt)
  then show ?thesis
    using assms by (auto simp: sdist_eq [of i j] sdist_eq [of i "(j + 1) AND 0xFFF"]
        word_less_nat_alt split: if_splits)
qed

section \<open>The window check\<close>

lemma unat_ucast_u8_u16: "unat (ucast (w :: u8) :: u16) = unat w"
  using u8_bound [of w] by (simp add: unsigned_ucast_eq take_bit_nat_eq_self)

lemma wend_sdist:
  assumes "i < 4096" "1 \<le> unat w"
  shows "sdist i ((i + ucast (w :: u8) - 1) AND 0xFFF) = unat w - 1"
proof -
  have "unat (i + ucast w - 1) = unat i + unat w - 1"
  proof -
    have "unat (i + ucast w) = unat i + unat w"
      using assms u8_bound [of w] by (simp add: unat_word_ariths unat_ucast_u8_u16 word_less_nat_alt)
    moreover have "(1 :: u16) \<le> i + ucast w"
      using assms calculation by (simp add: word_le_nat_alt)
    ultimately show ?thesis by (simp add: unat_sub)
  qed
  then have "unat ((i + ucast w - 1) AND 0xFFF) = (unat i + unat w - 1) mod 4096"
    by (simp add: and_0xFFF)
  moreover have "(unat i + unat w - 1) mod 4096
      = (if unat i + unat w - 1 < 4096 then unat i + unat w - 1 else unat i + unat w - 1 - 4096)"
    using assms u8_bound [of w] by (auto simp: word_less_nat_alt le_mod_geq not_less)
  ultimately show ?thesis
    using assms u8_bound [of w] sdist_eq [OF assms(1) and_0xFFF_less, of "i + ucast w - 1"]
    by (auto simp: word_less_nat_alt split: if_splits)
qed

lemma unat_succ_u16: "unat (x :: u16) < 65535 \<Longrightarrow> unat (x + 1) = unat x + 1"
  by (simp add: unat_word_ariths)

text \<open>Both branches of the window shift move the window start to \<open>seq + 1 - wsize\<close> modulo 4096.\<close>

lemma window_shift:
  assumes i: "i < 4096" and s: "s < 4096" and w: "1 \<le> unat (w :: u8)" and o: "unat w \<le> sdist i s"
    and j: "j = (if uint s \<ge> uint w - 1 then s + 1 - ucast w else 0xFFF - (ucast w - (s + 1)) + 1)"
  shows "j < 4096" and "sdist i j = sdist i s + 1 - unat w"
proof -
  have s1: "unat (s + 1) = unat s + 1"
    using s by (simp add: unat_word_ariths word_less_nat_alt)
  have cond: "uint s \<ge> uint w - 1 \<longleftrightarrow> unat w \<le> unat s + 1"
  proof -
    have "uint s = int (unat s)" "uint w = int (unat w)" by simp_all
    then show ?thesis by linarith
  qed
  have uj: "unat j = (if unat w \<le> unat s + 1 then unat s + 1 - unat w else 4096 + unat s + 1 - unat w)"
  proof (cases "unat w \<le> unat s + 1")
    case True
    then have "(ucast w :: u16) \<le> s + 1" by (simp add: word_le_nat_alt s1 unat_ucast_u8_u16)
    then have "unat (s + 1 - ucast w) = unat (s + 1) - unat (ucast w :: u16)" by (rule unat_sub)
    with True show ?thesis by (simp add: j cond s1 unat_ucast_u8_u16)
  next
    case False
    then have "s + 1 \<le> (ucast w :: u16)" by (simp add: word_le_nat_alt s1 unat_ucast_u8_u16)
    then have d: "unat (ucast w - (s + 1)) = unat w - (unat s + 1)"
      by (simp add: unat_sub s1 unat_ucast_u8_u16)
    then have "ucast w - (s + 1) \<le> (0xFFF :: u16)"
      using u8_bound [of w] by (simp add: word_le_nat_alt)
    then have e: "unat (0xFFF - (ucast w - (s + 1))) = 4095 - (unat w - (unat s + 1))"
      by (simp only: unat_sub d) simp
    then have "unat (0xFFF - (ucast w - (s + 1)) + 1) = 4095 - (unat w - (unat s + 1)) + 1"
      by (subst unat_succ_u16) auto
    with False u8_bound [of w] show ?thesis by (simp add: j cond)
  qed
  then show j': "j < 4096"
    using w s by (auto simp: word_less_nat_alt)
  show "sdist i j = sdist i s + 1 - unat w"
    using uj j' i s w o by (auto simp: sdist_eq word_less_nat_alt split: if_splits)
qed

text \<open>The step of the window start that the check makes, as a function of the forward distance.\<close>

definition wstep :: "nat \<Rightarrow> nat \<Rightarrow> nat" where
  "wstep w d = (if d = 0 then 1 else if w \<le> d then d + 1 - w else 0)"

lemma check_indicate_seq_spec:
  assumes "indicate_seq rc < 4096" "s < 4096" "1 \<le> unat (wsize_b rc)"
    and chk: "check_indicate_seq rc s rp = (ok, rc', rp')"
  shows "ok \<longleftrightarrow> sdist (indicate_seq rc) s < 2048"
    and "\<not> ok \<Longrightarrow> rc' = rc \<and> rp' = rp"
    and "ok \<Longrightarrow> sdist (indicate_seq rc) s < unat (wsize_b rc) \<Longrightarrow> rp' = rp"
    and "ok \<Longrightarrow> indicate_seq rc' < 4096
           \<and> sdist (indicate_seq rc) (indicate_seq rc') = wstep (unat (wsize_b rc)) (sdist (indicate_seq rc) s)
           \<and> rc' = rc\<lparr>indicate_seq := indicate_seq rc'\<rparr>"
proof -
  let ?i = "indicate_seq rc" and ?w = "wsize_b rc"
  let ?wend = "(?i + ucast ?w - 1) AND 0xFFF :: u16"
  let ?o = "sdist ?i s"
  have ff: "?i \<noteq> 0xFFFF" using assms(1) by auto
  have drop: "SN_LESS s ?i \<longleftrightarrow> 2048 \<le> ?o" using assms by (simp add: SN_LESS_iff)
  have eq: "SN_EQUAL s ?i \<longleftrightarrow> ?o = 0" using assms by (auto simp: SN_EQUAL_def sdist_0_iff)
  have wend: "sdist ?i ?wend = unat ?w - 1" by (rule wend_sdist) (use assms in auto)
  have beyond: "?o < 2048 \<Longrightarrow> SN_LESS ?wend s \<longleftrightarrow> unat ?w \<le> ?o"
    using SN_LESS_off [of ?i ?wend s] assms wend u8_bound [of ?w] by auto
  show "ok \<longleftrightarrow> ?o < 2048"
    using chk drop by (auto simp: check_indicate_seq_def Let_def ff split: if_splits)
  show "\<not> ok \<Longrightarrow> rc' = rc \<and> rp' = rp"
    using chk by (auto simp: check_indicate_seq_def Let_def ff split: if_splits)
  show "ok \<Longrightarrow> ?o < unat ?w \<Longrightarrow> rp' = rp"
    using chk drop eq beyond by (auto simp: check_indicate_seq_def Let_def ff split: if_splits)
  assume ok: "ok"
  then have o: "?o < 2048" using \<open>ok \<longleftrightarrow> ?o < 2048\<close> by simp
  consider (equal) "?o = 0" | (shift) "0 < ?o" "unat ?w \<le> ?o" | (inside) "0 < ?o" "?o < unat ?w"
    by linarith
  then show "indicate_seq rc' < 4096 \<and> sdist ?i (indicate_seq rc') = wstep (unat ?w) ?o
      \<and> rc' = rc\<lparr>indicate_seq := indicate_seq rc'\<rparr>"
  proof cases
    case equal
    with chk o drop eq have "rc' = rc\<lparr>indicate_seq := (?i + 1) AND 0xFFF\<rparr>"
      by (auto simp: check_indicate_seq_def Let_def ff split: if_splits)
    with equal assms show ?thesis by (simp add: wstep_def sdist_succ)
  next
    case shift
    with chk o drop eq beyond have "indicate_seq rc'
        = (if uint s \<ge> uint ?w - 1 then s + 1 - ucast ?w else 0xFFF - (ucast ?w - (s + 1)) + 1)"
      and "rc' = rc\<lparr>indicate_seq := indicate_seq rc'\<rparr>"
      by (auto simp: check_indicate_seq_def Let_def ff split: if_splits)
    with window_shift [OF assms(1,2,3) shift(2)] shift show ?thesis by (simp add: wstep_def)
  next
    case inside
    with chk o drop eq beyond have "rc' = rc"
      by (auto simp: check_indicate_seq_def Let_def ff split: if_splits)
    with inside assms show ?thesis by (simp add: wstep_def)
  qed
qed

lemma check_init:
  assumes "s < 4096"
  shows "check_indicate_seq (rc\<lparr>indicate_seq := 0xFFFF\<rparr>) s rp = check_indicate_seq (rc\<lparr>indicate_seq := s\<rparr>) s rp"
proof -
  have "s \<noteq> 0xFFFF" using assms by auto
  then show ?thesis by (simp add: check_indicate_seq_def)
qed

section \<open>Insertion and indication\<close>

abbreviation off :: "u16 \<Rightarrow> recv_frame \<Rightarrow> nat" where
  "off i f \<equiv> sdist i (seq_of f)"

definition off_sorted :: "u16 \<Rightarrow> recv_frame list \<Rightarrow> bool" where
  "off_sorted i q \<longleftrightarrow> sorted_wrt (\<lambda>f g. off i f < off i g) q"

definition near :: "u16 \<Rightarrow> recv_frame \<Rightarrow> bool" where
  "near i f \<longleftrightarrow> seq_of f < 4096 \<and> off i f \<le> 2047"

lemma scan_spec:
  assumes "i < 4096" "near i f" "\<forall>g\<in>set q. near i g" "off_sorted i q"
  shows "(enqueue_scan f q = None \<longleftrightarrow> (\<exists>g\<in>set q. seq_of g = seq_of f))
     \<and> (\<forall>q'. enqueue_scan f q = Some q' \<longrightarrow> mset q' = add_mset f (mset q) \<and> off_sorted i q')"
  using assms
proof (induction q)
  case Nil
  then show ?case by (simp add: off_sorted_def)
next
  case (Cons g q)
  have IH: "(enqueue_scan f q = None \<longleftrightarrow> (\<exists>g\<in>set q. seq_of g = seq_of f))
     \<and> (\<forall>q'. enqueue_scan f q = Some q' \<longrightarrow> mset q' = add_mset f (mset q) \<and> off_sorted i q')"
    using Cons by (auto simp: off_sorted_def)
  have less: "SN_LESS (seq_of g) (seq_of f) \<longleftrightarrow> off i g < off i f"
    using Cons.prems by (intro SN_LESS_off) (auto simp: near_def)
  have inj: "off i h = off i f \<longleftrightarrow> seq_of h = seq_of f" if "h \<in> set (g # q)" for h
  proof
    assume "off i h = off i f"
    then have "sdist (seq_of f) (seq_of h) = 0"
      using Cons.prems that by (subst sdist_advance [of i]) (auto simp: near_def)
    then show "seq_of h = seq_of f"
      using Cons.prems that by (subst (asm) sdist_0_iff) (auto simp: near_def)
  qed simp
  have tail: "\<forall>h\<in>set q. off i g < off i h" using Cons.prems by (simp add: off_sorted_def)
  consider (lt) "off i g < off i f" | (eq) "off i g = off i f" | (gt) "off i f < off i g" by linarith
  then show ?case
  proof cases
    case lt
    then have "seq_of g \<noteq> seq_of f" by auto
    moreover have "set z = insert f (set q)" if "enqueue_scan f q = Some z" for z
      using IH that by (metis set_mset_mset set_mset_add_mset_insert)
    ultimately show ?thesis
      using lt less IH tail by (auto simp: off_sorted_def)
  next
    case eq
    then show ?thesis using less inj [of g] by (auto simp: SN_EQUAL_def)
  next
    case gt
    then have "\<forall>h\<in>set (g # q). seq_of h \<noteq> seq_of f" using tail by auto
    with gt less tail Cons.prems show ?thesis
      by (auto simp: SN_EQUAL_def off_sorted_def)
  qed
qed

lemma indicate_loop_spec:
  assumes "i < 4096" "j < 4096" "\<forall>f\<in>set q. near i f" "off_sorted i q"
    and "q \<noteq> [] \<longrightarrow> sdist i j \<le> 2047" "sdist i j \<le> 2048"
    and "indicate_loop pm j q rp = (b, j', left, out, rp')"
  shows "q = out @ left \<and> j' < 4096 \<and> sdist i j \<le> sdist i j' \<and> sdist i j' \<le> 2048
     \<and> (\<forall>f\<in>set out. off i f < sdist i j') \<and> (\<forall>f\<in>set left. sdist i j' < off i f)
     \<and> (b \<longleftrightarrow> left \<noteq> [])"
  using assms
proof (induction q arbitrary: j rp b j' left out rp')
  case Nil
  then show ?case by auto
next
  case (Cons f q)
  have near: "near i f" "seq_of f < 4096" "off i f \<le> 2047" and j: "sdist i j \<le> 2047"
    and tail: "\<forall>g\<in>set q. off i f < off i g" "off_sorted i q" "\<forall>g\<in>set q. near i g"
    using Cons.prems by (auto simp: off_sorted_def near_def)
  have less: "SN_LESS j (seq_of f) \<longleftrightarrow> sdist i j < off i f"
    using Cons.prems j near by (intro SN_LESS_off) auto
  show ?case
  proof (cases "sdist i j < off i f")
    case True
    then have "b" "j' = j" "left = f # q" "out = []"
      using Cons.prems(7) less by auto
    then show ?thesis using True Cons.prems tail by auto
  next
    case False
    define j1 where "j1 = (if SN_EQUAL j (seq_of f) then (j + 1) AND 0xFFF else j)"
    obtain r rp1 where pm: "pm f rp = (r, rp1)" by fastforce
    define rp2 where "rp2 = (if r \<noteq> RET_SUCCESS then rp1\<lparr>dbg_rx_drop_count := dbg_rx_drop_count rp1 + 1\<rparr> else rp1)"
    obtain out' where rec: "indicate_loop pm j1 q rp2 = (b, j', left, out', rp')" and out: "out = f # out'"
      using Cons.prems(7) False less
      by (auto simp: Let_def pm j1_def rp2_def split: prod.splits if_splits)
    have eq: "SN_EQUAL j (seq_of f) \<longleftrightarrow> sdist i j = off i f"
    proof
      assume "sdist i j = off i f"
      then have "sdist j (seq_of f) = 0"
        using Cons.prems near by (subst sdist_advance [of i]) auto
      then show "SN_EQUAL j (seq_of f)"
        using Cons.prems near by (simp add: sdist_0_iff SN_EQUAL_def)
    qed (simp add: SN_EQUAL_def)
    have j1: "j1 < 4096" "sdist i j \<le> sdist i j1" "off i f < sdist i j1" "sdist i j1 \<le> 2048"
      "q \<noteq> [] \<longrightarrow> sdist i j1 \<le> 2047"
      using Cons.prems(1,2) j False near eq tail(1,3)
      by (auto simp: j1_def sdist_succ near_def neq_Nil_conv)
    show ?thesis
      using Cons.IH [OF Cons.prems(1) j1(1) tail(3,2) j1(5,4) rec] j1 out by auto
  qed
qed

section \<open>The reorder buffer invariant\<close>

definition reorder_inv :: "recv_reorder_ctrl \<Rightarrow> bool" where
  "reorder_inv rc \<longleftrightarrow> 1 \<le> unat (wsize_b rc)
     \<and> (rec_abba_rsp_ack rc \<longrightarrow> pending_recvframe_queue rc = [])
     \<and> (bReorderWaiting rc \<longrightarrow> reordering_ctrl_timer rc)
     \<and> (pending_recvframe_queue rc \<noteq> [] \<longrightarrow> reordering_ctrl_timer rc)
     \<and> (if indicate_seq rc = 0xFFFF then pending_recvframe_queue rc = []
        else indicate_seq rc < 4096 \<and> off_sorted (indicate_seq rc) (pending_recvframe_queue rc)
          \<and> (\<forall>f\<in>set (pending_recvframe_queue rc). seq_of f < 4096 \<and> 0 < off (indicate_seq rc) f
               \<and> off (indicate_seq rc) f < unat (wsize_b rc)))"

text \<open>The window start a call works from: a fresh block-ack session starts at the frame itself.\<close>

definition window_start :: "recv_reorder_ctrl \<Rightarrow> recv_frame \<Rightarrow> u16" where
  "window_start rc f =
     (if rec_abba_rsp_ack rc \<or> indicate_seq rc = 0xFFFF then seq_of f else indicate_seq rc)"

text \<open>
  What an indication pass from window start \<open>j\<close> guarantees, seen from an earlier window start \<open>i\<close>:
  the frames delivered lie before the new window start \<open>j'\<close>, those kept lie after it.
\<close>

definition split_at :: "u16 \<Rightarrow> u16 \<Rightarrow> recv_frame list \<Rightarrow> recv_frame list \<Rightarrow> bool" where
  "split_at i j' out left \<longleftrightarrow> j' < 4096 \<and> sdist i j' \<le> 2048 \<and> off_sorted i (out @ left)
     \<and> (\<forall>f\<in>set out. near i f \<and> off i f < sdist i j')
     \<and> (\<forall>f\<in>set left. near i f \<and> sdist i j' < off i f)"

lemma split_at_rebase:
  assumes "i < 4096" "split_at i j' out left"
  shows "off_sorted j' left \<and> (\<forall>f\<in>set left. seq_of f < 4096 \<and> off j' f = off i f - sdist i j' \<and> 0 < off j' f)"
proof -
  have *: "off j' f = off i f - sdist i j'" if "f \<in> set left" for f
    using assms that by (intro sdist_advance) (auto simp: split_at_def near_def)
  have "off_sorted i left" using assms by (auto simp: split_at_def off_sorted_def sorted_wrt_append)
  then have "off_sorted j' left"
    unfolding off_sorted_def
    by (rule sorted_wrt_mono_rel [rotated]) (use * assms in \<open>auto simp: split_at_def\<close>)
  then show ?thesis using * assms by (auto simp: split_at_def near_def)
qed

text \<open>The fields an indication pass does not touch.\<close>

definition rc_frame :: "recv_reorder_ctrl \<Rightarrow> bool \<times> u8 \<times> bool \<times> bool \<times> bool" where
  "rc_frame rc = (rc_enable rc, wsize_b rc, reordering_ctrl_timer rc, bReorderWaiting rc, rec_abba_rsp_ack rc)"

lemma in_order_spec:
  assumes "i < 4096" "indicate_seq rc < 4096" "\<forall>f\<in>set (pending_recvframe_queue rc). near i f"
    and "off_sorted i (pending_recvframe_queue rc)" "sdist i (indicate_seq rc) \<le> 2047"
    and "recv_indicatepkts_in_order pm rc False rp = (b, rc', out, rp')"
  shows "split_at i (indicate_seq rc') out (pending_recvframe_queue rc')
     \<and> pending_recvframe_queue rc = out @ pending_recvframe_queue rc'
     \<and> sdist i (indicate_seq rc) \<le> sdist i (indicate_seq rc')
     \<and> (b \<longleftrightarrow> pending_recvframe_queue rc' \<noteq> [])
     \<and> rc_frame rc' = rc_frame rc"
proof -
  obtain j' left rp'' where l: "indicate_loop pm (indicate_seq rc) (pending_recvframe_queue rc) rp = (b, j', left, out, rp'')"
    and rc': "rc' = rc\<lparr>indicate_seq := j', pending_recvframe_queue := left\<rparr>"
    using assms(6) by (auto simp: recv_indicatepkts_in_order_def Let_def split: prod.splits)
  have "pending_recvframe_queue rc = out @ left \<and> j' < 4096 \<and> sdist i (indicate_seq rc) \<le> sdist i j' \<and> sdist i j' \<le> 2048
     \<and> (\<forall>f\<in>set out. off i f < sdist i j') \<and> (\<forall>f\<in>set left. sdist i j' < off i f) \<and> (b \<longleftrightarrow> left \<noteq> [])"
    using assms by (intro indicate_loop_spec [OF _ _ _ _ _ _ l]) auto
  then show ?thesis using assms rc' by (auto simp: split_at_def rc_frame_def)
qed

lemma reorder_inv_newI:
  assumes "i < 4096" "split_at i (indicate_seq rc) out (pending_recvframe_queue rc)" "1 \<le> unat (wsize_b rc)"
    and "\<forall>f\<in>set (pending_recvframe_queue rc). off i f < sdist i (indicate_seq rc) + unat (wsize_b rc)"
    and "rec_abba_rsp_ack rc \<longrightarrow> pending_recvframe_queue rc = []"
    and "bReorderWaiting rc \<longrightarrow> reordering_ctrl_timer rc"
    and "pending_recvframe_queue rc \<noteq> [] \<longrightarrow> reordering_ctrl_timer rc"
  shows "reorder_inv rc"
proof -
  have "indicate_seq rc < 4096" using assms(2) by (simp add: split_at_def)
  moreover from this have "indicate_seq rc \<noteq> 0xFFFF" by auto
  ultimately show ?thesis
    using split_at_rebase [OF assms(1,2)] assms(3-) by (fastforce simp: reorder_inv_def)
qed

text \<open>One call of \<^verbatim>\<open>recv_indicatepkt_reorder\<close> on an enabled control block.\<close>

lemma reorder_call_spec:
  assumes inv: "reorder_inv rc" and en: "rc_enable rc" and qos: "pa_qos (fr_attrib f)"
    and seq: "seq_of f < 4096"
    and call: "recv_indicatepkt_reorder pm f (Some rc) rp = (r, orc', out, rp')"
  defines "i \<equiv> window_start rc f"
  obtains (dropped) "r = RET_FAIL" "out = []" "orc' = Some rc" "rec_abba_rsp_ack rc = False" "indicate_seq rc = i"
      "2048 \<le> off i f \<or> (\<exists>g\<in>set (pending_recvframe_queue rc). seq_of g = seq_of f)"
      "rp' = (if 2048 \<le> off i f then rp\<lparr>dbg_rx_ampdu_drop_count := dbg_rx_ampdu_drop_count rp + 1\<rparr> else rp)"
  | (handled) rc' where "r = RET_RX_HANDLED" "orc' = Some rc'" "rc_enable rc'" "wsize_b rc' = wsize_b rc"
      "split_at i (indicate_seq rc') out (pending_recvframe_queue rc')" "reorder_inv rc'"
      "mset out + mset (pending_recvframe_queue rc') = add_mset f (mset (pending_recvframe_queue rc))"
      "off i f < 2048" "\<not> rec_abba_rsp_ack rc'" "wstep (unat (wsize_b rc)) (off i f) \<le> sdist i (indicate_seq rc')"
      "\<forall>g\<in>set (pending_recvframe_queue rc). seq_of g \<noteq> seq_of f"
      "off i f = 0 \<Longrightarrow> f \<in> set out"
proof -
  define rc0 where "rc0 = rc\<lparr>rec_abba_rsp_ack := False, indicate_seq := i\<rparr>"
  let ?q = "pending_recvframe_queue rc" and ?w = "unat (wsize_b rc)"
  have i: "i < 4096" using inv seq by (auto simp: i_def window_start_def reorder_inv_def split: if_splits)
  have w: "1 \<le> ?w" using inv by (simp add: reorder_inv_def)
  have q: "off_sorted i ?q" "\<forall>g\<in>set ?q. near i g \<and> 0 < off i g \<and> off i g < ?w"
    using inv u8_bound [of "wsize_b rc"]
    by (fastforce simp: i_def window_start_def reorder_inv_def off_sorted_def near_def split: if_splits)+
  obtain ok rc1 rp1 where chk: "check_indicate_seq rc0 (seq_of f) rp = (ok, rc1, rp1)"
    by (metis prod_cases3)
  have chk': "check_indicate_seq (if rec_abba_rsp_ack rc then rc\<lparr>rec_abba_rsp_ack := False, indicate_seq := 0xFFFF\<rparr> else rc)
      (seq_of f) rp = (ok, rc1, rp1)"
  proof -
    have "rc = rc\<lparr>indicate_seq := 0xFFFF\<rparr>" if "indicate_seq rc = 0xFFFF" using that by simp
    moreover have "rc0 = rc" if "indicate_seq rc \<noteq> 0xFFFF" "\<not> rec_abba_rsp_ack rc"
      using that by (simp add: rc0_def i_def window_start_def)
    moreover have "rc\<lparr>rec_abba_rsp_ack := False\<rparr> = rc" if "\<not> rec_abba_rsp_ack rc"
      using that by (cases rc) simp
    ultimately show ?thesis
      using chk check_init [OF seq, of rc rp] check_init [OF seq, of "rc\<lparr>rec_abba_rsp_ack := False\<rparr>" rp]
      by (cases "rec_abba_rsp_ack rc"; cases "indicate_seq rc = 0xFFFF")
        (simp_all add: rc0_def i_def window_start_def)
  qed
  note spec = check_indicate_seq_spec [of rc0, OF _ seq _ chk]
  have ok: "ok \<longleftrightarrow> off i f < 2048" using spec(1) i w by (simp add: rc0_def)
  show thesis
  proof (cases ok)
    case False
    then have "off i f \<noteq> 0" using ok by auto
    then have keep: "rec_abba_rsp_ack rc = False" "indicate_seq rc = i" "rc0 = rc"
      by (auto simp: i_def window_start_def rc0_def split: if_splits)
    have "rc1 = rc0" "rp1 = rp" using spec(2) i w False by (simp_all add: rc0_def)
    then have "r = RET_FAIL \<and> out = [] \<and> orc' = Some rc \<and> rp' = rp\<lparr>dbg_rx_ampdu_drop_count := dbg_rx_ampdu_drop_count rp + 1\<rparr>"
      using call False keep chk' en qos by (auto simp: recv_indicatepkt_reorder_def Let_def)
    then show thesis using ok False keep by (intro dropped) auto
  next
    case True
    then have o: "off i f < 2048" using ok by simp
    have rc1: "indicate_seq rc1 < 4096" "sdist i (indicate_seq rc1) = wstep ?w (off i f)"
      "rc1 = rc0\<lparr>indicate_seq := indicate_seq rc1\<rparr>"
      using spec(4) i w True by (auto simp: rc0_def)
    have nf: "near i f" using seq o by (simp add: near_def)
    have scan: "(enqueue_scan f ?q = None \<longleftrightarrow> (\<exists>g\<in>set ?q. seq_of g = seq_of f))
       \<and> (\<forall>q'. enqueue_scan f ?q = Some q' \<longrightarrow> mset q' = add_mset f (mset ?q) \<and> off_sorted i q')"
      by (rule scan_spec) (use i nf q in auto)
    have pend1: "pending_recvframe_queue rc1 = ?q" by (subst rc1(3)) (simp add: rc0_def)
    have frame1: "rc_frame rc1 = (rc_enable rc, wsize_b rc, reordering_ctrl_timer rc, bReorderWaiting rc, False)"
      by (subst rc1(3)) (simp add: rc0_def rc_frame_def)
    show thesis
    proof (cases "enqueue_scan f ?q")
      case None
      then obtain g where g: "g \<in> set ?q" "seq_of g = seq_of f" using scan by auto
      then have "0 < off i f" "off i f < ?w" using q by metis+
      then have same: "sdist i (indicate_seq rc1) = 0" using rc1(1,2) by (simp add: wstep_def)
      then have "indicate_seq rc1 = i" using i rc1(1) by (simp add: sdist_0_iff)
      moreover have keep: "rec_abba_rsp_ack rc = False" "indicate_seq rc = i" "rc0 = rc"
        using \<open>0 < off i f\<close> by (auto simp: i_def window_start_def rc0_def split: if_splits)
      ultimately have "rc1 = rc" using rc1(3) by simp
      moreover have "rp1 = rp" using spec(3) i w True \<open>off i f < ?w\<close> by (simp add: rc0_def)
      ultimately have "r = RET_FAIL \<and> out = [] \<and> orc' = Some rc \<and> rp' = rp"
        using call True chk' en qos None pend1
        by (auto simp: recv_indicatepkt_reorder_def enqueue_reorder_recvframe_def Let_def)
      then show thesis using keep g o by (intro dropped) auto
    next
      case (Some q')
      define rc2 where "rc2 = rc1\<lparr>pending_recvframe_queue := q'\<rparr>"
      obtain b rc3 out3 rp3 where io: "recv_indicatepkts_in_order pm rc2 False rp1 = (b, rc3, out3, rp3)"
        by (metis prod_cases4)
      define rc4 where "rc4 = (if b then (if \<not> bReorderWaiting rc3
          then rc3\<lparr>bReorderWaiting := True, reordering_ctrl_timer := True\<rparr> else rc3)
          else rc3\<lparr>bReorderWaiting := False, reordering_ctrl_timer := False\<rparr>)"
      have res: "r = RET_RX_HANDLED" "orc' = Some rc4" "out = out3"
        using call True chk' en qos Some pend1 io
        by (auto simp: recv_indicatepkt_reorder_def enqueue_reorder_recvframe_def Let_def rc2_def rc4_def)
      have q': "mset q' = add_mset f (mset ?q)" "off_sorted i q'" using scan Some by auto
      then have set': "set q' = insert f (set ?q)" by (metis set_mset_mset set_mset_add_mset_insert)
      have ws: "wstep ?w (off i f) \<le> 2047" using o w by (auto simp: wstep_def)
      have spec3: "split_at i (indicate_seq rc3) out3 (pending_recvframe_queue rc3)
         \<and> pending_recvframe_queue rc2 = out3 @ pending_recvframe_queue rc3
         \<and> sdist i (indicate_seq rc2) \<le> sdist i (indicate_seq rc3)
         \<and> (b \<longleftrightarrow> pending_recvframe_queue rc3 \<noteq> [])
         \<and> rc_frame rc3 = rc_frame rc2"
        by (rule in_order_spec [OF _ _ _ _ _ io]) (use i rc1(1,2) q q' set' nf ws in \<open>auto simp: rc2_def\<close>)
      have fields: "wsize_b rc4 = wsize_b rc" "rc_enable rc4 = rc_enable rc" "\<not> rec_abba_rsp_ack rc4"
        "indicate_seq rc4 = indicate_seq rc3" "pending_recvframe_queue rc4 = pending_recvframe_queue rc3"
        and wait3: "bReorderWaiting rc3 = bReorderWaiting rc" "reordering_ctrl_timer rc3 = reordering_ctrl_timer rc"
        using spec3 frame1 by (auto simp: rc4_def rc2_def rc_frame_def)
      have ws3: "wstep ?w (off i f) \<le> sdist i (indicate_seq rc3)"
        using spec3 rc1(1,2) by (simp add: rc2_def)
      have bound: "\<forall>g\<in>set q'. off i g < wstep ?w (off i f) + ?w"
        using q(2) set' w by (auto simp: wstep_def)
      have pend4: "\<forall>g\<in>set (pending_recvframe_queue rc3). off i g < sdist i (indicate_seq rc3) + ?w"
      proof
        fix g assume "g \<in> set (pending_recvframe_queue rc3)"
        then have "g \<in> set q'" using spec3 by (simp add: rc2_def)
        then show "off i g < sdist i (indicate_seq rc3) + ?w" using bound ws3 by fastforce
      qed
      have timer4: "bReorderWaiting rc4 \<longrightarrow> reordering_ctrl_timer rc4"
        "pending_recvframe_queue rc4 \<noteq> [] \<longrightarrow> reordering_ctrl_timer rc4"
        using spec3 inv wait3 by (auto simp: rc4_def reorder_inv_def)
      have inv4: "reorder_inv rc4"
        by (rule reorder_inv_newI [of i _ out3]) (use i spec3 w fields pend4 timer4 in simp_all)
      have "f \<in> set out3" if "off i f = 0"
      proof (rule ccontr)
        assume "f \<notin> set out3"
        then have "f \<in> set (pending_recvframe_queue rc3)" using spec3 set' by (auto simp: rc2_def)
        then show False using spec3 that by (auto simp: split_at_def)
      qed
      then show thesis
        using res fields inv4 spec3 q'(1) o ws3 scan Some
        by (intro handled [of rc4]) (auto simp: rc2_def en)
    qed
  qed
qed

section \<open>The timeout handler\<close>

lemma in_order_forced:
  assumes "pending_recvframe_queue rc \<noteq> []"
  obtains rp1 where "recv_indicatepkts_in_order pm rc True rp
    = recv_indicatepkts_in_order pm (rc\<lparr>indicate_seq := seq_of (hd (pending_recvframe_queue rc))\<rparr>) False rp1"
  using assms that by (auto simp: recv_indicatepkts_in_order_def Let_def split: prod.splits)

lemma timeout_spec:
  assumes inv: "reorder_inv rc"
    and call: "rtw_reordering_ctrl_timeout_handler pm False rc rp = (rc', out, rp')"
  shows "reorder_inv rc'" and "pending_recvframe_queue rc = out @ pending_recvframe_queue rc'"
    and "pending_recvframe_queue rc = [] \<Longrightarrow> indicate_seq rc' = indicate_seq rc"
    and "pending_recvframe_queue rc \<noteq> [] \<Longrightarrow> out \<noteq> []
         \<and> split_at (indicate_seq rc) (indicate_seq rc') out (pending_recvframe_queue rc')"
    and "rc_enable rc' = rc_enable rc"
proof -
  let ?q = "pending_recvframe_queue rc" and ?i = "indicate_seq rc" and ?w = "unat (wsize_b rc)"
  have "reorder_inv rc' \<and> ?q = out @ pending_recvframe_queue rc' \<and> (?q = [] \<longrightarrow> indicate_seq rc' = ?i)
     \<and> (?q \<noteq> [] \<longrightarrow> out \<noteq> [] \<and> split_at ?i (indicate_seq rc') out (pending_recvframe_queue rc'))
     \<and> rc_enable rc' = rc_enable rc"
  proof (cases "?q = []")
    case True
    then show ?thesis
      using call inv
      by (auto simp: rtw_reordering_ctrl_timeout_handler_def recv_indicatepkts_in_order_def Let_def
          reorder_inv_def)
  next
    case False
    define rc1 where "rc1 = rc\<lparr>reordering_ctrl_timer := False, bReorderWaiting := False, indicate_seq := seq_of (hd ?q)\<rparr>"
    obtain b rc2 out2 rp1 rp2 where io: "recv_indicatepkts_in_order pm rc1 False rp1 = (b, rc2, out2, rp2)"
      and rc': "rc' = (if b then rc2\<lparr>reordering_ctrl_timer := True\<rparr> else rc2)" and out: "out = out2"
    proof -
      let ?rc = "rc\<lparr>reordering_ctrl_timer := False, bReorderWaiting := False\<rparr>"
      have "pending_recvframe_queue ?rc \<noteq> []" using False by simp
      from in_order_forced [OF this, of pm rp] obtain rp1 where
        f: "recv_indicatepkts_in_order pm ?rc True rp = recv_indicatepkts_in_order pm rc1 False rp1"
        by (auto simp: rc1_def)
      obtain b rc2 out2 rp2 where g: "recv_indicatepkts_in_order pm rc1 False rp1 = (b, rc2, out2, rp2)"
        by (metis prod_cases4)
      show thesis
        using call f g by (intro that [OF g]) (auto simp: rtw_reordering_ctrl_timeout_handler_def Let_def)
    qed
    have i: "?i < 4096" "off_sorted ?i ?q" "\<forall>f\<in>set ?q. seq_of f < 4096 \<and> 0 < off ?i f \<and> off ?i f < ?w"
      and w: "1 \<le> ?w" and ab: "\<not> rec_abba_rsp_ack rc"
      using inv False by (auto simp: reorder_inv_def split: if_splits)
    have q1: "pending_recvframe_queue rc1 = ?q" by (simp add: rc1_def)
    have hd: "hd ?q \<in> set ?q" using False by simp
    have spec: "split_at ?i (indicate_seq rc2) out2 (pending_recvframe_queue rc2)
       \<and> pending_recvframe_queue rc1 = out2 @ pending_recvframe_queue rc2
       \<and> sdist ?i (indicate_seq rc1) \<le> sdist ?i (indicate_seq rc2)
       \<and> (b \<longleftrightarrow> pending_recvframe_queue rc2 \<noteq> []) \<and> rc_frame rc2 = rc_frame rc1"
      by (rule in_order_spec [OF _ _ _ _ _ io])
        (use i hd u8_bound [of "wsize_b rc"] in \<open>fastforce simp: rc1_def near_def\<close>)+
    have ne: "out2 \<noteq> []"
    proof
      assume "out2 = []"
      then have "hd ?q \<in> set (pending_recvframe_queue rc2)" using spec q1 hd by simp
      then have "sdist ?i (indicate_seq rc2) < off ?i (hd ?q)" using spec by (auto simp: split_at_def)
      then show False using spec by (simp add: rc1_def)
    qed
    have fields: "indicate_seq rc' = indicate_seq rc2" "pending_recvframe_queue rc' = pending_recvframe_queue rc2"
      "wsize_b rc' = wsize_b rc" "\<not> rec_abba_rsp_ack rc'" "\<not> bReorderWaiting rc'"
      "pending_recvframe_queue rc' \<noteq> [] \<longrightarrow> reordering_ctrl_timer rc'"
      using spec rc' ab by (auto simp: rc_frame_def rc1_def)
    have pend2: "\<forall>f\<in>set (pending_recvframe_queue rc2). off ?i f < sdist ?i (indicate_seq rc2) + ?w"
    proof
      fix f assume "f \<in> set (pending_recvframe_queue rc2)"
      then have "f \<in> set ?q" using spec q1 by simp
      then show "off ?i f < sdist ?i (indicate_seq rc2) + ?w" using i(3) by fastforce
    qed
    have inv': "reorder_inv rc'"
      by (rule reorder_inv_newI [of ?i _ out2]) (use i spec w fields pend2 in simp_all)
    have "rc_enable rc' = rc_enable rc" using spec rc' by (simp add: rc_frame_def rc1_def)
    moreover have "?q = out @ pending_recvframe_queue rc'" using spec q1 fields(2) out by simp
    moreover have "split_at ?i (indicate_seq rc') out (pending_recvframe_queue rc')"
      using spec fields(1,2) out by simp
    moreover have "out \<noteq> []" using ne out by simp
    ultimately show ?thesis using inv' False by blast
  qed
  note main = this
  show "reorder_inv rc'" using main by (elim conjE)
  show "?q = out @ pending_recvframe_queue rc'" using main by (elim conjE)
  show "rc_enable rc' = rc_enable rc" using main by (elim conjE)
  show "indicate_seq rc' = ?i" if "?q = []" using main that by blast
  show "out \<noteq> [] \<and> split_at ?i (indicate_seq rc') out (pending_recvframe_queue rc')" if "?q \<noteq> []"
    using main that by blast
qed

section \<open>Runs: unwrapped sequence numbers\<close>

text \<open>
  The reorder buffer under an arbitrary interleaving of received frames, timer expiries and
  block-ack responses being acknowledged (which raises \<^verbatim>\<open>rec_abba_rsp_ack\<close>). Besides the control
  block and the counters the state carries ghost data: \<open>rs_base\<close>, the window start as an unwrapped
  number that moves by the distance the 12-bit window start moves; the frames delivered so far, each
  with its unwrapped number; the frames refused; the frames received.
\<close>

datatype reorder_event = RxFrame recv_frame | ReorderTimeout | AddbaRspAck

record reorder_sys =
  rs_rc :: recv_reorder_ctrl
  rs_rp :: recv_priv
  rs_base :: nat
  rs_trace :: "(nat \<times> recv_frame) list"
  rs_refused :: "recv_frame list"
  rs_input :: "recv_frame list"

definition fresh_base :: "reorder_sys \<Rightarrow> recv_frame \<Rightarrow> nat" where
  "fresh_base s f =
     (if rec_abba_rsp_ack (rs_rc s) \<or> indicate_seq (rs_rc s) = 0xFFFF
      then rs_base s + (unat (seq_of f) + 4096 - rs_base s mod 4096) mod 4096 else rs_base s)"

fun reorder_step :: "mpdu_consumer \<Rightarrow> reorder_sys \<Rightarrow> reorder_event \<Rightarrow> reorder_sys" where
  "reorder_step pm s (RxFrame f) =
     (let i = window_start (rs_rc s) f; B = fresh_base s f;
          (r, orc, out, rp) = recv_indicatepkt_reorder pm f (Some (rs_rc s)) (rs_rp s);
          rc = the orc
      in s\<lparr>rs_rc := rc, rs_rp := rp, rs_base := B + sdist i (indicate_seq rc),
           rs_trace := rs_trace s @ map (\<lambda>g. (B + off i g, g)) out,
           rs_refused := (if r = RET_RX_HANDLED then rs_refused s else rs_refused s @ [f]),
           rs_input := rs_input s @ [f]\<rparr>)"
| "reorder_step pm s ReorderTimeout =
     (let i = indicate_seq (rs_rc s);
          (rc, out, rp) = rtw_reordering_ctrl_timeout_handler pm False (rs_rc s) (rs_rp s)
      in s\<lparr>rs_rc := rc, rs_rp := rp, rs_base := rs_base s + sdist i (indicate_seq rc),
           rs_trace := rs_trace s @ map (\<lambda>g. (rs_base s + off i g, g)) out\<rparr>)"
| "reorder_step pm s AddbaRspAck = s\<lparr>rs_rc := (rs_rc s)\<lparr>rec_abba_rsp_ack := True\<rparr>\<rparr>"

fun reorder_adm :: "reorder_sys \<Rightarrow> reorder_event \<Rightarrow> bool" where
  "reorder_adm s (RxFrame f) \<longleftrightarrow> pa_qos (fr_attrib f) \<and> seq_of f < 4096"
| "reorder_adm s ReorderTimeout \<longleftrightarrow> reordering_ctrl_timer (rs_rc s)"
| "reorder_adm s AddbaRspAck \<longleftrightarrow> pending_recvframe_queue (rs_rc s) = []"

definition reorder_sys_inv :: "reorder_sys \<Rightarrow> bool" where
  "reorder_sys_inv s \<longleftrightarrow> reorder_inv (rs_rc s) \<and> rc_enable (rs_rc s)
     \<and> sorted_wrt (<) (map fst (rs_trace s))
     \<and> (\<forall>(n, g)\<in>set (rs_trace s). n < rs_base s \<and> n mod 4096 = unat (seq_of g))
     \<and> (indicate_seq (rs_rc s) \<noteq> 0xFFFF \<longrightarrow> rs_base s mod 4096 = unat (indicate_seq (rs_rc s)))
     \<and> mset (map snd (rs_trace s)) + mset (pending_recvframe_queue (rs_rc s)) + mset (rs_refused s)
       = mset (rs_input s)"

lemma unwrap_mod:
  assumes "B mod 4096 = unat i" "i < 4096" "s < 4096"
  shows "(B + sdist i s) mod 4096 = unat s"
proof -
  have "(B + sdist i s) mod 4096 = (unat i + sdist i s) mod 4096"
    by (metis assms(1) mod_add_left_eq)
  also have "\<dots> = unat s" using assms(2,3) by (auto simp: sdist_eq word_less_nat_alt)
  finally show ?thesis .
qed

lemma trace_extend:
  assumes tr: "sorted_wrt (<) (map fst tr)" "\<forall>(n, g)\<in>set tr. n < b \<and> n mod 4096 = unat (seq_of g)"
    and B: "b \<le> B" "B mod 4096 = unat i" "i < 4096"
    and sp: "split_at i j out left"
  defines "tr' \<equiv> tr @ map (\<lambda>g. (B + off i g, g)) out"
  shows "sorted_wrt (<) (map fst tr')"
    and "\<forall>(n, g)\<in>set tr'. n < B + sdist i j \<and> n mod 4096 = unat (seq_of g)"
proof -
  have out: "off_sorted i out" "\<forall>g\<in>set out. seq_of g < 4096 \<and> off i g < sdist i j"
    using sp by (auto simp: split_at_def off_sorted_def sorted_wrt_append near_def)
  have "sorted_wrt (<) (map (\<lambda>g. B + off i g) out)"
    using out(1) by (simp add: off_sorted_def sorted_wrt_map)
  then show "sorted_wrt (<) (map fst tr')"
    using tr B(1) by (fastforce simp: tr'_def sorted_wrt_append comp_def)
  show "\<forall>(n, g)\<in>set tr'. n < B + sdist i j \<and> n mod 4096 = unat (seq_of g)"
    using tr(2) B out(2) by (fastforce simp: tr'_def unwrap_mod)
qed

lemma reorder_step_rx_inv:
  assumes inv: "reorder_sys_inv s" and adm: "reorder_adm s (RxFrame f)"
  shows "reorder_sys_inv (reorder_step pm s (RxFrame f))"
proof -
  let ?rc = "rs_rc s" and ?i = "window_start (rs_rc s) f" and ?B = "fresh_base s f"
  obtain r orc out rp where call: "recv_indicatepkt_reorder pm f (Some ?rc) (rs_rp s) = (r, orc, out, rp)"
    by (metis prod_cases4)
  have rc: "reorder_inv ?rc" "rc_enable ?rc" and f: "pa_qos (fr_attrib f)" "seq_of f < 4096"
    using inv adm by (auto simp: reorder_sys_inv_def)
  have i: "?i < 4096"
    using rc(1) f(2) by (auto simp: window_start_def reorder_inv_def split: if_splits)
  have B: "rs_base s \<le> ?B" "?B mod 4096 = unat ?i"
  proof -
    show "rs_base s \<le> ?B" by (simp add: fresh_base_def)
    have "(b + (k + 4096 - b mod 4096) mod 4096) mod 4096 = k" if "k < 4096" for b k :: nat
    proof -
      have "(b + (k + 4096 - b mod 4096) mod 4096) mod 4096 = (b mod 4096 + (k + 4096 - b mod 4096)) mod 4096"
        by (metis mod_add_eq mod_mod_trivial)
      also have "\<dots> = (k + 4096) mod 4096" by (simp add: less_imp_le)
      finally show ?thesis using that by simp
    qed
    then show "?B mod 4096 = unat ?i"
      using inv f(2) by (auto simp: fresh_base_def window_start_def reorder_sys_inv_def word_less_nat_alt)
  qed
  from rc f call show ?thesis
  proof (cases rule: reorder_call_spec)
    case dropped
    then have "?B = rs_base s"
      using f(2) by (auto simp: fresh_base_def window_start_def)
    with dropped inv call show ?thesis by (simp add: reorder_sys_inv_def Let_def)
  next
    case (handled rc')
    have tr: "sorted_wrt (<) (map fst (rs_trace s))"
      "\<forall>(n, g)\<in>set (rs_trace s). n < rs_base s \<and> n mod 4096 = unat (seq_of g)"
      using inv by (simp_all add: reorder_sys_inv_def)
    note ext = trace_extend [OF tr B i handled(5)]
    have "(?B + sdist ?i (indicate_seq rc')) mod 4096 = unat (indicate_seq rc')"
      using B i handled(5) by (intro unwrap_mod) (auto simp: split_at_def)
    moreover have "mset (map snd (rs_trace s)) + mset out + mset (pending_recvframe_queue rc') + mset (rs_refused s)
        = mset (rs_input s) + {#f#}"
    proof -
      have "mset (map snd (rs_trace s)) + mset (pending_recvframe_queue ?rc) + mset (rs_refused s) = mset (rs_input s)"
        using inv by (simp add: reorder_sys_inv_def)
      then show ?thesis using handled(7) by (metis add.assoc add.commute add_mset_add_single)
    qed
    ultimately show ?thesis
      using ext handled call by (simp add: reorder_sys_inv_def comp_def Let_def)
  qed
qed

lemma reorder_step_timeout_inv:
  assumes inv: "reorder_sys_inv s"
  shows "reorder_sys_inv (reorder_step pm s ReorderTimeout)"
proof -
  let ?rc = "rs_rc s" and ?i = "indicate_seq (rs_rc s)"
  obtain rc' out rp where call: "rtw_reordering_ctrl_timeout_handler pm False ?rc (rs_rp s) = (rc', out, rp)"
    by (metis prod_cases3)
  have rc: "reorder_inv ?rc" "rc_enable ?rc" using inv by (auto simp: reorder_sys_inv_def)
  note spec = timeout_spec [OF rc(1) call]
  show ?thesis
  proof (cases "pending_recvframe_queue ?rc = []")
    case True
    then show ?thesis using spec(1,2,3,5) inv call by (simp add: reorder_sys_inv_def Let_def)
  next
    case False
    then have i: "?i < 4096" "?i \<noteq> 0xFFFF" using rc by (auto simp: reorder_inv_def split: if_splits)
    have tr: "sorted_wrt (<) (map fst (rs_trace s))"
      "\<forall>(n, g)\<in>set (rs_trace s). n < rs_base s \<and> n mod 4096 = unat (seq_of g)"
      and b: "rs_base s mod 4096 = unat ?i"
      using inv i by (simp_all add: reorder_sys_inv_def)
    have sp: "split_at ?i (indicate_seq rc') out (pending_recvframe_queue rc')" using spec(4) False by simp
    note ext = trace_extend [OF tr order_refl b i(1) sp]
    have "(rs_base s + sdist ?i (indicate_seq rc')) mod 4096 = unat (indicate_seq rc')"
      using b i sp by (intro unwrap_mod) (auto simp: split_at_def)
    moreover have "mset (map snd (rs_trace s)) + mset out + mset (pending_recvframe_queue rc') + mset (rs_refused s)
        = mset (rs_input s)"
      using inv spec(2) by (simp add: reorder_sys_inv_def add.assoc)
    ultimately show ?thesis
      using ext spec(1,5) rc(2) call by (simp add: reorder_sys_inv_def comp_def Let_def)
  qed
qed

lemma reorder_step_inv:
  assumes "reorder_sys_inv s" "reorder_adm s e"
  shows "reorder_sys_inv (reorder_step pm s e)"
proof (cases e)
  case (RxFrame f)
  then show ?thesis using assms reorder_step_rx_inv by simp
next
  case ReorderTimeout
  then show ?thesis using assms reorder_step_timeout_inv by simp
next
  case AddbaRspAck
  then show ?thesis
    using assms by (auto simp: reorder_sys_inv_def reorder_inv_def)
qed

interpretation reorder: invariant_system "reorder_step pm" reorder_adm reorder_sys_inv for pm
  by unfold_locales (rule reorder_step_inv)

section \<open>Properties\<close>

text \<open>
  The start of a block-ack session with window size \<open>w\<close>: the control block as
  \<^verbatim>\<open>rtw_alloc_stainfo\<close> leaves it, enabled.
\<close>

definition reorder_start :: "u8 \<Rightarrow> recv_priv \<Rightarrow> reorder_sys" where
  "reorder_start w rp =
     \<lparr>rs_rc = \<lparr>rc_tid = 0, rc_enable = True, indicate_seq = 0xFFFF, wend_b = 0xFFFF, wsize_b = w,
        ampdu_size = 0xFF, pending_recvframe_queue = [],
        reordering_ctrl_timer = False, bReorderWaiting = False, rec_abba_rsp_ack = False\<rparr>,
      rs_rp = rp, rs_base = 0, rs_trace = [], rs_refused = [], rs_input = []\<rparr>"

lemma reorder_start_inv: "1 \<le> unat w \<Longrightarrow> reorder_sys_inv (reorder_start w rp)"
  by (simp add: reorder_start_def reorder_sys_inv_def reorder_inv_def)

definition sample_consumer :: mpdu_consumer where
  "sample_consumer f rp = (RET_SUCCESS, rp)"

text \<open>
  C1. Under every interleaving of received frames, timer expiries and restarted block-ack sessions,
  from the start of a session on, the reorder buffer hands frames to the MPDU consumer in strictly
  increasing order of their unwrapped sequence numbers, each congruent modulo 4096 to the sequence
  number in the frame's header: no frame is delivered twice or after a later one. A session is restarted
  only while no frame is pending; block ack requests are not part of the runs.
\<close>

theorem reorder_run_in_order:
  assumes "1 \<le> unat w" "adm_run (reorder_step pm) reorder_adm (reorder_start w rp) es"
  defines "s \<equiv> run (reorder_step pm) (reorder_start w rp) es"
  shows "sorted_wrt (<) (map fst (rs_trace s))
    \<and> (\<forall>(n, f)\<in>set (rs_trace s). n mod 4096 = unat (seq_of f))"
  using reorder.run_inv [OF reorder_start_inv [OF assms(1)] assms(2)]
  unfolding s_def [symmetric] by (fastforce simp: reorder_sys_inv_def)

definition sample_events :: "reorder_event list" where
  "sample_events = [RxFrame (sample_frame 0 4094), RxFrame (sample_frame 1 0), RxFrame (sample_frame 2 4095),
     RxFrame (sample_frame 3 3), RxFrame (sample_frame 4 4095), ReorderTimeout]"

lemmas reorder_eval = sample_events_def reorder_start_def sample_consumer_def sample_recv_priv_def Let_def
  recv_indicatepkt_reorder_def check_indicate_seq_def SN_LESS_def SN_EQUAL_def enqueue_reorder_recvframe_def
  recv_indicatepkts_in_order_def rtw_reordering_ctrl_timeout_handler_def recv_indicatepkts_pkt_loss_cnt_def
  window_start_def fresh_base_def sdist_def

theorem reorder_run_in_order_witness:
  "1 \<le> unat (4 :: u8)
   \<and> adm_run (reorder_step sample_consumer) reorder_adm (reorder_start 4 sample_recv_priv) sample_events
   \<and> map fst (rs_trace (run (reorder_step sample_consumer) (reorder_start 4 sample_recv_priv) sample_events))
     = [4094, 4095, 4096, 4099]
   \<and> sorted_wrt (<) (map fst (rs_trace (run (reorder_step sample_consumer) (reorder_start 4 sample_recv_priv) sample_events)))"
proof -
  have a: "adm_run (reorder_step sample_consumer) reorder_adm (reorder_start 4 sample_recv_priv) sample_events"
    by (simp add: reorder_eval)
  have t: "map fst (rs_trace (run (reorder_step sample_consumer) (reorder_start 4 sample_recv_priv) sample_events))
     = [4094, 4095, 4096, 4099]"
    by (simp add: reorder_eval)
  have w: "1 \<le> unat (4 :: u8)" by simp
  show ?thesis using reorder_run_in_order [OF w a] a t w by blast
qed

text \<open>
  C2. No frame is lost or duplicated by the reorder buffer: at every point of every run the frames
  delivered, the frames still pending and the frames refused are together exactly the frames received.
  The runs are those of the order property.
\<close>

theorem reorder_run_conserves:
  assumes "1 \<le> unat w" "adm_run (reorder_step pm) reorder_adm (reorder_start w rp) es"
  defines "s \<equiv> run (reorder_step pm) (reorder_start w rp) es"
  shows "mset (map snd (rs_trace s)) + mset (pending_recvframe_queue (rs_rc s)) + mset (rs_refused s)
       = mset (rs_input s)"
  using reorder.run_inv [OF reorder_start_inv [OF assms(1)] assms(2)]
  unfolding s_def [symmetric] by (simp add: reorder_sys_inv_def)

theorem reorder_run_conserves_witness:
  "(let s = run (reorder_step sample_consumer) (reorder_start 4 sample_recv_priv) sample_events in
    length (rs_input s) = 5 \<and> length (rs_refused s) = 1
    \<and> mset (map snd (rs_trace s)) + mset (pending_recvframe_queue (rs_rc s)) + mset (rs_refused s)
      = mset (rs_input s))"
proof -
  let ?s = "run (reorder_step sample_consumer) (reorder_start 4 sample_recv_priv) sample_events"
  have a: "adm_run (reorder_step sample_consumer) reorder_adm (reorder_start 4 sample_recv_priv) sample_events"
    by (simp add: reorder_eval)
  have l: "length (rs_input ?s) = 5" "length (rs_refused ?s) = 1" by (simp_all add: reorder_eval)
  have w: "1 \<le> unat (4 :: u8)" by simp
  show ?thesis unfolding Let_def using reorder_run_conserves [OF w a] l by blast
qed

lemma off_sorted_length:
  assumes "off_sorted i q" "\<forall>f\<in>set q. 0 < off i f \<and> off i f < w"
  shows "length q \<le> w - 1"
proof -
  have "distinct (map (off i) q)"
    using assms(1) by (metis off_sorted_def sorted_wrt_map strict_sorted_iff)
  then have "length q = card (off i ` set q)" by (metis distinct_card length_map set_map)
  also have "\<dots> \<le> card {1..<w}" by (rule card_mono) (use assms(2) in auto)
  finally show ?thesis by simp
qed

text \<open>
  C15. At every point of every run of received frames, timeouts and confirmed ADDBA responses the
  pending queue is inside the receive window: at most \<^verbatim>\<open>wsize_b - 1\<close> frames, all of them ahead of the
  window start by less than the window size, with strictly increasing offsets, and whenever a frame is
  pending the reorder timer is armed. An ADDBA response is a step only while no frame is pending, and a
  block ack request is no step: \<^verbatim>\<open>rtw_process_bar_frame\<close> sets the window start to the requested
  number without looking at the queue, after which the statement need not hold.
\<close>

theorem reorder_run_window:
  assumes "1 \<le> unat w" "adm_run (reorder_step pm) reorder_adm (reorder_start w rp) es"
  defines "rc \<equiv> rs_rc (run (reorder_step pm) (reorder_start w rp) es)"
  shows "length (pending_recvframe_queue rc) < unat (wsize_b rc)
    \<and> (\<forall>f\<in>set (pending_recvframe_queue rc). 0 < off (indicate_seq rc) f \<and> off (indicate_seq rc) f < unat (wsize_b rc))
    \<and> sorted_wrt (<) (map (off (indicate_seq rc)) (pending_recvframe_queue rc))
    \<and> (pending_recvframe_queue rc \<noteq> [] \<longrightarrow> reordering_ctrl_timer rc)"
proof -
  have inv: "reorder_inv rc"
    using reorder.run_inv [OF reorder_start_inv [OF assms(1)] assms(2)]
    unfolding rc_def by (simp add: reorder_sys_inv_def)
  show ?thesis
  proof (cases "pending_recvframe_queue rc = []")
    case True
    then show ?thesis using inv by (simp add: reorder_inv_def)
  next
    case False
    then have q: "off_sorted (indicate_seq rc) (pending_recvframe_queue rc)"
      "\<forall>f\<in>set (pending_recvframe_queue rc). 0 < off (indicate_seq rc) f \<and> off (indicate_seq rc) f < unat (wsize_b rc)"
      "1 \<le> unat (wsize_b rc)" "reordering_ctrl_timer rc"
      using inv by (auto simp: reorder_inv_def split: if_splits)
    then show ?thesis using off_sorted_length [OF q(1,2)]
      by (auto simp: off_sorted_def sorted_wrt_map)
  qed
qed

theorem reorder_run_window_witness:
  "(let rc = rs_rc (run (reorder_step sample_consumer) (reorder_start 4 sample_recv_priv) (take 4 sample_events)) in
    length (pending_recvframe_queue rc) = 1 \<and> length (pending_recvframe_queue rc) < unat (wsize_b rc)
    \<and> reordering_ctrl_timer rc)"
proof -
  let ?rc = "rs_rc (run (reorder_step sample_consumer) (reorder_start 4 sample_recv_priv) (take 4 sample_events))"
  have a: "adm_run (reorder_step sample_consumer) reorder_adm (reorder_start 4 sample_recv_priv) (take 4 sample_events)"
    by (simp add: reorder_eval)
  have l: "length (pending_recvframe_queue ?rc) = 1" by (simp add: reorder_eval)
  then have ne: "pending_recvframe_queue ?rc \<noteq> []" by auto
  have w: "1 \<le> unat (4 :: u8)" by simp
  show ?thesis unfolding Let_def using reorder_run_window [OF w a] l ne by blast
qed

text \<open>
  C16. Of the QoS frames that reach an active reorder window, exactly those are refused that lie
  behind the window start (by the sequence number order modulo 4096, that is, at a distance of at least
  half the sequence space) or have the sequence number of a pending frame. A refused frame changes neither
  the reorder state nor the frame pool; only the drop counter is incremented, and only for a frame behind
  the window. Every other frame, also one ahead of the window, which slides it, is handled: it is either
  handed up or pending, together with the frames that were pending before.
\<close>

theorem recv_indicatepkt_reorder_refuses:
  assumes "reorder_inv rc" "rc_enable rc" "pa_qos (fr_attrib f)" "seq_of f < 4096"
    and "recv_indicatepkt_reorder pm f (Some rc) rp = (r, orc', out, rp')"
  shows "(r = RET_FAIL \<longleftrightarrow> 2048 \<le> off (window_start rc f) f
              \<or> (\<exists>g\<in>set (pending_recvframe_queue rc). seq_of g = seq_of f))
    \<and> (r = RET_FAIL \<longrightarrow> orc' = Some rc \<and> out = []
          \<and> rp' = (if 2048 \<le> off (window_start rc f) f then rp\<lparr>dbg_rx_ampdu_drop_count := dbg_rx_ampdu_drop_count rp + 1\<rparr> else rp))
    \<and> (r \<noteq> RET_FAIL \<longrightarrow> r = RET_RX_HANDLED \<and> (\<exists>rc'. orc' = Some rc' \<and> reorder_inv rc'
          \<and> mset out + mset (pending_recvframe_queue rc') = add_mset f (mset (pending_recvframe_queue rc))))"
  using assms
proof (cases rule: reorder_call_spec)
  case (handled rc')
  then have "r \<noteq> RET_FAIL" "r = RET_RX_HANDLED" "\<not> 2048 \<le> off (window_start rc f) f" by simp_all
  then show ?thesis using handled(2,6,7,11) by blast
qed simp

theorem recv_indicatepkt_reorder_refuses_witness:
  "reorder_inv ((rs_rc (reorder_start 8 sample_recv_priv))\<lparr>indicate_seq := 10\<rparr>)
   \<and> fst (recv_indicatepkt_reorder sample_consumer (sample_frame 7 9)
     (Some ((rs_rc (reorder_start 8 sample_recv_priv))\<lparr>indicate_seq := 10\<rparr>)) sample_recv_priv) = RET_FAIL
   \<and> snd (snd (snd (recv_indicatepkt_reorder sample_consumer (sample_frame 7 9)
     (Some ((rs_rc (reorder_start 8 sample_recv_priv))\<lparr>indicate_seq := 10\<rparr>)) sample_recv_priv)))
     = sample_recv_priv\<lparr>dbg_rx_ampdu_drop_count := dbg_rx_ampdu_drop_count sample_recv_priv + 1\<rparr>"
proof -
  let ?rc = "(rs_rc (reorder_start 8 sample_recv_priv))\<lparr>indicate_seq := 10\<rparr>"
  have inv: "reorder_inv ?rc" by (simp add: reorder_start_def reorder_inv_def off_sorted_def)
  obtain r orc out rp where call:
    "recv_indicatepkt_reorder sample_consumer (sample_frame 7 9) (Some ?rc) sample_recv_priv = (r, orc, out, rp)"
    by (metis prod_cases4)
  have o: "2048 \<le> off (window_start ?rc (sample_frame 7 9)) (sample_frame 7 9)" by (simp add: reorder_eval)
  have f: "rc_enable ?rc" "pa_qos (fr_attrib (sample_frame 7 9))" "seq_of (sample_frame 7 9) < 4096" by (simp_all add: reorder_start_def reorder_eval)
  from recv_indicatepkt_reorder_refuses [OF inv f call] o
  have "r = RET_FAIL" "rp = sample_recv_priv\<lparr>dbg_rx_ampdu_drop_count := dbg_rx_ampdu_drop_count sample_recv_priv + 1\<rparr>" by simp_all
  then show ?thesis using inv call by simp
qed

lemma timeout_step:
  fixes pm :: mpdu_consumer
  assumes inv: "reorder_sys_inv s" and ne: "pending_recvframe_queue (rs_rc s) \<noteq> []"
  defines "s' \<equiv> reorder_step pm s ReorderTimeout"
  shows "reorder_adm s ReorderTimeout"
    and "\<exists>out. out \<noteq> [] \<and> pending_recvframe_queue (rs_rc s) = out @ pending_recvframe_queue (rs_rc s')
           \<and> map snd (rs_trace s') = map snd (rs_trace s) @ out"
proof -
  obtain rc' out rp where call: "rtw_reordering_ctrl_timeout_handler pm False (rs_rc s) (rs_rp s) = (rc', out, rp)"
    by (metis prod_cases3)
  have rc: "reorder_inv (rs_rc s)" using inv by (simp add: reorder_sys_inv_def)
  show "reorder_adm s ReorderTimeout" using rc ne by (simp add: reorder_inv_def)
  show "\<exists>out. out \<noteq> [] \<and> pending_recvframe_queue (rs_rc s) = out @ pending_recvframe_queue (rs_rc s')
           \<and> map snd (rs_trace s') = map snd (rs_trace s) @ out"
    using timeout_spec(2,4) [OF rc call] ne call by (intro exI [of _ out]) (auto simp: s'_def comp_def Let_def)
qed

lemma timeouts_drain:
  assumes "reorder_sys_inv s" "length (pending_recvframe_queue (rs_rc s)) \<le> m"
  shows "\<exists>n \<le> m. adm_run (reorder_step pm) reorder_adm s (replicate n ReorderTimeout)
     \<and> pending_recvframe_queue (rs_rc (run (reorder_step pm) s (replicate n ReorderTimeout))) = []
     \<and> map snd (rs_trace (run (reorder_step pm) s (replicate n ReorderTimeout)))
       = map snd (rs_trace s) @ pending_recvframe_queue (rs_rc s)"
  using assms
proof (induction m arbitrary: s)
  case 0
  then show ?case by (intro exI [of _ 0]) simp
next
  case (Suc m)
  show ?case
  proof (cases "pending_recvframe_queue (rs_rc s) = []")
    case True
    then show ?thesis by (intro exI [of _ 0]) simp
  next
    case False
    let ?s = "reorder_step pm s ReorderTimeout"
    note st = timeout_step(1) [OF Suc.prems(1) False] timeout_step(2) [OF Suc.prems(1) False, of pm]
    from st(2) obtain out where out: "out \<noteq> []"
      "pending_recvframe_queue (rs_rc s) = out @ pending_recvframe_queue (rs_rc ?s)"
      "map snd (rs_trace ?s) = map snd (rs_trace s) @ out" by blast
    have "reorder_sys_inv ?s" by (rule reorder.step_inv [OF Suc.prems(1) st(1)])
    moreover have "length (pending_recvframe_queue (rs_rc ?s)) \<le> m"
    proof -
      have "1 \<le> length out" using out(1) by (simp add: Suc_le_eq)
      moreover have "length (pending_recvframe_queue (rs_rc s)) = length out + length (pending_recvframe_queue (rs_rc ?s))"
        by (metis out(2) length_append)
      ultimately show ?thesis using Suc.prems(2) by linarith
    qed
    ultimately obtain n where n: "n \<le> m" "adm_run (reorder_step pm) reorder_adm ?s (replicate n ReorderTimeout)"
      "pending_recvframe_queue (rs_rc (run (reorder_step pm) ?s (replicate n ReorderTimeout))) = []"
      "map snd (rs_trace (run (reorder_step pm) ?s (replicate n ReorderTimeout)))
       = map snd (rs_trace ?s) @ pending_recvframe_queue (rs_rc ?s)"
      using Suc.IH by blast
    show ?thesis
      by (rule exI [of _ "Suc n"], simp only: replicate_Suc run.simps adm_run.simps)
        (use n st(1) out in \<open>simp del: reorder_step.simps reorder_adm.simps\<close>)
  qed
qed

text \<open>
  C17. Progress without further traffic: from any state of the reorder buffer, at most as many timer
  expiries as there are pending frames, each of them enabled because the handler re-arms the timer,
  deliver all pending frames in queue order and leave the buffer empty.
\<close>

theorem reorder_timeouts_drain:
  assumes "1 \<le> unat w" "adm_run (reorder_step pm) reorder_adm (reorder_start w rp) es"
  defines "s \<equiv> run (reorder_step pm) (reorder_start w rp) es"
  shows "\<exists>n \<le> length (pending_recvframe_queue (rs_rc s)).
     adm_run (reorder_step pm) reorder_adm s (replicate n ReorderTimeout)
     \<and> pending_recvframe_queue (rs_rc (run (reorder_step pm) s (replicate n ReorderTimeout))) = []
     \<and> map snd (rs_trace (run (reorder_step pm) s (replicate n ReorderTimeout)))
       = map snd (rs_trace s) @ pending_recvframe_queue (rs_rc s)"
  using timeouts_drain [OF reorder.run_inv [OF reorder_start_inv [OF assms(1)] assms(2)] order_refl]
  unfolding s_def .

theorem reorder_timeouts_drain_witness:
  "(let s = run (reorder_step sample_consumer) (reorder_start 4 sample_recv_priv) (take 4 sample_events) in
    length (pending_recvframe_queue (rs_rc s)) = 1
    \<and> (\<exists>n \<le> length (pending_recvframe_queue (rs_rc s)).
      pending_recvframe_queue (rs_rc (run (reorder_step sample_consumer) s (replicate n ReorderTimeout))) = []))"
proof -
  let ?s = "run (reorder_step sample_consumer) (reorder_start 4 sample_recv_priv) (take 4 sample_events)"
  have a: "adm_run (reorder_step sample_consumer) reorder_adm (reorder_start 4 sample_recv_priv) (take 4 sample_events)"
    by (simp add: reorder_eval)
  have l: "length (pending_recvframe_queue (rs_rc ?s)) = 1" by (simp add: reorder_eval)
  have w: "1 \<le> unat (4 :: u8)" by simp
  show ?thesis unfolding Let_def using reorder_timeouts_drain [OF w a] l by blast
qed

text \<open>
  The window check computes, with its unsigned 16-bit arithmetic and its two branches for the
  wrap of the sequence space, the window start of the block-ack rules: one past the frame when the
  frame is the expected one, the frame's number plus one minus the window size modulo 4096 when it
  lies beyond the window end, unchanged otherwise; it refuses only frames behind the window.
\<close>

theorem check_indicate_seq_window:
  assumes "indicate_seq rc < 4096" "s < 4096" "1 \<le> unat (wsize_b rc)"
    and "check_indicate_seq rc s rp = (ok, rc', rp')"
  shows "(ok \<longleftrightarrow> sdist (indicate_seq rc) s < 2048)
    \<and> unat (indicate_seq rc') =
       (if \<not> ok then unat (indicate_seq rc)
        else if s = indicate_seq rc then (unat s + 1) mod 4096
        else if unat (wsize_b rc) \<le> sdist (indicate_seq rc) s then (unat s + 4097 - unat (wsize_b rc)) mod 4096
        else unat (indicate_seq rc))"
proof -
  let ?i = "indicate_seq rc" and ?j = "indicate_seq rc'" and ?w = "unat (wsize_b rc)"
  note spec = check_indicate_seq_spec(1,2,4) [OF assms]
  have sd: "(unat i + sdist i j) mod 4096 = unat j" if "i < 4096" "j < 4096" for i j
    using that by (auto simp: sdist_eq word_less_nat_alt)
  have j: "unat ?j = (unat ?i + wstep ?w (sdist ?i s)) mod 4096" if ok
    using spec(3) that sd [OF assms(1), of ?j] by simp
  have s: "(unat ?i + sdist ?i s) mod 4096 = unat s" by (rule sd) (use assms in auto)
  have z: "sdist ?i s = 0 \<longleftrightarrow> s = ?i" using assms by (auto simp: sdist_0_iff)
  have shift: "(unat ?i + (sdist ?i s + 1 - ?w)) mod 4096 = (unat s + 4097 - ?w) mod 4096"
    if le: "?w \<le> sdist ?i s"
  proof -
    have "(unat s + 4097 - ?w) mod 4096 = ((unat ?i + sdist ?i s) mod 4096 + (4097 - ?w)) mod 4096"
      using s u8_bound [of "wsize_b rc"] by simp
    also have "\<dots> = (unat ?i + sdist ?i s + (4097 - ?w)) mod 4096" by (simp add: mod_simps)
    also have "unat ?i + sdist ?i s + (4097 - ?w) = unat ?i + (sdist ?i s + 1 - ?w) + 4096"
      using le u8_bound [of "wsize_b rc"] by simp
    finally show ?thesis by simp
  qed
  show ?thesis
    using spec(1,2) j s z shift assms(1,3) by (auto simp: wstep_def word_less_nat_alt)
qed

theorem check_indicate_seq_window_witness:
  "unat (indicate_seq (fst (snd (check_indicate_seq
     ((rs_rc (reorder_start 8 sample_recv_priv))\<lparr>indicate_seq := 4090\<rparr>) 3 sample_recv_priv)))) = 4092"
proof -
  let ?rc = "(rs_rc (reorder_start 8 sample_recv_priv))\<lparr>indicate_seq := 4090\<rparr>"
  obtain ok rc' rp' where call: "check_indicate_seq ?rc 3 sample_recv_priv = (ok, rc', rp')"
    by (metis prod_cases3)
  have d: "sdist (indicate_seq ?rc) 3 = 9" "unat (wsize_b ?rc) = 8" "indicate_seq ?rc = 4090" by (simp_all add: reorder_eval)
  have "unat (indicate_seq rc') = 4092"
    using check_indicate_seq_window [OF _ _ _ call] d by simp
  then show ?thesis using call by simp
qed

end
