(* ===== verification/Id_Maps.thy ===== *)
theory Id_Maps
  imports Driver_Prelude
begin

unbundle bit_operations_syntax

text \<open>
  The bitmaps of \<^verbatim>\<open>core/rtw_wlan_util.c\<close>: the 32-entry MAC-id map \<^verbatim>\<open>struct macid_bmp\<close>, the
  32-entry security-CAM map \<^verbatim>\<open>struct sec_cam_bmp\<close> (\<^verbatim>\<open>MACID_NUM_SW_LIMIT\<close> and
  \<^verbatim>\<open>SEC_CAM_ENT_NUM_SW_LIMIT\<close> are 32, so only the word \<^verbatim>\<open>m0\<close> exists) and the byte bitmaps of the
  association ids (\<^verbatim>\<open>rtw_bmp_*\<close>, \<^verbatim>\<open>rtw_tim_map_*\<close>). The three implement one interface, a finite set
  of ids; the allocators of the clients only use its laws.
\<close>

section \<open>The interface: a finite set of ids\<close>

locale id_map =
  fixes is_set :: "'m \<Rightarrow> u8 \<Rightarrow> bool"
    and set_id :: "'m \<Rightarrow> u8 \<Rightarrow> 'm"
    and clr_id :: "'m \<Rightarrow> u8 \<Rightarrow> 'm"
    and cap :: "'m \<Rightarrow> nat"
  assumes is_set_set: "is_set (set_id m i) j \<longleftrightarrow> (i = j \<and> unat i < cap m) \<or> is_set m j"
    and is_set_clr: "is_set (clr_id m i) j \<longleftrightarrow> i \<noteq> j \<and> is_set m j"
    and is_set_cap: "is_set m i \<Longrightarrow> unat i < cap m"
    and cap_set: "cap (set_id m i) = cap m"
    and cap_clr: "cap (clr_id m i) = cap m"
begin

lemma ids_set: "unat i < cap m \<Longrightarrow> {j. is_set (set_id m i) j} = insert i {j. is_set m j}"
  by (auto simp: is_set_set)

lemma ids_clr: "{j. is_set (clr_id m i) j} = {j. is_set m j} - {i}"
  by (auto simp: is_set_clr)

lemma ids_bound: "{j. is_set m j} \<subseteq> {j. unat j < cap m}"
  by (auto dest: is_set_cap)

lemma clr_set: "\<not> is_set m i \<Longrightarrow> is_set (clr_id (set_id m i) i) j = is_set m j"
  by (auto simp: is_set_set is_set_clr)

lemma set_clr: "is_set m i \<Longrightarrow> is_set (set_id (clr_id m i) i) j = is_set m j"
  by (auto simp: is_set_set is_set_clr cap_clr dest: is_set_cap)

end

section \<open>Word bitmaps\<close>

type_synonym macid_bmp = u32
type_synonym sec_cam_bmp = u32

text \<open>\<^verbatim>\<open>BIT(n)\<close> for \<open>n < 32\<close>.\<close>

definition BIT :: "u8 \<Rightarrow> u32" where
  "BIT n = push_bit (unat n) 1"

definition rtw_macid_is_set :: "macid_bmp \<Rightarrow> u8 \<Rightarrow> bool" where
  "rtw_macid_is_set m i = (if i < 32 then m AND BIT i \<noteq> 0 else False)"

definition rtw_macid_map_set :: "macid_bmp \<Rightarrow> u8 \<Rightarrow> macid_bmp" where
  "rtw_macid_map_set m i = (if i < 32 then m OR BIT i else m)"

definition rtw_macid_map_clr :: "macid_bmp \<Rightarrow> u8 \<Rightarrow> macid_bmp" where
  "rtw_macid_map_clr m i = (if i < 32 then m AND NOT (BIT i) else m)"

definition rtw_sec_camid_is_set :: "sec_cam_bmp \<Rightarrow> u8 \<Rightarrow> bool" where
  "rtw_sec_camid_is_set m i = (if i < 32 then m AND BIT i \<noteq> 0 else False)"

definition rtw_sec_cam_map_set :: "sec_cam_bmp \<Rightarrow> u8 \<Rightarrow> sec_cam_bmp" where
  "rtw_sec_cam_map_set m i = (if i < 32 then m OR BIT i else m)"

definition rtw_sec_cam_map_clr :: "sec_cam_bmp \<Rightarrow> u8 \<Rightarrow> sec_cam_bmp" where
  "rtw_sec_cam_map_clr m i = (if i < 32 then m AND NOT (BIT i) else m)"

definition rtw_sec_cam_map_clr_all :: "sec_cam_bmp \<Rightarrow> sec_cam_bmp" where
  "rtw_sec_cam_map_clr_all m = 0"

lemma and_BIT_iff: "m AND BIT i \<noteq> 0 \<longleftrightarrow> bit m (unat i)"
  unfolding BIT_def by (metis bit_iff_and_push_bit_not_eq_0)

lemma bit_BIT: "unat i < 32 \<Longrightarrow> bit (BIT i) n \<longleftrightarrow> n = unat i"
  by (auto simp: BIT_def bit_simps)

lemma id_less_32: "i < (32 :: u8) \<longleftrightarrow> unat i < 32"
  by (simp add: word_less_nat_alt)

lemma macid_is_set_bit: "rtw_macid_is_set m i \<longleftrightarrow> unat i < 32 \<and> bit m (unat i)"
  by (simp only: rtw_macid_is_set_def and_BIT_iff id_less_32) simp

interpretation macid_map: id_map rtw_macid_is_set rtw_macid_map_set rtw_macid_map_clr "\<lambda>_. 32"
  by unfold_locales
    (auto simp: macid_is_set_bit rtw_macid_map_set_def rtw_macid_map_clr_def id_less_32 bit_simps bit_BIT word_unat_eq_iff)

lemma sec_cam_map_eq:
  "rtw_sec_camid_is_set = rtw_macid_is_set" "rtw_sec_cam_map_set = rtw_macid_map_set"
  "rtw_sec_cam_map_clr = rtw_macid_map_clr"
  by (simp_all add: fun_eq_iff rtw_sec_camid_is_set_def rtw_macid_is_set_def rtw_sec_cam_map_set_def
      rtw_macid_map_set_def rtw_sec_cam_map_clr_def rtw_macid_map_clr_def)

interpretation cam_map: id_map rtw_sec_camid_is_set rtw_sec_cam_map_set rtw_sec_cam_map_clr "\<lambda>_. 32"
  unfolding sec_cam_map_eq by (rule macid_map.id_map_axioms)

section \<open>Byte bitmaps\<close>

text \<open>
  \<^verbatim>\<open>rtw_bmp_is_set\<close>, \<^verbatim>\<open>rtw_bmp_set\<close>, \<^verbatim>\<open>rtw_bmp_clear\<close> on a buffer of exactly \<^verbatim>\<open>bmp_len\<close> bytes; the
  guard \<^verbatim>\<open>id / 8 < bmp_len\<close> is the bound of every access.
\<close>

definition BIT8 :: "u8 \<Rightarrow> u8" where
  "BIT8 n = push_bit (unat n) 1"

definition rtw_bmp_is_set :: "bytes \<Rightarrow> u8 \<Rightarrow> bool" where
  "rtw_bmp_is_set bmp i =
     (if unat (i div 8) \<ge> length bmp then False else bmp ! unat (i div 8) AND BIT8 (i mod 8) \<noteq> 0)"

definition rtw_bmp_set :: "bytes \<Rightarrow> u8 \<Rightarrow> bytes" where
  "rtw_bmp_set bmp i =
     (if unat (i div 8) < length bmp
      then bmp[unat (i div 8) := bmp ! unat (i div 8) OR BIT8 (i mod 8)] else bmp)"

definition rtw_bmp_clear :: "bytes \<Rightarrow> u8 \<Rightarrow> bytes" where
  "rtw_bmp_clear bmp i =
     (if unat (i div 8) < length bmp
      then bmp[unat (i div 8) := bmp ! unat (i div 8) AND NOT (BIT8 (i mod 8))] else bmp)"

definition rtw_bmp_not_empty :: "bytes \<Rightarrow> bool" where
  "rtw_bmp_not_empty bmp = list_ex (\<lambda>b. b \<noteq> 0) bmp"

fun rtw_bmp_not_empty_exclude_bit0 :: "bytes \<Rightarrow> bool" where
  "rtw_bmp_not_empty_exclude_bit0 [] = False"
| "rtw_bmp_not_empty_exclude_bit0 (b # bs) = (b AND 0xFE \<noteq> 0 \<or> list_ex (\<lambda>b. b \<noteq> 0) bs)"

definition rtw_tim_map_is_set :: "bytes \<Rightarrow> u8 \<Rightarrow> bool" where
  "rtw_tim_map_is_set m i = rtw_bmp_is_set m i"

definition rtw_tim_map_set :: "bytes \<Rightarrow> u8 \<Rightarrow> bytes" where
  "rtw_tim_map_set m i = rtw_bmp_set m i"

definition rtw_tim_map_clear :: "bytes \<Rightarrow> u8 \<Rightarrow> bytes" where
  "rtw_tim_map_clear m i = rtw_bmp_clear m i"

definition rtw_tim_map_anyone_be_set :: "bytes \<Rightarrow> bool" where
  "rtw_tim_map_anyone_be_set m = rtw_bmp_not_empty m"

definition rtw_tim_map_anyone_be_set_exclude_aid0 :: "bytes \<Rightarrow> bool" where
  "rtw_tim_map_anyone_be_set_exclude_aid0 m = rtw_bmp_not_empty_exclude_bit0 m"

lemma u8_div_8: "unat (i div 8 :: u8) = unat i div 8" "unat (i mod 8 :: u8) = unat i mod 8"
  by (simp_all add: unat_div unat_mod)

lemma bmp_is_set_bit:
  "rtw_bmp_is_set bmp i \<longleftrightarrow> unat i div 8 < length bmp \<and> bit (bmp ! (unat i div 8)) (unat i mod 8)"
proof -
  have "b AND BIT8 (i mod 8) \<noteq> 0 \<longleftrightarrow> bit b (unat i mod 8)" for b
    unfolding BIT8_def u8_div_8 by (metis bit_iff_and_push_bit_not_eq_0)
  then show ?thesis by (auto simp: rtw_bmp_is_set_def u8_div_8 not_le)
qed

lemma bit_BIT8: "bit (BIT8 (i mod 8)) n \<longleftrightarrow> n = unat i mod 8"
  by (auto simp: BIT8_def bit_simps u8_div_8)

lemma u8_eq_div_mod: "unat i div 8 = unat j div 8 \<Longrightarrow> unat i mod 8 = unat j mod 8 \<Longrightarrow> i = (j :: u8)"
  by (metis div_mult_mod_eq word_unat_eq_iff)

interpretation bmp_map: id_map rtw_bmp_is_set rtw_bmp_set rtw_bmp_clear "\<lambda>bmp. 8 * length bmp"
proof
  fix m and i j :: u8
  show "rtw_bmp_is_set (rtw_bmp_set m i) j \<longleftrightarrow> (i = j \<and> unat i < 8 * length m) \<or> rtw_bmp_is_set m j"
    by (cases "unat i div 8 = unat j div 8")
      (auto simp: bmp_is_set_bit rtw_bmp_set_def u8_div_8 bit_simps bit_BIT8 less_mult_imp_div_less
        div_less_iff_less_mult mult.commute dest: u8_eq_div_mod)
  show "rtw_bmp_is_set (rtw_bmp_clear m i) j \<longleftrightarrow> i \<noteq> j \<and> rtw_bmp_is_set m j"
    by (cases "unat i div 8 = unat j div 8")
      (auto simp: bmp_is_set_bit rtw_bmp_clear_def u8_div_8 bit_simps bit_BIT8 dest: u8_eq_div_mod)
  show "rtw_bmp_is_set m i \<Longrightarrow> unat i < 8 * length m"
    by (auto simp: bmp_is_set_bit div_less_iff_less_mult mult.commute)
qed (auto simp: rtw_bmp_set_def rtw_bmp_clear_def)

end
