(* ===== verification/Sec_Cam.thy ===== *)
theory Sec_Cam
  imports Id_Maps
begin

unbundle bit_operations_syntax

text \<open>
  The security CAM: the hardware key table, its software cache \<^verbatim>\<open>dvobj->cam_cache\<close> and the bitmap
  \<^verbatim>\<open>cam_ctl->used\<close> (\<^verbatim>\<open>core/rtw_wlan_util.c\<close>), and the packing of an entry into the CAM's 32-bit
  words (\<^verbatim>\<open>hal/hal_com.c\<close>). The hardware memory behind \<^verbatim>\<open>rtw_sec_write_cam\<close> and
  \<^verbatim>\<open>rtw_sec_read_cam\<close> is the field \<open>cam_hw\<close>: an access goes through an address and a data register
  and a polling loop, and reads back what was written. An access to \<^verbatim>\<open>cam_cache\<close> outside its 32
  entries is the value \<open>None\<close>.
\<close>

section \<open>State\<close>

record sec_cam_ent =
  ce_ctrl :: u16
  ce_mac :: bytes
  ce_key :: bytes

record cam_ctl_t =
  sec_cap :: u8
  cam_flags :: u32
  cam_num :: u8
  cam_used :: sec_cam_bmp
  cam_cache :: "sec_cam_ent list"
  cam_hw :: "u8 \<Rightarrow> u32"

definition SEC_CAM_ENT_NUM_SW_LIMIT :: nat where
  "SEC_CAM_ENT_NUM_SW_LIMIT = 32"

definition SEC_CAP_CHK_BMC :: u8 where
  "SEC_CAP_CHK_BMC = 1"

definition SEC_CAP_CHK_EXTRA_SEC :: u8 where
  "SEC_CAP_CHK_EXTRA_SEC = 2"

definition INVALID_SEC_MAC_CAM_ID :: u8 where
  "INVALID_SEC_MAC_CAM_ID = 0xFF"

definition null_cam_ent :: sec_cam_ent where
  "null_cam_ent = \<lparr>ce_ctrl = 0, ce_mac = replicate 6 0, ce_key = replicate 16 0\<rparr>"

section \<open>Entry layout in the hardware table\<close>

definition le32_word :: "u8 \<Rightarrow> u8 \<Rightarrow> u8 \<Rightarrow> u8 \<Rightarrow> u32" where
  "le32_word a b c d = ucast a OR push_bit 8 (ucast b) OR push_bit 16 (ucast c) OR push_bit 24 (ucast d)"

text \<open>The word \<^verbatim>\<open>wdata\<close> of case \<open>j\<close> in \<^verbatim>\<open>rtw_sec_write_cam_ent\<close>.\<close>

definition cam_ent_word :: "nat \<Rightarrow> u16 \<Rightarrow> bytes \<Rightarrow> bytes \<Rightarrow> u32" where
  "cam_ent_word j ctrl mac key =
     (if j = 0 then ucast ctrl OR push_bit 16 (ucast (mac ! 0)) OR push_bit 24 (ucast (mac ! 1))
      else if j = 1 then le32_word (mac ! 2) (mac ! 3) (mac ! 4) (mac ! 5)
      else if j = 6 \<or> j = 7 then 0
      else (let i = (j - 2) * 4 in le32_word (key ! i) (key ! (i + 1)) (key ! (i + 2)) (key ! (i + 3))))"

text \<open>The loop of \<^verbatim>\<open>rtw_sec_write_cam_ent\<close>, from \<open>j\<close> down to 0.\<close>

fun write_cam_words :: "(u8 \<Rightarrow> u32) \<Rightarrow> u8 \<Rightarrow> u16 \<Rightarrow> bytes \<Rightarrow> bytes \<Rightarrow> nat \<Rightarrow> (u8 \<Rightarrow> u32)" where
  "write_cam_words hw i ctrl mac key 0 = hw(push_bit 3 i := cam_ent_word 0 ctrl mac key)"
| "write_cam_words hw i ctrl mac key (Suc j) =
     write_cam_words (hw(push_bit 3 i + of_nat (Suc j) := cam_ent_word (Suc j) ctrl mac key)) i ctrl mac key j"

text \<open>A \<^verbatim>\<open>mac\<close> of less than 6 bytes or a \<^verbatim>\<open>key\<close> of less than 16 is read out of bounds.\<close>

definition rtw_sec_write_cam_ent :: "cam_ctl_t \<Rightarrow> u8 \<Rightarrow> u16 \<Rightarrow> bytes \<Rightarrow> bytes \<Rightarrow> cam_ctl_t option" where
  "rtw_sec_write_cam_ent c i ctrl mac key =
     (if 6 \<le> length mac \<and> 16 \<le> length key
      then Some (c\<lparr>cam_hw := write_cam_words (cam_hw c) i ctrl mac key 7\<rparr>) else None)"

definition word_byte :: "u32 \<Rightarrow> nat \<Rightarrow> u8" where
  "word_byte w k = ucast (drop_bit (8 * k) w)"

text \<open>
  \<^verbatim>\<open>rtw_sec_read_cam_ent\<close> with all three output pointers given, the only case in which it reads
  words 0 to 5.
\<close>

definition rtw_sec_read_cam_ent :: "cam_ctl_t \<Rightarrow> u8 \<Rightarrow> u16 \<times> bytes \<times> bytes" where
  "rtw_sec_read_cam_ent c i =
     (let r = (\<lambda>j. cam_hw c (push_bit 3 i OR j)) in
      (ucast (r 0),
       [word_byte (r 0) 2, word_byte (r 0) 3] @ map (word_byte (r 1)) [0, 1, 2, 3],
       map (word_byte (r 2)) [0, 1, 2, 3] @ map (word_byte (r 3)) [0, 1, 2, 3]
       @ map (word_byte (r 4)) [0, 1, 2, 3] @ map (word_byte (r 5)) [0, 1, 2, 3]))"

definition rtw_sec_clr_cam_ent :: "cam_ctl_t \<Rightarrow> u8 \<Rightarrow> cam_ctl_t" where
  "rtw_sec_clr_cam_ent c i = c\<lparr>cam_hw := (cam_hw c)(push_bit 3 i := 0)\<rparr>"

definition rtw_sec_read_cam_is_gk :: "cam_ctl_t \<Rightarrow> u8 \<Rightarrow> bool" where
  "rtw_sec_read_cam_is_gk c i = (fst (rtw_sec_read_cam_ent c i) AND 0x40 \<noteq> 0)"

section \<open>Cache and hardware writes\<close>

definition write_cam_cache :: "cam_ctl_t \<Rightarrow> u8 \<Rightarrow> u16 \<Rightarrow> bytes \<Rightarrow> bytes \<Rightarrow> cam_ctl_t option" where
  "write_cam_cache c i ctrl mac key =
     (if unat i < length (cam_cache c)
      then Some (c\<lparr>cam_cache := (cam_cache c)[unat i :=
             \<lparr>ce_ctrl = ctrl, ce_mac = take 6 mac, ce_key = take 16 key\<rparr>]\<rparr>)
      else None)"

definition clear_cam_cache :: "cam_ctl_t \<Rightarrow> u8 \<Rightarrow> cam_ctl_t option" where
  "clear_cam_cache c i =
     (if unat i < length (cam_cache c)
      then Some (c\<lparr>cam_cache := (cam_cache c)[unat i := null_cam_ent]\<rparr>) else None)"

definition clear_cam_entry_hw :: "cam_ctl_t \<Rightarrow> u8 \<Rightarrow> cam_ctl_t option" where
  "clear_cam_entry_hw c entry = rtw_sec_write_cam_ent c entry 0 (replicate 6 0) (replicate 32 0)"

definition write_cam_one :: "cam_ctl_t \<Rightarrow> u8 \<Rightarrow> u16 \<Rightarrow> bytes \<Rightarrow> bytes \<Rightarrow> cam_ctl_t option" where
  "write_cam_one c i ctrl mac key =
     Option.bind (rtw_sec_write_cam_ent c i ctrl mac key) (\<lambda>c. write_cam_cache c i ctrl mac key)"

definition write_cam :: "cam_ctl_t \<Rightarrow> u8 \<Rightarrow> u16 \<Rightarrow> bytes \<Rightarrow> bytes \<Rightarrow> cam_ctl_t option" where
  "write_cam c i ctrl mac key =
     (if ctrl AND 0x200 \<noteq> 0
      then Option.bind (write_cam_one c i ctrl mac key)
             (\<lambda>c. write_cam_one c (i + 1) (ctrl OR 0x20) mac (drop 16 key))
      else write_cam_one c i ctrl mac key)"

definition clear_cam_entry :: "cam_ctl_t \<Rightarrow> u8 \<Rightarrow> cam_ctl_t option" where
  "clear_cam_entry c i = Option.bind (clear_cam_entry_hw c i) (\<lambda>c. clear_cam_cache c i)"

definition write_cam_from_cache :: "cam_ctl_t \<Rightarrow> u8 \<Rightarrow> cam_ctl_t option" where
  "write_cam_from_cache c i =
     (if unat i < length (cam_cache c)
      then (let e = cam_cache c ! unat i in
            rtw_sec_write_cam_ent c i (ce_ctrl e) (ce_mac e) (ce_key e))
      else None)"

definition camctl_chk_cap :: "cam_ctl_t \<Rightarrow> u8 \<Rightarrow> bool" where
  "camctl_chk_cap c cap = (sec_cap c AND cap \<noteq> 0)"

definition rtw_camctl_set_flags :: "cam_ctl_t \<Rightarrow> u32 \<Rightarrow> cam_ctl_t" where
  "rtw_camctl_set_flags c flags = c\<lparr>cam_flags := cam_flags c OR flags\<rparr>"

definition rtw_camctl_clr_flags :: "cam_ctl_t \<Rightarrow> u32 \<Rightarrow> cam_ctl_t" where
  "rtw_camctl_clr_flags c flags = c\<lparr>cam_flags := cam_flags c AND NOT flags\<rparr>"

definition camctl_chk_flags :: "cam_ctl_t \<Rightarrow> u32 \<Rightarrow> bool" where
  "camctl_chk_flags c flags = (cam_flags c AND flags \<noteq> 0)"

text \<open>
  \<^verbatim>\<open>invalidate_cam_all\<close>; the hardware command \<^verbatim>\<open>HW_VAR_CAM_INVALID_ALL\<close> clears the whole hardware
  table, \<open>bmc_id\<close> is the interface's broadcast CAM id.
\<close>

definition invalidate_cam_all :: "cam_ctl_t \<Rightarrow> u8 \<Rightarrow> cam_ctl_t" where
  "invalidate_cam_all c bmc_id =
     (let u = rtw_sec_cam_map_clr_all (cam_used c);
          u = (if bmc_id \<noteq> INVALID_SEC_MAC_CAM_ID
               then (let u = rtw_sec_cam_map_set u bmc_id in
                     if camctl_chk_cap c SEC_CAP_CHK_EXTRA_SEC then rtw_sec_cam_map_set u (bmc_id + 1) else u)
               else u) in
      c\<lparr>cam_hw := (\<lambda>_. 0), cam_used := u,
        cam_cache := replicate SEC_CAM_ENT_NUM_SW_LIMIT null_cam_ent\<rparr>)"

section \<open>Allocation\<close>

definition rtw_sec_camid_is_used :: "cam_ctl_t \<Rightarrow> u8 \<Rightarrow> bool" where
  "rtw_sec_camid_is_used c i = (if i \<ge> cam_num c then False else rtw_sec_camid_is_set (cam_used c) i)"

fun get_sec_camid_loop :: "cam_ctl_t \<Rightarrow> u8 list \<Rightarrow> u8 \<Rightarrow> u8 list \<Rightarrow> u8 list" where
  "get_sec_camid_loop c [] maxn acc = acc"
| "get_sec_camid_loop c (i # is) maxn acc =
     (if rtw_sec_camid_is_used c i then
        (if of_nat (length (acc @ [i])) = maxn then acc @ [i] else get_sec_camid_loop c is maxn (acc @ [i]))
      else get_sec_camid_loop c is maxn acc)"

text \<open>\<^verbatim>\<open>rtw_get_sec_camid\<close>: the used ids in increasing order, at most \<^verbatim>\<open>max_bk_key_num\<close> of them.\<close>

definition cam_ids :: "cam_ctl_t \<Rightarrow> u8 list" where
  "cam_ids c = map of_nat [0..<unat (cam_num c)]"

definition rtw_get_sec_camid :: "cam_ctl_t \<Rightarrow> u8 \<Rightarrow> u8 list" where
  "rtw_get_sec_camid c max_bk_key_num = get_sec_camid_loop c (cam_ids c) max_bk_key_num []"

definition rtw_camid_is_gk :: "cam_ctl_t \<Rightarrow> u8 \<Rightarrow> bool" where
  "rtw_camid_is_gk c i =
     (if i \<ge> cam_num c \<or> \<not> rtw_sec_camid_is_used c i then False
      else ce_ctrl (cam_cache c ! unat i) AND 0x40 \<noteq> 0)"

text \<open>
  \<^verbatim>\<open>cam_cache_chk\<close>: the address (\<open>None\<close> is a null pointer), the key id (negative: any) and the group
  flag (-1: any) of an entry.
\<close>

definition cam_cache_chk :: "cam_ctl_t \<Rightarrow> u8 \<Rightarrow> bytes option \<Rightarrow> int \<Rightarrow> int \<Rightarrow> bool" where
  "cam_cache_chk c i addr kid gk =
     (let e = cam_cache c ! unat i in
      (case addr of None \<Rightarrow> True | Some a \<Rightarrow> ce_mac e = a)
      \<and> \<not> (kid \<ge> 0 \<and> kid \<noteq> uint (ce_ctrl e AND 3))
      \<and> \<not> (gk \<noteq> -1 \<and> (gk \<noteq> 0) \<noteq> rtw_camid_is_gk c i))"

definition rtw_camid_search :: "cam_ctl_t \<Rightarrow> bytes option \<Rightarrow> int \<Rightarrow> int \<Rightarrow> u8 option" where
  "rtw_camid_search c addr kid gk = find (\<lambda>i. cam_cache_chk c i addr kid gk) (cam_ids c)"

text \<open>The result -1 of \<^verbatim>\<open>rtw_get_camid\<close> and \<^verbatim>\<open>rtw_camid_alloc\<close> is \<open>None\<close>.\<close>

definition camid_room :: "cam_ctl_t \<Rightarrow> bool \<Rightarrow> u8 \<Rightarrow> bool" where
  "camid_room c ext_sec i \<longleftrightarrow> \<not> rtw_sec_camid_is_used c i
     \<and> (ext_sec \<longrightarrow> unat i + 1 < unat (cam_num c) \<and> \<not> rtw_sec_camid_is_used c (i + 1))"

definition rtw_get_camid :: "cam_ctl_t \<Rightarrow> bytes option \<Rightarrow> int \<Rightarrow> bool \<Rightarrow> bool \<Rightarrow> u8 option" where
  "rtw_get_camid c addr kid gk ext_sec =
     (case addr of None \<Rightarrow> None
      | Some a \<Rightarrow>
         (case rtw_camid_search c addr kid (if camctl_chk_cap c SEC_CAP_CHK_BMC then (if gk then 1 else 0) else -1) of
            Some i \<Rightarrow> Some i
          | None \<Rightarrow> find (camid_room c ext_sec) (cam_ids c)))"

text \<open>
  \<^verbatim>\<open>rtw_camid_alloc\<close>: \<open>fw_state\<close> is \<^verbatim>\<open>mlmeinfo->state\<close>, \<open>own\<close> the interface's address, \<open>bssid\<close>
  that of the BSS, \<open>sta\<close> the station's address when a station is given. The result is the id, the
  \<^verbatim>\<open>*used\<close> flag and the control block.
\<close>

definition WIFI_FW_ADHOC_STATE :: u32 where "WIFI_FW_ADHOC_STATE = 1"
definition WIFI_FW_AP_STATE :: u32 where "WIFI_FW_AP_STATE = 3"
definition WIFI_FW_ASSOC_SUCCESS :: u32 where "WIFI_FW_ASSOC_SUCCESS = 0x4000"

text \<open>The address whose key is being placed; \<open>None\<close> is the exit that bypasses the allocation.\<close>

definition camid_addr :: "u32 \<Rightarrow> bytes \<Rightarrow> bytes \<Rightarrow> bytes option \<Rightarrow> bytes option" where
  "camid_addr fw_state own bssid sta =
     (if (fw_state AND 3 = WIFI_FW_AP_STATE \<or> fw_state AND 3 = WIFI_FW_ADHOC_STATE) \<and> sta = None
      then Some own
      else if sta = None then (if fw_state AND WIFI_FW_ASSOC_SUCCESS = 0 then None else Some bssid)
      else sta)"

definition rtw_camid_alloc :: "cam_ctl_t \<Rightarrow> u32 \<Rightarrow> bytes \<Rightarrow> bytes \<Rightarrow> bytes option \<Rightarrow> u8 \<Rightarrow> bool \<Rightarrow> bool \<Rightarrow>
    u8 option \<times> bool \<times> cam_ctl_t" where
  "rtw_camid_alloc c fw_state own bssid sta kid gk ext_sec =
     (let cam_id = (case camid_addr fw_state own bssid sta of
                      None \<Rightarrow> None | Some addr \<Rightarrow> rtw_get_camid c (Some addr) (uint kid) gk ext_sec) in
      case cam_id of
        None \<Rightarrow> (None, False, c)
      | Some i \<Rightarrow>
         (let used = rtw_sec_camid_is_used c i;
              u = rtw_sec_cam_map_set (cam_used c) i;
              u = (if ext_sec then rtw_sec_cam_map_set u (i + 1) else u)
          in (Some i, used, c\<lparr>cam_used := u\<rparr>)))"

definition rtw_camid_set :: "cam_ctl_t \<Rightarrow> u8 \<Rightarrow> cam_ctl_t" where
  "rtw_camid_set c i = (if i < cam_num c then c\<lparr>cam_used := rtw_sec_cam_map_set (cam_used c) i\<rparr> else c)"

definition rtw_camid_free :: "cam_ctl_t \<Rightarrow> u8 \<Rightarrow> cam_ctl_t" where
  "rtw_camid_free c i = (if i < cam_num c then c\<lparr>cam_used := rtw_sec_cam_map_clr (cam_used c) i\<rparr> else c)"

section \<open>Swapping entries\<close>

definition swap_clean :: "cam_ctl_t \<Rightarrow> bool \<Rightarrow> u8 \<Rightarrow> cam_ctl_t option" where
  "swap_clean c used i = (if used then clear_cam_entry (rtw_camid_free c i) i else Some c)"

definition swap_write :: "cam_ctl_t \<Rightarrow> bool \<Rightarrow> u8 \<Rightarrow> sec_cam_ent \<Rightarrow> cam_ctl_t option" where
  "swap_write c used i e =
     (if used then map_option (\<lambda>c. rtw_camid_set c i) (write_cam c i (ce_ctrl e) (ce_mac e) (ce_key e))
      else Some c)"

definition rtw_sec_cam_swap :: "cam_ctl_t \<Rightarrow> u8 \<Rightarrow> u8 \<Rightarrow> cam_ctl_t option" where
  "rtw_sec_cam_swap c a b =
     (if a = b then Some c
      else
       (let ua = rtw_sec_camid_is_used c a; ub = rtw_sec_camid_is_used c b;
            ea = cam_cache c ! unat a; eb = cam_cache c ! unat b in
        Option.bind (swap_clean c ua a) (\<lambda>c.
        Option.bind (swap_clean c ub b) (\<lambda>c.
        Option.bind (swap_write c ua b ea) (\<lambda>c.
        swap_write c ub a eb)))))"

definition rtw_get_empty_cam_entry :: "cam_ctl_t \<Rightarrow> u8 \<Rightarrow> u8 option" where
  "rtw_get_empty_cam_entry c start_camid =
     find (\<lambda>i. \<not> rtw_sec_camid_is_used c i) (map of_nat [unat start_camid..<unat (cam_num c)])"

fun clean_dk_loop :: "cam_ctl_t \<Rightarrow> u8 list \<Rightarrow> cam_ctl_t option" where
  "clean_dk_loop c [] = Some c"
| "clean_dk_loop c (i # is) =
     (if rtw_sec_camid_is_used c i then
        (case rtw_get_empty_cam_entry c 4 of
           None \<Rightarrow> clean_dk_loop c is
         | Some e \<Rightarrow> if e > 0 then Option.bind (rtw_sec_cam_swap c i e) (\<lambda>c. clean_dk_loop c is)
                     else clean_dk_loop c is)
      else clean_dk_loop c is)"

definition rtw_clean_dk_section :: "cam_ctl_t \<Rightarrow> cam_ctl_t option" where
  "rtw_clean_dk_section c = clean_dk_loop c [0, 1, 2, 3]"

definition rtw_clean_hw_dk_cam :: "cam_ctl_t \<Rightarrow> cam_ctl_t" where
  "rtw_clean_hw_dk_cam c = foldl rtw_sec_clr_cam_ent c [0, 1, 2, 3]"

definition flush_all_cam_entry :: "cam_ctl_t \<Rightarrow> u8 \<Rightarrow> cam_ctl_t" where
  "flush_all_cam_entry c bmc_id = invalidate_cam_all c bmc_id"

section \<open>Layout round trip\<close>

lemma word_byte_le32:
  "word_byte (le32_word a b c d) 0 = a" "word_byte (le32_word a b c d) (Suc 0) = b"
  "word_byte (le32_word a b c d) 2 = c" "word_byte (le32_word a b c d) 3 = d"
  by (rule bit_word_eqI; auto simp: word_byte_def le32_word_def bit_simps dest: bit_imp_le_length)+

lemma word_byte_ctrl:
  fixes ctrl :: u16 and m0 m1 :: u8
  defines "w \<equiv> ucast ctrl OR push_bit 16 (ucast m0) OR push_bit 24 (ucast m1) :: u32"
  shows "word_byte w 2 = m0" "word_byte w 3 = m1" "ucast w = ctrl"
  by (rule bit_word_eqI; auto simp: word_byte_def w_def bit_simps dest: bit_imp_le_length)+

lemma cam_addr_eq:
  assumes "unat i < 32" "unat i' < 32" "j < 8" "j' < 8"
  shows "(push_bit 3 i + of_nat j = (push_bit 3 i' + of_nat j' :: u8)) \<longleftrightarrow> i = i' \<and> j = j'"
proof -
  have u: "unat (push_bit 3 a + of_nat k :: u8) = 8 * unat a + k" if "unat a < 32" "k < 8" for a :: u8 and k
    using that by (simp add: push_bit_eq_mult unat_word_ariths unat_of_nat)
  show ?thesis
    using u [OF assms(1,3)] u [OF assms(2,4)] assms(3,4) by (auto simp: word_unat_eq_iff) presburger+
qed

lemma cam_addr_or:
  assumes "j < 8"
  shows "(push_bit 3 i OR of_nat j :: u8) = push_bit 3 i + of_nat j"
proof (rule disjunctive_add [symmetric])
  fix n
  have "\<not> bit (of_nat j :: u8) n" if "3 \<le> n"
  proof -
    have "(2 :: nat) ^ 3 \<le> 2 ^ n" using that by (intro power_increasing) auto
    then have "\<not> bit j n" using assms by (simp add: bit_iff_odd)
    then show ?thesis by (simp add: bit_of_nat_iff)
  qed
  then show "\<not> bit (push_bit 3 i :: u8) n \<or> \<not> bit (of_nat j :: u8) n"
    by (auto simp: bit_simps)
qed

lemma write_cam_words_at:
  assumes "unat i < 32" "unat i' < 32" "k < 8" "j < 8"
  shows "write_cam_words hw i ctrl mac key k (push_bit 3 i' + of_nat j)
       = (if i' = i \<and> j \<le> k then cam_ent_word j ctrl mac key else hw (push_bit 3 i' + of_nat j))"
  using assms
proof (induction k arbitrary: hw)
  case 0
  then show ?case using cam_addr_eq [of i' i j 0] by simp
next
  case (Suc k)
  then show ?case using cam_addr_eq [of i' i j "Suc k"] by (auto simp del: of_nat_Suc)
qed

lemma read_write_cam_words:
  assumes "unat i < 32" "length mac = 6" "length key = 16"
  shows "rtw_sec_read_cam_ent (c\<lparr>cam_hw := write_cam_words hw i ctrl mac key 7\<rparr>) i = (ctrl, mac, key)"
proof -
  have r: "write_cam_words hw i ctrl mac key 7 (push_bit 3 i OR of_nat j) = cam_ent_word j ctrl mac key"
    if "j < 8" for j
    using that assms by (simp add: cam_addr_or write_cam_words_at)
  have m: "[mac ! 0, mac ! 1, mac ! 2, mac ! 3, mac ! 4, mac ! 5] = mac"
    using assms(2) by (auto simp: list_eq_iff_nth_eq less_Suc_eq numeral_eq_Suc nth_Cons')
  have k: "[key ! 0, key ! 1, key ! 2, key ! 3, key ! 4, key ! 5, key ! 6, key ! 7,
      key ! 8, key ! 9, key ! 10, key ! 11, key ! 12, key ! 13, key ! 14, key ! 15] = key"
  proof -
    have "map ((!) key) [0..<16] = key" using assms(3) by (metis map_nth)
    then show ?thesis by (simp add: upt_rec numeral_eq_Suc)
  qed
  show ?thesis
    using r [of 0] r [of 1] r [of 2] r [of 3] r [of 4] r [of 5] m k
    by (simp add: rtw_sec_read_cam_ent_def cam_ent_word_def word_byte_le32 word_byte_ctrl flip: numeral_2_eq_2)
qed

section \<open>Allocation and swapping\<close>

definition cam_wf :: "cam_ctl_t \<Rightarrow> bool" where
  "cam_wf c \<longleftrightarrow> unat (cam_num c) \<le> SEC_CAM_ENT_NUM_SW_LIMIT \<and> length (cam_cache c) = SEC_CAM_ENT_NUM_SW_LIMIT
     \<and> (\<forall>e\<in>set (cam_cache c). length (ce_mac e) = 6 \<and> length (ce_key e) = 16)"

lemma cam_ids_set: "i \<in> set (cam_ids c) \<longleftrightarrow> i < cam_num c"
proof
  assume "i < cam_num c"
  then have "i = of_nat (unat i) \<and> unat i < unat (cam_num c)" by (simp add: word_less_nat_alt)
  then show "i \<in> set (cam_ids c)" unfolding cam_ids_def by (metis atLeastLessThan_iff image_eqI le0 set_map set_upt)
next
  assume "i \<in> set (cam_ids c)"
  then obtain k where k: "i = of_nat k" "k < unat (cam_num c)" by (auto simp: cam_ids_def)
  then have "unat i = k" using u8_bound [of "cam_num c"] by (simp add: unat_of_nat)
  then show "i < cam_num c" using k by (simp add: word_less_nat_alt)
qed

lemma camid_is_used_iff: "rtw_sec_camid_is_used c i \<longleftrightarrow> i < cam_num c \<and> rtw_sec_camid_is_set (cam_used c) i"
  by (auto simp: rtw_sec_camid_is_used_def not_le)

definition cam_match :: "cam_ctl_t \<Rightarrow> bytes \<Rightarrow> int \<Rightarrow> u8 \<Rightarrow> bool" where
  "cam_match c a kid i \<longleftrightarrow> ce_mac (cam_cache c ! unat i) = a \<and> uint (ce_ctrl (cam_cache c ! unat i) AND 3) = kid"

lemma get_camid_Some:
  assumes "rtw_get_camid c (Some a) kid gk ext_sec = Some i" "0 \<le> kid"
  shows "i < cam_num c \<and> (cam_match c a kid i \<or> camid_room c ext_sec i)"
  using assms by (auto simp: rtw_get_camid_def rtw_camid_search_def find_Some_iff cam_cache_chk_def Let_def
      cam_match_def simp flip: cam_ids_set split: option.splits)

lemma get_camid_None:
  assumes "rtw_get_camid c (Some a) kid gk ext_sec = None"
  shows "\<forall>i < cam_num c. \<not> camid_room c ext_sec i"
  using assms by (auto simp: rtw_get_camid_def find_None_iff cam_ids_set split: option.splits)

lemma camid_alloc_Some:
  assumes "rtw_camid_alloc c st own bssid sta kid gk ext_sec = (Some i, used, c')"
  obtains a where "camid_addr st own bssid sta = Some a" "rtw_get_camid c (Some a) (uint kid) gk ext_sec = Some i"
    "used = rtw_sec_camid_is_used c i"
    "c' = c\<lparr>cam_used := (if ext_sec then rtw_sec_cam_map_set (rtw_sec_cam_map_set (cam_used c) i) (i + 1)
                         else rtw_sec_cam_map_set (cam_used c) i)\<rparr>"
  using assms by (auto simp: rtw_camid_alloc_def Let_def split: option.splits if_splits)

text \<open>
  C18. Writing a key into the hardware table and reading it back gives the control word, address and
  key that were written, and leaves the words of every other entry alone.
\<close>

theorem sec_cam_ent_roundtrip:
  assumes "unat i < 32" "length mac = 6" "length key = 16"
  shows "\<exists>c'. rtw_sec_write_cam_ent c i ctrl mac key = Some c' \<and> rtw_sec_read_cam_ent c' i = (ctrl, mac, key)
    \<and> (\<forall>j. unat j < 32 \<and> j \<noteq> i \<longrightarrow> rtw_sec_read_cam_ent c' j = rtw_sec_read_cam_ent c j)"
proof -
  let ?c' = "c\<lparr>cam_hw := write_cam_words (cam_hw c) i ctrl mac key 7\<rparr>"
  have "rtw_sec_read_cam_ent ?c' j = rtw_sec_read_cam_ent c j" if "unat j < 32" "j \<noteq> i" for j
  proof -
    have "write_cam_words (cam_hw c) i ctrl mac key 7 (push_bit 3 j OR of_nat k) = cam_hw c (push_bit 3 j OR of_nat k)"
      if "k < 8" for k
      using that \<open>unat j < 32\<close> \<open>j \<noteq> i\<close> assms(1) by (simp add: cam_addr_or write_cam_words_at)
    from this [of 0] this [of 1] this [of 2] this [of 3] this [of 4] this [of 5]
    show ?thesis by (simp add: rtw_sec_read_cam_ent_def Let_def)
  qed
  then show ?thesis
    using assms by (simp add: rtw_sec_write_cam_ent_def read_write_cam_words)
qed

definition sample_cam :: cam_ctl_t where
  "sample_cam = \<lparr>sec_cap = 0, cam_flags = 0, cam_num = 8, cam_used = 0x60,
     cam_cache = (replicate 32 null_cam_ent)
       [5 := \<lparr>ce_ctrl = 0x8011, ce_mac = replicate 6 0xAA, ce_key = replicate 16 1\<rparr>,
        6 := \<lparr>ce_ctrl = 0x8010, ce_mac = replicate 6 0xBB, ce_key = replicate 16 2\<rparr>],
     cam_hw = (\<lambda>_. 0)\<rparr>"

theorem sec_cam_ent_roundtrip_witness:
  "\<exists>c'. rtw_sec_write_cam_ent sample_cam 7 0x8010 [1, 2, 3, 4, 5, 6] (replicate 16 9) = Some c'
    \<and> rtw_sec_read_cam_ent c' 7 = (0x8010, [1, 2, 3, 4, 5, 6], replicate 16 9)"
proof -
  have "unat (7 :: u8) < 32" "length [1, 2, 3, 4, 5, 6 :: u8] = 6" "length (replicate 16 (9 :: u8)) = 16"
    by simp_all
  from sec_cam_ent_roundtrip [OF this] show ?thesis by blast
qed

text \<open>
  C4. A CAM entry handed out is inside the table and marked used; an entry that was already used is
  handed out only for the address and key id it holds, and no other entry changes its status (for a
  256-bit key, none but the following one).
\<close>

theorem rtw_camid_alloc_exclusive:
  assumes "cam_wf c" "rtw_camid_alloc c st own bssid sta kid gk ext_sec = (Some i, used, c')"
  shows "i < cam_num c \<and> rtw_sec_camid_is_used c' i
    \<and> (used \<longleftrightarrow> rtw_sec_camid_is_used c i)
    \<and> (used \<longrightarrow> camid_addr st own bssid sta = Some (ce_mac (cam_cache c ! unat i))
          \<and> ce_ctrl (cam_cache c ! unat i) AND 3 = ucast kid)
    \<and> (\<forall>j. j \<noteq> i \<and> (ext_sec \<longrightarrow> j \<noteq> i + 1) \<longrightarrow> rtw_sec_camid_is_used c' j = rtw_sec_camid_is_used c j)
    \<and> cam_cache c' = cam_cache c"
proof -
  from assms(2) obtain a where a: "camid_addr st own bssid sta = Some a"
    "rtw_get_camid c (Some a) (uint kid) gk ext_sec = Some i" "used = rtw_sec_camid_is_used c i"
    "c' = c\<lparr>cam_used := (if ext_sec then rtw_sec_cam_map_set (rtw_sec_cam_map_set (cam_used c) i) (i + 1)
                         else rtw_sec_cam_map_set (cam_used c) i)\<rparr>"
    by (rule camid_alloc_Some)
  have g: "i < cam_num c" "cam_match c a (uint kid) i \<or> camid_room c ext_sec i"
    using get_camid_Some [OF a(2)] by auto
  have i32: "unat i < 32"
    using g(1) assms(1) by (auto simp: cam_wf_def word_less_nat_alt SEC_CAM_ENT_NUM_SW_LIMIT_def)
  have "ce_ctrl (cam_cache c ! unat i) AND 3 = ucast kid" if "cam_match c a (uint kid) i"
  proof -
    have "uint (ce_ctrl (cam_cache c ! unat i) AND 3) = uint (ucast kid :: u16)"
      using that uint_lt2p [of kid] by (simp add: cam_match_def unsigned_ucast_eq take_bit_int_eq_self)
    then show ?thesis by (simp add: word_uint_eq_iff)
  qed
  then show ?thesis
    using g a i32 by (auto simp: camid_is_used_iff cam_map.is_set_set camid_room_def cam_match_def)
qed

lemma sample_cam_wf: "cam_wf sample_cam"
  by (auto simp: cam_wf_def sample_cam_def SEC_CAM_ENT_NUM_SW_LIMIT_def null_cam_ent_def
      dest!: set_update_subset_insert [THEN subsetD])

lemmas cam_eval = sample_cam_def null_cam_ent_def rtw_camid_alloc_def camid_addr_def Let_def
  WIFI_FW_AP_STATE_def WIFI_FW_ADHOC_STATE_def WIFI_FW_ASSOC_SUCCESS_def rtw_get_camid_def
  rtw_camid_search_def cam_ids_def cam_cache_chk_def camctl_chk_cap_def camid_room_def
  rtw_sec_camid_is_used_def rtw_sec_camid_is_set_def rtw_sec_cam_map_set_def BIT_def upt_rec word_le_nat_alt

theorem rtw_camid_alloc_exclusive_witness:
  "rtw_camid_alloc sample_cam 2 [] [] (Some (replicate 6 0xAA)) 1 False False = (Some 5, True, sample_cam)
   \<and> camid_addr 2 [] [] (Some (replicate 6 0xAA)) = Some (ce_mac (cam_cache sample_cam ! 5))"
proof -
  have a: "rtw_camid_alloc sample_cam 2 [] [] (Some (replicate 6 0xAA)) 1 False False = (Some 5, True, sample_cam)"
    by (simp add: cam_eval)
  show ?thesis using rtw_camid_alloc_exclusive [OF sample_cam_wf a] a by simp
qed

text \<open>
  The allocation fails only when no entry of the table is free (for a 256-bit key, no two
  consecutive ones), once the address to place is known.
\<close>

theorem rtw_camid_alloc_complete:
  assumes "rtw_camid_alloc c st own bssid sta kid gk ext_sec = (None, used, c')"
  shows "c' = c \<and> (camid_addr st own bssid sta = None \<or> (\<forall>i < cam_num c. \<not> camid_room c ext_sec i))"
  using assms get_camid_None
  by (fastforce simp: rtw_camid_alloc_def Let_def split: option.splits if_splits)

theorem rtw_camid_alloc_complete_witness:
  "fst (rtw_camid_alloc (sample_cam\<lparr>cam_used := 0xFF\<rparr>) 2 [] [] (Some (replicate 6 0xCC)) 1 False False) = None
   \<and> \<not> camid_room (sample_cam\<lparr>cam_used := 0xFF\<rparr>) False 3"
proof -
  let ?c = "sample_cam\<lparr>cam_used := 0xFF\<rparr>"
  have a: "rtw_camid_alloc ?c 2 [] [] (Some (replicate 6 0xCC)) 1 False False = (None, False, ?c)"
    by (simp add: cam_eval)
  have "cam_num ?c = 8" "camid_addr 2 [] [] (Some (replicate 6 0xCC)) \<noteq> None"
    by (simp_all add: sample_cam_def camid_addr_def)
  then show ?thesis using rtw_camid_alloc_complete [OF a] a by auto
qed

lemma write_cam_ext:
  assumes "length (cam_cache c) = 32" "unat i < 31" "length a = 6" "length key = 32" "ctrl AND 0x200 \<noteq> 0"
  shows "\<exists>hw. write_cam c i ctrl a key = Some (c\<lparr>cam_hw := hw, cam_cache := (cam_cache c)
    [unat i := \<lparr>ce_ctrl = ctrl, ce_mac = a, ce_key = take 16 key\<rparr>, unat i + 1 := \<lparr>ce_ctrl = ctrl OR 0x20, ce_mac = a, ce_key = drop 16 key\<rparr>]\<rparr>)"
proof -
  have "unat (i + 1) = unat i + 1" using assms(2) by (simp add: unat_word_ariths)
  then show ?thesis
    using assms by (cases c) (auto simp: write_cam_def write_cam_one_def rtw_sec_write_cam_ent_def write_cam_cache_def)
qed

text \<open>
  C19. Placing a 256-bit key over an entry the station already has takes the following entry without
  looking at it. In any well-formed cache, when the search finds entry \<open>i\<close> for the address and key id,
  the allocation returns \<open>i\<close> whether entry \<open>i + 1\<close> is free or not, and the write that follows puts the
  station's address and the second half of its key into entry \<open>i + 1\<close>: if that entry was in use by another
  address, the key of that address is gone from the cache.
\<close>

theorem rtw_camid_alloc_ext_overlap:
  assumes "cam_wf c" "camid_addr st own bssid sta = Some a" "unat i < 31" "length a = 6" "length key = 32" "ctrl AND 0x200 \<noteq> 0"
    and "rtw_camid_search c (Some a) (uint kid) (if camctl_chk_cap c SEC_CAP_CHK_BMC then (if gk then 1 else 0) else -1) = Some i"
  shows "\<exists>c' c''. rtw_camid_alloc c st own bssid sta kid gk True = (Some i, rtw_sec_camid_is_used c i, c')
    \<and> write_cam c' i ctrl a key = Some c'' \<and> ce_mac (cam_cache c'' ! (unat i + 1)) = a \<and> ce_key (cam_cache c'' ! (unat i + 1)) = drop 16 key
    \<and> (\<forall>k. k \<noteq> unat i \<and> k \<noteq> unat i + 1 \<longrightarrow> cam_cache c'' ! k = cam_cache c ! k)
    \<and> (\<forall>b. b \<noteq> a \<and> (\<forall>k < 32. k \<noteq> unat i + 1 \<longrightarrow> ce_mac (cam_cache c ! k) \<noteq> b) \<longrightarrow> (\<forall>k < 32. ce_mac (cam_cache c'' ! k) \<noteq> b))"
proof -
  define c' where "c' = c\<lparr>cam_used := rtw_sec_cam_map_set (rtw_sec_cam_map_set (cam_used c) i) (i + 1)\<rparr>"
  have a: "rtw_camid_alloc c st own bssid sta kid gk True = (Some i, rtw_sec_camid_is_used c i, c')"
    using assms(2,7) by (simp add: rtw_camid_alloc_def rtw_get_camid_def c'_def)
  have l: "length (cam_cache c) = 32" "cam_cache c' = cam_cache c" using assms(1) by (simp_all add: cam_wf_def SEC_CAM_ENT_NUM_SW_LIMIT_def c'_def)
  obtain hw where w: "write_cam c' i ctrl a key = Some (c'\<lparr>cam_hw := hw, cam_cache := (cam_cache c)
    [unat i := \<lparr>ce_ctrl = ctrl, ce_mac = a, ce_key = take 16 key\<rparr>, unat i + 1 := \<lparr>ce_ctrl = ctrl OR 0x20, ce_mac = a, ce_key = drop 16 key\<rparr>]\<rparr>)"
    using write_cam_ext [of c' i a key ctrl] assms(3-6) l by auto
  show ?thesis using a w l(1) assms(3) by (auto simp: nth_list_update)
qed

text \<open>The station at entry 5 gets a 256-bit key; the key of the station at entry 6 is gone.\<close>

theorem rtw_camid_alloc_ext_overlap_witness:
  "rtw_sec_camid_is_used sample_cam 6 \<and> ce_mac (cam_cache sample_cam ! 6) = replicate 6 0xBB
   \<and> (\<exists>c' c''. rtw_camid_alloc sample_cam 2 [] [] (Some (replicate 6 0xAA)) 1 False True = (Some 5, True, c')
       \<and> write_cam c' 5 0x8231 (replicate 6 0xAA) (replicate 32 3) = Some c'' \<and> (\<forall>k < 32. ce_mac (cam_cache c'' ! k) \<noteq> replicate 6 0xBB))"
proof -
  have s: "rtw_camid_search sample_cam (Some (replicate 6 0xAA)) (uint (1 :: u8)) (if camctl_chk_cap sample_cam SEC_CAP_CHK_BMC then (if False then 1 else 0) else -1) = Some 5"
    by (simp add: cam_eval)
  have u: "rtw_sec_camid_is_used sample_cam 6" "rtw_sec_camid_is_used sample_cam 5" "ce_mac (cam_cache sample_cam ! 6) = replicate 6 0xBB" by (simp_all add: cam_eval)
  have o: "\<forall>k < 32. k \<noteq> unat (5 :: u8) + 1 \<longrightarrow> ce_mac (cam_cache sample_cam ! k) \<noteq> replicate 6 0xBB"
    by (auto simp: sample_cam_def null_cam_ent_def nth_list_update)
  have ad: "camid_addr 2 [] [] (Some (replicate 6 0xAA)) = Some (replicate 6 0xAA)" by (simp add: camid_addr_def)
  have h: "unat (5 :: u8) < 31" "length (replicate 6 (0xAA :: u8)) = 6" "length (replicate 32 (3 :: u8)) = 32" "(0x8231 :: u16) AND 0x200 \<noteq> 0" by simp_all
  have b: "replicate 6 (0xBB :: u8) \<noteq> replicate 6 0xAA" by simp
  obtain c' c'' where c: "rtw_camid_alloc sample_cam 2 [] [] (Some (replicate 6 0xAA)) 1 False True = (Some 5, True, c')"
      "write_cam c' 5 0x8231 (replicate 6 0xAA) (replicate 32 3) = Some c''"
      "\<forall>b. b \<noteq> replicate 6 0xAA \<and> (\<forall>k < 32. k \<noteq> unat (5 :: u8) + 1 \<longrightarrow> ce_mac (cam_cache sample_cam ! k) \<noteq> b) \<longrightarrow> (\<forall>k < 32. ce_mac (cam_cache c'' ! k) \<noteq> b)"
    using rtw_camid_alloc_ext_overlap [OF sample_cam_wf ad h s] u(2) by auto
  then show ?thesis using u(1,3) o b by blast
qed

lemma cam_wf_entry: "cam_wf c \<Longrightarrow> unat i < 32 \<Longrightarrow>
    length (ce_mac (cam_cache c ! unat i)) = 6 \<and> length (ce_key (cam_cache c ! unat i)) = 16"
  by (simp add: cam_wf_def SEC_CAM_ENT_NUM_SW_LIMIT_def)

lemma swap_clean_eq:
  assumes "length (cam_cache c) = 32" "unat i < 32" "i < cam_num c"
  shows "\<exists>hw. swap_clean c used i = Some (if used then c\<lparr>cam_hw := hw, cam_used := rtw_sec_cam_map_clr (cam_used c) i,
       cam_cache := (cam_cache c)[unat i := null_cam_ent]\<rparr> else c)"
  using assms by (cases c) (auto simp: swap_clean_def clear_cam_entry_def clear_cam_entry_hw_def rtw_sec_write_cam_ent_def
      clear_cam_cache_def rtw_camid_free_def)

lemma swap_write_eq:
  assumes "length (cam_cache c) = 32" "unat i < 32" "i < cam_num c" "length (ce_mac e) = 6" "length (ce_key e) = 16"
    and "used \<longrightarrow> ce_ctrl e AND 0x200 = 0"
  shows "\<exists>hw. swap_write c used i e = Some (if used then c\<lparr>cam_hw := hw, cam_used := rtw_sec_cam_map_set (cam_used c) i,
       cam_cache := (cam_cache c)[unat i := e]\<rparr> else c)"
  using assms by (cases c, cases e) (auto simp: swap_write_def write_cam_def write_cam_one_def rtw_sec_write_cam_ent_def
      write_cam_cache_def rtw_camid_set_def)

text \<open>
  Swapping two entries of the table exchanges their used marks and moves the keys in use to the
  other entry, and touches no other entry, as long as neither holds a 256-bit key.
\<close>

theorem rtw_sec_cam_swap_exchanges:
  assumes wf: "cam_wf c" and ab: "a \<noteq> b" "a < cam_num c" "b < cam_num c"
    and noext: "rtw_sec_camid_is_used c a \<longrightarrow> ce_ctrl (cam_cache c ! unat a) AND 0x200 = 0"
      "rtw_sec_camid_is_used c b \<longrightarrow> ce_ctrl (cam_cache c ! unat b) AND 0x200 = 0"
  shows "\<exists>c'. rtw_sec_cam_swap c a b = Some c'
    \<and> rtw_sec_camid_is_used c' a = rtw_sec_camid_is_used c b
    \<and> rtw_sec_camid_is_used c' b = rtw_sec_camid_is_used c a
    \<and> (rtw_sec_camid_is_used c a \<longrightarrow> cam_cache c' ! unat b = cam_cache c ! unat a)
    \<and> (rtw_sec_camid_is_used c b \<longrightarrow> cam_cache c' ! unat a = cam_cache c ! unat b)
    \<and> (\<forall>j. j \<noteq> a \<and> j \<noteq> b \<longrightarrow> rtw_sec_camid_is_used c' j = rtw_sec_camid_is_used c j
           \<and> cam_cache c' ! unat j = cam_cache c ! unat j)"
proof -
  let ?ua = "rtw_sec_camid_is_used c a" and ?ub = "rtw_sec_camid_is_used c b"
  let ?ea = "cam_cache c ! unat a" and ?eb = "cam_cache c ! unat b"
  have lt: "unat a < 32" "unat b < 32" "length (cam_cache c) = 32"
    using wf ab by (auto simp: cam_wf_def word_less_nat_alt SEC_CAM_ENT_NUM_SW_LIMIT_def)
  have ne: "unat a \<noteq> unat b" using ab(1) by (simp add: word_unat_eq_iff)
  note e = cam_wf_entry [OF wf lt(1)] cam_wf_entry [OF wf lt(2)]
  define m1 where "m1 = (\<lambda>hw. if ?ua then c\<lparr>cam_hw := hw, cam_used := rtw_sec_cam_map_clr (cam_used c) a,
       cam_cache := (cam_cache c)[unat a := null_cam_ent]\<rparr> else c)"
  obtain h1 where s1: "swap_clean c ?ua a = Some (m1 h1)"
    using swap_clean_eq [OF lt(3,1) ab(2)] by (auto simp: m1_def)
  define m2 where "m2 = (\<lambda>hw. if ?ub then (m1 h1)\<lparr>cam_hw := hw, cam_used := rtw_sec_cam_map_clr (cam_used (m1 h1)) b,
       cam_cache := (cam_cache (m1 h1))[unat b := null_cam_ent]\<rparr> else m1 h1)"
  have l1: "length (cam_cache (m1 h1)) = 32" "cam_num (m1 h1) = cam_num c" using lt by (auto simp: m1_def)
  obtain h2 where s2: "swap_clean (m1 h1) ?ub b = Some (m2 h2)"
    using swap_clean_eq [of "m1 h1" b ?ub] l1 lt(2) ab(3) by (auto simp: m2_def)
  define m3 where "m3 = (\<lambda>hw. if ?ua then (m2 h2)\<lparr>cam_hw := hw, cam_used := rtw_sec_cam_map_set (cam_used (m2 h2)) b,
       cam_cache := (cam_cache (m2 h2))[unat b := ?ea]\<rparr> else m2 h2)"
  have l2: "length (cam_cache (m2 h2)) = 32" "cam_num (m2 h2) = cam_num c" using l1 by (auto simp: m2_def)
  obtain h3 where s3: "swap_write (m2 h2) ?ua b ?ea = Some (m3 h3)"
    using swap_write_eq [of "m2 h2" b ?ea ?ua] l2 lt(2) ab(3) e(1) noext(1) by (auto simp: m3_def)
  define m4 where "m4 = (\<lambda>hw. if ?ub then (m3 h3)\<lparr>cam_hw := hw, cam_used := rtw_sec_cam_map_set (cam_used (m3 h3)) a,
       cam_cache := (cam_cache (m3 h3))[unat a := ?eb]\<rparr> else m3 h3)"
  have l3: "length (cam_cache (m3 h3)) = 32" "cam_num (m3 h3) = cam_num c" using l2 by (auto simp: m3_def)
  obtain h4 where s4: "swap_write (m3 h3) ?ub a ?eb = Some (m4 h4)"
    using swap_write_eq [of "m3 h3" a ?eb ?ub] l3 lt(1) ab(2) e(2) noext(2) by (auto simp: m4_def)
  have res: "rtw_sec_cam_swap c a b = Some (m4 h4)"
    using ab(1) s1 s2 s3 s4 by (simp add: rtw_sec_cam_swap_def Let_def)
  have set4: "rtw_sec_camid_is_set (cam_used (m4 h4)) j \<longleftrightarrow>
      (if j = a then ?ub else if j = b then ?ua else rtw_sec_camid_is_set (cam_used c) j)" for j
    using ab lt by (auto simp: m4_def m3_def m2_def m1_def cam_map.is_set_set cam_map.is_set_clr camid_is_used_iff)
  have used4: "rtw_sec_camid_is_used (m4 h4) j \<longleftrightarrow>
      (if j = a then ?ub else if j = b then ?ua else rtw_sec_camid_is_used c j)" for j
    using ab set4 [of j] l3 by (auto simp: camid_is_used_iff m4_def)
  have cache4: "cam_cache (m4 h4) ! unat j =
      (if j = a then (if ?ub then ?eb else if ?ua then null_cam_ent else ?ea)
       else if j = b then (if ?ua then ?ea else if ?ub then null_cam_ent else ?eb) else cam_cache c ! unat j)" for j
    using lt ne by (auto simp: m4_def m3_def m2_def m1_def nth_list_update word_unat_eq_iff)
  show ?thesis using res used4 cache4 ab(1) by auto
qed

theorem rtw_sec_cam_swap_exchanges_witness:
  "\<exists>c'. rtw_sec_cam_swap sample_cam 5 2 = Some c' \<and> rtw_sec_camid_is_used c' 2 \<and> \<not> rtw_sec_camid_is_used c' 5
     \<and> cam_cache c' ! 2 = cam_cache sample_cam ! 5"
proof -
  have u: "rtw_sec_camid_is_used sample_cam 5" "\<not> rtw_sec_camid_is_used sample_cam 2"
    "ce_ctrl (cam_cache sample_cam ! unat (5 :: u8)) AND 0x200 = 0" "(5 :: u8) < cam_num sample_cam" "(2 :: u8) < cam_num sample_cam"
    by (simp_all add: cam_eval word_less_nat_alt)
  show ?thesis
    using rtw_sec_cam_swap_exchanges [OF sample_cam_wf _ u(4,5)] u by auto
qed

text \<open>
  C20. Swapping an entry that holds a 256-bit key reads past the end of the 16-byte key of the saved
  cache entry: the second half of the key is never kept in that entry.
\<close>

theorem rtw_sec_cam_swap_ext_out_of_bounds:
  assumes wf: "cam_wf c" and ab: "a \<noteq> b" "a < cam_num c" "b < cam_num c"
    and ext: "rtw_sec_camid_is_used c a" "ce_ctrl (cam_cache c ! unat a) AND 0x200 \<noteq> 0"
  shows "rtw_sec_cam_swap c a b = None"
proof -
  have lt: "unat a < 32" using wf ab by (auto simp: cam_wf_def word_less_nat_alt SEC_CAM_ENT_NUM_SW_LIMIT_def)
  have "swap_write c'' True b (cam_cache c ! unat a) = None" for c''
    using ext(2) cam_wf_entry [OF wf lt]
    by (auto simp: swap_write_def write_cam_def write_cam_one_def rtw_sec_write_cam_ent_def split: bind_splits)
  then show ?thesis
    using ab(1) ext(1) by (auto simp: rtw_sec_cam_swap_def Let_def split: bind_splits)
qed

definition sample_ext_cam :: cam_ctl_t where
  "sample_ext_cam = sample_cam\<lparr>cam_cache := (cam_cache sample_cam)
     [5 := \<lparr>ce_ctrl = 0x8211, ce_mac = replicate 6 0xAA, ce_key = replicate 16 1\<rparr>]\<rparr>"

theorem rtw_sec_cam_swap_ext_out_of_bounds_witness: "rtw_sec_cam_swap sample_ext_cam 5 2 = None"
proof -
  have wf: "cam_wf sample_ext_cam"
    using sample_cam_wf by (auto simp: cam_wf_def sample_ext_cam_def dest!: set_update_subset_insert [THEN subsetD])
  have u: "rtw_sec_camid_is_used sample_ext_cam 5" "ce_ctrl (cam_cache sample_ext_cam ! unat (5 :: u8)) AND 0x200 \<noteq> 0"
    "(5 :: u8) < cam_num sample_ext_cam" "(2 :: u8) < cam_num sample_ext_cam"
    by (simp_all add: cam_eval sample_ext_cam_def word_less_nat_alt)
  show ?thesis using rtw_sec_cam_swap_ext_out_of_bounds [OF wf _ u(3,4,1,2)] by simp
qed

end
