(* ===== verification/Macid.thy ===== *)
theory Macid
  imports Sec_Cam
begin

unbundle bit_operations_syntax

text \<open>
  MAC-id allocation (\<^verbatim>\<open>rtw_alloc_macid\<close>, \<^verbatim>\<open>rtw_release_macid\<close>, \<^verbatim>\<open>core/rtw_wlan_util.c\<close>): the
  hardware id of a station, out of the bitmap \<^verbatim>\<open>macid_ctl->used\<close>. The driver is built with one
  interface, so the per-interface arrays \<^verbatim>\<open>if_g\<close> and \<^verbatim>\<open>iface_bmc\<close> are one map and one id. The
  broadcast station of an access point also reserves the CAM entry of the same number, so the
  operations take the CAM control block too. The lemmas show that an id is given to one station at a
  time, that the id reserved for management frames is never given out, and that a release returns
  exactly what the allocation took.
\<close>

section \<open>State and operations\<close>

definition RTW_DEFAULT_MGMT_MACID :: u8 where
  "RTW_DEFAULT_MGMT_MACID = 1"

definition bc_addr :: bytes where
  "bc_addr = replicate 6 0xFF"

record macid_ctl_t =
  macid_num :: u8
  macid_used :: macid_bmp
  macid_bmc :: macid_bmp
  macid_if_g :: macid_bmp
  macid_ch_g :: "macid_bmp \<times> macid_bmp"
  iface_bmc :: u8
  macid_sta :: "u8 \<Rightarrow> nat option"

definition rtw_macid_is_used :: "macid_ctl_t \<Rightarrow> u8 \<Rightarrow> bool" where
  "rtw_macid_is_used m i = rtw_macid_is_set (macid_used m) i"

definition rtw_macid_is_bmc :: "macid_ctl_t \<Rightarrow> u8 \<Rightarrow> bool" where
  "rtw_macid_is_bmc m i = rtw_macid_is_set (macid_bmc m) i"

definition rtw_macid_get_iface_bmp :: "macid_ctl_t \<Rightarrow> u8 \<Rightarrow> u8" where
  "rtw_macid_get_iface_bmp m i = (if rtw_macid_is_set (macid_if_g m) i then 1 else 0)"

definition rtw_macid_is_iface_specific :: "macid_ctl_t \<Rightarrow> u8 \<Rightarrow> bool" where
  "rtw_macid_is_iface_specific m i = rtw_macid_is_set (macid_if_g m) i"

definition rtw_macid_get_ch_g :: "macid_ctl_t \<Rightarrow> u8 \<Rightarrow> int" where
  "rtw_macid_get_ch_g m i =
     (if rtw_macid_is_set (fst (macid_ch_g m)) i then 0
      else if rtw_macid_is_set (snd (macid_ch_g m)) i then 1 else -1)"

definition rtw_iface_bcmc_id_set :: "macid_ctl_t \<Rightarrow> u8 \<Rightarrow> macid_ctl_t" where
  "rtw_iface_bcmc_id_set m mac_id = m\<lparr>iface_bmc := mac_id\<rparr>"

definition rtw_iface_bcmc_id_get :: "macid_ctl_t \<Rightarrow> u8" where
  "rtw_iface_bcmc_id_get m = iface_bmc m"

definition rtw_macid_ctl_init :: "macid_ctl_t \<Rightarrow> macid_ctl_t" where
  "rtw_macid_ctl_init m =
     m\<lparr>macid_used := rtw_macid_map_set (macid_used m) RTW_DEFAULT_MGMT_MACID,
       macid_bmc := rtw_macid_map_set (macid_bmc m) RTW_DEFAULT_MGMT_MACID,
       macid_if_g := rtw_macid_map_set (macid_if_g m) RTW_DEFAULT_MGMT_MACID,
       macid_sta := (macid_sta m)(RTW_DEFAULT_MGMT_MACID := None)\<rparr>"

text \<open>
  \<^verbatim>\<open>rtw_alloc_macid\<close>: \<open>sta\<close> and \<open>mac\<close> are the station and its address, \<open>own\<close> the interface's
  address, \<open>sta_or_null\<close> is \<^verbatim>\<open>MLME_IS_STA || MLME_IS_NULL\<close>. The first component of the result is
  the \<^verbatim>\<open>mac_id\<close> stored in the station.
\<close>

definition macid_ids :: "macid_ctl_t \<Rightarrow> u8 list" where
  "macid_ids m = map of_nat [0..<unat (macid_num m)]"

definition macid_free_for :: "macid_ctl_t \<Rightarrow> cam_ctl_t \<Rightarrow> bool \<Rightarrow> u8 \<Rightarrow> bool" where
  "macid_free_for m c is_bc_sta i \<longleftrightarrow>
     \<not> (is_bc_sta \<and> rtw_sec_camid_is_used c i) \<and> \<not> rtw_macid_is_used m i"

definition rtw_alloc_macid :: "bytes \<Rightarrow> bool \<Rightarrow> nat \<Rightarrow> bytes \<Rightarrow> macid_ctl_t \<Rightarrow> cam_ctl_t \<Rightarrow>
    u8 \<times> macid_ctl_t \<times> cam_ctl_t" where
  "rtw_alloc_macid own sta_or_null sta mac m c =
     (if mac = own then (macid_num m, m, c)
      else
       (let is_bc_sta = (mac = bc_addr);
            m = (if is_bc_sta then rtw_iface_bcmc_id_set m INVALID_SEC_MAC_CAM_ID else m) in
        if is_bc_sta \<and> sta_or_null then (RTW_DEFAULT_MGMT_MACID, m, c)
        else
         (case find (macid_free_for m c is_bc_sta) (macid_ids m) of
            None \<Rightarrow> (macid_num m, m, c)
          | Some i \<Rightarrow>
             (let m = m\<lparr>macid_used := rtw_macid_map_set (macid_used m) i\<rparr>;
                  (m, c) =
                    (if is_bc_sta then
                       (rtw_iface_bcmc_id_set (m\<lparr>macid_bmc := rtw_macid_map_set (macid_bmc m) i\<rparr>) i,
                        (let c = c\<lparr>cam_used := rtw_sec_cam_map_set (cam_used c) i\<rparr> in
                         if camctl_chk_cap c SEC_CAP_CHK_EXTRA_SEC
                         then c\<lparr>cam_used := rtw_sec_cam_map_set (cam_used c) (i + 1)\<rparr> else c))
                     else (m, c))
              in (i, m\<lparr>macid_if_g := rtw_macid_map_set (macid_if_g m) i,
                       macid_sta := (macid_sta m)(i := Some sta)\<rparr>, c)))))"

text \<open>\<^verbatim>\<open>rtw_release_macid\<close>: the station's \<^verbatim>\<open>mac_id\<close> becomes \<^verbatim>\<open>macid_ctl->num\<close> on every path.\<close>

definition rtw_release_macid :: "bytes \<Rightarrow> bytes \<Rightarrow> u8 \<Rightarrow> macid_ctl_t \<Rightarrow> cam_ctl_t \<Rightarrow>
    u8 \<times> macid_ctl_t \<times> cam_ctl_t" where
  "rtw_release_macid own mac mac_id m c =
     (if mac = own \<or> mac_id \<ge> macid_num m \<or> mac_id = RTW_DEFAULT_MGMT_MACID
         \<or> \<not> rtw_macid_is_used m mac_id \<or> rtw_macid_get_iface_bmp m mac_id AND 1 = 0
      then (macid_num m, m, c)
      else
       (let (m, c) =
          (if mac = bc_addr then
             (let i = rtw_iface_bcmc_id_get m;
                  c = (if i \<noteq> INVALID_SEC_MAC_CAM_ID \<and> i < cam_num c
                       then (let c = c\<lparr>cam_used := rtw_sec_cam_map_clr (cam_used c) i\<rparr> in
                             if camctl_chk_cap c SEC_CAP_CHK_EXTRA_SEC
                             then c\<lparr>cam_used := rtw_sec_cam_map_clr (cam_used c) (i + 1)\<rparr> else c)
                       else c)
              in (rtw_iface_bcmc_id_set m INVALID_SEC_MAC_CAM_ID, c))
           else (m, c));
            ifbmp = rtw_macid_get_iface_bmp m mac_id AND NOT 1;
            m = m\<lparr>macid_if_g := rtw_macid_map_clr (macid_if_g m) mac_id\<rparr>;
            m = (if ifbmp = 0 then
                   m\<lparr>macid_used := rtw_macid_map_clr (macid_used m) mac_id,
                     macid_bmc := rtw_macid_map_clr (macid_bmc m) mac_id,
                     macid_ch_g := (rtw_macid_map_clr (fst (macid_ch_g m)) mac_id,
                                    rtw_macid_map_clr (snd (macid_ch_g m)) mac_id),
                     macid_sta := (macid_sta m)(mac_id := None)\<rparr>
                 else m)
        in (macid_num m, m, c)))"

section \<open>Invariant\<close>

text \<open>
  The management id stays reserved, a used id is used by the interface, and exactly the used ids
  other than the management id name a station.
\<close>

definition macid_inv :: "macid_ctl_t \<Rightarrow> bool" where
  "macid_inv m \<longleftrightarrow> 1 < unat (macid_num m) \<and> unat (macid_num m) \<le> 32
     \<and> rtw_macid_is_used m RTW_DEFAULT_MGMT_MACID
     \<and> (\<forall>i. rtw_macid_is_used m i \<longleftrightarrow> rtw_macid_is_set (macid_if_g m) i)
     \<and> (\<forall>i. macid_sta m i \<noteq> None \<longleftrightarrow> rtw_macid_is_used m i \<and> i \<noteq> RTW_DEFAULT_MGMT_MACID)
     \<and> (\<forall>i. rtw_macid_is_used m i \<longrightarrow> i < macid_num m)"

lemma macid_ids_set: "i \<in> set (macid_ids m) \<longleftrightarrow> i < macid_num m"
  using cam_ids_set [of i "undefined\<lparr>cam_num := macid_num m\<rparr>"] by (simp add: macid_ids_def cam_ids_def)

lemma find_macid_Some:
  "find P (macid_ids m) = Some i \<Longrightarrow> P i \<and> i < macid_num m"
  by (auto simp: find_Some_iff simp flip: macid_ids_set)

lemma iface_bmp_bit: "rtw_macid_get_iface_bmp m i AND 1 = 0 \<longleftrightarrow> \<not> rtw_macid_is_set (macid_if_g m) i"
  "rtw_macid_get_iface_bmp m i AND - 2 = 0"
  by (simp_all add: rtw_macid_get_iface_bmp_def)

lemmas macid_defs = rtw_macid_is_used_def rtw_iface_bcmc_id_set_def rtw_iface_bcmc_id_get_def

text \<open>The effect of an allocation on the id maps.\<close>

lemma alloc_macid_cases:
  assumes "rtw_alloc_macid own b sta mac m c = (i, m', c')"
  obtains (none) "i = macid_num m" "macid_used m' = macid_used m" "macid_if_g m' = macid_if_g m"
      "macid_sta m' = macid_sta m" "macid_num m' = macid_num m" "c' = c"
      "mac = own \<or> (\<forall>j < macid_num m. \<not> macid_free_for m c (mac = bc_addr) j)"
  | (mgmt) "i = RTW_DEFAULT_MGMT_MACID" "mac = bc_addr" "b" "macid_used m' = macid_used m"
      "macid_if_g m' = macid_if_g m" "macid_sta m' = macid_sta m" "macid_num m' = macid_num m" "c' = c"
  | (fresh) "i < macid_num m" "\<not> rtw_macid_is_used m i" "mac \<noteq> own"
      "macid_used m' = rtw_macid_map_set (macid_used m) i" "macid_if_g m' = rtw_macid_map_set (macid_if_g m) i"
      "macid_sta m' = (macid_sta m)(i := Some sta)" "macid_num m' = macid_num m"
      "mac = bc_addr \<longrightarrow> iface_bmc m' = i \<and> \<not> rtw_sec_camid_is_used c i"
proof (cases "mac = own")
  case True
  then show thesis using assms by (intro none) (auto simp: rtw_alloc_macid_def)
next
  case ne: False
  define m0 where "m0 = (if mac = bc_addr then rtw_iface_bcmc_id_set m INVALID_SEC_MAC_CAM_ID else m)"
  have m0: "macid_used m0 = macid_used m" "macid_if_g m0 = macid_if_g m" "macid_sta m0 = macid_sta m"
    "macid_num m0 = macid_num m" "macid_free_for m0 c = macid_free_for m c"
    by (auto simp: m0_def macid_defs macid_free_for_def fun_eq_iff)
  show thesis
  proof (cases "mac = bc_addr \<and> b")
    case True
    then show thesis using assms ne m0 by (intro mgmt) (auto simp: rtw_alloc_macid_def Let_def macid_defs)
  next
    case nm: False
    show thesis
    proof (cases "find (macid_free_for m c (mac = bc_addr)) (macid_ids m0)")
      case None
      then have "\<forall>j < macid_num m. \<not> macid_free_for m c (mac = bc_addr) j"
        using m0(4) by (auto simp: find_None_iff macid_ids_set)
      then show thesis using assms ne nm None m0
        by (intro none) (auto simp: rtw_alloc_macid_def Let_def m0_def [symmetric])
    next
      case (Some j)
      note f = find_macid_Some [OF Some]
      have "i = j"
        using assms ne nm Some m0 by (auto simp: rtw_alloc_macid_def Let_def m0_def [symmetric] split: if_splits)
      then show thesis
        using assms ne nm Some m0 f
        by (intro fresh)
          (auto simp: rtw_alloc_macid_def Let_def m0_def [symmetric] macid_defs macid_free_for_def split: if_splits)
    qed
  qed
qed

lemma release_macid_cases:
  assumes "rtw_release_macid own mac i m c = (i', m', c')" "macid_inv m"
  obtains (none) "m' = m" "c' = c" "mac = own \<or> \<not> i < macid_num m \<or> i = RTW_DEFAULT_MGMT_MACID \<or> \<not> rtw_macid_is_used m i"
  | (released) "mac \<noteq> own" "i < macid_num m" "i \<noteq> RTW_DEFAULT_MGMT_MACID" "rtw_macid_is_used m i"
      "macid_used m' = rtw_macid_map_clr (macid_used m) i" "macid_if_g m' = rtw_macid_map_clr (macid_if_g m) i"
      "macid_sta m' = (macid_sta m)(i := None)" "macid_num m' = macid_num m"
proof (cases "mac = own \<or> \<not> i < macid_num m \<or> i = RTW_DEFAULT_MGMT_MACID \<or> \<not> rtw_macid_is_used m i")
  case True
  then show thesis using assms by (intro none) (auto simp: rtw_release_macid_def not_less split: if_splits)
next
  case False
  moreover from this have "rtw_macid_is_set (macid_if_g m) i" using assms(2) by (auto simp: macid_inv_def)
  ultimately show thesis
    using assms(1) by (intro released)
      (auto simp: rtw_release_macid_def Let_def iface_bmp_bit macid_defs split: if_splits)
qed

lemma release_macid_result: "fst (rtw_release_macid own mac i m c) = macid_num m"
  by (auto simp: rtw_release_macid_def Let_def macid_defs split: prod.splits if_splits)

lemma alloc_macid_inv:
  assumes inv: "macid_inv m" and call: "rtw_alloc_macid own b sta mac m c = (i, m', c')"
  shows "macid_inv m'"
  using call
proof (cases rule: alloc_macid_cases)
  case fresh
  have "unat i < 32" using fresh(1) inv by (auto simp: macid_inv_def word_less_nat_alt)
  then show ?thesis
    using fresh inv unfolding macid_inv_def rtw_macid_is_used_def by (auto simp: macid_map.is_set_set)
qed (use inv in \<open>auto simp: macid_inv_def rtw_macid_is_used_def\<close>)

lemma release_macid_inv:
  assumes inv: "macid_inv m" and call: "rtw_release_macid own mac i m c = (i', m', c')"
  shows "macid_inv m'"
  using call inv
proof (cases rule: release_macid_cases)
  case released
  then show ?thesis
    using inv unfolding macid_inv_def rtw_macid_is_used_def by (auto simp: macid_map.is_set_clr)
qed (use inv in simp)

section \<open>Properties\<close>

text \<open>
  MAC ids are exclusive: an allocation either reports the invalid id \<^verbatim>\<open>macid_ctl->num\<close> (for the
  interface itself, or because every id is taken), or is the shared management id of the broadcast
  station in station mode, or gives a valid id that no station held, different from the management
  id, and records the station as its only holder.
\<close>

theorem rtw_alloc_macid_exclusive:
  assumes "macid_inv m" "rtw_alloc_macid own b sta mac m c = (i, m', c')"
  shows "macid_inv m'
    \<and> ((i = macid_num m \<and> macid_sta m' = macid_sta m
          \<and> (mac = own \<or> (\<forall>j < macid_num m. \<not> macid_free_for m c (mac = bc_addr) j)))
       \<or> (i = RTW_DEFAULT_MGMT_MACID \<and> mac = bc_addr \<and> b \<and> macid_sta m' = macid_sta m)
       \<or> (i < macid_num m \<and> i \<noteq> RTW_DEFAULT_MGMT_MACID \<and> macid_sta m i = None
          \<and> macid_sta m' = (macid_sta m)(i := Some sta)))"
  using assms(2)
proof (cases rule: alloc_macid_cases)
  case fresh
  have "macid_sta m i = None" using fresh(2) assms(1) unfolding macid_inv_def by blast
  moreover have "i \<noteq> RTW_DEFAULT_MGMT_MACID" using fresh(2) assms(1) unfolding macid_inv_def by blast
  ultimately show ?thesis using fresh(1,6) alloc_macid_inv [OF assms] by simp
qed (use alloc_macid_inv [OF assms] in simp_all)

definition sample_macid :: macid_ctl_t where
  "sample_macid = rtw_macid_ctl_init \<lparr>macid_num = 32, macid_used = 0, macid_bmc = 0, macid_if_g = 0,
     macid_ch_g = (0, 0), iface_bmc = 0xFF, macid_sta = (\<lambda>_. None)\<rparr>"

lemma sample_macid_inv: "macid_inv sample_macid"
proof -
  have "rtw_macid_is_set 0 i = False" for i by (simp add: macid_is_set_bit)
  then have set: "rtw_macid_is_set (rtw_macid_map_set 0 1) i \<longleftrightarrow> i = 1" for i
    by (simp add: macid_map.is_set_set)
  show ?thesis
    by (simp add: macid_inv_def sample_macid_def rtw_macid_ctl_init_def rtw_macid_is_used_def
        RTW_DEFAULT_MGMT_MACID_def set)
qed

lemmas macid_eval = rtw_alloc_macid_def macid_free_for_def macid_ids_def rtw_macid_is_used_def
  rtw_macid_is_set_def rtw_macid_map_set_def BIT_def bc_addr_def sample_macid_def rtw_macid_ctl_init_def
  RTW_DEFAULT_MGMT_MACID_def upt_rec Let_def

theorem rtw_alloc_macid_exclusive_witness:
  "fst (rtw_alloc_macid (replicate 6 1) True 7 (replicate 6 2) sample_macid sample_cam) = 0
   \<and> macid_sta sample_macid 0 = None
   \<and> macid_inv (fst (snd (rtw_alloc_macid (replicate 6 1) True 7 (replicate 6 2) sample_macid sample_cam)))"
proof -
  obtain i m' c' where call: "rtw_alloc_macid (replicate 6 1) True 7 (replicate 6 2) sample_macid sample_cam = (i, m', c')"
    by (metis prod_cases3)
  have "i = 0" using call by (auto simp: macid_eval split: if_splits)
  then show ?thesis
    using rtw_alloc_macid_exclusive [OF sample_macid_inv call] call by (auto simp: macid_eval)
qed

text \<open>
  Releasing the id an allocation gave returns the id maps, and the table of holders, to what
  they were before the allocation.
\<close>

theorem rtw_release_macid_inverts_alloc:
  assumes "macid_inv m" "rtw_alloc_macid own b sta mac m c = (i, m', c')"
  defines "m'' \<equiv> fst (snd (rtw_release_macid own mac i m' c'))"
  shows "rtw_macid_is_used m'' j = rtw_macid_is_used m j \<and> macid_sta m'' = macid_sta m \<and> macid_inv m''"
proof -
  obtain i' c'' where call: "rtw_release_macid own mac i m' c' = (i', m'', c'')"
    by (metis m''_def prod.collapse)
  note inv' = alloc_macid_inv [OF assms(1,2)]
  have inv'': "macid_inv m''" by (rule release_macid_inv [OF inv' call])
  show ?thesis
    using assms(2)
  proof (cases rule: alloc_macid_cases)
    case fresh
    have i: "unat i < 32" "i \<noteq> RTW_DEFAULT_MGMT_MACID" "macid_sta m i = None"
      using fresh(1,2) assms(1) by (auto simp: macid_inv_def word_less_nat_alt)
    have used': "rtw_macid_is_used m' i" using i fresh(4) by (simp add: rtw_macid_is_used_def macid_map.is_set_set)
    from call inv' show ?thesis
    proof (cases rule: release_macid_cases)
      case none
      then show ?thesis using fresh i used' by auto
    next
      case released
      then show ?thesis
        using fresh i inv'' by (auto simp: rtw_macid_is_used_def macid_map.clr_set fun_eq_iff)
    qed
  next
    case none
    have "m'' = m'" using call none by (auto simp: rtw_release_macid_def split: if_splits)
    then show ?thesis using none inv'' by (simp add: rtw_macid_is_used_def)
  next
    case mgmt
    have "m'' = m'" using call mgmt by (auto simp: rtw_release_macid_def split: if_splits)
    then show ?thesis using mgmt inv'' by (simp add: rtw_macid_is_used_def)
  qed
qed

theorem rtw_release_macid_inverts_alloc_witness:
  "macid_sta (fst (snd (rtw_alloc_macid (replicate 6 1) True 7 (replicate 6 2) sample_macid sample_cam))) 0 = Some 7
   \<and> (let (i, m', c') = rtw_alloc_macid (replicate 6 1) True 7 (replicate 6 2) sample_macid sample_cam in
      macid_sta (fst (snd (rtw_release_macid (replicate 6 1) (replicate 6 2) i m' c'))) 0 = None)"
proof -
  obtain i m' c' where call: "rtw_alloc_macid (replicate 6 1) True 7 (replicate 6 2) sample_macid sample_cam = (i, m', c')"
    by (metis prod_cases3)
  have "macid_sta sample_macid 0 = None" by (simp add: macid_eval)
  moreover have "macid_sta m' 0 = Some 7" using call by (auto simp: macid_eval split: if_splits)
  ultimately show ?thesis
    using rtw_release_macid_inverts_alloc [OF sample_macid_inv call] call by simp
qed

end
