(* ===== verification/Xmit_Queue.thy ===== *)
theory Xmit_Queue
  imports Driver_Prelude
begin

unbundle bit_operations_syntax

text \<open>
  Transmit frames, buffers and the transmit scheduler of \<^verbatim>\<open>core/rtw_xmit.c\<close>: the free pools of
  \<^verbatim>\<open>struct xmit_frame\<close> and \<^verbatim>\<open>struct xmit_buf\<close>, and the queues a data frame waits in. Per access
  category (0 voice, 1 video, 2 best effort, 3 background, the order of \<^verbatim>\<open>hwxmits\<close>) the driver keeps
  the list of stations with traffic (\<^verbatim>\<open>sta_queue\<close>, linked through \<^verbatim>\<open>tx_servq.tx_pending\<close>) and per
  station the pending frames (\<^verbatim>\<open>sta_pending\<close>). The model keeps both in \<open>xmit_priv\<close>: a station is its
  offset in the station pool, and \<open>servq s ac\<close> is its \<^verbatim>\<open>tx_servq\<close> for a category. The lemmas show
  that the counters agree with the queues, that a station is scheduled exactly while it has frames,
  and that dequeuing is by strict priority and in order within a station.
\<close>

section \<open>Data\<close>

record xmit_frame =
  xf_id :: nat
  xf_priority :: u8
  xf_ra :: bytes
  xf_psta :: "nat option"
  xf_os_qid :: u16
  xf_pkt :: "nat option"
  xf_frame_tag :: int
  xf_pxmitbuf :: "nat option"
  xf_agg_num :: u8
  xf_pkt_offset :: int
  xf_ack_report :: u8
  xf_alloc_addr :: bool
  xf_ext_tag :: bool
  xf_mdata :: bool
  xf_eosp :: bool
  xf_triggered :: bool
  xf_qsel :: u8
  xf_ether_type :: u16
  xf_dhcp_pkt :: bool

datatype buf_tag = XMITBUF_DATA | XMITBUF_MGNT | XMITBUF_CMD

record xmit_buf =
  xb_id :: nat
  xb_priv_data :: "nat option"
  xb_buf_tag :: buf_tag
  xb_sctx :: bool

record tx_servq =
  sta_pending :: "xmit_frame list"
  qcnt :: int

record hw_xmit =
  hw_sta_queue :: "nat list"
  accnt :: int

text \<open>
  \<open>xp_completed\<close> lists the network packets handed back through \<^verbatim>\<open>rtw_os_pkt_complete\<close>, \<open>xp_freed\<close>
  the frames returned to the allocator, \<open>xp_sctx_done\<close> the buffers whose submit context was
  completed with an error.
\<close>

record xmit_priv =
  free_xmit_queue :: "xmit_frame list"
  free_xmitframe_cnt :: u32
  free_xframe_ext_queue :: "xmit_frame list"
  free_xframe_ext_cnt :: u32
  free_xmitbuf_queue :: "xmit_buf list"
  free_xmitbuf_cnt :: u32
  free_xmit_extbuf_queue :: "xmit_buf list"
  free_xmit_extbuf_cnt :: u32
  hwxmits :: "nat \<Rightarrow> hw_xmit"
  servq :: "nat \<Rightarrow> nat \<Rightarrow> tx_servq"
  wifi_spec :: bool
  wmm_para_seq :: "nat list"
  xp_completed :: "nat list"
  xp_freed :: "nat list"
  xp_sctx_done :: "nat list"
  tx_drop :: u64

definition HWXMIT_ENTRY :: nat where
  "HWXMIT_ENTRY = 4"

section \<open>Frame and buffer pools\<close>

definition rtw_init_xmitframe :: "xmit_frame \<Rightarrow> xmit_frame" where
  "rtw_init_xmitframe f = f\<lparr>xf_pxmitbuf := None, xf_priority := 0, xf_ra := replicate 6 0, xf_psta := None,
     xf_frame_tag := 1, xf_pkt := None, xf_pkt_offset := 1, xf_agg_num := 1, xf_ack_report := 0,
     xf_mdata := False, xf_eosp := False, xf_triggered := False, xf_qsel := 0, xf_ether_type := 0, xf_dhcp_pkt := False\<rparr>"

definition rtw_alloc_xmitframe :: "xmit_priv \<Rightarrow> u16 \<Rightarrow> xmit_frame option \<times> xmit_priv" where
  "rtw_alloc_xmitframe xp os_qid =
     (case free_xmit_queue xp of
        [] \<Rightarrow> (None, xp)
      | f # q \<Rightarrow> (Some (rtw_init_xmitframe (f\<lparr>xf_os_qid := os_qid\<rparr>)),
                   xp\<lparr>free_xmit_queue := q, free_xmitframe_cnt := free_xmitframe_cnt xp - 1\<rparr>))"

definition rtw_alloc_xmitframe_ext :: "xmit_priv \<Rightarrow> xmit_frame option \<times> xmit_priv" where
  "rtw_alloc_xmitframe_ext xp =
     (case free_xframe_ext_queue xp of
        [] \<Rightarrow> (None, xp)
      | f # q \<Rightarrow> (Some (rtw_init_xmitframe f),
                   xp\<lparr>free_xframe_ext_queue := q, free_xframe_ext_cnt := free_xframe_ext_cnt xp - 1\<rparr>))"

definition xf_complete :: "xmit_frame \<Rightarrow> xmit_priv \<Rightarrow> xmit_priv" where
  "xf_complete f xp = (case xf_pkt f of None \<Rightarrow> xp | Some p \<Rightarrow> xp\<lparr>xp_completed := xp_completed xp @ [p]\<rparr>)"

definition rtw_free_xmitframe :: "xmit_frame \<Rightarrow> xmit_priv \<Rightarrow> xmit_priv" where
  "rtw_free_xmitframe f xp =
     xf_complete f
      (if xf_alloc_addr f then xp\<lparr>xp_freed := xp_freed xp @ [xf_id f]\<rparr>
       else if \<not> xf_ext_tag f
       then xp\<lparr>free_xmit_queue := free_xmit_queue xp @ [f\<lparr>xf_pkt := None\<rparr>],
               free_xmitframe_cnt := free_xmitframe_cnt xp + 1\<rparr>
       else xp\<lparr>free_xframe_ext_queue := free_xframe_ext_queue xp @ [f\<lparr>xf_pkt := None\<rparr>],
               free_xframe_ext_cnt := free_xframe_ext_cnt xp + 1\<rparr>)"

text \<open>\<^verbatim>\<open>rtw_free_xmitframe_queue\<close>: every frame of the queue goes back to its pool.\<close>

fun rtw_free_xmitframe_queue :: "xmit_frame list \<Rightarrow> xmit_priv \<Rightarrow> xmit_priv" where
  "rtw_free_xmitframe_queue [] xp = xp"
| "rtw_free_xmitframe_queue (f # fs) xp = rtw_free_xmitframe_queue fs (rtw_free_xmitframe f xp)"

definition sctx_done :: "xmit_buf \<Rightarrow> xmit_priv \<Rightarrow> xmit_priv" where
  "sctx_done b xp = (if xb_sctx b then xp\<lparr>xp_sctx_done := xp_sctx_done xp @ [xb_id b]\<rparr> else xp)"

definition rtw_alloc_xmitbuf :: "xmit_priv \<Rightarrow> xmit_buf option \<times> xmit_priv" where
  "rtw_alloc_xmitbuf xp =
     (case free_xmitbuf_queue xp of
        [] \<Rightarrow> (None, xp)
      | b # q \<Rightarrow> (Some (b\<lparr>xb_priv_data := None, xb_sctx := False\<rparr>),
                   sctx_done b (xp\<lparr>free_xmitbuf_queue := q, free_xmitbuf_cnt := free_xmitbuf_cnt xp - 1\<rparr>)))"

definition rtw_alloc_xmitbuf_ext :: "xmit_priv \<Rightarrow> xmit_buf option \<times> xmit_priv" where
  "rtw_alloc_xmitbuf_ext xp =
     (case free_xmit_extbuf_queue xp of
        [] \<Rightarrow> (None, xp)
      | b # q \<Rightarrow> (Some (b\<lparr>xb_priv_data := None, xb_sctx := False\<rparr>),
                   sctx_done b (xp\<lparr>free_xmit_extbuf_queue := q, free_xmit_extbuf_cnt := free_xmit_extbuf_cnt xp - 1\<rparr>)))"

definition rtw_free_xmitbuf_ext :: "xmit_buf option \<Rightarrow> xmit_priv \<Rightarrow> ret \<times> xmit_priv" where
  "rtw_free_xmitbuf_ext ob xp =
     (case ob of None \<Rightarrow> (RET_FAIL, xp)
      | Some b \<Rightarrow> (RET_SUCCESS, xp\<lparr>free_xmit_extbuf_queue := free_xmit_extbuf_queue xp @ [b],
                                   free_xmit_extbuf_cnt := free_xmit_extbuf_cnt xp + 1\<rparr>))"

definition rtw_free_xmitbuf :: "xmit_buf option \<Rightarrow> xmit_priv \<Rightarrow> ret \<times> xmit_priv" where
  "rtw_free_xmitbuf ob xp =
     (case ob of None \<Rightarrow> (RET_FAIL, xp)
      | Some b \<Rightarrow>
         (let xp = sctx_done b xp; b = b\<lparr>xb_sctx := False\<rparr> in
          case xb_buf_tag b of
            XMITBUF_CMD \<Rightarrow> (RET_SUCCESS, xp)
          | XMITBUF_MGNT \<Rightarrow> (RET_SUCCESS, snd (rtw_free_xmitbuf_ext (Some b) xp))
          | XMITBUF_DATA \<Rightarrow> (RET_SUCCESS, xp\<lparr>free_xmitbuf_queue := free_xmitbuf_queue xp @ [b],
                                             free_xmitbuf_cnt := free_xmitbuf_cnt xp + 1\<rparr>)))"

section \<open>The scheduler\<close>

text \<open>\<^verbatim>\<open>rtw_get_sta_pending\<close>: the access category of a user priority.\<close>

definition rtw_get_sta_pending :: "u8 \<Rightarrow> nat" where
  "rtw_get_sta_pending up =
     (if up = 1 \<or> up = 2 then 3 else if up = 4 \<or> up = 5 then 1 else if up = 6 \<or> up = 7 then 0 else 2)"

text \<open>
  \<^verbatim>\<open>rtw_xmit_classifier\<close>: \<open>get_sta\<close> is \<^verbatim>\<open>rtw_get_stainfo\<close> on the station table, \<open>asoc s\<close> the bit
  \<^verbatim>\<open>psta->state & WIFI_ASOC_STATE\<close>.
\<close>

definition rtw_xmit_classifier :: "(bytes \<Rightarrow> nat option) \<Rightarrow> (nat \<Rightarrow> bool) \<Rightarrow> xmit_frame \<Rightarrow> xmit_priv \<Rightarrow> ret \<times> xmit_priv" where
  "rtw_xmit_classifier get_sta asoc f xp =
     (let psta = get_sta (xf_ra f) in
      if xf_psta f \<noteq> psta then (RET_FAIL, xp)
      else case psta of
        None \<Rightarrow> (RET_FAIL, xp)
      | Some s \<Rightarrow>
          if \<not> asoc s then (RET_FAIL, xp)
          else
           (let ac = rtw_get_sta_pending (xf_priority f);
                h = hwxmits xp ac; sq = servq xp s ac;
                h = (if s \<notin> set (hw_sta_queue h) then h\<lparr>hw_sta_queue := hw_sta_queue h @ [s]\<rparr> else h);
                sq = sq\<lparr>sta_pending := sta_pending sq @ [f], qcnt := qcnt sq + 1\<rparr>;
                h = h\<lparr>accnt := accnt h + 1\<rparr>
            in (RET_SUCCESS, xp\<lparr>hwxmits := (hwxmits xp)(ac := h),
                                servq := (servq xp)(s := (servq xp s)(ac := sq))\<rparr>)))"

definition rtw_xmitframe_enqueue :: "(bytes \<Rightarrow> nat option) \<Rightarrow> (nat \<Rightarrow> bool) \<Rightarrow> xmit_frame \<Rightarrow> xmit_priv \<Rightarrow> ret \<times> xmit_priv" where
  "rtw_xmitframe_enqueue get_sta asoc f xp =
     (case rtw_xmit_classifier get_sta asoc f xp of
        (RET_FAIL, xp) \<Rightarrow> (RET_FAIL, xp) | (_, xp) \<Rightarrow> (RET_SUCCESS, xp))"

definition dequeue_one_xmitframe :: "tx_servq \<Rightarrow> xmit_frame option \<times> tx_servq" where
  "dequeue_one_xmitframe sq =
     (case sta_pending sq of
        [] \<Rightarrow> (None, sq)
      | f # q \<Rightarrow> (Some f, sq\<lparr>sta_pending := q, qcnt := qcnt sq - 1\<rparr>))"

definition get_one_xmitframe :: "tx_servq \<Rightarrow> xmit_frame option" where
  "get_one_xmitframe sq = (case sta_pending sq of [] \<Rightarrow> None | f # _ \<Rightarrow> Some f)"

text \<open>The inner loop of \<^verbatim>\<open>rtw_dequeue_xframe\<close>, over the stations of one category.\<close>

fun dequeue_sta_loop :: "nat \<Rightarrow> nat list \<Rightarrow> xmit_priv \<Rightarrow> xmit_frame option \<times> xmit_priv" where
  "dequeue_sta_loop ac [] xp = (None, xp)"
| "dequeue_sta_loop ac (s # ss) xp =
     (case dequeue_one_xmitframe (servq xp s ac) of
        (None, _) \<Rightarrow> dequeue_sta_loop ac ss xp
      | (Some f, sq) \<Rightarrow>
         (let h = hwxmits xp ac;
              h = h\<lparr>accnt := accnt h - 1\<rparr>;
              h = (if sta_pending sq = [] then h\<lparr>hw_sta_queue := remove1 s (hw_sta_queue h)\<rparr> else h)
          in (Some f, xp\<lparr>hwxmits := (hwxmits xp)(ac := h), servq := (servq xp)(s := (servq xp s)(ac := sq))\<rparr>)))"

fun dequeue_ac_loop :: "nat list \<Rightarrow> xmit_priv \<Rightarrow> xmit_frame option \<times> xmit_priv" where
  "dequeue_ac_loop [] xp = (None, xp)"
| "dequeue_ac_loop (ac # acs) xp =
     (case dequeue_sta_loop ac (hw_sta_queue (hwxmits xp ac)) xp of
        (Some f, xp') \<Rightarrow> (Some f, xp')
      | (None, xp') \<Rightarrow> dequeue_ac_loop acs xp')"

definition xmit_inx :: "xmit_priv \<Rightarrow> nat list" where
  "xmit_inx xp = (if wifi_spec xp then wmm_para_seq xp else [0, 1, 2, 3])"

definition rtw_dequeue_xframe :: "xmit_priv \<Rightarrow> nat \<Rightarrow> xmit_frame option \<times> xmit_priv" where
  "rtw_dequeue_xframe xp entry = dequeue_ac_loop (take entry (xmit_inx xp)) xp"

text \<open>\<^verbatim>\<open>rtw_get_xframe\<close>: the frame the scheduler would take next and its queue's length; none under \<^verbatim>\<open>wifi_spec\<close>.\<close>

fun get_xframe_loop :: "(nat \<times> nat) list \<Rightarrow> xmit_priv \<Rightarrow> xmit_frame option \<times> int" where
  "get_xframe_loop [] xp = (None, 0)"
| "get_xframe_loop ((ac, s) # r) xp =
     (if qcnt (servq xp s ac) \<noteq> 0 then (get_one_xmitframe (servq xp s ac), qcnt (servq xp s ac))
      else get_xframe_loop r xp)"

definition rtw_get_xframe :: "xmit_priv \<Rightarrow> xmit_frame option \<times> int" where
  "rtw_get_xframe xp =
     (if wifi_spec xp then (None, 0)
      else get_xframe_loop (concat (map (\<lambda>ac. map (Pair ac) (hw_sta_queue (hwxmits xp ac))) [0, 1, 2, 3])) xp)"

text \<open>
  The part of \<^verbatim>\<open>rtw_free_stainfo\<close> that empties a station's four transmit queues; the list of its
  result is \<^verbatim>\<open>pending_qcnt\<close>.
\<close>

definition free_sta_servq :: "nat \<Rightarrow> nat \<Rightarrow> xmit_priv \<Rightarrow> xmit_priv" where
  "free_sta_servq s ac xp =
     (let sq = servq xp s ac;
          xp = rtw_free_xmitframe_queue (sta_pending sq) xp;
          h = hwxmits xp ac in
      xp\<lparr>hwxmits := (hwxmits xp)(ac := h\<lparr>hw_sta_queue := removeAll s (hw_sta_queue h), accnt := accnt h - qcnt sq\<rparr>),
         servq := (servq xp)(s := (servq xp s)(ac := sq\<lparr>sta_pending := [], qcnt := 0\<rparr>))\<rparr>)"

definition free_sta_xmit :: "nat \<Rightarrow> xmit_priv \<Rightarrow> xmit_priv" where
  "free_sta_xmit s xp =
     free_sta_servq s 3 (free_sta_servq s 2 (free_sta_servq s 1 (free_sta_servq s 0 xp)))"

definition rtw_init_hwxmits :: "xmit_priv \<Rightarrow> xmit_priv" where
  "rtw_init_hwxmits xp = xp\<lparr>hwxmits := (\<lambda>ac. if ac < HWXMIT_ENTRY then (hwxmits xp ac)\<lparr>accnt := 0\<rparr> else hwxmits xp ac)\<rparr>"

section \<open>The scheduler invariant\<close>

text \<open>
  For a category: the stations linked are exactly those with frames, each once, the per-station
  counter is the queue length and \<^verbatim>\<open>accnt\<close> is the number of frames waiting.
\<close>

definition ac_inv :: "hw_xmit \<Rightarrow> (nat \<Rightarrow> tx_servq) \<Rightarrow> bool" where
  "ac_inv h sq \<longleftrightarrow> distinct (hw_sta_queue h)
     \<and> (\<forall>s. s \<in> set (hw_sta_queue h) \<longleftrightarrow> sta_pending (sq s) \<noteq> [])
     \<and> (\<forall>s. qcnt (sq s) = int (length (sta_pending (sq s))))
     \<and> accnt h = (\<Sum>s\<leftarrow>hw_sta_queue h. qcnt (sq s))"

definition xmit_inv :: "xmit_priv \<Rightarrow> bool" where
  "xmit_inv xp \<longleftrightarrow> (\<forall>ac < HWXMIT_ENTRY. ac_inv (hwxmits xp ac) (\<lambda>s. servq xp s ac))"

lemma sum_list_update_distinct:
  fixes g :: "nat \<Rightarrow> int"
  assumes "distinct xs" "s \<in> set xs"
  shows "(\<Sum>x\<leftarrow>xs. (g(s := v)) x) = (\<Sum>x\<leftarrow>xs. g x) + v - g s"
proof -
  have "(\<Sum>x\<leftarrow>xs. (g(s := v)) x) = (\<Sum>x\<in>set xs. (g(s := v)) x)" using assms(1) by (simp only: sum_list_distinct_conv_sum_set)
  also have "\<dots> = v + (\<Sum>x\<in>set xs - {s}. (g(s := v)) x)" using assms(2) by (subst sum.remove [of _ s]) auto
  also have "(\<Sum>x\<in>set xs - {s}. (g(s := v)) x) = (\<Sum>x\<in>set xs - {s}. g x)" by (rule sum.cong) auto
  also have "\<dots> = (\<Sum>x\<in>set xs. g x) - g s" using assms(2) by (subst (2) sum.remove [of _ s]) auto
  finally show ?thesis using assms(1) by (simp add: sum_list_distinct_conv_sum_set)
qed

lemma sum_list_remove1:
  fixes g :: "nat \<Rightarrow> int"
  assumes "s \<in> set xs"
  shows "(\<Sum>x\<leftarrow>remove1 s xs. g x) = (\<Sum>x\<leftarrow>xs. g x) - g s"
  using assms by (induction xs) auto

lemma ac_accnt: "ac_inv h sq \<Longrightarrow> accnt h = (\<Sum>s\<leftarrow>hw_sta_queue h. qcnt (sq s))"
  and ac_distinct: "ac_inv h sq \<Longrightarrow> distinct (hw_sta_queue h)"
  by (simp_all only: ac_inv_def)

lemma sum_qcnt_upd:
  fixes xs :: "nat list"
  assumes "distinct xs" "s \<in> set xs"
  shows "(\<Sum>t\<leftarrow>xs. qcnt ((sq(s := q)) t)) = (\<Sum>t\<leftarrow>xs. qcnt (sq t)) + qcnt q - qcnt (sq s)"
  using sum_list_update_distinct [OF assms, of "\<lambda>t. qcnt (sq t)" "qcnt q"]
  by (simp add: if_distrib [of qcnt] fun_upd_def)

lemma sum_qcnt_upd_notin:
  "s \<notin> set xs \<Longrightarrow> (\<Sum>t\<leftarrow>xs. qcnt ((sq(s := q)) t)) = (\<Sum>t\<leftarrow>xs. qcnt (sq t))"
  by (intro arg_cong [where f = sum_list] map_cong) auto

lemma ac_inv_enqueue:
  fixes s :: nat
  assumes "ac_inv h sq"
  defines "h' \<equiv> (if s \<notin> set (hw_sta_queue h) then h\<lparr>hw_sta_queue := hw_sta_queue h @ [s]\<rparr> else h)"
  shows "ac_inv (h'\<lparr>accnt := accnt h' + 1\<rparr>) (sq(s := (sq s)\<lparr>sta_pending := sta_pending (sq s) @ [f], qcnt := qcnt (sq s) + 1\<rparr>))"
proof (cases "s \<in> set (hw_sta_queue h)")
  case True
  then have "(\<Sum>t\<leftarrow>hw_sta_queue h. qcnt ((sq(s := q)) t)) = accnt h + qcnt q - qcnt (sq s)" for q
    using True by (simp only: sum_qcnt_upd ac_accnt [OF assms(1)] ac_distinct [OF assms(1)])
  then show ?thesis
    using True assms(1) by (simp add: ac_inv_def h'_def)
next
  case False
  then have "qcnt (sq s) = 0" using assms(1) by (auto simp: ac_inv_def)
  moreover note sum_qcnt_upd_notin [OF False, of sq]
  ultimately show ?thesis using False assms(1) by (auto simp: ac_inv_def h'_def)
qed

lemma ac_inv_dequeue:
  assumes inv: "ac_inv h sq" and q: "sta_pending (sq s) = f # q"
  defines "h' \<equiv> h\<lparr>accnt := accnt h - 1\<rparr>"
  shows "ac_inv (if q = [] then h'\<lparr>hw_sta_queue := remove1 s (hw_sta_queue h')\<rparr> else h')
           (sq(s := (sq s)\<lparr>sta_pending := q, qcnt := qcnt (sq s) - 1\<rparr>))"
proof -
  have s: "s \<in> set (hw_sta_queue h)" "distinct (hw_sta_queue h)" using inv q by (auto simp: ac_inv_def)
  show ?thesis
  proof (cases "q = []")
    case True
    then have one: "qcnt (sq s) = 1" using inv q by (simp add: ac_inv_def)
    have "s \<notin> set (remove1 s (hw_sta_queue h))" using s(2) by (simp add: set_remove1_eq)
    from sum_qcnt_upd_notin [OF this, of sq] show ?thesis
      using True inv s one sum_list_remove1 [OF s(1), of "\<lambda>t. qcnt (sq t)"]
      by (auto simp: ac_inv_def h'_def set_remove1_eq)
  next
    case False
    have "(\<Sum>t\<leftarrow>hw_sta_queue h. qcnt ((sq(s := r)) t)) = accnt h + qcnt r - qcnt (sq s)" for r
      using s by (simp only: sum_qcnt_upd ac_accnt [OF inv])
    then show ?thesis
      using False inv s q by (auto simp: ac_inv_def h'_def)
  qed
qed

lemma ac_inv_free:
  assumes inv: "ac_inv h sq"
  shows "ac_inv (h\<lparr>hw_sta_queue := removeAll s (hw_sta_queue h), accnt := accnt h - qcnt (sq s)\<rparr>)
           (sq(s := (sq s)\<lparr>sta_pending := [], qcnt := 0\<rparr>))"
proof -
  have d: "distinct (hw_sta_queue h)" using inv by (simp add: ac_inv_def)
  have "(\<Sum>t\<leftarrow>removeAll s (hw_sta_queue h). qcnt ((sq(s := r)) t)) = (\<Sum>t\<leftarrow>hw_sta_queue h. qcnt (sq t)) - qcnt (sq s)" for r
  proof -
    have "(\<Sum>t\<leftarrow>removeAll s (hw_sta_queue h). qcnt ((sq(s := r)) t)) = (\<Sum>t\<leftarrow>removeAll s (hw_sta_queue h). qcnt (sq t))"
      by (intro arg_cong [where f = sum_list] map_cong) auto
    also have "\<dots> = (\<Sum>t\<leftarrow>hw_sta_queue h. qcnt (sq t)) - qcnt (sq s)"
    proof (cases "s \<in> set (hw_sta_queue h)")
      case True
      then show ?thesis using d by (metis distinct_remove1_removeAll sum_list_remove1)
    next
      case False
      then have "qcnt (sq s) = 0" using inv by (auto simp: ac_inv_def)
      then show ?thesis using False by (simp add: removeAll_id)
    qed
    finally show ?thesis .
  qed
  then show ?thesis using inv by (auto simp: ac_inv_def distinct_removeAll)
qed

text \<open>Returning frames to the pools does not touch the scheduler.\<close>

lemma free_xmitframe_sched [simp]:
  "hwxmits (rtw_free_xmitframe f xp) = hwxmits xp" "servq (rtw_free_xmitframe f xp) = servq xp"
  by (simp_all add: rtw_free_xmitframe_def xf_complete_def split: option.splits)

lemma free_xmitframe_queue_sched [simp]:
  "hwxmits (rtw_free_xmitframe_queue fs xp) = hwxmits xp \<and> servq (rtw_free_xmitframe_queue fs xp) = servq xp"
  by (induction fs arbitrary: xp) auto

lemma ac_less_4: "rtw_get_sta_pending up < HWXMIT_ENTRY"
  by (simp add: rtw_get_sta_pending_def HWXMIT_ENTRY_def)

lemma xmit_inv_upd:
  assumes "xmit_inv xp" "ac_inv h ((\<lambda>t. servq xp t ac)(s := sq))" "hwxmits xp' = (hwxmits xp)(ac := h)"
    "servq xp' = (servq xp)(s := (servq xp s)(ac := sq))"
  shows "xmit_inv xp'"
  unfolding xmit_inv_def
proof (intro allI impI)
  fix ac' assume "ac' < HWXMIT_ENTRY"
  moreover have "(\<lambda>t. servq xp' t ac') = (if ac' = ac then (\<lambda>t. servq xp t ac)(s := sq) else (\<lambda>t. servq xp t ac'))"
    by (auto simp: fun_eq_iff assms(4))
  ultimately show "ac_inv (hwxmits xp' ac') (\<lambda>t. servq xp' t ac')"
    using assms(1-3) by (auto simp: xmit_inv_def)
qed

lemma xmit_invD: "xmit_inv xp \<Longrightarrow> ac < HWXMIT_ENTRY \<Longrightarrow> ac_inv (hwxmits xp ac) (\<lambda>s. servq xp s ac)"
  by (simp add: xmit_inv_def)

lemma classifier_inv:
  assumes "xmit_inv xp" "rtw_xmit_classifier get_sta asoc f xp = (r, xp')"
  shows "xmit_inv xp'"
proof (cases "r = RET_SUCCESS")
  case True
  then have "\<exists>s. get_sta (xf_ra f) = Some s \<and> asoc s \<and> xf_psta f = Some s"
    using assms(2) by (simp add: rtw_xmit_classifier_def Let_def split: if_splits option.splits)
  then obtain s where s: "get_sta (xf_ra f) = Some s" "asoc s" "xf_psta f = Some s" by blast
  have xp': "xp' = snd (rtw_xmit_classifier get_sta asoc f xp)" using assms(2) by simp
  show ?thesis
    by (rule xmit_inv_upd [OF assms(1) ac_inv_enqueue [OF xmit_invD [OF assms(1) ac_less_4 [of "xf_priority f"]], of s f]])
      (use s in \<open>simp_all add: xp' rtw_xmit_classifier_def Let_def\<close>)
next
  case False
  then show ?thesis using assms by (auto simp: rtw_xmit_classifier_def Let_def split: if_splits option.splits)
qed

lemma free_sta_servq_inv: "xmit_inv xp \<Longrightarrow> ac < HWXMIT_ENTRY \<Longrightarrow> xmit_inv (free_sta_servq s ac xp)"
  by (rule xmit_inv_upd [OF _ ac_inv_free [OF xmit_invD]])
    (simp_all add: free_sta_servq_def Let_def)

lemma free_sta_xmit_inv: "xmit_inv xp \<Longrightarrow> xmit_inv (free_sta_xmit s xp)"
  by (simp add: free_sta_xmit_def free_sta_servq_inv HWXMIT_ENTRY_def)

section \<open>Dequeuing\<close>

text \<open>One category: under the invariant the first linked station has a frame, and it is taken.\<close>

lemma dequeue_sta_spec:
  assumes inv: "xmit_inv xp" and ac: "ac < HWXMIT_ENTRY"
    and call: "dequeue_sta_loop ac (hw_sta_queue (hwxmits xp ac)) xp = (r, xp')"
  obtains (empty) "r = None" "xp' = xp" "hw_sta_queue (hwxmits xp ac) = []"
  | (taken) s ss f q where "r = Some f" "hw_sta_queue (hwxmits xp ac) = s # ss" "sta_pending (servq xp s ac) = f # q"
      "xmit_inv xp'" "sta_pending (servq xp' s ac) = q"
      "\<forall>t a. (t, a) \<noteq> (s, ac) \<longrightarrow> servq xp' t a = servq xp t a"
proof (cases "hw_sta_queue (hwxmits xp ac)")
  case Nil
  then show thesis using call by (intro empty) auto
next
  case (Cons s ss)
  have a: "ac_inv (hwxmits xp ac) (\<lambda>s. servq xp s ac)" by (rule xmit_invD [OF inv ac])
  then have "sta_pending (servq xp s ac) \<noteq> []" using Cons unfolding ac_inv_def by (metis list.set_intros(1))
  then obtain f q where q: "sta_pending (servq xp s ac) = f # q" by (cases "sta_pending (servq xp s ac)") auto
  let ?h = "(hwxmits xp ac)\<lparr>accnt := accnt (hwxmits xp ac) - 1\<rparr>"
  let ?h' = "if q = [] then ?h\<lparr>hw_sta_queue := remove1 s (hw_sta_queue ?h)\<rparr> else ?h"
  let ?sq = "(servq xp s ac)\<lparr>sta_pending := q, qcnt := qcnt (servq xp s ac) - 1\<rparr>"
  have res: "r = Some f" "xp' = xp\<lparr>hwxmits := (hwxmits xp)(ac := ?h'), servq := (servq xp)(s := (servq xp s)(ac := ?sq))\<rparr>"
    using call Cons q by (auto simp: dequeue_one_xmitframe_def Let_def)
  have "xmit_inv xp'"
    by (rule xmit_inv_upd [OF inv ac_inv_dequeue [OF a q]]) (simp_all add: res)
  then show thesis using res Cons q by (intro taken) auto
qed

lemma dequeue_ac_loop_spec:
  assumes inv: "xmit_inv xp" and acs: "\<forall>ac\<in>set acs. ac < HWXMIT_ENTRY"
    and call: "dequeue_ac_loop acs xp = (r, xp')"
  shows "xmit_inv xp' \<and>
    (case r of None \<Rightarrow> xp' = xp \<and> (\<forall>ac\<in>set acs. hw_sta_queue (hwxmits xp ac) = [])
     | Some f \<Rightarrow> \<exists>pre ac post s ss q. acs = pre @ ac # post \<and> (\<forall>a\<in>set pre. hw_sta_queue (hwxmits xp a) = [])
         \<and> hw_sta_queue (hwxmits xp ac) = s # ss \<and> sta_pending (servq xp s ac) = f # q
         \<and> sta_pending (servq xp' s ac) = q \<and> (\<forall>t a. (t, a) \<noteq> (s, ac) \<longrightarrow> servq xp' t a = servq xp t a))"
  using acs call
proof (induction acs)
  case Nil
  then show ?case using inv by simp
next
  case (Cons ac acs)
  obtain r1 xp1 where one: "dequeue_sta_loop ac (hw_sta_queue (hwxmits xp ac)) xp = (r1, xp1)" by fastforce
  have ac: "ac < HWXMIT_ENTRY" using Cons.prems(1) by simp
  from inv ac one show ?case
  proof (cases rule: dequeue_sta_spec)
    case empty
    then have "dequeue_ac_loop acs xp = (r, xp')" using Cons.prems(2) one by simp
    note IH = Cons.IH [OF _ this]
    show ?thesis
    proof (cases r)
      case None
      then show ?thesis using IH Cons.prems(1) empty inv by simp
    next
      case (Some f)
      with IH Cons.prems(1) obtain pre ac' post s ss q where i: "acs = pre @ ac' # post"
        "\<forall>a\<in>set pre. hw_sta_queue (hwxmits xp a) = []" "hw_sta_queue (hwxmits xp ac') = s # ss"
        "sta_pending (servq xp s ac') = f # q" "sta_pending (servq xp' s ac') = q"
        "\<forall>t a. (t, a) \<noteq> (s, ac') \<longrightarrow> servq xp' t a = servq xp t a" "xmit_inv xp'"
        by auto
      then have "ac # acs = (ac # pre) @ ac' # post" "\<forall>a\<in>set (ac # pre). hw_sta_queue (hwxmits xp a) = []"
        using empty(3) by auto
      then show ?thesis using Some i(3-) by (simp only: option.case) blast
    qed
  next
    case (taken s ss f q)
    then have "r = Some f" "xp' = xp1" using Cons.prems(2) one by auto
    moreover have "ac # acs = [] @ ac # acs \<and> (\<forall>a\<in>set []. hw_sta_queue (hwxmits xp a) = [])
        \<and> hw_sta_queue (hwxmits xp ac) = s # ss \<and> sta_pending (servq xp s ac) = f # q
        \<and> sta_pending (servq xp1 s ac) = q \<and> (\<forall>t a. (t, a) \<noteq> (s, ac) \<longrightarrow> servq xp1 t a = servq xp t a)"
      using taken by simp
    ultimately show ?thesis using taken(4) by (simp only: option.case) blast
  qed
qed

section \<open>Properties\<close>

datatype xmit_event = XmitEnqueue xmit_frame | XmitDequeue | XmitFreeSta nat

fun xmit_step :: "(bytes \<Rightarrow> nat option) \<Rightarrow> (nat \<Rightarrow> bool) \<Rightarrow> xmit_priv \<Rightarrow> xmit_event \<Rightarrow> xmit_priv" where
  "xmit_step get_sta asoc xp (XmitEnqueue f) = snd (rtw_xmitframe_enqueue get_sta asoc f xp)"
| "xmit_step get_sta asoc xp XmitDequeue = snd (rtw_dequeue_xframe xp HWXMIT_ENTRY)"
| "xmit_step get_sta asoc xp (XmitFreeSta s) = free_sta_xmit s xp"

definition xmit_sys_inv :: "xmit_priv \<Rightarrow> bool" where
  "xmit_sys_inv xp \<longleftrightarrow> xmit_inv xp \<and> (\<forall>ac\<in>set (wmm_para_seq xp). ac < HWXMIT_ENTRY)"

lemma xmit_inx_bound: "xmit_sys_inv xp \<Longrightarrow> \<forall>ac\<in>set (take n (xmit_inx xp)). ac < HWXMIT_ENTRY"
  by (auto simp: xmit_sys_inv_def xmit_inx_def HWXMIT_ENTRY_def dest!: in_set_takeD)

lemma wmm_para_seq_keep [simp]:
  "wmm_para_seq (rtw_free_xmitframe f xp) = wmm_para_seq xp"
  "wmm_para_seq (snd (rtw_xmit_classifier get_sta asoc f xp)) = wmm_para_seq xp"
  "wmm_para_seq (snd (dequeue_sta_loop ac ss xp)) = wmm_para_seq xp"
  by (simp_all add: rtw_free_xmitframe_def xf_complete_def rtw_xmit_classifier_def Let_def split: option.splits)
    (induction ss, auto simp: Let_def split: prod.splits option.splits)

lemma wmm_para_seq_free_queue [simp]: "wmm_para_seq (rtw_free_xmitframe_queue fs xp) = wmm_para_seq xp"
  by (induction fs arbitrary: xp) auto

lemma wmm_para_seq_dequeue: "wmm_para_seq (snd (dequeue_ac_loop acs xp)) = wmm_para_seq xp"
proof (induction acs arbitrary: xp)
  case (Cons ac acs)
  obtain r xp1 where one: "dequeue_sta_loop ac (hw_sta_queue (hwxmits xp ac)) xp = (r, xp1)" by fastforce
  then have "wmm_para_seq xp1 = wmm_para_seq xp" by (metis snd_conv wmm_para_seq_keep(3))
  then show ?case using one Cons by (cases r) auto
qed simp

lemma xmit_step_inv: "xmit_sys_inv xp \<Longrightarrow> xmit_sys_inv (xmit_step get_sta asoc xp e)"
proof (cases e)
  case (XmitEnqueue f)
  assume i: "xmit_sys_inv xp"
  obtain r xp' where c: "rtw_xmit_classifier get_sta asoc f xp = (r, xp')" by fastforce
  have "snd (rtw_xmitframe_enqueue get_sta asoc f xp) = xp'"
    by (cases r) (simp_all add: rtw_xmitframe_enqueue_def c)
  then show ?thesis
    using i classifier_inv [OF _ c] wmm_para_seq_keep(2) [of get_sta asoc f xp] XmitEnqueue c by (simp add: xmit_sys_inv_def)
next
  case XmitDequeue
  assume i: "xmit_sys_inv xp"
  obtain r xp' where c: "rtw_dequeue_xframe xp HWXMIT_ENTRY = (r, xp')" by fastforce
  have "xmit_inv xp'"
    using dequeue_ac_loop_spec [OF _ xmit_inx_bound [OF i]] i c by (auto simp: rtw_dequeue_xframe_def xmit_sys_inv_def)
  moreover have "wmm_para_seq xp' = wmm_para_seq xp"
    using c wmm_para_seq_dequeue by (metis rtw_dequeue_xframe_def snd_conv)
  ultimately show ?thesis using i XmitDequeue c by (simp add: xmit_sys_inv_def)
next
  case (XmitFreeSta s)
  assume "xmit_sys_inv xp"
  then show ?thesis
    using XmitFreeSta by (simp add: xmit_sys_inv_def free_sta_xmit_inv)
      (simp add: free_sta_xmit_def free_sta_servq_def Let_def)
qed

interpretation xmit: invariant_system "xmit_step get_sta asoc" "\<lambda>_ _. True" xmit_sys_inv for get_sta asoc
  by unfold_locales (rule xmit_step_inv)

lemma adm_run_True: "adm_run step (\<lambda>_ _. True) s es"
  by (induction es arbitrary: s) auto

text \<open>
  C9. The transmit scheduler keeps its books: from a state where each category lists exactly the
  stations with frames, each once, with \<^verbatim>\<open>qcnt\<close> the length of the station's queue and \<^verbatim>\<open>accnt\<close> the
  number of frames of the category, every sequence of enqueues, dequeues and station removals ends
  in such a state.
\<close>

theorem xmit_scheduler_invariant:
  assumes "xmit_sys_inv xp"
  shows "xmit_sys_inv (run (xmit_step get_sta asoc) xp es)"
  by (rule xmit.run_inv [OF assms adm_run_True])

definition sample_xframe :: "nat \<Rightarrow> u8 \<Rightarrow> nat \<Rightarrow> xmit_frame" where
  "sample_xframe i up s = \<lparr>xf_id = i, xf_priority = up, xf_ra = replicate 6 (of_nat s), xf_psta = Some s, xf_os_qid = 0,
     xf_pkt = None, xf_frame_tag = 1, xf_pxmitbuf = None, xf_agg_num = 1, xf_pkt_offset = 1, xf_ack_report = 0,
     xf_alloc_addr = False, xf_ext_tag = False, xf_mdata = False, xf_eosp = False, xf_triggered = False,
     xf_qsel = 0, xf_ether_type = 0, xf_dhcp_pkt = False\<rparr>"

definition sample_get_sta :: "bytes \<Rightarrow> nat option" where
  "sample_get_sta ra = (if ra = replicate 6 3 then Some 3 else if ra = replicate 6 5 then Some 5 else None)"

definition sample_xmit :: xmit_priv where
  "sample_xmit = \<lparr>free_xmit_queue = [], free_xmitframe_cnt = 0, free_xframe_ext_queue = [], free_xframe_ext_cnt = 0,
     free_xmitbuf_queue = [], free_xmitbuf_cnt = 0, free_xmit_extbuf_queue = [], free_xmit_extbuf_cnt = 0,
     hwxmits = (\<lambda>_. \<lparr>hw_sta_queue = [], accnt = 0\<rparr>), servq = (\<lambda>_ _. \<lparr>sta_pending = [], qcnt = 0\<rparr>),
     wifi_spec = False, wmm_para_seq = [0, 1, 2, 3], xp_completed = [], xp_freed = [], xp_sctx_done = [], tx_drop = 0\<rparr>"

lemma sample_xmit_inv: "xmit_sys_inv sample_xmit"
  by (simp add: xmit_sys_inv_def xmit_inv_def ac_inv_def sample_xmit_def HWXMIT_ENTRY_def)

definition sample_xmit_events :: "xmit_event list" where
  "sample_xmit_events = [XmitEnqueue (sample_xframe 1 0 3), XmitEnqueue (sample_xframe 2 6 5), XmitEnqueue (sample_xframe 3 6 5)]"

lemmas xmit_eval = sample_xmit_events_def sample_xmit_def sample_xframe_def sample_get_sta_def rtw_xmitframe_enqueue_def
  rtw_xmit_classifier_def rtw_get_sta_pending_def rtw_dequeue_xframe_def xmit_inx_def dequeue_one_xmitframe_def
  HWXMIT_ENTRY_def Let_def

theorem xmit_scheduler_invariant_witness:
  "xmit_sys_inv (run (xmit_step sample_get_sta (\<lambda>_. True)) sample_xmit sample_xmit_events)
   \<and> accnt (hwxmits (run (xmit_step sample_get_sta (\<lambda>_. True)) sample_xmit sample_xmit_events) 0) = 2"
  using xmit_scheduler_invariant [OF sample_xmit_inv, of sample_get_sta "\<lambda>_. True" sample_xmit_events]
  by (simp add: xmit_eval)

text \<open>
  C21. Dequeuing follows strict priority and per-station order: with the default category order a
  frame is returned exactly when some category has a station with frames; it is the oldest frame of
  the first station of the highest such category, and no other queue changes.
\<close>

theorem rtw_dequeue_xframe_strict_priority:
  assumes "xmit_sys_inv xp" "\<not> wifi_spec xp" "rtw_dequeue_xframe xp HWXMIT_ENTRY = (r, xp')"
  shows "case r of
      None \<Rightarrow> xp' = xp \<and> (\<forall>ac < HWXMIT_ENTRY. \<forall>s. sta_pending (servq xp s ac) = [])
    | Some f \<Rightarrow> \<exists>ac s ss. ac < HWXMIT_ENTRY \<and> (\<forall>a < ac. \<forall>t. sta_pending (servq xp t a) = [])
        \<and> hw_sta_queue (hwxmits xp ac) = s # ss
        \<and> sta_pending (servq xp s ac) = f # sta_pending (servq xp' s ac)
        \<and> (\<forall>t a. (t, a) \<noteq> (s, ac) \<longrightarrow> servq xp' t a = servq xp t a)"
proof -
  have inv: "xmit_inv xp" using assms(1) by (simp add: xmit_sys_inv_def)
  have call: "dequeue_ac_loop [0, 1, 2, 3] xp = (r, xp')"
    using assms(2,3) by (simp add: rtw_dequeue_xframe_def xmit_inx_def HWXMIT_ENTRY_def)
  have e: "(\<forall>t. sta_pending (servq xp t a) = []) \<longleftrightarrow> hw_sta_queue (hwxmits xp a) = []" if "a < HWXMIT_ENTRY" for a
    using xmit_invD [OF inv that] unfolding ac_inv_def by (metis last_in_set list.set(1) empty_iff)
  have four: "a < HWXMIT_ENTRY \<longleftrightarrow> a \<in> set [0, 1, 2, 3]" for a by (auto simp: HWXMIT_ENTRY_def)
  note spec = dequeue_ac_loop_spec [OF inv _ call]
  show ?thesis
  proof (cases r)
    case None
    then show ?thesis using spec e by (simp add: four)
  next
    case (Some f)
    with spec obtain pre ac post s ss q where i: "[0, 1, 2, 3] = pre @ ac # post"
        "\<forall>a\<in>set pre. hw_sta_queue (hwxmits xp a) = []" "hw_sta_queue (hwxmits xp ac) = s # ss"
        "sta_pending (servq xp s ac) = f # q" "sta_pending (servq xp' s ac) = q"
        "\<forall>t a. (t, a) \<noteq> (s, ac) \<longrightarrow> servq xp' t a = servq xp t a"
      by (auto simp: HWXMIT_ENTRY_def)
    have len: "length pre < 4" using arg_cong [OF i(1), of length] by simp
    have four': "[0, 1, 2, 3] = [0..<4 :: nat]" by (simp add: upt_rec)
    have ac: "ac = length pre"
      using len arg_cong [OF i(1) [unfolded four'], of "\<lambda>l. l ! length pre"] by simp
    have "pre = take ac [0..<4]" using i(1) [unfolded four'] ac by (metis append_eq_conv_conj)
    then have pre: "pre = [0..<ac]" using ac len by (simp add: take_upt)
    have "set pre = {..<ac}" by (subst pre) auto
    then have "\<forall>a < ac. \<forall>t. sta_pending (servq xp t a) = []"
      using i(2) e ac len by (auto simp: HWXMIT_ENTRY_def)
    moreover have "ac < HWXMIT_ENTRY" using ac len by (simp add: HWXMIT_ENTRY_def)
    moreover have "sta_pending (servq xp s ac) = f # sta_pending (servq xp' s ac)" using i(4,5) by simp
    ultimately show ?thesis unfolding Some option.case using i(3,6) by blast
  qed
qed

theorem rtw_dequeue_xframe_strict_priority_witness:
  "map_option xf_id (fst (rtw_dequeue_xframe (run (xmit_step sample_get_sta (\<lambda>_. True)) sample_xmit sample_xmit_events) HWXMIT_ENTRY))
   = Some 2"
proof -
  let ?xp = "run (xmit_step sample_get_sta (\<lambda>_. True)) sample_xmit sample_xmit_events"
  obtain r xp' where call: "rtw_dequeue_xframe ?xp HWXMIT_ENTRY = (r, xp')" by fastforce
  have spec: "\<not> wifi_spec ?xp" by (simp add: xmit_eval)
  note d = rtw_dequeue_xframe_strict_priority [OF xmit.run_inv [OF sample_xmit_inv adm_run_True] spec call]
  have q: "map xf_id (sta_pending (servq ?xp 5 0)) = [2, 3]" "hw_sta_queue (hwxmits ?xp 0) = [5]" by (simp_all add: xmit_eval)
  show ?thesis
  proof (cases r)
    case None
    then have "sta_pending (servq ?xp 5 0) = []" using d by (simp add: HWXMIT_ENTRY_def)
    then show ?thesis using q by simp
  next
    case (Some f)
    then obtain ac s ss where e: "\<forall>a < ac. \<forall>t. sta_pending (servq ?xp t a) = []"
      "hw_sta_queue (hwxmits ?xp ac) = s # ss" "sta_pending (servq ?xp s ac) = f # sta_pending (servq xp' s ac)"
      using d by auto
    have "\<not> 0 < ac" using e(1) q by fastforce
    then have "xf_id f = 2" using e q by auto
    then show ?thesis using call Some by simp
  qed
qed

end
