(* ===== verification/Mac_Acl.thy ===== *)
theory Mac_Acl
  imports Driver_Prelude
begin

text \<open>
  The MAC address access control lists of the access point: \<^verbatim>\<open>struct wlan_acl_pool\<close>, the operations
  of \<^verbatim>\<open>core/rtw_ap.c\<close> on it and the decision \<^verbatim>\<open>rtw_access_ctrl\<close> of \<^verbatim>\<open>core/rtw_sta_mgt.c\<close>. A pool
  has 16 nodes and the queue of the nodes in use, here the list of their indices. The interface is a
  set of at most 16 addresses.
\<close>

section \<open>State and operations\<close>

definition NUM_ACL :: nat where
  "NUM_ACL = 16"

definition RTW_ACL_MODE_DISABLED :: int where "RTW_ACL_MODE_DISABLED = 0"
definition RTW_ACL_MODE_ACCEPT_UNLESS_LISTED :: int where "RTW_ACL_MODE_ACCEPT_UNLESS_LISTED = 1"
definition RTW_ACL_MODE_DENY_UNLESS_LISTED :: int where "RTW_ACL_MODE_DENY_UNLESS_LISTED = 2"

lemmas acl_mode_defs = RTW_ACL_MODE_DISABLED_def RTW_ACL_MODE_ACCEPT_UNLESS_LISTED_def RTW_ACL_MODE_DENY_UNLESS_LISTED_def

record rtw_wlan_acl_node =
  acl_addr :: bytes
  acl_valid :: bool

record wlan_acl_pool =
  acl_mode :: int
  acl_num :: int
  aclnode :: "rtw_wlan_acl_node list"
  acl_node_q :: "nat list"

definition rtw_macaddr_acl_init :: "wlan_acl_pool \<Rightarrow> wlan_acl_pool" where
  "rtw_macaddr_acl_init p = p\<lparr>acl_num := 0, acl_mode := RTW_ACL_MODE_DISABLED, acl_node_q := [],
     aclnode := map (\<lambda>n. n\<lparr>acl_valid := False\<rparr>) (aclnode p)\<rparr>"

text \<open>The removal of one node, \<^verbatim>\<open>acl_node->valid = _FALSE; rtw_list_delete; acl->num--\<close>.\<close>

definition acl_drop :: "wlan_acl_pool \<Rightarrow> nat \<Rightarrow> wlan_acl_pool" where
  "acl_drop p i = p\<lparr>aclnode := (aclnode p)[i := (aclnode p ! i)\<lparr>acl_valid := False\<rparr>],
                    acl_node_q := remove1 i (acl_node_q p), acl_num := acl_num p - 1\<rparr>"

fun acl_deinit_loop :: "nat list \<Rightarrow> wlan_acl_pool \<Rightarrow> wlan_acl_pool" where
  "acl_deinit_loop [] p = p"
| "acl_deinit_loop (i # is) p = acl_deinit_loop is (if acl_valid (aclnode p ! i) then acl_drop p i else p)"

definition rtw_macaddr_acl_clear :: "wlan_acl_pool \<Rightarrow> wlan_acl_pool" where
  "rtw_macaddr_acl_clear p = (acl_deinit_loop (acl_node_q p) p)\<lparr>acl_mode := RTW_ACL_MODE_DISABLED\<rparr>"

definition rtw_set_macaddr_acl :: "wlan_acl_pool \<Rightarrow> int \<Rightarrow> wlan_acl_pool" where
  "rtw_set_macaddr_acl p mode = p\<lparr>acl_mode := mode\<rparr>"

text \<open>The search over the queue that \<^verbatim>\<open>rtw_acl_add_sta\<close> and \<^verbatim>\<open>_rtw_access_ctrl\<close> share.\<close>

definition acl_listed :: "wlan_acl_pool \<Rightarrow> bytes \<Rightarrow> bool" where
  "acl_listed p addr = list_ex (\<lambda>i. acl_addr (aclnode p ! i) = addr \<and> acl_valid (aclnode p ! i)) (acl_node_q p)"

definition rtw_acl_add_sta :: "wlan_acl_pool \<Rightarrow> bytes \<Rightarrow> int \<times> wlan_acl_pool" where
  "rtw_acl_add_sta p addr =
     (if acl_listed p addr then (0, p)
      else if acl_num p \<ge> int NUM_ACL then (-1, p)
      else case find (\<lambda>i. \<not> acl_valid (aclnode p ! i)) [0..<NUM_ACL] of
        None \<Rightarrow> (-1, p)
      | Some i \<Rightarrow> (0, p\<lparr>aclnode := (aclnode p)[i := \<lparr>acl_addr = addr, acl_valid = True\<rparr>],
                        acl_node_q := acl_node_q p @ [i], acl_num := acl_num p + 1\<rparr>))"

fun acl_remove_loop :: "bool \<Rightarrow> bytes \<Rightarrow> nat list \<Rightarrow> wlan_acl_pool \<Rightarrow> wlan_acl_pool" where
  "acl_remove_loop is_baddr addr [] p = p"
| "acl_remove_loop is_baddr addr (i # is) p =
     acl_remove_loop is_baddr addr is
       (if (is_baddr \<or> acl_addr (aclnode p ! i) = addr) \<and> acl_valid (aclnode p ! i) then acl_drop p i else p)"

definition rtw_acl_remove_sta :: "wlan_acl_pool \<Rightarrow> bytes \<Rightarrow> wlan_acl_pool" where
  "rtw_acl_remove_sta p addr = acl_remove_loop (addr = replicate 6 0xFF) addr (acl_node_q p) p"

definition rtw_access_ctrl_period :: "wlan_acl_pool \<Rightarrow> bytes \<Rightarrow> bool" where
  "rtw_access_ctrl_period p mac_addr =
     (if acl_mode p \<noteq> RTW_ACL_MODE_ACCEPT_UNLESS_LISTED \<and> acl_mode p \<noteq> RTW_ACL_MODE_DENY_UNLESS_LISTED
      then True
      else if acl_mode p = RTW_ACL_MODE_ACCEPT_UNLESS_LISTED then \<not> acl_listed p mac_addr
      else acl_listed p mac_addr)"

text \<open>\<^verbatim>\<open>rtw_access_ctrl\<close>, over the device and the BSS period.\<close>

fun rtw_access_ctrl :: "wlan_acl_pool list \<Rightarrow> bytes \<Rightarrow> bool" where
  "rtw_access_ctrl [] mac_addr = True"
| "rtw_access_ctrl (p # ps) mac_addr = (if \<not> rtw_access_ctrl_period p mac_addr then False else rtw_access_ctrl ps mac_addr)"

section \<open>The interface: a bounded set of addresses\<close>

locale addr_set =
  fixes elems :: "'p \<Rightarrow> bytes set"
    and inv :: "'p \<Rightarrow> bool"
    and add :: "'p \<Rightarrow> bytes \<Rightarrow> int \<times> 'p"
    and remove :: "'p \<Rightarrow> bytes \<Rightarrow> 'p"
    and member :: "'p \<Rightarrow> bytes \<Rightarrow> bool"
    and cap :: nat
  assumes fin: "inv p \<Longrightarrow> finite (elems p)"
    and bound: "inv p \<Longrightarrow> card (elems p) \<le> cap"
    and member_iff: "inv p \<Longrightarrow> member p a \<longleftrightarrow> a \<in> elems p"
    and add_ok: "inv p \<Longrightarrow> a \<in> elems p \<or> card (elems p) < cap \<Longrightarrow>
        fst (add p a) = 0 \<and> inv (snd (add p a)) \<and> elems (snd (add p a)) = insert a (elems p)"
    and add_full: "inv p \<Longrightarrow> a \<notin> elems p \<Longrightarrow> card (elems p) = cap \<Longrightarrow> add p a = (-1, p)"
    and remove_ok: "inv p \<Longrightarrow> a \<noteq> replicate 6 0xFF \<Longrightarrow> inv (remove p a) \<and> elems (remove p a) = elems p - {a}"
    and remove_all: "inv p \<Longrightarrow> inv (remove p (replicate 6 0xFF)) \<and> elems (remove p (replicate 6 0xFF)) = {}"
begin

lemma member_after_add: "inv p \<Longrightarrow> fst (add p a) = 0 \<Longrightarrow> member (snd (add p a)) b \<longleftrightarrow> b = a \<or> member p b"
proof -
  assume p: "inv p" "fst (add p a) = 0"
  then have "a \<in> elems p \<or> card (elems p) < cap" using bound [OF p(1)] add_full [OF p(1), of a] by fastforce
  from add_ok [OF p(1) this] show ?thesis using p member_iff by auto
qed

lemma remove_after_add:
  "inv p \<Longrightarrow> a \<noteq> replicate 6 0xFF \<Longrightarrow> a \<notin> elems p \<Longrightarrow> card (elems p) < cap \<Longrightarrow>
     elems (remove (snd (add p a)) a) = elems p"
  using add_ok [of p a] remove_ok [of "snd (add p a)" a] by auto

lemma add_after_remove:
  "inv p \<Longrightarrow> a \<in> elems p \<Longrightarrow> a \<noteq> replicate 6 0xFF \<Longrightarrow> fst (add (remove p a) b) = 0"
proof -
  assume p: "inv p" "a \<in> elems p" "a \<noteq> replicate 6 0xFF"
  have r: "inv (remove p a)" "elems (remove p a) = elems p - {a}" using remove_ok [OF p(1,3)] by auto
  have "card (elems p - {a}) < card (elems p)" using p(2) fin [OF p(1)] by (metis card_Diff1_less)
  then show ?thesis using add_ok [OF r(1)] r(2) bound [OF p(1)] by fastforce
qed

end

section \<open>The pool implements the interface\<close>

definition acl_inv :: "wlan_acl_pool \<Rightarrow> bool" where
  "acl_inv p \<longleftrightarrow> length (aclnode p) = NUM_ACL \<and> distinct (acl_node_q p)
     \<and> (\<forall>i < NUM_ACL. i \<in> set (acl_node_q p) \<longleftrightarrow> acl_valid (aclnode p ! i))
     \<and> set (acl_node_q p) \<subseteq> {..<NUM_ACL}
     \<and> acl_num p = int (length (acl_node_q p))
     \<and> inj_on (\<lambda>i. acl_addr (aclnode p ! i)) (set (acl_node_q p))"

definition acl_elems :: "wlan_acl_pool \<Rightarrow> bytes set" where
  "acl_elems p = (\<lambda>i. acl_addr (aclnode p ! i)) ` set (acl_node_q p)"

lemma acl_listed_iff: "acl_inv p \<Longrightarrow> acl_listed p a \<longleftrightarrow> a \<in> acl_elems p"
  by (auto simp: acl_listed_def acl_elems_def acl_inv_def list_ex_iff)

lemma acl_card: "acl_inv p \<Longrightarrow> card (acl_elems p) = length (acl_node_q p)"
  by (simp add: acl_elems_def acl_inv_def card_image distinct_card)

lemma acl_card_le: "acl_inv p \<Longrightarrow> length (acl_node_q p) \<le> NUM_ACL"
proof -
  assume p: "acl_inv p"
  then have "length (acl_node_q p) = card (set (acl_node_q p))" by (simp add: acl_inv_def distinct_card)
  also have "\<dots> \<le> card {..<NUM_ACL}" using p by (intro card_mono) (auto simp: acl_inv_def)
  finally show ?thesis by simp
qed

lemma acl_free_node:
  assumes p: "acl_inv p" and room: "length (acl_node_q p) < NUM_ACL"
  obtains i where "find (\<lambda>i. \<not> acl_valid (aclnode p ! i)) [0..<NUM_ACL] = Some i" "i < NUM_ACL" "i \<notin> set (acl_node_q p)"
proof -
  have "\<exists>i < NUM_ACL. \<not> acl_valid (aclnode p ! i)"
  proof (rule ccontr)
    assume "\<not> ?thesis"
    then have "{..<NUM_ACL} \<subseteq> set (acl_node_q p)" using p by (auto simp: acl_inv_def)
    then have "card {..<NUM_ACL} \<le> card (set (acl_node_q p))" by (rule card_mono [rotated]) simp
    also have "\<dots> \<le> length (acl_node_q p)" by (rule card_length)
    finally show False using room by simp
  qed
  then obtain i where "find (\<lambda>i. \<not> acl_valid (aclnode p ! i)) [0..<NUM_ACL] = Some i"
    by (cases "find (\<lambda>i. \<not> acl_valid (aclnode p ! i)) [0..<NUM_ACL]") (auto simp: find_None_iff)
  moreover from this have "i < NUM_ACL \<and> i \<notin> set (acl_node_q p)"
    using p by (auto simp: find_Some_iff acl_inv_def)
  ultimately show thesis using that by blast
qed

lemma acl_add_new:
  assumes p: "acl_inv p" and a: "a \<notin> acl_elems p" and i: "i < NUM_ACL" "i \<notin> set (acl_node_q p)"
  defines "p' \<equiv> p\<lparr>aclnode := (aclnode p)[i := \<lparr>acl_addr = a, acl_valid = True\<rparr>],
                  acl_node_q := acl_node_q p @ [i], acl_num := acl_num p + 1\<rparr>"
  shows "acl_inv p' \<and> acl_elems p' = insert a (acl_elems p)"
proof -
  have len: "length (aclnode p) = NUM_ACL" using p by (simp add: acl_inv_def)
  have old: "acl_addr ((aclnode p)[i := n] ! j) = acl_addr (aclnode p ! j)" if "j \<in> set (acl_node_q p)" for j n
    using that i(2) by (metis nth_list_update_neq)
  have im: "acl_elems p' = insert a (acl_elems p)"
    using old i len by (auto simp: acl_elems_def p'_def)
  have "inj_on (\<lambda>j. acl_addr ((aclnode p)[i := \<lparr>acl_addr = a, acl_valid = True\<rparr>] ! j)) (set (acl_node_q p))"
    using p old by (simp add: acl_inv_def inj_on_def)
  then have "inj_on (\<lambda>j. acl_addr (aclnode p' ! j)) (set (acl_node_q p'))"
    using a i len old by (auto simp: p'_def acl_elems_def inj_on_insert)
  moreover have "acl_valid ((aclnode p)[i := \<lparr>acl_addr = a, acl_valid = True\<rparr>] ! j) \<longleftrightarrow> j = i \<or> acl_valid (aclnode p ! j)"
    if "j < NUM_ACL" for j
    using i len by (cases "j = i") auto
  ultimately show ?thesis using im p i len by (auto simp: acl_inv_def p'_def)
qed

lemma acl_drop_inv:
  assumes p: "acl_inv p" and i: "i \<in> set (acl_node_q p)"
  shows "acl_inv (acl_drop p i)" and "acl_elems (acl_drop p i) = acl_elems p - {acl_addr (aclnode p ! i)}"
proof -
  have b: "length (aclnode p) = NUM_ACL" "distinct (acl_node_q p)" "i < NUM_ACL"
    and inj: "inj_on (\<lambda>j. acl_addr (aclnode p ! j)) (set (acl_node_q p))"
    using p i by (auto simp: acl_inv_def)
  let ?n = "(aclnode p)[i := (aclnode p ! i)\<lparr>acl_valid := False\<rparr>]"
  have addr: "acl_addr (?n ! j) = acl_addr (aclnode p ! j)" for j
    using b by (cases "j = i") auto
  have val: "acl_valid (?n ! j) \<longleftrightarrow> j \<noteq> i \<and> acl_valid (aclnode p ! j)" if "j < NUM_ACL" for j
    using b by (cases "j = i") auto
  have q: "set (remove1 i (acl_node_q p)) = set (acl_node_q p) - {i}" using b(2) by simp
  have len: "int (length (remove1 i (acl_node_q p))) = int (length (acl_node_q p)) - 1"
    using length_pos_if_in_set [OF i] i by (simp only: length_remove1 if_True)
  show "acl_inv (acl_drop p i)"
    using p b val q len inj addr by (auto simp: acl_inv_def acl_drop_def intro: inj_on_subset)
  show "acl_elems (acl_drop p i) = acl_elems p - {acl_addr (aclnode p ! i)}"
    using q addr inj i by (auto simp: acl_elems_def acl_drop_def inj_on_def)
qed

lemma acl_drop_nodes [simp]:
  "acl_addr (aclnode (acl_drop p i) ! j) = acl_addr (aclnode p ! j)"
  by (cases "i < length (aclnode p)"; cases "j = i") (auto simp: acl_drop_def list_update_beyond)

lemma acl_drop_q: "acl_inv p \<Longrightarrow> set (acl_node_q (acl_drop p i)) = set (acl_node_q p) - {i}"
  by (auto simp: acl_drop_def acl_inv_def)

lemma acl_q_valid: "acl_inv p \<Longrightarrow> i \<in> set (acl_node_q p) \<Longrightarrow> acl_valid (aclnode p ! i)"
  by (auto simp: acl_inv_def)

lemma acl_remove_loop_spec:
  assumes "acl_inv p" "distinct is" "set is \<subseteq> set (acl_node_q p)"
  shows "acl_inv (acl_remove_loop b a is p)
    \<and> acl_elems (acl_remove_loop b a is p)
      = acl_elems p - {acl_addr (aclnode p ! i) |i. i \<in> set is \<and> (b \<or> acl_addr (aclnode p ! i) = a)}"
  using assms
proof (induction "is" arbitrary: p)
  case (Cons i "is")
  have v: "acl_valid (aclnode p ! i)" using Cons.prems by (auto intro: acl_q_valid)
  show ?case
  proof (cases "b \<or> acl_addr (aclnode p ! i) = a")
    case True
    let ?p = "acl_drop p i"
    have d: "acl_inv ?p" "acl_elems ?p = acl_elems p - {acl_addr (aclnode p ! i)}"
      using Cons.prems acl_drop_inv [of p i] by auto
    have "set is \<subseteq> set (acl_node_q ?p)" using Cons.prems by (auto simp: acl_drop_q)
    from Cons.IH [OF d(1) _ this] show ?thesis using Cons.prems(2) True v d by auto
  next
    case False
    then show ?thesis using Cons.IH [OF Cons.prems(1)] Cons.prems(2,3) by auto
  qed
qed simp

lemma acl_deinit_loop_eq: "acl_deinit_loop is p = acl_remove_loop True [] is p"
  by (induction "is" arbitrary: p) auto

lemma acl_remove_elems:
  assumes "acl_inv p"
  shows "acl_inv (rtw_acl_remove_sta p a)
    \<and> acl_elems (rtw_acl_remove_sta p a) = (if a = replicate 6 0xFF then {} else acl_elems p - {a})"
  using acl_remove_loop_spec [OF assms, of "acl_node_q p" "a = replicate 6 0xFF" a] assms
  unfolding rtw_acl_remove_sta_def by (auto simp: acl_inv_def acl_elems_def)

interpretation acl: addr_set acl_elems acl_inv rtw_acl_add_sta rtw_acl_remove_sta acl_listed NUM_ACL
proof
  fix p a assume p: "acl_inv p"
  show "finite (acl_elems p)" by (simp add: acl_elems_def)
  show "card (acl_elems p) \<le> NUM_ACL" using acl_card [OF p] acl_card_le [OF p] by simp
  show "acl_listed p a \<longleftrightarrow> a \<in> acl_elems p" by (rule acl_listed_iff [OF p])
  have num: "acl_num p = int (length (acl_node_q p))" using p by (simp add: acl_inv_def)
  show "fst (rtw_acl_add_sta p a) = 0 \<and> acl_inv (snd (rtw_acl_add_sta p a))
      \<and> acl_elems (snd (rtw_acl_add_sta p a)) = insert a (acl_elems p)"
    if h: "a \<in> acl_elems p \<or> card (acl_elems p) < NUM_ACL"
  proof (cases "a \<in> acl_elems p")
    case True
    then show ?thesis using p by (auto simp: rtw_acl_add_sta_def acl_listed_iff)
  next
    case False
    then have room: "length (acl_node_q p) < NUM_ACL" using h acl_card [OF p] by simp
    from p room obtain i where i: "find (\<lambda>i. \<not> acl_valid (aclnode p ! i)) [0..<NUM_ACL] = Some i"
      "i < NUM_ACL" "i \<notin> set (acl_node_q p)" by (rule acl_free_node)
    then show ?thesis
      using acl_add_new [OF p False i(2,3)] False room num p by (simp add: rtw_acl_add_sta_def acl_listed_iff)
  qed
  show "rtw_acl_add_sta p a = (- 1, p)" if "a \<notin> acl_elems p" "card (acl_elems p) = NUM_ACL"
    using that p num acl_card [OF p] by (simp add: rtw_acl_add_sta_def acl_listed_iff)
  show "acl_inv (rtw_acl_remove_sta p a) \<and> acl_elems (rtw_acl_remove_sta p a) = acl_elems p - {a}"
    if "a \<noteq> replicate 6 0xFF" using acl_remove_elems [OF p, of a] that by simp
  show "acl_inv (rtw_acl_remove_sta p (replicate 6 0xFF)) \<and> acl_elems (rtw_acl_remove_sta p (replicate 6 0xFF)) = {}"
    using acl_remove_elems [OF p, of "replicate 6 0xFF"] by simp
qed

section \<open>Properties\<close>

text \<open>The operations on the list of one period, and on both lists. A period that does not exist changes nothing.\<close>

datatype acl_event = AclInit | AclClear | AclMode int | AclAdd bytes | AclRemove bytes

fun acl_step :: "wlan_acl_pool \<Rightarrow> acl_event \<Rightarrow> wlan_acl_pool" where
  "acl_step p AclInit = rtw_macaddr_acl_init p"
| "acl_step p AclClear = rtw_macaddr_acl_clear p"
| "acl_step p (AclMode mode) = rtw_set_macaddr_acl p mode"
| "acl_step p (AclAdd a) = snd (rtw_acl_add_sta p a)"
| "acl_step p (AclRemove a) = rtw_acl_remove_sta p a"

fun on_period :: "('s \<Rightarrow> 'e \<Rightarrow> 's) \<Rightarrow> 's list \<Rightarrow> nat \<times> 'e \<Rightarrow> 's list" where
  "on_period step ss (period, e) = (if period < length ss then ss[period := step (ss ! period) e] else ss)"

text \<open>The reference policy: a mode and a set of addresses, an addition ignored when the set is full.\<close>

type_synonym acl_policy = "int \<times> bytes set"

fun acl_spec_step :: "acl_policy \<Rightarrow> acl_event \<Rightarrow> acl_policy" where
  "acl_spec_step (m, A) AclInit = (RTW_ACL_MODE_DISABLED, {})"
| "acl_spec_step (m, A) AclClear = (RTW_ACL_MODE_DISABLED, {})"
| "acl_spec_step (m, A) (AclMode mode) = (mode, A)"
| "acl_spec_step (m, A) (AclAdd a) = (m, if card A < NUM_ACL then insert a A else A)"
| "acl_spec_step (m, A) (AclRemove a) = (m, if a = replicate 6 0xFF then {} else A - {a})"

fun policy_accepts :: "acl_policy \<Rightarrow> bytes \<Rightarrow> bool" where
  "policy_accepts (m, A) mac =
     (if m = RTW_ACL_MODE_ACCEPT_UNLESS_LISTED then mac \<notin> A else if m = RTW_ACL_MODE_DENY_UNLESS_LISTED then mac \<in> A else True)"

definition policy_of :: "wlan_acl_pool \<Rightarrow> acl_policy" where
  "policy_of p = (acl_mode p, acl_elems p)"

lemma acl_inv_mode [simp]: "acl_inv (p\<lparr>acl_mode := m\<rparr>) = acl_inv p" "acl_elems (p\<lparr>acl_mode := m\<rparr>) = acl_elems p"
  by (simp_all add: acl_inv_def acl_elems_def)

lemma acl_clear_elems:
  assumes "acl_inv p"
  shows "acl_inv (rtw_macaddr_acl_clear p)" "acl_elems (rtw_macaddr_acl_clear p) = {}"
  using acl_remove_loop_spec [OF assms, of "acl_node_q p" True "[]"] assms
  by (auto simp: rtw_macaddr_acl_clear_def acl_deinit_loop_eq acl_inv_def acl_elems_def)

lemma acl_init_elems:
  assumes "acl_inv p"
  shows "acl_inv (rtw_macaddr_acl_init p)" "acl_elems (rtw_macaddr_acl_init p) = {}"
  using assms by (simp_all add: rtw_macaddr_acl_init_def acl_inv_def acl_elems_def)

lemma acl_step_mode: "acl_mode (snd (rtw_acl_add_sta p a)) = acl_mode p" "acl_mode (rtw_acl_remove_sta p a) = acl_mode p"
proof -
  have "acl_mode (acl_remove_loop b a is p) = acl_mode p" for b "is" by (induction "is" arbitrary: p) (auto simp: acl_drop_def)
  then show "acl_mode (rtw_acl_remove_sta p a) = acl_mode p" by (simp add: rtw_acl_remove_sta_def)
qed (simp add: rtw_acl_add_sta_def split: option.splits)

lemma acl_step_refines:
  assumes "acl_inv p"
  shows "acl_inv (acl_step p e) \<and> policy_of (acl_step p e) = acl_spec_step (policy_of p) e"
proof (cases e)
  case (AclAdd a)
  show ?thesis
  proof (cases "a \<in> acl_elems p \<or> card (acl_elems p) < NUM_ACL")
    case True
    then show ?thesis using AclAdd acl.add_ok [OF assms True] by (auto simp: policy_of_def acl_step_mode insert_absorb)
  next
    case False
    then show ?thesis
      using AclAdd assms acl.bound [OF assms] acl.add_full [OF assms, of a] by (simp add: policy_of_def)
  qed
next
  case (AclRemove a)
  then show ?thesis using acl_remove_elems [OF assms] by (simp add: policy_of_def acl_step_mode)
next
  case AclInit
  then show ?thesis using acl_init_elems [OF assms] by (simp add: policy_of_def) (simp add: rtw_macaddr_acl_init_def)
next
  case AclClear
  then show ?thesis using acl_clear_elems [OF assms] by (simp add: policy_of_def) (simp add: rtw_macaddr_acl_clear_def)
next
  case (AclMode m)
  then show ?thesis using assms by (simp add: policy_of_def rtw_set_macaddr_acl_def)
qed

lemma acl_run_refines:
  assumes "\<forall>p\<in>set ps. acl_inv p"
  shows "(\<forall>p\<in>set (run (on_period acl_step) ps es). acl_inv p)
    \<and> map policy_of (run (on_period acl_step) ps es) = run (on_period acl_spec_step) (map policy_of ps) es"
  using assms
proof (induction es arbitrary: ps)
  case (Cons e es)
  obtain k ev where e: "e = (k, ev)" by fastforce
  have "(\<forall>p\<in>set (on_period acl_step ps e). acl_inv p) \<and> map policy_of (on_period acl_step ps e) = on_period acl_spec_step (map policy_of ps) e"
    using Cons.prems acl_step_refines [of "ps ! k" ev] set_update_subset_insert [of ps k "acl_step (ps ! k) ev"] by (auto simp: e map_update)
  then show ?case using Cons.IH [of "on_period acl_step ps e"] by simp
qed simp

text \<open>The decision for one list is the policy it stands for.\<close>

lemma access_ctrl_period_policy: "acl_inv p \<Longrightarrow> rtw_access_ctrl_period p mac = policy_accepts (policy_of p) mac"
  by (auto simp: rtw_access_ctrl_period_def acl.member_iff policy_of_def acl_mode_defs)

lemma access_ctrl_all: "rtw_access_ctrl ps mac \<longleftrightarrow> (\<forall>p\<in>set ps. rtw_access_ctrl_period p mac)"
  by (induction ps) auto

text \<open>
  C22. The access decision is the policy: over every sequence of initialisations, clearings, changes of
  mode, additions and removals on the lists of the two periods, a station is accepted exactly when both
  lists accept it. An accept-unless-listed list accepts it exactly when its address is not in the set
  of addresses added and not removed since (a removal of the broadcast address, a clearing and an
  initialisation empty the set, an addition to a set of 16 is ignored), a deny-unless-listed list
  exactly when it is, and a list with another mode always.
\<close>

theorem rtw_access_ctrl_policy:
  assumes "\<forall>p\<in>set ps. acl_inv p"
  shows "rtw_access_ctrl (run (on_period acl_step) ps es) mac
    \<longleftrightarrow> (\<forall>P\<in>set (run (on_period acl_spec_step) (map policy_of ps) es). policy_accepts P mac)"
proof -
  note r = acl_run_refines [OF assms, of es]
  have "rtw_access_ctrl (run (on_period acl_step) ps es) mac
    \<longleftrightarrow> (\<forall>p\<in>set (run (on_period acl_step) ps es). policy_accepts (policy_of p) mac)"
    unfolding access_ctrl_all by (rule ball_cong [OF refl]) (use r access_ctrl_period_policy in blast)
  also have "\<dots> \<longleftrightarrow> (\<forall>P\<in>set (map policy_of (run (on_period acl_step) ps es)). policy_accepts P mac)" by simp
  finally show ?thesis using r by simp
qed

definition sample_acl :: wlan_acl_pool where
  "sample_acl = \<lparr>acl_mode = RTW_ACL_MODE_DISABLED, acl_num = 0,
     aclnode = replicate 16 \<lparr>acl_addr = replicate 6 0, acl_valid = False\<rparr>, acl_node_q = []\<rparr>"

lemma sample_acl_inv: "acl_inv sample_acl"
  by (simp add: acl_inv_def sample_acl_def NUM_ACL_def)

text \<open>Stations 1 and 2 are on the allow list of the device; the list of the BSS denies station 2.\<close>

definition sample_acl_events :: "(nat \<times> acl_event) list" where
  "sample_acl_events = [(0, AclMode 2), (0, AclAdd (replicate 6 1)), (0, AclAdd (replicate 6 2)), (1, AclAdd (replicate 6 1)), (1, AclClear),
     (1, AclMode 1), (1, AclAdd (replicate 6 2)), (2, AclClear)]"

theorem rtw_access_ctrl_policy_witness:
  "rtw_access_ctrl (run (on_period acl_step) [sample_acl, sample_acl] sample_acl_events) (replicate 6 1)
   \<and> \<not> rtw_access_ctrl (run (on_period acl_step) [sample_acl, sample_acl] sample_acl_events) (replicate 6 2)
   \<and> \<not> rtw_access_ctrl (run (on_period acl_step) [sample_acl, sample_acl] sample_acl_events) (replicate 6 3)"
proof -
  have i: "\<forall>p\<in>set [sample_acl, sample_acl]. acl_inv p" using sample_acl_inv by simp
  have "policy_of sample_acl = (RTW_ACL_MODE_DISABLED, {})" by (simp add: policy_of_def sample_acl_def acl_elems_def)
  then show ?thesis
    unfolding rtw_access_ctrl_policy [OF i] by (simp add: sample_acl_events_def acl_mode_defs NUM_ACL_def)
qed

text \<open>
  An addition is refused only when the list holds 16 other addresses; removing a listed address
  always makes room for another, and adding then removing an address leaves the set as it was.
\<close>

theorem rtw_acl_add_sta_full:
  assumes "acl_inv p"
  shows "(fst (rtw_acl_add_sta p a) = 0 \<longleftrightarrow> a \<in> acl_elems p \<or> card (acl_elems p) < NUM_ACL)
    \<and> (b \<in> acl_elems p \<and> b \<noteq> replicate 6 0xFF \<longrightarrow> fst (rtw_acl_add_sta (rtw_acl_remove_sta p b) a) = 0)
    \<and> (a \<notin> acl_elems p \<and> card (acl_elems p) < NUM_ACL \<and> a \<noteq> replicate 6 0xFF \<longrightarrow>
         acl_elems (rtw_acl_remove_sta (snd (rtw_acl_add_sta p a)) a) = acl_elems p)"
proof (intro conjI impI)
  show "fst (rtw_acl_add_sta p a) = 0 \<longleftrightarrow> a \<in> acl_elems p \<or> card (acl_elems p) < NUM_ACL"
  proof (cases "a \<in> acl_elems p \<or> card (acl_elems p) < NUM_ACL")
    case True
    then show ?thesis using acl.add_ok [OF assms True] by simp
  next
    case False
    then show ?thesis using acl.add_full [OF assms, of a] acl.bound [OF assms] by simp
  qed
next
  assume "b \<in> acl_elems p \<and> b \<noteq> replicate 6 0xFF"
  then show "fst (rtw_acl_add_sta (rtw_acl_remove_sta p b) a) = 0"
    using acl.add_after_remove [OF assms] by blast
next
  assume "a \<notin> acl_elems p \<and> card (acl_elems p) < NUM_ACL \<and> a \<noteq> replicate 6 0xFF"
  then show "acl_elems (rtw_acl_remove_sta (snd (rtw_acl_add_sta p a)) a) = acl_elems p"
    using acl.remove_after_add [OF assms] by blast
qed

theorem rtw_acl_add_sta_full_witness: "fst (rtw_acl_add_sta sample_acl (replicate 6 3)) = 0"
  using rtw_acl_add_sta_full [OF sample_acl_inv, of "replicate 6 3"] by (simp add: sample_acl_def acl_elems_def NUM_ACL_def)

end
