(* ===== verification/Sta_Mgt.thy ===== *)
theory Sta_Mgt
  imports Recv_Reorder Macid Mac_Acl Xmit_Queue
begin

unbundle bit_operations_syntax

text \<open>
  The station table of \<^verbatim>\<open>core/rtw_sta_mgt.c\<close>. The pool \<^verbatim>\<open>pstainfo_buf\<close> of 32 \<^verbatim>\<open>struct sta_info\<close> is
  the list \<open>pstainfo_buf\<close>, a pointer to a station is its offset in the pool, and a list head
  (\<^verbatim>\<open>free_sta_queue\<close>, a bucket of \<^verbatim>\<open>sta_hash\<close>, \<^verbatim>\<open>auth_list\<close>) is the list of the offsets linked in it.
  Allocation and removal of a station also act on the receive-frame pool, the transmit queues, the
  MAC ids and the CAM, so the operations work on the whole adapter. Calls into the operating system
  and the HAL that only notify (\<^verbatim>\<open>rtw_mi_update_iface_status\<close>, \<^verbatim>\<open>rtw_hal_set_odm_var\<close>,
  \<^verbatim>\<open>rtw_os_wake_queue_at_free_stainfo\<close>) are entries of the log \<open>ad_log\<close>. The lemmas show that the
  table implements a finite map from addresses to stations and that stations, like the frames they
  hold, are conserved.
\<close>

section \<open>Data\<close>

definition NUM_STA :: nat where
  "NUM_STA = 32"

definition WIFI_ASOC_STATE :: u32 where "WIFI_ASOC_STATE = 1"
definition WIFI_AP_STATE :: u32 where "WIFI_AP_STATE = 0x10"

record session_tracker =
  st_local_naddr :: u32
  st_local_port :: u16
  st_remote_naddr :: u32
  st_remote_port :: u16

text \<open>A match rule takes local address, local port, remote address, remote port.\<close>

type_synonym st_match_rule = "bytes \<Rightarrow> bytes \<Rightarrow> bytes \<Rightarrow> bytes \<Rightarrow> bool"

record st_register =
  s_proto :: u8
  st_rule :: "st_match_rule option"

record st_ctl_t =
  st_reg :: "st_register list"
  tracker_q :: "session_tracker list"

record sta_info =
  si_mac_addr :: bytes
  si_aid :: u16
  si_mac_id :: u8
  si_state :: u32
  si_keytrack :: int
  si_recvreorder_ctrl :: "recv_reorder_ctrl list"
  si_defrag_q :: "recv_frame list"
  si_tid_rxseq :: "u16 list"
  si_bmc_tid_rxseq :: "u16 list"
  si_rx_iv :: "bytes list"
  si_last_tid :: u8
  si_nonqos_rxseq :: u16
  si_nonqos_bmc_rxseq :: u16
  si_duplicate_cnt :: u32
  si_RxMgmtFrameSeqNum :: u16
  si_ieee8021x_blocked :: bool
  si_tkiprxmickey :: bytes
  si_UncstKey :: bytes
  si_bpairwise_key_installed :: bool
  si_rssi :: int
  si_tx_queue :: "xmit_frame list"
  si_tx_q_enable :: bool
  si_sleep_q :: "xmit_frame list"
  si_sleepq_len :: u32
  si_expire_to :: u32
  si_sleepq_ac_len :: u32
  si_qos_info :: u8
  si_max_sp_len :: u8
  si_uapsd :: "u8 \<times> u8 \<times> u8 \<times> u8"
  si_has_legacy_ac :: u8
  si_st_ctl :: st_ctl_t
  si_flags :: u32
  si_dot118021XPrivacy :: u32
  si_qos_option :: bool
  si_dot11txpn :: u64
  si_tkiptxmickey :: bytes
  si_txseq_tid :: "u16 list"
  si_BA_starting_seqctrl :: "u16 list"

record sta_priv =
  pstainfo_buf :: "sta_info list"
  free_sta_queue :: "nat list"
  sta_hash :: "nat list list"
  asoc_sta_count :: int
  auth_list :: "nat list"
  auth_list_cnt :: u8
  max_aid :: u16
  rr_aid :: bool
  started_aid :: u16
  max_num_sta :: u16
  sta_aid :: "nat option list"
  sta_dz_bitmap :: bytes
  tim_bitmap :: bytes
  acl_list :: "wlan_acl_pool list"
  sp_expire_to :: u32

datatype ad_note = IfaceStatus | OdmStaInfo nat bool | WakeQueue "int list"
  | UpdateBeaconTim | ChkBmcSleepqCmd | IssueNulldata bytes | IssueQosNulldata bytes u16 | IssueDeauth bytes
  | IssueSaQuery bytes

record adapter =
  ad_mac :: bytes
  ad_mlme_sta_or_null :: bool
  ad_hw_ap :: bool
  ad_mlme_ap :: bool
  ad_hiq_filter :: u8
  ad_stapriv :: sta_priv
  ad_recvpriv :: recv_priv
  ad_xmitpriv :: xmit_priv
  ad_macid :: macid_ctl_t
  ad_cam :: cam_ctl_t
  ad_log :: "ad_note list"

text \<open>\<^verbatim>\<open>_rtw_init_stainfo\<close>: a zeroed \<^verbatim>\<open>struct sta_info\<close>.\<close>

definition zero_reorder_ctrl :: recv_reorder_ctrl where
  "zero_reorder_ctrl = \<lparr>rc_tid = 0, rc_enable = False, indicate_seq = 0, wend_b = 0, wsize_b = 0, ampdu_size = 0,
     pending_recvframe_queue = [], reordering_ctrl_timer = False, bReorderWaiting = False, rec_abba_rsp_ack = False\<rparr>"

definition zero_st_ctl :: st_ctl_t where
  "zero_st_ctl = \<lparr>st_reg = [\<lparr>s_proto = 0, st_rule = None\<rparr>], tracker_q = []\<rparr>"

definition zero_stainfo :: sta_info where
  "zero_stainfo = \<lparr>si_mac_addr = replicate 6 0, si_aid = 0, si_mac_id = 0, si_state = 0, si_keytrack = 0,
     si_recvreorder_ctrl = replicate 16 zero_reorder_ctrl, si_defrag_q = [], si_tid_rxseq = replicate 16 0,
     si_bmc_tid_rxseq = replicate 16 0, si_rx_iv = replicate 16 (replicate 8 0), si_last_tid = 0,
     si_nonqos_rxseq = 0, si_nonqos_bmc_rxseq = 0, si_duplicate_cnt = 0, si_RxMgmtFrameSeqNum = 0,
     si_ieee8021x_blocked = False, si_tkiprxmickey = replicate 32 0, si_UncstKey = replicate 32 0, si_bpairwise_key_installed = False, si_rssi = 0,
     si_tx_queue = [], si_tx_q_enable = False, si_sleep_q = [], si_sleepq_len = 0, si_expire_to = 0,
     si_sleepq_ac_len = 0, si_qos_info = 0, si_max_sp_len = 0, si_uapsd = (0, 0, 0, 0), si_has_legacy_ac = 0,
     si_st_ctl = zero_st_ctl, si_flags = 0, si_dot118021XPrivacy = 0, si_qos_option = False, si_dot11txpn = 0,
     si_tkiptxmickey = replicate 32 0, si_txseq_tid = replicate 16 0, si_BA_starting_seqctrl = replicate 16 0\<rparr>"

section \<open>Session trackers\<close>

definition rtw_st_ctl_init :: "st_ctl_t \<Rightarrow> st_ctl_t" where
  "rtw_st_ctl_init st_ctl = zero_st_ctl"

definition rtw_st_ctl_clear_tracker_q :: "st_ctl_t \<Rightarrow> st_ctl_t" where
  "rtw_st_ctl_clear_tracker_q st_ctl = st_ctl\<lparr>tracker_q := []\<rparr>"

definition rtw_st_ctl_register :: "st_ctl_t \<Rightarrow> u8 \<Rightarrow> st_register \<Rightarrow> st_ctl_t" where
  "rtw_st_ctl_register st_ctl st_reg_id r =
     (if unat st_reg_id \<ge> 1 then st_ctl else st_ctl\<lparr>st_reg := (st_reg st_ctl)[unat st_reg_id := r]\<rparr>)"

definition rtw_st_ctl_unregister :: "st_ctl_t \<Rightarrow> u8 \<Rightarrow> st_ctl_t" where
  "rtw_st_ctl_unregister st_ctl st_reg_id =
     (if unat st_reg_id \<ge> 1 then st_ctl
      else (let st_ctl = st_ctl\<lparr>st_reg := (st_reg st_ctl)[unat st_reg_id := \<lparr>s_proto = 0, st_rule = None\<rparr>]\<rparr> in
            if list_all (\<lambda>r. s_proto r = 0) (st_reg st_ctl) then rtw_st_ctl_clear_tracker_q st_ctl else st_ctl))"

definition rtw_st_ctl_chk_reg_s_proto :: "st_ctl_t \<Rightarrow> u8 \<Rightarrow> bool" where
  "rtw_st_ctl_chk_reg_s_proto st_ctl p = list_ex (\<lambda>r. s_proto r = p) (st_reg st_ctl)"

definition rtw_st_ctl_chk_reg_rule :: "st_ctl_t \<Rightarrow> bytes \<Rightarrow> bytes \<Rightarrow> bytes \<Rightarrow> bytes \<Rightarrow> bool" where
  "rtw_st_ctl_chk_reg_rule st_ctl la lp ra rp =
     list_ex (\<lambda>r. case st_rule r of None \<Rightarrow> False | Some f \<Rightarrow> f la lp ra rp) (st_reg st_ctl)"

section \<open>Lookup\<close>

definition wifi_mac_hash :: "bytes \<Rightarrow> u32" where
  "wifi_mac_hash mac =
     (let x = ucast (mac ! 0);
          x = push_bit 2 x XOR ucast (mac ! 1);
          x = push_bit 2 x XOR ucast (mac ! 2);
          x = push_bit 2 x XOR ucast (mac ! 3);
          x = push_bit 2 x XOR ucast (mac ! 4);
          x = push_bit 2 x XOR ucast (mac ! 5);
          x = x XOR drop_bit 8 x
      in x AND 31)"

definition rtw_get_stainfo :: "sta_priv \<Rightarrow> bytes \<Rightarrow> nat option" where
  "rtw_get_stainfo sp hwaddr =
     (let addr = (if IS_MCAST hwaddr then bc_addr else hwaddr);
          index = unat (wifi_mac_hash addr)
      in find (\<lambda>i. si_mac_addr (pstainfo_buf sp ! i) = addr) (sta_hash sp ! index))"

definition rtw_get_bcmc_stainfo :: "sta_priv \<Rightarrow> nat option" where
  "rtw_get_bcmc_stainfo sp = rtw_get_stainfo sp bc_addr"

section \<open>Allocation\<close>

definition init_recvreorder_ctrl :: "nat \<Rightarrow> recv_reorder_ctrl" where
  "init_recvreorder_ctrl i = zero_reorder_ctrl\<lparr>rc_tid := of_nat i, rc_enable := False, indicate_seq := 0xFFFF,
     wend_b := 0xFFFF, wsize_b := 64, ampdu_size := 0xFF, pending_recvframe_queue := [],
     reordering_ctrl_timer := False, rec_abba_rsp_ack := False\<rparr>"

text \<open>The station as \<^verbatim>\<open>rtw_alloc_stainfo\<close> fills it, but for its MAC id.\<close>

definition init_stainfo :: "bytes \<Rightarrow> sta_info" where
  "init_stainfo hwaddr = zero_stainfo\<lparr>si_mac_addr := take 6 hwaddr, si_tid_rxseq := replicate 16 0xFFFF,
     si_bmc_tid_rxseq := replicate 16 0xFFFF, si_rx_iv := replicate 16 (replicate 8 0),
     si_nonqos_bmc_rxseq := 0xFFFF, si_nonqos_rxseq := 0xFFFF,
     si_recvreorder_ctrl := map init_recvreorder_ctrl [0..<16], si_keytrack := 0, si_rssi := -1,
     si_RxMgmtFrameSeqNum := 0xFFFF, si_duplicate_cnt := 0, si_tx_q_enable := False, si_tx_queue := []\<rparr>"

definition rtw_alloc_stainfo :: "adapter \<Rightarrow> bytes \<Rightarrow> nat option \<times> adapter" where
  "rtw_alloc_stainfo ad hwaddr =
     (let sp = ad_stapriv ad in
      case free_sta_queue sp of
        [] \<Rightarrow> (None, ad)
      | i # q \<Rightarrow>
         (let index = unat (wifi_mac_hash hwaddr);
              sp = sp\<lparr>free_sta_queue := q\<rparr> in
          if index \<ge> NUM_STA
          then (None, ad\<lparr>ad_stapriv := sp\<lparr>pstainfo_buf := (pstainfo_buf sp)[i := zero_stainfo\<lparr>si_mac_addr := take 6 hwaddr\<rparr>]\<rparr>\<rparr>)
          else
           (let (mac_id, m, c) = rtw_alloc_macid (ad_mac ad) (ad_mlme_sta_or_null ad) i (take 6 hwaddr) (ad_macid ad) (ad_cam ad);
                sp = sp\<lparr>sta_hash := (sta_hash sp)[index := sta_hash sp ! index @ [i]],
                        asoc_sta_count := asoc_sta_count sp + 1,
                        pstainfo_buf := (pstainfo_buf sp)[i := (init_stainfo hwaddr)\<lparr>si_mac_id := mac_id\<rparr>]\<rparr>
            in (Some i, ad\<lparr>ad_stapriv := sp, ad_macid := m, ad_cam := c, ad_log := ad_log ad @ [IfaceStatus]\<rparr>))))"

definition rtw_init_bcmc_stainfo :: "adapter \<Rightarrow> ret \<times> adapter" where
  "rtw_init_bcmc_stainfo ad = (RET_SUCCESS, snd (rtw_alloc_stainfo ad bc_addr))"

section \<open>Removal\<close>

text \<open>The loop over the 16 reorder control blocks in \<^verbatim>\<open>rtw_free_stainfo\<close>.\<close>

definition clear_reorder_ctrl :: "recv_reorder_ctrl \<Rightarrow> recv_reorder_ctrl" where
  "clear_reorder_ctrl rc = rc\<lparr>rec_abba_rsp_ack := False, reordering_ctrl_timer := False, pending_recvframe_queue := []\<rparr>"

fun free_reorder_queues :: "recv_reorder_ctrl list \<Rightarrow> recv_priv \<Rightarrow> recv_priv" where
  "free_reorder_queues [] rp = rp"
| "free_reorder_queues (rc # rcs) rp = free_reorder_queues rcs (rtw_free_recvframe_queue (pending_recvframe_queue rc) rp)"

definition free_sta_aid :: "nat \<Rightarrow> u16 \<Rightarrow> sta_priv \<Rightarrow> u16 \<times> sta_priv" where
  "free_sta_aid i aid sp =
     (let sp = sp\<lparr>sta_dz_bitmap := rtw_tim_map_clear (sta_dz_bitmap sp) (ucast aid),
                  tim_bitmap := rtw_tim_map_clear (tim_bitmap sp) (ucast aid)\<rparr> in
      if aid > 0 \<and> sta_aid sp ! (unat aid - 1) = Some i
      then (0, sp\<lparr>sta_aid := (sta_aid sp)[unat aid - 1 := None]\<rparr>) else (aid, sp))"

text \<open>The transmit part: the station's own queues, then its four scheduler queues.\<close>

definition free_sta_xmit_queues :: "nat \<Rightarrow> sta_info \<Rightarrow> xmit_priv \<Rightarrow> int list \<times> xmit_priv" where
  "free_sta_xmit_queues i s xp =
     (let xp = rtw_free_xmitframe_queue (si_tx_queue s) xp;
          xp = rtw_free_xmitframe_queue (si_sleep_q s) xp;
          pending_qcnt = map (\<lambda>ac. qcnt (servq xp i ac)) [0, 1, 2, 3]
      in (pending_qcnt, free_sta_xmit i xp))"

text \<open>The receive part: the reorder queues of the 16 traffic ids, then the defragmentation queue.\<close>

definition free_sta_recv_queues :: "sta_info \<Rightarrow> recv_priv \<Rightarrow> recv_priv" where
  "free_sta_recv_queues s rp =
     rtw_free_recvframe_queue (si_defrag_q s) (free_reorder_queues (si_recvreorder_ctrl s) rp)"

text \<open>The authentication list and, in access-point mode, the association id and its bitmaps.\<close>

definition free_sta_tables :: "bool \<Rightarrow> nat \<Rightarrow> u16 \<Rightarrow> sta_priv \<Rightarrow> u16 \<times> sta_priv" where
  "free_sta_tables hw_ap i aid sp =
     (let sp = (if i \<in> set (auth_list sp)
                then sp\<lparr>auth_list := removeAll i (auth_list sp), auth_list_cnt := auth_list_cnt sp - 1\<rparr> else sp)
      in if hw_ap then free_sta_aid i aid sp else (aid, sp))"

text \<open>The fields \<^verbatim>\<open>rtw_free_stainfo\<close> resets in the station itself.\<close>

definition freed_stainfo :: "sta_info \<Rightarrow> u8 \<Rightarrow> u16 \<Rightarrow> sta_info" where
  "freed_stainfo s mac_id aid =
     s\<lparr>si_state := si_state s AND NOT WIFI_ASOC_STATE,
       si_tx_queue := [], si_sleep_q := [], si_sleepq_len := 0, si_mac_id := mac_id, si_aid := aid,
       si_recvreorder_ctrl := map clear_reorder_ctrl (si_recvreorder_ctrl s), si_defrag_q := [],
       si_expire_to := 0, si_sleepq_ac_len := 0, si_qos_info := 0, si_max_sp_len := 0,
       si_uapsd := (0, 0, 0, 0), si_has_legacy_ac := 0,
       si_st_ctl := rtw_st_ctl_clear_tracker_q (si_st_ctl s)\<rparr>"

definition free_sta_log :: "nat \<Rightarrow> sta_info \<Rightarrow> int list \<Rightarrow> ad_note list" where
  "free_sta_log i s pending_qcnt =
     [IfaceStatus, WakeQueue pending_qcnt]
     @ (if \<not> (si_state s AND WIFI_AP_STATE \<noteq> 0 \<or> si_mac_addr s = bc_addr) then [OdmStaInfo i False] else [])"

text \<open>
  \<^verbatim>\<open>rtw_free_stainfo\<close> on a station; \<open>None\<close> is the null pointer. \<^verbatim>\<open>CONFIG_RTW_PRE_LINK_STA\<close> is off, so
  \<^verbatim>\<open>is_pre_link_sta\<close> is false. \<^verbatim>\<open>rtw_list_delete\<close> on a hash link takes the station out of the bucket
  it is in.
\<close>

definition rtw_free_stainfo :: "adapter \<Rightarrow> nat option \<Rightarrow> adapter" where
  "rtw_free_stainfo ad psta =
     (case psta of None \<Rightarrow> ad
      | Some i \<Rightarrow>
         (let sp = ad_stapriv ad; s = pstainfo_buf sp ! i;
              sp = sp\<lparr>sta_hash := map (removeAll i) (sta_hash sp), asoc_sta_count := asoc_sta_count sp - 1\<rparr>;
              (pending_qcnt, xp) = free_sta_xmit_queues i s (ad_xmitpriv ad);
              rp = free_sta_recv_queues s (ad_recvpriv ad);
              (mac_id, m, c) = rtw_release_macid (ad_mac ad) (si_mac_addr s) (si_mac_id s) (ad_macid ad) (ad_cam ad);
              (aid, sp) = free_sta_tables (ad_hw_ap ad) i (si_aid s) sp;
              sp = sp\<lparr>pstainfo_buf := (pstainfo_buf sp)[i := freed_stainfo s mac_id aid],
                      free_sta_queue := free_sta_queue sp @ [i]\<rparr>
          in ad\<lparr>ad_stapriv := sp, ad_recvpriv := rp, ad_xmitpriv := xp, ad_macid := m, ad_cam := c,
                ad_log := ad_log ad @ free_sta_log i s pending_qcnt\<rparr>))"

text \<open>
  \<^verbatim>\<open>rtw_free_all_stainfo\<close>: every station but the broadcast one is unlinked from its bucket and then
  freed, in bucket order.
\<close>

definition free_all_list :: "sta_priv \<Rightarrow> nat list" where
  "free_all_list sp = filter (\<lambda>i. rtw_get_bcmc_stainfo sp \<noteq> Some i) (concat (sta_hash sp))"

definition unlink_all :: "sta_priv \<Rightarrow> sta_priv" where
  "unlink_all sp = sp\<lparr>sta_hash := map (filter (\<lambda>i. rtw_get_bcmc_stainfo sp = Some i)) (sta_hash sp)\<rparr>"

definition rtw_free_all_stainfo :: "adapter \<Rightarrow> adapter" where
  "rtw_free_all_stainfo ad =
     (let sp = ad_stapriv ad in
      if asoc_sta_count sp = 1 then ad
      else foldl (\<lambda>ad i. rtw_free_stainfo ad (Some i)) (ad\<lparr>ad_stapriv := unlink_all sp\<rparr>) (free_all_list sp))"

section \<open>Association ids\<close>

text \<open>
  The search loop of \<^verbatim>\<open>rtw_aid_alloc\<close>: from \<open>i\<close> with \<open>used\<close> ids seen in use, it stops with the id
  found free, or with 0 when \<^verbatim>\<open>max_aid\<close> ids were tried or \<^verbatim>\<open>max_num_sta\<close> are in use. \<^verbatim>\<open>started_aid\<close> is
  initialised to 1 and never 0, so the subtraction stays in the naturals.
\<close>

function aid_loop :: "sta_priv \<Rightarrow> nat \<Rightarrow> nat \<Rightarrow> u16" where
  "aid_loop sp i used =
     (if i \<ge> unat (max_aid sp) then 0
      else
       (let aid = (i + unat (started_aid sp) - 1) mod unat (max_aid sp) + 1 in
        if sta_aid sp ! (aid - 1) = None
        then (if used \<ge> unat (max_num_sta sp) then 0 else of_nat aid)
        else if used + 1 \<ge> unat (max_num_sta sp) then 0
        else aid_loop sp (i + 1) (used + 1)))"
  by pat_completeness auto
termination
  by (relation "measure (\<lambda>(sp, i, used). unat (max_aid sp) - i)") auto

declare aid_loop.simps [simp del]

definition rtw_aid_alloc :: "nat \<Rightarrow> sta_priv \<Rightarrow> u16 \<times> sta_priv" where
  "rtw_aid_alloc s sp =
     (let aid = aid_loop sp 0 0;
          sp = sp\<lparr>pstainfo_buf := (pstainfo_buf sp)[s := (pstainfo_buf sp ! s)\<lparr>si_aid := aid\<rparr>]\<rparr> in
      if aid \<noteq> 0 then
        (aid, let sp = sp\<lparr>sta_aid := (sta_aid sp)[unat aid - 1 := Some s]\<rparr> in
              if rr_aid sp then sp\<lparr>started_aid := aid mod max_aid sp + 1\<rparr> else sp)
      else (aid, sp))"

section \<open>The interface: a finite map from addresses to stations\<close>

text \<open>
  What the rest of the driver relies on: lookup, allocation and removal behave like a finite map.
  \<open>key\<close> says which addresses are station addresses; a group address is looked up as the broadcast
  address, which \<open>canon\<close> expresses.
\<close>

locale sta_table =
  fixes lookup :: "'s \<Rightarrow> bytes \<Rightarrow> nat option"
    and alloc :: "'s \<Rightarrow> bytes \<Rightarrow> nat option \<times> 's"
    and free :: "'s \<Rightarrow> nat \<Rightarrow> 's"
    and inv :: "'s \<Rightarrow> bool"
    and key :: "bytes \<Rightarrow> bool"
    and canon :: "bytes \<Rightarrow> bytes"
  assumes canon_key: "key a \<Longrightarrow> canon a = a"
    and lookup_canon: "lookup s a = lookup s (canon a)"
    and alloc_inv: "inv s \<Longrightarrow> key a \<Longrightarrow> lookup s a = None \<Longrightarrow> inv (snd (alloc s a))"
    and alloc_Some: "inv s \<Longrightarrow> key a \<Longrightarrow> lookup s a = None \<Longrightarrow> key b \<Longrightarrow> alloc s a = (Some i, s') \<Longrightarrow>
        lookup s' b = (if b = a then Some i else lookup s b)"
    and alloc_fresh: "inv s \<Longrightarrow> alloc s a = (Some i, s') \<Longrightarrow> lookup s b \<noteq> Some i"
    and alloc_None: "alloc s a = (None, s') \<Longrightarrow> s' = s"
    and free_inv: "inv s \<Longrightarrow> key a \<Longrightarrow> lookup s a = Some i \<Longrightarrow> inv (free s i)"
    and free_lookup: "inv s \<Longrightarrow> key a \<Longrightarrow> lookup s a = Some i \<Longrightarrow> key b \<Longrightarrow>
        lookup (free s i) b = (if b = a then None else lookup s b)"
    and free_alloc: "inv s \<Longrightarrow> key a \<Longrightarrow> lookup s a = Some i \<Longrightarrow> \<exists>j. fst (alloc (free s i) b) = Some j"
begin

lemma lookup_inj:
  assumes "inv s" "key a" "key b" "lookup s a = Some i" "lookup s b = Some i"
  shows "a = b"
proof (rule ccontr)
  assume "a \<noteq> b"
  then have "lookup (free s i) b = Some i" using free_lookup [OF assms(1,2,4,3)] assms(5) by simp
  moreover have "lookup (free s i) b = None" using free_lookup [OF assms(1,3,5,3)] by simp
  ultimately show False by simp
qed

lemma alloc_then_free:
  assumes "inv s" "key a" "lookup s a = None" "alloc s a = (Some i, s')" "key b"
  shows "lookup (free s' i) b = lookup s b"
proof -
  have i: "inv s'" using alloc_inv [OF assms(1-3)] assms(4) by simp
  have "lookup s' a = Some i" using alloc_Some [OF assms(1-3,2,4)] by simp
  from free_lookup [OF i assms(2) this assms(5)] show ?thesis
    using alloc_Some [OF assms(1-3,5,4)] assms(3) by auto
qed

end

section \<open>The table implements the interface\<close>

definition sta_live :: "sta_priv \<Rightarrow> nat list" where
  "sta_live sp = concat (sta_hash sp)"

abbreviation sta_mac :: "sta_priv \<Rightarrow> nat \<Rightarrow> bytes" where
  "sta_mac sp i \<equiv> si_mac_addr (pstainfo_buf sp ! i)"

definition sta_key :: "bytes \<Rightarrow> bool" where
  "sta_key a \<longleftrightarrow> length a = 6 \<and> (IS_MCAST a \<longrightarrow> a = bc_addr)"

definition sta_canon :: "bytes \<Rightarrow> bytes" where
  "sta_canon a = (if IS_MCAST a then bc_addr else a)"

definition sta_inv :: "sta_priv \<Rightarrow> bool" where
  "sta_inv sp \<longleftrightarrow> length (pstainfo_buf sp) = NUM_STA \<and> length (sta_hash sp) = NUM_STA
     \<and> distinct (free_sta_queue sp @ sta_live sp) \<and> set (free_sta_queue sp @ sta_live sp) = {..<NUM_STA}
     \<and> (\<forall>b < NUM_STA. \<forall>i\<in>set (sta_hash sp ! b). unat (wifi_mac_hash (sta_mac sp i)) = b)
     \<and> inj_on (sta_mac sp) (set (sta_live sp)) \<and> (\<forall>i\<in>set (sta_live sp). sta_key (sta_mac sp i))
     \<and> asoc_sta_count sp = int (length (sta_live sp))"

lemma bc_addr_mcast [simp]: "IS_MCAST bc_addr" "length bc_addr = 6" "sta_key bc_addr"
  by (simp_all add: IS_MCAST_def bc_addr_def sta_key_def numeral_eq_Suc)

lemma wifi_mac_hash_bound [simp]: "unat (wifi_mac_hash mac) < NUM_STA"
proof -
  have lt: "unat (x AND 31) < 32" for x :: u32
  proof -
    have "unat (x AND 31) \<le> unat (31 :: u32)" by (simp only: word_le_nat_alt [symmetric] word_and_le1)
    then show ?thesis by simp
  qed
  show ?thesis by (simp only: wifi_mac_hash_def Let_def NUM_STA_def lt)
qed

lemma sta_live_bucket:
  assumes "sta_inv sp" "i \<in> set (sta_live sp)"
  shows "i \<in> set (sta_hash sp ! unat (wifi_mac_hash (sta_mac sp i)))"
proof -
  from assms(2) obtain l where "l \<in> set (sta_hash sp)" "i \<in> set l" by (auto simp: sta_live_def)
  then obtain b where b: "b < length (sta_hash sp)" "i \<in> set (sta_hash sp ! b)" by (metis in_set_conv_nth)
  then show ?thesis using assms(1) by (auto simp: sta_inv_def)
qed

lemma sta_bucket_live: "b < length (sta_hash sp) \<Longrightarrow> i \<in> set (sta_hash sp ! b) \<Longrightarrow> i \<in> set (sta_live sp)"
  by (auto simp: sta_live_def)

text \<open>The hash lookup finds exactly the live station with the address.\<close>

lemma get_stainfo_iff:
  assumes "sta_inv sp"
  shows "rtw_get_stainfo sp a = Some i \<longleftrightarrow> i \<in> set (sta_live sp) \<and> sta_mac sp i = sta_canon a"
proof -
  let ?a = "sta_canon a" and ?b = "sta_hash sp ! unat (wifi_mac_hash (sta_canon a))"
  have eq: "rtw_get_stainfo sp a = find (\<lambda>i. sta_mac sp i = ?a) ?b"
    by (simp add: rtw_get_stainfo_def sta_canon_def Let_def)
  have len: "unat (wifi_mac_hash ?a) < length (sta_hash sp)" using assms by (simp add: sta_inv_def)
  have bucket: "j \<in> set ?b" if "j \<in> set (sta_live sp)" "sta_mac sp j = ?a" for j
    using sta_live_bucket [OF assms that(1)] that(2) by simp
  have inj: "inj_on (sta_mac sp) (set (sta_live sp))" using assms by (simp add: sta_inv_def)
  show ?thesis
  proof
    assume "rtw_get_stainfo sp a = Some i"
    then have "i \<in> set ?b \<and> sta_mac sp i = ?a" by (auto simp: eq find_Some_iff)
    then show "i \<in> set (sta_live sp) \<and> sta_mac sp i = ?a" using sta_bucket_live [OF len] by blast
  next
    assume i: "i \<in> set (sta_live sp) \<and> sta_mac sp i = ?a"
    then obtain j where j: "find (\<lambda>i. sta_mac sp i = ?a) ?b = Some j"
      using bucket by (cases "find (\<lambda>i. sta_mac sp i = ?a) ?b") (auto simp: find_None_iff)
    then have "j \<in> set ?b \<and> sta_mac sp j = ?a" by (auto simp: find_Some_iff)
    then have "j = i" using i inj sta_bucket_live [OF len] by (metis inj_on_eq_iff)
    then show "rtw_get_stainfo sp a = Some i" using eq j by simp
  qed
qed

lemma get_stainfo_None:
  assumes "sta_inv sp"
  shows "rtw_get_stainfo sp a = None \<longleftrightarrow> (\<forall>i\<in>set (sta_live sp). sta_mac sp i \<noteq> sta_canon a)"
  using get_stainfo_iff [OF assms, of a] by (metis not_None_eq)

lemma sta_canon_key [simp]: "sta_key a \<Longrightarrow> sta_canon a = a"
  by (auto simp: sta_key_def sta_canon_def)

lemma mset_concat_bucket:
  "b < length xss \<Longrightarrow> mset (concat (xss[b := xss ! b @ [i]])) = add_mset i (mset (concat xss))"
proof (induction xss arbitrary: b)
  case (Cons xs xss)
  then show ?case by (cases b) auto
qed simp

lemma concat_removeAll: "concat (map (removeAll i) xss) = removeAll i (concat xss)"
  by (induction xss) auto

text \<open>The station table after an allocation and after a removal.\<close>

definition sta_link :: "sta_priv \<Rightarrow> nat \<Rightarrow> sta_info \<Rightarrow> sta_priv \<Rightarrow> bool" where
  "sta_link sp i s sp' \<longleftrightarrow> free_sta_queue sp = i # free_sta_queue sp'
     \<and> sta_hash sp' = (let b = unat (wifi_mac_hash (si_mac_addr s)) in (sta_hash sp)[b := sta_hash sp ! b @ [i]])
     \<and> pstainfo_buf sp' = (pstainfo_buf sp)[i := s] \<and> asoc_sta_count sp' = asoc_sta_count sp + 1"

definition sta_unlink :: "sta_priv \<Rightarrow> nat \<Rightarrow> sta_info \<Rightarrow> sta_priv \<Rightarrow> bool" where
  "sta_unlink sp i s sp' \<longleftrightarrow> free_sta_queue sp' = free_sta_queue sp @ [i]
     \<and> sta_hash sp' = map (removeAll i) (sta_hash sp)
     \<and> pstainfo_buf sp' = (pstainfo_buf sp)[i := s] \<and> asoc_sta_count sp' = asoc_sta_count sp - 1"

lemma sta_link_live:
  assumes inv: "sta_inv sp" and l: "sta_link sp i s sp'"
  shows "mset (sta_live sp') = add_mset i (mset (sta_live sp))" "i < NUM_STA" "i \<notin> set (sta_live sp)"
    "\<And>j. j \<in> set (sta_live sp) \<Longrightarrow> sta_mac sp' j = sta_mac sp j" "sta_mac sp' i = si_mac_addr s"
proof -
  show m: "mset (sta_live sp') = add_mset i (mset (sta_live sp))"
    using inv l by (simp add: sta_link_def sta_live_def Let_def sta_inv_def mset_concat_bucket)
  show i: "i < NUM_STA" "i \<notin> set (sta_live sp)"
    using inv l by (auto simp: sta_inv_def sta_link_def)
  show "sta_mac sp' j = sta_mac sp j" if "j \<in> set (sta_live sp)" for j
  proof -
    have "j \<noteq> i" using that i by auto
    then show ?thesis using l by (simp add: sta_link_def)
  qed
  show "sta_mac sp' i = si_mac_addr s" using inv i l by (simp add: sta_link_def sta_inv_def)
qed

lemma sta_link_inv:
  assumes inv: "sta_inv sp" and l: "sta_link sp i s sp'" and key: "sta_key (si_mac_addr s)"
    and new: "\<forall>j\<in>set (sta_live sp). sta_mac sp j \<noteq> si_mac_addr s"
  shows "sta_inv sp'"
proof -
  note lv = sta_link_live [OF inv l]
  let ?b = "unat (wifi_mac_hash (si_mac_addr s))"
  have set': "set (sta_live sp') = insert i (set (sta_live sp))" using lv(1) by (metis set_mset_mset set_mset_add_mset_insert)
  have "mset (free_sta_queue sp' @ sta_live sp') = mset (free_sta_queue sp @ sta_live sp)"
    using lv(1) l by (simp add: sta_link_def)
  then have all: "distinct (free_sta_queue sp' @ sta_live sp')" "set (free_sta_queue sp' @ sta_live sp') = {..<NUM_STA}"
    using inv by (metis mset_eq_imp_distinct_iff sta_inv_def, metis mset_eq_setD sta_inv_def)
  have len: "length (sta_live sp') = Suc (length (sta_live sp))" using lv(1) by (metis size_mset size_add_mset)
  have bucket: "\<forall>b < NUM_STA. \<forall>j\<in>set (sta_hash sp' ! b). unat (wifi_mac_hash (sta_mac sp' j)) = b"
  proof (intro allI impI ballI)
    fix b j assume b: "b < NUM_STA" and j: "j \<in> set (sta_hash sp' ! b)"
    show "unat (wifi_mac_hash (sta_mac sp' j)) = b"
    proof (cases "j = i \<and> b = ?b")
      case True
      then show ?thesis using lv(5) by simp
    next
      case False
      have "j \<in> set (sta_hash sp ! b)"
        using j False l inv b by (auto simp: sta_link_def Let_def sta_inv_def nth_list_update split: if_splits)
      moreover from this have "j \<in> set (sta_live sp)" using b inv by (auto simp: sta_inv_def intro: sta_bucket_live)
      ultimately show ?thesis using lv(4) inv b by (simp add: sta_inv_def)
    qed
  qed
  have "inj_on (sta_mac sp') (set (sta_live sp'))"
    using inv new lv(3-5) unfolding set' by (auto simp: sta_inv_def inj_on_def)
  moreover have "\<forall>j\<in>set (sta_live sp'). sta_key (sta_mac sp' j)"
    using inv key lv(4,5) unfolding set' by (auto simp: sta_inv_def)
  ultimately show ?thesis
    using inv all len bucket l by (simp add: sta_inv_def sta_link_def Let_def)
qed

lemma sta_link_lookup:
  assumes inv: "sta_inv sp" and l: "sta_link sp i s sp'" and inv': "sta_inv sp'"
  shows "rtw_get_stainfo sp' b = (if sta_canon b = si_mac_addr s then Some i else rtw_get_stainfo sp b)"
proof -
  note lv = sta_link_live [OF inv l]
  have set': "set (sta_live sp') = insert i (set (sta_live sp))" using lv(1) by (metis set_mset_mset set_mset_add_mset_insert)
  show ?thesis
  proof (rule option_eqI, cases "sta_canon b = si_mac_addr s")
    case True
    have "rtw_get_stainfo sp' b = Some i" using True lv(5) set' by (simp add: get_stainfo_iff [OF inv'])
    then show "rtw_get_stainfo sp' b = Some j \<longleftrightarrow>
        (if sta_canon b = si_mac_addr s then Some i else rtw_get_stainfo sp b) = Some j" for j
      using True by auto
  next
    case False
    then show "rtw_get_stainfo sp' b = Some j \<longleftrightarrow>
        (if sta_canon b = si_mac_addr s then Some i else rtw_get_stainfo sp b) = Some j" for j
      using lv(3-5) set' by (auto simp: get_stainfo_iff [OF inv'] get_stainfo_iff [OF inv])
  qed
qed

lemma sta_unlink_spec:
  assumes inv: "sta_inv sp" and u: "sta_unlink sp i s sp'" and i: "i \<in> set (sta_live sp)"
  shows "sta_inv sp'" and "sta_live sp' = removeAll i (sta_live sp)"
    and "rtw_get_stainfo sp' b = (if rtw_get_stainfo sp b = Some i then None else rtw_get_stainfo sp b)"
proof -
  show live: "sta_live sp' = removeAll i (sta_live sp)" using u by (simp add: sta_unlink_def sta_live_def concat_removeAll)
  have d: "distinct (sta_live sp)" "distinct (free_sta_queue sp @ sta_live sp)" "i < NUM_STA"
    using inv i by (auto simp: sta_inv_def)
  have mac: "sta_mac sp' j = sta_mac sp j" if "j \<noteq> i" for j using that u by (simp add: sta_unlink_def)
  have len: "length (removeAll i (sta_live sp)) = length (sta_live sp) - 1"
    using d(1) i by (metis distinct_remove1_removeAll length_remove1)
  have pos: "1 \<le> length (sta_live sp)" using i by (cases "sta_live sp") auto
  have all: "distinct (free_sta_queue sp' @ sta_live sp')" "set (free_sta_queue sp' @ sta_live sp') = {..<NUM_STA}"
    using inv i u d by (auto simp: live sta_unlink_def sta_inv_def distinct_removeAll)
  have bucket: "\<forall>b < NUM_STA. \<forall>j\<in>set (sta_hash sp' ! b). unat (wifi_mac_hash (sta_mac sp' j)) = b"
    using inv u mac by (auto simp: sta_unlink_def sta_inv_def)
  show inv': "sta_inv sp'"
  proof -
    have "inj_on (sta_mac sp') (set (sta_live sp'))" "\<forall>j\<in>set (sta_live sp'). sta_key (sta_mac sp' j)"
      using inv mac by (auto simp: live sta_inv_def inj_on_def)
    moreover have "asoc_sta_count sp' = int (length (sta_live sp'))"
      using inv u pos by (simp add: live len sta_unlink_def sta_inv_def of_nat_diff)
    ultimately show ?thesis using inv u all bucket by (simp add: sta_inv_def sta_unlink_def)
  qed
  show "rtw_get_stainfo sp' b = (if rtw_get_stainfo sp b = Some i then None else rtw_get_stainfo sp b)"
  proof (rule option_eqI)
    fix j
    have "rtw_get_stainfo sp' b = Some j \<longleftrightarrow> j \<noteq> i \<and> rtw_get_stainfo sp b = Some j"
      using mac by (auto simp: get_stainfo_iff [OF inv'] get_stainfo_iff [OF inv] live)
    then show "rtw_get_stainfo sp' b = Some j \<longleftrightarrow>
        (if rtw_get_stainfo sp b = Some i then None else rtw_get_stainfo sp b) = Some j" by auto
  qed
qed

lemma alloc_stainfo_cases:
  assumes "rtw_alloc_stainfo ad a = (r, ad')"
  obtains (none) "r = None" "ad' = ad" "free_sta_queue (ad_stapriv ad) = []"
  | (some) i mac_id m c where "r = Some i"
      "rtw_alloc_macid (ad_mac ad) (ad_mlme_sta_or_null ad) i (take 6 a) (ad_macid ad) (ad_cam ad) = (mac_id, m, c)"
      "wifi_mac_hash (take 6 a) = wifi_mac_hash a \<Longrightarrow>
         sta_link (ad_stapriv ad) i ((init_stainfo a)\<lparr>si_mac_id := mac_id\<rparr>) (ad_stapriv ad')"
      "ad_recvpriv ad' = ad_recvpriv ad" "ad_xmitpriv ad' = ad_xmitpriv ad" "ad_macid ad' = m" "ad_cam ad' = c"
      "pstainfo_buf (ad_stapriv ad') = (pstainfo_buf (ad_stapriv ad))[i := (init_stainfo a)\<lparr>si_mac_id := mac_id\<rparr>]"
proof (cases "free_sta_queue (ad_stapriv ad)")
  case Nil
  then show thesis using assms none by (simp add: rtw_alloc_stainfo_def)
next
  case (Cons i q)
  obtain mac_id m c where mac:
    "rtw_alloc_macid (ad_mac ad) (ad_mlme_sta_or_null ad) i (take 6 a) (ad_macid ad) (ad_cam ad) = (mac_id, m, c)"
    by (metis prod_cases3)
  show thesis
    using assms Cons mac wifi_mac_hash_bound [of a]
    by (intro some [of i mac_id m c]) (auto simp: rtw_alloc_stainfo_def sta_link_def init_stainfo_def Let_def)
qed

lemma free_sta_tables_keep:
  "sta_hash (snd (free_sta_tables ap i aid sp)) = sta_hash sp"
  "free_sta_queue (snd (free_sta_tables ap i aid sp)) = free_sta_queue sp"
  "pstainfo_buf (snd (free_sta_tables ap i aid sp)) = pstainfo_buf sp"
  "asoc_sta_count (snd (free_sta_tables ap i aid sp)) = asoc_sta_count sp"
  by (simp_all add: free_sta_tables_def free_sta_aid_def Let_def)

lemma free_stainfo_unlink: "\<exists>s. sta_unlink (ad_stapriv ad) i s (ad_stapriv (rtw_free_stainfo ad (Some i)))"
  by (simp add: rtw_free_stainfo_def sta_unlink_def Let_def case_prod_beta free_sta_tables_keep) blast

interpretation sta: sta_table "\<lambda>ad. rtw_get_stainfo (ad_stapriv ad)" rtw_alloc_stainfo
  "\<lambda>ad i. rtw_free_stainfo ad (Some i)" "\<lambda>ad. sta_inv (ad_stapriv ad)" sta_key sta_canon
proof
  show "sta_canon a = a" if "sta_key a" for a using that by simp
  show "rtw_get_stainfo (ad_stapriv ad) a = rtw_get_stainfo (ad_stapriv ad) (sta_canon a)" for ad :: adapter and a
    by (simp add: rtw_get_stainfo_def sta_canon_def)
  fix ad :: adapter and a assume inv: "sta_inv (ad_stapriv ad)"
  have linked: "sta_inv (ad_stapriv ad') \<and> rtw_get_stainfo (ad_stapriv ad') b = (if b = a then Some i else rtw_get_stainfo (ad_stapriv ad) b)"
    if "sta_key a" "rtw_get_stainfo (ad_stapriv ad) a = None" "rtw_alloc_stainfo ad a = (Some i, ad')" "sta_key b" for i ad' b
    using that(3)
  proof (cases rule: alloc_stainfo_cases)
    case (some j mac_id m c)
    let ?s = "(init_stainfo a)\<lparr>si_mac_id := mac_id\<rparr>"
    have t: "take 6 a = a" using that(1) by (simp add: sta_key_def)
    have mac: "si_mac_addr ?s = a" by (simp add: init_stainfo_def t)
    have l: "sta_link (ad_stapriv ad) i ?s (ad_stapriv ad')" using some(1,3) t by simp
    have inv': "sta_inv (ad_stapriv ad')"
      by (rule sta_link_inv [OF inv l]) (use that(1,2) mac get_stainfo_None [OF inv, of a] in auto)
    then show ?thesis using sta_link_lookup [OF inv l inv'] mac that(4) by simp
  qed simp
  show "sta_inv (ad_stapriv (snd (rtw_alloc_stainfo ad a)))"
    if "sta_key a" "rtw_get_stainfo (ad_stapriv ad) a = None"
  proof (cases "rtw_alloc_stainfo ad a")
    case (Pair r ad')
    then show ?thesis
    proof (cases r)
      case None
      then have "ad' = ad" using Pair by (auto elim: alloc_stainfo_cases)
      then show ?thesis using Pair inv by simp
    next
      case (Some i)
      then show ?thesis using linked [OF that, of i ad' a] Pair that(1) by simp
    qed
  qed
  show "rtw_get_stainfo (ad_stapriv ad') b = (if b = a then Some i else rtw_get_stainfo (ad_stapriv ad) b)"
    if "sta_key a" "rtw_get_stainfo (ad_stapriv ad) a = None" "sta_key b" "rtw_alloc_stainfo ad a = (Some i, ad')" for b i ad'
    using linked [OF that(1,2,4,3)] by simp
  show "rtw_get_stainfo (ad_stapriv ad) b \<noteq> Some i" if "rtw_alloc_stainfo ad a = (Some i, ad')" for b i ad'
  proof
    assume "rtw_get_stainfo (ad_stapriv ad) b = Some i"
    then have live: "i \<in> set (sta_live (ad_stapriv ad))" using inv by (simp add: get_stainfo_iff)
    have "i \<in> set (free_sta_queue (ad_stapriv ad))"
      using that by (auto simp: rtw_alloc_stainfo_def Let_def split: list.splits if_splits prod.splits)
    then show False using live inv by (auto simp: sta_inv_def)
  qed
  have free: "sta_inv (ad_stapriv (rtw_free_stainfo ad (Some i)))
      \<and> rtw_get_stainfo (ad_stapriv (rtw_free_stainfo ad (Some i))) b
        = (if rtw_get_stainfo (ad_stapriv ad) b = Some i then None else rtw_get_stainfo (ad_stapriv ad) b)"
    if "rtw_get_stainfo (ad_stapriv ad) a = Some i" for i b
  proof -
    obtain s where u: "sta_unlink (ad_stapriv ad) i s (ad_stapriv (rtw_free_stainfo ad (Some i)))"
      using free_stainfo_unlink by blast
    have live: "i \<in> set (sta_live (ad_stapriv ad))" using that inv by (simp add: get_stainfo_iff)
    show ?thesis using sta_unlink_spec(1,3) [OF inv u live] by simp
  qed
  show "sta_inv (ad_stapriv (rtw_free_stainfo ad (Some i)))"
    if "rtw_get_stainfo (ad_stapriv ad) a = Some i" for i using free [OF that] by simp
  show "rtw_get_stainfo (ad_stapriv (rtw_free_stainfo ad (Some i))) b = (if b = a then None else rtw_get_stainfo (ad_stapriv ad) b)"
    if "sta_key a" "rtw_get_stainfo (ad_stapriv ad) a = Some i" "sta_key b" for i b
  proof -
    have "rtw_get_stainfo (ad_stapriv ad) b = Some i \<longleftrightarrow> b = a"
      using that inv by (auto simp: get_stainfo_iff)
    then show ?thesis using free [OF that(2), of b] by auto
  qed
  show "\<exists>j. fst (rtw_alloc_stainfo (rtw_free_stainfo ad (Some i)) b) = Some j" for i b
  proof -
    obtain s where "sta_unlink (ad_stapriv ad) i s (ad_stapriv (rtw_free_stainfo ad (Some i)))"
      using free_stainfo_unlink by blast
    then have "free_sta_queue (ad_stapriv (rtw_free_stainfo ad (Some i))) \<noteq> []" by (simp add: sta_unlink_def)
    then show ?thesis
      using alloc_stainfo_cases [of "rtw_free_stainfo ad (Some i)" b "fst (rtw_alloc_stainfo (rtw_free_stainfo ad (Some i)) b)"]
      by (metis prod.collapse)
  qed
next
  fix ad a ad' assume "rtw_alloc_stainfo ad a = (None, ad')"
  then show "ad' = ad" by (auto elim: alloc_stainfo_cases)
qed

section \<open>Sample adapter\<close>

definition sample_sta_priv :: sta_priv where
  "sample_sta_priv = \<lparr>pstainfo_buf = replicate 32 zero_stainfo, free_sta_queue = [0..<32], sta_hash = replicate 32 [],
     asoc_sta_count = 0, auth_list = [], auth_list_cnt = 0, max_aid = 32, rr_aid = False, started_aid = 1,
     max_num_sta = 32, sta_aid = replicate 32 None, sta_dz_bitmap = replicate 5 0, tim_bitmap = replicate 5 0,
     acl_list = [sample_acl, sample_acl], sp_expire_to = 3\<rparr>"

definition sample_adapter :: adapter where
  "sample_adapter = \<lparr>ad_mac = replicate 6 0x10, ad_mlme_sta_or_null = True, ad_hw_ap = False, ad_mlme_ap = False, ad_hiq_filter = 0, ad_stapriv = sample_sta_priv,
     ad_recvpriv = sample_recv_priv, ad_xmitpriv = sample_xmit, ad_macid = sample_macid, ad_cam = sample_cam, ad_log = []\<rparr>"

lemma sample_sta_inv: "sta_inv (ad_stapriv sample_adapter)"
proof -
  have "concat (replicate 32 []) = ([] :: nat list)" by simp
  then have live: "sta_live (ad_stapriv sample_adapter) = []"
    by (simp add: sta_live_def sample_adapter_def sample_sta_priv_def)
  show ?thesis
    unfolding sta_inv_def live by (auto simp: sample_adapter_def sample_sta_priv_def NUM_STA_def)
qed

lemma sample_no_sta: "rtw_get_stainfo (ad_stapriv sample_adapter) a = None"
proof -
  have "sta_live (ad_stapriv sample_adapter) = []"
    by (simp add: sta_live_def sample_adapter_def sample_sta_priv_def)
  then show ?thesis by (simp add: get_stainfo_None [OF sample_sta_inv])
qed

lemma sample_alloc: "\<exists>i. fst (rtw_alloc_stainfo sample_adapter a) = Some i"
proof (cases "rtw_alloc_stainfo sample_adapter a")
  case (Pair r ad')
  then show ?thesis
  proof (cases rule: alloc_stainfo_cases)
    case none
    then show ?thesis by (simp add: sample_adapter_def sample_sta_priv_def)
  qed (use Pair in simp)
qed

section \<open>Properties\<close>

text \<open>
  C3. The station table is a finite map: allocating an address that is not in the table either
  leaves everything as it was, or gives a station no address had, after which a lookup of that
  address finds it, every other address is looked up as before, and the table is well formed
  (every station in its hash bucket, once, and in the pool exactly when it is in no bucket).
\<close>

theorem rtw_alloc_stainfo_map:
  assumes "sta_inv (ad_stapriv ad)" "sta_key a" "rtw_get_stainfo (ad_stapriv ad) a = None"
    and "rtw_alloc_stainfo ad a = (r, ad')"
  shows "case r of None \<Rightarrow> ad' = ad
    | Some i \<Rightarrow> sta_inv (ad_stapriv ad') \<and> (\<forall>b. rtw_get_stainfo (ad_stapriv ad) b \<noteq> Some i)
        \<and> (\<forall>b. sta_key b \<longrightarrow> rtw_get_stainfo (ad_stapriv ad') b
                 = (if b = a then Some i else rtw_get_stainfo (ad_stapriv ad) b))"
proof (cases r)
  case None
  then show ?thesis using sta.alloc_None assms(4) by simp
next
  case (Some i)
  then show ?thesis
    using sta.alloc_inv [OF assms(1-3)] sta.alloc_fresh [OF assms(1)] sta.alloc_Some [OF assms(1-3)] assms(4) by simp
qed

theorem rtw_alloc_stainfo_map_witness:
  "\<exists>i ad'. rtw_alloc_stainfo sample_adapter [2, 0, 0, 0, 0, 7] = (Some i, ad')
     \<and> rtw_get_stainfo (ad_stapriv ad') [2, 0, 0, 0, 0, 7] = Some i
     \<and> rtw_get_stainfo (ad_stapriv ad') [2, 0, 0, 0, 0, 8] = None"
proof -
  obtain i ad' where call: "rtw_alloc_stainfo sample_adapter [2, 0, 0, 0, 0, 7] = (Some i, ad')"
    using sample_alloc by (metis prod.collapse)
  have k: "sta_key [2, 0, 0, 0, 0, 7]" "sta_key [2, 0, 0, 0, 0, 8]" by (simp_all add: sta_key_def IS_MCAST_def)
  show ?thesis
    using rtw_alloc_stainfo_map [OF sample_sta_inv k(1) sample_no_sta call] call k sample_no_sta by simp
qed

text \<open>
  C23. Removing a station takes exactly its address out of the map, keeps the table well formed and
  makes room: the next allocation succeeds.
\<close>

theorem rtw_free_stainfo_map:
  assumes "sta_inv (ad_stapriv ad)" "sta_key a" "rtw_get_stainfo (ad_stapriv ad) a = Some i"
  defines "ad' \<equiv> rtw_free_stainfo ad (Some i)"
  shows "sta_inv (ad_stapriv ad')
    \<and> (\<forall>b. sta_key b \<longrightarrow> rtw_get_stainfo (ad_stapriv ad') b
             = (if b = a then None else rtw_get_stainfo (ad_stapriv ad) b))
    \<and> (\<exists>j. fst (rtw_alloc_stainfo ad' c) = Some j)"
  unfolding ad'_def
  using sta.free_inv [OF assms(1-3)] sta.free_lookup [OF assms(1-3)] sta.free_alloc [OF assms(1-3)] by simp

theorem rtw_free_stainfo_map_witness:
  "\<exists>i ad'. rtw_alloc_stainfo sample_adapter [2, 0, 0, 0, 0, 7] = (Some i, ad')
     \<and> rtw_get_stainfo (ad_stapriv (rtw_free_stainfo ad' (Some i))) [2, 0, 0, 0, 0, 7] = None"
proof -
  obtain i ad' where call: "rtw_alloc_stainfo sample_adapter [2, 0, 0, 0, 0, 7] = (Some i, ad')"
    using sample_alloc by (metis prod.collapse)
  have k: "sta_key [2, 0, 0, 0, 0, 7]" by (simp add: sta_key_def IS_MCAST_def)
  have "sta_inv (ad_stapriv ad')" "rtw_get_stainfo (ad_stapriv ad') [2, 0, 0, 0, 0, 7] = Some i"
    using sta.alloc_inv [OF sample_sta_inv k sample_no_sta] sta.alloc_Some [OF sample_sta_inv k sample_no_sta k call] call
    by simp_all
  note free = rtw_free_stainfo_map [OF this(1) k this(2)]
  have "rtw_get_stainfo (ad_stapriv (rtw_free_stainfo ad' (Some i))) [2, 0, 0, 0, 0, 7] = None"
    using conjunct1 [OF conjunct2 [OF free]] k by simp
  then show ?thesis using call by blast
qed

lemma free_reorder_queues_concat:
  assumes "not_pooled (concat (map pending_recvframe_queue rcs) @ gs) rp"
  shows "free_reorder_queues rcs rp = rtw_free_recvframe_queue (concat (map pending_recvframe_queue rcs)) rp
    \<and> not_pooled gs (free_reorder_queues rcs rp)"
  using assms
proof (induction rcs arbitrary: rp)
  case Nil
  then show ?case by simp
next
  case (Cons rc rcs)
  let ?q = "pending_recvframe_queue rc" and ?r = "concat (map pending_recvframe_queue rcs)"
  have prems: "not_pooled (?q @ ?r @ gs) rp" using Cons.prems by simp
  note IH = Cons.IH [OF not_pooled_after_free [OF prems]]
  have q: "not_pooled ?q rp" and all: "not_pooled (?q @ ?r) rp"
    using prems by (simp_all add: not_pooled_append image_Un Int_Un_distrib)
  note r = not_pooled_after_free [OF all]
  have "rtw_free_recvframe_queue ?r (rtw_free_recvframe_queue ?q rp) = rtw_free_recvframe_queue (?q @ ?r) rp"
    unfolding free_recvframe_queue_pool [OF r] free_recvframe_queue_pool [OF all]
    unfolding free_recvframe_queue_pool [OF q] by simp
  then show ?case using IH by (simp del: rtw_free_recvframe_queue.simps) metis
qed

text \<open>
  Freeing transmit frames: each goes back to the pool it is from, the frames that were allocated one by
  one are freed, and the packets they carry are completed.
\<close>

abbreviation pool_frame :: "xmit_frame \<Rightarrow> bool" where
  "pool_frame f \<equiv> \<not> xf_alloc_addr f \<and> \<not> xf_ext_tag f"

abbreviation ext_pool_frame :: "xmit_frame \<Rightarrow> bool" where
  "ext_pool_frame f \<equiv> \<not> xf_alloc_addr f \<and> xf_ext_tag f"

abbreviation freed_xframe :: "xmit_frame \<Rightarrow> xmit_frame" where
  "freed_xframe f \<equiv> f\<lparr>xf_pkt := None\<rparr>"

definition tx_returned :: "xmit_frame list \<Rightarrow> xmit_priv \<Rightarrow> xmit_priv \<Rightarrow> bool" where
  "tx_returned fs xp xp' \<longleftrightarrow> free_xmit_queue xp' = free_xmit_queue xp @ map freed_xframe (filter pool_frame fs)
     \<and> free_xmitframe_cnt xp' = free_xmitframe_cnt xp + of_nat (length (filter pool_frame fs))
     \<and> free_xframe_ext_queue xp' = free_xframe_ext_queue xp @ map freed_xframe (filter ext_pool_frame fs)
     \<and> free_xframe_ext_cnt xp' = free_xframe_ext_cnt xp + of_nat (length (filter ext_pool_frame fs))
     \<and> xp_freed xp' = xp_freed xp @ map xf_id (filter xf_alloc_addr fs)
     \<and> xp_completed xp' = xp_completed xp @ List.map_filter xf_pkt fs"

lemma tx_returned_trans: "tx_returned fs xp yp \<Longrightarrow> tx_returned gs yp zp \<Longrightarrow> tx_returned (fs @ gs) xp zp"
  by (simp add: tx_returned_def map_filter_def algebra_simps)

lemma tx_returned_queue: "tx_returned fs xp (rtw_free_xmitframe_queue fs xp)"
proof (induction fs arbitrary: xp)
  case (Cons f fs)
  have "tx_returned [f] xp (rtw_free_xmitframe f xp)"
    by (auto simp: tx_returned_def rtw_free_xmitframe_def xf_complete_def map_filter_def split: option.splits)
  from tx_returned_trans [OF this Cons.IH] show ?case by simp
qed (simp add: tx_returned_def map_filter_def)

lemma tx_returned_servq:
  "tx_returned (sta_pending (servq xp i ac)) xp (free_sta_servq i ac xp)"
  "servq (free_sta_servq i ac xp) j b = (if j = i \<and> b = ac then (servq xp i ac)\<lparr>sta_pending := [], qcnt := 0\<rparr> else servq xp j b)"
  using tx_returned_queue [of "sta_pending (servq xp i ac)" xp]
  by (auto simp: free_sta_servq_def Let_def tx_returned_def)

lemma tx_returned_sta:
  "tx_returned (concat (map (\<lambda>ac. sta_pending (servq xp i ac)) [0, 1, 2, 3])) xp (free_sta_xmit i xp)"
  "ac < HWXMIT_ENTRY \<Longrightarrow> sta_pending (servq (free_sta_xmit i xp) i ac) = []"
proof -
  let ?x1 = "free_sta_servq i 0 xp" let ?x2 = "free_sta_servq i 1 ?x1" let ?x3 = "free_sta_servq i 2 ?x2"
  have "tx_returned (sta_pending (servq xp i 0)) xp ?x1" "tx_returned (sta_pending (servq xp i 1)) ?x1 ?x2"
    "tx_returned (sta_pending (servq xp i 2)) ?x2 ?x3" "tx_returned (sta_pending (servq xp i 3)) ?x3 (free_sta_xmit i xp)"
    using tx_returned_servq(1) [of xp i 0] tx_returned_servq(1) [of ?x1 i 1] tx_returned_servq(1) [of ?x2 i 2] tx_returned_servq(1) [of ?x3 i 3]
    by (simp_all add: tx_returned_servq(2) free_sta_xmit_def)
  then show "tx_returned (concat (map (\<lambda>ac. sta_pending (servq xp i ac)) [0, 1, 2, 3])) xp (free_sta_xmit i xp)"
    using tx_returned_trans by simp
  show "ac < HWXMIT_ENTRY \<Longrightarrow> sta_pending (servq (free_sta_xmit i xp) i ac) = []"
    by (auto simp: free_sta_xmit_def tx_returned_servq(2) HWXMIT_ENTRY_def numeral_eq_Suc less_Suc_eq)
qed

text \<open>
  C24. Removing a station returns every frame it holds. The receive frames (reorder queues of all
  traffic ids, then the defragmentation queue) go to the free pool, in order, and are counted. The
  transmit frames (its own queue, the frames kept while it sleeps, then its four scheduler queues) go in
  order to the pool each is from, with the count, or are freed when they are from no pool, and the packets
  they carry are completed. The station holds none of them afterwards: no frame is leaked.
\<close>

theorem rtw_free_stainfo_returns_frames:
  fixes ad :: adapter and i :: nat
  defines "s \<equiv> pstainfo_buf (ad_stapriv ad) ! i" and "rp \<equiv> ad_recvpriv ad" and "xp \<equiv> ad_xmitpriv ad"
    and "ad' \<equiv> rtw_free_stainfo ad (Some i)"
  defines "held \<equiv> concat (map pending_recvframe_queue (si_recvreorder_ctrl s)) @ si_defrag_q s"
    and "held_tx \<equiv> si_tx_queue s @ si_sleep_q s @ concat (map (\<lambda>ac. sta_pending (servq xp i ac)) [0, 1, 2, 3])"
    and "s' \<equiv> pstainfo_buf (ad_stapriv ad') ! i"
  assumes "not_pooled held rp" "i < length (pstainfo_buf (ad_stapriv ad))"
  shows "free_recv_queue (ad_recvpriv ad') = free_recv_queue rp @ map freed_frame held
    \<and> free_recvframe_cnt (ad_recvpriv ad') = free_recvframe_cnt rp + of_nat (length held)
    \<and> tx_returned held_tx xp (ad_xmitpriv ad')
    \<and> (\<forall>rc\<in>set (si_recvreorder_ctrl s'). pending_recvframe_queue rc = []) \<and> si_defrag_q s' = []
    \<and> si_tx_queue s' = [] \<and> si_sleep_q s' = [] \<and> (\<forall>ac < HWXMIT_ENTRY. sta_pending (servq (ad_xmitpriv ad') i ac) = [])"
proof -
  have rp': "ad_recvpriv ad' = free_sta_recv_queues s rp" and xp': "ad_xmitpriv ad' = snd (free_sta_xmit_queues i s xp)"
    by (simp_all add: ad'_def rp_def xp_def s_def rtw_free_stainfo_def Let_def case_prod_beta)
  note fr = free_reorder_queues_concat [OF assms(8) [unfolded held_def]]
  have c: "not_pooled (concat (map pending_recvframe_queue (si_recvreorder_ctrl s))) rp"
    using assms(8) by (simp add: held_def not_pooled_append)
  have rx: "free_recv_queue (ad_recvpriv ad') = free_recv_queue rp @ map freed_frame held
      \<and> free_recvframe_cnt (ad_recvpriv ad') = free_recvframe_cnt rp + of_nat (length held)"
    unfolding rp' free_sta_recv_queues_def free_recvframe_queue_pool [OF conjunct2 [OF fr]]
    unfolding conjunct1 [OF fr] free_recvframe_queue_pool [OF c] by (simp add: held_def)
  define x1 where "x1 = rtw_free_xmitframe_queue (si_sleep_q s) (rtw_free_xmitframe_queue (si_tx_queue s) xp)"
  have x1: "tx_returned (si_tx_queue s @ si_sleep_q s) xp x1" "servq x1 = servq xp"
    using tx_returned_trans [OF tx_returned_queue tx_returned_queue] by (simp_all add: x1_def)
  have x2: "ad_xmitpriv ad' = free_sta_xmit i x1" by (simp add: xp' free_sta_xmit_queues_def x1_def Let_def)
  have tx: "tx_returned held_tx xp (ad_xmitpriv ad')"
    using tx_returned_trans [OF x1(1) tx_returned_sta(1) [of x1 i]] unfolding held_tx_def x2 x1(2) by simp
  have bl: "length (pstainfo_buf (snd (free_sta_tables h i a sp))) = length (pstainfo_buf sp)" for h a sp
    by (simp add: free_sta_tables_def free_sta_aid_def Let_def)
  have "\<exists>m a. s' = freed_stainfo s m a"
    using assms(9) by (auto simp: s'_def ad'_def s_def rtw_free_stainfo_def Let_def case_prod_beta bl)
  then have st: "(\<forall>rc\<in>set (si_recvreorder_ctrl s'). pending_recvframe_queue rc = []) \<and> si_defrag_q s' = [] \<and> si_tx_queue s' = [] \<and> si_sleep_q s' = []"
    by (auto simp: freed_stainfo_def clear_reorder_ctrl_def)
  have "\<forall>ac < HWXMIT_ENTRY. sta_pending (servq (ad_xmitpriv ad') i ac) = []" unfolding x2 using tx_returned_sta(2) by blast
  then show ?thesis using rx tx st by blast
qed

definition sample_sta_frames :: adapter where
  "sample_sta_frames = sample_adapter\<lparr>ad_stapriv := sample_sta_priv\<lparr>pstainfo_buf :=
     (replicate 32 zero_stainfo)[3 := zero_stainfo\<lparr>si_defrag_q := [sample_frame 1 5, sample_frame 2 5], si_sleep_q := [sample_xframe 8 0 3]\<rparr>]\<rparr>,
     ad_xmitpriv := sample_xmit\<lparr>servq := (\<lambda>_ _. \<lparr>sta_pending = [], qcnt = 0\<rparr>)(3 := (\<lambda>_. \<lparr>sta_pending = [], qcnt = 0\<rparr>)(2 := \<lparr>sta_pending = [sample_xframe 9 0 3], qcnt = 1\<rparr>))\<rparr>\<rparr>"

theorem rtw_free_stainfo_returns_frames_witness:
  "map fr_id (free_recv_queue (ad_recvpriv (rtw_free_stainfo sample_sta_frames (Some 3)))) = [1, 2]
   \<and> map xf_id (free_xmit_queue (ad_xmitpriv (rtw_free_stainfo sample_sta_frames (Some 3)))) = [8, 9]"
proof -
  let ?s = "pstainfo_buf (ad_stapriv sample_sta_frames) ! 3"
  have h: "concat (map pending_recvframe_queue (si_recvreorder_ctrl ?s)) @ si_defrag_q ?s
      = [sample_frame 1 5, sample_frame 2 5]"
    "si_tx_queue ?s @ si_sleep_q ?s @ concat (map (\<lambda>ac. sta_pending (servq (ad_xmitpriv sample_sta_frames) 3 ac)) [0, 1, 2, 3]) = [sample_xframe 8 0 3, sample_xframe 9 0 3]"
    by (simp_all add: sample_sta_frames_def sample_sta_priv_def sample_adapter_def zero_stainfo_def zero_reorder_ctrl_def)
  have np: "not_pooled [sample_frame 1 5, sample_frame 2 5] (ad_recvpriv sample_sta_frames)"
    and f: "free_recv_queue (ad_recvpriv sample_sta_frames) = []" "free_xmit_queue (ad_xmitpriv sample_sta_frames) = []"
      "3 < length (pstainfo_buf (ad_stapriv sample_sta_frames))" "pool_frame (sample_xframe 8 0 3)" "pool_frame (sample_xframe 9 0 3)"
    by (simp_all add: not_pooled_def sample_sta_frames_def sample_adapter_def sample_recv_priv_def sample_xmit_def sample_xframe_def)
  have x: "map xf_id (map freed_xframe (filter pool_frame [sample_xframe 8 0 3, sample_xframe 9 0 3])) = [8, 9]" using f(4,5) by (simp add: sample_xframe_def)
  show ?thesis
    using rtw_free_stainfo_returns_frames [of sample_sta_frames 3, unfolded h, OF np f(3)] f(1,2) x by (simp add: tx_returned_def)
qed

lemma aid_loop_spec:
  assumes "aid_loop sp i used = aid" "aid \<noteq> 0"
  shows "1 \<le> unat aid \<and> unat aid \<le> unat (max_aid sp) \<and> sta_aid sp ! (unat aid - 1) = None"
  using assms
proof (induction sp i used rule: aid_loop.induct)
  case (1 sp i used)
  define a where "a = (i + unat (started_aid sp) - 1) mod unat (max_aid sp) + 1"
  have pos: "i < unat (max_aid sp)" using 1(2,3) by (auto simp: aid_loop.simps [of sp i used] split: if_splits)
  have loop: "aid_loop sp i used = (if sta_aid sp ! (a - 1) = None
        then (if used \<ge> unat (max_num_sta sp) then 0 else of_nat a)
        else if used + 1 \<ge> unat (max_num_sta sp) then 0 else aid_loop sp (i + 1) (used + 1))"
    using pos unfolding aid_loop.simps [of sp i used] a_def Let_def by simp
  have a: "1 \<le> a" "a \<le> unat (max_aid sp)" using pos by (simp_all add: a_def Suc_leI)
  have u: "unat (of_nat a :: u16) = a"
    using a(2) unsigned_less [where w = "max_aid sp" and ?'a = nat] by (simp add: unat_of_nat)
  show ?case
  proof (cases "sta_aid sp ! (a - 1) = None")
    case True
    then have "aid = of_nat a"
      using 1(2,3) loop by (auto split: if_splits)
    then show ?thesis using u a True by simp
  next
    case False
    then have "\<not> unat (max_num_sta sp) \<le> used + 1 \<and> aid_loop sp (i + 1) (used + 1) = aid"
      using 1(2,3) loop by (auto split: if_splits)
    then show ?thesis using 1(1) [of a] 1(3) pos False by (simp add: a_def)
  qed
qed

text \<open>
  An association id handed out lies between 1 and \<^verbatim>\<open>max_aid\<close>, was free, and now names the
  station; other ids keep their station. Id 0 means that no id was found.
\<close>

theorem rtw_aid_alloc_exclusive:
  assumes "length (sta_aid sp) = unat (max_aid sp)" "rtw_aid_alloc s sp = (aid, sp')"
  shows "if aid = 0 then sta_aid sp' = sta_aid sp
    else unat aid \<le> unat (max_aid sp) \<and> sta_aid sp ! (unat aid - 1) = None
      \<and> sta_aid sp' = (sta_aid sp)[unat aid - 1 := Some s] \<and> sta_aid sp' ! (unat aid - 1) = Some s"
proof -
  have aid: "aid = aid_loop sp 0 0" using assms(2) by (auto simp: rtw_aid_alloc_def Let_def split: if_splits)
  show ?thesis
  proof (cases "aid = 0")
    case True
    then show ?thesis using assms(2) aid by (auto simp: rtw_aid_alloc_def Let_def split: if_splits)
  next
    case False
    from aid_loop_spec [OF aid [symmetric] False] show ?thesis
      using assms False aid by (auto simp: rtw_aid_alloc_def Let_def split: if_splits)
  qed
qed

theorem rtw_aid_alloc_exclusive_witness:
  "fst (rtw_aid_alloc 3 sample_sta_priv) = 1 \<and> sta_aid (snd (rtw_aid_alloc 3 sample_sta_priv)) ! 0 = Some 3"
proof -
  obtain aid sp' where call: "rtw_aid_alloc 3 sample_sta_priv = (aid, sp')" by fastforce
  have "aid = 1" using call by (auto simp: rtw_aid_alloc_def aid_loop.simps [of _ 0 0] sample_sta_priv_def Let_def split: if_splits)
  moreover have "length (sta_aid sample_sta_priv) = unat (max_aid sample_sta_priv)" by (simp add: sample_sta_priv_def)
  ultimately show ?thesis using rtw_aid_alloc_exclusive [OF _ call] call by simp
qed

text \<open>
  \<^verbatim>\<open>rtw_init_bcmc_stainfo\<close> reports success even when the broadcast station could not be
  allocated: its local result is computed and then ignored.
\<close>

theorem rtw_init_bcmc_stainfo_ignores_failure:
  assumes "free_sta_queue (ad_stapriv ad) = []"
  shows "rtw_init_bcmc_stainfo ad = (RET_SUCCESS, ad) \<and> fst (rtw_alloc_stainfo ad bc_addr) = None"
  using assms by (simp add: rtw_init_bcmc_stainfo_def rtw_alloc_stainfo_def)

theorem rtw_init_bcmc_stainfo_ignores_failure_witness:
  "rtw_init_bcmc_stainfo (sample_adapter\<lparr>ad_stapriv := sample_sta_priv\<lparr>free_sta_queue := []\<rparr>\<rparr>)
   = (RET_SUCCESS, sample_adapter\<lparr>ad_stapriv := sample_sta_priv\<lparr>free_sta_queue := []\<rparr>\<rparr>)"
  using rtw_init_bcmc_stainfo_ignores_failure [of "sample_adapter\<lparr>ad_stapriv := sample_sta_priv\<lparr>free_sta_queue := []\<rparr>\<rparr>"]
  by simp

end
