(* ===== verification/Sw_Crypto.thy ===== *)
theory Sw_Crypto
  imports Recv_Frame
begin

unbundle bit_operations_syntax

text \<open>
  The software ciphers of \<^verbatim>\<open>core/rtw_security.c\<close> that do not rest on AES: RC4, the CRC-32 used as
  the WEP and TKIP integrity value, the Michael message integrity code and the two TKIP key mixing
  phases. Arrays are lists, a write past the end of a buffer is \<open>None\<close>, and the little-endian
  layout that \<^verbatim>\<open>crc32_init\<close> uses through its byte pointers is written out.
\<close>

section \<open>RC4\<close>

record arc4context =
  arc_x :: u32
  arc_y :: u32
  arc_state :: bytes

text \<open>
  The key scheduling loop: \<open>n\<close> rounds are left, \<open>counter\<close>, \<open>keyindex\<close> and \<open>stateindex\<close> are the
  loop's variables.
\<close>

fun arcfour_ksa :: "bytes \<Rightarrow> nat \<Rightarrow> nat \<Rightarrow> nat \<Rightarrow> nat \<Rightarrow> u32 \<Rightarrow> bytes \<Rightarrow> bytes" where
  "arcfour_ksa key key_len 0 counter keyindex stateindex state = state"
| "arcfour_ksa key key_len (Suc n) counter keyindex stateindex state =
     (let t = state ! counter;
          stateindex = (stateindex + ucast (key ! keyindex) + ucast t) AND 0xFF;
          u = state ! unat stateindex;
          state = state[unat stateindex := t];
          state = state[counter := u];
          keyindex = (if keyindex + 1 \<ge> key_len then 0 else keyindex + 1)
      in arcfour_ksa key key_len n (counter + 1) keyindex stateindex state)"

definition arcfour_init :: "bytes \<Rightarrow> nat \<Rightarrow> arc4context" where
  "arcfour_init key key_len =
     \<lparr>arc_x = 0, arc_y = 0,
      arc_state = arcfour_ksa key key_len 256 0 0 0 (map of_nat [0..<256])\<rparr>"

definition arcfour_byte :: "arc4context \<Rightarrow> u8 \<times> arc4context" where
  "arcfour_byte ctx =
     (let x = (arc_x ctx + 1) AND 0xFF;
          sx = arc_state ctx ! unat x;
          y = (ucast sx + arc_y ctx) AND 0xFF;
          sy = arc_state ctx ! unat y;
          state = (arc_state ctx)[unat y := sx];
          state = state[unat x := sy];
          i = (ucast sx + ucast sy :: u32) AND 0xFF
      in (state ! unat i, ctx\<lparr>arc_x := x, arc_y := y, arc_state := state\<rparr>))"

text \<open>\<^verbatim>\<open>arcfour_encrypt\<close> reads \<open>src\<close> and returns what it writes to \<^verbatim>\<open>dest\<close>.\<close>

fun arcfour_encrypt :: "arc4context \<Rightarrow> bytes \<Rightarrow> bytes \<times> arc4context" where
  "arcfour_encrypt ctx [] = ([], ctx)"
| "arcfour_encrypt ctx (b # src) =
     (let (k, ctx) = arcfour_byte ctx; (dest, ctx) = arcfour_encrypt ctx src in ((b XOR k) # dest, ctx))"

section \<open>CRC-32\<close>

definition CRC32_POLY :: u32 where "CRC32_POLY = 0x04c11db7"

definition crc32_reverseBit :: "u8 \<Rightarrow> u8" where
  "crc32_reverseBit data =
     (push_bit 7 data AND 0x80) OR (push_bit 5 data AND 0x40) OR (push_bit 3 data AND 0x20)
     OR (push_bit 1 data AND 0x10) OR (drop_bit 1 data AND 0x08) OR (drop_bit 3 data AND 0x04)
     OR (drop_bit 5 data AND 0x02) OR (drop_bit 7 data AND 0x01)"

text \<open>The inner loop of \<^verbatim>\<open>crc32_init\<close>, and its outer loop as the table it fills.\<close>

fun crc32_shift :: "nat \<Rightarrow> u32 \<Rightarrow> u32" where
  "crc32_shift 0 c = c"
| "crc32_shift (Suc j) c =
     crc32_shift j (if c AND 0x80000000 \<noteq> 0 then push_bit 1 c XOR CRC32_POLY else push_bit 1 c)"

definition crc32_entry :: "u8 \<Rightarrow> u32" where
  "crc32_entry i =
     (let c = crc32_shift 8 (push_bit 24 (ucast (crc32_reverseBit i)));
          p = (\<lambda>k. ucast (drop_bit (8 * k) c) :: u8)
      in ucast (crc32_reverseBit (p 3)) OR push_bit 8 (ucast (crc32_reverseBit (p 2)))
         OR push_bit 16 (ucast (crc32_reverseBit (p 1))) OR push_bit 24 (ucast (crc32_reverseBit (p 0))))"

definition crc32_table :: "u32 list" where
  "crc32_table = map (\<lambda>i. crc32_entry (of_nat i)) [0..<256]"

fun crc32_loop :: "u32 \<Rightarrow> bytes \<Rightarrow> u32" where
  "crc32_loop crc [] = crc"
| "crc32_loop crc (b # bs) =
     crc32_loop (crc32_table ! unat ((crc XOR ucast b) AND 0xFF) XOR drop_bit 8 crc) bs"

definition getcrc32 :: "bytes \<Rightarrow> u32" where
  "getcrc32 buf = NOT (crc32_loop 0xFFFFFFFF buf)"

definition rtw_calc_crc32 :: "bytes \<Rightarrow> u32" where
  "rtw_calc_crc32 data = NOT (crc32_loop 0xFFFFFFFF data)"

section \<open>The Michael message integrity code\<close>

record mic_data =
  mic_K0 :: u32
  mic_K1 :: u32
  mic_L :: u32
  mic_R :: u32
  mic_M :: u32
  nBytesInM :: u32

definition ROL32 :: "u32 \<Rightarrow> nat \<Rightarrow> u32" where
  "ROL32 A n = push_bit n A OR (drop_bit (32 - n) A AND (push_bit n 1 - 1))"

definition ROR32 :: "u32 \<Rightarrow> nat \<Rightarrow> u32" where
  "ROR32 A n = ROL32 A (32 - n)"

definition secmicgetuint32 :: "bytes \<Rightarrow> u32" where
  "secmicgetuint32 p = fold (\<lambda>i res. res OR push_bit (8 * i) (ucast (p ! i))) [0..<4] 0"

definition secmicputuint32 :: "u32 \<Rightarrow> bytes" where
  "secmicputuint32 val = map (\<lambda>i. ucast (drop_bit (8 * i) val AND 0xFF)) [0..<4]"

definition secmicclear :: "mic_data \<Rightarrow> mic_data" where
  "secmicclear d = d\<lparr>mic_L := mic_K0 d, mic_R := mic_K1 d, nBytesInM := 0, mic_M := 0\<rparr>"

definition rtw_secmicsetkey :: "bytes \<Rightarrow> mic_data \<Rightarrow> mic_data" where
  "rtw_secmicsetkey key d =
     secmicclear (d\<lparr>mic_K0 := secmicgetuint32 key, mic_K1 := secmicgetuint32 (drop 4 key)\<rparr>)"

definition rtw_secmicappendbyte :: "mic_data \<Rightarrow> u8 \<Rightarrow> mic_data" where
  "rtw_secmicappendbyte d b =
     (let d = d\<lparr>mic_M := mic_M d OR push_bit (8 * unat (nBytesInM d)) (ucast b),
                nBytesInM := nBytesInM d + 1\<rparr>
      in if nBytesInM d \<ge> 4 then
           (let L = mic_L d XOR mic_M d;
                R = mic_R d XOR ROL32 L 17;
                L = L + R;
                R = R XOR (drop_bit 8 (L AND 0xFF00FF00) OR push_bit 8 (L AND 0x00FF00FF));
                L = L + R;
                R = R XOR ROL32 L 3;
                L = L + R;
                R = R XOR ROR32 L 2;
                L = L + R
            in d\<lparr>mic_L := L, mic_R := R, mic_M := 0, nBytesInM := 0\<rparr>)
         else d)"

definition rtw_secmicappend :: "mic_data \<Rightarrow> bytes \<Rightarrow> mic_data" where
  "rtw_secmicappend d src = fold (\<lambda>b d. rtw_secmicappendbyte d b) src d"

text \<open>
  The padding loop runs until the word buffer is empty, at most four times; the fuel is the number
  of rounds left and \<open>secgetmic_pad_done\<close> below shows that four are enough.
\<close>

fun secmic_pad :: "nat \<Rightarrow> mic_data \<Rightarrow> mic_data" where
  "secmic_pad 0 d = d"
| "secmic_pad (Suc n) d = (if nBytesInM d \<noteq> 0 then secmic_pad n (rtw_secmicappendbyte d 0) else d)"

definition rtw_secgetmic :: "mic_data \<Rightarrow> bytes \<times> mic_data" where
  "rtw_secgetmic d =
     (let d = rtw_secmicappend d [0x5a, 0, 0, 0, 0];
          d = secmic_pad 4 d
      in (secmicputuint32 (mic_L d) @ secmicputuint32 (mic_R d), secmicclear d))"

text \<open>\<open>header\<close> is the 802.11 header; the addresses read depend on its ToDS and FromDS bits.\<close>

definition rtw_seccalctkipmic :: "bytes \<Rightarrow> bytes \<Rightarrow> bytes \<Rightarrow> u8 \<Rightarrow> bytes" where
  "rtw_seccalctkipmic key header data pri =
     (let d = rtw_secmicsetkey key \<lparr>mic_K0 = 0, mic_K1 = 0, mic_L = 0, mic_R = 0, mic_M = 0, nBytesInM = 0\<rparr>;
          addr = (\<lambda>o'. take 6 (drop o' header));
          d = (if header ! 1 AND 1 \<noteq> 0
               then (let d = rtw_secmicappend d (addr 16) in
                     if header ! 1 AND 2 \<noteq> 0 then rtw_secmicappend d (addr 24)
                     else rtw_secmicappend d (addr 10))
               else (let d = rtw_secmicappend d (addr 4) in
                     if header ! 1 AND 2 \<noteq> 0 then rtw_secmicappend d (addr 16)
                     else rtw_secmicappend d (addr 10)));
          d = rtw_secmicappend d [pri, 0, 0, 0];
          d = rtw_secmicappend d data
      in fst (rtw_secgetmic d))"

section \<open>TKIP key mixing\<close>

definition RotR1 :: "u16 \<Rightarrow> u16" where "RotR1 v = (drop_bit 1 v AND 0x7FFF) XOR push_bit 15 (v AND 1)"
definition Lo8 :: "u16 \<Rightarrow> u8" where "Lo8 v = ucast v"
definition Hi8 :: "u16 \<Rightarrow> u8" where "Hi8 v = ucast (drop_bit 8 v)"
definition Mk16 :: "u8 \<Rightarrow> u8 \<Rightarrow> u16" where "Mk16 hi lo = ucast lo XOR push_bit 8 (ucast hi)"
definition TK16 :: "bytes \<Rightarrow> nat \<Rightarrow> u16" where "TK16 tk n = Mk16 (tk ! (2 * n + 1)) (tk ! (2 * n))"

definition Sbox1_0 :: "u16 list" where
  "Sbox1_0 = [
     0xC6A5, 0xF884, 0xEE99, 0xF68D, 0xFF0D, 0xD6BD, 0xDEB1, 0x9154, 0x6050, 0x0203, 0xCEA9, 0x567D,
     0xE719, 0xB562, 0x4DE6, 0xEC9A, 0x8F45, 0x1F9D, 0x8940, 0xFA87, 0xEF15, 0xB2EB, 0x8EC9, 0xFB0B,
     0x41EC, 0xB367, 0x5FFD, 0x45EA, 0x23BF, 0x53F7, 0xE496, 0x9B5B, 0x75C2, 0xE11C, 0x3DAE, 0x4C6A,
     0x6C5A, 0x7E41, 0xF502, 0x834F, 0x685C, 0x51F4, 0xD134, 0xF908, 0xE293, 0xAB73, 0x6253, 0x2A3F,
     0x080C, 0x9552, 0x4665, 0x9D5E, 0x3028, 0x37A1, 0x0A0F, 0x2FB5, 0x0E09, 0x2436, 0x1B9B, 0xDF3D,
     0xCD26, 0x4E69, 0x7FCD, 0xEA9F, 0x121B, 0x1D9E, 0x5874, 0x342E, 0x362D, 0xDCB2, 0xB4EE, 0x5BFB,
     0xA4F6, 0x764D, 0xB761, 0x7DCE, 0x527B, 0xDD3E, 0x5E71, 0x1397, 0xA6F5, 0xB968, 0x0000, 0xC12C,
     0x4060, 0xE31F, 0x79C8, 0xB6ED, 0xD4BE, 0x8D46, 0x67D9, 0x724B, 0x94DE, 0x98D4, 0xB0E8, 0x854A,
     0xBB6B, 0xC52A, 0x4FE5, 0xED16, 0x86C5, 0x9AD7, 0x6655, 0x1194, 0x8ACF, 0xE910, 0x0406, 0xFE81,
     0xA0F0, 0x7844, 0x25BA, 0x4BE3, 0xA2F3, 0x5DFE, 0x80C0, 0x058A, 0x3FAD, 0x21BC, 0x7048, 0xF104,
     0x63DF, 0x77C1, 0xAF75, 0x4263, 0x2030, 0xE51A, 0xFD0E, 0xBF6D, 0x814C, 0x1814, 0x2635, 0xC32F,
     0xBEE1, 0x35A2, 0x88CC, 0x2E39, 0x9357, 0x55F2, 0xFC82, 0x7A47, 0xC8AC, 0xBAE7, 0x322B, 0xE695,
     0xC0A0, 0x1998, 0x9ED1, 0xA37F, 0x4466, 0x547E, 0x3BAB, 0x0B83, 0x8CCA, 0xC729, 0x6BD3, 0x283C,
     0xA779, 0xBCE2, 0x161D, 0xAD76, 0xDB3B, 0x6456, 0x744E, 0x141E, 0x92DB, 0x0C0A, 0x486C, 0xB8E4,
     0x9F5D, 0xBD6E, 0x43EF, 0xC4A6, 0x39A8, 0x31A4, 0xD337, 0xF28B, 0xD532, 0x8B43, 0x6E59, 0xDAB7,
     0x018C, 0xB164, 0x9CD2, 0x49E0, 0xD8B4, 0xACFA, 0xF307, 0xCF25, 0xCAAF, 0xF48E, 0x47E9, 0x1018,
     0x6FD5, 0xF088, 0x4A6F, 0x5C72, 0x3824, 0x57F1, 0x73C7, 0x9751, 0xCB23, 0xA17C, 0xE89C, 0x3E21,
     0x96DD, 0x61DC, 0x0D86, 0x0F85, 0xE090, 0x7C42, 0x71C4, 0xCCAA, 0x90D8, 0x0605, 0xF701, 0x1C12,
     0xC2A3, 0x6A5F, 0xAEF9, 0x69D0, 0x1791, 0x9958, 0x3A27, 0x27B9, 0xD938, 0xEB13, 0x2BB3, 0x2233,
     0xD2BB, 0xA970, 0x0789, 0x33A7, 0x2DB6, 0x3C22, 0x1592, 0xC920, 0x8749, 0xAAFF, 0x5078, 0xA57A,
     0x038F, 0x59F8, 0x0980, 0x1A17, 0x65DA, 0xD731, 0x84C6, 0xD0B8, 0x82C3, 0x29B0, 0x5A77, 0x1E11,
     0x7BCB, 0xA8FC, 0x6DD6, 0x2C3A]"

definition Sbox1_1 :: "u16 list" where
  "Sbox1_1 = [
     0xA5C6, 0x84F8, 0x99EE, 0x8DF6, 0x0DFF, 0xBDD6, 0xB1DE, 0x5491, 0x5060, 0x0302, 0xA9CE, 0x7D56,
     0x19E7, 0x62B5, 0xE64D, 0x9AEC, 0x458F, 0x9D1F, 0x4089, 0x87FA, 0x15EF, 0xEBB2, 0xC98E, 0x0BFB,
     0xEC41, 0x67B3, 0xFD5F, 0xEA45, 0xBF23, 0xF753, 0x96E4, 0x5B9B, 0xC275, 0x1CE1, 0xAE3D, 0x6A4C,
     0x5A6C, 0x417E, 0x02F5, 0x4F83, 0x5C68, 0xF451, 0x34D1, 0x08F9, 0x93E2, 0x73AB, 0x5362, 0x3F2A,
     0x0C08, 0x5295, 0x6546, 0x5E9D, 0x2830, 0xA137, 0x0F0A, 0xB52F, 0x090E, 0x3624, 0x9B1B, 0x3DDF,
     0x26CD, 0x694E, 0xCD7F, 0x9FEA, 0x1B12, 0x9E1D, 0x7458, 0x2E34, 0x2D36, 0xB2DC, 0xEEB4, 0xFB5B,
     0xF6A4, 0x4D76, 0x61B7, 0xCE7D, 0x7B52, 0x3EDD, 0x715E, 0x9713, 0xF5A6, 0x68B9, 0x0000, 0x2CC1,
     0x6040, 0x1FE3, 0xC879, 0xEDB6, 0xBED4, 0x468D, 0xD967, 0x4B72, 0xDE94, 0xD498, 0xE8B0, 0x4A85,
     0x6BBB, 0x2AC5, 0xE54F, 0x16ED, 0xC586, 0xD79A, 0x5566, 0x9411, 0xCF8A, 0x10E9, 0x0604, 0x81FE,
     0xF0A0, 0x4478, 0xBA25, 0xE34B, 0xF3A2, 0xFE5D, 0xC080, 0x8A05, 0xAD3F, 0xBC21, 0x4870, 0x04F1,
     0xDF63, 0xC177, 0x75AF, 0x6342, 0x3020, 0x1AE5, 0x0EFD, 0x6DBF, 0x4C81, 0x1418, 0x3526, 0x2FC3,
     0xE1BE, 0xA235, 0xCC88, 0x392E, 0x5793, 0xF255, 0x82FC, 0x477A, 0xACC8, 0xE7BA, 0x2B32, 0x95E6,
     0xA0C0, 0x9819, 0xD19E, 0x7FA3, 0x6644, 0x7E54, 0xAB3B, 0x830B, 0xCA8C, 0x29C7, 0xD36B, 0x3C28,
     0x79A7, 0xE2BC, 0x1D16, 0x76AD, 0x3BDB, 0x5664, 0x4E74, 0x1E14, 0xDB92, 0x0A0C, 0x6C48, 0xE4B8,
     0x5D9F, 0x6EBD, 0xEF43, 0xA6C4, 0xA839, 0xA431, 0x37D3, 0x8BF2, 0x32D5, 0x438B, 0x596E, 0xB7DA,
     0x8C01, 0x64B1, 0xD29C, 0xE049, 0xB4D8, 0xFAAC, 0x07F3, 0x25CF, 0xAFCA, 0x8EF4, 0xE947, 0x1810,
     0xD56F, 0x88F0, 0x6F4A, 0x725C, 0x2438, 0xF157, 0xC773, 0x5197, 0x23CB, 0x7CA1, 0x9CE8, 0x213E,
     0xDD96, 0xDC61, 0x860D, 0x850F, 0x90E0, 0x427C, 0xC471, 0xAACC, 0xD890, 0x0506, 0x01F7, 0x121C,
     0xA3C2, 0x5F6A, 0xF9AE, 0xD069, 0x9117, 0x5899, 0x273A, 0xB927, 0x38D9, 0x13EB, 0xB32B, 0x3322,
     0xBBD2, 0x70A9, 0x8907, 0xA733, 0xB62D, 0x223C, 0x9215, 0x20C9, 0x4987, 0xFFAA, 0x7850, 0x7AA5,
     0x8F03, 0xF859, 0x8009, 0x171A, 0xDA65, 0x31D7, 0xC684, 0xB8D0, 0xC382, 0xB029, 0x775A, 0x111E,
     0xCB7B, 0xFCA8, 0xD66D, 0x3A2C]"

definition S_box16 :: "u16 \<Rightarrow> u16" where
  "S_box16 v = Sbox1_0 ! unat (Lo8 v) XOR Sbox1_1 ! unat (Hi8 v)"

text \<open>One round of phase 1 on the five words, then its loop of eight rounds.\<close>

fun phase1_round :: "bytes \<Rightarrow> nat \<Rightarrow> u16 list \<Rightarrow> u16 list" where
  "phase1_round tk i [p0, p1, p2, p3, p4] =
     (let o' = i mod 2;
          p0 = p0 + S_box16 (p4 XOR TK16 tk (o' + 0));
          p1 = p1 + S_box16 (p0 XOR TK16 tk (o' + 2));
          p2 = p2 + S_box16 (p1 XOR TK16 tk (o' + 4));
          p3 = p3 + S_box16 (p2 XOR TK16 tk (o' + 6));
          p4 = p4 + S_box16 (p3 XOR TK16 tk (o' + 0));
          p4 = p4 + of_nat i
      in [p0, p1, p2, p3, p4])"
| "phase1_round tk i p = p"

definition phase1 :: "bytes \<Rightarrow> bytes \<Rightarrow> u32 \<Rightarrow> u16 list" where
  "phase1 tk ta iv32 =
     fold (phase1_round tk) [0..<8]
       [ucast iv32, ucast (drop_bit 16 iv32), Mk16 (ta ! 1) (ta ! 0), Mk16 (ta ! 3) (ta ! 2), Mk16 (ta ! 5) (ta ! 4)]"

definition phase2 :: "bytes \<Rightarrow> u16 list \<Rightarrow> u16 \<Rightarrow> bytes" where
  "phase2 tk p1k iv16 =
     (let PPK0 = p1k ! 0; PPK1 = p1k ! 1; PPK2 = p1k ! 2; PPK3 = p1k ! 3; PPK4 = p1k ! 4;
          PPK5 = p1k ! 4 + iv16;
          PPK0 = PPK0 + S_box16 (PPK5 XOR TK16 tk 0);
          PPK1 = PPK1 + S_box16 (PPK0 XOR TK16 tk 1);
          PPK2 = PPK2 + S_box16 (PPK1 XOR TK16 tk 2);
          PPK3 = PPK3 + S_box16 (PPK2 XOR TK16 tk 3);
          PPK4 = PPK4 + S_box16 (PPK3 XOR TK16 tk 4);
          PPK5 = PPK5 + S_box16 (PPK4 XOR TK16 tk 5);
          PPK0 = PPK0 + RotR1 (PPK5 XOR TK16 tk 6);
          PPK1 = PPK1 + RotR1 (PPK0 XOR TK16 tk 7);
          PPK2 = PPK2 + RotR1 PPK1;
          PPK3 = PPK3 + RotR1 PPK2;
          PPK4 = PPK4 + RotR1 PPK3;
          PPK5 = PPK5 + RotR1 PPK4
      in [Hi8 iv16, (Hi8 iv16 OR 0x20) AND 0x7F, Lo8 iv16, Lo8 (drop_bit 1 (PPK5 XOR TK16 tk 0)),
          Lo8 PPK0, Hi8 PPK0, Lo8 PPK1, Hi8 PPK1, Lo8 PPK2, Hi8 PPK2,
          Lo8 PPK3, Hi8 PPK3, Lo8 PPK4, Hi8 PPK4, Lo8 PPK5, Hi8 PPK5])"

section \<open>The CRC-32 table against the bitwise definition\<close>

lemma bit_reverseBit: "bit (crc32_reverseBit d) n \<longleftrightarrow> n < 8 \<and> bit d (7 - n)"
proof (cases "n < 8")
  case True
  have "\<forall>n<8. bit (crc32_reverseBit d) n \<longleftrightarrow> bit d (7 - n)"
    unfolding all_less_8 by (simp add: crc32_reverseBit_def bit_simps bit_times2)
  then show ?thesis using True by simp
next
  case False
  then show ?thesis using bit_imp_le_length [of "crc32_reverseBit d" n] by auto
qed

definition rev32 :: "u32 \<Rightarrow> u32" where
  "rev32 c = (let p = (\<lambda>k. ucast (drop_bit (8 * k) c) :: u8)
      in ucast (crc32_reverseBit (p 3)) OR push_bit 8 (ucast (crc32_reverseBit (p 2)))
         OR push_bit 16 (ucast (crc32_reverseBit (p 1))) OR push_bit 24 (ucast (crc32_reverseBit (p 0))))"

lemma bit_rev32: "bit (rev32 c) n \<longleftrightarrow> n < 32 \<and> bit c (31 - n)"
proof -
  consider "n < 8" | "8 \<le> n" "n < 16" | "16 \<le> n" "n < 24" | "24 \<le> n" "n < 32" | "32 \<le> n" by linarith
  then show ?thesis
  proof cases
    case 1 then show ?thesis by (auto simp: rev32_def Let_def bit_simps bit_reverseBit)
  next
    case 2 then show ?thesis by (auto simp: rev32_def Let_def bit_simps bit_reverseBit)
  next
    case 3 then show ?thesis by (auto simp: rev32_def Let_def bit_simps bit_reverseBit)
  next
    case 4 then show ?thesis by (auto simp: rev32_def Let_def bit_simps bit_reverseBit)
  next
    case 5 then show ?thesis using bit_imp_le_length [of "rev32 c" n] by auto
  qed
qed
lemma rev32_xor: "rev32 (a XOR b) = rev32 a XOR rev32 b"
  by (rule bit_word_eqI) (simp add: bit_rev32 bit_simps)
lemma rev32_push: "rev32 (push_bit 1 c) = drop_bit 1 (rev32 c)"
  by (rule bit_word_eqI) (auto simp: bit_rev32 bit_simps bit_times2)
lemma rev32_poly: "rev32 CRC32_POLY = 0xEDB88320"
  by (simp add: rev32_def CRC32_POLY_def crc32_reverseBit_def)
lemma rev32_byte: "rev32 (push_bit 24 (ucast (crc32_reverseBit i))) = ucast i"
proof (rule bit_word_eqI)
  fix n assume "n < LENGTH(32)"
  show "bit (rev32 (push_bit 24 (ucast (crc32_reverseBit i)))) n \<longleftrightarrow> bit (ucast i :: u32) n"
    by (cases "n < 8") (auto simp: bit_rev32 bit_simps bit_reverseBit dest: bit_imp_le_length)
qed

lemma msb_test: "c AND 0x80000000 \<noteq> 0 \<longleftrightarrow> bit c 31" for c :: u32
proof -
  have "(0x80000000 :: u32) = push_bit 31 1" by simp
  then show ?thesis by (simp only: and_exp_eq_0_iff_not_bit push_bit_of_1 not_not)
qed

text \<open>The reference: the reflected polynomial, one bit at a time.\<close>

fun crc32_bits :: "nat \<Rightarrow> u32 \<Rightarrow> u32" where
  "crc32_bits 0 c = c"
| "crc32_bits (Suc n) c = crc32_bits n (if bit c 0 then drop_bit 1 c XOR 0xEDB88320 else drop_bit 1 c)"

primrec crc32_ref_loop :: "u32 \<Rightarrow> bytes \<Rightarrow> u32" where
  "crc32_ref_loop c [] = c"
| "crc32_ref_loop c (b # bs) = crc32_ref_loop (crc32_bits 8 (c XOR ucast b)) bs"

lemma crc32_bits_xor: "crc32_bits n (a XOR b) = crc32_bits n a XOR crc32_bits n b"
proof (induction n arbitrary: a b)
  case (Suc n)
  have "(if bit (a XOR b) 0 then drop_bit 1 (a XOR b) XOR 0xEDB88320 else drop_bit 1 (a XOR b))
      = (if bit a 0 then drop_bit 1 a XOR 0xEDB88320 else drop_bit 1 a)
        XOR (if bit b 0 then drop_bit 1 b XOR 0xEDB88320 else drop_bit 1 b)"
    by (auto intro!: bit_word_eqI simp: bit_simps)
  then show ?case by (simp only: crc32_bits.simps Suc.IH)
qed simp

lemma crc32_bits_low: "(\<And>j. j < k \<Longrightarrow> \<not> bit c j) \<Longrightarrow> crc32_bits k c = drop_bit k c"
proof (induction k arbitrary: c)
  case (Suc k)
  have "\<not> bit (drop_bit 1 c) j" if "j < k" for j using Suc.prems [of "Suc j"] that by (simp add: bit_simps)
  then have "crc32_bits k (drop_bit 1 c) = drop_bit k (drop_bit 1 c)" by (rule Suc.IH)
  then show ?case using Suc.prems [of 0] by simp
qed simp

lemma crc32_bits_table: "crc32_bits 8 c = crc32_bits 8 (c AND 0xFF) XOR drop_bit 8 c"
proof -
  have c: "c = (c AND 0xFF) XOR (c AND NOT 0xFF)" by (rule bit_word_eqI) (auto simp: bit_simps)
  have "\<not> bit (c AND NOT 0xFF) j" if "j < 8" for j
    using that by (simp add: bit_simps bit_255 bit_255_int)
  then have "crc32_bits 8 (c AND NOT 0xFF) = drop_bit 8 (c AND NOT 0xFF)" by (rule crc32_bits_low)
  moreover have "drop_bit 8 (c AND NOT 0xFF) = drop_bit 8 c"
  proof (rule bit_word_eqI)
    fix n
    show "bit (drop_bit 8 (c AND NOT 0xFF)) n \<longleftrightarrow> bit (drop_bit 8 c) n"
      using bit_imp_le_length [of c "8 + n"]
      by (simp only: bit_drop_bit_eq o_def bit_and_iff bit_not_iff bit_255 possible_bit_word) auto
  qed
  ultimately show ?thesis using crc32_bits_xor [of 8 "c AND 0xFF" "c AND NOT 0xFF"] c by simp
qed

lemma rev32_shift: "rev32 (crc32_shift n c) = crc32_bits n (rev32 c)"
  by (induction n arbitrary: c) (simp_all add: msb_test bit_rev32 rev32_xor rev32_push [simplified] rev32_poly)

lemma crc32_entry_bits: "crc32_entry i = crc32_bits 8 (ucast i)"
  unfolding crc32_entry_def rev32_def [symmetric, unfolded Let_def] Let_def
  by (simp only: rev32_shift rev32_byte)

lemma crc32_table_nth: "crc32_table ! unat (w AND 0xFF) = crc32_bits 8 (w AND 0xFF)" for w :: u32
proof -
  have "(ucast (of_nat (unat (w AND 0xFF)) :: u8) :: u32) = w AND 0xFF"
    by (rule bit_word_eqI) (auto simp: bit_simps bit_255 bit_255_int)
  then show ?thesis using and_255_unat [of w] by (simp add: crc32_table_def crc32_entry_bits)
qed

lemma crc32_loop_ref: "crc32_loop c buf = crc32_ref_loop c buf"
proof (induction buf arbitrary: c)
  case (Cons b buf)
  have "drop_bit 8 (c XOR ucast b) = drop_bit 8 c"
    by (rule bit_word_eqI) (auto simp: bit_simps dest: bit_imp_le_length)
  then have "crc32_bits 8 (c XOR ucast b) = crc32_bits 8 ((c XOR ucast b) AND 0xFF) XOR drop_bit 8 c"
    by (metis crc32_bits_table)
  then show ?case by (simp only: crc32_loop.simps crc32_ref_loop.simps Cons.IH crc32_table_nth)
qed simp

section \<open>RC4 is an involution\<close>

fun arcfour_keystream :: "arc4context \<Rightarrow> nat \<Rightarrow> bytes \<times> arc4context" where
  "arcfour_keystream ctx 0 = ([], ctx)"
| "arcfour_keystream ctx (Suc n) =
     (let (k, ctx) = arcfour_byte ctx; (ks, ctx) = arcfour_keystream ctx n in (k # ks, ctx))"

lemma keystream_length [simp]: "length (fst (arcfour_keystream ctx n)) = n"
  by (induction n arbitrary: ctx) (auto simp: split_beta)

lemma arcfour_encrypt_keystream:
  "arcfour_encrypt ctx src = (map2 (XOR) src (fst (arcfour_keystream ctx (length src))),
                              snd (arcfour_keystream ctx (length src)))"
  by (induction src arbitrary: ctx) (auto simp: split_beta)

lemma arcfour_encrypt_length [simp]: "length (fst (arcfour_encrypt ctx src)) = length src"
  by (simp add: arcfour_encrypt_keystream)

lemma arcfour_encrypt_append:
  "arcfour_encrypt ctx (xs @ ys) =
     (let (a, ctx1) = arcfour_encrypt ctx xs; (b, ctx2) = arcfour_encrypt ctx1 ys in (a @ b, ctx2))"
  by (induction xs arbitrary: ctx) (auto simp: split_beta Let_def)

lemma arcfour_involution: "fst (arcfour_encrypt ctx (fst (arcfour_encrypt ctx src))) = src"
  by (simp add: arcfour_encrypt_keystream map2_xor_cancel)

section \<open>The RC4 state is a permutation\<close>

definition arc_inv :: "arc4context \<Rightarrow> bool" where
  "arc_inv ctx \<longleftrightarrow> mset (arc_state ctx) = mset (map of_nat [0..<256]) \<and> unat (arc_x ctx) < 256 \<and> unat (arc_y ctx) < 256"

lemma ksa_mset: "length state = 256 \<Longrightarrow> counter + n \<le> 256 \<Longrightarrow> mset (arcfour_ksa key kl n counter ki si state) = mset state"
proof (induction n arbitrary: counter ki si state)
  case (Suc n)
  show ?case using Suc.prems and_255_unat
    by (simp add: Let_def Suc.IH swap_mset)
qed simp

lemma byte_inv:
  assumes "arc_inv ctx"
  shows "arc_inv (snd (arcfour_byte ctx))"
proof -
  have "size (mset (arc_state ctx)) = size (mset (map of_nat [0..<256] :: bytes))"
    using assms by (simp only: arc_inv_def)
  then have l: "length (arc_state ctx) = 256" by (simp del: mset_map mset_upt)
  then show ?thesis
    using assms and_255_unat swap_mset [of _ "arc_state ctx"]
    by (simp add: arc_inv_def arcfour_byte_def Let_def)
qed

section \<open>Michael over words\<close>

text \<open>The reference: the block function on little-endian words of the padded message.\<close>

definition michael_block :: "u32 \<times> u32 \<Rightarrow> u32 \<Rightarrow> u32 \<times> u32" where
  "michael_block lr m =
     (let l = fst lr XOR m; r = snd lr XOR ROL32 l 17;
          l = l + r; r = r XOR (drop_bit 8 (l AND 0xFF00FF00) OR push_bit 8 (l AND 0x00FF00FF));
          l = l + r; r = r XOR ROL32 l 3;
          l = l + r; r = r XOR ROL32 l 30;
          l = l + r
      in (l, r))"

fun le_words :: "bytes \<Rightarrow> u32 list" where
  "le_words (a # b # c # d # bs) =
     (ucast a OR push_bit 8 (ucast b) OR push_bit 16 (ucast c) OR push_bit 24 (ucast d)) # le_words bs"
| "le_words bs = []"

definition michael_pad :: "bytes \<Rightarrow> bytes" where
  "michael_pad msg = msg @ [0x5a, 0, 0, 0, 0] @ replicate ((4 - (length msg + 5) mod 4) mod 4) 0"

definition michael :: "bytes \<Rightarrow> bytes \<Rightarrow> bytes" where
  "michael key msg =
     (let (l, r) = fold (\<lambda>m lr. michael_block lr m) (le_words (michael_pad msg))
                     (secmicgetuint32 key, secmicgetuint32 (drop 4 key))
      in secmicputuint32 l @ secmicputuint32 r)"

definition mic_lr :: "mic_data \<Rightarrow> u32 \<times> u32" where
  "mic_lr d = (mic_L d, mic_R d)"

lemma appendbyte_small:
  "nBytesInM d = 0 \<or> nBytesInM d = 1 \<or> nBytesInM d = 2 \<Longrightarrow> rtw_secmicappendbyte d b
     = d\<lparr>mic_M := mic_M d OR push_bit (8 * unat (nBytesInM d)) (ucast b), nBytesInM := nBytesInM d + 1\<rparr>"
proof -
  assume "nBytesInM d = 0 \<or> nBytesInM d = 1 \<or> nBytesInM d = 2"
  then have "\<not> 4 \<le> nBytesInM d + 1" by (auto simp: word_le_nat_alt)
  then show ?thesis by (simp add: rtw_secmicappendbyte_def)
qed

lemma appendbyte_full:
  assumes "nBytesInM d = 3"
  shows "rtw_secmicappendbyte d b
     = (let lr = michael_block (mic_lr d) (mic_M d OR push_bit 24 (ucast b))
        in d\<lparr>mic_L := fst lr, mic_R := snd lr, mic_M := 0, nBytesInM := 0\<rparr>)"
proof -
  have n: "nBytesInM d + 1 \<ge> 4" "8 * unat (nBytesInM d) = 24" using assms by simp_all
  have z: "d\<lparr>mic_M := x, nBytesInM := n, mic_L := l, mic_R := r, mic_M := 0, nBytesInM := 0\<rparr>
      = d\<lparr>mic_L := l, mic_R := r, mic_M := 0, nBytesInM := 0\<rparr>" for x n l r by simp
  show ?thesis
    unfolding rtw_secmicappendbyte_def michael_block_def mic_lr_def ROR32_def n(2)
    by (simp only: Let_def mic_data.select_convs mic_data.update_convs mic_data.simps n(1) if_True fst_conv snd_conv
        diff_numeral_simps z) (simp add: assms)
qed

lemma append4:
  assumes "nBytesInM d = 0" "mic_M d = 0"
  shows "rtw_secmicappend d [a, b, c, e]
     = d\<lparr>mic_L := fst (michael_block (mic_lr d) (hd (le_words [a, b, c, e]))),
         mic_R := snd (michael_block (mic_lr d) (hd (le_words [a, b, c, e])))\<rparr>"
  using assms
  by (simp add: rtw_secmicappend_def appendbyte_small appendbyte_full mic_lr_def Let_def or.assoc)

lemma secmicappend_append: "rtw_secmicappend d (xs @ ys) = rtw_secmicappend (rtw_secmicappend d xs) ys"
  by (simp add: rtw_secmicappend_def)

lemma append_words:
  assumes "nBytesInM d = 0" "mic_M d = 0" "length bs mod 4 = 0"
  shows "mic_lr (rtw_secmicappend d bs) = fold (\<lambda>m lr. michael_block lr m) (le_words bs) (mic_lr d)
    \<and> nBytesInM (rtw_secmicappend d bs) = 0"
  using assms
proof (induction bs arbitrary: d rule: le_words.induct)
  case (1 a b c e bs)
  have "rtw_secmicappend d (a # b # c # e # bs) = rtw_secmicappend (rtw_secmicappend d [a, b, c, e]) bs"
    by (simp add: secmicappend_append [symmetric])
  moreover have "length bs mod 4 = 0" using "1.prems"(3) by simp
  ultimately show ?case using "1.IH" "1.prems" append4 [OF "1.prems"(1,2)] by (simp add: mic_lr_def)
qed (simp_all add: rtw_secmicappend_def)

lemma appendbyte_count:
  assumes "nBytesInM d = of_nat k" "k < 4"
  shows "nBytesInM (rtw_secmicappendbyte d b) = of_nat (Suc k mod 4)"
proof -
  consider "k = 0" | "k = 1" | "k = 2" | "k = 3" using assms(2) by linarith
  then show ?thesis using assms(1) by cases (simp_all add: appendbyte_small appendbyte_full Let_def)
qed

lemma append_count:
  assumes "nBytesInM d = of_nat k" "k < 4"
  shows "nBytesInM (rtw_secmicappend d bs) = of_nat ((k + length bs) mod 4)"
  using assms
proof (induction bs arbitrary: d k)
  case (Cons b bs)
  from Cons.IH [OF appendbyte_count [OF Cons.prems]] show ?case by (simp add: rtw_secmicappend_def mod_simps)
qed (simp add: rtw_secmicappend_def)

lemma pad_append:
  assumes "nBytesInM d = of_nat k" "k < 4" "(4 - k) mod 4 \<le> n"
  shows "secmic_pad n d = rtw_secmicappend d (replicate ((4 - k) mod 4) 0)"
  using assms
proof (induction n arbitrary: d k)
  case 0
  then show ?case by (simp add: rtw_secmicappend_def)
next
  case (Suc n)
  show ?case
  proof (cases "k = 0")
    case True
    then show ?thesis using Suc.prems by (simp add: rtw_secmicappend_def)
  next
    case False
    then have k: "k = 1 \<or> k = 2 \<or> k = 3" using Suc.prems(2) by linarith
    then have nz: "nBytesInM d \<noteq> 0" using Suc.prems(1) by auto
    have r: "(4 - k) mod 4 = Suc ((4 - Suc k mod 4) mod 4)" using k by auto
    then have "(4 - Suc k mod 4) mod 4 \<le> n" using Suc.prems(3) by linarith
    from Suc.IH [OF appendbyte_count [OF Suc.prems(1,2)] _ this, of 0] show ?thesis
      using nz unfolding r by (simp add: rtw_secmicappend_def)
  qed
qed

lemma pad_to_multiple: "(n + (4 - n mod 4) mod 4) mod 4 = 0" for n :: nat
proof (cases "n mod 4 = 0")
  case False
  moreover define q r where "q = n div 4" and "r = n mod 4"
  ultimately have "n = 4 * q + r" "0 < r" "r < 4" by auto
  then have "n + (4 - n mod 4) mod 4 = 4 * q + 4" unfolding r_def [symmetric] by simp
  then show ?thesis by simp
qed simp

lemma secgetmic_michael:
  assumes "nBytesInM d = 0" "mic_M d = 0" "mic_lr d = (secmicgetuint32 key, secmicgetuint32 (drop 4 key))"
  shows "fst (rtw_secgetmic (rtw_secmicappend d msg)) = michael key msg"
proof -
  let ?d = "rtw_secmicappend d (msg @ [0x5a, 0, 0, 0, 0])"
  have c: "nBytesInM ?d = of_nat ((length msg + 5) mod 4)"
    using append_count [of d 0 "msg @ [0x5a, 0, 0, 0, 0]"] assms(1) by (simp add: add.commute)
  have "secmic_pad 4 ?d = rtw_secmicappend d (michael_pad msg)"
    unfolding michael_pad_def append_assoc [symmetric] secmicappend_append [of d "msg @ _"]
    using pad_append [OF c, of 4] by simp
  moreover have "length (michael_pad msg) mod 4 = 0"
  proof -
    have "length (michael_pad msg) = length msg + 5 + (4 - (length msg + 5) mod 4) mod 4"
      by (simp add: michael_pad_def)
    then show ?thesis by (simp only: pad_to_multiple)
  qed
  ultimately have w: "mic_lr (secmic_pad 4 ?d) = fold (\<lambda>m lr. michael_block lr m) (le_words (michael_pad msg)) (mic_lr d)"
    using append_words [OF assms(1,2), of "michael_pad msg"] by simp
  have "fst (rtw_secgetmic (rtw_secmicappend d msg))
      = secmicputuint32 (fst (mic_lr (secmic_pad 4 ?d))) @ secmicputuint32 (snd (mic_lr (secmic_pad 4 ?d)))"
    unfolding rtw_secgetmic_def Let_def mic_lr_def secmicappend_append [symmetric] by simp
  then show ?thesis unfolding w assms(3) michael_def by (simp add: split_beta)
qed

lemma seccalctkipmic_michael:
  fixes header :: bytes
  defines "addr \<equiv> (\<lambda>o'. take 6 (drop o' header))"
  shows "rtw_seccalctkipmic key header data pri
    = michael key ((if header ! 1 AND 1 \<noteq> 0 then addr 16 @ (if header ! 1 AND 2 \<noteq> 0 then addr 24 else addr 10)
                    else addr 4 @ (if header ! 1 AND 2 \<noteq> 0 then addr 16 else addr 10)) @ [pri, 0, 0, 0] @ data)"
proof -
  let ?d = "rtw_secmicsetkey key \<lparr>mic_K0 = 0, mic_K1 = 0, mic_L = 0, mic_R = 0, mic_M = 0, nBytesInM = 0\<rparr>"
  have "nBytesInM ?d = 0" "mic_M ?d = 0" "mic_lr ?d = (secmicgetuint32 key, secmicgetuint32 (drop 4 key))"
    by (simp_all add: rtw_secmicsetkey_def secmicclear_def mic_lr_def)
  note m = secgetmic_michael [OF this]
  show ?thesis
    unfolding rtw_seccalctkipmic_def Let_def m [symmetric] addr_def
    by (simp only: secmicappend_append split: if_split) blast
qed

section \<open>TKIP keys are unique\<close>

lemma Lo8_Hi8_inject: "Lo8 v = Lo8 w \<Longrightarrow> Hi8 v = Hi8 w \<Longrightarrow> v = w"
proof (rule bit_word_eqI)
  fix n assume a: "Lo8 v = Lo8 w" "Hi8 v = Hi8 w" "n < LENGTH(16)"
  show "bit v n = bit w n"
  proof (cases "n < 8")
    case True
    then show ?thesis using arg_cong [OF a(1), of "\<lambda>x. bit x n"] by (simp add: Lo8_def bit_simps)
  next
    case False
    then show ?thesis using arg_cong [OF a(2), of "\<lambda>x. bit x (n - 8)"] a(3) by (auto simp: Hi8_def bit_simps)
  qed
qed

lemma Mk16_inject: "Mk16 a b = Mk16 c d \<longleftrightarrow> a = c \<and> b = d"
proof
  assume e: "Mk16 a b = Mk16 c d"
  have "Lo8 (Mk16 a b) = b" "Hi8 (Mk16 a b) = a" for a b
    using bit_imp_le_length [of b]
    by (fastforce intro!: bit_word_eqI simp: Lo8_def Hi8_def Mk16_def bit_simps)+
  with e show "a = c \<and> b = d" by metis
qed simp

lemma phase1_round_inject:
  assumes "phase1_round tk i [a0, a1, a2, a3, a4] = phase1_round tk i [b0, b1, b2, b3, b4]"
  shows "[a0, a1, a2, a3, a4] = [b0, b1, b2, b3, b4]"
  using assms by (auto simp: Let_def)

lemma phase2_inject:
  assumes "phase2 tk [a0, a1, a2, a3, a4] v = phase2 tk [b0, b1, b2, b3, b4] w"
  shows "[a0, a1, a2, a3, a4] = [b0, b1, b2, b3, b4] \<and> v = w"
  using assms
  unfolding phase2_def Let_def
  by (auto dest!: Lo8_Hi8_inject)

lemma phase1_round_length: "length p = 5 \<Longrightarrow> length (phase1_round tk i p) = 5"
  by (auto simp: numeral_eq_Suc length_Suc_conv Let_def)

lemma length5: "length p = 5 \<longleftrightarrow> (\<exists>a b c d e. p = [a, b, c, d, e])"
  by (auto simp: numeral_eq_Suc length_Suc_conv)

lemma phase1_fold_inject:
  "length p = 5 \<Longrightarrow> length q = 5 \<Longrightarrow> fold (phase1_round tk) is p = fold (phase1_round tk) is q \<Longrightarrow> p = q"
proof (induction "is" arbitrary: p q)
  case (Cons i "is")
  then have "phase1_round tk i p = phase1_round tk i q" by (simp add: phase1_round_length)
  then show ?case using Cons.prems(1,2) phase1_round_inject unfolding length5 by blast
qed simp

lemma phase1_fold_length: "length p = 5 \<Longrightarrow> length (fold (phase1_round tk) is p) = 5"
  by (induction "is" arbitrary: p) (simp_all add: phase1_round_length)

lemma ucast_halves: "(ucast v :: u16) = ucast w \<Longrightarrow> (ucast (drop_bit 16 v) :: u16) = ucast (drop_bit 16 w) \<Longrightarrow> v = w"
  for v w :: u32
proof (rule bit_word_eqI)
  fix n assume a: "(ucast v :: u16) = ucast w" "(ucast (drop_bit 16 v) :: u16) = ucast (drop_bit 16 w)" "n < LENGTH(32)"
  show "bit v n = bit w n"
    using arg_cong [OF a(1), of "\<lambda>x. bit x n"] arg_cong [OF a(2), of "\<lambda>x. bit x (n - 16)"] a(3)
    by (cases "n < 16") (auto simp: bit_simps)
qed

lemma length6: "length p = 6 \<longleftrightarrow> (\<exists>a b c d e f. p = [a, b, c, d, e, f])"
  by (auto simp: numeral_eq_Suc length_Suc_conv)

section \<open>Properties\<close>

text \<open>
  C25. The table-driven checksum of \<^verbatim>\<open>getcrc32\<close>, with the table that \<^verbatim>\<open>crc32_init\<close> builds by
  reversing bits around the forward polynomial, is the CRC-32 of the bitwise definition: for every
  buffer, the complement of shifting the reflected polynomial bit by bit.
\<close>

theorem getcrc32_bitwise:
  "getcrc32 buf = NOT (crc32_ref_loop 0xFFFFFFFF buf)"
  by (simp add: getcrc32_def crc32_loop_ref)

text \<open>
  C26. The byte-at-a-time computation of \<^verbatim>\<open>rtw_seccalctkipmic\<close> is Michael: the block function over
  the little-endian words of the message padded with \<^verbatim>\<open>0x5a\<close> and zeroes, where the message is the
  destination and source address that ToDS and FromDS select, the priority word and the data.
\<close>

theorem seccalctkipmic_is_michael:
  "rtw_seccalctkipmic key header data pri
    = michael key ((if header ! 1 AND 1 \<noteq> 0
                    then take 6 (drop 16 header)
                         @ (if header ! 1 AND 2 \<noteq> 0 then take 6 (drop 24 header) else take 6 (drop 10 header))
                    else take 6 (drop 4 header)
                         @ (if header ! 1 AND 2 \<noteq> 0 then take 6 (drop 16 header) else take 6 (drop 10 header)))
                   @ [pri, 0, 0, 0] @ data)"
  by (rule seccalctkipmic_michael)

text \<open>
  C27. Under one temporal key, two packets get the same RC4 key only when transmitter address and
  48-bit packet number agree: the mixing of \<^verbatim>\<open>phase1\<close> and \<^verbatim>\<open>phase2\<close> is injective.
\<close>

theorem tkip_key_unique:
  assumes "length ta = 6" "length ta' = 6"
    and "phase2 tk (phase1 tk ta iv32) iv16 = phase2 tk (phase1 tk ta' iv32') iv16'"
  shows "ta = ta' \<and> iv32 = iv32' \<and> iv16 = iv16'"
proof -
  have "length (phase1 tk ta iv32) = 5" "length (phase1 tk ta' iv32') = 5"
    by (simp_all add: phase1_def phase1_fold_length)
  then have "phase1 tk ta iv32 = phase1 tk ta' iv32' \<and> iv16 = iv16'"
    using assms(3) phase2_inject unfolding length5 by metis
  then show ?thesis
    using assms(1,2) unfolding phase1_def length6
    by (auto dest!: phase1_fold_inject [rotated 2] simp: Mk16_inject intro: ucast_halves)
qed
theorem tkip_key_unique_witness:
  "phase2 (replicate 16 7) (phase1 (replicate 16 7) [0, 1, 2, 3, 4, 5] 9) 1
   \<noteq> phase2 (replicate 16 7) (phase1 (replicate 16 7) [0, 1, 2, 3, 4, 5] 9) 2"
  using tkip_key_unique [of "[0, 1, 2, 3, 4, 5]" "[0, 1, 2, 3, 4, 5]" "replicate 16 7" 9 1 9 2] by auto

end
