(* ===== verification/Wep_Tkip.thy ===== *)
theory Wep_Tkip
  imports Sw_Crypto
begin

unbundle bit_operations_syntax

text \<open>
  The frame-level WEP and TKIP routines of \<^verbatim>\<open>core/rtw_security.c\<close>: encryption of the fragments of
  a transmit frame in place, decryption of a receive frame in place. \<open>None\<close> is an access outside a
  buffer. The station whose key is used is the one the caller looks up by the transmitter address;
  \<open>sta\<close> is its pairwise key. The counters printed when no group key is installed are left out.
\<close>

section \<open>Security state\<close>

text \<open>The fields of \<^verbatim>\<open>struct security_priv\<close> that the receive path and the software ciphers use.\<close>

record security_priv =
  dot11AuthAlgrthm :: u32
  dot11PrivacyKeyIndex :: u32
  dot11DefKey :: "bytes list"
  dot11DefKeylen :: "u32 list"
  dot118021XGrpKeyid :: u32
  dot118021XGrpKey :: "bytes list"
  dot118021XGrprxmickey :: "bytes list"
  iv_seq :: "bytes list"
  binstallGrpkey :: bool
  busetkipkey :: bool
  bcheck_grpkey :: bool
  hw_decrypted :: bool
  last_mic_err_time :: u64
  btkip_countermeasure :: bool
  btkip_countermeasure_time :: u64
  dot11PrivacyAlgrthm :: u32
  dot118021XGrpPrivacy :: u32
  ndisauthtype :: u32
  sw_decrypt :: bool
  binstallBIPkey :: bool
  dot11wCipher :: u8
  dot11wBIPKeyid :: u32
  dot11wBIPKey :: "bytes list"
  dot11wBIPtxpn :: u64
  dot11wBIPrxpn :: u64
  dot118021XGrptxmickey :: "bytes list"
  sw_encrypt :: bool
  dot118021x_bmc_cam_id :: u8

text \<open>The fields of \<^verbatim>\<open>struct pkt_attrib\<close> of a transmit frame that encryption uses.\<close>

record pkt_attrib =
  at_encrypt :: u8
  at_hdrlen :: u16
  at_iv_len :: u8
  at_icv_len :: u8
  at_nr_frags :: u8
  at_last_txcmdsz :: u32
  at_ra :: bytes
  at_ta :: bytes
  at_UncstKey :: bytes
  at_pktlen :: u32
  at_psta :: "nat option"
  at_key_type :: u8
  at_bswenc :: bool
  at_iv :: bytes
  at_icv :: bytes

definition idx :: "'a list \<Rightarrow> nat \<Rightarrow> 'a option" where
  "idx xs i = (if i < length xs then Some (xs ! i) else None)"

section \<open>Transmit side\<close>

text \<open>\<^verbatim>\<open>hw_hdr_offset\<close>: a \<^verbatim>\<open>u8\<close>, from \<^verbatim>\<open>TXDESC_SIZE\<close> 40 and \<^verbatim>\<open>PACKET_OFFSET_SZ\<close> 8.\<close>

definition hw_hdr_offset :: "int \<Rightarrow> nat" where
  "hw_hdr_offset pkt_offset = unat (word_of_int (40 + pkt_offset * 8) :: u8)"

definition RND4 :: "nat \<Rightarrow> nat" where
  "RND4 x = (x div 4 + (if x mod 4 = 0 then 0 else 1)) * 4"

text \<open>The next fragment: \<^verbatim>\<open>pframe\<close> advanced by \<^verbatim>\<open>frag_len\<close> and rounded up as an address (the buffer is at \<open>base\<close>).\<close>

definition next_frag :: "nat \<Rightarrow> u32 \<Rightarrow> nat \<Rightarrow> nat" where
  "next_frag base frag_len pframe = RND4 (base + pframe + unat frag_len) - base"

definition frag_length :: "pkt_attrib \<Rightarrow> u32 \<Rightarrow> u32" where
  "frag_length pa sz = sz - ucast (at_hdrlen pa) - ucast (at_iv_len pa) - ucast (at_icv_len pa)"

text \<open>
  The block both routines repeat: checksum the payload, run RC4 over the payload and then over the
  checksum, in place.
\<close>

definition rc4_seal :: "bytes \<Rightarrow> nat \<Rightarrow> u32 \<Rightarrow> bytes \<Rightarrow> nat \<Rightarrow> bytes option" where
  "rc4_seal buf off len key key_len =
     (if sint len < 0 \<or> off + unat len + 4 > length buf then None
      else
       (let payload = take (unat len) (drop off buf);
            crc = secmicputuint32 (getcrc32 payload);
            ctx = arcfour_init key key_len;
            (c1, ctx) = arcfour_encrypt ctx payload;
            (c2, ctx) = arcfour_encrypt ctx crc
        in Some (take off buf @ c1 @ c2 @ drop (off + unat len + 4) buf)))"

definition buf_rd :: "bytes \<Rightarrow> nat \<Rightarrow> nat \<Rightarrow> bytes option" where
  "buf_rd buf off n = (if off + n \<le> length buf then Some (take n (drop off buf)) else None)"

text \<open>The WEP seed: the three IV bytes and the default key; the local buffer has 16 bytes.\<close>

definition wep_seed :: "security_priv \<Rightarrow> nat \<Rightarrow> bytes \<Rightarrow> bytes option" where
  "wep_seed sec keyindex iv3 =
     (case (idx (dot11DefKey sec) keyindex, idx (dot11DefKeylen sec) keyindex) of
        (Some key, Some keylength) \<Rightarrow>
          if 3 + unat keylength > 16 then None else Some (iv3 @ take (unat keylength) key)
      | _ \<Rightarrow> None)"

fun wep_frags :: "security_priv \<Rightarrow> pkt_attrib \<Rightarrow> u32 \<Rightarrow> nat \<Rightarrow> nat \<Rightarrow> nat \<Rightarrow> bytes \<Rightarrow> bytes option" where
  "wep_frags sec pa frag_len base 0 pframe buf = Some buf"
| "wep_frags sec pa frag_len base (Suc n) pframe buf =
     (case buf_rd buf (pframe + unat (at_hdrlen pa)) 3 of None \<Rightarrow> None | Some iv3 \<Rightarrow>
      case wep_seed sec (unat (dot11PrivacyKeyIndex sec)) iv3 of None \<Rightarrow> None | Some wepkey \<Rightarrow>
       (let payload = pframe + unat (at_iv_len pa) + unat (at_hdrlen pa) in
        if n = 0 then
          rc4_seal buf payload (frag_length pa (at_last_txcmdsz pa)) wepkey (length wepkey)
        else
          case rc4_seal buf payload (frag_length pa frag_len) wepkey (length wepkey) of
            None \<Rightarrow> None
          | Some buf \<Rightarrow> wep_frags sec pa frag_len base n (next_frag base frag_len pframe) buf))"

definition rtw_wep_encrypt :: "security_priv \<Rightarrow> pkt_attrib \<Rightarrow> u32 \<Rightarrow> nat \<Rightarrow> int \<Rightarrow> bytes option \<Rightarrow> bytes option option" where
  "rtw_wep_encrypt sec pa frag_len base pkt_offset buf_addr =
     (case buf_addr of None \<Rightarrow> Some None
      | Some buf \<Rightarrow>
         if at_encrypt pa = WEP40 \<or> at_encrypt pa = WEP104
         then map_option Some (wep_frags sec pa frag_len base (unat (at_nr_frags pa)) (hw_hdr_offset pkt_offset) buf)
         else Some (Some buf))"

text \<open>\<^verbatim>\<open>GET_TKIP_PN\<close> and the two mixing phases.\<close>

definition tkip_rc4key :: "bytes \<Rightarrow> bytes \<Rightarrow> bytes \<Rightarrow> bytes" where
  "tkip_rc4key tk ta iv =
     (let pnl = Mk16 (iv ! 0) (iv ! 2);
          pnh = ucast (iv ! 4) OR push_bit 8 (ucast (iv ! 5)) OR push_bit 16 (ucast (iv ! 6)) OR push_bit 24 (ucast (iv ! 7))
      in phase2 tk (phase1 tk ta pnh) pnl)"

fun tkip_frags :: "bytes \<Rightarrow> pkt_attrib \<Rightarrow> u32 \<Rightarrow> nat \<Rightarrow> nat \<Rightarrow> nat \<Rightarrow> bytes \<Rightarrow> bytes option" where
  "tkip_frags prwskey pa frag_len base 0 pframe buf = Some buf"
| "tkip_frags prwskey pa frag_len base (Suc n) pframe buf =
     (case buf_rd buf (pframe + unat (at_hdrlen pa)) 8 of None \<Rightarrow> None | Some iv \<Rightarrow>
       (let payload = pframe + unat (at_iv_len pa) + unat (at_hdrlen pa);
            rc4key = tkip_rc4key prwskey (at_ta pa) iv in
        if n = 0 then rc4_seal buf payload (frag_length pa (at_last_txcmdsz pa)) rc4key 16
        else
          case rc4_seal buf payload (frag_length pa frag_len) rc4key 16 of
            None \<Rightarrow> None
          | Some buf \<Rightarrow> tkip_frags prwskey pa frag_len base n (next_frag base frag_len pframe) buf))"

definition rtw_tkip_encrypt :: "security_priv \<Rightarrow> pkt_attrib \<Rightarrow> u32 \<Rightarrow> nat \<Rightarrow> int \<Rightarrow> bytes option \<Rightarrow> (ret \<times> bytes option) option" where
  "rtw_tkip_encrypt sec pa frag_len base pkt_offset buf_addr =
     (case buf_addr of None \<Rightarrow> Some (RET_FAIL, None)
      | Some buf \<Rightarrow>
         if at_encrypt pa = TKIP then
           (case (if IS_MCAST (at_ra pa) then idx (dot118021XGrpKey sec) (unat (dot118021XGrpKeyid sec))
                  else Some (at_UncstKey pa)) of
              None \<Rightarrow> None
            | Some prwskey \<Rightarrow>
                map_option (\<lambda>buf. (RET_SUCCESS, Some buf))
                  (tkip_frags prwskey pa frag_len base (unat (at_nr_frags pa)) (hw_hdr_offset pkt_offset) buf))
         else Some (RET_SUCCESS, Some buf))"

section \<open>Receive side\<close>

definition rx_payload_off :: "recv_frame \<Rightarrow> int" where
  "rx_payload_off f = uint (pa_hdrlen (fr_attrib f)) + uint (pa_iv_len (fr_attrib f))"

text \<open>The length of the part after header and IV; a shorter frame makes it wrap to a huge count.\<close>

definition rx_payload_len :: "recv_frame \<Rightarrow> u32" where
  "rx_payload_len f = fr_len f - ucast (pa_hdrlen (fr_attrib f)) - ucast (pa_iv_len (fr_attrib f))"

text \<open>\<^verbatim>\<open>arcfour_encrypt(&mycontext, payload, payload, length)\<close> on the frame's own buffer.\<close>

definition rc4_open :: "recv_frame \<Rightarrow> bytes \<Rightarrow> nat \<Rightarrow> recv_frame option" where
  "rc4_open f key key_len =
     (case frame_rd f (rx_payload_off f) (unat (rx_payload_len f)) of
        None \<Rightarrow> None
      | Some c \<Rightarrow> frame_write f (rx_data f + rx_payload_off f)
                   (fst (arcfour_encrypt (arcfour_init key key_len) c)))"

text \<open>The checksum that follows the decryption is computed and not compared with the ICV.\<close>

definition rtw_wep_decrypt :: "security_priv \<Rightarrow> recv_frame \<Rightarrow> recv_frame option" where
  "rtw_wep_decrypt sec f =
     (if pa_encrypt (fr_attrib f) = WEP40 \<or> pa_encrypt (fr_attrib f) = WEP104 then
        (case frame_rd f (uint (pa_hdrlen (fr_attrib f))) 3 of None \<Rightarrow> None | Some iv3 \<Rightarrow>
         case wep_seed sec (unat (pa_key_index (fr_attrib f))) iv3 of None \<Rightarrow> None | Some wepkey \<Rightarrow>
         rc4_open f wepkey (length wepkey))
      else Some f)"

text \<open>
  The checksum covers \<^verbatim>\<open>length - 4\<close> bytes (none when \<^verbatim>\<open>length\<close> is below 4) and is compared with the
  four bytes before the end of the decrypted part.
\<close>

definition tkip_icv_ok :: "recv_frame \<Rightarrow> bool option" where
  "tkip_icv_ok f =
     (let n = unat (rx_payload_len f) in
      case (frame_rd f (rx_payload_off f) (n - 4), frame_rd f (rx_payload_off f + int n - 4) 4) of
        (Some body, Some icv) \<Rightarrow> Some (icv = secmicputuint32 (getcrc32 body))
      | _ \<Rightarrow> None)"

definition rtw_tkip_decrypt :: "security_priv \<Rightarrow> bytes option \<Rightarrow> recv_frame \<Rightarrow> (ret \<times> recv_frame) option" where
  "rtw_tkip_decrypt sec sta f =
     (let at = fr_attrib f in
      if pa_encrypt at = TKIP then
        (case sta of
           None \<Rightarrow> Some (RET_FAIL, f)
         | Some uncst \<Rightarrow>
             if IS_MCAST (pa_ra at) \<and> \<not> binstallGrpkey sec then Some (RET_FAIL, f)
             else
              (case (if IS_MCAST (pa_ra at) then idx (dot118021XGrpKey sec) (unat (pa_key_index at)) else Some uncst) of
                 None \<Rightarrow> None
               | Some prwskey \<Rightarrow>
              case frame_rd f (uint (pa_hdrlen at)) 8 of None \<Rightarrow> None | Some iv \<Rightarrow>
              case rc4_open f (tkip_rc4key prwskey (pa_ta at) iv) 16 of None \<Rightarrow> None | Some f \<Rightarrow>
              map_option (\<lambda>ok. (if ok then RET_SUCCESS else RET_FAIL, f)) (tkip_icv_ok f)))
      else Some (RET_SUCCESS, f))"

section \<open>Sealing and opening\<close>

lemma secmicputuint32_length [simp]: "length (secmicputuint32 v) = 4"
  by (simp add: secmicputuint32_def)

lemma rc4_seal_shape:
  assumes "rc4_seal buf off len key kl = Some buf'"
  defines "plain \<equiv> take (unat len) (drop off buf)"
  shows "buf' = take off buf @ fst (arcfour_encrypt (arcfour_init key kl) (plain @ secmicputuint32 (getcrc32 plain)))
             @ drop (off + unat len + 4) buf"
    and "off + unat len + 4 \<le> length buf" and "length plain = unat len"
  using assms
  by (auto simp: rc4_seal_def Let_def split_beta arcfour_encrypt_append plain_def split: if_splits)

text \<open>Opening what \<open>rc4_seal\<close> produced: the frame's payload is prefix, cipher text and nothing else.\<close>

lemma rc4_open_sealed:
  assumes wf: "frame_wf f"
    and p: "frame_payload f = pre @ fst (arcfour_encrypt (arcfour_init key kl) body)"
    and off: "rx_payload_off f = int (length pre)"
  obtains g where "rc4_open f key kl = Some g" "frame_wf g" "frame_payload g = pre @ body"
    "fr_attrib g = fr_attrib f" "fr_len g = fr_len f" "rx_data g = rx_data f"
proof -
  have len: "unat (fr_len f) = length pre + length body"
    using frame_wf_len [OF wf] by (simp add: p)
  have pl: "unat (rx_payload_len f) = length body"
  proof -
    have "length pre = unat (pa_hdrlen (fr_attrib f)) + unat (pa_iv_len (fr_attrib f))"
      using off unfolding rx_payload_off_def uint_nat by linarith
    then show ?thesis using len by (simp add: rx_payload_len_def unat_sub_ge)
  qed
  let ?c = "fst (arcfour_encrypt (arcfour_init key kl) body)"
  have r: "frame_rd f (rx_payload_off f) (unat (rx_payload_len f)) = Some ?c"
    using frame_rd_payload [OF wf, of "rx_payload_off f" "length body"] by (simp add: pl p off)
  have "nat (rx_payload_off f) + length (fst (arcfour_encrypt (arcfour_init key kl) ?c)) \<le> length (frame_payload f)"
    by (simp add: off p)
  from frame_write_payload [OF wf _ this] off
  obtain g where g: "frame_write f (rx_data f + rx_payload_off f) (fst (arcfour_encrypt (arcfour_init key kl) ?c)) = Some g"
    "frame_wf g" "fr_attrib g = fr_attrib f" "fr_len g = fr_len f" "rx_data g = rx_data f"
    "frame_payload g = take (nat (rx_payload_off f)) (frame_payload f) @ fst (arcfour_encrypt (arcfour_init key kl) ?c)
       @ drop (nat (rx_payload_off f) + length (fst (arcfour_encrypt (arcfour_init key kl) ?c))) (frame_payload f)"
    by (metis of_nat_0_le_iff)
  have "frame_payload g = pre @ body"
    unfolding g(6) by (simp add: p off arcfour_involution)
  then show thesis using that [of g] g r by (simp add: rc4_open_def)
qed

lemma rc4_seal_Some:
  assumes "0 \<le> sint len" "off + unat len + 4 \<le> length buf"
  obtains buf' where "rc4_seal buf off len key kl = Some buf'" "length buf' = length buf"
proof -
  let ?p = "take (unat len) (drop off buf)" and ?ctx = "arcfour_init key kl"
  let ?b = "take off buf @ fst (arcfour_encrypt ?ctx ?p)
      @ fst (arcfour_encrypt (snd (arcfour_encrypt ?ctx ?p)) (secmicputuint32 (getcrc32 ?p))) @ drop (off + unat len + 4) buf"
  have "rc4_seal buf off len key kl = Some ?b"
    using assms by (simp add: rc4_seal_def Let_def split_beta)
  moreover have "length ?b = length buf" using assms(2) by simp
  ultimately show thesis by (rule that)
qed

lemma tkip_encrypt_one:
  assumes "at_encrypt pa = TKIP" "at_nr_frags pa = 1" "\<not> IS_MCAST (at_ra pa)"
    and "0 \<le> sint (frag_length pa (at_last_txcmdsz pa))" "8 \<le> unat (at_iv_len pa)"
    and "hw_hdr_offset po + unat (at_iv_len pa) + unat (at_hdrlen pa) + unat (frag_length pa (at_last_txcmdsz pa)) + 4 \<le> length buf"
  obtains buf' where "rtw_tkip_encrypt sec pa fl base po (Some buf) = Some (RET_SUCCESS, Some buf')" "length buf' = length buf"
proof -
  let ?iv = "take 8 (drop (hw_hdr_offset po + unat (at_hdrlen pa)) buf)"
  obtain buf' where b: "rc4_seal buf (hw_hdr_offset po + unat (at_iv_len pa) + unat (at_hdrlen pa))
      (frag_length pa (at_last_txcmdsz pa)) (tkip_rc4key (at_UncstKey pa) (at_ta pa) ?iv) 16 = Some buf'" "length buf' = length buf"
    using rc4_seal_Some [OF assms(4,6)] by blast
  have "buf_rd buf (hw_hdr_offset po + unat (at_hdrlen pa)) 8 = Some ?iv"
    using assms(5,6) by (simp add: buf_rd_def)
  then show thesis
    using b that [of buf'] assms(1-3) by (simp add: rtw_tkip_encrypt_def Let_def)
qed

text \<open>The bytes of a single-fragment frame in the transmit buffer.\<close>

definition air_frame :: "nat \<Rightarrow> pkt_attrib \<Rightarrow> bytes \<Rightarrow> bytes" where
  "air_frame hoff pa buf = take (unat (at_last_txcmdsz pa)) (drop hoff buf)"

text \<open>
  C28. Decrypting a TKIP frame as it was encrypted restores it: for a unicast frame sent in one
  fragment, received with the same addresses, header and IV lengths, \<^verbatim>\<open>rtw_tkip_decrypt\<close> with the
  sender's key succeeds and leaves the header, the plain text and its checksum.
\<close>

theorem tkip_roundtrip:
  assumes tx: "at_encrypt pa = TKIP" "at_nr_frags pa = 1" "8 \<le> unat (at_iv_len pa)" "at_icv_len pa = 4"
      "\<not> IS_MCAST (at_ra pa)" "unat (at_hdrlen pa) + unat (at_iv_len pa) + 4 \<le> unat (at_last_txcmdsz pa)"
    and enc: "rtw_tkip_encrypt sec pa frag_len base pkt_offset (Some buf) = Some (RET_SUCCESS, Some buf')"
    and rx: "frame_wf f" "pa_encrypt (fr_attrib f) = TKIP" "unat (pa_hdrlen (fr_attrib f)) = unat (at_hdrlen pa)"
      "pa_iv_len (fr_attrib f) = at_iv_len pa" "pa_ta (fr_attrib f) = at_ta pa" "pa_ra (fr_attrib f) = at_ra pa"
    and air: "frame_payload f = air_frame (hw_hdr_offset pkt_offset) pa buf'"
  defines "h \<equiv> unat (at_hdrlen pa) + unat (at_iv_len pa)"
  defines "sent \<equiv> air_frame (hw_hdr_offset pkt_offset) pa buf"
  defines "plain \<equiv> take (unat (at_last_txcmdsz pa) - h - 4) (drop h sent)"
  shows "\<exists>g. rtw_tkip_decrypt sec' (Some (at_UncstKey pa)) f = Some (RET_SUCCESS, g)
    \<and> frame_payload g = take h sent @ plain @ secmicputuint32 (getcrc32 plain)"
proof -
  define hoff where "hoff = hw_hdr_offset pkt_offset"
  define L where "L = unat (at_last_txcmdsz pa)"
  define n where "n = L - h - 4"
  have L: "L = h + n + 4" using tx(6) by (simp add: n_def L_def h_def)
  have fl: "unat (frag_length pa (at_last_txcmdsz pa)) = n"
  proof -
    have "unat (at_last_txcmdsz pa) = unat (at_hdrlen pa) + unat (at_iv_len pa) + n + 4"
      using L by (simp add: L_def h_def)
    then show ?thesis by (simp add: frag_length_def tx(4) unat_sub_ge)
  qed
  from enc tx obtain iv where iv: "buf_rd buf (hoff + unat (at_hdrlen pa)) 8 = Some iv"
    and seal: "rc4_seal buf (hoff + h) (frag_length pa (at_last_txcmdsz pa)) (tkip_rc4key (at_UncstKey pa) (at_ta pa) iv) 16 = Some buf'"
    by (auto simp: rtw_tkip_encrypt_def hoff_def h_def numeral_eq_Suc Let_def add.commute add.left_commute split: option.splits if_splits)
  let ?key = "tkip_rc4key (at_UncstKey pa) (at_ta pa) iv"
  let ?body = "plain @ secmicputuint32 (getcrc32 plain)"
  let ?c = "fst (arcfour_encrypt (arcfour_init ?key 16) ?body)"
  have plain: "plain = take n (drop (hoff + h) buf)"
    by (simp add: plain_def sent_def air_frame_def hoff_def [symmetric] L_def [symmetric] n_def drop_take add.commute min_def)
  note shape = rc4_seal_shape [OF seal, unfolded fl plain [symmetric]]
  have pf: "frame_payload f = take h sent @ ?c"
    using shape(2,3) unfolding air air_frame_def hoff_def [symmetric] L_def [symmetric] shape(1) sent_def
    by (simp add: L drop_take)
  have lp: "length (take h sent) = h"
    using shape(2) by (simp add: sent_def air_frame_def hoff_def [symmetric] L_def [symmetric] L)
  have off: "rx_payload_off f = int (length (take h sent))"
    unfolding lp unfolding rx_payload_off_def h_def uint_nat by (simp only: rx(3,4) of_nat_add)
  obtain g where g: "rc4_open f ?key 16 = Some g" "frame_wf g" "frame_payload g = take h sent @ ?body"
    "fr_attrib g = fr_attrib f" "fr_len g = fr_len f" "rx_data g = rx_data f"
    using rc4_open_sealed [OF rx(1) pf off] by blast
  have rl: "unat (rx_payload_len g) = n + 4"
  proof -
    have "unat (fr_len g) = h + n + 4" using frame_wf_len [OF g(2)] lp shape(3) by (simp add: g(3))
    then show ?thesis using rx(3,4) by (simp add: rx_payload_len_def g(4) h_def unat_sub_ge)
  qed
  have "tkip_icv_ok g = Some True"
    using frame_rd_payload [OF g(2), of "rx_payload_off g" n]
      frame_rd_payload [OF g(2), of "rx_payload_off g + int n" 4] lp shape(3) off
    by (simp add: tkip_icv_ok_def rl g(3) rx_payload_off_def g(4))
  moreover have "frame_rd f (uint (pa_hdrlen (fr_attrib f))) 8 = Some iv"
  proof -
    have "frame_rd f (uint (pa_hdrlen (fr_attrib f))) 8
        = Some (take 8 (drop (unat (at_hdrlen pa)) (frame_payload f)))"
      using frame_rd_payload [OF rx(1), of "uint (pa_hdrlen (fr_attrib f))" 8] rx(3) tx(3) lp
      by (simp add: pf h_def)
    also have "take 8 (drop (unat (at_hdrlen pa)) (frame_payload f)) = take 8 (drop (hoff + unat (at_hdrlen pa)) buf)"
      using tx(3) shape(2) unfolding pf
      by (simp add: h_def sent_def air_frame_def hoff_def [symmetric] L_def [symmetric] L drop_take min_def add.commute)
    finally show ?thesis using iv by (auto simp: buf_rd_def split: if_splits)
  qed
  ultimately show ?thesis
    using g tx(5) rx by (auto simp: rtw_tkip_decrypt_def Let_def)
qed

text \<open>Concrete instances.\<close>

definition sample_sec :: security_priv where
  "sample_sec = \<lparr>dot11AuthAlgrthm = 2, dot11PrivacyKeyIndex = 0, dot11DefKey = replicate 6 (replicate 32 0),
     dot11DefKeylen = replicate 6 13, dot118021XGrpKeyid = 1, dot118021XGrpKey = replicate 6 (replicate 32 0),
     dot118021XGrprxmickey = replicate 6 (replicate 32 0), iv_seq = replicate 4 (replicate 8 0),
     binstallGrpkey = True, busetkipkey = True, bcheck_grpkey = False, hw_decrypted = False,
     last_mic_err_time = 0, btkip_countermeasure = False, btkip_countermeasure_time = 0,
     dot11PrivacyAlgrthm = 2, dot118021XGrpPrivacy = 2, ndisauthtype = 0, sw_decrypt = False,
     binstallBIPkey = True, dot11wCipher = 0x20, dot11wBIPKeyid = 4, dot11wBIPKey = replicate 6 (replicate 32 9),
     dot11wBIPtxpn = 0, dot11wBIPrxpn = 0, dot118021XGrptxmickey = replicate 6 (replicate 32 0),
     sw_encrypt = False, dot118021x_bmc_cam_id = 0\<rparr>"

definition sample_tkip_attrib :: pkt_attrib where
  "sample_tkip_attrib = \<lparr>at_encrypt = TKIP, at_hdrlen = 24, at_iv_len = 8, at_icv_len = 4, at_nr_frags = 1,
     at_last_txcmdsz = 38, at_ra = replicate 6 2, at_ta = replicate 6 4, at_UncstKey = replicate 32 7, at_pktlen = 38, at_psta = None, at_key_type = 0,
     at_bswenc = True, at_iv = replicate 18 0, at_icv = replicate 16 0\<rparr>"

definition sample_tkip_frame :: "bytes \<Rightarrow> recv_frame" where
  "sample_tkip_frame mem = \<lparr>fr_id = 1, fr_keytrack = 0,
     fr_attrib = sample_attrib\<lparr>pa_encrypt := TKIP, pa_hdrlen := 24, pa_iv_len := 8, pa_ta := replicate 6 4, pa_ra := replicate 6 2\<rparr>,
     fr_len = 38, rx_mem = mem, rx_data = 0, rx_tail = 38, fr_psta = None, fr_preorder_ctrl = None\<rparr>"

theorem tkip_roundtrip_witness:
  "\<exists>buf' g. rtw_tkip_encrypt sample_sec sample_tkip_attrib 2000 0 0 (Some (replicate 78 9)) = Some (RET_SUCCESS, Some buf')
    \<and> rtw_tkip_decrypt sample_sec (Some (replicate 32 7)) (sample_tkip_frame (air_frame 40 sample_tkip_attrib buf')) = Some (RET_SUCCESS, g)
    \<and> take 2 (drop 32 (frame_payload g)) = replicate 2 9"
proof -
  let ?pa = sample_tkip_attrib and ?buf = "replicate 78 9 :: bytes"
  have o40: "hw_hdr_offset 0 = 40" by (simp add: hw_hdr_offset_def)
  have fl: "frag_length ?pa (at_last_txcmdsz ?pa) = 2" by (simp add: frag_length_def sample_tkip_attrib_def)
  have mc: "\<not> IS_MCAST (at_ra ?pa)" by (simp add: sample_tkip_attrib_def IS_MCAST_def numeral_eq_Suc)
  obtain buf' where enc: "rtw_tkip_encrypt sample_sec ?pa 2000 0 0 (Some ?buf) = Some (RET_SUCCESS, Some buf')"
    and lb: "length buf' = 78"
    using tkip_encrypt_one [of ?pa 0 ?buf sample_sec 2000 0] mc fl
    by (auto simp: o40) (auto simp: sample_tkip_attrib_def)
  have tx: "at_encrypt ?pa = TKIP" "at_nr_frags ?pa = 1" "8 \<le> unat (at_iv_len ?pa)" "at_icv_len ?pa = 4"
      "\<not> IS_MCAST (at_ra ?pa)" "unat (at_hdrlen ?pa) + unat (at_iv_len ?pa) + 4 \<le> unat (at_last_txcmdsz ?pa)"
    using mc by (simp_all add: sample_tkip_attrib_def)
  let ?f = "sample_tkip_frame (air_frame 40 ?pa buf')"
  have len: "length (air_frame 40 ?pa buf') = 38" using lb by (simp add: air_frame_def sample_tkip_attrib_def)
  then have rx: "frame_wf ?f" "pa_encrypt (fr_attrib ?f) = TKIP" "unat (pa_hdrlen (fr_attrib ?f)) = unat (at_hdrlen ?pa)"
      "pa_iv_len (fr_attrib ?f) = at_iv_len ?pa" "pa_ta (fr_attrib ?f) = at_ta ?pa" "pa_ra (fr_attrib ?f) = at_ra ?pa"
    by (simp_all add: frame_wf_def sample_tkip_frame_def sample_tkip_attrib_def)
  have air: "frame_payload ?f = air_frame (hw_hdr_offset 0) ?pa buf'"
    using len by (simp add: frame_payload_def sample_tkip_frame_def o40)
  obtain g where "rtw_tkip_decrypt sample_sec (Some (at_UncstKey ?pa)) ?f = Some (RET_SUCCESS, g)"
    "take 2 (drop 32 (frame_payload g)) = replicate 2 9"
    using tkip_roundtrip [OF tx enc rx air, of sample_sec]
    by (auto simp: o40 air_frame_def sample_tkip_attrib_def min_def)
  then show ?thesis using enc by (auto simp: sample_tkip_attrib_def)
qed

end
