(* ===== verification/Recv_Decache.thy ===== *)
theory Recv_Decache
  imports Sta_Mgt Wep_Tkip
begin

unbundle bit_operations_syntax

text \<open>
  Duplicate and replay filters of the receive path (\<^verbatim>\<open>core/rtw_recv.c\<close>): the per-station sequence
  control cache (\<^verbatim>\<open>recv_decache\<close>), the packet number cache of unicast CCMP frames
  (\<^verbatim>\<open>recv_ucast_pn_decache\<close>) and the replay counter of group keys (\<^verbatim>\<open>recv_bcast_pn_decache\<close>). The
  station is the one the frame's \<^verbatim>\<open>psta\<close> points to; \<open>None\<close> is a read outside the frame's buffer.
\<close>

section \<open>The sequence control cache\<close>

definition seq_ctrl :: "rx_pkt_attrib \<Rightarrow> u16" where
  "seq_ctrl a = push_bit 4 (pa_seq_num a AND 0xFFFF) OR ucast (pa_frag_num a AND 0xF)"

text \<open>\<^verbatim>\<open>prxseq\<close>: the cache cell a frame is compared with, read and written.\<close>

definition rxseq_get :: "rx_pkt_attrib \<Rightarrow> sta_info \<Rightarrow> u16" where
  "rxseq_get a s =
     (if pa_qos a then (if IS_MCAST (pa_ra a) then si_bmc_tid_rxseq s ! unat (pa_priority a)
                        else si_tid_rxseq s ! unat (pa_priority a))
      else if IS_MCAST (pa_ra a) then si_nonqos_bmc_rxseq s else si_nonqos_rxseq s)"

definition rxseq_set :: "rx_pkt_attrib \<Rightarrow> u16 \<Rightarrow> sta_info \<Rightarrow> sta_info" where
  "rxseq_set a v s =
     (if pa_qos a then
        (if IS_MCAST (pa_ra a) then s\<lparr>si_bmc_tid_rxseq := (si_bmc_tid_rxseq s)[unat (pa_priority a) := v]\<rparr>
         else s\<lparr>si_tid_rxseq := (si_tid_rxseq s)[unat (pa_priority a) := v]\<rparr>)
      else if IS_MCAST (pa_ra a) then s\<lparr>si_nonqos_bmc_rxseq := v\<rparr> else s\<lparr>si_nonqos_rxseq := v\<rparr>)"

definition recv_decache :: "rx_pkt_attrib \<Rightarrow> sta_info \<Rightarrow> ret \<times> sta_info" where
  "recv_decache a s =
     (if pa_priority a > 15 then (RET_FAIL, s)
      else if seq_ctrl a = rxseq_get a s then (RET_FAIL, s\<lparr>si_duplicate_cnt := si_duplicate_cnt s + 1\<rparr>)
      else (RET_SUCCESS, rxseq_set a (seq_ctrl a) s))"

section \<open>Packet numbers\<close>

definition le64 :: "bytes \<Rightarrow> u64" where
  "le64 b = fold (\<lambda>i v. v OR push_bit (8 * i) (ucast (b ! i))) [0..<8] 0"

definition put_le64 :: "u64 \<Rightarrow> bytes" where
  "put_le64 v = map (\<lambda>i. ucast (drop_bit (8 * i) v)) [0..<8]"

definition PN_LESS_CHK :: "u64 \<Rightarrow> u64 \<Rightarrow> bool" where
  "PN_LESS_CHK a b \<longleftrightarrow> (a - b) AND 0x800000000000 \<noteq> 0"

definition VALID_PN_CHK :: "u64 \<Rightarrow> u64 \<Rightarrow> bool" where
  "VALID_PN_CHK new old \<longleftrightarrow> old = 0 \<or> PN_LESS_CHK old new"

definition CCMPH_2_PN :: "u64 \<Rightarrow> u64" where
  "CCMPH_2_PN ch = (ch AND 0xFFFF) OR drop_bit 16 (ch AND 0xFFFFFFFF00000000)"

definition CCMPH_2_KEYID :: "u64 \<Rightarrow> u8" where
  "CCMPH_2_KEYID ch = ucast (drop_bit 30 (ch AND 0xC0000000))"

text \<open>\<^verbatim>\<open>le64_to_cpu(*(u64*)(pdata + pattrib->hdrlen))\<close>: the CCMP header of a frame.\<close>

definition frame_ccmph :: "recv_frame \<Rightarrow> bytes option" where
  "frame_ccmph f = frame_rd f (uint (pa_hdrlen (fr_attrib f))) 8"

definition recv_ucast_pn_decache :: "recv_frame \<Rightarrow> sta_info \<Rightarrow> (ret \<times> sta_info) option" where
  "recv_ucast_pn_decache f s =
     (let a = fr_attrib f; tid = unat (pa_priority a) in
      if tid > 15 then Some (RET_FAIL, s)
      else if pa_encrypt a = AES then
        (case frame_ccmph f of
           None \<Rightarrow> None
         | Some h \<Rightarrow>
             if \<not> VALID_PN_CHK (CCMPH_2_PN (le64 h)) (CCMPH_2_PN (le64 (si_rx_iv s ! tid)))
             then Some (RET_SUCCESS, s)
             else Some (RET_SUCCESS, s\<lparr>si_last_tid := of_nat tid, si_rx_iv := (si_rx_iv s)[tid := h]\<rparr>))
      else Some (RET_SUCCESS, s))"

text \<open>\<open>station\<close> is \<^verbatim>\<open>check_fwstate(pmlmepriv, WIFI_STATION_STATE)\<close>.\<close>

definition recv_bcast_pn_decache :: "bool \<Rightarrow> recv_frame \<Rightarrow> security_priv \<Rightarrow> (ret \<times> security_priv) option" where
  "recv_bcast_pn_decache station f sec =
     (if pa_encrypt (fr_attrib f) = AES \<and> station then
        (case frame_ccmph f of
           None \<Rightarrow> None
         | Some h \<Rightarrow>
            (let key_id = unat (CCMPH_2_KEYID (le64 h));
                 pkt_pn = CCMPH_2_PN (le64 h);
                 curr_pn = le64 (iv_seq sec ! key_id) AND 0x0000FFFFFFFFFFFF in
             if \<not> VALID_PN_CHK pkt_pn curr_pn then Some (RET_FAIL, sec)
             else Some (RET_SUCCESS, sec\<lparr>iv_seq := (iv_seq sec)[key_id := put_le64 pkt_pn]\<rparr>)))
      else Some (RET_SUCCESS, sec))"

section \<open>Duplicates\<close>

text \<open>The channel a frame belongs to: which cell of the cache it is compared with.\<close>

definition chan :: "rx_pkt_attrib \<Rightarrow> bool \<times> bool \<times> u8" where
  "chan a = (pa_qos a, IS_MCAST (pa_ra a), if pa_qos a then pa_priority a else 0)"

definition decache_wf :: "sta_info \<Rightarrow> bool" where
  "decache_wf s \<longleftrightarrow> length (si_tid_rxseq s) = 16 \<and> length (si_bmc_tid_rxseq s) = 16"

lemma prio_16: "\<not> (pa_priority a > 15) \<Longrightarrow> unat (pa_priority a) < 16"
  by (simp add: word_less_nat_alt)

lemma rxseq_get_set:
  assumes "decache_wf s" "\<not> pa_priority a > 15" 
  shows "rxseq_get b (rxseq_set a v s) = (if chan a = chan b then v else rxseq_get b s)"
  using assms prio_16 [of a]
  by (auto simp: rxseq_get_def rxseq_set_def chan_def decache_wf_def nth_list_update word_unat_eq_iff)

lemma rxseq_get_cong: "chan a = chan b \<Longrightarrow> rxseq_get a s = rxseq_get b s"
  by (auto simp: rxseq_get_def chan_def split: if_splits)

lemma decache_wf_step: "decache_wf s \<Longrightarrow> decache_wf (snd (recv_decache a s))"
  by (auto simp: recv_decache_def decache_wf_def rxseq_set_def)

lemma decache_other:
  assumes "decache_wf s" "chan b \<noteq> chan a"
  shows "rxseq_get a (snd (recv_decache b s)) = rxseq_get a s"
  using assms rxseq_get_set [of s b a]
  by (auto simp: recv_decache_def) (simp_all add: rxseq_get_def)

definition decache_step :: "sta_info \<Rightarrow> rx_pkt_attrib \<Rightarrow> sta_info" where
  "decache_step s a = snd (recv_decache a s)"

lemma decache_run_other:
  assumes "decache_wf s" "\<forall>b\<in>set bs. chan b \<noteq> chan a"
  shows "rxseq_get a (run decache_step s bs) = rxseq_get a s \<and> decache_wf (run decache_step s bs)"
  using assms
  by (induction bs arbitrary: s) (simp_all add: decache_step_def decache_wf_step decache_other)

text \<open>
  C29. Once a frame has been accepted, a frame of the same channel (QoS and traffic id, or not; group
  addressed or not) with the same sequence control is refused, whatever frames of other channels
  came in between, and one with another sequence control is accepted.
\<close>

theorem recv_decache_dedup:
  assumes "decache_wf s" "recv_decache a s = (RET_SUCCESS, s')" "\<forall>b\<in>set bs. chan b \<noteq> chan a"
  shows "seq_ctrl a \<noteq> rxseq_get a s
    \<and> (\<forall>c. chan c = chan a \<and> pa_priority c \<le> 15 \<longrightarrow>
         fst (recv_decache c (run decache_step s' bs)) = (if seq_ctrl c = seq_ctrl a then RET_FAIL else RET_SUCCESS))"
proof -
  from assms(2) have ok: "\<not> pa_priority a > 15" "seq_ctrl a \<noteq> rxseq_get a s" "s' = rxseq_set a (seq_ctrl a) s"
    by (auto simp: recv_decache_def split: if_splits)
  have "decache_wf s'" using decache_wf_step [OF assms(1), of a] assms(2) by simp
  then have "rxseq_get a (run decache_step s' bs) = seq_ctrl a"
    using decache_run_other [OF _ assms(3)] rxseq_get_set [OF assms(1) ok(1)] ok(3) by simp
  then have "rxseq_get c (run decache_step s' bs) = seq_ctrl a" if "chan c = chan a" for c
    using rxseq_get_cong [OF that] by simp
  then show ?thesis using ok(2) by (auto simp: recv_decache_def)
qed

theorem recv_decache_dedup_witness:
  "\<exists>s'. recv_decache sample_attrib (init_stainfo (replicate 6 4)) = (RET_SUCCESS, s')
     \<and> fst (recv_decache sample_attrib (run decache_step s' [sample_attrib\<lparr>pa_priority := 3\<rparr>])) = RET_FAIL"
proof -
  let ?a = sample_attrib and ?s = "init_stainfo (replicate 6 4)"
  have wf: "decache_wf ?s" by (simp add: decache_wf_def init_stainfo_def)
  obtain s' where s: "recv_decache ?a ?s = (RET_SUCCESS, s')"
    by (simp add: recv_decache_def rxseq_get_def seq_ctrl_def sample_attrib_def init_stainfo_def IS_MCAST_def split: list.split)
  have o': "\<forall>b\<in>set [?a\<lparr>pa_priority := 3\<rparr>]. chan b \<noteq> chan ?a"
    by (simp add: chan_def sample_attrib_def)
  show ?thesis using recv_decache_dedup [OF wf s o'] s by (auto simp: sample_attrib_def)
qed

section \<open>The packet number comparison\<close>

lemma bit_le64_byte:
  "n < 64 \<Longrightarrow> bit (push_bit k (ucast (ucast (drop_bit k v) :: u8)) :: u64) n \<longleftrightarrow> k \<le> n \<and> n < k + 8 \<and> bit v n" for v :: u64
  by (auto simp: bit_simps)

lemma le64_put [simp]: "le64 (put_le64 v) = v"
proof (rule bit_word_eqI)
  fix n assume "n < LENGTH(64)"
  then have n: "n < 64" by simp
  have "le64 (put_le64 v) = fold (\<lambda>k w. w OR push_bit k (ucast (ucast (drop_bit k v) :: u8))) [0, 8, 16, 24, 32, 40, 48, 56] 0"
    by (simp add: le64_def put_le64_def upt_rec)
  then have "bit (le64 (put_le64 v)) n \<longleftrightarrow> bit v n \<and> (n < 8 \<or> 8 \<le> n \<and> n < 16 \<or> 16 \<le> n \<and> n < 24
      \<or> 24 \<le> n \<and> n < 32 \<or> 32 \<le> n \<and> n < 40 \<or> 40 \<le> n \<and> n < 48 \<or> 48 \<le> n \<and> n < 56 \<or> 56 \<le> n \<and> n < 64)"
    by (simp only: fold_simps bit_or_iff bit_le64_byte [OF n] bit_0_eq) auto
  then show "bit (le64 (put_le64 v)) n = bit v n" using n by linarith
qed

lemma bit47: "w AND 0x800000000000 \<noteq> 0 \<longleftrightarrow> bit w 47" for w :: u64
proof -
  have "(0x800000000000 :: u64) = push_bit 47 1" by simp
  then show ?thesis by (simp only: and_exp_eq_0_iff_not_bit push_bit_of_1 not_not)
qed

lemma CCMPH_2_PN_bound: "uint (CCMPH_2_PN ch) < 2 ^ 48"
proof -
  have "take_bit 48 (CCMPH_2_PN ch) = CCMPH_2_PN ch"
    by (rule bit_word_eqI) (auto simp: CCMPH_2_PN_def bit_simps not_bit_ge [of _ 48])
  then have "uint (take_bit 48 (CCMPH_2_PN ch)) = uint (CCMPH_2_PN ch)" by simp
  then show ?thesis using take_bit_int_less_exp [of 48 "uint (CCMPH_2_PN ch)"] by (simp add: unsigned_take_bit_eq)
qed

lemma valid_pn_iff:
  assumes "uint new < 2 ^ 48" "uint old < 2 ^ 48"
  shows "VALID_PN_CHK new old \<longleftrightarrow> old = 0 \<or> (let d = (uint new - uint old) mod 2 ^ 48 in 0 < d \<and> d \<le> 2 ^ 47)"
proof -
  define d where "d = (uint old - uint new) mod 2 ^ 48"
  have d: "0 \<le> d" "d < 2 ^ Suc 47" by (simp_all add: d_def)
  have "bit (old - new) 47 \<longleftrightarrow> bit (take_bit 48 (uint (old - new))) 47" by (simp add: bit_simps)
  also have "take_bit 48 (uint (old - new)) = d"
    by (simp add: d_def uint_word_ariths take_bit_eq_mod mod_mod_cancel)
  finally have b: "bit (old - new) 47 \<longleftrightarrow> 2 ^ 47 \<le> d" using bit_top [OF d] by simp
  have "(uint new - uint old) mod 2 ^ 48 = (- d) mod 2 ^ 48"
    by (simp add: d_def mod_simps)
  also have "\<dots> = (if d = 0 then 0 else 2 ^ 48 - d)"
    using d by (auto simp: zmod_zminus1_eq_if)
  finally show ?thesis using d by (auto simp: VALID_PN_CHK_def PN_LESS_CHK_def bit47 b Let_def)
qed

definition bcast_pn :: "recv_frame \<Rightarrow> u64" where
  "bcast_pn f = (case frame_ccmph f of None \<Rightarrow> 0 | Some h \<Rightarrow> CCMPH_2_PN (le64 h))"

definition bcast_keyid :: "recv_frame \<Rightarrow> nat" where
  "bcast_keyid f = (case frame_ccmph f of None \<Rightarrow> 0 | Some h \<Rightarrow> unat (CCMPH_2_KEYID (le64 h)))"

definition group_pn :: "security_priv \<Rightarrow> nat \<Rightarrow> u64" where
  "group_pn sec k = le64 (iv_seq sec ! k) AND 0x0000FFFFFFFFFFFF"

lemma keyid_bound: "unat (CCMPH_2_KEYID ch) < 4"
proof -
  have b: "\<not> bit (3 :: int) n" if "2 \<le> n" for n using not_bit_ge [of 3 2 n] that by simp
  have "take_bit 2 (CCMPH_2_KEYID ch) = CCMPH_2_KEYID ch"
  proof (rule bit_word_eqI)
    fix n
    show "bit (take_bit 2 (CCMPH_2_KEYID ch)) n = bit (CCMPH_2_KEYID ch) n"
      by (cases "n < 2") (simp_all add: CCMPH_2_KEYID_def bit_simps b)
  qed
  then have "unat (take_bit 2 (CCMPH_2_KEYID ch)) = unat (CCMPH_2_KEYID ch)" by simp
  then show ?thesis using take_bit_nat_less_exp [of 2 "unat (CCMPH_2_KEYID ch)"] by (simp add: unsigned_take_bit_eq)
qed

lemma pn_mask: "uint w < 2 ^ 48 \<Longrightarrow> w AND 0x0000FFFFFFFFFFFF = w" for w :: u64
proof -
  assume "uint w < 2 ^ 48"
  then have "take_bit 48 w = w" by (simp add: word_uint_eq_iff unsigned_take_bit_eq take_bit_int_eq_self)
  moreover have "(0x0000FFFFFFFFFFFF :: u64) = mask 48" by (simp add: mask_eq_exp_minus_1)
  ultimately show ?thesis by (simp only: take_bit_eq_mask [symmetric])
qed

lemma group_pn_bound: "uint (group_pn sec k) < 2 ^ 48"
proof -
  have "(0x0000FFFFFFFFFFFF :: u64) = mask 48" by (simp add: mask_eq_exp_minus_1)
  then have "group_pn sec k = take_bit 48 (le64 (iv_seq sec ! k))" by (simp only: group_pn_def take_bit_eq_mask)
  then show ?thesis
    using take_bit_int_less_exp [of 48 "uint (le64 (iv_seq sec ! k))"] by (simp add: unsigned_take_bit_eq)
qed

text \<open>
  C30. Replay protection of CCMP group keys in station mode, exactly as the code has it. A group frame
  is accepted if the packet number recorded for its key is 0, whatever its own number is, or if its
  number is ahead of the recorded one by 1 to 2 to the 47, modulo 2 to the 48; it is refused otherwise.
  The comment above the macro asks for a greater number: this agrees with it for numbers less than
  2 to the 47 apart, but a number smaller by 2 to the 47 or more is accepted too. An accepted number is
  recorded, and the same frame is then refused, unless its number is 0. A refused frame changes nothing,
  and other keys keep their counter.
\<close>

theorem recv_bcast_pn_replay:
  assumes "pa_encrypt (fr_attrib f) = AES" "frame_ccmph f = Some h" "length (iv_seq sec) = 4"
    and "recv_bcast_pn_decache True f sec = Some (r, sec')"
  shows "(r = RET_SUCCESS \<longleftrightarrow> group_pn sec (bcast_keyid f) = 0
            \<or> (let d = (uint (bcast_pn f) - uint (group_pn sec (bcast_keyid f))) mod 2 ^ 48 in 0 < d \<and> d \<le> 2 ^ 47))
    \<and> (r = RET_SUCCESS \<longrightarrow> group_pn sec' (bcast_keyid f) = bcast_pn f
           \<and> (bcast_pn f \<noteq> 0 \<longrightarrow> recv_bcast_pn_decache True f sec' = Some (RET_FAIL, sec')))
    \<and> (r \<noteq> RET_SUCCESS \<longrightarrow> r = RET_FAIL \<and> sec' = sec)
    \<and> (\<forall>k. k \<noteq> bcast_keyid f \<longrightarrow> group_pn sec' k = group_pn sec k)"
proof -
  let ?k = "bcast_keyid f" and ?pn = "bcast_pn f"
  have k: "?k < 4" "?k = unat (CCMPH_2_KEYID (le64 h))" and pn: "?pn = CCMPH_2_PN (le64 h)" "uint ?pn < 2 ^ 48"
    using assms(2) keyid_bound CCMPH_2_PN_bound by (simp_all add: bcast_keyid_def bcast_pn_def)
  have step: "recv_bcast_pn_decache True f s = (if VALID_PN_CHK ?pn (group_pn s ?k)
      then Some (RET_SUCCESS, s\<lparr>iv_seq := (iv_seq s)[?k := put_le64 ?pn]\<rparr>) else Some (RET_FAIL, s))" for s
    using assms(1,2) by (simp add: recv_bcast_pn_decache_def Let_def k(2) [symmetric] pn(1) [symmetric] group_pn_def)
  have new: "group_pn (sec\<lparr>iv_seq := (iv_seq sec)[?k := put_le64 ?pn]\<rparr>) j = (if j = ?k then ?pn else group_pn sec j)" for j
    using k(1) assms(3) pn_mask [OF pn(2)] by (simp add: group_pn_def)
  note v = valid_pn_iff [OF pn(2) group_pn_bound]
  have self: "VALID_PN_CHK ?pn ?pn \<longleftrightarrow> ?pn = 0" using valid_pn_iff [OF pn(2) pn(2)] by simp
  show ?thesis
    using assms(4) new self by (auto simp: step v split: if_splits)
qed

definition sample_ccmp_frame :: recv_frame where
  "sample_ccmp_frame = \<lparr>fr_id = 1, fr_keytrack = 0,
     fr_attrib = sample_attrib\<lparr>pa_encrypt := AES, pa_hdrlen := 24, pa_iv_len := 8, pa_ra := replicate 6 0xFF\<rparr>,
     fr_len = 40, rx_mem = replicate 24 0 @ [5, 0, 0, 0x60, 0, 0, 0, 0] @ replicate 8 0, rx_data = 0, rx_tail = 40, fr_psta = None, fr_preorder_ctrl = None\<rparr>"

theorem recv_bcast_pn_replay_witness:
  "\<exists>sec'. recv_bcast_pn_decache True sample_ccmp_frame sample_sec = Some (RET_SUCCESS, sec')
     \<and> group_pn sec' 1 = 5 \<and> recv_bcast_pn_decache True sample_ccmp_frame sec' = Some (RET_FAIL, sec')"
proof -
  let ?f = sample_ccmp_frame
  have a: "pa_encrypt (fr_attrib ?f) = AES" "length (iv_seq sample_sec) = 4"
    by (simp_all add: sample_ccmp_frame_def sample_sec_def)
  have h: "frame_ccmph ?f = Some [5, 0, 0, 0x60, 0, 0, 0, 0]"
    by (simp add: frame_ccmph_def frame_rd_def sample_ccmp_frame_def)
  have l: "le64 [5, 0, 0, 0x60, 0, 0, 0, 0] = 0x60000005" by (simp add: le64_def upt_rec)
  have k: "bcast_keyid ?f = 1" "bcast_pn ?f = 5"
    by (simp_all add: bcast_keyid_def bcast_pn_def h l CCMPH_2_KEYID_def CCMPH_2_PN_def)
  have g: "group_pn sample_sec 1 = 0" by (simp add: group_pn_def sample_sec_def le64_def upt_rec)
  obtain r sec' where s: "recv_bcast_pn_decache True ?f sample_sec = Some (r, sec')"
  proof -
    have "recv_bcast_pn_decache True ?f sample_sec \<noteq> None" by (simp add: recv_bcast_pn_decache_def h Let_def)
    then show thesis using that by (metis not_None_eq surj_pair)
  qed
  show ?thesis using recv_bcast_pn_replay [OF a(1) h a(2) s] s g k by auto
qed


text \<open>
  The unicast cache only records: with a traffic id in range a frame is accepted whatever its packet
  number, also when the same frame was just recorded.
\<close>

lemma recv_ucast_pn_accepts_replay:
  assumes "unat (pa_priority (fr_attrib f)) \<le> 15" "frame_ccmph f = Some h"
  shows "\<exists>s' s''. recv_ucast_pn_decache f s = Some (RET_SUCCESS, s')
    \<and> recv_ucast_pn_decache f s' = Some (RET_SUCCESS, s'')"
  using assms by (auto simp: recv_ucast_pn_decache_def Let_def)

end
