(* ===== verification/Recv_Defrag.thy ===== *)
theory Recv_Defrag
  imports Recv_Decache
begin

unbundle bit_operations_syntax

text \<open>
  Fragment reassembly of the receive path (\<^verbatim>\<open>core/rtw_recv.c\<close>): \<^verbatim>\<open>recvframe_defrag\<close>,
  \<^verbatim>\<open>recvframe_chk_defrag\<close>, the TKIP integrity check \<^verbatim>\<open>recvframe_chkmic\<close> with its error handler
  (\<^verbatim>\<open>os_dep/linux/recv_linux.c\<close>), the countermeasure timer and the port control \<^verbatim>\<open>portctrl\<close>.
  A result \<open>None\<close> is an access outside a frame's buffer. A fragment queue is the list of frames linked
  in the station's \<^verbatim>\<open>defrag_q\<close>.
\<close>

section \<open>State\<close>

text \<open>
  What the receive path works on: the adapter (stations and frame pool), the security state, the key
  index of the association (\<^verbatim>\<open>pmlmeinfo->key_index\<close>) and the integrity failures reported upwards.
\<close>

record rx_ctx =
  rx_ad :: adapter
  rx_sec :: security_priv
  rx_key_index :: u32
  rx_mic_failures :: "(bytes \<times> bool) list"

abbreviation rx_pool :: "rx_ctx \<Rightarrow> recv_priv" where
  "rx_pool c \<equiv> ad_recvpriv (rx_ad c)"

definition set_pool :: "recv_priv \<Rightarrow> rx_ctx \<Rightarrow> rx_ctx" where
  "set_pool rp c = c\<lparr>rx_ad := (rx_ad c)\<lparr>ad_recvpriv := rp\<rparr>\<rparr>"

definition rx_sta :: "rx_ctx \<Rightarrow> nat \<Rightarrow> sta_info" where
  "rx_sta c i = pstainfo_buf (ad_stapriv (rx_ad c)) ! i"

definition set_sta :: "nat \<Rightarrow> sta_info \<Rightarrow> rx_ctx \<Rightarrow> rx_ctx" where
  "set_sta i s c = c\<lparr>rx_ad := (rx_ad c)\<lparr>ad_stapriv := (ad_stapriv (rx_ad c))\<lparr>
     pstainfo_buf := (pstainfo_buf (ad_stapriv (rx_ad c)))[i := s]\<rparr>\<rparr>\<rparr>"

definition free_frame :: "recv_frame \<Rightarrow> rx_ctx \<Rightarrow> rx_ctx" where
  "free_frame f c = set_pool (rtw_free_recvframe f (rx_pool c)) c"

section \<open>TKIP integrity failures and countermeasures\<close>

text \<open>Times are jiffies; \<open>hz\<close> is the kernel's \<^verbatim>\<open>HZ\<close>, \<open>now\<close> the current time.\<close>

definition rtw_handle_tkip_mic_err :: "u64 \<Rightarrow> u64 \<Rightarrow> bytes \<Rightarrow> bool \<Rightarrow> rx_ctx \<Rightarrow> rx_ctx" where
  "rtw_handle_tkip_mic_err hz now mac bgroup c =
     (let sec = rx_sec c;
          sec = (if last_mic_err_time sec = 0 then sec\<lparr>last_mic_err_time := now\<rparr>
                 else if now - last_mic_err_time sec < 60 * hz
                 then sec\<lparr>btkip_countermeasure := True, last_mic_err_time := 0, btkip_countermeasure_time := now\<rparr>
                 else sec\<lparr>last_mic_err_time := now\<rparr>)
      in c\<lparr>rx_sec := sec, rx_mic_failures := rx_mic_failures c @ [(mac, bgroup)]\<rparr>)"

text \<open>\<open>to_ms\<close> is the kernel's \<^verbatim>\<open>jiffies_to_msecs\<close>.\<close>

definition rtw_handle_tkip_countermeasure :: "(u64 \<Rightarrow> u32) \<Rightarrow> u64 \<Rightarrow> security_priv \<Rightarrow> ret \<times> security_priv" where
  "rtw_handle_tkip_countermeasure to_ms now sec =
     (if btkip_countermeasure sec then
        (let passing_ms = to_ms (now - btkip_countermeasure_time sec) in
         if passing_ms > 60 * 1000
         then (RET_SUCCESS, sec\<lparr>btkip_countermeasure := False, btkip_countermeasure_time := 0\<rparr>)
         else (RET_FAIL, sec))
      else (RET_SUCCESS, sec))"

section \<open>The integrity check\<close>

definition mic_datalen :: "recv_frame \<Rightarrow> u32" where
  "mic_datalen f = fr_len f - ucast (pa_hdrlen (fr_attrib f)) - ucast (pa_iv_len (fr_attrib f))
     - ucast (pa_icv_len (fr_attrib f)) - 8"

text \<open>The header bytes \<^verbatim>\<open>rtw_seccalctkipmic\<close> reads: up to the fourth address when both DS bits are set.\<close>

definition mic_header :: "recv_frame \<Rightarrow> bytes option" where
  "mic_header f =
     (case frame_rd f 0 2 of
        None \<Rightarrow> None
      | Some fc \<Rightarrow> frame_rd f 0 (if fc ! 1 AND 3 = 3 then 30 else 22))"

text \<open>Whether the eight bytes after the data differ from the code computed over header and data.\<close>

definition mic_error :: "bytes \<Rightarrow> recv_frame \<Rightarrow> bool option" where
  "mic_error mickey f =
     (let n = unat (mic_datalen f); p = uint (pa_hdrlen (fr_attrib f)) + uint (pa_iv_len (fr_attrib f)) in
      case (mic_header f, frame_rd f p n, frame_rd f (p + int n) 8) of
        (Some header, Some data, Some framemic) \<Rightarrow>
          Some (rtw_seccalctkipmic mickey header data (pa_priority (fr_attrib f)) \<noteq> framemic)
      | _ \<Rightarrow> None)"

definition recvframe_chkmic :: "u64 \<Rightarrow> u64 \<Rightarrow> recv_frame \<Rightarrow> rx_ctx \<Rightarrow> (ret \<times> recv_frame \<times> rx_ctx) option" where
  "recvframe_chkmic hz now f c =
     (let a = fr_attrib f; mc = IS_MCAST (pa_ra a) in
      if pa_encrypt a = TKIP then
        (case rtw_get_stainfo (ad_stapriv (rx_ad c)) (pa_ta a) of
           None \<Rightarrow> Some (RET_SUCCESS, snd (recvframe_pull_tail f 8), c)
         | Some i \<Rightarrow>
             if mc \<and> \<not> binstallGrpkey (rx_sec c) then Some (RET_FAIL, f, c)
             else
              (case (if mc then idx (dot118021XGrprxmickey (rx_sec c)) (unat (pa_key_index a))
                     else Some (si_tkiprxmickey (rx_sta c i))) of
                 None \<Rightarrow> None
               | Some mickey \<Rightarrow>
              case mic_error mickey f of
                 None \<Rightarrow> None
               | Some True \<Rightarrow>
                  (let brpt = \<not> (mc \<and> ucast (pa_key_index a) \<noteq> rx_key_index c);
                       c = (if pa_bdecrypted a \<and> brpt
                            then rtw_handle_tkip_mic_err hz now (si_mac_addr (rx_sta c i)) mc c else c)
                   in Some (RET_FAIL, snd (recvframe_pull_tail f 8), c))
               | Some False \<Rightarrow>
                  (let c = (if \<not> bcheck_grpkey (rx_sec c) \<and> mc
                            then c\<lparr>rx_sec := (rx_sec c)\<lparr>bcheck_grpkey := True\<rparr>\<rparr> else c)
                   in Some (RET_SUCCESS, snd (recvframe_pull_tail f 8), c))))
      else Some (RET_SUCCESS, f, c))"

section \<open>Reassembly\<close>

definition pn_checked :: "recv_frame \<Rightarrow> bool" where
  "pn_checked f \<longleftrightarrow> pa_encrypt (fr_attrib f) \<in> {AES, CCMP_256, GCMP, GCMP_256}"

definition frame_pn :: "recv_frame \<Rightarrow> u64 option" where
  "frame_pn f = map_option (\<lambda>h. CCMPH_2_PN (le64 h)) (frame_ccmph f)"

text \<open>The packet number carried over to the next fragment: unchanged by a fragment without one.\<close>

definition next_pn :: "u64 \<Rightarrow> recv_frame \<Rightarrow> u64 option" where
  "next_pn cur_pn f = (if pn_checked f then frame_pn f else Some cur_pn)"

text \<open>
  The loop over the second and later fragments. \<open>pf\<close> is the first fragment, which grows; \<open>don\<close> are the
  fragments already copied, which stay linked, with their headers pulled. The result is whether the
  loop ran to its end, the first fragment and the fragments still linked.
\<close>

fun defrag_loop :: "recv_frame \<Rightarrow> u64 \<Rightarrow> u8 \<Rightarrow> recv_frame list \<Rightarrow> recv_frame list \<Rightarrow>
    (bool \<times> recv_frame \<times> recv_frame list) option" where
  "defrag_loop pf cur_pn curfragnum don [] = Some (True, pf, don)"
| "defrag_loop pf cur_pn curfragnum don (nf # rest) =
     (case next_pn cur_pn nf of
        None \<Rightarrow> None
      | Some pkt_pn \<Rightarrow>
         if pn_checked nf \<and> pkt_pn \<noteq> cur_pn + 1 then Some (False, pf, don @ nf # rest)
         else if fr_keytrack pf \<noteq> fr_keytrack nf then Some (False, pf, don @ nf # rest)
         else if curfragnum \<noteq> pa_frag_num (fr_attrib nf) then Some (False, pf, don @ nf # rest)
         else
          (let wlanhdr_offset = pa_hdrlen (fr_attrib nf) + pa_iv_len (fr_attrib nf);
               nf = snd (recvframe_pull nf (uint wlanhdr_offset)) in
           if int (length (rx_mem pf)) - rx_tail pf < uint (fr_len nf) then Some (False, pf, don @ nf # rest)
           else
            (let pf = snd (recvframe_pull_tail pf (uint (pa_icv_len (fr_attrib pf)))) in
             case frame_rd nf 0 (unat (fr_len nf)) of None \<Rightarrow> None | Some body \<Rightarrow>
             case frame_write pf (rx_tail pf) body of None \<Rightarrow> None | Some pf \<Rightarrow>
             let pf = snd (recvframe_put pf (uint (fr_len nf)));
                 pf = pf\<lparr>fr_attrib := (fr_attrib pf)\<lparr>pa_icv_len := pa_icv_len (fr_attrib nf)\<rparr>\<rparr>
             in defrag_loop pf pkt_pn (curfragnum + 1) (don @ [nf]) rest)))"

definition recvframe_defrag :: "recv_frame list \<Rightarrow> recv_priv \<Rightarrow> (recv_frame option \<times> recv_priv) option" where
  "recvframe_defrag q rp =
     (case q of
        [] \<Rightarrow> None
      | pf # rest \<Rightarrow>
          (case next_pn 0 pf of
             None \<Rightarrow> None
           | Some cur_pn \<Rightarrow>
               if pa_frag_num (fr_attrib pf) \<noteq> 0
               then Some (None, rtw_free_recvframe_queue rest (rtw_free_recvframe pf rp))
               else
                (case defrag_loop pf cur_pn 1 [] rest of
                   None \<Rightarrow> None
                 | Some (True, pf, don) \<Rightarrow> Some (Some pf, rtw_free_recvframe_queue don rp)
                 | Some (False, pf, don) \<Rightarrow> Some (None, rtw_free_recvframe_queue don (rtw_free_recvframe pf rp)))))"

section \<open>Queueing fragments\<close>

definition WIFI_DATA_TYPE :: u16 where "WIFI_DATA_TYPE = 8"

definition frame_type :: "recv_frame \<Rightarrow> u16 option" where
  "frame_type f = map_option (\<lambda>fc. (ucast (fc ! 0) OR push_bit 8 (ucast (fc ! 1))) AND 0xC) (frame_rd f 0 2)"

text \<open>The station whose fragment queue is used: the transmitter's, or the broadcast one for other than data frames.\<close>

definition defrag_sta :: "recv_frame \<Rightarrow> rx_ctx \<Rightarrow> nat option option" where
  "defrag_sta f c =
     (case rtw_get_stainfo (ad_stapriv (rx_ad c)) (pa_ta (fr_attrib f)) of
        Some i \<Rightarrow> Some (Some i)
      | None \<Rightarrow>
         (case frame_type f of
            None \<Rightarrow> None
          | Some ty \<Rightarrow> Some (if ty \<noteq> WIFI_DATA_TYPE then rtw_get_bcmc_stainfo (ad_stapriv (rx_ad c)) else None)))"

text \<open>The integrity check that ends \<^verbatim>\<open>recvframe_chk_defrag\<close>.\<close>

definition chk_defrag_end :: "u64 \<Rightarrow> u64 \<Rightarrow> recv_frame option \<Rightarrow> rx_ctx \<Rightarrow> (recv_frame option \<times> rx_ctx) option" where
  "chk_defrag_end hz now r c =
     (case r of
        None \<Rightarrow> Some (None, c)
      | Some f \<Rightarrow>
          if pa_privacy (fr_attrib f) then
            (case recvframe_chkmic hz now f c of
               None \<Rightarrow> None
             | Some (RET_FAIL, f, c) \<Rightarrow> Some (None, free_frame f c)
             | Some (_, f, c) \<Rightarrow> Some (Some f, c))
          else Some (Some f, c))"

definition recvframe_chk_defrag :: "u64 \<Rightarrow> u64 \<Rightarrow> recv_frame \<Rightarrow> rx_ctx \<Rightarrow> (recv_frame option \<times> rx_ctx) option" where
  "recvframe_chk_defrag hz now f c =
     (let a = fr_attrib f; ismfrag = pa_mfrag a; fragnum = pa_frag_num a in
      case defrag_sta f c of None \<Rightarrow> None | Some psta \<Rightarrow>
      if \<not> ismfrag \<and> fragnum = 0 then chk_defrag_end hz now (Some f) c
      else if IS_MCAST (pa_ra a) then Some (None, free_frame f c)
      else
       (case psta of
          None \<Rightarrow> Some (None, free_frame f c)
        | Some i \<Rightarrow>
           (let f = f\<lparr>fr_keytrack := si_keytrack (rx_sta c i)\<rparr>;
                q = si_defrag_q (rx_sta c i) in
            if ismfrag then
              (let c = (if fragnum = 0 \<and> q \<noteq> [] then set_pool (rtw_free_recvframe_queue q (rx_pool c)) c else c);
                   q = (if fragnum = 0 then [] else q)
               in Some (None, set_sta i ((rx_sta c i)\<lparr>si_defrag_q := q @ [f]\<rparr>) c))
            else
              (case recvframe_defrag (q @ [f]) (rx_pool c) of
                 None \<Rightarrow> None
               | Some (r, rp) \<Rightarrow>
                   chk_defrag_end hz now r (set_sta i ((rx_sta c i)\<lparr>si_defrag_q := []\<rparr>) (set_pool rp c))))))"

section \<open>Port control\<close>

definition dot11AuthAlgrthm_8021X :: u32 where "dot11AuthAlgrthm_8021X = 2"

definition portctrl :: "recv_frame \<Rightarrow> rx_ctx \<Rightarrow> (recv_frame option \<times> rx_ctx) option" where
  "portctrl f c =
     (if dot11AuthAlgrthm (rx_sec c) = dot11AuthAlgrthm_8021X then
        (case rtw_get_stainfo (ad_stapriv (rx_ad c)) (pa_ta (fr_attrib f)) of
           None \<Rightarrow> Some (Some f, c)
         | Some i \<Rightarrow>
             if si_ieee8021x_blocked (rx_sta c i) then
               (case frame_rd f (uint (pa_hdrlen (fr_attrib f)) + uint (pa_iv_len (fr_attrib f)) + 6) 2 of
                  None \<Rightarrow> None
                | Some et \<Rightarrow> if et = [0x88, 0x8e] then Some (Some f, c) else Some (None, free_frame f c))
             else Some (Some f, c))
      else Some (Some f, c))"

section \<open>What reassembly computes\<close>

text \<open>
  The body of a fragment is what follows its header and IV; when the frame is shorter than these the
  pull is refused and the whole fragment is taken. The running message loses the ICV of its last
  fragment before the next body is appended; the ICV of the last one stays.
\<close>

definition frag_hdr :: "recv_frame \<Rightarrow> nat" where
  "frag_hdr f = unat (pa_hdrlen (fr_attrib f) + pa_iv_len (fr_attrib f))"

definition frag_body :: "recv_frame \<Rightarrow> bytes" where
  "frag_body f = (if frag_hdr f \<le> length (frame_payload f) then drop (frag_hdr f) (frame_payload f) else frame_payload f)"

definition frag_icv :: "recv_frame \<Rightarrow> nat" where
  "frag_icv f = unat (pa_icv_len (fr_attrib f))"

definition strip_tail :: "nat \<Rightarrow> bytes \<Rightarrow> bytes" where
  "strip_tail n b = (if n \<le> length b then take (length b - n) b else b)"

fun reassemble :: "bytes \<Rightarrow> nat \<Rightarrow> recv_frame list \<Rightarrow> bytes" where
  "reassemble acc icv [] = acc"
| "reassemble acc icv (f # fs) = reassemble (strip_tail icv acc @ frag_body f) (frag_icv f) fs"

text \<open>Packet numbers rise by one over the fragments that carry one; the others are passed over.\<close>

fun pn_chain :: "u64 \<Rightarrow> recv_frame list \<Rightarrow> bool" where
  "pn_chain p [] = True"
| "pn_chain p (f # fs) = (if pn_checked f then frame_pn f = Some (p + 1) \<and> pn_chain (p + 1) fs else pn_chain p fs)"

definition frag_readable :: "recv_frame \<Rightarrow> bool" where
  "frag_readable f \<longleftrightarrow> frame_wf f \<and> (pn_checked f \<longrightarrow> frame_pn f \<noteq> None)"

section \<open>The loop\<close>

lemma pull_attrib [simp]: "fr_attrib (snd (recvframe_pull f n)) = fr_attrib f" "fr_id (snd (recvframe_pull f n)) = fr_id f"
    "fr_attrib (snd (recvframe_pull_tail f n)) = fr_attrib f" "fr_id (snd (recvframe_pull_tail f n)) = fr_id f"
    "fr_attrib (snd (recvframe_put f n)) = fr_attrib f" "fr_id (snd (recvframe_put f n)) = fr_id f"
    "fr_keytrack (snd (recvframe_pull_tail f n)) = fr_keytrack f" "fr_keytrack (snd (recvframe_put f n)) = fr_keytrack f"
  by (simp_all add: recvframe_pull_def recvframe_pull_tail_def recvframe_put_def Let_def)

lemma pull_body:
  assumes "frame_wf f"
  defines "g \<equiv> snd (recvframe_pull f (uint (pa_hdrlen (fr_attrib f) + pa_iv_len (fr_attrib f))))"
  shows "frame_wf g" "frame_payload g = frag_body f"
proof -
  let ?n = "uint (pa_hdrlen (fr_attrib f) + pa_iv_len (fr_attrib f))"
  show wf: "frame_wf g" unfolding g_def by (rule pull_wf [OF assms(1)]) simp
  have n: "nat ?n = frag_hdr f" by (simp add: frag_hdr_def)
  have r: "fst (recvframe_pull f ?n) = (if frag_hdr f \<le> length (frame_payload f) then Some (rx_data f + ?n) else None)"
  proof -
    have "?n = int (frag_hdr f)" by (simp add: frag_hdr_def)
    then show ?thesis using frame_payload_length [OF assms(1)] by (simp add: recvframe_pull_def Let_def)
  qed
  show "frame_payload g = frag_body f"
  proof (cases "frag_hdr f \<le> length (frame_payload f)")
    case True
    then show ?thesis using pull_payload [OF assms(1)] r n by (simp add: g_def frag_body_def)
  next
    case False
    then have "g = f" using r by (auto simp: g_def recvframe_pull_def Let_def split: if_splits)
    then show ?thesis using False by (simp add: frag_body_def)
  qed
qed

lemma pull_tail_strip:
  assumes "frame_wf f"
  defines "g \<equiv> snd (recvframe_pull_tail f (uint (pa_icv_len (fr_attrib f))))"
  shows "frame_wf g" "frame_payload g = strip_tail (frag_icv f) (frame_payload f)" "rx_tail g \<le> rx_tail f"
    "rx_mem g = rx_mem f"
proof -
  let ?n = "uint (pa_icv_len (fr_attrib f))"
  show wf: "frame_wf g" unfolding g_def by (rule pull_tail_wf [OF assms(1)]) simp
  show "rx_tail g \<le> rx_tail f" "rx_mem g = rx_mem f" by (simp_all add: g_def recvframe_pull_tail_def Let_def)
  have n: "nat ?n = frag_icv f" by (simp add: frag_icv_def)
  have r: "fst (recvframe_pull_tail f ?n) = (if frag_icv f \<le> length (frame_payload f) then Some (rx_tail f - ?n) else None)"
  proof -
    have "?n = int (frag_icv f)" by (simp add: frag_icv_def)
    then show ?thesis using frame_payload_length [OF assms(1)] by (auto simp: recvframe_pull_tail_def Let_def)
  qed
  show "frame_payload g = strip_tail (frag_icv f) (frame_payload f)"
  proof (cases "frag_icv f \<le> length (frame_payload f)")
    case True
    then show ?thesis using pull_tail_payload [OF assms(1)] r n by (simp add: g_def strip_tail_def)
  next
    case False
    then have "g = f" using r by (auto simp: g_def recvframe_pull_tail_def Let_def split: if_splits)
    then show ?thesis using False by (simp add: strip_tail_def)
  qed
qed

text \<open>A body that fits is appended to the message.\<close>

lemma append_body:
  assumes "frame_wf pf" "int (length body) \<le> int (length (rx_mem pf)) - rx_tail pf"
  obtains g where "frame_write pf (rx_tail pf) body = Some g"
    "frame_wf (snd (recvframe_put g (int (length body))))"
    "frame_payload (snd (recvframe_put g (int (length body)))) = frame_payload pf @ body"
    "fr_attrib g = fr_attrib pf" "fr_id g = fr_id pf" "fr_keytrack g = fr_keytrack pf"
    "rx_tail (snd (recvframe_put g (int (length body)))) = rx_tail pf + int (length body)"
    "length (rx_mem (snd (recvframe_put g (int (length body))))) = length (rx_mem pf)"
proof -
  have "0 \<le> rx_tail pf" using assms(1) by (auto simp: frame_wf_def)
  then obtain g where w: "frame_write pf (rx_tail pf) body = Some g"
    and g: "length (rx_mem g) = length (rx_mem pf)" "rx_tail g = rx_tail pf" "fr_attrib g = fr_attrib pf" "fr_id g = fr_id pf" "fr_keytrack g = fr_keytrack pf"
    using assms(2) by (simp add: frame_write_def nat_le_iff)
  obtain t h where p: "recvframe_put g (int (length body)) = (Some t, h)"
      "rx_tail h = rx_tail pf + int (length body)" "rx_mem h = rx_mem g"
    using assms(2) g by (simp add: recvframe_put_def Let_def)
  show thesis using put_write_payload [OF assms(1) w p(1)] that [OF w] p g by simp
qed

lemma frame_rd_all: "frame_wf f \<Longrightarrow> frame_rd f 0 (unat (fr_len f)) = Some (frame_payload f)"
  using frame_rd_payload [of f 0 "unat (fr_len f)"] by (simp add: frame_wf_len)

text \<open>One accepted fragment.\<close>

lemma defrag_loop_step:
  assumes wf: "frame_wf pf" "frag_readable nf"
    and ok: "pn_checked nf \<longrightarrow> frame_pn nf = Some (p + 1)" "fr_keytrack pf = fr_keytrack nf" "k = pa_frag_num (fr_attrib nf)"
    and room: "int (length (frag_body nf)) \<le> int (length (rx_mem pf)) - rx_tail pf"
  obtains g nf' where
    "defrag_loop pf p k don (nf # rest) = defrag_loop g (if pn_checked nf then p + 1 else p) (k + 1) (don @ [nf']) rest"
    "frame_wf g" "frame_payload g = strip_tail (frag_icv pf) (frame_payload pf) @ frag_body nf" "frag_icv g = frag_icv nf"
    "fr_id g = fr_id pf" "fr_keytrack g = fr_keytrack pf" "fr_id nf' = fr_id nf"
    "rx_tail g \<le> rx_tail pf + int (length (frag_body nf))" "length (rx_mem g) = length (rx_mem pf)"
proof -
  define nf' where "nf' = snd (recvframe_pull nf (uint (pa_hdrlen (fr_attrib nf) + pa_iv_len (fr_attrib nf))))"
  have nwf: "frame_wf nf" using wf(2) by (simp add: frag_readable_def)
  note b = pull_body [OF nwf, folded nf'_def]
  have len: "uint (fr_len nf') = int (length (frag_body nf))"
    using frame_wf_len [OF b(1)] b(2) by (metis nat_uint_eq int_nat_eq unsigned_greater_eq nat_int)
  define pt where "pt = snd (recvframe_pull_tail pf (uint (pa_icv_len (fr_attrib pf))))"
  note t = pull_tail_strip [OF wf(1), folded pt_def]
  have fit: "int (length (frag_body nf)) \<le> int (length (rx_mem pt)) - rx_tail pt" using room t(3,4) by simp
  obtain w where w: "frame_write pt (rx_tail pt) (frag_body nf) = Some w"
    "frame_wf (snd (recvframe_put w (int (length (frag_body nf)))))"
    "frame_payload (snd (recvframe_put w (int (length (frag_body nf))))) = frame_payload pt @ frag_body nf"
    "fr_attrib w = fr_attrib pt" "fr_id w = fr_id pt" "fr_keytrack w = fr_keytrack pt"
    "rx_tail (snd (recvframe_put w (int (length (frag_body nf))))) = rx_tail pt + int (length (frag_body nf))"
    "length (rx_mem (snd (recvframe_put w (int (length (frag_body nf)))))) = length (rx_mem pt)"
    using append_body [OF t(1) fit] by blast
  define h where "h = snd (recvframe_put w (int (length (frag_body nf))))"
  define g where "g = h\<lparr>fr_attrib := (fr_attrib h)\<lparr>pa_icv_len := pa_icv_len (fr_attrib nf)\<rparr>\<rparr>"
  have pn: "next_pn p nf = Some (if pn_checked nf then p + 1 else p)" using ok(1) by (simp add: next_pn_def)
  have rd: "frame_rd nf' 0 (unat (fr_len nf')) = Some (frag_body nf)" using frame_rd_all [OF b(1)] b(2) by simp
  have "defrag_loop pf p k don (nf # rest) = defrag_loop g (if pn_checked nf then p + 1 else p) (k + 1) (don @ [nf']) rest"
    using ok room w(1) by (simp add: pn Let_def nf'_def [symmetric] pt_def [symmetric] len rd g_def h_def) (simp add: nf'_def)
  moreover have "frame_wf g" "frame_payload g = strip_tail (frag_icv pf) (frame_payload pf) @ frag_body nf" "frag_icv g = frag_icv nf"
    "fr_id g = fr_id pf" "fr_keytrack g = fr_keytrack pf"
    using w t(2) unfolding g_def h_def pt_def
    by (simp_all add: frame_wf_def frame_payload_def frag_icv_def)
  moreover have "fr_id nf' = fr_id nf" by (simp add: nf'_def)
  moreover have "rx_tail g \<le> rx_tail pf + int (length (frag_body nf))" "length (rx_mem g) = length (rx_mem pf)"
    using w(7,8) t(3,4) by (simp_all add: g_def h_def)
  ultimately show thesis by (rule that)
qed

lemma defrag_loop_stop:
  assumes "frame_wf pf" "frag_readable nf"
    and "\<not> ((pn_checked nf \<longrightarrow> frame_pn nf = Some (p + 1)) \<and> fr_keytrack pf = fr_keytrack nf
            \<and> k = pa_frag_num (fr_attrib nf) \<and> int (length (frag_body nf)) \<le> int (length (rx_mem pf)) - rx_tail pf)"
  obtains nf' where "defrag_loop pf p k don (nf # rest) = Some (False, pf, don @ nf' # rest)" "fr_id nf' = fr_id nf"
proof -
  define nf' where "nf' = snd (recvframe_pull nf (uint (pa_hdrlen (fr_attrib nf) + pa_iv_len (fr_attrib nf))))"
  have nwf: "frame_wf nf" using assms(2) by (simp add: frag_readable_def)
  note b = pull_body [OF nwf, folded nf'_def]
  have len: "uint (fr_len nf') = int (length (frag_body nf))"
    using frame_wf_len [OF b(1)] b(2) by (metis nat_uint_eq int_nat_eq unsigned_greater_eq nat_int)
  obtain q where q: "next_pn p nf = Some q" "pn_checked nf \<Longrightarrow> frame_pn nf = Some q"
    using assms(2) by (cases "pn_checked nf") (auto simp: next_pn_def frag_readable_def)
  have "defrag_loop pf p k don (nf # rest) = Some (False, pf, don @ nf # rest)
      \<or> defrag_loop pf p k don (nf # rest) = Some (False, pf, don @ nf' # rest)"
    using assms(3) q by (auto simp: Let_def nf'_def [symmetric] len)
  then show thesis using that [of nf] that [of nf'] by (auto simp: nf'_def)
qed

text \<open>The fragments after the first that reassembly accepts: consecutive packet numbers, one key, consecutive fragment numbers.\<close>

definition frags_good :: "u64 \<Rightarrow> u8 \<Rightarrow> int \<Rightarrow> recv_frame list \<Rightarrow> bool" where
  "frags_good p k t fs \<longleftrightarrow> pn_chain p fs \<and> (\<forall>f\<in>set fs. fr_keytrack f = t)
     \<and> (\<forall>i<length fs. pa_frag_num (fr_attrib (fs ! i)) = k + of_nat i)"

lemma frags_good_Cons:
  "frags_good p k t (f # fs) \<longleftrightarrow> (pn_checked f \<longrightarrow> frame_pn f = Some (p + 1)) \<and> fr_keytrack f = t
     \<and> pa_frag_num (fr_attrib f) = k \<and> frags_good (if pn_checked f then p + 1 else p) (k + 1) t fs"
  by (auto simp: frags_good_def nth_Cons less_Suc_eq_0_disj algebra_simps split: nat.split)

lemma defrag_loop_spec:
  assumes "frame_wf pf" "\<forall>f\<in>set rest. frag_readable f"
  shows "\<exists>ok g l. defrag_loop pf p k don rest = Some (ok, g, l) \<and> fr_id g = fr_id pf
    \<and> map fr_id l = map fr_id (don @ rest)
    \<and> (ok \<longrightarrow> frame_wf g \<and> frame_payload g = reassemble (frame_payload pf) (frag_icv pf) rest
          \<and> frags_good p k (fr_keytrack pf) rest)
    \<and> (frags_good p k (fr_keytrack pf) rest
       \<and> int (sum_list (map (length \<circ> frag_body) rest)) \<le> int (length (rx_mem pf)) - rx_tail pf \<longrightarrow> ok)"
  using assms
proof (induction rest arbitrary: pf p k don)
  case Nil
  then show ?case by (simp add: frags_good_def) blast
next
  case (Cons nf rest)
  have nf: "frag_readable nf" and rest: "\<forall>f\<in>set rest. frag_readable f" using Cons.prems(2) by simp_all
  show ?case
  proof (cases "(pn_checked nf \<longrightarrow> frame_pn nf = Some (p + 1)) \<and> fr_keytrack pf = fr_keytrack nf
            \<and> k = pa_frag_num (fr_attrib nf) \<and> int (length (frag_body nf)) \<le> int (length (rx_mem pf)) - rx_tail pf")
    case False
    from defrag_loop_stop [OF Cons.prems(1) nf this, of don rest]
    obtain nf' where "defrag_loop pf p k don (nf # rest) = Some (False, pf, don @ nf' # rest)" "fr_id nf' = fr_id nf" .
    moreover have "\<not> (frags_good p k (fr_keytrack pf) (nf # rest)
        \<and> int (sum_list (map (length \<circ> frag_body) (nf # rest))) \<le> int (length (rx_mem pf)) - rx_tail pf)"
    proof
      assume a: "frags_good p k (fr_keytrack pf) (nf # rest)
        \<and> int (sum_list (map (length \<circ> frag_body) (nf # rest))) \<le> int (length (rx_mem pf)) - rx_tail pf"
      then have "int (length (frag_body nf)) \<le> int (length (rx_mem pf)) - rx_tail pf" by simp
      then show False using a False unfolding frags_good_Cons by metis
    qed
    ultimately show ?thesis
      by (intro exI [of _ False] exI [of _ pf] exI [of _ "don @ nf' # rest"]) (simp del: defrag_loop.simps add: o_def)
  next
    case True
    then obtain g nf' where g:
      "defrag_loop pf p k don (nf # rest) = defrag_loop g (if pn_checked nf then p + 1 else p) (k + 1) (don @ [nf']) rest"
      "frame_wf g" "frame_payload g = strip_tail (frag_icv pf) (frame_payload pf) @ frag_body nf" "frag_icv g = frag_icv nf"
      "fr_id g = fr_id pf" "fr_keytrack g = fr_keytrack pf" "fr_id nf' = fr_id nf"
      "rx_tail g \<le> rx_tail pf + int (length (frag_body nf))" "length (rx_mem g) = length (rx_mem pf)"
      using defrag_loop_step [OF Cons.prems(1) nf, of p k don rest] by blast
    let ?q = "if pn_checked nf then p + 1 else p"
    have fg: "frags_good p k (fr_keytrack pf) (nf # rest) = frags_good ?q (k + 1) (fr_keytrack g) rest"
      using True unfolding frags_good_Cons g(6) by simp
    obtain ok h l where h: "defrag_loop g ?q (k + 1) (don @ [nf']) rest = Some (ok, h, l)" "fr_id h = fr_id g"
        "map fr_id l = map fr_id ((don @ [nf']) @ rest)"
        "ok \<longrightarrow> frame_wf h \<and> frame_payload h = reassemble (frame_payload g) (frag_icv g) rest
           \<and> frags_good ?q (k + 1) (fr_keytrack g) rest"
        "frags_good ?q (k + 1) (fr_keytrack g) rest
          \<and> int (sum_list (map (length \<circ> frag_body) rest)) \<le> int (length (rx_mem g)) - rx_tail g \<longrightarrow> ok"
      using Cons.IH [OF g(2) rest, of ?q "k + 1" "don @ [nf']"] by metis
    show ?thesis
    proof (intro exI [of _ ok] exI [of _ h] exI [of _ l] conjI)
      show "defrag_loop pf p k don (nf # rest) = Some (ok, h, l)" by (simp only: g(1) h(1))
      show "fr_id h = fr_id pf" "map fr_id l = map fr_id (don @ nf # rest)" using h(2,3) g(5,7) by simp_all
      show "ok \<longrightarrow> frame_wf h \<and> frame_payload h = reassemble (frame_payload pf) (frag_icv pf) (nf # rest)
          \<and> frags_good p k (fr_keytrack pf) (nf # rest)"
        using h(4) unfolding fg g(3,4) by simp
      show "frags_good p k (fr_keytrack pf) (nf # rest)
          \<and> int (sum_list (map (length \<circ> frag_body) (nf # rest))) \<le> int (length (rx_mem pf)) - rx_tail pf \<longrightarrow> ok"
        using h(5) g(8,9) unfolding fg by auto
    qed
  qed
qed

lemma not_pooled_ids: "map fr_id l = map fr_id l' \<Longrightarrow> not_pooled l rp = not_pooled l' rp"
  by (simp add: not_pooled_def) (metis list.set_map)

text \<open>The frames \<open>l\<close> went back to the pool, in order.\<close>

definition pool_gets :: "recv_priv \<Rightarrow> recv_frame list \<Rightarrow> recv_priv \<Rightarrow> bool" where
  "pool_gets rp l rp' \<longleftrightarrow> map fr_id (free_recv_queue rp') = map fr_id (free_recv_queue rp) @ map fr_id l
     \<and> free_recvframe_cnt rp' = free_recvframe_cnt rp + of_nat (length l)
     \<and> uc_swdec_pending_queue rp' = uc_swdec_pending_queue rp"

lemma free_queue_gets:
  assumes "not_pooled l' rp" "map fr_id l = map fr_id l'"
  shows "pool_gets rp l' (rtw_free_recvframe_queue l rp)"
proof -
  have "not_pooled l rp" using assms not_pooled_ids by blast
  from free_recvframe_queue_pool [OF this] show ?thesis
    using assms(2) map_eq_imp_length_eq [OF assms(2)] by (simp add: pool_gets_def o_def)
qed

lemma free_Cons: "rtw_free_recvframe_queue l (rtw_free_recvframe f rp) = rtw_free_recvframe_queue (f # l) rp"
  by simp

lemma recvframe_defrag_spec:
  assumes "q \<noteq> []" "\<forall>f\<in>set q. frag_readable f" "not_pooled q rp"
  defines "p \<equiv> (case next_pn 0 (hd q) of None \<Rightarrow> 0 | Some p \<Rightarrow> p)"
  shows "\<exists>r rp'. recvframe_defrag q rp = Some (r, rp')
    \<and> (case r of
         None \<Rightarrow> pool_gets rp q rp'
           \<and> \<not> (pa_frag_num (fr_attrib (hd q)) = 0 \<and> frags_good p 1 (fr_keytrack (hd q)) (tl q)
                \<and> int (sum_list (map (length \<circ> frag_body) (tl q))) \<le> int (length (rx_mem (hd q))) - rx_tail (hd q))
       | Some g \<Rightarrow> pool_gets rp (tl q) rp' \<and> fr_id g = fr_id (hd q) \<and> frame_wf g
           \<and> pa_frag_num (fr_attrib (hd q)) = 0 \<and> frags_good p 1 (fr_keytrack (hd q)) (tl q)
           \<and> frame_payload g = reassemble (frame_payload (hd q)) (frag_icv (hd q)) (tl q))"
proof -
  obtain pf rest where q: "q = pf # rest" using assms(1) by (cases q) auto
  have wf: "frame_wf pf" "\<forall>f\<in>set rest. frag_readable f" using assms(2) by (auto simp: q frag_readable_def)
  have p: "next_pn 0 pf = Some p" using assms(2) by (auto simp: p_def q next_pn_def frag_readable_def)
  from defrag_loop_spec [OF wf, of p 1 "[]"]
  obtain ok g l where l: "defrag_loop pf p 1 [] rest = Some (ok, g, l)" "fr_id g = fr_id pf" "map fr_id l = map fr_id rest"
      "ok \<longrightarrow> frame_wf g \<and> frame_payload g = reassemble (frame_payload pf) (frag_icv pf) rest \<and> frags_good p 1 (fr_keytrack pf) rest"
      "frags_good p 1 (fr_keytrack pf) rest
       \<and> int (sum_list (map (length \<circ> frag_body) rest)) \<le> int (length (rx_mem pf)) - rx_tail pf \<longrightarrow> ok"
    by auto
  have np: "not_pooled q rp" "not_pooled rest rp"
    using assms(3) not_pooled_append [of "[pf]" rest rp] by (simp_all add: q)
  have "pool_gets rp q (rtw_free_recvframe_queue (pf # rest) rp)" "pool_gets rp q (rtw_free_recvframe_queue (g # l) rp)"
    "pool_gets rp rest (rtw_free_recvframe_queue l rp)"
    using free_queue_gets [OF np(1), of "pf # rest"] free_queue_gets [OF np(1), of "g # l"] free_queue_gets [OF np(2) l(3)] l(2,3)
    by (simp_all add: q)
  note pools = this
  show ?thesis
  proof (cases "pa_frag_num (fr_attrib pf) = 0")
    case False
    then show ?thesis using pools(1) by (simp add: recvframe_defrag_def q p)
  next
    case True
    then show ?thesis using l pools by (cases ok) (auto simp: recvframe_defrag_def q p)
  qed
qed

text \<open>
  C31. Reassembly terminates without leaving a buffer. It gives a message exactly when the first
  fragment has number 0 and, unless the buffer is full, the others have consecutive fragment numbers,
  consecutive packet numbers and the key of the first; the message is then the concatenation of the
  fragment bodies without the inner ICVs, in the buffer of the first fragment, and every other
  fragment is back in the pool. Otherwise all fragments are back in the pool.
\<close>

theorem recvframe_defrag_reassembles:
  assumes "q \<noteq> []" "\<forall>f\<in>set q. frag_readable f" "not_pooled q rp"
  defines "p \<equiv> (case next_pn 0 (hd q) of None \<Rightarrow> 0 | Some p \<Rightarrow> p)"
  shows "\<exists>r rp'. recvframe_defrag q rp = Some (r, rp')
    \<and> (case r of
         None \<Rightarrow> pool_gets rp q rp'
           \<and> \<not> (pa_frag_num (fr_attrib (hd q)) = 0 \<and> frags_good p 1 (fr_keytrack (hd q)) (tl q)
                \<and> int (sum_list (map (length \<circ> frag_body) (tl q))) \<le> int (length (rx_mem (hd q))) - rx_tail (hd q))
       | Some g \<Rightarrow> pool_gets rp (tl q) rp' \<and> fr_id g = fr_id (hd q) \<and> frame_wf g
           \<and> pa_frag_num (fr_attrib (hd q)) = 0 \<and> frags_good p 1 (fr_keytrack (hd q)) (tl q)
           \<and> frame_payload g = reassemble (frame_payload (hd q)) (frag_icv (hd q)) (tl q))"
  unfolding p_def by (rule recvframe_defrag_spec [OF assms(1-3)])

section \<open>Ownership of the frames\<close>

abbreviation rx_stas :: "rx_ctx \<Rightarrow> sta_info list" where
  "rx_stas c \<equiv> pstainfo_buf (ad_stapriv (rx_ad c))"

text \<open>The frames queued for reassembly, those of the pool, and all of them.\<close>

definition queued_ids :: "sta_info list \<Rightarrow> nat list" where
  "queued_ids ss = concat (map (\<lambda>s. map fr_id (si_defrag_q s)) ss)"

definition pool_ids :: "recv_priv \<Rightarrow> nat list" where
  "pool_ids rp = map fr_id (free_recv_queue rp) @ map fr_id (uc_swdec_pending_queue rp)"

definition rx_ids :: "rx_ctx \<Rightarrow> nat list" where
  "rx_ids c = pool_ids (rx_pool c) @ queued_ids (rx_stas c)"

definition defrag_inv :: "rx_ctx \<Rightarrow> bool" where
  "defrag_inv c \<longleftrightarrow> sta_inv (ad_stapriv (rx_ad c)) \<and> distinct (rx_ids c)
     \<and> (\<forall>s\<in>set (rx_stas c). \<forall>f\<in>set (si_defrag_q s). frag_readable f)"

lemma ctx_sel [simp]:
  "rx_pool (set_pool rp c) = rp" "rx_stas (set_pool rp c) = rx_stas c" "rx_pool (set_sta i s c) = rx_pool c"
  "rx_stas (set_sta i s c) = (rx_stas c)[i := s]" "rx_sec (set_pool rp c) = rx_sec c" "rx_sec (set_sta i s c) = rx_sec c"
  "ad_stapriv (rx_ad (set_pool rp c)) = ad_stapriv (rx_ad c)"
  by (simp_all add: set_pool_def set_sta_def)

lemma set_sta_inv:
  assumes "sta_inv (ad_stapriv (rx_ad c))"
  shows "sta_inv (ad_stapriv (rx_ad (set_sta i ((rx_sta c i)\<lparr>si_defrag_q := q\<rparr>) c)))"
proof -
  let ?sp = "ad_stapriv (rx_ad c)"
  have m: "si_mac_addr ((pstainfo_buf ?sp)[i := (rx_sta c i)\<lparr>si_defrag_q := q\<rparr>] ! j) = si_mac_addr (pstainfo_buf ?sp ! j)" for j
    by (cases "i < length (pstainfo_buf ?sp)"; cases "i = j") (simp_all add: rx_sta_def list_update_beyond)
  show ?thesis using assms
    by (simp add: set_sta_def sta_inv_def m sta_live_def)
qed

lemma get_stainfo_bound: "sta_inv sp \<Longrightarrow> rtw_get_stainfo sp a = Some i \<Longrightarrow> i < length (pstainfo_buf sp)"
  by (auto simp: get_stainfo_iff sta_inv_def)

lemma defrag_sta_bound: "sta_inv (ad_stapriv (rx_ad c)) \<Longrightarrow> defrag_sta f c = Some (Some i) \<Longrightarrow> i < length (rx_stas c)"
  by (auto simp: defrag_sta_def rtw_get_bcmc_stainfo_def get_stainfo_bound split: option.splits if_splits)

lemma queued_ids_update:
  assumes "i < length ss"
  shows "mset (queued_ids (ss[i := s\<lparr>si_defrag_q := q\<rparr>])) + mset (map fr_id (si_defrag_q (ss ! i))) = mset (queued_ids ss) + mset (map fr_id q)"
  using mset_concat_update [OF assms, of "\<lambda>s. map fr_id (si_defrag_q s)" "s\<lparr>si_defrag_q := q\<rparr>"] by (simp add: queued_ids_def)

lemma queue_not_pooled:
  assumes "distinct (fr_id f # rx_ids c)" "i < length (rx_stas c)"
  shows "not_pooled (si_defrag_q (rx_sta c i) @ [f]) (rx_pool c)"
proof -
  let ?q = "si_defrag_q (rx_sta c i)"
  have m: "rx_sta c i \<in> set (rx_stas c)" using assms(2) by (simp add: rx_sta_def)
  then have "fr_id ` set ?q \<subseteq> set (queued_ids (rx_stas c))" by (auto simp: queued_ids_def)
  moreover have "distinct (map fr_id ?q)"
  proof -
    have "distinct (queued_ids (rx_stas c))" using assms(1) by (simp add: rx_ids_def)
    then show ?thesis using m by (auto simp: queued_ids_def distinct_concat_iff)
  qed
  moreover have "fr_id f \<notin> set (pool_ids (rx_pool c)) \<union> set (queued_ids (rx_stas c))"
    "set (pool_ids (rx_pool c)) \<inter> set (queued_ids (rx_stas c)) = {}"
    using assms(1) by (auto simp: rx_ids_def)
  ultimately show ?thesis by (auto simp: not_pooled_def pool_ids_def)
qed

lemma pool_gets_ids: "pool_gets rp l rp' \<Longrightarrow> mset (pool_ids rp') = mset (pool_ids rp) + mset (map fr_id l)"
  by (simp add: pool_gets_def pool_ids_def)

lemma free_queue_pool_gets: "not_pooled q rp \<Longrightarrow> pool_gets rp q (rtw_free_recvframe_queue q rp)"
  by (rule free_queue_gets) simp_all

lemma free_frame_ids:
  assumes "not_pooled [f] (rx_pool c)"
  shows "mset (rx_ids (free_frame f c)) = add_mset (fr_id f) (mset (rx_ids c))"
  using pool_gets_ids [OF free_queue_pool_gets [OF assms]] by (simp add: free_frame_def rx_ids_def)

text \<open>The integrity check touches neither the pool nor the queues.\<close>

lemma chkmic_keeps:
  assumes "recvframe_chkmic hz now f c = Some (r, g, c')"
  shows "rx_ad c' = rx_ad c" "fr_id g = fr_id f"
  using assms
  by (auto simp: recvframe_chkmic_def Let_def rtw_handle_tkip_mic_err_def split: option.splits if_splits bool.splits)

definition ret_ids :: "recv_frame option \<Rightarrow> nat multiset" where
  "ret_ids r = (case r of None \<Rightarrow> {#} | Some g \<Rightarrow> {#fr_id g#})"

lemma chk_defrag_end_ids:
  assumes "chk_defrag_end hz now r c = Some (r', c')" "\<And>f. r = Some f \<Longrightarrow> not_pooled [f] (rx_pool c)"
  shows "mset (rx_ids c') + ret_ids r' = mset (rx_ids c) + ret_ids r" "rx_stas c' = rx_stas c"
    "ad_stapriv (rx_ad c') = ad_stapriv (rx_ad c)"
proof -
  have free: "mset (rx_ids (free_frame g d)) = add_mset (fr_id f) (mset (rx_ids c))" "rx_stas (free_frame g d) = rx_stas c"
      "ad_stapriv (rx_ad (free_frame g d)) = ad_stapriv (rx_ad c)"
    if "r = Some f" "rx_ad d = rx_ad c" "fr_id g = fr_id f" for f g d
  proof -
    have np: "not_pooled [g] (rx_pool d)" using assms(2) [OF that(1)] that(2,3) by (simp add: not_pooled_def)
    show "mset (rx_ids (free_frame g d)) = add_mset (fr_id f) (mset (rx_ids c))"
      using free_frame_ids [OF np] that(2,3) by (simp add: rx_ids_def)
    show "rx_stas (free_frame g d) = rx_stas c" "ad_stapriv (rx_ad (free_frame g d)) = ad_stapriv (rx_ad c)"
      using that(2) by (simp_all add: free_frame_def set_pool_def)
  qed
  have "(\<exists>f g d. r = Some f \<and> rx_ad d = rx_ad c \<and> fr_id g = fr_id f \<and> (r' = None \<and> c' = free_frame g d \<or> r' = Some g \<and> c' = d))
      \<or> r = None \<and> r' = None \<and> c' = c"
    using assms(1)
    by (auto simp: chk_defrag_end_def split: option.splits if_splits ret.splits prod.splits dest: chkmic_keeps)
  then show "mset (rx_ids c') + ret_ids r' = mset (rx_ids c) + ret_ids r" "rx_stas c' = rx_stas c"
      "ad_stapriv (rx_ad c') = ad_stapriv (rx_ad c)"
    using free by (auto simp: ret_ids_def rx_ids_def)
qed

lemma distinct_after:
  assumes "mset (rx_ids c') + ret_ids r = add_mset (fr_id f) (mset (rx_ids c))" "distinct (fr_id f # rx_ids c)"
  shows "distinct (rx_ids c')"
proof -
  have "mset (fr_id f # rx_ids c) = mset (rx_ids c' @ (case r of None \<Rightarrow> [] | Some g \<Rightarrow> [fr_id g]))"
    using assms(1) by (simp add: ret_ids_def split: option.splits)
  then have "distinct (rx_ids c' @ (case r of None \<Rightarrow> [] | Some g \<Rightarrow> [fr_id g]))"
    using assms(2) mset_eq_imp_distinct_iff by blast
  then show ?thesis by simp
qed

text \<open>What queueing a fragment does to the queues, when it is not the last one.\<close>

lemma queue_fragment:
  fixes f g :: recv_frame
  assumes inv: "defrag_inv c" and i: "i < length (rx_stas c)" and d: "distinct (fr_id f # rx_ids c)"
    and q: "q = si_defrag_q (rx_sta c i) \<and> rp = rx_pool c \<or> q = [] \<and> rp = rtw_free_recvframe_queue (si_defrag_q (rx_sta c i)) (rx_pool c)"
    and f: "fr_id g = fr_id f" "frag_readable g"
  defines "c' \<equiv> set_sta i ((rx_sta c i)\<lparr>si_defrag_q := q @ [g]\<rparr>) (set_pool rp c)"
  shows "mset (rx_ids c') = add_mset (fr_id f) (mset (rx_ids c))"
    "\<forall>s\<in>set (rx_stas c'). \<forall>f\<in>set (si_defrag_q s). frag_readable f" "sta_inv (ad_stapriv (rx_ad c'))"
proof -
  let ?q = "si_defrag_q (rx_sta c i)"
  have np: "not_pooled ?q (rx_pool c)" using queue_not_pooled [OF d i] by (simp add: not_pooled_append)
  have "mset (pool_ids rp) + mset (map fr_id q) = mset (pool_ids (rx_pool c)) + mset (map fr_id ?q)"
    using q pool_gets_ids [OF free_queue_pool_gets [OF np]] by auto
  then have "mset (pool_ids rp) + (mset (queued_ids ((rx_stas c)[i := (rx_sta c i)\<lparr>si_defrag_q := q @ [g]\<rparr>])) + mset (map fr_id ?q))
     = mset (pool_ids (rx_pool c)) + add_mset (fr_id f) (mset (queued_ids (rx_stas c))) + mset (map fr_id ?q)"
    using queued_ids_update [OF i, of "q @ [g]" "rx_sta c i"] f(1) by (simp add: rx_sta_def ac_simps)
  then show "mset (rx_ids c') = add_mset (fr_id f) (mset (rx_ids c))"
    by (simp add: c'_def rx_ids_def ac_simps)
  have "\<forall>h\<in>set ?q. frag_readable h" using inv i by (auto simp: defrag_inv_def rx_sta_def)
  then show "\<forall>s\<in>set (rx_stas c'). \<forall>f\<in>set (si_defrag_q s). frag_readable f"
    using inv q f(2) by (auto simp: c'_def defrag_inv_def dest!: subsetD [OF set_update_subset_insert])
  show "sta_inv (ad_stapriv (rx_ad c'))"
    using set_sta_inv [of "set_pool rp c" i "q @ [g]"] inv by (simp add: c'_def defrag_inv_def rx_sta_def)
qed

lemma readable_keytrack [simp]: "frag_readable (f\<lparr>fr_keytrack := k\<rparr>) = frag_readable f"
  by (simp add: frag_readable_def frame_wf_def pn_checked_def frame_pn_def frame_ccmph_def frame_rd_def)

text \<open>Handing the queue over to reassembly.\<close>

lemma finish_fragments:
  fixes f g :: recv_frame
  assumes inv: "defrag_inv c" and i: "i < length (rx_stas c)" and d: "distinct (fr_id f # rx_ids c)"
    and f: "fr_id g = fr_id f" "frag_readable g"
    and r: "recvframe_defrag (si_defrag_q (rx_sta c i) @ [g]) (rx_pool c) = Some (r, rp)"
  defines "c' \<equiv> set_sta i ((rx_sta c i)\<lparr>si_defrag_q := []\<rparr>) (set_pool rp c)"
  shows "mset (rx_ids c') + ret_ids r = add_mset (fr_id f) (mset (rx_ids c))"
    "\<forall>s\<in>set (rx_stas c'). \<forall>f\<in>set (si_defrag_q s). frag_readable f" "sta_inv (ad_stapriv (rx_ad c'))"
    "\<And>h. r = Some h \<Longrightarrow> not_pooled [h] (rx_pool c')"
proof -
  let ?q = "si_defrag_q (rx_sta c i)"
  have read: "\<forall>h\<in>set (?q @ [g]). frag_readable h" using inv i f(2) by (auto simp: defrag_inv_def rx_sta_def)
  have "not_pooled (?q @ [f]) (rx_pool c)" by (rule queue_not_pooled [OF d i])
  then have np: "not_pooled (?q @ [g]) (rx_pool c)" using f(1) not_pooled_ids [of "?q @ [f]" "?q @ [g]"] by simp
  have "case r of None \<Rightarrow> pool_gets (rx_pool c) (?q @ [g]) rp
       | Some h \<Rightarrow> pool_gets (rx_pool c) (tl (?q @ [g])) rp \<and> fr_id h = fr_id (hd (?q @ [g]))"
    using recvframe_defrag_spec [OF _ read np] r by (auto split: option.splits)
  then have pool: "mset (pool_ids rp) + ret_ids r = mset (pool_ids (rx_pool c)) + add_mset (fr_id f) (mset (map fr_id ?q))"
    using f(1) by (cases ?q) (auto simp: ret_ids_def pool_gets_ids split: option.splits)
  have "mset (queued_ids ((rx_stas c)[i := (rx_sta c i)\<lparr>si_defrag_q := []\<rparr>])) + mset (map fr_id ?q) = mset (queued_ids (rx_stas c))"
    using queued_ids_update [OF i, of "[]" "rx_sta c i"] by (simp add: rx_sta_def)
  then show ids: "mset (rx_ids c') + ret_ids r = add_mset (fr_id f) (mset (rx_ids c))"
    using pool by (simp add: c'_def rx_ids_def ac_simps flip: union_assoc)
  show "\<forall>s\<in>set (rx_stas c'). \<forall>f\<in>set (si_defrag_q s). frag_readable f"
    using inv by (auto simp: c'_def defrag_inv_def dest!: subsetD [OF set_update_subset_insert])
  show "sta_inv (ad_stapriv (rx_ad c'))"
    using set_sta_inv [of "set_pool rp c" i "[]"] inv by (simp add: c'_def defrag_inv_def rx_sta_def)
  fix h assume h: "r = Some h"
  have "distinct (fr_id h # rx_ids c')"
    using mset_eq_imp_distinct_iff [of "fr_id f # rx_ids c" "fr_id h # rx_ids c'"] d ids h by (simp add: ret_ids_def)
  then show "not_pooled [h] (rx_pool c')" by (auto simp: not_pooled_def rx_ids_def pool_ids_def)
qed

lemma chk_defrag_conserves:
  fixes f :: recv_frame
  assumes "defrag_inv c" "frag_readable f" "distinct (fr_id f # rx_ids c)" "recvframe_chk_defrag hz now f c = Some (r, c')"
  shows "mset (rx_ids c') + (case r of None \<Rightarrow> {#} | Some g \<Rightarrow> {#fr_id g#}) = add_mset (fr_id f) (mset (rx_ids c)) \<and> defrag_inv c'"
proof -
  have np: "not_pooled [f] (rx_pool c)" using assms(3) by (auto simp: not_pooled_def rx_ids_def pool_ids_def)
  have ff: "mset (rx_ids (free_frame f c)) = add_mset (fr_id f) (mset (rx_ids c))" "rx_stas (free_frame f c) = rx_stas c"
     "ad_stapriv (rx_ad (free_frame f c)) = ad_stapriv (rx_ad c)"
    using free_frame_ids [OF np] by (simp_all add: free_frame_def)
  have "mset (rx_ids c') + ret_ids r = add_mset (fr_id f) (mset (rx_ids c))
      \<and> (\<forall>s\<in>set (rx_stas c'). \<forall>f\<in>set (si_defrag_q s). frag_readable f) \<and> sta_inv (ad_stapriv (rx_ad c'))"
  proof (cases "defrag_sta f c")
    case (Some psta)
    consider (whole) "\<not> pa_mfrag (fr_attrib f) \<and> pa_frag_num (fr_attrib f) = 0"
      | (drop) "\<not> (\<not> pa_mfrag (fr_attrib f) \<and> pa_frag_num (fr_attrib f) = 0)" "IS_MCAST (pa_ra (fr_attrib f)) \<or> psta = None"
      | (frag) i where "\<not> (\<not> pa_mfrag (fr_attrib f) \<and> pa_frag_num (fr_attrib f) = 0)" "\<not> IS_MCAST (pa_ra (fr_attrib f))" "psta = Some i"
      by blast
    then show ?thesis
    proof cases
      case whole
      then have "chk_defrag_end hz now (Some f) c = Some (r, c')" using assms(4) Some by (simp add: recvframe_chk_defrag_def)
      from chk_defrag_end_ids [OF this] np show ?thesis using assms(1) by (simp add: ret_ids_def defrag_inv_def)
    next
      case drop
      then have "r = None \<and> c' = free_frame f c"
        using assms(4) Some by (auto simp: recvframe_chk_defrag_def Let_def split: option.splits)
      then show ?thesis using ff assms(1) by (simp add: ret_ids_def defrag_inv_def)
    next
      case (frag i)
      let ?g = "f\<lparr>fr_keytrack := si_keytrack (rx_sta c i)\<rparr>" and ?q = "si_defrag_q (rx_sta c i)"
      have i: "i < length (rx_stas c)" using defrag_sta_bound Some frag(3) assms(1) by (auto simp: defrag_inv_def)
      have g: "fr_id ?g = fr_id f" "frag_readable ?g" using assms(2) by simp_all
      show ?thesis
      proof (cases "pa_mfrag (fr_attrib f)")
        case True
        have c: "set_pool (rx_pool c) c = c" by (simp add: set_pool_def)
        let ?out = "\<lambda>q rp. r = None \<and> c' = set_sta i ((rx_sta c i)\<lparr>si_defrag_q := q @ [?g]\<rparr>) (set_pool rp c)"
        have "if pa_frag_num (fr_attrib f) = 0 then ?out [] (rtw_free_recvframe_queue ?q (rx_pool c)) else ?out ?q (rx_pool c)"
          using assms(4) frag True Some c by (auto simp: recvframe_chk_defrag_def Let_def rx_sta_def split: if_splits)
        then show ?thesis
          using queue_fragment [OF assms(1) i assms(3) disjI1 [OF conjI [OF refl refl]] g]
            queue_fragment [OF assms(1) i assms(3) disjI2 [OF conjI [OF refl refl]] g]
          by (cases "pa_frag_num (fr_attrib f) = 0") (simp_all add: ret_ids_def)
      next
        case False
        then obtain r0 rp where d: "recvframe_defrag (?q @ [?g]) (rx_pool c) = Some (r0, rp)"
          "chk_defrag_end hz now r0 (set_sta i ((rx_sta c i)\<lparr>si_defrag_q := []\<rparr>) (set_pool rp c)) = Some (r, c')"
          using assms(4) frag Some by (auto simp: recvframe_chk_defrag_def Let_def split: option.splits)
        note fin = finish_fragments [OF assms(1) i assms(3) g d(1)]
        from chk_defrag_end_ids [OF d(2)] fin show ?thesis by simp
      qed
    qed
  qed (use assms(4) in \<open>simp add: recvframe_chk_defrag_def\<close>)
  then show ?thesis using distinct_after [OF _ assms(3), of c' r] by (simp add: defrag_inv_def ret_ids_def)
qed

text \<open>
  C32. A received frame goes to exactly one place: \<^verbatim>\<open>recvframe_chk_defrag\<close> returns it, queues it with
  its station or frees it, and the frames of a dropped or reassembled queue are freed exactly once.
  The invariant (station table, no frame in two places, queued fragments with intact buffers) is kept.
\<close>

theorem recvframe_chk_defrag_conserves:
  fixes f :: recv_frame
  assumes "defrag_inv c" "frag_readable f" "distinct (fr_id f # rx_ids c)" "recvframe_chk_defrag hz now f c = Some (r, c')"
  shows "mset (rx_ids c') + (case r of None \<Rightarrow> {#} | Some g \<Rightarrow> {#fr_id g#}) = add_mset (fr_id f) (mset (rx_ids c)) \<and> defrag_inv c'"
  by (rule chk_defrag_conserves [OF assms])

section \<open>Sample fragments\<close>

definition sample_frag :: "nat \<Rightarrow> u8 \<Rightarrow> bool \<Rightarrow> u8 \<Rightarrow> bytes \<Rightarrow> recv_frame" where
  "sample_frag i n mf pn body = \<lparr>fr_id = i, fr_keytrack = 0,
     fr_attrib = sample_attrib\<lparr>pa_encrypt := AES, pa_hdrlen := 24, pa_iv_len := 8, pa_icv_len := 8, pa_frag_num := n,
       pa_mfrag := mf, pa_ra := replicate 6 2, pa_ta := replicate 6 4\<rparr>,
     fr_len = 40 + of_nat (length body),
     rx_mem = replicate 24 0 @ [pn, 0, 0, 0x20, 0, 0, 0, 0] @ body @ replicate 8 0 @ replicate 64 0,
     rx_data = 0, rx_tail = 40 + int (length body), fr_psta = None, fr_preorder_ctrl = None\<rparr>"


abbreviation frag_a :: recv_frame where "frag_a \<equiv> sample_frag 5 0 True 7 [1, 2]"
abbreviation frag_b :: recv_frame where "frag_b \<equiv> sample_frag 6 1 False 8 [3]"

lemma sample_frag_pn: "frame_pn frag_a = Some 7" "frame_pn frag_b = Some 8"
proof -
  have l: "le64 [7, 0, 0, 0x20, 0, 0, 0, 0] = 0x20000007" "le64 [8, 0, 0, 0x20, 0, 0, 0, 0] = 0x20000008"
    by (simp_all add: le64_def upt_rec)
  show "frame_pn frag_a = Some 7" "frame_pn frag_b = Some 8"
    by (simp_all add: frame_pn_def frame_ccmph_def frame_rd_def sample_frag_def l CCMPH_2_PN_def)
qed

lemma sample_frag_readable: "frag_readable frag_a" "frag_readable frag_b"
  by (simp_all add: frag_readable_def sample_frag_pn) (simp_all add: frame_wf_def sample_frag_def)

lemma sample_frag_sel:
  "frag_body frag_b = 3 # replicate 8 0" "frag_icv frag_a = 8"
  "frame_payload frag_a = replicate 24 0 @ [7, 0, 0, 0x20, 0, 0, 0, 0, 1, 2] @ replicate 8 0"
  by (simp_all add: frag_body_def frag_hdr_def frag_icv_def sample_frag_def frame_payload_def)

theorem recvframe_defrag_reassembles_witness:
  "\<exists>g rp'. recvframe_defrag [frag_a, frag_b] sample_recv_priv = Some (Some g, rp') \<and> map fr_id (free_recv_queue rp') = [6]
     \<and> frame_payload g = replicate 24 0 @ [7, 0, 0, 0x20, 0, 0, 0, 0, 1, 2, 3] @ replicate 8 0"
proof -
  have np: "not_pooled [frag_a, frag_b] sample_recv_priv"
    by (simp add: not_pooled_def sample_frag_def sample_recv_priv_def)
  have p: "next_pn 0 frag_a = Some 7" "pn_checked frag_b"
    by (simp_all add: next_pn_def sample_frag_pn) (simp_all add: pn_checked_def sample_frag_def sec_type_defs)
  have good: "frags_good 7 1 (fr_keytrack frag_a) [frag_b]" "pa_frag_num (fr_attrib frag_a) = 0"
    by (simp_all add: frags_good_def p sample_frag_pn) (simp_all add: sample_frag_def)
  have fit: "int (sum_list (map (length \<circ> frag_body) [frag_b])) \<le> int (length (rx_mem frag_a)) - rx_tail frag_a"
    by (simp add: sample_frag_sel) (simp add: sample_frag_def)
  have free: "free_recv_queue sample_recv_priv = []" "fr_id frag_b = 6" by (simp_all add: sample_recv_priv_def sample_frag_def)
  show ?thesis
    using recvframe_defrag_reassembles [of "[frag_a, frag_b]" sample_recv_priv] np good fit
    by (auto simp: sample_frag_readable p sample_frag_sel strip_tail_def pool_gets_def free split: option.splits)
qed

text \<open>One associated station, with an empty fragment queue, and an empty pool.\<close>

definition sample_rx_ctx :: rx_ctx where
  "sample_rx_ctx = \<lparr>rx_ad = sample_adapter\<lparr>ad_stapriv := sample_sta_priv\<lparr>
       pstainfo_buf := (replicate 32 zero_stainfo)[0 := init_stainfo (replicate 6 4)], free_sta_queue := [1..<32],
       sta_hash := (replicate 32 [])[unat (wifi_mac_hash (replicate 6 4)) := [0]], asoc_sta_count := 1\<rparr>\<rparr>,
     rx_sec = sample_sec, rx_key_index = 0, rx_mic_failures = []\<rparr>"

lemma sample_rx_sta: "sta_inv (ad_stapriv (rx_ad sample_rx_ctx))" "rtw_get_stainfo (ad_stapriv (rx_ad sample_rx_ctx)) (replicate 6 4) = Some 0"
proof -
  let ?sp = "ad_stapriv (rx_ad sample_rx_ctx)" and ?h = "unat (wifi_mac_hash (replicate 6 4))"
  have h: "?h < 32" using wifi_mac_hash_bound [of "replicate 6 4"] by (simp add: NUM_STA_def)
  have "mset (concat ((replicate 32 [])[?h := replicate 32 [] ! ?h @ [0]])) = add_mset (0 :: nat) (mset (concat (replicate 32 [])))"
    using mset_concat_bucket [of ?h "replicate 32 []" "0 :: nat"] h by simp
  then have "mset (sta_live ?sp) = {#0#}" using h by (simp add: sta_live_def sample_rx_ctx_def)
  then have live: "sta_live ?sp = [0]" by (metis mset_single_iff)
  have mc: "\<not> IS_MCAST (replicate 6 4)" by (simp add: IS_MCAST_def numeral_eq_Suc)
  show inv: "sta_inv ?sp"
    unfolding sta_inv_def live using h mc
    by (auto simp: sample_rx_ctx_def NUM_STA_def init_stainfo_def sta_key_def nth_list_update Suc_le_eq)
  show "rtw_get_stainfo ?sp (replicate 6 4) = Some 0"
    unfolding get_stainfo_iff [OF inv] live by (simp add: sta_canon_def mc sample_rx_ctx_def init_stainfo_def)
qed

lemma sample_rx_queues: "rx_ids sample_rx_ctx = []" "\<forall>s\<in>set (rx_stas sample_rx_ctx). si_defrag_q s = []"
proof -
  show q: "\<forall>s\<in>set (rx_stas sample_rx_ctx). si_defrag_q s = []"
    by (auto simp: sample_rx_ctx_def sample_sta_priv_def zero_stainfo_def init_stainfo_def dest!: subsetD [OF set_update_subset_insert])
  then show "rx_ids sample_rx_ctx = []"
    by (simp add: rx_ids_def queued_ids_def) (simp add: pool_ids_def sample_rx_ctx_def sample_adapter_def sample_recv_priv_def)
qed

theorem recvframe_chk_defrag_conserves_witness:
  "\<exists>c'. recvframe_chk_defrag 250 0 frag_a sample_rx_ctx = Some (None, c') \<and> rx_ids c' = [5] \<and> defrag_inv c'"
proof -
  have inv: "defrag_inv sample_rx_ctx" using sample_rx_sta sample_rx_queues by (simp add: defrag_inv_def)
  have sel: "pa_ta (fr_attrib frag_a) = replicate 6 4" "pa_mfrag (fr_attrib frag_a)" "fr_id frag_a = 5"
      "\<not> IS_MCAST (pa_ra (fr_attrib frag_a))"
    by (simp_all add: sample_frag_def IS_MCAST_def numeral_eq_Suc)
  then obtain c' where c': "recvframe_chk_defrag 250 0 frag_a sample_rx_ctx = Some (None, c')"
    by (simp add: recvframe_chk_defrag_def Let_def defrag_sta_def sample_rx_sta)
  then show ?thesis
    using recvframe_chk_defrag_conserves [OF inv sample_frag_readable(1) _ c'] sel(3) sample_rx_queues(1) by simp
qed

section \<open>The integrity check accepts what Michael accepts\<close>

text \<open>
  A frame as TKIP builds it: header, IV, data, Michael code, ICV. The code is computed over the addresses of the header
  and the data.
\<close>

definition tkip_layout :: "recv_frame \<Rightarrow> bytes \<Rightarrow> bytes \<Rightarrow> bytes \<Rightarrow> bytes \<Rightarrow> bytes \<Rightarrow> bool" where
  "tkip_layout f hdr iv data mic icv \<longleftrightarrow> frame_wf f \<and> frame_payload f = hdr @ iv @ data @ mic @ icv
     \<and> length hdr = unat (pa_hdrlen (fr_attrib f)) \<and> length iv = unat (pa_iv_len (fr_attrib f))
     \<and> length icv = unat (pa_icv_len (fr_attrib f)) \<and> length mic = 8
     \<and> (if hdr ! 1 AND 3 = 3 then 30 else 24) \<le> length hdr"

lemma rd_slice:
  assumes "frame_wf f" "frame_payload f = a @ b @ c" "p = int (length a)" "n = length b"
  shows "frame_rd f p n = Some b"
  using frame_rd_payload [OF assms(1), of p n] assms(2-4) by simp

lemma mic_error_layout:
  assumes "tkip_layout f hdr iv data mic icv"
  shows "mic_error key f = Some (rtw_seccalctkipmic key (take (if hdr ! 1 AND 3 = 3 then 30 else 22) hdr) data (pa_priority (fr_attrib f)) \<noteq> mic)"
proof -
  let ?a = "fr_attrib f" and ?n = "if hdr ! 1 AND 3 = 3 then 30 else 22 :: nat"
  note l = assms [unfolded tkip_layout_def]
  have wf: "frame_wf f" and pay: "frame_payload f = hdr @ iv @ data @ mic @ icv" and h: "?n \<le> length hdr" "24 \<le> length hdr"
    using l by (auto split: if_splits)
  have tot: "unat (fr_len f) = length hdr + length iv + length data + 8 + length icv"
    using frame_wf_len [OF wf] l by simp
  have "mic_datalen f = of_nat (unat (fr_len f)) - of_nat (length hdr) - of_nat (length iv) - of_nat (length icv) - 8"
    using l by (simp add: mic_datalen_def)
  also have "\<dots> = of_nat (length data)" unfolding tot by simp
  finally have n: "unat (mic_datalen f) = length data"
    using tot unsigned_less [where w = "fr_len f" and ?'a = nat] by (simp add: unat_of_nat)
  have p: "uint (pa_hdrlen ?a) + uint (pa_iv_len ?a) = int (length hdr + length iv)" using l by simp
  have fc: "frame_rd f 0 2 = Some (take 2 hdr)"
    using rd_slice [of f "[]" "take 2 hdr" "drop 2 hdr @ iv @ data @ mic @ icv" 0 2] wf pay h(2) by simp
  have "frame_rd f 0 ?n = Some (take ?n hdr)"
    using rd_slice [of f "[]" "take ?n hdr" "drop ?n hdr @ iv @ data @ mic @ icv" 0 ?n] wf pay h(1) by simp
  then have hd: "mic_header f = Some (take ?n hdr)" using fc by (simp add: mic_header_def)
  have d: "frame_rd f (int (length hdr + length iv)) (length data) = Some data"
    by (rule rd_slice [OF wf, of "hdr @ iv" data "mic @ icv"]) (simp_all add: pay)
  have m: "frame_rd f (int (length hdr + length iv) + int (length data)) 8 = Some mic"
    by (rule rd_slice [OF wf, of "hdr @ iv @ data" mic icv]) (use l in simp_all)
  show ?thesis by (simp only: mic_error_def Let_def n p hd d m prod.case option.case)
qed

text \<open>
  C33. A unicast TKIP frame of a known station passes the integrity check exactly when the eight bytes
  after its data are the Michael code of its addresses, priority and data under the station's key;
  nothing else changes then. A failure is handed to the countermeasure handler when the frame was
  decrypted. Both ways eight bytes are cut from the end.
\<close>

theorem recvframe_chkmic_michael:
  assumes "tkip_layout f hdr iv data mic icv" "pa_encrypt (fr_attrib f) = TKIP" "\<not> IS_MCAST (pa_ra (fr_attrib f))"
    and "rtw_get_stainfo (ad_stapriv (rx_ad c)) (pa_ta (fr_attrib f)) = Some i"
  shows "\<exists>g. frame_payload g = strip_tail 8 (frame_payload f) \<and> fr_id g = fr_id f
    \<and> recvframe_chkmic hz now f c =
        Some (if mic = rtw_seccalctkipmic (si_tkiprxmickey (rx_sta c i)) (take (if hdr ! 1 AND 3 = 3 then 30 else 22) hdr) data
                         (pa_priority (fr_attrib f))
              then (RET_SUCCESS, g, c)
              else (RET_FAIL, g, if pa_bdecrypted (fr_attrib f)
                                 then rtw_handle_tkip_mic_err hz now (si_mac_addr (rx_sta c i)) False c else c))"
proof -
  let ?g = "snd (recvframe_pull_tail f 8)"
  have wf: "frame_wf f" "8 \<le> length (frame_payload f)" using assms(1) by (auto simp: tkip_layout_def)
  then have "frame_payload ?g = strip_tail 8 (frame_payload f)"
    using pull_tail_payload [OF wf(1), of 8] frame_payload_length [OF wf(1)]
    by (auto simp: strip_tail_def recvframe_pull_tail_def Let_def split: if_splits)
  moreover have "recvframe_chkmic hz now f c =
        Some (if mic = rtw_seccalctkipmic (si_tkiprxmickey (rx_sta c i)) (take (if hdr ! 1 AND 3 = 3 then 30 else 22) hdr) data
                         (pa_priority (fr_attrib f))
              then (RET_SUCCESS, ?g, c)
              else (RET_FAIL, ?g, if pa_bdecrypted (fr_attrib f)
                                 then rtw_handle_tkip_mic_err hz now (si_mac_addr (rx_sta c i)) False c else c))"
    using assms(2-4) by (simp add: recvframe_chkmic_def Let_def mic_error_layout [OF assms(1)])
  ultimately show ?thesis by (intro exI [of _ ?g]) simp
qed

text \<open>
  The length is not checked first: for a frame shorter than header, IV, ICV and code the length of the data wraps
  and the computation reads past the buffer.
\<close>

lemma recvframe_chkmic_short_frame:
  assumes "frame_wf f" "pa_encrypt (fr_attrib f) = TKIP" "\<not> IS_MCAST (pa_ra (fr_attrib f))"
    and "rtw_get_stainfo (ad_stapriv (rx_ad c)) (pa_ta (fr_attrib f)) = Some i"
    and "length (frame_payload f) < unat (pa_hdrlen (fr_attrib f)) + unat (pa_iv_len (fr_attrib f)) + unat (pa_icv_len (fr_attrib f)) + 8"
  shows "recvframe_chkmic hz now f c = None"
proof -
  let ?s = "unat (pa_hdrlen (fr_attrib f)) + unat (pa_iv_len (fr_attrib f)) + unat (pa_icv_len (fr_attrib f)) + 8"
  have s: "?s < 1000" using u8_bound [of "pa_hdrlen (fr_attrib f)"] u8_bound [of "pa_iv_len (fr_attrib f)"] u8_bound [of "pa_icv_len (fr_attrib f)"] by simp
  have l: "unat (fr_len f) < ?s" using frame_wf_len [OF assms(1)] assms(5) by simp
  have "mic_datalen f = of_int (int (unat (fr_len f)) - int ?s)" by (simp add: mic_datalen_def)
  then have "65536 \<le> uint (mic_datalen f)" using wrap_below [OF l s] by simp
  moreover have "length (rx_mem f) < 65536" "0 \<le> rx_data f" using assms(1) by (simp_all add: frame_wf_def)
  ultimately have "\<not> rx_data f + (uint (pa_hdrlen (fr_attrib f)) + uint (pa_iv_len (fr_attrib f))) + uint (mic_datalen f) \<le> int (length (rx_mem f))"
    using uint_ge_0 [of "pa_hdrlen (fr_attrib f)"] uint_ge_0 [of "pa_iv_len (fr_attrib f)"] by linarith
  then have "frame_rd f (uint (pa_hdrlen (fr_attrib f)) + uint (pa_iv_len (fr_attrib f))) (unat (mic_datalen f)) = None"
    by (simp add: frame_rd_def)
  then have "mic_error key f = None" for key by (simp add: mic_error_def Let_def split: option.split)
  then show ?thesis using assms(2-4) by (simp add: recvframe_chkmic_def Let_def)
qed

text \<open>
  Two failures less than 60 s apart start the countermeasures; from then on association is refused
  until more than 60 s have passed since the second.
\<close>

lemma tkip_countermeasures:
  assumes "last_mic_err_time (rx_sec c) = 0" "t0 \<noteq> 0"
    and c2: "c2 = rtw_handle_tkip_mic_err hz t1 mac' b' (rtw_handle_tkip_mic_err hz t0 mac b c)"
  shows "btkip_countermeasure (rx_sec c2) \<longleftrightarrow> btkip_countermeasure (rx_sec c) \<or> t1 - t0 < 60 * hz"
    and "t1 - t0 < 60 * hz \<Longrightarrow> fst (rtw_handle_tkip_countermeasure to_ms now (rx_sec c2)) = RET_FAIL \<longleftrightarrow> to_ms (now - t1) \<le> 60000"
  using assms(1,2) by (auto simp: c2 rtw_handle_tkip_mic_err_def rtw_handle_tkip_countermeasure_def Let_def)

definition sample_mic_frame :: "bytes \<Rightarrow> recv_frame" where
  "sample_mic_frame mic = \<lparr>fr_id = 5, fr_keytrack = 0,
     fr_attrib = sample_attrib\<lparr>pa_encrypt := TKIP, pa_hdrlen := 24, pa_iv_len := 8, pa_icv_len := 4, pa_ra := replicate 6 2,
       pa_ta := replicate 6 4\<rparr>,
     fr_len = 46, rx_mem = replicate 24 0 @ replicate 8 0 @ [1, 2] @ mic @ replicate 4 0, rx_data = 0, rx_tail = 46, fr_psta = None, fr_preorder_ctrl = None\<rparr>"

theorem recvframe_chkmic_michael_witness:
  "\<exists>mic g. length mic = 8 \<and> recvframe_chkmic 250 0 (sample_mic_frame mic) sample_rx_ctx = Some (RET_SUCCESS, g, sample_rx_ctx)
     \<and> frame_payload g = replicate 24 0 @ replicate 8 0 @ [1, 2] @ take 4 mic"
proof -
  define mic where "mic = rtw_seccalctkipmic (si_tkiprxmickey (rx_sta sample_rx_ctx 0)) (replicate 22 0) [1, 2] 0"
  let ?f = "sample_mic_frame mic"
  have l8: "length mic = 8" by (simp add: mic_def rtw_seccalctkipmic_def rtw_secgetmic_def Let_def split_def)
  have lay: "tkip_layout ?f (replicate 24 0) (replicate 8 0) [1, 2] mic (replicate 4 0)"
    by (simp add: tkip_layout_def frame_wf_def frame_payload_def sample_mic_frame_def l8)
  have sel: "pa_encrypt (fr_attrib ?f) = TKIP" "\<not> IS_MCAST (pa_ra (fr_attrib ?f))"
      "rtw_get_stainfo (ad_stapriv (rx_ad sample_rx_ctx)) (pa_ta (fr_attrib ?f)) = Some 0" "pa_priority (fr_attrib ?f) = 0"
    by (simp_all add: sample_mic_frame_def sample_rx_sta sample_attrib_def) (simp add: IS_MCAST_def numeral_eq_Suc)
  have pay: "frame_payload ?f = replicate 24 0 @ replicate 8 0 @ [1, 2] @ mic @ replicate 4 0"
    using lay by (simp add: tkip_layout_def)
  show ?thesis
    using recvframe_chkmic_michael [OF lay sel(1-3), of 250 0] l8
    by (auto simp: sel(4) mic_def [symmetric] pay strip_tail_def)
qed

end
