(* ===== verification/Aes.thy ===== *)
theory Aes
  imports Driver_Prelude
begin

unbundle bit_operations_syntax

text \<open>
  The AES block cipher of \<^verbatim>\<open>core/crypto\<close>: the table \<^verbatim>\<open>Te0\<close>, the macros of \<^verbatim>\<open>aes_i.h\<close> for
  \<^verbatim>\<open>AES_SMALL_TABLES\<close>, the key schedule \<^verbatim>\<open>rijndaelKeySetupEnc\<close> for 128, 192 and 256 bits,
  \<^verbatim>\<open>rijndaelEncrypt\<close> and the context functions of \<^verbatim>\<open>aes-internal-enc.c\<close>; and the cipher of
  FIPS 197 as the reference they are compared with. A context is a schedule with its number of
  rounds (the word at \<^verbatim>\<open>AES_PRIV_NR_POS\<close>).
\<close>

section \<open>Tables and macros\<close>

definition Te0 :: "u32 list" where
  "Te0 = [
     0xc66363a5, 0xf87c7c84, 0xee777799, 0xf67b7b8d, 0xfff2f20d, 0xd66b6bbd,
     0xde6f6fb1, 0x91c5c554, 0x60303050, 0x02010103, 0xce6767a9, 0x562b2b7d,
     0xe7fefe19, 0xb5d7d762, 0x4dababe6, 0xec76769a, 0x8fcaca45, 0x1f82829d,
     0x89c9c940, 0xfa7d7d87, 0xeffafa15, 0xb25959eb, 0x8e4747c9, 0xfbf0f00b,
     0x41adadec, 0xb3d4d467, 0x5fa2a2fd, 0x45afafea, 0x239c9cbf, 0x53a4a4f7,
     0xe4727296, 0x9bc0c05b, 0x75b7b7c2, 0xe1fdfd1c, 0x3d9393ae, 0x4c26266a,
     0x6c36365a, 0x7e3f3f41, 0xf5f7f702, 0x83cccc4f, 0x6834345c, 0x51a5a5f4,
     0xd1e5e534, 0xf9f1f108, 0xe2717193, 0xabd8d873, 0x62313153, 0x2a15153f,
     0x0804040c, 0x95c7c752, 0x46232365, 0x9dc3c35e, 0x30181828, 0x379696a1,
     0x0a05050f, 0x2f9a9ab5, 0x0e070709, 0x24121236, 0x1b80809b, 0xdfe2e23d,
     0xcdebeb26, 0x4e272769, 0x7fb2b2cd, 0xea75759f, 0x1209091b, 0x1d83839e,
     0x582c2c74, 0x341a1a2e, 0x361b1b2d, 0xdc6e6eb2, 0xb45a5aee, 0x5ba0a0fb,
     0xa45252f6, 0x763b3b4d, 0xb7d6d661, 0x7db3b3ce, 0x5229297b, 0xdde3e33e,
     0x5e2f2f71, 0x13848497, 0xa65353f5, 0xb9d1d168, 0x00000000, 0xc1eded2c,
     0x40202060, 0xe3fcfc1f, 0x79b1b1c8, 0xb65b5bed, 0xd46a6abe, 0x8dcbcb46,
     0x67bebed9, 0x7239394b, 0x944a4ade, 0x984c4cd4, 0xb05858e8, 0x85cfcf4a,
     0xbbd0d06b, 0xc5efef2a, 0x4faaaae5, 0xedfbfb16, 0x864343c5, 0x9a4d4dd7,
     0x66333355, 0x11858594, 0x8a4545cf, 0xe9f9f910, 0x04020206, 0xfe7f7f81,
     0xa05050f0, 0x783c3c44, 0x259f9fba, 0x4ba8a8e3, 0xa25151f3, 0x5da3a3fe,
     0x804040c0, 0x058f8f8a, 0x3f9292ad, 0x219d9dbc, 0x70383848, 0xf1f5f504,
     0x63bcbcdf, 0x77b6b6c1, 0xafdada75, 0x42212163, 0x20101030, 0xe5ffff1a,
     0xfdf3f30e, 0xbfd2d26d, 0x81cdcd4c, 0x180c0c14, 0x26131335, 0xc3ecec2f,
     0xbe5f5fe1, 0x359797a2, 0x884444cc, 0x2e171739, 0x93c4c457, 0x55a7a7f2,
     0xfc7e7e82, 0x7a3d3d47, 0xc86464ac, 0xba5d5de7, 0x3219192b, 0xe6737395,
     0xc06060a0, 0x19818198, 0x9e4f4fd1, 0xa3dcdc7f, 0x44222266, 0x542a2a7e,
     0x3b9090ab, 0x0b888883, 0x8c4646ca, 0xc7eeee29, 0x6bb8b8d3, 0x2814143c,
     0xa7dede79, 0xbc5e5ee2, 0x160b0b1d, 0xaddbdb76, 0xdbe0e03b, 0x64323256,
     0x743a3a4e, 0x140a0a1e, 0x924949db, 0x0c06060a, 0x4824246c, 0xb85c5ce4,
     0x9fc2c25d, 0xbdd3d36e, 0x43acacef, 0xc46262a6, 0x399191a8, 0x319595a4,
     0xd3e4e437, 0xf279798b, 0xd5e7e732, 0x8bc8c843, 0x6e373759, 0xda6d6db7,
     0x018d8d8c, 0xb1d5d564, 0x9c4e4ed2, 0x49a9a9e0, 0xd86c6cb4, 0xac5656fa,
     0xf3f4f407, 0xcfeaea25, 0xca6565af, 0xf47a7a8e, 0x47aeaee9, 0x10080818,
     0x6fbabad5, 0xf0787888, 0x4a25256f, 0x5c2e2e72, 0x381c1c24, 0x57a6a6f1,
     0x73b4b4c7, 0x97c6c651, 0xcbe8e823, 0xa1dddd7c, 0xe874749c, 0x3e1f1f21,
     0x964b4bdd, 0x61bdbddc, 0x0d8b8b86, 0x0f8a8a85, 0xe0707090, 0x7c3e3e42,
     0x71b5b5c4, 0xcc6666aa, 0x904848d8, 0x06030305, 0xf7f6f601, 0x1c0e0e12,
     0xc26161a3, 0x6a35355f, 0xae5757f9, 0x69b9b9d0, 0x17868691, 0x99c1c158,
     0x3a1d1d27, 0x279e9eb9, 0xd9e1e138, 0xebf8f813, 0x2b9898b3, 0x22111133,
     0xd26969bb, 0xa9d9d970, 0x078e8e89, 0x339494a7, 0x2d9b9bb6, 0x3c1e1e22,
     0x15878792, 0xc9e9e920, 0x87cece49, 0xaa5555ff, 0x50282878, 0xa5dfdf7a,
     0x038c8c8f, 0x59a1a1f8, 0x09898980, 0x1a0d0d17, 0x65bfbfda, 0xd7e6e631,
     0x844242c6, 0xd06868b8, 0x824141c3, 0x299999b0, 0x5a2d2d77, 0x1e0f0f11,
     0x7bb0b0cb, 0xa85454fc, 0x6dbbbbd6, 0x2c16163a]"

definition rcons :: "u8 list" where
  "rcons = [0x01, 0x02, 0x04, 0x08, 0x10, 0x20, 0x40, 0x80, 0x1B, 0x36]"

definition RCON :: "nat \<Rightarrow> u32" where
  "RCON i = push_bit 24 (ucast (rcons ! i))"

definition rotr :: "u32 \<Rightarrow> nat \<Rightarrow> u32" where
  "rotr val bits = drop_bit bits val OR push_bit (32 - bits) val"

definition TE0 :: "u32 \<Rightarrow> u32" where
  "TE0 i = Te0 ! unat (drop_bit 24 i AND 0xff)"

definition TE1 :: "u32 \<Rightarrow> u32" where
  "TE1 i = rotr (Te0 ! unat (drop_bit 16 i AND 0xff)) 8"

definition TE2 :: "u32 \<Rightarrow> u32" where
  "TE2 i = rotr (Te0 ! unat (drop_bit 8 i AND 0xff)) 16"

definition TE3 :: "u32 \<Rightarrow> u32" where
  "TE3 i = rotr (Te0 ! unat (i AND 0xff)) 24"

definition TE41 :: "u32 \<Rightarrow> u32" where
  "TE41 i = push_bit 8 (Te0 ! unat (drop_bit 24 i AND 0xff)) AND 0xff000000"

definition TE42 :: "u32 \<Rightarrow> u32" where
  "TE42 i = (Te0 ! unat (drop_bit 16 i AND 0xff)) AND 0x00ff0000"

definition TE43 :: "u32 \<Rightarrow> u32" where
  "TE43 i = (Te0 ! unat (drop_bit 8 i AND 0xff)) AND 0x0000ff00"

definition TE44 :: "u32 \<Rightarrow> u32" where
  "TE44 i = drop_bit 8 (Te0 ! unat (i AND 0xff)) AND 0x000000ff"

definition TE421 :: "u32 \<Rightarrow> u32" where
  "TE421 i = push_bit 8 (Te0 ! unat (drop_bit 16 i AND 0xff)) AND 0xff000000"

definition TE432 :: "u32 \<Rightarrow> u32" where
  "TE432 i = (Te0 ! unat (drop_bit 8 i AND 0xff)) AND 0x00ff0000"

definition TE443 :: "u32 \<Rightarrow> u32" where
  "TE443 i = (Te0 ! unat (i AND 0xff)) AND 0x0000ff00"

definition TE414 :: "u32 \<Rightarrow> u32" where
  "TE414 i = drop_bit 8 (Te0 ! unat (drop_bit 24 i AND 0xff)) AND 0x000000ff"

definition TE411 :: "u32 \<Rightarrow> u32" where
  "TE411 i = push_bit 8 (Te0 ! unat (drop_bit 24 i AND 0xff)) AND 0xff000000"

definition TE422 :: "u32 \<Rightarrow> u32" where
  "TE422 i = (Te0 ! unat (drop_bit 16 i AND 0xff)) AND 0x00ff0000"

definition TE433 :: "u32 \<Rightarrow> u32" where
  "TE433 i = (Te0 ! unat (drop_bit 8 i AND 0xff)) AND 0x0000ff00"

definition TE444 :: "u32 \<Rightarrow> u32" where
  "TE444 i = drop_bit 8 (Te0 ! unat (i AND 0xff)) AND 0x000000ff"

definition GETU32 :: "bytes \<Rightarrow> u32" where
  "GETU32 pt = push_bit 24 (ucast (pt ! 0)) XOR push_bit 16 (ucast (pt ! 1)) XOR push_bit 8 (ucast (pt ! 2)) XOR ucast (pt ! 3)"

definition PUTU32 :: "u32 \<Rightarrow> bytes" where
  "PUTU32 st = [ucast (drop_bit 24 st), ucast (drop_bit 16 st), ucast (drop_bit 8 st), ucast st]"

section \<open>Key schedule\<close>

text \<open>
  The bodies of the three loops. \<open>rk\<close> is the schedule written so far; the code's \<^verbatim>\<open>rk\<close> points
  at its offset \<open>p\<close>, and the words are written at its end.
\<close>

definition key_core :: "u32 \<Rightarrow> nat \<Rightarrow> u32" where
  "key_core temp i = TE421 temp XOR TE432 temp XOR TE443 temp XOR TE414 temp XOR RCON i"

definition setup128 :: "u32 list \<Rightarrow> nat \<Rightarrow> u32 list" where
  "setup128 rk i =
     (let p = 4 * i;
          r4 = rk ! p XOR key_core (rk ! (p + 3)) i;
          r5 = rk ! (p + 1) XOR r4;
          r6 = rk ! (p + 2) XOR r5;
          r7 = rk ! (p + 3) XOR r6
      in rk @ [r4, r5, r6, r7])"

definition setup192 :: "u32 list \<Rightarrow> nat \<Rightarrow> u32 list" where
  "setup192 rk i =
     (let p = 6 * i;
          r6 = rk ! p XOR key_core (rk ! (p + 5)) i;
          r7 = rk ! (p + 1) XOR r6;
          r8 = rk ! (p + 2) XOR r7;
          r9 = rk ! (p + 3) XOR r8
      in if i = 7 then rk @ [r6, r7, r8, r9]
         else (let r10 = rk ! (p + 4) XOR r9;
                   r11 = rk ! (p + 5) XOR r10
               in rk @ [r6, r7, r8, r9, r10, r11]))"

definition setup256 :: "u32 list \<Rightarrow> nat \<Rightarrow> u32 list" where
  "setup256 rk i =
     (let p = 8 * i;
          r8 = rk ! p XOR key_core (rk ! (p + 7)) i;
          r9 = rk ! (p + 1) XOR r8;
          r10 = rk ! (p + 2) XOR r9;
          r11 = rk ! (p + 3) XOR r10
      in if i = 6 then rk @ [r8, r9, r10, r11]
         else (let temp = r11;
                   r12 = rk ! (p + 4) XOR TE411 temp XOR TE422 temp XOR TE433 temp XOR TE444 temp;
                   r13 = rk ! (p + 5) XOR r12;
                   r14 = rk ! (p + 6) XOR r13;
                   r15 = rk ! (p + 7) XOR r14
               in rk @ [r8, r9, r10, r11, r12, r13, r14, r15]))"

definition key_words :: "bytes \<Rightarrow> nat \<Rightarrow> u32 list" where
  "key_words cipherKey n = map (\<lambda>i. GETU32 (take 4 (drop (4 * i) cipherKey))) [0..<n]"

text \<open>The number of rounds and the schedule; \<open>None\<close> is the return value -1.\<close>

definition rijndaelKeySetupEnc :: "bytes \<Rightarrow> nat \<Rightarrow> (nat \<times> u32 list) option" where
  "rijndaelKeySetupEnc cipherKey keyBits =
     (if keyBits = 128 then Some (10, foldl setup128 (key_words cipherKey 4) [0..<10])
      else if keyBits = 192 then Some (12, foldl setup192 (key_words cipherKey 6) [0..<8])
      else if keyBits = 256 then Some (14, foldl setup256 (key_words cipherKey 8) [0..<7])
      else None)"

section \<open>Encryption of a block\<close>

type_synonym aes_state = "u32 \<times> u32 \<times> u32 \<times> u32"

text \<open>The macro \<^verbatim>\<open>ROUND(i,d,s)\<close>; \<open>p\<close> is the offset the pointer \<^verbatim>\<open>rk\<close> has reached.\<close>

definition ROUND :: "u32 list \<Rightarrow> nat \<Rightarrow> nat \<Rightarrow> aes_state \<Rightarrow> aes_state" where
  "ROUND rk p i = (\<lambda>(s0, s1, s2, s3).
     (TE0 s0 XOR TE1 s1 XOR TE2 s2 XOR TE3 s3 XOR rk ! (p + 4 * i),
      TE0 s1 XOR TE1 s2 XOR TE2 s3 XOR TE3 s0 XOR rk ! (p + 4 * i + 1),
      TE0 s2 XOR TE1 s3 XOR TE2 s0 XOR TE3 s1 XOR rk ! (p + 4 * i + 2),
      TE0 s3 XOR TE1 s0 XOR TE2 s1 XOR TE3 s2 XOR rk ! (p + 4 * i + 3)))"

text \<open>The loop of full rounds; \<open>r\<close> is at least 1 for the numbers of rounds 10, 12 and 14.\<close>

fun enc_loop :: "u32 list \<Rightarrow> nat \<Rightarrow> nat \<Rightarrow> aes_state \<Rightarrow> nat \<times> aes_state" where
  "enc_loop rk r p s =
     (let t = ROUND rk p 1 s; p = p + 8 in
      if r \<le> 1 then (p, t) else enc_loop rk (r - 1) p (ROUND rk p 0 t))"

declare enc_loop.simps [simp del]

definition rijndaelEncrypt :: "u32 list \<Rightarrow> nat \<Rightarrow> bytes \<Rightarrow> bytes" where
  "rijndaelEncrypt rk Nr pt =
     (let s = (GETU32 pt XOR rk ! 0, GETU32 (drop 4 pt) XOR rk ! 1, GETU32 (drop 8 pt) XOR rk ! 2, GETU32 (drop 12 pt) XOR rk ! 3);
          (p, t0, t1, t2, t3) = enc_loop rk (Nr div 2) 0 s
      in PUTU32 (TE41 t0 XOR TE42 t1 XOR TE43 t2 XOR TE44 t3 XOR rk ! p)
         @ PUTU32 (TE41 t1 XOR TE42 t2 XOR TE43 t3 XOR TE44 t0 XOR rk ! (p + 1))
         @ PUTU32 (TE41 t2 XOR TE42 t3 XOR TE43 t0 XOR TE44 t1 XOR rk ! (p + 2))
         @ PUTU32 (TE41 t3 XOR TE42 t0 XOR TE43 t1 XOR TE44 t2 XOR rk ! (p + 3)))"

section \<open>Contexts\<close>

record aes_ctx =
  aes_rk :: "u32 list"
  aes_nr :: nat

text \<open>\<open>m\<close> says whether the allocation of the context succeeds.\<close>

definition aes_encrypt_init :: "bool \<Rightarrow> bytes \<Rightarrow> nat \<Rightarrow> aes_ctx option" where
  "aes_encrypt_init m key len =
     (if \<not> m then None
      else case rijndaelKeySetupEnc key (len * 8) of
             None \<Rightarrow> None
           | Some (res, rk) \<Rightarrow> Some \<lparr>aes_rk = rk, aes_nr = res\<rparr>)"

definition aes_encrypt :: "aes_ctx \<Rightarrow> bytes \<Rightarrow> bytes" where
  "aes_encrypt ctx plain = rijndaelEncrypt (aes_rk ctx) (aes_nr ctx) plain"

section \<open>The cipher of FIPS 197\<close>

text \<open>
  Multiplication in the field of 256 elements modulo $x^8 + x^4 + x^3 + x + 1$, the substitution
  box, and the operations on a state of sixteen bytes, column after column.
\<close>

definition xtime :: "u8 \<Rightarrow> u8" where
  "xtime b = (if bit b 7 then push_bit 1 b XOR 0x1b else push_bit 1 b)"

primrec gmul_n :: "nat \<Rightarrow> u8 \<Rightarrow> u8 \<Rightarrow> u8" where
  "gmul_n 0 a b = 0"
| "gmul_n (Suc n) a b = (if bit b 0 then a else 0) XOR gmul_n n (xtime a) (drop_bit 1 b)"

definition gmul :: "u8 \<Rightarrow> u8 \<Rightarrow> u8" where
  "gmul a b = gmul_n 8 a b"

definition sbox_table :: "u8 list" where
  "sbox_table = [
     0x63, 0x7c, 0x77, 0x7b, 0xf2, 0x6b, 0x6f, 0xc5, 0x30, 0x01, 0x67, 0x2b, 0xfe, 0xd7, 0xab, 0x76,
     0xca, 0x82, 0xc9, 0x7d, 0xfa, 0x59, 0x47, 0xf0, 0xad, 0xd4, 0xa2, 0xaf, 0x9c, 0xa4, 0x72, 0xc0,
     0xb7, 0xfd, 0x93, 0x26, 0x36, 0x3f, 0xf7, 0xcc, 0x34, 0xa5, 0xe5, 0xf1, 0x71, 0xd8, 0x31, 0x15,
     0x04, 0xc7, 0x23, 0xc3, 0x18, 0x96, 0x05, 0x9a, 0x07, 0x12, 0x80, 0xe2, 0xeb, 0x27, 0xb2, 0x75,
     0x09, 0x83, 0x2c, 0x1a, 0x1b, 0x6e, 0x5a, 0xa0, 0x52, 0x3b, 0xd6, 0xb3, 0x29, 0xe3, 0x2f, 0x84,
     0x53, 0xd1, 0x00, 0xed, 0x20, 0xfc, 0xb1, 0x5b, 0x6a, 0xcb, 0xbe, 0x39, 0x4a, 0x4c, 0x58, 0xcf,
     0xd0, 0xef, 0xaa, 0xfb, 0x43, 0x4d, 0x33, 0x85, 0x45, 0xf9, 0x02, 0x7f, 0x50, 0x3c, 0x9f, 0xa8,
     0x51, 0xa3, 0x40, 0x8f, 0x92, 0x9d, 0x38, 0xf5, 0xbc, 0xb6, 0xda, 0x21, 0x10, 0xff, 0xf3, 0xd2,
     0xcd, 0x0c, 0x13, 0xec, 0x5f, 0x97, 0x44, 0x17, 0xc4, 0xa7, 0x7e, 0x3d, 0x64, 0x5d, 0x19, 0x73,
     0x60, 0x81, 0x4f, 0xdc, 0x22, 0x2a, 0x90, 0x88, 0x46, 0xee, 0xb8, 0x14, 0xde, 0x5e, 0x0b, 0xdb,
     0xe0, 0x32, 0x3a, 0x0a, 0x49, 0x06, 0x24, 0x5c, 0xc2, 0xd3, 0xac, 0x62, 0x91, 0x95, 0xe4, 0x79,
     0xe7, 0xc8, 0x37, 0x6d, 0x8d, 0xd5, 0x4e, 0xa9, 0x6c, 0x56, 0xf4, 0xea, 0x65, 0x7a, 0xae, 0x08,
     0xba, 0x78, 0x25, 0x2e, 0x1c, 0xa6, 0xb4, 0xc6, 0xe8, 0xdd, 0x74, 0x1f, 0x4b, 0xbd, 0x8b, 0x8a,
     0x70, 0x3e, 0xb5, 0x66, 0x48, 0x03, 0xf6, 0x0e, 0x61, 0x35, 0x57, 0xb9, 0x86, 0xc1, 0x1d, 0x9e,
     0xe1, 0xf8, 0x98, 0x11, 0x69, 0xd9, 0x8e, 0x94, 0x9b, 0x1e, 0x87, 0xe9, 0xce, 0x55, 0x28, 0xdf,
     0x8c, 0xa1, 0x89, 0x0d, 0xbf, 0xe6, 0x42, 0x68, 0x41, 0x99, 0x2d, 0x0f, 0xb0, 0x54, 0xbb, 0x16]"

definition sbox :: "u8 \<Rightarrow> u8" where
  "sbox x = sbox_table ! unat x"

definition sub_bytes :: "bytes \<Rightarrow> bytes" where
  "sub_bytes s = map sbox s"

definition shift_rows :: "bytes \<Rightarrow> bytes" where
  "shift_rows s = map (\<lambda>i. s ! ((i + 4 * (i mod 4)) mod 16)) [0..<16]"

definition mix_column :: "bytes \<Rightarrow> bytes" where
  "mix_column c = map (\<lambda>i. gmul (c ! i) 2 XOR gmul (c ! ((i + 1) mod 4)) 3 XOR c ! ((i + 2) mod 4) XOR c ! ((i + 3) mod 4)) [0..<4]"

definition mix_columns :: "bytes \<Rightarrow> bytes" where
  "mix_columns s = concat (map (\<lambda>j. mix_column (take 4 (drop (4 * j) s))) [0..<4])"

definition add_round_key :: "bytes \<Rightarrow> bytes \<Rightarrow> bytes" where
  "add_round_key s k = map2 (XOR) s k"

text \<open>The key expansion works on words of four bytes.\<close>

definition rot_word :: "bytes \<Rightarrow> bytes" where
  "rot_word w = tl w @ [hd w]"

definition ref_rcon :: "nat \<Rightarrow> bytes" where
  "ref_rcon i = [(xtime ^^ (i - 1)) 1, 0, 0, 0]"

definition exp_step :: "nat \<Rightarrow> bytes list \<Rightarrow> nat \<Rightarrow> bytes list" where
  "exp_step Nk w i =
     (let temp = w ! (i - 1);
          temp = (if i mod Nk = 0 then map2 (XOR) (sub_bytes (rot_word temp)) (ref_rcon (i div Nk))
                  else if Nk > 6 \<and> i mod Nk = 4 then sub_bytes temp else temp)
      in w @ [map2 (XOR) (w ! (i - Nk)) temp])"

definition key_expansion :: "nat \<Rightarrow> bytes \<Rightarrow> bytes list" where
  "key_expansion Nk key = foldl (exp_step Nk) (map (\<lambda>i. take 4 (drop (4 * i) key)) [0..<Nk]) [Nk..<4 * (Nk + 7)]"

definition round_key :: "bytes list \<Rightarrow> nat \<Rightarrow> bytes" where
  "round_key w r = concat (map (\<lambda>j. w ! (4 * r + j)) [0..<4])"

definition ref_round :: "bytes list \<Rightarrow> bytes \<Rightarrow> nat \<Rightarrow> bytes" where
  "ref_round w s r = add_round_key (mix_columns (shift_rows (sub_bytes s))) (round_key w r)"

definition aes_ref :: "nat \<Rightarrow> bytes \<Rightarrow> bytes \<Rightarrow> bytes" where
  "aes_ref Nk key pt =
     (let w = key_expansion Nk key; Nr = Nk + 6;
          s = add_round_key pt (round_key w 0);
          s = foldl (ref_round w) s [1..<Nr]
      in add_round_key (shift_rows (sub_bytes s)) (round_key w Nr))"

section \<open>The tables hold what their definition says\<close>

lemma gmul_n_numeral: "gmul_n (numeral k) a b = (if bit b 0 then a else 0) XOR gmul_n (pred_numeral k) (xtime a) (drop_bit 1 b)"
  by (simp add: numeral_eq_Suc)

lemma gmul_2_3: "gmul s 2 = xtime s" "gmul s 3 = s XOR xtime s"
  by (simp_all add: gmul_def gmul_n_numeral)

lemma Te0_sbox: "Te0 = map (\<lambda>s. GETU32 [xtime s, s, s, s XOR xtime s]) sbox_table"
  by (simp add: Te0_def sbox_table_def GETU32_def xtime_def)

text \<open>The affine map of the substitution box and its inverse.\<close>

definition rotl8 :: "u8 \<Rightarrow> nat \<Rightarrow> u8" where
  "rotl8 b n = push_bit n b OR drop_bit (8 - n) b"

definition affine :: "u8 \<Rightarrow> u8" where
  "affine b = b XOR rotl8 b 1 XOR rotl8 b 2 XOR rotl8 b 3 XOR rotl8 b 4 XOR 0x63"

definition unaffine :: "u8 \<Rightarrow> u8" where
  "unaffine s = rotl8 s 1 XOR rotl8 s 3 XOR rotl8 s 6 XOR 0x05"

primrec sbox_from :: "u8 \<Rightarrow> u8 list \<Rightarrow> bool" where
  "sbox_from n [] \<longleftrightarrow> True"
| "sbox_from n (s # ss) \<longleftrightarrow> affine (unaffine s) = s \<and> gmul n (unaffine s) = (if n = 0 then 0 else 1) \<and> sbox_from (n + 1) ss"

lemma sbox_table_from: "sbox_from 0 sbox_table"
  by (simp add: sbox_table_def affine_def unaffine_def rotl8_def gmul_def gmul_n_numeral xtime_def)

lemma sbox_from_nth:
  "sbox_from n ss \<Longrightarrow> i < length ss \<Longrightarrow> affine (unaffine (ss ! i)) = ss ! i
     \<and> gmul (n + of_nat i) (unaffine (ss ! i)) = (if n + of_nat i = 0 then 0 else 1)"
proof (induction ss arbitrary: n i)
  case (Cons s ss)
  then show ?case using Cons.IH [of "n + 1" "i - 1"] by (cases i) (simp_all add: ac_simps)
qed simp

lemma length_tables: "length sbox_table = 256" "length Te0 = 256"
  by (simp_all add: Te0_sbox) (simp_all add: sbox_table_def)

text \<open>The substitution box is the affine image of the inverse in the field, and 0 is its own inverse.\<close>

lemma sbox_spec:
  "\<exists>y. sbox x = affine y \<and> gmul x y = (if x = 0 then 0 else 1) \<and> (x = 0 \<longrightarrow> y = 0)"
proof -
  have "affine (unaffine (sbox x)) = sbox x \<and> gmul x (unaffine (sbox x)) = (if x = 0 then 0 else 1)"
    using sbox_from_nth [OF sbox_table_from, of "unat x"] u8_bound [of x] by (simp add: sbox_def length_tables)
  moreover have "unaffine (sbox 0) = 0" by (simp add: sbox_def sbox_table_def unaffine_def rotl8_def)
  ultimately show ?thesis by (intro exI [of _ "unaffine (sbox x)"]) auto
qed

section \<open>Words and their bytes\<close>

lemma bit_get [byte_bits]: "bit (GETU32 [a, b, c, d]) n \<longleftrightarrow> (if n < 8 then bit d n else if n < 16 then bit c (n - 8) else if n < 24 then bit b (n - 16) else n < 32 \<and> bit a (n - 24))"
  by (auto simp: GETU32_def bit_simps dest: bit_imp_le_length)

lemma get_xor: "GETU32 [a, b, c, d] XOR GETU32 [a', b', c', d'] = GETU32 [a XOR a', b XOR b', c XOR c', d XOR d']"
  by (rule bit_word_eqI) (auto simp: bit_get bit_simps)

lemma get_byte: "drop_bit 24 (GETU32 [a, b, c, d]) AND 0xff = ucast a"
  "drop_bit 16 (GETU32 [a, b, c, d]) AND 0xff = ucast b" "drop_bit 8 (GETU32 [a, b, c, d]) AND 0xff = ucast c"
  "GETU32 [a, b, c, d] AND 0xff = ucast d"
  by (rule bit_word_eqI; auto simp: bit_get bit_simps bit_255_int dest: bit_imp_le_length)+

lemma put_get: "PUTU32 (GETU32 [a, b, c, d]) = [a, b, c, d]"
  by (auto simp: PUTU32_def bit_get bit_simps intro!: bit_word_eqI)

lemma get_rotr: "rotr (GETU32 [a, b, c, d]) 8 = GETU32 [d, a, b, c]" "rotr (GETU32 [a, b, c, d]) 16 = GETU32 [c, d, a, b]"
  "rotr (GETU32 [a, b, c, d]) 24 = GETU32 [b, c, d, a]"
  by (rule bit_word_eqI; auto simp: rotr_def bit_get bit_simps dest: bit_imp_le_length)+

lemma bit_masks [byte_bits]:
  "bit (0xff000000 :: u32) n \<longleftrightarrow> 24 \<le> n \<and> n < 32" "bit (0x00ff0000 :: u32) n \<longleftrightarrow> 16 \<le> n \<and> n < 24"
  "bit (0x0000ff00 :: u32) n \<longleftrightarrow> 8 \<le> n \<and> n < 16"
proof -
  have m: "(0xff000000 :: u32) = push_bit 24 0xff" "(0x00ff0000 :: u32) = push_bit 16 0xff" "(0x0000ff00 :: u32) = push_bit 8 0xff"
    by simp_all
  show "bit (0xff000000 :: u32) n \<longleftrightarrow> 24 \<le> n \<and> n < 32" "bit (0x00ff0000 :: u32) n \<longleftrightarrow> 16 \<le> n \<and> n < 24"
    "bit (0x0000ff00 :: u32) n \<longleftrightarrow> 8 \<le> n \<and> n < 16"
    unfolding m by (auto simp only: bit_push_bit_iff bit_255) auto
qed

lemma get_mask:
  "GETU32 [a, b, c, d] AND 0xff000000 = GETU32 [a, 0, 0, 0]" "GETU32 [a, b, c, d] AND 0x00ff0000 = GETU32 [0, b, 0, 0]"
  "GETU32 [a, b, c, d] AND 0x0000ff00 = GETU32 [0, 0, c, 0]"
  "push_bit 8 (GETU32 [a, b, c, d]) AND 0xff000000 = GETU32 [b, 0, 0, 0]"
  "drop_bit 8 (GETU32 [a, b, c, d]) AND 0x000000ff = GETU32 [0, 0, 0, c]"
  by (rule bit_word_eqI, simp only: byte_bits bit_and_iff bit_push_bit_iff bit_drop_bit_eq o_def, auto dest: bit_imp_le_length)+

section \<open>A round on words is a round on bytes\<close>

lemma Te0_nth: "Te0 ! unat (ucast x :: u32) = GETU32 [xtime (sbox x), sbox x, sbox x, sbox x XOR xtime (sbox x)]" for x :: u8
  using u8_bound [of x] by (simp add: Te0_sbox length_tables sbox_def)

lemma get_low: "GETU32 [0, 0, 0, d] = ucast d"
  by (simp add: GETU32_def)

lemmas te_defs = TE0_def TE1_def TE2_def TE3_def TE41_def TE42_def TE43_def TE44_def TE421_def TE432_def TE443_def TE414_def
  TE411_def TE422_def TE433_def TE444_def

lemma TE_get:
  "TE0 (GETU32 [a, b, c, d]) = GETU32 [xtime (sbox a), sbox a, sbox a, sbox a XOR xtime (sbox a)]"
  "TE1 (GETU32 [a, b, c, d]) = GETU32 [sbox b XOR xtime (sbox b), xtime (sbox b), sbox b, sbox b]"
  "TE2 (GETU32 [a, b, c, d]) = GETU32 [sbox c, sbox c XOR xtime (sbox c), xtime (sbox c), sbox c]"
  "TE3 (GETU32 [a, b, c, d]) = GETU32 [sbox d, sbox d, sbox d XOR xtime (sbox d), xtime (sbox d)]"
  "TE41 (GETU32 [a, b, c, d]) = GETU32 [sbox a, 0, 0, 0]" "TE42 (GETU32 [a, b, c, d]) = GETU32 [0, sbox b, 0, 0]"
  "TE43 (GETU32 [a, b, c, d]) = GETU32 [0, 0, sbox c, 0]" "TE44 (GETU32 [a, b, c, d]) = GETU32 [0, 0, 0, sbox d]"
  "TE421 (GETU32 [a, b, c, d]) = GETU32 [sbox b, 0, 0, 0]" "TE432 (GETU32 [a, b, c, d]) = GETU32 [0, sbox c, 0, 0]"
  "TE443 (GETU32 [a, b, c, d]) = GETU32 [0, 0, sbox d, 0]" "TE414 (GETU32 [a, b, c, d]) = GETU32 [0, 0, 0, sbox a]"
  "TE411 (GETU32 [a, b, c, d]) = GETU32 [sbox a, 0, 0, 0]" "TE422 (GETU32 [a, b, c, d]) = GETU32 [0, sbox b, 0, 0]"
  "TE433 (GETU32 [a, b, c, d]) = GETU32 [0, 0, sbox c, 0]" "TE444 (GETU32 [a, b, c, d]) = GETU32 [0, 0, 0, sbox d]"
  by (simp_all only: te_defs get_byte Te0_nth get_rotr get_mask get_low)

text \<open>The four words of a state, and schedules word by word.\<close>

definition cols :: "bytes \<Rightarrow> aes_state" where
  "cols s = (GETU32 (take 4 s), GETU32 (take 4 (drop 4 s)), GETU32 (take 4 (drop 8 s)), GETU32 (take 4 (drop 12 s)))"

lemma length_16E:
  assumes "length s = 16"
  obtains a0 a1 a2 a3 a4 a5 a6 a7 a8 a9 a10 a11 a12 a13 a14 a15 where "s = [a0, a1, a2, a3, a4, a5, a6, a7, a8, a9, a10, a11, a12, a13, a14, a15]"
  using assms by (auto simp: numeral_eq_Suc length_Suc_conv)

lemma length_4E:
  assumes "length s = 4"
  obtains a b c d where "s = [a, b, c, d]"
  using assms by (auto simp: numeral_eq_Suc length_Suc_conv)

definition sched_of :: "u32 list \<Rightarrow> bytes list \<Rightarrow> bool" where
  "sched_of rk w \<longleftrightarrow> rk = map GETU32 w \<and> (\<forall>x\<in>set w. length x = 4)"

lemma sched_round_key:
  assumes "sched_of rk w" "4 * r + 3 < length w"
  shows "length (round_key w r) = 16"
    "cols (round_key w r) = (rk ! (4 * r), rk ! (4 * r + 1), rk ! (4 * r + 2), rk ! (4 * r + 3))"
proof -
  have l: "length (w ! (4 * r)) = 4" "length (w ! (4 * r + 1)) = 4" "length (w ! (4 * r + 2)) = 4" "length (w ! (4 * r + 3)) = 4"
    using assms by (simp_all add: sched_of_def)
  have k: "round_key w r = w ! (4 * r) @ w ! (4 * r + 1) @ w ! (4 * r + 2) @ w ! (4 * r + 3)"
    by (simp add: round_key_def upt_rec numeral_3_eq_3)
  show "length (round_key w r) = 16" using l by (simp add: k)
  show "cols (round_key w r) = (rk ! (4 * r), rk ! (4 * r + 1), rk ! (4 * r + 2), rk ! (4 * r + 3))"
    using assms l by (simp add: k cols_def sched_of_def)
qed

lemma shift_rows_16: "shift_rows [a0, a1, a2, a3, a4, a5, a6, a7, a8, a9, a10, a11, a12, a13, a14, a15] =
    [a0, a5, a10, a15, a4, a9, a14, a3, a8, a13, a2, a7, a12, a1, a6, a11]"
  by (simp add: shift_rows_def upt_rec)

lemma mix_column_4: "mix_column [a, b, c, d] =
   [xtime a XOR (b XOR xtime b) XOR c XOR d, xtime b XOR (c XOR xtime c) XOR d XOR a,
    xtime c XOR (d XOR xtime d) XOR a XOR b, xtime d XOR (a XOR xtime a) XOR b XOR c]"
  by (simp add: mix_column_def gmul_2_3 upt_rec)

lemma mix_columns_16: "mix_columns [a0, a1, a2, a3, a4, a5, a6, a7, a8, a9, a10, a11, a12, a13, a14, a15] = mix_column [a0, a1, a2, a3] @ mix_column [a4, a5, a6, a7] @ mix_column [a8, a9, a10, a11] @ mix_column [a12, a13, a14, a15]"
  by (simp add: mix_columns_def upt_rec)

lemma round_cols:
  assumes "length s = 16" "length k = 16" "cols k = (k0, k1, k2, k3)" "cols s = (s0, s1, s2, s3)"
  shows "cols (add_round_key (mix_columns (shift_rows (sub_bytes s))) k) =
     (TE0 s0 XOR TE1 s1 XOR TE2 s2 XOR TE3 s3 XOR k0, TE0 s1 XOR TE1 s2 XOR TE2 s3 XOR TE3 s0 XOR k1,
      TE0 s2 XOR TE1 s3 XOR TE2 s0 XOR TE3 s1 XOR k2, TE0 s3 XOR TE1 s0 XOR TE2 s1 XOR TE3 s2 XOR k3)"
    and "length (add_round_key (mix_columns (shift_rows (sub_bytes s))) k) = 16"
    and "PUTU32 (TE41 s0 XOR TE42 s1 XOR TE43 s2 XOR TE44 s3 XOR k0) @ PUTU32 (TE41 s1 XOR TE42 s2 XOR TE43 s3 XOR TE44 s0 XOR k1)
       @ PUTU32 (TE41 s2 XOR TE42 s3 XOR TE43 s0 XOR TE44 s1 XOR k2) @ PUTU32 (TE41 s3 XOR TE42 s0 XOR TE43 s1 XOR TE44 s2 XOR k3)
      = add_round_key (shift_rows (sub_bytes s)) k"
proof -
  obtain a0 a1 a2 a3 a4 a5 a6 a7 a8 a9 a10 a11 a12 a13 a14 a15
    where s: "s = [a0, a1, a2, a3, a4, a5, a6, a7, a8, a9, a10, a11, a12, a13, a14, a15]" using length_16E [OF assms(1)] .
  obtain b0 b1 b2 b3 b4 b5 b6 b7 b8 b9 b10 b11 b12 b13 b14 b15
    where k: "k = [b0, b1, b2, b3, b4, b5, b6, b7, b8, b9, b10, b11, b12, b13, b14, b15]" using length_16E [OF assms(2)] .
  have ks: "k0 = GETU32 [b0, b1, b2, b3]" "k1 = GETU32 [b4, b5, b6, b7]" "k2 = GETU32 [b8, b9, b10, b11]" "k3 = GETU32 [b12, b13, b14, b15]"
    using assms(3) by (simp_all add: k cols_def)
  have ss: "s0 = GETU32 [a0, a1, a2, a3]" "s1 = GETU32 [a4, a5, a6, a7]" "s2 = GETU32 [a8, a9, a10, a11]" "s3 = GETU32 [a12, a13, a14, a15]"
    using assms(4) by (simp_all add: s cols_def)
  note e = s k sub_bytes_def list.map shift_rows_16 mix_columns_16 mix_column_4 add_round_key_def
  show "cols (add_round_key (mix_columns (shift_rows (sub_bytes s))) k) =
     (TE0 s0 XOR TE1 s1 XOR TE2 s2 XOR TE3 s3 XOR k0, TE0 s1 XOR TE1 s2 XOR TE2 s3 XOR TE3 s0 XOR k1,
      TE0 s2 XOR TE1 s3 XOR TE2 s0 XOR TE3 s1 XOR k2, TE0 s3 XOR TE1 s0 XOR TE2 s1 XOR TE3 s2 XOR k3)"
    unfolding ks ss TE_get get_xor by (simp add: e cols_def ac_simps)
  show "length (add_round_key (mix_columns (shift_rows (sub_bytes s))) k) = 16" by (simp add: e)
  show "PUTU32 (TE41 s0 XOR TE42 s1 XOR TE43 s2 XOR TE44 s3 XOR k0) @ PUTU32 (TE41 s1 XOR TE42 s2 XOR TE43 s3 XOR TE44 s0 XOR k1)
       @ PUTU32 (TE41 s2 XOR TE42 s3 XOR TE43 s0 XOR TE44 s1 XOR k2) @ PUTU32 (TE41 s3 XOR TE42 s0 XOR TE43 s1 XOR TE44 s2 XOR k3)
      = add_round_key (shift_rows (sub_bytes s)) k"
    unfolding ks ss TE_get get_xor put_get by (simp add: e)
qed

lemma add_round_key_cols:
  assumes "length s = 16" "length k = 16" "cols k = (k0, k1, k2, k3)" "cols s = (s0, s1, s2, s3)"
  shows "cols (add_round_key s k) = (s0 XOR k0, s1 XOR k1, s2 XOR k2, s3 XOR k3)"
  using assms by (auto elim!: length_16E simp: cols_def add_round_key_def get_xor)

lemma ROUND_ref:
  assumes "sched_of rk w" "4 * (2 * j + i) + 3 < length w" "length s = 16"
  shows "ROUND rk (8 * j) i (cols s) = cols (ref_round w s (2 * j + i))" "length (ref_round w s (2 * j + i)) = 16"
proof -
  obtain s0 s1 s2 s3 where s: "cols s = (s0, s1, s2, s3)" by (simp add: cols_def)
  note k = sched_round_key [OF assms(1,2)]
  note r = round_cols [OF assms(3) k s]
  show "ROUND rk (8 * j) i (cols s) = cols (ref_round w s (2 * j + i))"
    unfolding ref_round_def r(1) by (simp add: ROUND_def s algebra_simps)
  show "length (ref_round w s (2 * j + i)) = 16" unfolding ref_round_def by (rule r(2))
qed

lemma enc_loop_ref:
  assumes "sched_of rk w" "length s = 16" "4 * (2 * j + 2 * Suc r) \<le> length w"
  shows "enc_loop rk (Suc r) (8 * j) (cols s) = (8 * (j + Suc r), cols (foldl (ref_round w) s [2 * j + 1..<2 * j + 2 * Suc r]))
     \<and> length (foldl (ref_round w) s [2 * j + 1..<2 * j + 2 * Suc r]) = 16"
  using assms
proof (induction r arbitrary: j s)
  case 0
  have "[2 * j + 1..<2 * j + 2 * Suc 0] = [2 * j + 1]" by (simp add: upt_rec)
  then show ?case
    using ROUND_ref [of rk w j 1 s] 0 by (subst enc_loop.simps) (simp add: Let_def)
next
  case (Suc r)
  let ?s1 = "ref_round w s (2 * j + 1)" and ?s2 = "ref_round w (ref_round w s (2 * j + 1)) (2 * Suc j + 0)"
  have r1: "ROUND rk (8 * j) 1 (cols s) = cols ?s1" "length ?s1 = 16" using ROUND_ref [of rk w j 1 s] Suc.prems by simp_all
  have r2: "ROUND rk (8 * Suc j) 0 (cols ?s1) = cols ?s2" "length ?s2 = 16"
    using ROUND_ref [of rk w "Suc j" 0 ?s1] Suc.prems r1(2) by simp_all
  have u: "[2 * j + 1..<2 * j + 2 * Suc (Suc r)] = (2 * j + 1) # (2 * Suc j) # [2 * Suc j + 1..<2 * Suc j + 2 * Suc r]"
    by (simp add: upt_rec)
  have "enc_loop rk (Suc (Suc r)) (8 * j) (cols s) = enc_loop rk (Suc r) (8 * Suc j) (cols ?s2)"
    using r1(1) r2(1) by (subst enc_loop.simps) (simp add: Let_def add.commute)
  then show ?case
    using Suc.IH [of ?s2 "Suc j"] Suc.prems r2(2) unfolding u by simp
qed

lemma rijndaelEncrypt_ref:
  assumes "sched_of rk w" "length w = 4 * (2 * Suc r + 1)" "length pt = 16"
  shows "rijndaelEncrypt rk (2 * Suc r) pt =
    add_round_key (shift_rows (sub_bytes (foldl (ref_round w) (add_round_key pt (round_key w 0)) [1..<2 * Suc r]))) (round_key w (2 * Suc r))"
proof -
  let ?s = "add_round_key pt (round_key w 0)"
  have k0: "length (round_key w 0) = 16" "cols (round_key w 0) = (rk ! 0, rk ! 1, rk ! 2, rk ! 3)"
    using sched_round_key [OF assms(1), of 0] assms(2) by (simp_all add: numeral_2_eq_2)
  have kN: "length (round_key w (2 * Suc r)) = 16" "cols (round_key w (2 * Suc r)) =
      (rk ! (8 * Suc r), rk ! (8 * Suc r + 1), rk ! (8 * Suc r + 2), rk ! (8 * Suc r + 3))"
    using sched_round_key [OF assms(1), of "2 * Suc r"] assms(2) by simp_all
  have pt: "cols pt = (GETU32 pt, GETU32 (drop 4 pt), GETU32 (drop 8 pt), GETU32 (drop 12 pt))"
    using assms(3) by (auto elim!: length_16E simp: cols_def GETU32_def)
  have s: "cols ?s = (GETU32 pt XOR rk ! 0, GETU32 (drop 4 pt) XOR rk ! 1, GETU32 (drop 8 pt) XOR rk ! 2, GETU32 (drop 12 pt) XOR rk ! 3)"
    by (rule add_round_key_cols [OF assms(3) k0 pt])
  have l: "length ?s = 16" using assms(3) k0(1) by (simp add: add_round_key_def)
  define t where "t = foldl (ref_round w) ?s [1..<2 * Suc r]"
  have loop: "enc_loop rk (Suc r) 0 (cols ?s) = (8 * Suc r, cols t)" "length t = 16"
    using enc_loop_ref [OF assms(1) l, of 0 r] assms(2) by (simp_all add: t_def)
  obtain t0 t1 t2 t3 where t: "cols t = (t0, t1, t2, t3)" by (simp add: cols_def)
  have d: "2 * Suc r div 2 = Suc r" by simp
  show ?thesis
    unfolding rijndaelEncrypt_def Let_def d s [symmetric] loop(1) t prod.case t_def [symmetric]
    by (rule round_cols(3) [OF loop(2) kN t])
qed

section \<open>The key schedules\<close>

text \<open>One word of the schedule, computed on words.\<close>

definition kstep :: "nat \<Rightarrow> u32 list \<Rightarrow> nat \<Rightarrow> u32 list" where
  "kstep Nk rk i =
     rk @ [rk ! (i - Nk) XOR
       (if i mod Nk = 0 then key_core (rk ! (i - 1)) (i div Nk - 1)
        else if Nk > 6 \<and> i mod Nk = 4
        then TE411 (rk ! (i - 1)) XOR TE422 (rk ! (i - 1)) XOR TE433 (rk ! (i - 1)) XOR TE444 (rk ! (i - 1))
        else rk ! (i - 1))]"

lemma xtime_pow_numeral: "(xtime ^^ numeral n) x = xtime ((xtime ^^ pred_numeral n) x)"
  by (simp add: numeral_eq_Suc)

lemma RCON_ref: "1 \<le> k \<Longrightarrow> k \<le> 10 \<Longrightarrow> RCON (k - 1) = GETU32 (ref_rcon k)"
proof -
  assume "1 \<le> k" "k \<le> 10"
  then have "k = 1 \<or> k = 2 \<or> k = 3 \<or> k = 4 \<or> k = 5 \<or> k = 6 \<or> k = 7 \<or> k = 8 \<or> k = 9 \<or> k = 10" by presburger
  then show ?thesis
    by (elim disjE) (simp_all add: RCON_def rcons_def ref_rcon_def GETU32_def xtime_def xtime_pow_numeral)
qed

lemma kstep_sched:
  assumes "sched_of rk w" "length w = i" "0 < Nk" "Nk \<le> i" "i div Nk \<le> 10"
  shows "sched_of (kstep Nk rk i) (exp_step Nk w i)" "length (exp_step Nk w i) = Suc i"
proof -
  have len: "length (w ! (i - 1)) = 4" "length (w ! (i - Nk)) = 4"
    using assms by (auto simp: sched_of_def)
  obtain a b c d where p: "w ! (i - 1) = [a, b, c, d]" using length_4E [OF len(1)] .
  obtain a' b' c' d' where q: "w ! (i - Nk) = [a', b', c', d']" using length_4E [OF len(2)] .
  have rk: "rk ! (i - 1) = GETU32 [a, b, c, d]" "rk ! (i - Nk) = GETU32 [a', b', c', d']"
    using assms p q by (auto simp: sched_of_def)
  have "1 \<le> i div Nk" using assms(3,4) by (simp add: Suc_le_eq div_greater_zero_iff)
  then have rc: "RCON (i div Nk - 1) = GETU32 [(xtime ^^ (i div Nk - 1)) 1, 0, 0, 0]"
    using RCON_ref [of "i div Nk"] assms(5) by (simp add: ref_rcon_def)
  have core: "key_core (GETU32 [a, b, c, d]) (i div Nk - 1) = GETU32 (map2 (XOR) (sub_bytes (rot_word [a, b, c, d])) (ref_rcon (i div Nk)))"
    unfolding key_core_def TE_get rc get_xor by (simp add: rot_word_def sub_bytes_def ref_rcon_def)
  have sub: "TE411 (GETU32 [a, b, c, d]) XOR TE422 (GETU32 [a, b, c, d]) XOR TE433 (GETU32 [a, b, c, d]) XOR TE444 (GETU32 [a, b, c, d])
      = GETU32 (sub_bytes [a, b, c, d])"
    unfolding TE_get get_xor by (simp add: sub_bytes_def)
  define x where "x = (if i mod Nk = 0 then map2 (XOR) (sub_bytes (rot_word [a, b, c, d])) (ref_rcon (i div Nk))
                  else if Nk > 6 \<and> i mod Nk = 4 then sub_bytes [a, b, c, d] else [a, b, c, d])"
  have "length x = 4" by (simp add: x_def sub_bytes_def rot_word_def ref_rcon_def)
  then obtain x0 x1 x2 x3 where x: "x = [x0, x1, x2, x3]" by (rule length_4E)
  have e: "exp_step Nk w i = w @ [map2 (XOR) [a', b', c', d'] x]" by (simp only: exp_step_def Let_def p q x_def)
  have k: "kstep Nk rk i = rk @ [GETU32 [a', b', c', d'] XOR GETU32 x]"
    unfolding kstep_def rk core sub x_def by simp
  show "sched_of (kstep Nk rk i) (exp_step Nk w i)" "length (exp_step Nk w i) = Suc i"
    using assms(1,2) unfolding e k by (simp_all add: sched_of_def x get_xor)
qed

lemma kstep_fold_sched:
  assumes "sched_of rk w" "length w = i" "0 < Nk" "Nk \<le> i" "i \<le> n" "n \<le> 10 * Nk + Nk"
  shows "sched_of (foldl (kstep Nk) rk [i..<n]) (foldl (exp_step Nk) w [i..<n]) \<and> length (foldl (exp_step Nk) w [i..<n]) = n"
  using assms(5,6)
proof (induction n)
  case (Suc n)
  show ?case
  proof (cases "i = Suc n")
    case False
    then have IH: "sched_of (foldl (kstep Nk) rk [i..<n]) (foldl (exp_step Nk) w [i..<n])" "length (foldl (exp_step Nk) w [i..<n]) = n"
      and n: "i \<le> n" using Suc by simp_all
    have "n div Nk \<le> 10" using Suc.prems less_mult_imp_div_less [of n 11 Nk] by simp
    from kstep_sched [OF IH assms(3) _ this] show ?thesis using n assms(4) by simp
  qed (use assms(1,2) in simp)
qed (use assms in simp)

lemma setup128_ksteps:
  assumes "length rk = 4 * i + 4"
  shows "setup128 rk i = foldl (kstep 4) rk [4 * i + 4..<4 * i + 8]"
proof -
  have u: "[4 * i + 4..<4 * i + 8] = [4 * i + 4, 4 * i + 5, 4 * i + 6, 4 * i + 7]" by (simp add: upt_rec)
  have m: "(4 * i + 4) mod 4 = 0" "(4 * i + 5) mod 4 = 1" "(4 * i + 6) mod 4 = 2" "(4 * i + 7) mod 4 = 3" "(4 * i + 4) div 4 = i + 1"
    by presburger+
  show ?thesis unfolding u by (simp add: kstep_def setup128_def Let_def m nth_append assms add.commute)
qed

lemma setup192_ksteps:
  assumes "length rk = 6 * i + 6"
  shows "setup192 rk i = foldl (kstep 6) rk [6 * i + 6..<6 * i + (if i = 7 then 10 else 12)]"
proof -
  have u: "[6 * i + 6..<6 * i + 10] = [6 * i + 6, 6 * i + 7, 6 * i + 8, 6 * i + 9]"
     "[6 * i + 6..<6 * i + 12] = [6 * i + 6, 6 * i + 7, 6 * i + 8, 6 * i + 9, 6 * i + 10, 6 * i + 11]" by (simp_all add: upt_rec)
  have m: "(6 * i + 6) mod 6 = 0" "(6 * i + 7) mod 6 = 1" "(6 * i + 8) mod 6 = 2" "(6 * i + 9) mod 6 = 3" "(6 * i + 10) mod 6 = 4"
      "(6 * i + 11) mod 6 = 5" "(6 * i + 6) div 6 = i + 1"
    by presburger+
  show ?thesis
    by (cases "i = 7"; simp only: if_True if_False u)
       (simp_all add: kstep_def setup192_def Let_def m nth_append assms add.commute, simp_all add: numeral_eq_Suc)
qed

lemma setup256_ksteps:
  assumes "length rk = 8 * i + 8"
  shows "setup256 rk i = foldl (kstep 8) rk [8 * i + 8..<8 * i + (if i = 6 then 12 else 16)]"
proof -
  have u: "[8 * i + 8..<8 * i + 12] = [8 * i + 8, 8 * i + 9, 8 * i + 10, 8 * i + 11]"
     "[8 * i + 8..<8 * i + 16] = [8 * i + 8, 8 * i + 9, 8 * i + 10, 8 * i + 11, 8 * i + 12, 8 * i + 13, 8 * i + 14, 8 * i + 15]"
    by (simp_all add: upt_rec)
  have m: "(8 * i + 8) mod 8 = 0" "(8 * i + 9) mod 8 = 1" "(8 * i + 10) mod 8 = 2" "(8 * i + 11) mod 8 = 3" "(8 * i + 12) mod 8 = 4"
      "(8 * i + 13) mod 8 = 5" "(8 * i + 14) mod 8 = 6" "(8 * i + 15) mod 8 = 7" "(8 * i + 8) div 8 = i + 1"
    by presburger+
  show ?thesis
    by (cases "i = 6"; simp only: if_True if_False u)
       (simp_all add: kstep_def setup256_def Let_def m nth_append assms add.commute)
qed

lemma kstep_length: "length (foldl (kstep Nk) rk [i..<n]) = length rk + (n - i)"
  by (induction n) (auto simp: kstep_def)

lemma fold_chunks:
  assumes "\<And>i rk. i < n \<Longrightarrow> length rk = b i \<Longrightarrow> f rk i = foldl (kstep Nk) rk [b i..<b (Suc i)]"
    and "\<And>i. i < n \<Longrightarrow> b i \<le> b (Suc i)" "length rk = b 0"
  shows "foldl f rk [0..<n] = foldl (kstep Nk) rk [b 0..<b n] \<and> b 0 \<le> b n"
  using assms(1,2)
proof (induction n)
  case (Suc n)
  have IH: "foldl f rk [0..<n] = foldl (kstep Nk) rk [b 0..<b n]" "b 0 \<le> b n" using Suc.IH Suc.prems by simp_all
  have "f (foldl f rk [0..<n]) n = foldl (kstep Nk) (foldl f rk [0..<n]) [b n..<b (Suc n)]"
    using Suc.prems(1) [of n "foldl f rk [0..<n]"] kstep_length [of Nk rk "b 0" "b n"] IH assms(3) by simp
  moreover have "[b 0..<b (Suc n)] = [b 0..<b n] @ [b n..<b (Suc n)]"
    using upt_add_eq_append [OF IH(2), of "b (Suc n) - b n"] Suc.prems(2) [of n] by simp
  ultimately show ?case using IH Suc.prems(2) [of n] by (simp add: le_trans)
qed simp

lemma key_words_sched:
  assumes "4 * Nk \<le> length key"
  shows "sched_of (key_words key Nk) (map (\<lambda>i. take 4 (drop (4 * i) key)) [0..<Nk])"
  using assms by (auto simp: sched_of_def key_words_def)

lemma setup_folds:
  "length rk = 4 \<Longrightarrow> foldl setup128 rk [0..<10] = foldl (kstep 4) rk [4..<44]"
  "length rk = 6 \<Longrightarrow> foldl setup192 rk [0..<8] = foldl (kstep 6) rk [6..<52]"
  "length rk = 8 \<Longrightarrow> foldl setup256 rk [0..<7] = foldl (kstep 8) rk [8..<60]"
proof -
  show "foldl setup128 rk [0..<10] = foldl (kstep 4) rk [4..<44]" if "length rk = 4"
  proof -
    have "foldl setup128 rk [0..<10] = foldl (kstep 4) rk [4 * 0 + 4..<4 * 10 + 4]"
      by (rule conjunct1 [OF fold_chunks [where b = "\<lambda>i. 4 * i + 4"]])
         (simp_all add: setup128_ksteps that add.commute [of 8])
    moreover have "4 * 0 + 4 = (4 :: nat)" "4 * 10 + 4 = (44 :: nat)" by simp_all
    ultimately show ?thesis by metis
  qed
  show "foldl setup192 rk [0..<8] = foldl (kstep 6) rk [6..<52]" if "length rk = 6"
  proof -
    define b where "b = (\<lambda>i. if i = 8 then 52 else 6 * i + 6 :: nat)"
    have b: "i < 8 \<Longrightarrow> b i = 6 * i + 6" "6 * i + (if i = 7 then 10 else 12) = b (Suc i)" "b 0 = 6" "b 8 = 52" for i
      by (simp_all add: b_def)
    have "foldl setup192 rk [0..<8] = foldl (kstep 6) rk [b 0..<b 8]"
    proof (rule conjunct1 [OF fold_chunks])
      fix i and rk :: "u32 list"
      assume "i < 8" "length rk = b i"
      then show "setup192 rk i = foldl (kstep 6) rk [b i..<b (Suc i)]"
        using setup192_ksteps [of rk i] by (simp only: b)
    qed (simp_all add: b_def that)
    then show ?thesis by (simp only: b)
  qed
  show "foldl setup256 rk [0..<7] = foldl (kstep 8) rk [8..<60]" if "length rk = 8"
  proof -
    define b where "b = (\<lambda>i. if i = 7 then 60 else 8 * i + 8 :: nat)"
    have b: "i < 7 \<Longrightarrow> b i = 8 * i + 8" "8 * i + (if i = 6 then 12 else 16) = b (Suc i)" "b 0 = 8" "b 7 = 60" for i
      by (simp_all add: b_def)
    have "foldl setup256 rk [0..<7] = foldl (kstep 8) rk [b 0..<b 7]"
    proof (rule conjunct1 [OF fold_chunks])
      fix i and rk :: "u32 list"
      assume "i < 7" "length rk = b i"
      then show "setup256 rk i = foldl (kstep 8) rk [b i..<b (Suc i)]"
        using setup256_ksteps [of rk i] by (simp only: b)
    qed (simp_all add: b_def that)
    then show ?thesis by (simp only: b)
  qed
qed

lemma key_setup_sched:
  assumes "Nk \<in> {4, 6, 8}" "4 * Nk \<le> length key"
  shows "\<exists>rk. rijndaelKeySetupEnc key (4 * Nk * 8) = Some (Nk + 6, rk) \<and> sched_of rk (key_expansion Nk key)
    \<and> length (key_expansion Nk key) = 4 * (Nk + 7)"
proof -
  have len: "length (key_words key n) = n" for n by (simp add: key_words_def)
  have ks: "rijndaelKeySetupEnc key 128 = Some (10, foldl (kstep 4) (key_words key 4) [4..<44])"
      "rijndaelKeySetupEnc key 192 = Some (12, foldl (kstep 6) (key_words key 6) [6..<52])"
      "rijndaelKeySetupEnc key 256 = Some (14, foldl (kstep 8) (key_words key 8) [8..<60])"
    unfolding setup_folds [OF len, symmetric] by (simp_all add: rijndaelKeySetupEnc_def)
  have n: "4 * 4 * 8 = (128 :: nat)" "4 * 6 * 8 = (192 :: nat)" "4 * 8 * 8 = (256 :: nat)" "4 * (4 + 7) = (44 :: nat)"
    "4 * (6 + 7) = (52 :: nat)" "4 * (8 + 7) = (60 :: nat)" "4 + 6 = (10 :: nat)" "6 + 6 = (12 :: nat)" "8 + 6 = (14 :: nat)"
    by simp_all
  have "rijndaelKeySetupEnc key (4 * Nk * 8) = Some (Nk + 6, foldl (kstep Nk) (key_words key Nk) [Nk..<4 * (Nk + 7)])"
    using assms(1) by (elim insertE emptyE) (simp_all only: n ks)
  moreover have "sched_of (foldl (kstep Nk) (key_words key Nk) [Nk..<4 * (Nk + 7)]) (key_expansion Nk key)
      \<and> length (key_expansion Nk key) = 4 * (Nk + 7)"
    unfolding key_expansion_def by (rule kstep_fold_sched [OF key_words_sched [OF assms(2)]]) (use assms(1) in auto)
  ultimately show ?thesis by blast
qed

text \<open>
  C34. For keys of 16, 24 and 32 bytes the context functions compute the AES of FIPS 197: the
  schedule has as many words as the rounds use, and encrypting a block with the one rotated table
  \<^verbatim>\<open>Te0\<close> gives the block that the byte-wise definition of the standard gives.
\<close>

theorem aes_encrypt_is_fips197:
  assumes "len \<in> {16, 24, 32}" "len \<le> length key" "length pt = 16"
  shows "\<exists>ctx. aes_encrypt_init True key len = Some ctx \<and> aes_encrypt ctx pt = aes_ref (len div 4) key pt
    \<and> length (aes_rk ctx) = 4 * (aes_nr ctx + 1) \<and> aes_nr ctx = len div 4 + 6"
proof -
  define Nk where "Nk = len div 4"
  have nk: "Nk \<in> {4, 6, 8}" "4 * Nk = len" using assms(1) by (auto simp: Nk_def)
  obtain rk where rk: "rijndaelKeySetupEnc key (len * 8) = Some (Nk + 6, rk)" "sched_of rk (key_expansion Nk key)"
      "length (key_expansion Nk key) = 4 * (Nk + 7)"
    using key_setup_sched [OF nk(1), of key] nk(2) assms(2) by auto
  obtain r where r: "Nk + 6 = 2 * Suc r" using nk(1) by (auto intro: that [of 4] that [of 5] that [of 6])
  have l: "length rk = 4 * (Nk + 7)" using rk(2,3) by (simp add: sched_of_def)
  have "Nk + 7 = Nk + 6 + 1" by simp
  then have n7: "Nk + 7 = 2 * Suc r + 1" using r by metis
  have lw: "length (key_expansion Nk key) = 4 * (2 * Suc r + 1)" using rk(3) unfolding n7 .
  have "rijndaelEncrypt rk (Nk + 6) pt = aes_ref Nk key pt"
    unfolding aes_ref_def Let_def r by (rule rijndaelEncrypt_ref [OF rk(2) lw assms(3)])
  then show ?thesis using rk(1) l unfolding Nk_def [symmetric] by (simp add: aes_encrypt_init_def aes_encrypt_def)
qed

lemma aes_encrypt_init_None: "aes_encrypt_init m key len = None \<longleftrightarrow> \<not> m \<or> len \<notin> {16, 24, 32}"
  by (auto simp: aes_encrypt_init_def rijndaelKeySetupEnc_def)

definition sample_aes_key :: bytes where
  "sample_aes_key = [0x00, 0x01, 0x02, 0x03, 0x04, 0x05, 0x06, 0x07, 0x08, 0x09, 0x0a, 0x0b, 0x0c, 0x0d, 0x0e, 0x0f]"

definition sample_aes_block :: bytes where
  "sample_aes_block = [0x00, 0x11, 0x22, 0x33, 0x44, 0x55, 0x66, 0x77, 0x88, 0x99, 0xaa, 0xbb, 0xcc, 0xdd, 0xee, 0xff]"

theorem aes_encrypt_is_fips197_witness:
  "\<exists>ctx. aes_encrypt_init True sample_aes_key 16 = Some ctx \<and> aes_nr ctx = 10
     \<and> aes_encrypt ctx sample_aes_block = aes_ref 4 sample_aes_key sample_aes_block"
  using aes_encrypt_is_fips197 [of 16 sample_aes_key sample_aes_block]
  by (auto simp: sample_aes_key_def sample_aes_block_def)

end
