(* ===== verification/Aes_Ccm.thy ===== *)
theory Aes_Ccm
  imports Aes
begin

unbundle bit_operations_syntax

text \<open>
  Counter mode with CBC-MAC (\<^verbatim>\<open>core/crypto/aes-ccm.c\<close>) and the comparison \<^verbatim>\<open>os_memcmp_const\<close> of
  \<^verbatim>\<open>core/crypto/rtw_crypto_wrap.c\<close>. The arrays \<^verbatim>\<open>x\<close>, \<^verbatim>\<open>a\<close> and \<^verbatim>\<open>b\<close> are lists of 16 bytes that
  the functions return updated. Both entry points use \<open>L = 2\<close>, with which every byte of \<^verbatim>\<open>b\<close> and
  \<^verbatim>\<open>a\<close> is written. \<open>None\<close> is the return value -1; the output buffer is then not used by any caller.
\<close>

section \<open>The code\<close>

text \<open>The result is the accumulated difference, zero when the first \<open>len\<close> bytes agree.\<close>

definition os_memcmp_const :: "bytes \<Rightarrow> bytes \<Rightarrow> nat \<Rightarrow> u8" where
  "os_memcmp_const a b len = foldl (\<lambda>res i. res OR (a ! i XOR b ! i)) 0 [0..<len]"

text \<open>The four words are combined bitwise, so the order of their bytes does not matter.\<close>

definition xor_aes_block :: "bytes \<Rightarrow> bytes \<Rightarrow> bytes" where
  "xor_aes_block dst src = map2 (XOR) (take 16 dst) (take 16 src) @ drop 16 dst"

definition ccm_b0 :: "nat \<Rightarrow> nat \<Rightarrow> bytes \<Rightarrow> nat \<Rightarrow> nat \<Rightarrow> bytes" where
  "ccm_b0 M L nonce aad_len plain_len =
     ((if aad_len \<noteq> 0 then 0x40 else 0) OR push_bit 3 (of_nat ((M - 2) div 2)) OR of_nat (L - 1))
     # take (15 - L) nonce @ put_be16 (of_nat plain_len)"

definition aes_ccm_auth_start :: "aes_ctx \<Rightarrow> nat \<Rightarrow> nat \<Rightarrow> bytes \<Rightarrow> bytes \<Rightarrow> nat \<Rightarrow> bytes" where
  "aes_ccm_auth_start aes M L nonce aad plain_len =
     (let aad_len = length aad;
          x = aes_encrypt aes (ccm_b0 M L nonce aad_len plain_len) in
      if aad_len = 0 then x
      else
       (let aad_buf = put_be16 (of_nat aad_len) @ aad @ replicate (32 - 2 - aad_len) 0;
            aad_buf = xor_aes_block aad_buf x;
            x = aes_encrypt aes (take 16 aad_buf) in
        if aad_len > 16 - 2 then aes_encrypt aes (xor_aes_block (drop 16 aad_buf) x) else x))"

function aes_ccm_auth :: "aes_ctx \<Rightarrow> bytes \<Rightarrow> bytes \<Rightarrow> bytes" where
  "aes_ccm_auth aes data x =
     (if length data < 16 then
        (if data = [] then x
         else aes_encrypt aes (map2 (XOR) x data @ drop (length data) x))
      else aes_ccm_auth aes (drop 16 data) (aes_encrypt aes (xor_aes_block x data)))"
  by pat_completeness auto
termination
  by (relation "measure (\<lambda>(aes, data, x). length data)") auto

declare aes_ccm_auth.simps [simp del]

definition aes_ccm_encr_start :: "nat \<Rightarrow> bytes \<Rightarrow> bytes" where
  "aes_ccm_encr_start L nonce = of_nat (L - 1) # take (15 - L) nonce"

text \<open>\<^verbatim>\<open>WPA_PUT_BE16(&a[AES_BLOCK_SIZE - 2], i)\<close>\<close>

definition ccm_ctr :: "bytes \<Rightarrow> nat \<Rightarrow> bytes" where
  "ccm_ctr a i = take 14 a @ put_be16 (of_nat i)"

text \<open>The counter starts at 1 and is written before each block, the partial last one included.\<close>

function aes_ccm_encr :: "aes_ctx \<Rightarrow> bytes \<Rightarrow> nat \<Rightarrow> bytes \<Rightarrow> bytes" where
  "aes_ccm_encr aes a i inp =
     (if length inp < 16 then
        (if inp = [] then [] else map2 (XOR) (aes_encrypt aes (ccm_ctr a i)) inp)
      else xor_aes_block (aes_encrypt aes (ccm_ctr a i)) inp @ aes_ccm_encr aes a (i + 1) (drop 16 inp))"
  by pat_completeness auto
termination
  by (relation "measure (\<lambda>(aes, a, i, inp). length inp)") auto

declare aes_ccm_encr.simps [simp del]

definition aes_ccm_encr_auth :: "aes_ctx \<Rightarrow> nat \<Rightarrow> bytes \<Rightarrow> bytes \<Rightarrow> bytes" where
  "aes_ccm_encr_auth aes M x a = map2 (XOR) (take M x) (aes_encrypt aes (ccm_ctr a 0))"

definition aes_ccm_decr_auth :: "aes_ctx \<Rightarrow> nat \<Rightarrow> bytes \<Rightarrow> bytes \<Rightarrow> bytes" where
  "aes_ccm_decr_auth aes M a auth = map2 (XOR) (take M auth) (aes_encrypt aes (ccm_ctr a 0))"

text \<open>\<open>m\<close> says whether the allocation of the cipher context succeeds.\<close>

definition aes_ccm_ae :: "bool \<Rightarrow> bytes \<Rightarrow> nat \<Rightarrow> bytes \<Rightarrow> nat \<Rightarrow> bytes \<Rightarrow> bytes \<Rightarrow> (bytes \<times> bytes) option" where
  "aes_ccm_ae m key key_len nonce M plain aad =
     (if length aad > 30 \<or> M > 16 then None
      else case aes_encrypt_init m key key_len of
             None \<Rightarrow> None
           | Some aes \<Rightarrow>
              (let L = 2;
                   x = aes_ccm_auth_start aes M L nonce aad (length plain);
                   x = aes_ccm_auth aes plain x;
                   a = aes_ccm_encr_start L nonce;
                   crypt = aes_ccm_encr aes a 1 plain
               in Some (crypt, aes_ccm_encr_auth aes M x a)))"

definition aes_ccm_ad :: "bool \<Rightarrow> bytes \<Rightarrow> nat \<Rightarrow> bytes \<Rightarrow> nat \<Rightarrow> bytes \<Rightarrow> bytes \<Rightarrow> bytes \<Rightarrow> bytes option" where
  "aes_ccm_ad m key key_len nonce M crypt aad auth =
     (if length aad > 30 \<or> M > 16 then None
      else case aes_encrypt_init m key key_len of
             None \<Rightarrow> None
           | Some aes \<Rightarrow>
              (let L = 2;
                   a = aes_ccm_encr_start L nonce;
                   t = aes_ccm_decr_auth aes M a auth;
                   plain = aes_ccm_encr aes a 1 crypt;
                   x = aes_ccm_auth_start aes M L nonce aad (length crypt);
                   x = aes_ccm_auth aes plain x
               in if os_memcmp_const x t M \<noteq> 0 then None else Some plain))"

section \<open>Auxiliary facts\<close>

lemma aes_encrypt_length [simp]: "length (aes_encrypt ctx b) = 16"
  by (simp add: aes_encrypt_def rijndaelEncrypt_def PUTU32_def Let_def split: prod.split)

lemma os_memcmp_const_0:
  assumes "len \<le> length a" "len \<le> length b"
  shows "os_memcmp_const a b len = 0 \<longleftrightarrow> take len a = take len b"
proof -
  have or0: "v OR w = 0 \<longleftrightarrow> v = 0 \<and> w = 0" for v w :: u8
    by (metis or_eq_0_iff)
  have x0: "v XOR w = 0 \<longleftrightarrow> v = w" for v w :: u8
    by (metis bit.xor_self xor.assoc xor.right_neutral)
  have "foldl (\<lambda>res i. res OR (a ! i XOR b ! i)) r [0..<n] = 0 \<longleftrightarrow> r = 0 \<and> (\<forall>i<n. a ! i = b ! i)" for r n
    by (induction n) (auto simp: or0 x0 less_Suc_eq)
  then show ?thesis using assms by (auto simp: os_memcmp_const_def list_eq_iff_nth_eq)
qed

lemma aes_encrypt_nonempty [simp]: "aes_encrypt ctx b \<noteq> []"
  using aes_encrypt_length [of ctx b] by (metis list.size(3) zero_neq_numeral)

lemma aes_ccm_encr_length [simp]: "length (aes_ccm_encr aes a i inp) = length inp"
proof (induction aes a i inp rule: aes_ccm_encr.induct)
  case (1 aes a i inp)
  then show ?case by (subst aes_ccm_encr.simps) (simp add: xor_aes_block_def)
qed

lemma aes_ccm_encr_involutive: "aes_ccm_encr aes a i (aes_ccm_encr aes a i inp) = inp"
proof (induction aes a i inp rule: aes_ccm_encr.induct)
  case (1 aes a i inp)
  let ?k = "aes_encrypt aes (ccm_ctr a i)"
  show ?case
  proof (cases "length inp < 16")
    case True
    then show ?thesis by (simp add: aes_ccm_encr.simps [of aes a i] map2_xor_twice)
  next
    case False
    let ?c = "xor_aes_block ?k inp"
    have c: "length ?c = 16" "xor_aes_block ?k ?c = take 16 inp"
      using False by (simp_all add: xor_aes_block_def map2_xor_twice)
    have "aes_ccm_encr aes a i inp = ?c @ aes_ccm_encr aes a (i + 1) (drop 16 inp)"
      using False by (subst aes_ccm_encr.simps) simp
    moreover have "aes_ccm_encr aes a i (?c @ r) = take 16 inp @ aes_ccm_encr aes a (i + 1) r" for r
    proof -
      have "xor_aes_block ?k (?c @ r) = xor_aes_block ?k ?c" using c(1) by (simp add: xor_aes_block_def)
      then show ?thesis using c by (subst aes_ccm_encr.simps) simp
    qed
    ultimately show ?thesis using 1 False by simp
  qed
qed

lemma aes_ccm_auth_length [simp]: "length x = 16 \<Longrightarrow> length (aes_ccm_auth aes data x) = 16"
proof (induction aes data x rule: aes_ccm_auth.induct)
  case (1 aes data x)
  then show ?case by (subst aes_ccm_auth.simps) simp
qed

lemma aes_ccm_auth_start_length [simp]: "length (aes_ccm_auth_start aes M L nonce aad n) = 16"
  by (simp add: aes_ccm_auth_start_def Let_def)

lemma xor_tag_swap:
  assumes "length x = 16" "length k = 16" "length t = M" "M \<le> 16"
  shows "take M x = map2 (XOR) t k \<longleftrightarrow> map2 (XOR) (take M x) k = (t :: bytes)"
proof -
  have "u = v XOR w \<longleftrightarrow> u XOR w = v" for u v w :: u8 by (auto simp: xor.assoc)
  then show ?thesis using assms by (auto simp: list_eq_iff_nth_eq)
qed

section \<open>The tag is the CBC-MAC of RFC 3610\<close>

text \<open>CBC-MAC over zero-padded data, 16 bytes at a time.\<close>

definition zpad :: "bytes \<Rightarrow> bytes" where
  "zpad d = d @ replicate ((16 - length d mod 16) mod 16) 0"

function cbc_mac :: "aes_ctx \<Rightarrow> bytes \<Rightarrow> bytes \<Rightarrow> bytes" where
  "cbc_mac aes x d = (if d = [] then x else cbc_mac aes (aes_encrypt aes (map2 (XOR) x (take 16 d))) (drop 16 d))"
  by pat_completeness auto
termination
  by (relation "measure (\<lambda>(aes, x, d). length d)") auto

declare cbc_mac.simps [simp del]

lemma zpad_short: "d \<noteq> [] \<Longrightarrow> length d \<le> 16 \<Longrightarrow> zpad d = d @ replicate (16 - length d) 0"
  by (cases "length d = 16") (simp_all add: zpad_def)

lemma zpad_long: "16 \<le> length d \<Longrightarrow> zpad d = take 16 d @ zpad (drop 16 d)"
  by (simp add: zpad_def le_mod_geq flip: append_assoc)

lemma cbc_block: "length b = 16 \<Longrightarrow> cbc_mac aes x (b @ d) = cbc_mac aes (aes_encrypt aes (map2 (XOR) x b)) d"
  by (subst cbc_mac.simps) auto

lemma cbc_nil [simp]: "cbc_mac aes x [] = x"
  by (simp add: cbc_mac.simps)

lemma xor_zero_tail: "length x = 16 \<Longrightarrow> length d \<le> 16 \<Longrightarrow> map2 (XOR) x (d @ replicate (16 - length d) 0) = map2 (XOR) x d @ drop (length d) (x :: bytes)"
  by (auto simp: list_eq_iff_nth_eq nth_append)

lemma aes_ccm_auth_cbc: "length x = 16 \<Longrightarrow> aes_ccm_auth aes d x = cbc_mac aes x (zpad d)"
proof (induction aes d x rule: aes_ccm_auth.induct)
  case (1 aes d x)
  show ?case
  proof (cases "length d < 16")
    case True
    then show ?thesis
      using 1(2) cbc_block [of "zpad d" aes x "[]"] by (subst aes_ccm_auth.simps) (auto simp: zpad_short xor_zero_tail zpad_def [of "[]"])
  next
    case False
    then have "cbc_mac aes x (zpad d) = cbc_mac aes (aes_encrypt aes (map2 (XOR) x (take 16 d))) (zpad (drop 16 d))"
      by (simp add: zpad_long cbc_block)
    then show ?thesis
      using 1 False by (subst aes_ccm_auth.simps) (simp add: xor_aes_block_def)
  qed
qed

lemma xor_block_16: "length b = 16 \<Longrightarrow> length y = 16 \<Longrightarrow> xor_aes_block b y = map2 (XOR) y b"
  by (simp add: xor_aes_block_def map2_xor_comm)

lemma aes_ccm_auth_start_cbc:
  assumes "13 \<le> length nonce" "length aad \<le> 30"
  shows "aes_ccm_auth_start aes M 2 nonce aad n = cbc_mac aes (replicate 16 0)
     (ccm_b0 M 2 nonce (length aad) n @ (if aad = [] then [] else zpad (put_be16 (of_nat (length aad)) @ aad)))"
proof -
  let ?b0 = "ccm_b0 M 2 nonce (length aad) n" and ?d = "put_be16 (of_nat (length aad)) @ aad"
  define buf where "buf = put_be16 (of_nat (length aad)) @ aad @ replicate (32 - 2 - length aad) 0"
  let ?x = "aes_encrypt aes ?b0"
  have l: "length ?b0 = 16" "length ?d = length aad + 2" "length buf = 32" using assms by (simp_all add: ccm_b0_def put_be16_def buf_def)
  have first: "cbc_mac aes (replicate 16 0) (?b0 @ r) = cbc_mac aes ?x r" for r
    using l(1) by (simp add: cbc_block zero_xor)
  have x1: "take 16 (xor_aes_block buf ?x) = map2 (XOR) ?x (take 16 buf)" "drop 16 (xor_aes_block buf ?x) = drop 16 buf"
    using l(3) by (simp_all add: xor_aes_block_def map2_xor_comm)
  have one: "cbc_mac aes y (take 16 buf @ r) = cbc_mac aes (aes_encrypt aes (map2 (XOR) y (take 16 buf))) r" for y r
    using l(3) by (simp add: cbc_block)
  consider "aad = []" | "aad \<noteq> []" "length aad \<le> 14" | "14 < length aad" by linarith
  then show ?thesis
  proof cases
    case 1
    then show ?thesis unfolding first by (simp add: aes_ccm_auth_start_def)
  next
    case 2
    then have "zpad ?d = take 16 buf" using l(2) by (simp add: zpad_short buf_def)
    then show ?thesis
      using 2 one [of ?x "[]"] unfolding first aes_ccm_auth_start_def Let_def buf_def [symmetric] x1 by simp
  next
    case 3
    have "(16 - (length aad + 2) mod 16) mod 16 = 30 - length aad"
      using 3 assms(2) by (cases "length aad = 30") (simp_all add: le_mod_geq)
    then have "zpad ?d = take 16 buf @ drop 16 buf" using l(2) by (simp add: zpad_def buf_def del: append_take_drop_id) (simp add: buf_def)
    moreover have "xor_aes_block (drop 16 buf) y = map2 (XOR) y (drop 16 buf)" if "length y = 16" for y
      using l(3) that by (simp add: xor_block_16)
    moreover have "cbc_mac aes y (drop 16 buf) = aes_encrypt aes (map2 (XOR) y (drop 16 buf))" for y
      using cbc_block [of "drop 16 buf" aes y "[]"] l(3) by simp
    ultimately show ?thesis
      using 3 unfolding first aes_ccm_auth_start_def Let_def buf_def [symmetric] x1 by (auto simp: one simp del: append_take_drop_id)
  qed
qed

lemma cbc_append: "16 dvd length d \<Longrightarrow> cbc_mac aes x (d @ e) = cbc_mac aes (cbc_mac aes x d) e"
proof (induction aes x d rule: cbc_mac.induct)
  case (1 aes x d)
  show ?case
  proof (cases "d = []")
    case False
    then have l: "16 \<le> length d" using 1(2) by (auto dest: dvd_imp_le)
    have "16 dvd length (drop 16 d)" using 1(2) l by simp
    moreover have "cbc_mac aes x (d @ e) = cbc_mac aes (aes_encrypt aes (map2 (XOR) x (take 16 d))) (drop 16 d @ e)"
      using False l by (subst cbc_mac.simps) simp
    moreover have "cbc_mac aes x d = cbc_mac aes (aes_encrypt aes (map2 (XOR) x (take 16 d))) (drop 16 d)"
      using False by (subst cbc_mac.simps) simp
    ultimately show ?thesis using 1(1) False by simp
  qed simp
qed

lemma zpad_dvd: "16 dvd length (zpad d)"
proof -
  have "(n + (16 - n mod 16) mod 16) mod 16 = 0" for n :: nat
  proof (cases "n mod 16 = 0")
    case False
    have r: "n mod 16 < 16" "16 * (n div 16) + n mod 16 = n" by simp_all
    then have "(16 - n mod 16) mod 16 = 16 - n mod 16" using False by (intro mod_less) linarith
    moreover have "n + (16 - n mod 16) = 16 * (n div 16 + 1)" by presburger
    ultimately show ?thesis by simp
  qed simp
  then show ?thesis unfolding zpad_def dvd_eq_mod_eq_0 length_append length_replicate .
qed

text \<open>The formatted blocks: \<open>B_0\<close>, the padded associated data with its length, the padded message.\<close>

definition ccm_blocks :: "nat \<Rightarrow> bytes \<Rightarrow> bytes \<Rightarrow> bytes \<Rightarrow> bytes" where
  "ccm_blocks M nonce aad plain =
     ccm_b0 M 2 nonce (length aad) (length plain)
     @ (if aad = [] then [] else zpad (put_be16 (of_nat (length aad)) @ aad)) @ zpad plain"

lemma aes_ccm_tag_is_cbc_mac:
  assumes "13 \<le> length nonce" "length aad \<le> 30" "M \<le> 16" "aes_encrypt_init m key key_len = Some aes"
  shows "\<exists>crypt. aes_ccm_ae m key key_len nonce M plain aad =
    Some (crypt, map2 (XOR) (take M (cbc_mac aes (replicate 16 0) (ccm_blocks M nonce aad plain)))
                            (aes_encrypt aes (ccm_ctr (aes_ccm_encr_start 2 nonce) 0)))"
proof -
  let ?s = "ccm_b0 M 2 nonce (length aad) (length plain) @ (if aad = [] then [] else zpad (put_be16 (of_nat (length aad)) @ aad))"
  have "16 dvd length ?s"
    using assms(1) zpad_dvd [of "put_be16 (of_nat (length aad)) @ aad"] by (simp add: ccm_b0_def put_be16_def)
  then have "cbc_mac aes (replicate 16 0) (?s @ zpad plain) = aes_ccm_auth aes plain (aes_ccm_auth_start aes M 2 nonce aad (length plain))"
    using assms(1,2) by (simp add: cbc_append aes_ccm_auth_cbc aes_ccm_auth_start_cbc [symmetric] del: append_assoc)
  then show ?thesis
    using assms(2-4) by (simp add: aes_ccm_ae_def Let_def aes_ccm_encr_auth_def ccm_blocks_def)
qed

lemma ccm_ad_iff:
  assumes "length auth = M"
  shows "aes_ccm_ad m key key_len nonce M crypt aad auth = Some plain \<longleftrightarrow>
    aes_ccm_ae m key key_len nonce M plain aad = Some (crypt, auth)"
proof (cases "length aad > 30 \<or> M > 16 \<or> aes_encrypt_init m key key_len = None")
  case True
  then show ?thesis by (auto simp: aes_ccm_ad_def aes_ccm_ae_def split: option.splits)
next
  case False
  then obtain aes where aes: "aes_encrypt_init m key key_len = Some aes" and b: "length aad \<le> 30" "M \<le> 16" by auto
  let ?a = "aes_ccm_encr_start 2 nonce"
  let ?x = "\<lambda>p. aes_ccm_auth aes p (aes_ccm_auth_start aes M 2 nonce aad (length p))"
  have ad: "aes_ccm_ad m key key_len nonce M crypt aad auth = Some plain \<longleftrightarrow>
      plain = aes_ccm_encr aes ?a 1 crypt \<and> take M (?x plain) = aes_ccm_decr_auth aes M ?a auth"
    using aes b assms
    by (auto simp: aes_ccm_ad_def Let_def os_memcmp_const_0 aes_ccm_decr_auth_def)
  have ae: "aes_ccm_ae m key key_len nonce M plain aad = Some (crypt, auth) \<longleftrightarrow>
      crypt = aes_ccm_encr aes ?a 1 plain \<and> aes_ccm_encr_auth aes M (?x plain) ?a = auth"
    using aes b by (auto simp: aes_ccm_ae_def Let_def)
  have tag: "take M (?x plain) = aes_ccm_decr_auth aes M ?a auth \<longleftrightarrow> aes_ccm_encr_auth aes M (?x plain) ?a = auth"
    unfolding aes_ccm_decr_auth_def aes_ccm_encr_auth_def using assms b(2) by (simp add: xor_tag_swap)
  have "plain = aes_ccm_encr aes ?a 1 crypt \<longleftrightarrow> crypt = aes_ccm_encr aes ?a 1 plain"
    using aes_ccm_encr_involutive by metis
  then show ?thesis unfolding ad ae tag by simp
qed

lemma aes_ccm_ae_length:
  "aes_ccm_ae m k key_len n M p a = Some (c, t) \<Longrightarrow> length c = length p \<and> length t = M"
  by (auto simp: aes_ccm_ae_def aes_ccm_encr_auth_def Let_def split: option.splits if_splits)

interpretation ccm: aead "\<lambda>k n p a. aes_ccm_ae m k key_len n M p a" "\<lambda>k n c a t. aes_ccm_ad m k key_len n M c a t" M for m key_len M
  using ccm_ad_iff aes_ccm_ae_length by unfold_locales

section \<open>Decryption accepts exactly what encryption produces\<close>

text \<open>
  C35. For every message, associated data, nonce and key, \<^verbatim>\<open>aes_ccm_ad\<close> accepts a ciphertext with a
  tag of the right length and returns a plain text exactly when \<^verbatim>\<open>aes_ccm_ae\<close> turns that plain text
  into this ciphertext and this tag: decryption inverts encryption and accepts nothing else.
\<close>

theorem aes_ccm_ad_inverts_ae:
  assumes "length auth = M"
  shows "aes_ccm_ad m key key_len nonce M crypt aad auth = Some plain \<longleftrightarrow>
    aes_ccm_ae m key key_len nonce M plain aad = Some (crypt, auth)"
  using assms by (rule ccm_ad_iff)

theorem aes_ccm_ad_inverts_ae_witness:
  "\<exists>crypt auth. aes_ccm_ae True sample_aes_key 16 (replicate 13 1) 8 [1, 2, 3] [9] = Some (crypt, auth)
     \<and> aes_ccm_ad True sample_aes_key 16 (replicate 13 1) 8 crypt [9] auth = Some [1, 2, 3]"
proof -
  obtain aes where "aes_encrypt_init True sample_aes_key 16 = Some aes"
    using aes_encrypt_init_None [of True sample_aes_key 16] by auto
  then obtain crypt auth where "aes_ccm_ae True sample_aes_key 16 (replicate 13 1) 8 [1, 2, 3] [9] = Some (crypt, auth)"
    "length auth = 8"
    by (simp add: aes_ccm_ae_def Let_def aes_ccm_encr_auth_def)
  then show ?thesis
    using aes_ccm_ad_inverts_ae [of auth 8 True sample_aes_key 16 "replicate 13 1" crypt "[9]" "[1, 2, 3]"] by blast
qed

end
