(* ===== verification/Aes_Gcm.thy ===== *)
theory Aes_Gcm
  imports Aes_Ccm
begin

unbundle bit_operations_syntax

text \<open>
  Galois/counter mode and GMAC (\<^verbatim>\<open>core/crypto/aes-gcm.c\<close>), with its field multiplication compared
  with the definition of SP 800-38D on 128-bit words. The blocks \<^verbatim>\<open>y\<close>, \<^verbatim>\<open>z\<close>, \<^verbatim>\<open>v\<close> and \<^verbatim>\<open>cb\<close> are
  lists of 16 bytes that the functions return updated; \<open>None\<close> is the return value -1.
\<close>

section \<open>The code\<close>

definition RTW_GET_BE32 :: "bytes \<Rightarrow> u32" where
  "RTW_GET_BE32 a = push_bit 24 (ucast (a ! 0)) OR push_bit 16 (ucast (a ! 1)) OR push_bit 8 (ucast (a ! 2)) OR ucast (a ! 3)"

definition RTW_PUT_BE32 :: "u32 \<Rightarrow> bytes" where
  "RTW_PUT_BE32 val = [ucast (drop_bit 24 val), ucast (drop_bit 16 val), ucast (drop_bit 8 val), ucast val]"

definition RTW_PUT_BE64 :: "u64 \<Rightarrow> bytes" where
  "RTW_PUT_BE64 val = map (\<lambda>i. ucast (drop_bit (56 - 8 * i) val)) [0..<8]"

definition inc32 :: "bytes \<Rightarrow> bytes" where
  "inc32 block = take 12 block @ RTW_PUT_BE32 (RTW_GET_BE32 (drop 12 block) + 1)"

definition xor_block :: "bytes \<Rightarrow> bytes \<Rightarrow> bytes" where
  "xor_block dst src = map2 (XOR) (take 16 dst) (take 16 src)"

definition shift_word :: "bytes \<Rightarrow> nat \<Rightarrow> bool \<Rightarrow> bytes" where
  "shift_word v p c = RTW_PUT_BE32 (if c then drop_bit 1 (RTW_GET_BE32 (drop p v)) OR 0x80000000
                                    else drop_bit 1 (RTW_GET_BE32 (drop p v)))"

text \<open>The words are rewritten from the last to the first, so each carry bit is read before its word changes.\<close>

definition shift_right_block :: "bytes \<Rightarrow> bytes" where
  "shift_right_block v =
     shift_word v 0 False @ shift_word v 4 (v ! 3 AND 1 \<noteq> 0) @ shift_word v 8 (v ! 7 AND 1 \<noteq> 0)
     @ shift_word v 12 (v ! 11 AND 1 \<noteq> 0)"

definition gf_step :: "bytes \<Rightarrow> bytes \<times> bytes \<Rightarrow> nat \<times> nat \<Rightarrow> bytes \<times> bytes" where
  "gf_step x = (\<lambda>(z, v) (i, j).
     (if bit (x ! i) (7 - j) then xor_block z v else z,
      if v ! 15 AND 1 \<noteq> 0 then (let v = shift_right_block v in v[0 := v ! 0 XOR 0xe1])
      else shift_right_block v))"

definition gf_mult :: "bytes \<Rightarrow> bytes \<Rightarrow> bytes" where
  "gf_mult x y = fst (foldl (gf_step x) (replicate 16 0, take 16 y) (List.product [0..<16] [0..<8]))"

function ghash :: "bytes \<Rightarrow> bytes \<Rightarrow> bytes \<Rightarrow> bytes" where
  "ghash h x y =
     (if length x < 16 then
        (if x = [] then y
         else (let tmp = x @ replicate (16 - length x) 0 in gf_mult (xor_block y tmp) h))
      else ghash h (drop 16 x) (gf_mult (xor_block y x) h))"
  by pat_completeness auto
termination
  by (relation "measure (\<lambda>(h, x, y). length x)") auto

declare ghash.simps [simp del]

function aes_gctr :: "aes_ctx \<Rightarrow> bytes \<Rightarrow> bytes \<Rightarrow> bytes" where
  "aes_gctr aes cb x =
     (if length x < 16 then
        (if x = [] then [] else map2 (XOR) x (aes_encrypt aes cb))
      else xor_block (aes_encrypt aes cb) x @ aes_gctr aes (inc32 cb) (drop 16 x))"
  by pat_completeness auto
termination
  by (relation "measure (\<lambda>(aes, cb, x). length x)") auto

declare aes_gctr.simps [simp del]

definition aes_gcm_init_hash_subkey :: "bool \<Rightarrow> bytes \<Rightarrow> nat \<Rightarrow> (aes_ctx \<times> bytes) option" where
  "aes_gcm_init_hash_subkey m key key_len =
     (case aes_encrypt_init m key key_len of
        None \<Rightarrow> None
      | Some aes \<Rightarrow> Some (aes, aes_encrypt aes (replicate 16 0)))"

definition aes_gcm_prepare_j0 :: "bytes \<Rightarrow> bytes \<Rightarrow> bytes" where
  "aes_gcm_prepare_j0 iv H =
     (if length iv = 12 then iv @ [0, 0, 0, 1]
      else
       (let J0 = ghash H iv (replicate 16 0);
            len_buf = RTW_PUT_BE64 0 @ RTW_PUT_BE64 (of_nat (length iv) * 8)
        in ghash H len_buf J0))"

definition aes_gcm_gctr :: "aes_ctx \<Rightarrow> bytes \<Rightarrow> bytes \<Rightarrow> bytes" where
  "aes_gcm_gctr aes J0 inp = (if inp = [] then [] else aes_gctr aes (inc32 J0) inp)"

definition aes_gcm_ghash :: "bytes \<Rightarrow> bytes \<Rightarrow> bytes \<Rightarrow> bytes" where
  "aes_gcm_ghash H aad crypt =
     (let S = ghash H aad (replicate 16 0);
          S = ghash H crypt S;
          len_buf = RTW_PUT_BE64 (of_nat (length aad) * 8) @ RTW_PUT_BE64 (of_nat (length crypt) * 8)
      in ghash H len_buf S)"

definition aes_gcm_ae :: "bool \<Rightarrow> bytes \<Rightarrow> nat \<Rightarrow> bytes \<Rightarrow> bytes \<Rightarrow> bytes \<Rightarrow> (bytes \<times> bytes) option" where
  "aes_gcm_ae m key key_len iv plain aad =
     (case aes_gcm_init_hash_subkey m key key_len of
        None \<Rightarrow> None
      | Some (aes, H) \<Rightarrow>
         (let J0 = aes_gcm_prepare_j0 iv H;
              crypt = aes_gcm_gctr aes J0 plain;
              S = aes_gcm_ghash H aad crypt
          in Some (crypt, aes_gctr aes J0 S)))"

definition aes_gcm_ad :: "bool \<Rightarrow> bytes \<Rightarrow> nat \<Rightarrow> bytes \<Rightarrow> bytes \<Rightarrow> bytes \<Rightarrow> bytes \<Rightarrow> bytes option" where
  "aes_gcm_ad m key key_len iv crypt aad tag =
     (case aes_gcm_init_hash_subkey m key key_len of
        None \<Rightarrow> None
      | Some (aes, H) \<Rightarrow>
         (let J0 = aes_gcm_prepare_j0 iv H;
              plain = aes_gcm_gctr aes J0 crypt;
              S = aes_gcm_ghash H aad crypt;
              T = aes_gctr aes J0 S
          in if os_memcmp_const tag T 16 \<noteq> 0 then None else Some plain))"

definition aes_gmac :: "bool \<Rightarrow> bytes \<Rightarrow> nat \<Rightarrow> bytes \<Rightarrow> bytes \<Rightarrow> bytes option" where
  "aes_gmac m key key_len iv aad = map_option snd (aes_gcm_ae m key key_len iv [] aad)"

section \<open>Lengths and the key stream\<close>

lemma aes_gctr_length [simp]: "length (aes_gctr aes cb x) = length x"
proof (induction aes cb x rule: aes_gctr.induct)
  case (1 aes cb x)
  then show ?case by (subst aes_gctr.simps) (simp add: xor_block_def)
qed

lemma aes_gctr_Nil: "aes_gctr aes cb x = [] \<longleftrightarrow> x = []"
  by (metis aes_gctr_length length_0_conv)

lemma aes_gctr_involutive: "aes_gctr aes cb (aes_gctr aes cb x) = x"
proof (induction aes cb x rule: aes_gctr.induct)
  case (1 aes cb x)
  let ?k = "aes_encrypt aes cb"
  show ?case
  proof (cases "length x < 16")
    case True
    then show ?thesis by (simp add: aes_gctr.simps [of aes cb] map2_xor_comm [of x] map2_xor_comm [of "map2 (XOR) _ _"] map2_xor_twice)
  next
    case False
    let ?c = "xor_block ?k x"
    have c: "length ?c = 16" "xor_block ?k ?c = take 16 x"
      using False by (simp_all add: xor_block_def map2_xor_twice)
    have "aes_gctr aes cb x = ?c @ aes_gctr aes (inc32 cb) (drop 16 x)"
      using False by (subst aes_gctr.simps) simp
    moreover have "aes_gctr aes cb (?c @ r) = take 16 x @ aes_gctr aes (inc32 cb) r" for r
    proof -
      have "xor_block ?k (?c @ r) = xor_block ?k ?c" using c(1) by (simp add: xor_block_def)
      then show ?thesis using c by (subst aes_gctr.simps) simp
    qed
    ultimately show ?thesis using 1 False by simp
  qed
qed

lemma xor_block_length [simp]: "length a = 16 \<Longrightarrow> 16 \<le> length b \<Longrightarrow> length (xor_block a b) = 16"
  by (simp add: xor_block_def)

lemma shift_right_block_length [simp]: "length (shift_right_block v) = 16"
  by (simp add: shift_right_block_def shift_word_def RTW_PUT_BE32_def)

lemma gf_mult_length [simp]:
  assumes "16 \<le> length y"
  shows "length (gf_mult x y) = 16"
proof -
  have "length (fst (foldl (gf_step x) (z, v) ps)) = 16" if "length z = 16" "length v = 16" for z v ps
    using that by (induction ps arbitrary: z v) (auto simp: gf_step_def Let_def split: prod.splits)
  then show ?thesis using assms by (simp add: gf_mult_def)
qed

lemma ghash_length [simp]: "16 \<le> length h \<Longrightarrow> length y = 16 \<Longrightarrow> length (ghash h x y) = 16"
proof (induction h x y rule: ghash.induct)
  case (1 h x y)
  then show ?case by (subst ghash.simps) (simp add: Let_def)
qed

lemma aes_gcm_ghash_length [simp]: "length H = 16 \<Longrightarrow> length (aes_gcm_ghash H aad crypt) = 16"
  by (simp add: aes_gcm_ghash_def Let_def)

section \<open>The field multiplication\<close>

text \<open>A block as a number, most significant byte first, and the multiplication of SP 800-38D on numbers.\<close>

type_synonym u128 = "128 word"

definition be128 :: "bytes \<Rightarrow> u128" where
  "be128 b = foldl (\<lambda>w x. push_bit 8 w OR ucast x) 0 b"

definition gf_ref_step :: "u128 \<Rightarrow> u128 \<times> u128 \<Rightarrow> nat \<Rightarrow> u128 \<times> u128" where
  "gf_ref_step x = (\<lambda>(z, v) i.
     (if bit x (127 - i) then z XOR v else z,
      if bit v 0 then drop_bit 1 v XOR push_bit 120 0xe1 else drop_bit 1 v))"

definition gf_ref :: "u128 \<Rightarrow> u128 \<Rightarrow> u128" where
  "gf_ref x y = fst (foldl (gf_ref_step x) (0, y) [0..<128])"

lemma bit_be128:
  "length b \<le> 16 \<Longrightarrow> bit (be128 b) n \<longleftrightarrow> n < 8 * length b \<and> bit (b ! (length b - 1 - n div 8)) (n mod 8)"
proof (induction b arbitrary: n rule: rev_induct)
  case (snoc x b)
  show ?case
  proof (cases "n < 8")
    case True
    then show ?thesis by (simp add: be128_def bit_simps nth_append)
  next
    case False
    then obtain m where n: "n = m + 8" by (metis le_add_diff_inverse2 not_less)
    have "bit (be128 (b @ [x])) (m + 8) \<longleftrightarrow> m + 8 < 128 \<and> bit (be128 b) m"
      by (auto simp: be128_def bit_or_iff bit_push_bit_iff bit_ucast_iff dest: bit_imp_le_length)
    moreover have "bit (be128 b) m \<longleftrightarrow> m < 8 * length b \<and> bit (b ! (length b - 1 - m div 8)) (m mod 8)"
      using snoc by simp
    moreover have "(b @ [x]) ! (length b - Suc (m div 8)) = b ! (length b - Suc (m div 8))" if "m < 8 * length b"
      using that by (cases "b = []") (simp_all add: nth_append)
    moreover have "(m + 8) div 8 = Suc (m div 8)" by simp
    ultimately show ?thesis using snoc.prems by (auto simp: n)
  qed
qed (simp add: be128_def)

lemma be128_xor: "length a = 16 \<Longrightarrow> length b = 16 \<Longrightarrow> be128 (xor_block a b) = be128 a XOR be128 b"
  by (rule bit_word_eqI) (simp add: bit_be128 bit_xor_iff xor_block_def)

definition shr8 :: "bool \<Rightarrow> u8 \<Rightarrow> u8" where
  "shr8 c a = (if c then drop_bit 1 a OR 0x80 else drop_bit 1 a)"

lemma bit_shr8: "bit (shr8 c a) n \<longleftrightarrow> (if n = 7 then c else n < 7 \<and> bit a (Suc n))"
proof -
  have "(0x80 :: u8) = push_bit 7 1" by simp
  then have h: "bit (0x80 :: u8) n \<longleftrightarrow> n = 7" by (simp only: bit_push_bit_iff bit_1_iff) auto
  have "bit a (Suc n) \<Longrightarrow> n < 7" using bit_imp_le_length [of a "Suc n"] by simp
  then show ?thesis
    unfolding shr8_def by (cases c) (simp_all only: if_True if_False bit_or_iff bit_drop_bit_eq o_apply h plus_1_eq_Suc, auto)
qed

lemma be32_get: "RTW_GET_BE32 [a, b, c, d] = GETU32 [a, b, c, d]"
  by (rule bit_word_eqI) (auto simp: RTW_GET_BE32_def bit_get bit_simps dest: bit_imp_le_length)

lemma shift_word_4:
  "RTW_PUT_BE32 (drop_bit 1 (GETU32 [a, b, c, d]) OR (if k then 0x80000000 else 0))
     = [shr8 k a, shr8 (bit a 0) b, shr8 (bit b 0) c, shr8 (bit c 0) d]"
proof -
  have "(0x80000000 :: u32) = push_bit 31 1" by simp
  then have h: "bit (0x80000000 :: u32) n \<longleftrightarrow> n = 31" for n by (simp only: bit_push_bit_iff bit_1_iff) auto
  define W where "W = drop_bit 1 (GETU32 [a, b, c, d]) OR (if k then 0x80000000 else 0)"
  have w: "bit W n \<longleftrightarrow> (n = 31 \<and> k) \<or> bit (GETU32 [a, b, c, d]) (Suc n)" for n
    unfolding W_def by (cases k) (simp_all only: if_True if_False bit_or_iff bit_drop_bit_eq o_apply h plus_1_eq_Suc, auto)
  show ?thesis
    unfolding RTW_PUT_BE32_def W_def [symmetric]
    by (auto intro!: bit_word_eqI simp: bit_shr8 bit_ucast_iff bit_drop_bit_eq w bit_get less_Suc_eq split: if_splits dest: bit_imp_le_length)
qed

lemma and1_bit: "v AND 1 \<noteq> 0 \<longleftrightarrow> bit v 0" for v :: u8
  by (simp add: and_one_eq odd_iff_mod_2_eq_one bit_0)

lemma shift_right_block_16:
  "shift_right_block [a0, a1, a2, a3, a4, a5, a6, a7, a8, a9, a10, a11, a12, a13, a14, a15] =
   [shr8 False a0, shr8 (bit a0 0) a1, shr8 (bit a1 0) a2, shr8 (bit a2 0) a3, shr8 (bit a3 0) a4, shr8 (bit a4 0) a5,
    shr8 (bit a5 0) a6, shr8 (bit a6 0) a7, shr8 (bit a7 0) a8, shr8 (bit a8 0) a9, shr8 (bit a9 0) a10, shr8 (bit a10 0) a11,
    shr8 (bit a11 0) a12, shr8 (bit a12 0) a13, shr8 (bit a13 0) a14, shr8 (bit a14 0) a15]"
proof -
  have w: "(if k then drop_bit 1 w OR 0x80000000 else drop_bit 1 w) = drop_bit 1 w OR (if k then 0x80000000 else 0)" for k and w :: u32
    by simp
  have g: "RTW_GET_BE32 (a # b # c # d # r) = GETU32 [a, b, c, d]" for a b c d r
    using be32_get [of a b c d] by (simp add: RTW_GET_BE32_def)
  let ?v = "[a0, a1, a2, a3, a4, a5, a6, a7, a8, a9, a10, a11, a12, a13, a14, a15]"
  have sw: "shift_word v p k = [shr8 k a, shr8 (bit a 0) b, shr8 (bit b 0) c, shr8 (bit c 0) d]"
    if "drop p v = a # b # c # d # r" for v p k a b c d r
    unfolding shift_word_def w that g by (rule shift_word_4)
  have "shift_word ?v 0 k = [shr8 k a0, shr8 (bit a0 0) a1, shr8 (bit a1 0) a2, shr8 (bit a2 0) a3]"
    "shift_word ?v 4 k = [shr8 k a4, shr8 (bit a4 0) a5, shr8 (bit a5 0) a6, shr8 (bit a6 0) a7]"
    "shift_word ?v 8 k = [shr8 k a8, shr8 (bit a8 0) a9, shr8 (bit a9 0) a10, shr8 (bit a10 0) a11]"
    "shift_word ?v 12 k = [shr8 k a12, shr8 (bit a12 0) a13, shr8 (bit a13 0) a14, shr8 (bit a14 0) a15]" for k
    by (rule sw, simp)+
  then show ?thesis by (simp add: shift_right_block_def and1_bit)
qed

lemma be128_shift: 
  assumes "length v = 16"
  shows "be128 (shift_right_block v) = drop_bit 1 (be128 v)"
proof (rule bit_word_eqI)
  fix n assume "n < LENGTH(128)"
  have nth: "shift_right_block v ! k = shr8 (0 < k \<and> bit (v ! (k - 1)) 0) (v ! k)" if "k < 16" for k
  proof -
    from assms obtain a0 a1 a2 a3 a4 a5 a6 a7 a8 a9 a10 a11 a12 a13 a14 a15
      where v: "v = [a0, a1, a2, a3, a4, a5, a6, a7, a8, a9, a10, a11, a12, a13, a14, a15]" by (rule length_16E)
    have "k \<in> set [0..<16]" using that by simp
    then show ?thesis unfolding v shift_right_block_16 by (auto simp: upt_rec)
  qed
  have n: "n < 128" using \<open>n < LENGTH(128)\<close> by simp
  show "bit (be128 (shift_right_block v)) n = bit (drop_bit 1 (be128 v)) n"
  proof (cases "n mod 8 = 7")
    case True
    then have d: "Suc n div 8 = Suc (n div 8)" "Suc n mod 8 = 0" by presburger+
    show ?thesis
    proof (cases "n = 127")
      case True
      then show ?thesis using assms by (simp add: bit_be128 bit_drop_bit_eq nth bit_shr8)
    next
      case False
      then have "n div 8 < 15" "n < 127" using n True by presburger+
      then show ?thesis using assms n d True by (simp add: bit_be128 bit_drop_bit_eq nth bit_shr8 Suc_diff_Suc)
    qed
  next
    case False
    then have d: "Suc n div 8 = n div 8" "Suc n mod 8 = Suc (n mod 8)" "n mod 8 < 7" by presburger+
    have "n div 8 < 16" "n < 127" using n False by (cases "n = 127"; simp)+
    then show ?thesis using assms n d False by (simp add: bit_be128 bit_drop_bit_eq nth bit_shr8)
  qed
qed

lemma be128_update0:
  assumes "length v = 16"
  shows "be128 (v[0 := v ! 0 XOR 0xe1]) = be128 v XOR push_bit 120 0xe1"
proof (rule bit_word_eqI)
  fix n assume "n < LENGTH(128)"
  then have n: "n < 128" by simp
  have e1: "bit (0xe1 :: u128) k \<longleftrightarrow> bit (0xe1 :: u8) k" if "k < 8" for k
  proof -
    have "(0xe1 :: u128) = ucast (0xe1 :: u8)" by simp
    then show ?thesis using that by (simp only: bit_ucast_iff) simp
  qed
  show "bit (be128 (v[0 := v ! 0 XOR 0xe1])) n = bit (be128 v XOR push_bit 120 0xe1) n"
  proof (cases "n < 120")
    case True
    then have "15 - n div 8 \<noteq> 0" by simp
    then show ?thesis using assms True n by (simp only: bit_xor_iff bit_push_bit_iff) (simp add: bit_be128)
  next
    case False
    then have d: "n div 8 = 15" "n mod 8 = n - 120" "n - 120 < 8" using n by presburger+
    show ?thesis using assms n False d(3) by (simp only: bit_xor_iff bit_push_bit_iff e1 [OF d(3)] bit_be128 length_list_update d) (simp add: bit_xor_iff)
  qed
qed

lemma gf_step_ref:
  assumes "length z = 16" "length v = 16" "length x = 16" "i < 16" "j < 8" "gf_step x (z, v) (i, j) = (z', v')"
  shows "gf_ref_step (be128 x) (be128 z, be128 v) (8 * i + j) = (be128 z', be128 v')" "length z' = 16" "length v' = 16"
proof -
  have b: "bit (be128 x) (127 - (8 * i + j)) \<longleftrightarrow> bit (x ! i) (7 - j)"
  proof -
    have "127 - (8 * i + j) = 8 * (15 - i) + (7 - j)" using assms(4,5) by simp
    then have "(127 - (8 * i + j)) div 8 = 15 - i" "(127 - (8 * i + j)) mod 8 = 7 - j" by simp_all
    moreover have "127 - (8 * i + j) < 128" by simp
    ultimately show ?thesis using assms(3,4) by (simp add: bit_be128)
  qed
  have l: "v ! 15 AND 1 \<noteq> 0 \<longleftrightarrow> bit (be128 v) 0" using assms(2) by (simp add: bit_be128 and1_bit)
  show "gf_ref_step (be128 x) (be128 z, be128 v) (8 * i + j) = (be128 z', be128 v')" "length z' = 16" "length v' = 16"
    using assms by (auto simp: gf_step_def gf_ref_step_def Let_def b l be128_xor be128_shift be128_update0 split: if_splits)
qed

lemma gf_fold_ref:
  assumes "length x = 16" "\<forall>(i, j) \<in> set ps. i < 16 \<and> j < 8" "length z = 16" "length v = 16"
  shows "be128 (fst (foldl (gf_step x) (z, v) ps)) = fst (foldl (gf_ref_step (be128 x)) (be128 z, be128 v) (map (\<lambda>(i, j). 8 * i + j) ps))"
  using assms(2-4)
proof (induction ps arbitrary: z v)
  case (Cons p ps)
  obtain i j z' v' where p: "p = (i, j)" "gf_step x (z, v) (i, j) = (z', v')" by (metis surj_pair)
  note s = gf_step_ref [OF Cons.prems(2,3) assms(1) _ _ p(2)]
  show ?case using Cons.IH [of z' v'] Cons.prems s by (simp add: p)
qed simp

lemma gf_mult_ref:
  assumes "length x = 16" "length y = 16"
  shows "be128 (gf_mult x y) = gf_ref (be128 x) (be128 y)"
proof -
  have ix: "map (\<lambda>(i, j). 8 * i + j) (List.product [0..<16] [0..<8]) = [0..<128]" by (simp add: upt_rec)
  have z: "be128 (replicate 16 0) = 0" by (rule bit_word_eqI) (simp add: bit_be128)
  show ?thesis
    using gf_fold_ref [OF assms(1), of "List.product [0..<16] [0..<8]" "replicate 16 0" y] assms(2) ix z
    by (simp add: gf_mult_def gf_ref_def)
qed

section \<open>Authenticated encryption\<close>

text \<open>Decryption accepts exactly what encryption produces.\<close>

lemma aes_gcm_ad_inverts_ae:
  assumes "length tag = 16"
  shows "aes_gcm_ad m key key_len iv crypt aad tag = Some plain \<longleftrightarrow> aes_gcm_ae m key key_len iv plain aad = Some (crypt, tag)"
proof (cases "aes_encrypt_init m key key_len")
  case None
  then show ?thesis by (simp add: aes_gcm_ad_def aes_gcm_ae_def aes_gcm_init_hash_subkey_def)
next
  case (Some aes)
  let ?H = "aes_encrypt aes (replicate 16 0)"
  let ?J = "aes_gcm_prepare_j0 iv ?H"
  have inv: "aes_gcm_gctr aes ?J (aes_gcm_gctr aes ?J x) = x" for x
    by (simp add: aes_gcm_gctr_def aes_gctr_involutive aes_gctr_Nil)
  have "aes_gcm_ad m key key_len iv crypt aad tag = Some plain \<longleftrightarrow>
      plain = aes_gcm_gctr aes ?J crypt \<and> tag = aes_gctr aes ?J (aes_gcm_ghash ?H aad crypt)"
    using Some assms by (auto simp: aes_gcm_ad_def aes_gcm_init_hash_subkey_def Let_def os_memcmp_const_0)
  moreover have "aes_gcm_ae m key key_len iv plain aad = Some (crypt, tag) \<longleftrightarrow>
      crypt = aes_gcm_gctr aes ?J plain \<and> tag = aes_gctr aes ?J (aes_gcm_ghash ?H aad crypt)"
    using Some by (auto simp: aes_gcm_ae_def aes_gcm_init_hash_subkey_def Let_def)
  ultimately show ?thesis using inv by metis
qed

interpretation gcm: aead "\<lambda>k n p a. aes_gcm_ae m k key_len n p a" "\<lambda>k n c a t. aes_gcm_ad m k key_len n c a t" 16 for m key_len
proof
  fix k n p a c t
  show "length t = 16 \<Longrightarrow> aes_gcm_ad m k key_len n c a t = Some p \<longleftrightarrow> aes_gcm_ae m k key_len n p a = Some (c, t)"
    by (rule aes_gcm_ad_inverts_ae)
  show "aes_gcm_ae m k key_len n p a = Some (c, t) \<Longrightarrow> length c = length p \<and> length t = 16"
    by (auto simp: aes_gcm_ae_def aes_gcm_init_hash_subkey_def aes_gcm_gctr_def Let_def split: option.splits)
qed

end
