(* ===== verification/Ccmp_Gcmp.thy ===== *)
theory Ccmp_Gcmp
  imports Aes_Gcm Wep_Tkip
begin

unbundle bit_operations_syntax

text \<open>
  The frame formats CCMP, CCMP-256 and GCMP: \<^verbatim>\<open>core/crypto/ccmp.c\<close>, \<^verbatim>\<open>core/crypto/gcmp.c\<close>, the wrappers
  of \<^verbatim>\<open>core/rtw_swcrypto.c\<close> that work on a frame in place, and \<^verbatim>\<open>rtw_aes_encrypt\<close>, \<^verbatim>\<open>rtw_aes_decrypt\<close>,
  \<^verbatim>\<open>rtw_gcmp_encrypt\<close>, \<^verbatim>\<open>rtw_gcmp_decrypt\<close> of \<^verbatim>\<open>core/rtw_security.c\<close> that walk over the fragments of a
  transmit frame and pick the key. \<open>m1\<close> and \<open>m2\<close> say whether the allocations of the output buffer
  and of the cipher context succeed. An inner \<open>None\<close> is a null result, an outer one an access outside
  the frame's buffer. The counters printed for missing group keys are left out.
\<close>

section \<open>Associated data and nonce\<close>

definition WLAN_FC_TODS :: u16 where "WLAN_FC_TODS = 0x0100"
definition WLAN_FC_FROMDS :: u16 where "WLAN_FC_FROMDS = 0x0200"
definition WLAN_FC_RETRY :: u16 where "WLAN_FC_RETRY = 0x0800"
definition WLAN_FC_PWRMGT :: u16 where "WLAN_FC_PWRMGT = 0x1000"
definition WLAN_FC_MOREDATA :: u16 where "WLAN_FC_MOREDATA = 0x2000"
definition WLAN_FC_ISWEP :: u16 where "WLAN_FC_ISWEP = 0x4000"
definition WLAN_FC_ORDER :: u16 where "WLAN_FC_ORDER = 0x8000"
definition RTW_AMSDU_MODE_SPP :: u8 where "RTW_AMSDU_MODE_SPP = 1"

definition hdr_fc :: "bytes \<Rightarrow> u16" where
  "hdr_fc hdr = ucast (hdr ! 0) OR push_bit 8 (ucast (hdr ! 1))"

definition hdr_seq :: "bytes \<Rightarrow> u16" where
  "hdr_seq hdr = ucast (hdr ! 22) OR push_bit 8 (ucast (hdr ! 23))"

definition fc_addr4 :: "u16 \<Rightarrow> bool" where
  "fc_addr4 fc \<longleftrightarrow> fc AND (WLAN_FC_TODS OR WLAN_FC_FROMDS) = WLAN_FC_TODS OR WLAN_FC_FROMDS"

definition fc_data :: "u16 \<Rightarrow> bool" where
  "fc_data fc \<longleftrightarrow> fc AND 0x000c = 0x0008"

definition fc_qos :: "u16 \<Rightarrow> bool" where
  "fc_qos fc \<longleftrightarrow> fc_data fc \<and> fc AND 0x00f0 AND 0x0080 \<noteq> 0"

text \<open>The frame control with the bits that may change on the way masked.\<close>

definition fc_masked :: "u16 \<Rightarrow> u16" where
  "fc_masked fc =
     (let fc1 = (if fc_data fc then fc AND NOT 0x0070 else fc);
          fc2 = (if fc_qos fc then fc1 AND NOT WLAN_FC_ORDER else fc1)
      in fc2 AND NOT (WLAN_FC_RETRY OR WLAN_FC_PWRMGT OR WLAN_FC_MOREDATA))"

definition aad_tail :: "u8 \<Rightarrow> bytes \<Rightarrow> bytes" where
  "aad_tail amsdu_mode hdr =
     (let fc = hdr_fc hdr; n4 = (if fc_addr4 fc then 6 else 0); q = hdr ! (24 + n4) AND NOT 0x70 in
      take n4 (drop 24 hdr)
      @ (if fc_qos fc then [if amsdu_mode \<noteq> RTW_AMSDU_MODE_SPP then q AND NOT 0x80 else q, 0] else []))"

definition pn_bytes :: "bytes \<Rightarrow> bytes" where
  "pn_bytes data = [data ! 7, data ! 6, data ! 5, data ! 4, data ! 1, data ! 0]"

definition ccmp_aad_nonce :: "u8 \<Rightarrow> bytes \<Rightarrow> bytes \<Rightarrow> bytes \<times> bytes" where
  "ccmp_aad_nonce amsdu_mode hdr data =
     (let fc = hdr_fc hdr;
          prio = (if fc_data fc
                  then (if fc_qos fc then hdr ! (24 + (if fc_addr4 fc then 6 else 0)) AND 0x0f else 0)
                  else if fc AND 0x000c = 0 then 0x10 else 0);
          aad = put_le16 (fc_masked fc OR WLAN_FC_ISWEP) @ take 18 (drop 4 hdr) @ put_le16 (hdr_seq hdr AND NOT 0xfff0)
                @ aad_tail amsdu_mode hdr
      in (aad, prio # take 6 (drop 10 hdr) @ pn_bytes data))"

definition gcmp_aad_nonce :: "u8 \<Rightarrow> bytes \<Rightarrow> bytes \<Rightarrow> bytes \<times> bytes" where
  "gcmp_aad_nonce amsdu_mode hdr data =
     (put_le16 (fc_masked (hdr_fc hdr)) @ take 18 (drop 4 hdr) @ put_le16 (hdr_seq hdr AND NOT 0xfff0)
        @ aad_tail amsdu_mode hdr,
      take 6 (drop 10 hdr) @ pn_bytes data)"

section \<open>Building and opening a frame\<close>

text \<open>\<^verbatim>\<open>hdr->frame_control |= host_to_le16(WLAN_FC_ISWEP)\<close>\<close>

definition set_iswep :: "bytes \<Rightarrow> bytes" where
  "set_iswep hdr = hdr[1 := hdr ! 1 OR 0x40]"

text \<open>The header and the eight bytes of packet number in front of the payload, and the payload.\<close>

definition frame_head :: "bytes \<Rightarrow> nat \<Rightarrow> nat \<Rightarrow> bytes option \<Rightarrow> u8 \<Rightarrow> bytes \<times> bytes" where
  "frame_head frame hdrlen plen pn keyid =
     (case pn of
        None \<Rightarrow> (take (hdrlen + 8) frame, take plen (drop (hdrlen + 8) frame))
      | Some pn \<Rightarrow>
          (take hdrlen frame @ [pn ! 5, pn ! 4, 0, 0x20 OR push_bit 6 keyid, pn ! 3, pn ! 2, pn ! 1, pn ! 0],
           take plen (drop hdrlen frame)))"

definition ccmp_encrypt :: "u8 \<Rightarrow> bool \<Rightarrow> bool \<Rightarrow> bytes \<Rightarrow> bytes \<Rightarrow> nat \<Rightarrow> nat \<Rightarrow> bytes option \<Rightarrow> u8 \<Rightarrow> bytes option" where
  "ccmp_encrypt amsdu_mode m1 m2 tk frame len hdrlen pn keyid =
     (if len < hdrlen \<or> hdrlen < 24 then None
      else if \<not> m1 then None
      else
       (let (head, pdata) = frame_head frame hdrlen (len - hdrlen) pn keyid;
            head = set_iswep head;
            (aad, nonce) = ccmp_aad_nonce amsdu_mode head (drop hdrlen head)
        in case aes_ccm_ae m2 tk 16 nonce 8 pdata aad of
             None \<Rightarrow> None
           | Some (crypt, auth) \<Rightarrow> Some (head @ crypt @ auth)))"

definition ccmp_256_encrypt :: "u8 \<Rightarrow> bool \<Rightarrow> bool \<Rightarrow> bytes \<Rightarrow> bytes \<Rightarrow> nat \<Rightarrow> nat \<Rightarrow> bytes option \<Rightarrow> u8 \<Rightarrow> bytes option" where
  "ccmp_256_encrypt amsdu_mode m1 m2 tk frame len hdrlen pn keyid =
     (if len < hdrlen \<or> hdrlen < 24 then None
      else if \<not> m1 then None
      else
       (let (head, pdata) = frame_head frame hdrlen (len - hdrlen) pn keyid;
            head = set_iswep head;
            (aad, nonce) = ccmp_aad_nonce amsdu_mode head (drop hdrlen head)
        in case aes_ccm_ae m2 tk 32 nonce 16 pdata aad of
             None \<Rightarrow> None
           | Some (crypt, auth) \<Rightarrow> Some (head @ crypt @ auth)))"

definition gcmp_encrypt :: "u8 \<Rightarrow> bool \<Rightarrow> bool \<Rightarrow> bytes \<Rightarrow> nat \<Rightarrow> bytes \<Rightarrow> nat \<Rightarrow> nat \<Rightarrow> bytes option \<Rightarrow> u8 \<Rightarrow> bytes option" where
  "gcmp_encrypt amsdu_mode m1 m2 tk tk_len frame len hdrlen pn keyid =
     (if len < hdrlen \<or> hdrlen < 24 then None
      else if \<not> m1 then None
      else
       (let (head, pdata) = frame_head frame hdrlen (len - hdrlen) pn keyid;
            (aad, nonce) = gcmp_aad_nonce amsdu_mode head (drop hdrlen head)
        in case aes_gcm_ae m2 tk tk_len nonce pdata aad of
             None \<Rightarrow> None
           | Some (crypt, tag) \<Rightarrow> Some (head @ crypt @ tag)))"

definition ccmp_decrypt :: "u8 \<Rightarrow> bool \<Rightarrow> bool \<Rightarrow> bytes \<Rightarrow> bytes \<Rightarrow> bytes \<Rightarrow> bytes option" where
  "ccmp_decrypt amsdu_mode m1 m2 tk hdr data =
     (if length data < 8 + 8 then None
      else if \<not> m1 then None
      else
       (let mlen = length data - 8 - 8; (aad, nonce) = ccmp_aad_nonce amsdu_mode hdr data
        in aes_ccm_ad m2 tk 16 nonce 8 (take mlen (drop 8 data)) aad (drop (8 + mlen) data)))"

definition ccmp_256_decrypt :: "u8 \<Rightarrow> bool \<Rightarrow> bool \<Rightarrow> bytes \<Rightarrow> bytes \<Rightarrow> bytes \<Rightarrow> bytes option" where
  "ccmp_256_decrypt amsdu_mode m1 m2 tk hdr data =
     (if length data < 8 + 16 then None
      else if \<not> m1 then None
      else
       (let mlen = length data - 8 - 16; (aad, nonce) = ccmp_aad_nonce amsdu_mode hdr data
        in aes_ccm_ad m2 tk 32 nonce 16 (take mlen (drop 8 data)) aad (drop (8 + mlen) data)))"

definition gcmp_decrypt :: "u8 \<Rightarrow> bool \<Rightarrow> bool \<Rightarrow> bytes \<Rightarrow> nat \<Rightarrow> bytes \<Rightarrow> bytes \<Rightarrow> bytes option" where
  "gcmp_decrypt amsdu_mode m1 m2 tk tk_len hdr data =
     (if length data < 8 + 16 then None
      else if \<not> m1 then None
      else
       (let mlen = length data - 8 - 16; (aad, nonce) = gcmp_aad_nonce amsdu_mode hdr data
        in aes_gcm_ad m2 tk tk_len nonce (take mlen (drop 8 data)) aad (drop (8 + mlen) data)))"

section \<open>Frames in place\<close>

text \<open>
  \<open>frame\<close> is the buffer from the start of the MAC header on; \<open>plen\<close> is 32 bits wide, so the lengths
  wrap as in the code. \<open>enc_place\<close> and \<open>dec_place\<close> are what the wrappers share: the bounds of the
  buffer, the result copied back.
\<close>

definition enc_place :: "(nat \<Rightarrow> bytes option) \<Rightarrow> bool \<Rightarrow> nat \<Rightarrow> nat \<Rightarrow> u32 \<Rightarrow> bytes \<Rightarrow> (ret \<times> bytes) option" where
  "enc_place enc m1 mic hdrlen plen frame =
     (let len = unat (of_nat hdrlen + plen) in
      if 24 \<le> hdrlen \<and> hdrlen \<le> len \<and> m1 \<and> length frame < 8 + len + mic then None
      else case enc len of
             None \<Rightarrow> Some (RET_FAIL, frame)
           | Some e \<Rightarrow> Some (RET_SUCCESS, e @ drop (length e) frame))"

definition rtw_ccmp_encrypt_frame :: "u8 \<Rightarrow> bool \<Rightarrow> bool \<Rightarrow> bytes \<Rightarrow> nat \<Rightarrow> nat \<Rightarrow> bytes \<Rightarrow> u32 \<Rightarrow> (ret \<times> bytes) option" where
  "rtw_ccmp_encrypt_frame amsdu_mode m1 m2 key key_len hdrlen frame plen =
     (if key_len = 16 then
        enc_place (\<lambda>len. ccmp_encrypt amsdu_mode m1 m2 key frame len hdrlen None 0) m1 8 hdrlen plen frame
      else if key_len = 32 then
        enc_place (\<lambda>len. ccmp_256_encrypt amsdu_mode m1 m2 key frame len hdrlen None 0) m1 16 hdrlen plen frame
      else Some (RET_FAIL, frame))"

definition rtw_gcmp_encrypt_frame :: "u8 \<Rightarrow> bool \<Rightarrow> bool \<Rightarrow> bytes \<Rightarrow> nat \<Rightarrow> nat \<Rightarrow> bytes \<Rightarrow> u32 \<Rightarrow> (ret \<times> bytes) option" where
  "rtw_gcmp_encrypt_frame amsdu_mode m1 m2 key key_len hdrlen frame plen =
     enc_place (\<lambda>len. gcmp_encrypt amsdu_mode m1 m2 key key_len frame len hdrlen None 0) m1 16 hdrlen plen frame"

definition dec_place :: "(bytes \<Rightarrow> bytes \<Rightarrow> bytes option) \<Rightarrow> bool \<Rightarrow> nat \<Rightarrow> nat \<Rightarrow> bytes \<Rightarrow> u32 \<Rightarrow> (ret \<times> bytes) option" where
  "dec_place dec m1 mic hdrlen frame plen =
     (let data_len = unat (plen - of_nat hdrlen) in
      if 8 + mic \<le> data_len \<and> m1 \<and> length frame < hdrlen + data_len then None
      else case dec frame (take data_len (drop hdrlen frame)) of
             None \<Rightarrow> Some (RET_FAIL, frame)
           | Some plain \<Rightarrow> Some (RET_SUCCESS, take (hdrlen + 8) frame @ plain @ drop (hdrlen + 8 + length plain) frame))"

definition rtw_ccmp_decrypt_frame :: "u8 \<Rightarrow> bool \<Rightarrow> bool \<Rightarrow> bytes \<Rightarrow> nat \<Rightarrow> nat \<Rightarrow> bytes \<Rightarrow> u32 \<Rightarrow> (ret \<times> bytes) option" where
  "rtw_ccmp_decrypt_frame amsdu_mode m1 m2 key key_len hdrlen frame plen =
     (if key_len = 16 then dec_place (ccmp_decrypt amsdu_mode m1 m2 key) m1 8 hdrlen frame plen
      else if key_len = 32 then dec_place (ccmp_256_decrypt amsdu_mode m1 m2 key) m1 16 hdrlen frame plen
      else Some (RET_FAIL, frame))"

definition rtw_gcmp_decrypt_frame :: "u8 \<Rightarrow> bool \<Rightarrow> bool \<Rightarrow> bytes \<Rightarrow> nat \<Rightarrow> nat \<Rightarrow> bytes \<Rightarrow> u32 \<Rightarrow> (ret \<times> bytes) option" where
  "rtw_gcmp_decrypt_frame amsdu_mode m1 m2 key key_len hdrlen frame plen =
     dec_place (gcmp_decrypt amsdu_mode m1 m2 key key_len) m1 16 hdrlen frame plen"

section \<open>Transmit and receive\<close>

text \<open>
  The loop over the fragments. The result of the in-place encryption is dropped, as in the code;
  \<open>enc\<close> is the wrapper with its key, applied to the buffer from the fragment's header on.
\<close>

definition enc_frag :: "(bytes \<Rightarrow> u32 \<Rightarrow> (ret \<times> bytes) option) \<Rightarrow> nat \<Rightarrow> u32 \<Rightarrow> bytes \<Rightarrow> bytes option" where
  "enc_frag enc pframe plen buf = map_option (\<lambda>(r, frame). take pframe buf @ frame) (enc (drop pframe buf) plen)"

fun enc_frags :: "(bytes \<Rightarrow> u32 \<Rightarrow> (ret \<times> bytes) option) \<Rightarrow> pkt_attrib \<Rightarrow> u32 \<Rightarrow> nat \<Rightarrow> nat \<Rightarrow> nat \<Rightarrow> bytes \<Rightarrow> bytes option" where
  "enc_frags enc pa frag_len base 0 pframe buf = Some buf"
| "enc_frags enc pa frag_len base (Suc n) pframe buf =
     (if n = 0 then enc_frag enc pframe (frag_length pa (at_last_txcmdsz pa)) buf
      else case enc_frag enc pframe (frag_length pa frag_len) buf of
             None \<Rightarrow> None
           | Some buf \<Rightarrow> enc_frags enc pa frag_len base n (next_frag base frag_len pframe) buf)"

definition tx_key :: "security_priv \<Rightarrow> pkt_attrib \<Rightarrow> bytes option" where
  "tx_key sec pa = (if IS_MCAST (at_ra pa) then idx (dot118021XGrpKey sec) (unat (dot118021XGrpKeyid sec))
                    else Some (at_UncstKey pa))"

definition rtw_aes_encrypt :: "u8 \<Rightarrow> bool \<Rightarrow> bool \<Rightarrow> security_priv \<Rightarrow> pkt_attrib \<Rightarrow> u32 \<Rightarrow> nat \<Rightarrow> int \<Rightarrow> bytes option \<Rightarrow>
    (ret \<times> bytes option) option" where
  "rtw_aes_encrypt amsdu_mode m1 m2 sec pa frag_len base pkt_offset buf_addr =
     (case buf_addr of None \<Rightarrow> Some (RET_FAIL, None)
      | Some buf \<Rightarrow>
         if at_encrypt pa = AES \<or> at_encrypt pa = CCMP_256 then
           (case tx_key sec pa of
              None \<Rightarrow> None
            | Some prwskey \<Rightarrow>
                map_option (\<lambda>buf. (RET_SUCCESS, Some buf))
                  (enc_frags (rtw_ccmp_encrypt_frame amsdu_mode m1 m2 prwskey (if at_encrypt pa = CCMP_256 then 32 else 16)
                                (unat (at_hdrlen pa)))
                     pa frag_len base (unat (at_nr_frags pa)) (hw_hdr_offset pkt_offset) buf))
         else Some (RET_SUCCESS, Some buf))"

definition rtw_gcmp_encrypt :: "u8 \<Rightarrow> bool \<Rightarrow> bool \<Rightarrow> security_priv \<Rightarrow> pkt_attrib \<Rightarrow> u32 \<Rightarrow> nat \<Rightarrow> int \<Rightarrow> bytes option \<Rightarrow>
    (ret \<times> bytes option) option" where
  "rtw_gcmp_encrypt amsdu_mode m1 m2 sec pa frag_len base pkt_offset buf_addr =
     (case buf_addr of None \<Rightarrow> Some (RET_FAIL, None)
      | Some buf \<Rightarrow>
         if at_encrypt pa = GCMP \<or> at_encrypt pa = GCMP_256 then
           (case tx_key sec pa of
              None \<Rightarrow> None
            | Some prwskey \<Rightarrow>
                map_option (\<lambda>buf. (RET_SUCCESS, Some buf))
                  (enc_frags (rtw_gcmp_encrypt_frame amsdu_mode m1 m2 prwskey (if at_encrypt pa = GCMP_256 then 32 else 16)
                                (unat (at_hdrlen pa)))
                     pa frag_len base (unat (at_nr_frags pa)) (hw_hdr_offset pkt_offset) buf))
         else Some (RET_SUCCESS, Some buf))"

text \<open>
  The receive side: the key is the station's or the group key of the frame's index, which must be
  the installed one. \<open>sta\<close> is the pairwise key of the station with the transmitter address.
\<close>

definition rx_key :: "security_priv \<Rightarrow> bytes \<Rightarrow> rx_pkt_attrib \<Rightarrow> bytes option option" where
  "rx_key sec uncst at =
     (if IS_MCAST (pa_ra at) then
        (if \<not> binstallGrpkey sec \<or> dot118021XGrpKeyid sec \<noteq> ucast (pa_key_index at) then Some None
         else map_option Some (idx (dot118021XGrpKey sec) (unat (pa_key_index at))))
      else Some (Some uncst))"

definition dec_recvframe :: "(bytes \<Rightarrow> u32 \<Rightarrow> (ret \<times> bytes) option) \<Rightarrow> recv_frame \<Rightarrow> (ret \<times> recv_frame) option" where
  "dec_recvframe dec f =
     map_option (\<lambda>(r, b). (r, f\<lparr>rx_mem := take (nat (rx_data f)) (rx_mem f) @ b\<rparr>))
       (dec (drop (nat (rx_data f)) (rx_mem f)) (fr_len f))"

definition rtw_aes_decrypt :: "u8 \<Rightarrow> bool \<Rightarrow> bool \<Rightarrow> security_priv \<Rightarrow> bytes option \<Rightarrow> recv_frame \<Rightarrow> (ret \<times> recv_frame) option" where
  "rtw_aes_decrypt amsdu_mode m1 m2 sec sta f =
     (let at = fr_attrib f in
      if pa_encrypt at = AES \<or> pa_encrypt at = CCMP_256 then
        (case sta of
           None \<Rightarrow> Some (RET_FAIL, f)
         | Some uncst \<Rightarrow>
            (case rx_key sec uncst at of
               None \<Rightarrow> None
             | Some None \<Rightarrow> Some (RET_FAIL, f)
             | Some (Some prwskey) \<Rightarrow>
                 dec_recvframe (rtw_ccmp_decrypt_frame amsdu_mode m1 m2 prwskey (if pa_encrypt at = CCMP_256 then 32 else 16)
                    (unat (pa_hdrlen at))) f))
      else Some (RET_SUCCESS, f))"

definition rtw_gcmp_decrypt :: "u8 \<Rightarrow> bool \<Rightarrow> bool \<Rightarrow> security_priv \<Rightarrow> bytes option \<Rightarrow> recv_frame \<Rightarrow> (ret \<times> recv_frame) option" where
  "rtw_gcmp_decrypt amsdu_mode m1 m2 sec sta f =
     (let at = fr_attrib f in
      if pa_encrypt at = GCMP \<or> pa_encrypt at = GCMP_256 then
        (case sta of
           None \<Rightarrow> Some (RET_FAIL, f)
         | Some uncst \<Rightarrow>
            (case rx_key sec uncst at of
               None \<Rightarrow> None
             | Some None \<Rightarrow> Some (RET_FAIL, f)
             | Some (Some prwskey) \<Rightarrow>
                 dec_recvframe (rtw_gcmp_decrypt_frame amsdu_mode m1 m2 prwskey (if pa_encrypt at = GCMP_256 then 32 else 16)
                    (unat (pa_hdrlen at))) f))
      else Some (RET_SUCCESS, f))"

section \<open>Sealed frames\<close>

text \<open>What a frame format does with a mode of authenticated encryption.\<close>

definition seal_frame :: "(bytes \<Rightarrow> bytes \<Rightarrow> bytes \<Rightarrow> bytes \<Rightarrow> (bytes \<times> bytes) option) \<Rightarrow> (bytes \<Rightarrow> bytes \<Rightarrow> bytes \<times> bytes) \<Rightarrow>
    bytes \<Rightarrow> bytes \<Rightarrow> bytes \<Rightarrow> bytes \<Rightarrow> bytes option" where
  "seal_frame ae aad_nonce tk hdr pn plain =
     (case ae tk (snd (aad_nonce hdr pn)) plain (fst (aad_nonce hdr pn)) of
        None \<Rightarrow> None
      | Some (crypt, tag) \<Rightarrow> Some (pn @ crypt @ tag))"

definition open_frame :: "(bytes \<Rightarrow> bytes \<Rightarrow> bytes \<Rightarrow> bytes \<Rightarrow> bytes \<Rightarrow> bytes option) \<Rightarrow> (bytes \<Rightarrow> bytes \<Rightarrow> bytes \<times> bytes) \<Rightarrow>
    nat \<Rightarrow> bytes \<Rightarrow> bytes \<Rightarrow> bytes \<Rightarrow> bytes option" where
  "open_frame ad aad_nonce mic tk hdr data =
     (if length data < 8 + mic then None
      else ad tk (snd (aad_nonce hdr data)) (take (length data - 8 - mic) (drop 8 data)) (fst (aad_nonce hdr data))
             (drop (length data - mic) data))"

section \<open>Opening inverts sealing\<close>

context aead
begin

lemma open_iff_seal:
  assumes "\<And>d. 8 \<le> length d \<Longrightarrow> aad_nonce hdr (take 8 d) = aad_nonce hdr d"
  shows "open_frame ad aad_nonce tag_len tk hdr data = Some plain \<longleftrightarrow>
    8 \<le> length data \<and> seal_frame ae aad_nonce tk hdr (take 8 data) plain = Some data"
proof (cases "length data < 8 + tag_len")
  case True
  have "take 8 data @ c @ t \<noteq> data" if "8 \<le> length data" "length t = tag_len" for c t
  proof
    assume "take 8 data @ c @ t = data"
    then have "length (take 8 data @ c @ t) = length data" by simp
    then show False using that True by simp
  qed
  then show ?thesis using True ae_length by (fastforce simp: open_frame_def seal_frame_def split: option.splits)
next
  case False
  let ?c = "take (length data - 8 - tag_len) (drop 8 data)" and ?t = "drop (length data - tag_len) data"
  have t: "length ?t = tag_len" using False by simp
  have split: "take 8 data @ c @ t = data \<longleftrightarrow> c = ?c \<and> t = ?t" if "length t = tag_len" for c t
  proof
    assume "take 8 data @ c @ t = data"
    then have "drop 8 data = c @ t" by (metis append_eq_conv_conj append_take_drop_id same_append_eq)
    moreover have "?t = drop (length data - 8 - tag_len) (drop 8 data)" using False by simp
    moreover have "length (drop 8 data) = length data - 8" by simp
    ultimately show "c = ?c \<and> t = ?t" using that False by (simp add: append_eq_conv_conj)
  next
    assume "c = ?c \<and> t = ?t"
    moreover have "?t = drop (length data - 8 - tag_len) (drop 8 data)" using False by simp
    ultimately show "take 8 data @ c @ t = data" by (metis append_take_drop_id)
  qed
  have "open_frame ad aad_nonce tag_len tk hdr data = Some plain \<longleftrightarrow>
      ae tk (snd (aad_nonce hdr data)) plain (fst (aad_nonce hdr data)) = Some (?c, ?t)"
    using False ad_iff [OF t] by (simp add: open_frame_def)
  also have "\<dots> \<longleftrightarrow> seal_frame ae aad_nonce tk hdr (take 8 data) plain = Some data"
    using split ae_length assms [of data] False by (auto simp: seal_frame_def split: option.splits)
  finally show ?thesis using False by simp
qed

end


lemma nonce_prefix:
  assumes "8 \<le> length d"
  shows "ccmp_aad_nonce am hdr (take 8 d) = ccmp_aad_nonce am hdr d" "gcmp_aad_nonce am hdr (take 8 d) = gcmp_aad_nonce am hdr d"
  using assms by (simp_all add: ccmp_aad_nonce_def gcmp_aad_nonce_def pn_bytes_def)

lemma decrypt_open:
  "ccmp_decrypt am m1 m2 tk hdr data = (if m1 then open_frame (\<lambda>k n c a t. aes_ccm_ad m2 k 16 n 8 c a t) (ccmp_aad_nonce am) 8 tk hdr data else None)"
  "ccmp_256_decrypt am m1 m2 tk hdr data = (if m1 then open_frame (\<lambda>k n c a t. aes_ccm_ad m2 k 32 n 16 c a t) (ccmp_aad_nonce am) 16 tk hdr data else None)"
  "gcmp_decrypt am m1 m2 tk kl hdr data = (if m1 then open_frame (\<lambda>k n c a t. aes_gcm_ad m2 k kl n c a t) (gcmp_aad_nonce am) 16 tk hdr data else None)"
  by (auto simp: ccmp_decrypt_def ccmp_256_decrypt_def gcmp_decrypt_def open_frame_def Let_def split_beta)

lemma decrypt_iff_seal:
  "ccmp_decrypt am m1 m2 tk hdr data = Some plain \<longleftrightarrow> m1 \<and> 8 \<le> length data
     \<and> seal_frame (\<lambda>k n p a. aes_ccm_ae m2 k 16 n 8 p a) (ccmp_aad_nonce am) tk hdr (take 8 data) plain = Some data"
  "ccmp_256_decrypt am m1 m2 tk hdr data = Some plain \<longleftrightarrow> m1 \<and> 8 \<le> length data
     \<and> seal_frame (\<lambda>k n p a. aes_ccm_ae m2 k 32 n 16 p a) (ccmp_aad_nonce am) tk hdr (take 8 data) plain = Some data"
  "gcmp_decrypt am m1 m2 tk kl hdr data = Some plain \<longleftrightarrow> m1 \<and> 8 \<le> length data
     \<and> seal_frame (\<lambda>k n p a. aes_gcm_ae m2 k kl n p a) (gcmp_aad_nonce am) tk hdr (take 8 data) plain = Some data"
  by (simp_all add: decrypt_open ccm.open_iff_seal gcm.open_iff_seal nonce_prefix)

text \<open>The associated data and nonce are read from the first 32 bytes of the frame and the first 8 of the payload.\<close>

lemma aad_prefix:
  assumes "32 \<le> length h"
  shows "ccmp_aad_nonce am (take 32 h) d = ccmp_aad_nonce am h d" "gcmp_aad_nonce am (take 32 h) d = gcmp_aad_nonce am h d"
proof -
  have n: "take 32 h ! i = h ! i" if "i < 32" for i using that by simp
  have "hdr_fc (take 32 h) = hdr_fc h" "hdr_seq (take 32 h) = hdr_seq h" by (simp_all add: hdr_fc_def hdr_seq_def)
  moreover have "aad_tail am (take 32 h) = aad_tail am h"
    by (simp add: aad_tail_def Let_def hdr_fc_def drop_take)
  moreover have "take 18 (drop 4 (take 32 h)) = take 18 (drop 4 h)" "take 6 (drop 10 (take 32 h)) = take 6 (drop 10 h)"
    by (simp_all add: drop_take)
  ultimately show "ccmp_aad_nonce am (take 32 h) d = ccmp_aad_nonce am h d" "gcmp_aad_nonce am (take 32 h) d = gcmp_aad_nonce am h d"
    by (simp_all add: ccmp_aad_nonce_def gcmp_aad_nonce_def Let_def)
qed

lemma seal_length:
  assumes "seal_frame (\<lambda>k n p a. aes_ccm_ae m k kl n M p a) an tk hdr pn plain = Some d"
  shows "length d = length pn + length plain + M"
  using assms by (auto simp: seal_frame_def dest!: aes_ccm_ae_length split: option.splits)

text \<open>A frame that was sealed is opened in place: the payload is the plain text, the tag stays behind it.\<close>

lemma dec_place_sealed:
  assumes dec: "\<And>h d p. dec h d = Some p \<longleftrightarrow> 8 \<le> length d \<and> seal_frame ae an tk h (take 8 d) p = Some d"
    and an: "\<And>h d. 32 \<le> length h \<Longrightarrow> an (take 32 h) d = an h d"
    and seal: "seal_frame ae an tk (hdr @ pn) pn plain = Some d" "length pn = 8" "length d = 8 + length plain + mic"
    and len: "24 \<le> length hdr" "length hdr + length d < 2 ^ 32"
  shows "dec_place dec True mic (length hdr) (hdr @ d @ rest) (of_nat (length hdr + length d))
     = Some (RET_SUCCESS, hdr @ pn @ plain @ drop (8 + length plain) d @ rest)"
proof -
  have u: "unat (of_nat (length hdr + length d) - of_nat (length hdr) :: u32) = length d"
    using len(2) by (simp add: unat_of_nat)
  have pn: "take 8 d = pn" using seal(1,2) by (auto simp: seal_frame_def split: option.splits)
  have "take 32 (hdr @ d @ rest) = take 32 (hdr @ pn)"
  proof -
    have "take (32 - length hdr) d = take (32 - length hdr) (take 8 d)" using len(1) by (simp add: min_absorb1)
    then show ?thesis using seal(3) len(1) by (simp add: pn)
  qed
  then have "an (hdr @ d @ rest) pn = an (hdr @ pn) pn"
    using an [of "hdr @ d @ rest" pn] an [of "hdr @ pn" pn] seal(2,3) len(1) by simp
  then have "seal_frame ae an tk (hdr @ d @ rest) pn plain = Some d" using seal(1) by (simp add: seal_frame_def)
  then have "dec (hdr @ d @ rest) d = Some plain" using dec seal(3) pn by simp
  moreover have "drop (8 + length plain) (d @ rest) = drop (8 + length plain) d @ rest" using seal(3) by simp
  ultimately show ?thesis using pn seal(3) unfolding dec_place_def Let_def u by simp
qed

section \<open>Round trip\<close>

lemma set_iswep_append: "2 \<le> length hdr \<Longrightarrow> set_iswep (hdr @ r) = set_iswep hdr @ r" "length (set_iswep hdr) = length hdr"
  by (simp_all add: set_iswep_def nth_append list_update_append)

lemma encrypt_seal:
  fixes hdr pn plain rest :: bytes
  assumes "24 \<le> length hdr" "length pn = 8"
  defines "frame \<equiv> hdr @ pn @ plain @ rest" and "len \<equiv> length hdr + length plain"
  shows "ccmp_encrypt am True m tk frame len (length hdr) None 0 =
      map_option ((@) (set_iswep hdr)) (seal_frame (\<lambda>k n p a. aes_ccm_ae m k 16 n 8 p a) (ccmp_aad_nonce am) tk (set_iswep hdr @ pn) pn plain)"
    "ccmp_256_encrypt am True m tk frame len (length hdr) None 0 =
      map_option ((@) (set_iswep hdr)) (seal_frame (\<lambda>k n p a. aes_ccm_ae m k 32 n 16 p a) (ccmp_aad_nonce am) tk (set_iswep hdr @ pn) pn plain)"
    "gcmp_encrypt am True m tk kl frame len (length hdr) None 0 =
      map_option ((@) hdr) (seal_frame (\<lambda>k n p a. aes_gcm_ae m k kl n p a) (gcmp_aad_nonce am) tk (hdr @ pn) pn plain)"
proof -
  have h: "frame_head frame (length hdr) (len - length hdr) None 0 = (hdr @ pn, plain)"
    using assms(2) by (simp add: frame_head_def frame_def len_def)
  have i: "set_iswep (hdr @ pn) = set_iswep hdr @ pn" "drop (length hdr) (set_iswep hdr @ pn) = pn"
    using assms(1) by (simp_all add: set_iswep_append)
  have "\<not> (len < length hdr \<or> length hdr < 24)" using assms(1) by (simp add: len_def)
  then show "ccmp_encrypt am True m tk frame len (length hdr) None 0 =
      map_option ((@) (set_iswep hdr)) (seal_frame (\<lambda>k n p a. aes_ccm_ae m k 16 n 8 p a) (ccmp_aad_nonce am) tk (set_iswep hdr @ pn) pn plain)"
    "ccmp_256_encrypt am True m tk frame len (length hdr) None 0 =
      map_option ((@) (set_iswep hdr)) (seal_frame (\<lambda>k n p a. aes_ccm_ae m k 32 n 16 p a) (ccmp_aad_nonce am) tk (set_iswep hdr @ pn) pn plain)"
    "gcmp_encrypt am True m tk kl frame len (length hdr) None 0 =
      map_option ((@) hdr) (seal_frame (\<lambda>k n p a. aes_gcm_ae m k kl n p a) (gcmp_aad_nonce am) tk (hdr @ pn) pn plain)"
    by (auto simp: ccmp_encrypt_def ccmp_256_encrypt_def gcmp_encrypt_def h i set_iswep_append(2) Let_def split_beta seal_frame_def split: option.split)
qed

lemma aad_length: "length (fst (ccmp_aad_nonce am h d)) \<le> 30"
  by (auto simp: ccmp_aad_nonce_def aad_tail_def Let_def put_le16_def min_def)

lemma ccm_seal_Some:
  assumes "kl \<in> {16, 32}" "M \<le> 16"
  obtains d where "seal_frame (\<lambda>k n p a. aes_ccm_ae True k kl n M p a) (ccmp_aad_nonce am) tk h pn plain = Some d"
proof -
  have "aes_encrypt_init True tk kl \<noteq> None" using assms(1) by (auto simp: aes_encrypt_init_None)
  then show thesis
    using that aad_length [of am h pn] assms(2)
    by (auto simp: seal_frame_def aes_ccm_ae_def Let_def split: option.splits prod.splits)
qed

lemma enc_place_seal:
  assumes "enc (length hdr + length plain) = map_option ((@) hdr') (Some d)" "length hdr' = length hdr" "length d = 8 + length plain + mic"
    and "length pn = 8" "mic \<le> length rest" "length hdr + length plain < 2 ^ 32"
  shows "enc_place enc True mic (length hdr) (of_nat (length plain)) (hdr @ pn @ plain @ rest) = Some (RET_SUCCESS, hdr' @ d @ drop mic rest)"
proof -
  have u: "unat (of_nat (length hdr) + of_nat (length plain) :: u32) = length hdr + length plain"
    using assms(6) by (simp add: unat_of_nat flip: of_nat_add)
  show ?thesis using assms(1-5) unfolding enc_place_def Let_def u by simp
qed

text \<open>Key length, tag length and their use by the wrappers.\<close>

definition ccmp_mic :: "nat \<Rightarrow> nat" where
  "ccmp_mic key_len = (if key_len = 32 then 16 else 8)"

lemma ccmp_frame_roundtrip:
  assumes "kl \<in> {16, 32}" "24 \<le> length hdr" "length pn = 8" "ccmp_mic kl \<le> length rest"
    and "length hdr + 8 + length plain + ccmp_mic kl < 2 ^ 32"
  obtains d where "rtw_ccmp_encrypt_frame am True True tk kl (length hdr) (hdr @ pn @ plain @ rest) (of_nat (length plain))
      = Some (RET_SUCCESS, set_iswep hdr @ d @ drop (ccmp_mic kl) rest)"
    "length d = 8 + length plain + ccmp_mic kl"
    "\<And>rest'. rtw_ccmp_decrypt_frame am True True tk kl (length hdr) (set_iswep hdr @ d @ rest') (of_nat (length hdr + length d))
      = Some (RET_SUCCESS, set_iswep hdr @ pn @ plain @ drop (8 + length plain) d @ rest')"
proof -
  let ?ae = "\<lambda>k n p a. aes_ccm_ae True k kl n (ccmp_mic kl) p a" and ?h = "set_iswep hdr"
  have m: "ccmp_mic kl \<le> 16" by (simp add: ccmp_mic_def)
  obtain d where d: "seal_frame ?ae (ccmp_aad_nonce am) tk (?h @ pn) pn plain = Some d"
    using ccm_seal_Some [OF assms(1) m] .
  have l: "length d = 8 + length plain + ccmp_mic kl" using seal_length [OF d] assms(3) by simp
  have lh: "length ?h = length hdr" by (simp add: set_iswep_append)
  have b: "length hdr + length plain < 2 ^ 32" "24 \<le> length ?h" "length ?h + length d < 2 ^ 32" using assms(2,5) lh l by simp_all
  have "rtw_ccmp_encrypt_frame am True True tk kl (length hdr) (hdr @ pn @ plain @ rest) (of_nat (length plain))
      = Some (RET_SUCCESS, ?h @ d @ drop (ccmp_mic kl) rest)"
    using assms(1) encrypt_seal [OF assms(2,3), where am = am and m = True and tk = tk and plain = plain and rest = rest] d
      enc_place_seal [OF _ lh l assms(3,4) b(1)]
    by (auto simp: rtw_ccmp_encrypt_frame_def ccmp_mic_def)
  moreover have "rtw_ccmp_decrypt_frame am True True tk kl (length hdr) (?h @ d @ rest') (of_nat (length hdr + length d))
      = Some (RET_SUCCESS, ?h @ pn @ plain @ drop (8 + length plain) d @ rest')" for rest'
    using assms(1) decrypt_iff_seal aad_prefix d l
      dec_place_sealed [OF _ _ d assms(3) l b(2,3), of "ccmp_decrypt am True True tk" rest']
      dec_place_sealed [OF _ _ d assms(3) l b(2,3), of "ccmp_256_decrypt am True True tk" rest']
    by (auto simp: rtw_ccmp_decrypt_frame_def ccmp_mic_def lh)
  ultimately show thesis using that l by blast
qed

lemma aes_frag_length:
  assumes "unat (at_hdrlen pa) = h" "at_iv_len pa = 8" "unat (at_icv_len pa) = m" "unat (at_last_txcmdsz pa) = h + 8 + n + m"
  shows "frag_length pa (at_last_txcmdsz pa) = of_nat n"
proof -
  have "at_last_txcmdsz pa = of_nat (h + 8 + n + m)" using assms(4) by (rule unat_eq_word)
  moreover have "(ucast (at_hdrlen pa) :: u32) = of_nat h" "(ucast (at_icv_len pa) :: u32) = of_nat m"
    using assms(1,3) by (auto intro!: unat_eq_word simp: unsigned_ucast_eq take_bit_eq_mod)
  ultimately show ?thesis by (simp add: frag_length_def assms(2))
qed

lemma dec_recvframe_payload:
  assumes "frame_wf f" "frame_payload f = p" "\<And>rest. dec (p @ rest) (of_nat (length p)) = Some (RET_SUCCESS, q @ rest)" "length q = length p"
  obtains g where "dec_recvframe dec f = Some (RET_SUCCESS, g)" "frame_payload g = q" "frame_wf g"
proof -
  let ?m = "drop (nat (rx_data f)) (rx_mem f)"
  have wf: "0 \<le> rx_data f" "rx_data f \<le> rx_tail f" "rx_tail f \<le> int (length (rx_mem f))" using assms(1) by (simp_all add: frame_wf_def)
  have split: "?m = p @ drop (length p) ?m"
    using assms(2) by (metis append_take_drop_id frame_payload_def length_take min.cobounded1 append_eq_conv_conj)
  have len: "fr_len f = of_nat (length p)" using frame_wf_len [OF assms(1)] assms(2) by (auto intro: unat_eq_word)
  let ?g = "f\<lparr>rx_mem := take (nat (rx_data f)) (rx_mem f) @ q @ drop (length p) ?m\<rparr>"
  have d: "dec_recvframe dec f = Some (RET_SUCCESS, ?g)"
    using assms(3) [of "drop (length p) ?m", folded split] by (simp add: dec_recvframe_def len)
  have lm: "length (take (nat (rx_data f)) (rx_mem f)) = nat (rx_data f)" using wf by simp
  have lp: "length p = nat (rx_tail f - rx_data f)" using frame_payload_length [OF assms(1)] assms(2) wf by simp
  have total: "length (rx_mem ?g) = length (rx_mem f)"
    proof -
    have "length p \<le> length ?m" using lp wf by simp
    then show ?thesis using assms(4) lm wf by simp
  qed
  have "frame_payload ?g = q" using lm lp assms(4) by (simp add: frame_payload_def)
  moreover have "frame_wf ?g" using assms(1) total by (simp add: frame_wf_def)
  ultimately show thesis using that [OF d] by blast
qed

text \<open>
  C36. CCMP and CCMP-256 end to end: a one-fragment unicast data frame that \<^verbatim>\<open>rtw_aes_encrypt\<close> seals in
  place, received as it was sent and given to \<^verbatim>\<open>rtw_aes_decrypt\<close> with the same pairwise key, is accepted,
  and the receiver has the header (with the protected bit set), the packet number, the plain text and
  behind it the tag, in place.
\<close>

theorem ccmp_roundtrip:
  assumes tx: "at_encrypt pa \<in> {AES, CCMP_256}" "at_nr_frags pa = 1" "\<not> IS_MCAST (at_ra pa)" "at_iv_len pa = 8"
    and mic: "mic = (if at_encrypt pa = CCMP_256 then 16 else 8)" "unat (at_icv_len pa) = mic"
    and hdr: "unat (at_hdrlen pa) = length hdr" "24 \<le> length hdr" "length pn = 8"
      "unat (at_last_txcmdsz pa) = length hdr + 8 + length plain + mic"
    and buf: "length pre = hw_hdr_offset pkt_offset" "length room = mic"
    and rx: "\<And>sent. frame_wf (f sent)" "\<And>sent. pa_encrypt (fr_attrib (f sent)) = at_encrypt pa"
      "\<And>sent. unat (pa_hdrlen (fr_attrib (f sent))) = length hdr" "\<And>sent. \<not> IS_MCAST (pa_ra (fr_attrib (f sent)))"
      "\<And>sent. length sent = unat (at_last_txcmdsz pa) \<Longrightarrow> frame_payload (f sent) = sent"
  shows "\<exists>buf' g tag. rtw_aes_encrypt am True True sec pa frag_len base pkt_offset (Some (pre @ hdr @ pn @ plain @ room @ rest))
        = Some (RET_SUCCESS, Some buf')
     \<and> rtw_aes_decrypt am True True sec' (Some (at_UncstKey pa)) (f (air_frame (hw_hdr_offset pkt_offset) pa buf')) = Some (RET_SUCCESS, g)
     \<and> frame_payload g = set_iswep hdr @ pn @ plain @ tag \<and> length tag = mic"
proof -
  define kl where "kl = (if at_encrypt pa = CCMP_256 then 32 else 16 :: nat)"
  have kl: "kl \<in> {16, 32}" "ccmp_mic kl = mic" by (simp_all add: kl_def ccmp_mic_def mic)
  have big: "length hdr + 8 + length plain + ccmp_mic kl < 2 ^ 32"
    using hdr(4) unsigned_less [where w = "at_last_txcmdsz pa" and ?'a = nat] kl(2) by simp
  obtain d where d: "rtw_ccmp_encrypt_frame am True True (at_UncstKey pa) kl (length hdr) (hdr @ pn @ plain @ room @ rest) (of_nat (length plain))
      = Some (RET_SUCCESS, set_iswep hdr @ d @ rest)"
    "length d = 8 + length plain + mic"
    "\<And>rest'. rtw_ccmp_decrypt_frame am True True (at_UncstKey pa) kl (length hdr) (set_iswep hdr @ d @ rest') (of_nat (length hdr + length d))
      = Some (RET_SUCCESS, set_iswep hdr @ pn @ plain @ drop (8 + length plain) d @ rest')"
    using ccmp_frame_roundtrip [OF kl(1) hdr(2,3) _ big, of "room @ rest" am "at_UncstKey pa"] buf(2) unfolding kl(2) by auto
  let ?buf' = "pre @ set_iswep hdr @ d @ rest"
  have e: "rtw_aes_encrypt am True True sec pa frag_len base pkt_offset (Some (pre @ hdr @ pn @ plain @ room @ rest)) = Some (RET_SUCCESS, Some ?buf')"
    using d(1) tx(1-3) hdr(1) buf(1) aes_frag_length [OF hdr(1) tx(4) mic(2) hdr(4)]
    by (auto simp: rtw_aes_encrypt_def tx_key_def enc_frag_def kl_def)
  have lh: "length (set_iswep hdr) = length hdr" by (simp add: set_iswep_append)
  let ?sent = "air_frame (hw_hdr_offset pkt_offset) pa ?buf'"
  have sent: "?sent = set_iswep hdr @ d"
    using buf(1) hdr(4) d(2) by (simp add: air_frame_def lh)
  have air: "frame_payload (f ?sent) = set_iswep hdr @ d"
    using rx(5) [of ?sent] sent hdr(4) d(2) lh by simp
  obtain g where g: "dec_recvframe (rtw_ccmp_decrypt_frame am True True (at_UncstKey pa) kl (length hdr)) (f ?sent) = Some (RET_SUCCESS, g)"
     "frame_payload g = set_iswep hdr @ pn @ plain @ drop (8 + length plain) d"
    using dec_recvframe_payload [OF rx(1) air, of "rtw_ccmp_decrypt_frame am True True (at_UncstKey pa) kl (length hdr)"
        "set_iswep hdr @ pn @ plain @ drop (8 + length plain) d"] d(2,3) hdr(3)
    by (simp add: lh) metis
  have "rtw_aes_decrypt am True True sec' (Some (at_UncstKey pa)) (f ?sent) = Some (RET_SUCCESS, g)"
    using g(1) tx(1) rx(2-4) by (auto simp: rtw_aes_decrypt_def rx_key_def kl_def Let_def)
  then show ?thesis using e g(2) d(2) by (metis add_diff_cancel_left' length_drop)
qed

definition sample_ccmp_attrib :: pkt_attrib where
  "sample_ccmp_attrib = sample_tkip_attrib\<lparr>at_encrypt := AES, at_icv_len := 8, at_last_txcmdsz := 42\<rparr>"

definition sample_ccmp_frame :: "bytes \<Rightarrow> recv_frame" where
  "sample_ccmp_frame mem = (sample_tkip_frame (take 42 (mem @ replicate 42 0)))
     \<lparr>fr_attrib := sample_attrib\<lparr>pa_encrypt := AES, pa_hdrlen := 24, pa_ra := replicate 6 2\<rparr>, fr_len := 42, rx_tail := 42\<rparr>"

theorem ccmp_roundtrip_witness:
  "\<exists>buf' g tag. rtw_aes_encrypt 0 True True sample_sec sample_ccmp_attrib 2000 0 0 (Some (replicate 40 0 @ replicate 24 3 @ replicate 8 1 @ [1, 2] @ replicate 8 0))
       = Some (RET_SUCCESS, Some buf')
    \<and> rtw_aes_decrypt 0 True True sample_sec (Some (replicate 32 7)) (sample_ccmp_frame (air_frame 40 sample_ccmp_attrib buf')) = Some (RET_SUCCESS, g)
    \<and> frame_payload g = [3, 67] @ replicate 22 3 @ replicate 8 1 @ [1, 2] @ tag \<and> length tag = 8"
proof -
  have o40: "hw_hdr_offset 0 = 40" by (simp add: hw_hdr_offset_def)
  have mc: "\<not> IS_MCAST (replicate 6 2)" by (simp add: IS_MCAST_def numeral_eq_Suc)
  have "set_iswep (replicate 24 3) = [3, 67] @ replicate 22 3" by (simp add: set_iswep_def WLAN_FC_ISWEP_def numeral_eq_Suc)
  moreover have "\<exists>buf' g tag. rtw_aes_encrypt 0 True True sample_sec sample_ccmp_attrib 2000 0 0
        (Some (replicate 40 0 @ replicate 24 3 @ replicate 8 1 @ [1, 2] @ replicate 8 0 @ [])) = Some (RET_SUCCESS, Some buf')
    \<and> rtw_aes_decrypt 0 True True sample_sec (Some (at_UncstKey sample_ccmp_attrib)) (sample_ccmp_frame (air_frame (hw_hdr_offset 0) sample_ccmp_attrib buf')) = Some (RET_SUCCESS, g)
    \<and> frame_payload g = set_iswep (replicate 24 3) @ replicate 8 1 @ [1, 2] @ tag \<and> length tag = 8"
    by (rule ccmp_roundtrip)
       (auto simp: sample_ccmp_attrib_def sample_tkip_attrib_def sample_ccmp_frame_def sample_tkip_frame_def o40 frame_wf_def
          mc frame_payload_def AES_def CCMP_256_def)
  ultimately show ?thesis by (simp add: o40 sample_ccmp_attrib_def sample_tkip_attrib_def)
qed

text \<open>
  A failing allocation is not reported: with no output buffer the frame passes through in plain
  text and the result is success.
\<close>

lemma enc_frags_alloc_failure:
  assumes "\<And>b plen. enc b plen = Some (RET_FAIL, b)"
  shows "enc_frags enc pa frag_len base n pframe buf = Some buf"
  using assms by (induction n arbitrary: pframe) (simp_all add: enc_frag_def)

lemma rtw_aes_encrypt_alloc_failure:
  assumes "\<not> IS_MCAST (at_ra pa)"
  shows "rtw_aes_encrypt am False m2 sec pa frag_len base pkt_offset (Some buf) = Some (RET_SUCCESS, Some buf)"
    "rtw_gcmp_encrypt am False m2 sec pa frag_len base pkt_offset (Some buf) = Some (RET_SUCCESS, Some buf)"
proof -
  have c: "rtw_ccmp_encrypt_frame am False m2 key (if C then 32 else 16) h b plen = Some (RET_FAIL, b)"
    "rtw_gcmp_encrypt_frame am False m2 key kl h b plen = Some (RET_FAIL, b)" for C key kl h b plen
    by (simp_all add: Let_def rtw_ccmp_encrypt_frame_def rtw_gcmp_encrypt_frame_def enc_place_def ccmp_encrypt_def ccmp_256_encrypt_def gcmp_encrypt_def)
  show "rtw_aes_encrypt am False m2 sec pa frag_len base pkt_offset (Some buf) = Some (RET_SUCCESS, Some buf)"
    "rtw_gcmp_encrypt am False m2 sec pa frag_len base pkt_offset (Some buf) = Some (RET_SUCCESS, Some buf)"
    using assms c by (simp_all add: rtw_aes_encrypt_def rtw_gcmp_encrypt_def tx_key_def enc_frags_alloc_failure)
qed

end
