(* ===== verification/Ie_Search.thy ===== *)
theory Ie_Search
  imports Driver_Prelude
begin

unbundle bit_operations_syntax

text \<open>
  Information elements (\<^verbatim>\<open>core/rtw_ieee80211.c\<close>): writing an element, the searches over a series of
  elements, removal, and the attribute search of WPS. A buffer is the list of bytes from the pointer
  the function gets to the end of the object it points into; pointers into it are offsets. An outer
  \<open>None\<close> is an access outside the object, an inner one the null pointer. Offsets are far below the
  width of the code's counters and kept as natural numbers; the lengths of WPS attributes, whose
  16 bits do overflow, are words.
\<close>

section \<open>Writing\<close>

definition rtw_set_fixed_ie :: "bytes \<Rightarrow> nat \<Rightarrow> bytes \<Rightarrow> nat \<Rightarrow> (bytes \<times> nat \<times> nat) option" where
  "rtw_set_fixed_ie buf pbuf source frlen =
     (if pbuf + length source \<le> length buf
      then Some (take pbuf buf @ source @ drop (pbuf + length source) buf, pbuf + length source, frlen + length source)
      else None)"

text \<open>The new buffer, the position behind the element and the new frame length.\<close>

definition rtw_set_ie :: "bytes \<Rightarrow> nat \<Rightarrow> int \<Rightarrow> bytes \<Rightarrow> nat \<Rightarrow> (bytes \<times> nat \<times> nat) option" where
  "rtw_set_ie buf pbuf index source frlen =
     (let len = length source in
      if pbuf + len + 2 \<le> length buf
      then Some (take pbuf buf @ [word_of_int index, of_nat len] @ source @ drop (pbuf + len + 2) buf,
                 pbuf + len + 2, frlen + (len + 2))
      else None)"

definition WLAN_EID_CHANNEL_SWITCH :: int where "WLAN_EID_CHANNEL_SWITCH = 37"
definition WLAN_EID_SECONDARY_CHANNEL_OFFSET :: int where "WLAN_EID_SECONDARY_CHANNEL_OFFSET = 62"

definition rtw_set_ie_ch_switch :: "bytes \<Rightarrow> nat \<Rightarrow> nat \<Rightarrow> u8 \<Rightarrow> u8 \<Rightarrow> u8 \<Rightarrow> (bytes \<times> nat \<times> nat) option" where
  "rtw_set_ie_ch_switch buf p buf_len ch_switch_mode new_ch ch_switch_cnt =
     rtw_set_ie buf p WLAN_EID_CHANNEL_SWITCH [ch_switch_mode, new_ch, ch_switch_cnt] buf_len"

definition rtw_set_ie_secondary_ch_offset :: "bytes \<Rightarrow> nat \<Rightarrow> nat \<Rightarrow> u8 \<Rightarrow> (bytes \<times> nat \<times> nat) option" where
  "rtw_set_ie_secondary_ch_offset buf p buf_len secondary_ch_offset =
     rtw_set_ie buf p WLAN_EID_SECONDARY_CHANNEL_OFFSET [secondary_ch_offset] buf_len"

text \<open>The element number \<^verbatim>\<open>0x118\<close> of this one does not fit a byte and is cut to 0x18.\<close>

definition rtw_set_ie_mesh_ch_switch_parm :: "bytes \<Rightarrow> nat \<Rightarrow> nat \<Rightarrow> u8 \<Rightarrow> u8 \<Rightarrow> u16 \<Rightarrow> u16 \<Rightarrow> (bytes \<times> nat \<times> nat) option" where
  "rtw_set_ie_mesh_ch_switch_parm buf p buf_len ttl flags reason precedence =
     rtw_set_ie buf p 0x118 ([ttl, flags] @ put_le16 reason @ put_le16 precedence) buf_len"

section \<open>Searching\<close>

function get_ie_loop :: "bytes \<Rightarrow> int \<Rightarrow> int \<Rightarrow> nat \<Rightarrow> (nat \<times> nat) option option" where
  "get_ie_loop buf index limit i =
     (case (rd buf i, rd buf (i + 1)) of
        (Some p0, Some p1) \<Rightarrow>
          if uint p0 = index then Some (Some (i, unat p1))
          else if limit \<le> int (i + (unat p1 + 2)) then Some None
          else get_ie_loop buf index limit (i + (unat p1 + 2))
      | _ \<Rightarrow> None)"
  by pat_completeness auto
termination by (relation "measure (\<lambda>(buf, index, limit, i). length buf - i)") (auto simp: eq_commute [of "Some _"])

definition rtw_get_ie :: "bytes \<Rightarrow> int \<Rightarrow> int \<Rightarrow> (nat \<times> nat) option option" where
  "rtw_get_ie pbuf index limit = (if limit < 1 then Some None else get_ie_loop pbuf index limit 0)"

definition ex_match :: "bytes \<Rightarrow> u8 \<Rightarrow> bytes option \<Rightarrow> nat \<Rightarrow> bool option" where
  "ex_match in_ie eid oui cnt =
     (case rd in_ie cnt of
        None \<Rightarrow> None
      | Some e \<Rightarrow> if e = eid then (case oui of None \<Rightarrow> Some True | Some pat \<Rightarrow> memcmp_at in_ie (cnt + 2) pat) else Some False)"

function get_ie_ex_loop :: "bytes \<Rightarrow> nat \<Rightarrow> u8 \<Rightarrow> bytes option \<Rightarrow> nat \<Rightarrow> (nat \<times> nat) option option" where
  "get_ie_ex_loop in_ie in_len eid oui cnt =
     (if cnt < in_len then
        (case (ex_match in_ie eid oui cnt, rd in_ie (cnt + 1)) of
           (Some True, Some l) \<Rightarrow> Some (Some (cnt, unat l + 2))
         | (Some False, Some l) \<Rightarrow> get_ie_ex_loop in_ie in_len eid oui (cnt + (unat l + 2))
         | _ \<Rightarrow> None)
      else Some None)"
  by pat_completeness auto
termination by (relation "measure (\<lambda>(in_ie, in_len, eid, oui, cnt). in_len - cnt)") auto

text \<open>\<open>ie\<close> says whether the caller passes a buffer to copy the element to; the result has the copy.\<close>

definition rtw_get_ie_ex :: "bytes option \<Rightarrow> nat \<Rightarrow> u8 \<Rightarrow> bytes option \<Rightarrow> bool \<Rightarrow> (nat \<times> nat \<times> bytes) option option" where
  "rtw_get_ie_ex in_ie in_len eid oui ie =
     (case in_ie of
        None \<Rightarrow> Some None
      | Some buf \<Rightarrow>
         if in_len = 0 then Some None
         else case get_ie_ex_loop buf in_len eid oui 0 of
                None \<Rightarrow> None
              | Some None \<Rightarrow> Some None
              | Some (Some (cnt, ielen)) \<Rightarrow>
                  if \<not> ie then Some (Some (cnt, ielen, []))
                  else if cnt + ielen \<le> length buf then Some (Some (cnt, ielen, take ielen (drop cnt buf)))
                  else None)"

text \<open>
  Removal. When the last matching element is cut off by the end of the series the length of the
  rest is negative, that is huge, and the move leaves the object.
\<close>

function ies_remove_loop :: "bytes \<Rightarrow> u8 \<Rightarrow> bytes option \<Rightarrow> nat \<Rightarrow> nat \<Rightarrow> nat \<Rightarrow> ret \<Rightarrow> (ret \<times> bytes \<times> nat) option" where
  "ies_remove_loop ies eid oui start search_len ies_len ret =
     (case rtw_get_ie_ex (Some (drop start ies)) search_len eid oui False of
        None \<Rightarrow> None
      | Some None \<Rightarrow> Some (ret, ies, ies_len)
      | Some (Some (t, target_ielen, _)) \<Rightarrow>
          if target_ielen = 0 then Some (ret, ies, ies_len)
          else if search_len < t + target_ielen \<or> length ies < start + search_len then None
          else
            let target_ie = start + t; remain_ies = target_ie + target_ielen; remain_len = search_len - (t + target_ielen)
            in ies_remove_loop
                 (take target_ie ies @ take remain_len (drop remain_ies ies) @ drop (target_ie + remain_len) ies)
                 eid oui target_ie remain_len (ies_len - target_ielen) RET_SUCCESS)"
  by pat_completeness auto
termination
  by (relation "measure (\<lambda>(ies, eid, oui, start, search_len, ies_len, ret). search_len)") auto

definition rtw_ies_remove_ie :: "bytes option \<Rightarrow> nat \<Rightarrow> nat \<Rightarrow> u8 \<Rightarrow> bytes option \<Rightarrow> (ret \<times> bytes option \<times> nat) option" where
  "rtw_ies_remove_ie ies ies_len offset eid oui =
     (case ies of
        None \<Rightarrow> Some (RET_FAIL, None, ies_len)
      | Some buf \<Rightarrow>
         if ies_len \<le> offset then Some (RET_FAIL, ies, ies_len)
         else map_option (\<lambda>(r, b, n). (r, Some b, n))
                (ies_remove_loop buf eid oui offset (ies_len - offset) ies_len RET_FAIL))"

section \<open>Security elements\<close>

definition WPA_IE_ID :: u8 where "WPA_IE_ID = 0xdd"
definition WPA2_IE_ID :: u8 where "WPA2_IE_ID = 0x30"

text \<open>The loop of \<^verbatim>\<open>rtw_get_wpa_ie\<close>: \<open>p\<close> is the position of the search, \<open>limit_new\<close> what is left.\<close>

function wpa_ie_loop :: "bytes \<Rightarrow> int \<Rightarrow> int \<Rightarrow> nat \<Rightarrow> (nat \<times> nat) option option" where
  "wpa_ie_loop pie limit limit_new p =
     (case rtw_get_ie (drop p pie) (uint WPA_IE_ID) limit_new of
        None \<Rightarrow> None
      | Some None \<Rightarrow> Some None
      | Some (Some (t, len)) \<Rightarrow>
         (case memcmp_at pie (p + t + 2) [0x00, 0x50, 0xf2, 0x01] of
            None \<Rightarrow> None
          | Some oui \<Rightarrow>
             (case (if oui then map_option (\<lambda>v. v = 1) (get_le16 pie (p + t + 6)) else Some False) of
                None \<Rightarrow> None
              | Some True \<Rightarrow> Some (Some (p + t, len))
              | Some False \<Rightarrow>
                  let limit_new = limit - int (p + t) - 2 - int len in
                  if limit_new \<le> 0 then Some None
                  else wpa_ie_loop pie limit limit_new (p + t + (2 + len)))))"
  by pat_completeness auto
termination by (relation "measure (\<lambda>(pie, limit, limit_new, p). nat (limit - int p))") auto

definition rtw_get_wpa_ie :: "bytes \<Rightarrow> int \<Rightarrow> (nat \<times> nat) option option" where
  "rtw_get_wpa_ie pie limit = wpa_ie_loop pie limit limit 0"

definition rtw_get_wpa2_ie :: "bytes \<Rightarrow> int \<Rightarrow> (nat \<times> nat) option option" where
  "rtw_get_wpa2_ie pie limit = rtw_get_ie pie (uint WPA2_IE_ID) limit"

text \<open>
  \<^verbatim>\<open>rtw_get_sec_ie\<close>: the last RSN and the last WPA element behind the fixed part of a beacon, each with
  its copy (\<open>want_rsn\<close> and \<open>want_wpa\<close> say whether there is a buffer for it).
\<close>

definition copy_ie :: "bool \<Rightarrow> bytes \<Rightarrow> nat \<Rightarrow> nat \<Rightarrow> bytes option" where
  "copy_ie want buf cnt n =
     (if \<not> want then Some [] else if cnt + n \<le> length buf then Some (take n (drop cnt buf)) else None)"

function sec_ie_loop :: "bytes \<Rightarrow> nat \<Rightarrow> bool \<Rightarrow> bool \<Rightarrow> nat \<Rightarrow> bytes \<times> nat \<Rightarrow> bytes \<times> nat \<Rightarrow> ((bytes \<times> nat) \<times> (bytes \<times> nat)) option" where
  "sec_ie_loop in_ie in_len want_rsn want_wpa cnt rsn wpa =
     (if cnt < in_len then
        (case (rd in_ie cnt, rd in_ie (cnt + 1)) of
           (Some authmode, Some l) \<Rightarrow>
             let n = unat l + 2 in
             (case (if authmode = WPA_IE_ID then memcmp_at in_ie (cnt + 2) [0x00, 0x50, 0xf2, 0x01] else Some False) of
                None \<Rightarrow> None
              | Some True \<Rightarrow>
                 (case copy_ie want_wpa in_ie cnt n of
                    None \<Rightarrow> None
                  | Some c \<Rightarrow> sec_ie_loop in_ie in_len want_rsn want_wpa (cnt + n) rsn (c, n))
              | Some False \<Rightarrow>
                  if authmode = WPA2_IE_ID then
                   (case copy_ie want_rsn in_ie cnt n of
                      None \<Rightarrow> None
                    | Some c \<Rightarrow> sec_ie_loop in_ie in_len want_rsn want_wpa (cnt + n) (c, n) wpa)
                  else sec_ie_loop in_ie in_len want_rsn want_wpa (cnt + n) rsn wpa)
         | _ \<Rightarrow> None)
      else Some (rsn, wpa))"
  by pat_completeness auto
termination by (relation "measure (\<lambda>(in_ie, in_len, want_rsn, want_wpa, cnt, rsn, wpa). in_len - cnt)") auto

definition rtw_get_sec_ie :: "bytes \<Rightarrow> nat \<Rightarrow> bool \<Rightarrow> bool \<Rightarrow> nat \<Rightarrow> nat \<Rightarrow> (nat \<times> (bytes \<times> nat) \<times> (bytes \<times> nat)) option" where
  "rtw_get_sec_ie in_ie in_len want_rsn want_wpa rsn_len wpa_len =
     map_option (\<lambda>(rsn, wpa). (snd rsn + snd wpa, rsn, wpa))
       (sec_ie_loop in_ie in_len want_rsn want_wpa (8 + 2 + 2) ([], rsn_len) ([], wpa_len))"

section \<open>WPS and OWE\<close>

definition WLAN_EID_VENDOR_SPECIFIC :: u8 where "WLAN_EID_VENDOR_SPECIFIC = 221"
definition WLAN_EID_EXTENSION :: u8 where "WLAN_EID_EXTENSION = 255"
definition WLAN_EID_EXT_OWE_DH_PARAM :: u8 where "WLAN_EID_EXT_OWE_DH_PARAM = 32"
definition MAX_IE_SZ :: nat where "MAX_IE_SZ = 768"
definition WPS_OUI :: bytes where "WPS_OUI = [0x00, 0x50, 0xf2, 0x04]"

definition rtw_is_wps_ie :: "bytes option \<Rightarrow> nat option option" where
  "rtw_is_wps_ie ie_ptr =
     (case ie_ptr of
        None \<Rightarrow> Some None
      | Some ie \<Rightarrow>
         (case ex_match ie WPA_IE_ID (Some WPS_OUI) 0 of
            None \<Rightarrow> None
          | Some False \<Rightarrow> Some None
          | Some True \<Rightarrow> map_option (\<lambda>l. Some (unat l + 2)) (rd ie 1)))"

text \<open>The loop that \<^verbatim>\<open>rtw_get_wps_ie\<close> and \<^verbatim>\<open>rtw_get_owe_ie\<close> have, with the test for the element.\<close>

function typed_ie_loop :: "(nat \<Rightarrow> bool option) \<Rightarrow> bytes \<Rightarrow> nat \<Rightarrow> nat \<Rightarrow> (nat \<times> nat) option option" where
  "typed_ie_loop match in_ie in_len cnt =
     (if cnt + 1 + 4 < in_len then
        (if MAX_IE_SZ \<le> cnt + 1 + 4 then Some None
         else (case (match cnt, rd in_ie (cnt + 1)) of
                 (Some True, Some l) \<Rightarrow> Some (Some (cnt, unat l + 2))
               | (Some False, Some l) \<Rightarrow> typed_ie_loop match in_ie in_len (cnt + (unat l + 2))
               | _ \<Rightarrow> None))
      else Some None)"
  by pat_completeness auto
termination by (relation "measure (\<lambda>(match, in_ie, in_len, cnt). in_len - cnt)") auto

definition get_typed_ie :: "(bytes \<Rightarrow> nat \<Rightarrow> bool option) \<Rightarrow> bytes option \<Rightarrow> nat \<Rightarrow> bool \<Rightarrow> (nat \<times> nat \<times> bytes) option option" where
  "get_typed_ie match in_ie in_len copy =
     (case in_ie of
        None \<Rightarrow> Some None
      | Some buf \<Rightarrow>
         if in_len = 0 then Some None
         else case typed_ie_loop (match buf) buf in_len 0 of
                None \<Rightarrow> None
              | Some None \<Rightarrow> Some None
              | Some (Some (cnt, n)) \<Rightarrow> map_option (\<lambda>c. Some (cnt, n, c)) (copy_ie copy buf cnt n))"

definition rtw_get_wps_ie :: "bytes option \<Rightarrow> nat \<Rightarrow> bool \<Rightarrow> (nat \<times> nat \<times> bytes) option option" where
  "rtw_get_wps_ie = get_typed_ie (\<lambda>buf. ex_match buf WLAN_EID_VENDOR_SPECIFIC (Some WPS_OUI))"

definition rtw_get_owe_ie :: "bytes option \<Rightarrow> nat \<Rightarrow> bool \<Rightarrow> (nat \<times> nat \<times> bytes) option option" where
  "rtw_get_owe_ie = get_typed_ie (\<lambda>buf. ex_match buf WLAN_EID_EXTENSION (Some [WLAN_EID_EXT_OWE_DH_PARAM]))"

text \<open>
  The search for a WPS attribute. The length of an attribute is a 16-bit sum, so the position need
  not advance: the loop is a partial function, whose value is \<open>None\<close> where it does not return.
\<close>

datatype wps_res = WpsOutside | WpsNone | WpsAttr nat u16

partial_function (option) wps_attr_loop :: "bytes \<Rightarrow> nat \<Rightarrow> u16 \<Rightarrow> nat \<Rightarrow> wps_res option" where
  "wps_attr_loop wps_ie wps_ielen target_attr_id p =
     (if p < wps_ielen then
        (case get_be16 wps_ie p of
           None \<Rightarrow> Some WpsOutside
         | Some attr_id \<Rightarrow>
            (case get_be16 wps_ie (p + 2) of
               None \<Rightarrow> Some WpsOutside
             | Some attr_data_len \<Rightarrow>
                 (if attr_id = target_attr_id then Some (WpsAttr p (attr_data_len + 4))
                  else wps_attr_loop wps_ie wps_ielen target_attr_id (p + unat (attr_data_len + 4)))))
      else Some WpsNone)"

declare wps_attr_loop.simps [code]

definition rtw_get_wps_attr :: "bytes \<Rightarrow> nat \<Rightarrow> u16 \<Rightarrow> bool \<Rightarrow> (wps_res \<times> bytes) option" where
  "rtw_get_wps_attr wps_ie wps_ielen target_attr_id buf_attr =
     (case ex_match wps_ie WLAN_EID_VENDOR_SPECIFIC (Some WPS_OUI) 0 of
        None \<Rightarrow> Some (WpsOutside, [])
      | Some False \<Rightarrow> Some (WpsNone, [])
      | Some True \<Rightarrow>
         (case wps_attr_loop wps_ie wps_ielen target_attr_id 6 of
            None \<Rightarrow> None
          | Some (WpsAttr p attr_len) \<Rightarrow>
             (case copy_ie buf_attr wps_ie p (unat attr_len) of
                None \<Rightarrow> Some (WpsOutside, [])
              | Some c \<Rightarrow> Some (WpsAttr p attr_len, c))
          | Some r \<Rightarrow> Some (r, [])))"

text \<open>
  \<open>len_content\<close> is the value behind the pointer, \<open>buf_content\<close> whether there is a buffer. The
  result is the position of the content, the new length and the bytes copied.
\<close>

definition rtw_get_wps_attr_content :: "bytes \<Rightarrow> nat \<Rightarrow> u16 \<Rightarrow> bool \<Rightarrow> u32 option \<Rightarrow> (wps_res \<times> u32 option \<times> bytes) option" where
  "rtw_get_wps_attr_content wps_ie wps_ielen target_attr_id buf_content len_content =
     (case rtw_get_wps_attr wps_ie wps_ielen target_attr_id False of
        None \<Rightarrow> None
      | Some (WpsAttr p l, _) \<Rightarrow>
          let attr_len = (ucast l :: u32) in
          if attr_len = 0 then Some (WpsNone, map_option (\<lambda>_. 0) len_content, [])
          else
            let len' = map_option (\<lambda>n. if (buf_content \<and> n > attr_len - 4) \<or> \<not> buf_content then attr_len - 4 else n) len_content;
                n = (case len' of None \<Rightarrow> 1 | Some n \<Rightarrow> unat n)
            in (case copy_ie buf_content wps_ie (p + 4) n of
                  None \<Rightarrow> Some (WpsOutside, len', [])
                | Some c \<Rightarrow> Some (WpsAttr (p + 4) l, len', c))
      | Some (r, _) \<Rightarrow> Some (r, map_option (\<lambda>_. 0) len_content, []))"

section \<open>Series of elements\<close>

type_synonym element = "u8 \<times> bytes"

definition ie_bytes :: "element \<Rightarrow> bytes" where
  "ie_bytes e = fst e # of_nat (length (snd e)) # snd e"

definition ies_bytes :: "element list \<Rightarrow> bytes" where
  "ies_bytes es = concat (map ie_bytes es)"

definition ies_wf :: "element list \<Rightarrow> bool" where
  "ies_wf es \<longleftrightarrow> (\<forall>e\<in>set es. length (snd e) \<le> 255)"

text \<open>The position and length of the first element with a property.\<close>

primrec find_ie :: "(element \<Rightarrow> bool) \<Rightarrow> element list \<Rightarrow> (nat \<times> nat) option" where
  "find_ie P [] = None"
| "find_ie P (e # es) =
     (if P e then Some (0, length (snd e)) else map_option (apfst ((+) (length (ie_bytes e)))) (find_ie P es))"

lemma ies_bytes_simps [simp]:
  "ies_bytes [] = []" "ies_bytes (e # es) = ie_bytes e @ ies_bytes es" "ies_bytes (es @ fs) = ies_bytes es @ ies_bytes fs"
  by (simp_all add: ies_bytes_def)

lemma ie_bytes_length [simp]: "length (ie_bytes e) = length (snd e) + 2"
  by (simp add: ie_bytes_def)

lemma ies_bytes_Nil_iff [simp]: "ies_bytes es = [] \<longleftrightarrow> es = []"
  by (cases es) (simp_all add: ie_bytes_def)

lemma ies_wf_simps [simp]: "ies_wf []" "ies_wf (e # es) \<longleftrightarrow> length (snd e) \<le> 255 \<and> ies_wf es"
  by (simp_all add: ies_wf_def)

lemma rd_ie:
  assumes "length (snd e) \<le> 255"
  shows "rd (pre @ ie_bytes e @ r) (length pre) = Some (fst e)"
    "rd (pre @ ie_bytes e @ r) (length pre + 1) = Some (of_nat (length (snd e)))"
    "unat (of_nat (length (snd e)) :: u8) = length (snd e)"
  using assms by (simp_all add: ie_bytes_def nth_append unat_of_nat take_bit_nat_eq_self)

lemma find_ie_split:
  assumes "find_ie P es = Some (off, n)"
  obtains es1 e es2 where "es = es1 @ e # es2" "P e" "\<forall>x\<in>set es1. \<not> P x" "off = length (ies_bytes es1)" "n = length (snd e)"
  using assms
proof (induction es arbitrary: off thesis)
  case (Cons a es)
  show ?case
  proof (cases "P a")
    case True
    then show ?thesis using Cons.prems(1) [of "[]" a es] Cons.prems(2) by simp
  next
    case False
    then obtain off' where f: "find_ie P es = Some (off', n)" "off = length (ie_bytes a) + off'" using Cons.prems(2) by auto
    obtain es1 e es2 where e: "es = es1 @ e # es2" "P e" "\<forall>x\<in>set es1. \<not> P x" "off' = length (ies_bytes es1)" "n = length (snd e)"
      using Cons.IH [OF _ f(1)] by blast
    show ?thesis by (rule Cons.prems(1) [of "a # es1" e es2]) (use e f False in auto)
  qed
qed simp

lemma find_ie_None: "find_ie P es = None \<longleftrightarrow> (\<forall>x\<in>set es. \<not> P x)"
  by (induction es) auto

section \<open>The searches on a series\<close>

declare get_ie_loop.simps [simp del] get_ie_ex_loop.simps [simp del] ies_remove_loop.simps [simp del]

lemma get_ie_loop_series:
  assumes "ies_wf es" "es \<noteq> []"
  shows "get_ie_loop (pre @ ies_bytes es @ rest) index (int (length pre + length (ies_bytes es))) (length pre)
    = Some (map_option (apfst ((+) (length pre))) (find_ie (\<lambda>e. uint (fst e) = index) es))"
  using assms
proof (induction es arbitrary: pre)
  case (Cons e es)
  let ?buf = "pre @ ies_bytes (e # es) @ rest" and ?lim = "int (length pre + length (ies_bytes (e # es)))"
  note h = rd_ie(1,2) [of e pre "ies_bytes es @ rest"] rd_ie(3) [of e]
  show ?case
  proof (cases "uint (fst e) = index")
    case True
    then show ?thesis using Cons.prems h by (subst get_ie_loop.simps) (simp del: rd_Some_iff)
  next
    case no: False
    have step: "get_ie_loop ?buf index ?lim (length pre) =
        (if es = [] then Some None else get_ie_loop ?buf index ?lim (length (pre @ ie_bytes e)))"
      using Cons.prems h no by (subst get_ie_loop.simps) (auto simp: add_ac simp del: rd_Some_iff)
    show ?thesis
    proof (cases "es = []")
      case False
      have "get_ie_loop ?buf index ?lim (length (pre @ ie_bytes e))
          = Some (map_option (apfst ((+) (length (pre @ ie_bytes e)))) (find_ie (\<lambda>e. uint (fst e) = index) es))"
        using Cons.IH [of "pre @ ie_bytes e"] Cons.prems False
        by (cases "find_ie (\<lambda>e. uint (fst e) = index) es") (auto simp: add_ac)
      then show ?thesis using step no False
        by (cases "find_ie (\<lambda>e. uint (fst e) = index) es") (auto simp: add_ac)
    qed (use step no in simp)
  qed
qed simp

lemma rtw_get_ie_series:
  assumes "ies_wf es"
  shows "rtw_get_ie (ies_bytes es @ rest) index (int (length (ies_bytes es))) = Some (find_ie (\<lambda>e. uint (fst e) = index) es)"
proof (cases "es = []")
  case False
  then obtain e es' where "es = e # es'" by (cases es) auto
  then have "\<not> int (length (ies_bytes es)) < 1" by simp
  then show ?thesis using get_ie_loop_series [OF assms False, of "[]" rest index]
    by (simp add: rtw_get_ie_def option.map_id0 apfst_def map_prod_def)
qed (simp add: rtw_get_ie_def)

definition ie_matches :: "u8 \<Rightarrow> bytes option \<Rightarrow> element \<Rightarrow> bool" where
  "ie_matches eid oui e \<longleftrightarrow> fst e = eid \<and> (case oui of None \<Rightarrow> True | Some pat \<Rightarrow> take (length pat) (snd e) = pat)"

definition oui_fits :: "u8 \<Rightarrow> bytes option \<Rightarrow> element list \<Rightarrow> bool" where
  "oui_fits eid oui es \<longleftrightarrow> (\<forall>e\<in>set es. fst e = eid \<longrightarrow> (case oui of None \<Rightarrow> True | Some pat \<Rightarrow> length pat \<le> length (snd e)))"

lemma ex_match_ie:
  assumes "length (snd e) \<le> 255" "oui_fits eid oui [e]"
  shows "ex_match (pre @ ie_bytes e @ r) eid oui (length pre) = Some (ie_matches eid oui e)"
proof -
  have "memcmp_at (pre @ ie_bytes e @ r) (length pre + 2) pat = Some (take (length pat) (snd e) = pat)"
    if "length pat \<le> length (snd e)" for pat
    using that by (simp add: memcmp_at_def ie_bytes_def)
  then show ?thesis using assms rd_ie(1) [OF assms(1), of pre r]
    by (auto simp: ex_match_def ie_matches_def oui_fits_def split: option.splits)
qed

lemma get_ie_ex_loop_series:
  assumes "ies_wf es" "oui_fits eid oui es"
  shows "get_ie_ex_loop (pre @ ies_bytes es @ rest) (length pre + length (ies_bytes es)) eid oui (length pre)
    = Some (map_option (\<lambda>(off, n). (length pre + off, n + 2)) (find_ie (ie_matches eid oui) es))"
  using assms
proof (induction es arbitrary: pre)
  case (Cons e es)
  let ?buf = "pre @ ies_bytes (e # es) @ rest" and ?lim = "length pre + length (ies_bytes (e # es))"
  have w: "length (snd e) \<le> 255" "oui_fits eid oui [e]" "oui_fits eid oui es" "ies_wf es"
    using Cons.prems by (auto simp: oui_fits_def)
  note h = rd_ie(1,2) [OF w(1), of pre "ies_bytes es @ rest"] rd_ie(3) [OF w(1)] ex_match_ie [OF w(1,2), of pre "ies_bytes es @ rest"]
  have "get_ie_ex_loop ?buf ?lim eid oui (length (pre @ ie_bytes e))
      = Some (map_option (\<lambda>(off, n). (length (pre @ ie_bytes e) + off, n + 2)) (find_ie (ie_matches eid oui) es))"
    using Cons.IH [of "pre @ ie_bytes e"] w by (simp add: add_ac)
  then show ?case using h
    by (subst get_ie_ex_loop.simps) (auto simp: option.map_comp o_def split_beta add_ac simp del: rd_Some_iff intro!: option.map_cong0)
qed (simp add: get_ie_ex_loop.simps)

lemma get_ie_ex_series:
  assumes "ies_wf es" "oui_fits eid oui es"
  shows "rtw_get_ie_ex (Some (ies_bytes es @ rest)) (length (ies_bytes es)) eid oui False
    = Some (map_option (\<lambda>(off, n). (off, n + 2, [])) (find_ie (ie_matches eid oui) es))"
  using get_ie_ex_loop_series [OF assms, of "[]" rest]
  by (cases "find_ie (ie_matches eid oui) es") (auto simp: rtw_get_ie_ex_def split: prod.splits)

lemma get_ie_ex_copy:
  assumes "ies_wf es" "oui_fits eid oui es"
  shows "rtw_get_ie_ex (Some (ies_bytes es @ rest)) (length (ies_bytes es)) eid oui True
    = Some (case find (ie_matches eid oui) es of None \<Rightarrow> None
            | Some e \<Rightarrow> Some (fst (the (find_ie (ie_matches eid oui) es)), length (ie_bytes e), ie_bytes e))"
proof (cases "find_ie (ie_matches eid oui) es")
  case None
  then have "find (ie_matches eid oui) es = None" by (simp add: find_ie_None find_None_iff)
  then show ?thesis using get_ie_ex_loop_series [OF assms, of "[]" rest] None by (simp add: rtw_get_ie_ex_def)
next
  case (Some r)
  obtain off n where r: "r = (off, n)" by force
  obtain es1 e es2 where e: "es = es1 @ e # es2" "ie_matches eid oui e" "\<forall>x\<in>set es1. \<not> ie_matches eid oui x"
    "off = length (ies_bytes es1)" "n = length (snd e)" using find_ie_split Some r by metis
  have "find (ie_matches eid oui) (xs @ e # es2) = Some e" if "\<forall>x\<in>set xs. \<not> ie_matches eid oui x" for xs
    using that e(2) by (induction xs) auto
  then have "find (ie_matches eid oui) es = Some e" using e(1,3) by simp
  then show ?thesis using get_ie_ex_loop_series [OF assms, of "[]" rest] Some r e(1,4,5)
    by (auto simp: rtw_get_ie_ex_def)
qed

text \<open>
  One pass of the removal loop: the element found goes, what is behind it moves up.
\<close>

lemma ies_remove_loop_series:
  assumes "ies_wf es" "oui_fits eid oui es" "n = length pre + length (ies_bytes es)"
  shows "\<exists>tail'. ies_remove_loop (pre @ ies_bytes es @ tail) eid oui (length pre) (length (ies_bytes es)) n r
     = Some (if \<exists>e\<in>set es. ie_matches eid oui e then RET_SUCCESS else r,
             pre @ ies_bytes (filter (\<lambda>e. \<not> ie_matches eid oui e) es) @ tail',
             length pre + length (ies_bytes (filter (\<lambda>e. \<not> ie_matches eid oui e) es)))
     \<and> length (ies_bytes (filter (\<lambda>e. \<not> ie_matches eid oui e) es)) + length tail' = length (ies_bytes es) + length tail"
  using assms
proof (induction "length es" arbitrary: es pre n r tail rule: less_induct)
  case less
  note se = get_ie_ex_series [OF less.prems(1,2), of tail]
  show ?case
  proof (cases "find_ie (ie_matches eid oui) es")
    case None
    then have no: "\<forall>x\<in>set es. \<not> ie_matches eid oui x" by (simp add: find_ie_None)
    then have "filter (\<lambda>e. \<not> ie_matches eid oui e) es = es" by (simp add: filter_id_conv)
    then show ?thesis using no se None less.prems(3) by (subst ies_remove_loop.simps) simp
  next
    case (Some q)
    obtain off m where q: "q = (off, m)" by force
    obtain es1 e es2 where e: "es = es1 @ e # es2" "ie_matches eid oui e" "\<forall>x\<in>set es1. \<not> ie_matches eid oui x"
      "off = length (ies_bytes es1)" "m = length (snd e)" using find_ie_split Some q by metis
    let ?moved = "ies_bytes es2 @ drop (length (ies_bytes es2)) (ie_bytes e @ ies_bytes es2 @ tail)"
    have mv: "take (length pre + off) (pre @ ies_bytes es @ tail)
        @ take (length (ies_bytes es2)) (drop (length pre + off + (m + 2)) (pre @ ies_bytes es @ tail))
        @ drop (length pre + off + length (ies_bytes es2)) (pre @ ies_bytes es @ tail) = (pre @ ies_bytes es1) @ ?moved"
      using e by simp
    have f1: "filter (\<lambda>e. \<not> ie_matches eid oui e) es1 = es1" using e(3) by (simp add: filter_id_conv)
    have ls: "length (ies_bytes es) - (off + (m + 2)) = length (ies_bytes es2)" using e by simp
    have step: "ies_remove_loop (pre @ ies_bytes es @ tail) eid oui (length pre) (length (ies_bytes es)) n r
       = ies_remove_loop ((pre @ ies_bytes es1) @ ?moved) eid oui (length (pre @ ies_bytes es1)) (length (ies_bytes es2))
           (length (pre @ ies_bytes es1) + length (ies_bytes es2)) RET_SUCCESS"
      using se Some q e ls mv less.prems(3) by (subst ies_remove_loop.simps) (simp add: Let_def add_ac)
    have w: "ies_wf es2" "oui_fits eid oui es2" "length es2 < length es"
      using less.prems e(1) by (auto simp: ies_wf_def oui_fits_def)
    obtain tail' where "ies_remove_loop ((pre @ ies_bytes es1) @ ?moved) eid oui (length (pre @ ies_bytes es1)) (length (ies_bytes es2))
           (length (pre @ ies_bytes es1) + length (ies_bytes es2)) RET_SUCCESS
        = Some (RET_SUCCESS, (pre @ ies_bytes es1) @ ies_bytes (filter (\<lambda>e. \<not> ie_matches eid oui e) es2) @ tail',
             length (pre @ ies_bytes es1) + length (ies_bytes (filter (\<lambda>e. \<not> ie_matches eid oui e) es2)))"
      "length (ies_bytes (filter (\<lambda>e. \<not> ie_matches eid oui e) es2)) + length tail' = length (ies_bytes es2) + length (drop (length (ies_bytes es2)) (ie_bytes e @ ies_bytes es2 @ tail))"
      using less.hyps [OF w(3,1,2) refl, of "pre @ ies_bytes es1" "drop (length (ies_bytes es2)) (ie_bytes e @ ies_bytes es2 @ tail)" RET_SUCCESS]
      by (auto simp del: append_assoc length_append split: if_splits)
    then show ?thesis unfolding step using e(1,2) f1 by (intro exI [of _ tail']) auto
  qed
qed

text \<open>
  C37. Removing elements (\<^verbatim>\<open>rtw_ies_remove_ie\<close>) is filtering: on any well-formed series that starts at the
  given offset the buffer afterwards holds the series without the matching elements, in order and with
  nothing else changed before it, the length is updated to match, and success is reported exactly when
  something was removed.
\<close>

theorem rtw_ies_remove_ie_filters:
  assumes "ies_wf es" "oui_fits eid oui es"
  shows "\<exists>tail'. rtw_ies_remove_ie (Some (pre @ ies_bytes es @ tail)) (length pre + length (ies_bytes es)) (length pre) eid oui
     = Some (if \<exists>e\<in>set es. ie_matches eid oui e then RET_SUCCESS else RET_FAIL,
             Some (pre @ ies_bytes (filter (\<lambda>e. \<not> ie_matches eid oui e) es) @ tail'),
             length pre + length (ies_bytes (filter (\<lambda>e. \<not> ie_matches eid oui e) es)))
     \<and> length (ies_bytes (filter (\<lambda>e. \<not> ie_matches eid oui e) es)) + length tail' = length (ies_bytes es) + length tail"
proof (cases "es = []")
  case False
  then have "0 < length (ies_bytes es)" by (cases es) auto
  then show ?thesis using ies_remove_loop_series [OF assms refl, of pre tail RET_FAIL]
    by (auto simp: rtw_ies_remove_ie_def)
qed (simp add: rtw_ies_remove_ie_def)
text \<open>A rates element between two others is taken out.\<close>

definition sample_ies :: "element list" where
  "sample_ies = [(0, [97, 98]), (50, [12]), (5, [])]"

theorem rtw_ies_remove_ie_filters_witness:
  "\<exists>tail'. rtw_ies_remove_ie (Some (replicate 12 7 @ ies_bytes sample_ies @ [9])) (12 + length (ies_bytes sample_ies)) 12 50 None
     = Some (RET_SUCCESS, Some (replicate 12 7 @ [0, 2, 97, 98, 5, 0] @ tail'), 18)"
proof -
  have "ies_wf sample_ies" "oui_fits 50 None sample_ies"
    by (simp_all add: sample_ies_def oui_fits_def)
  moreover have "filter (\<lambda>e. \<not> ie_matches 50 None e) sample_ies = [(0, [97, 98]), (5, [])]" "\<exists>e\<in>set sample_ies. ie_matches 50 None e"
    by (simp_all add: sample_ies_def ie_matches_def)
  ultimately show ?thesis
    using rtw_ies_remove_ie_filters [of sample_ies 50 None "replicate 12 7" "[9]"] by (auto simp: ie_bytes_def)
qed

section \<open>Writing a series\<close>

lemma rtw_set_ie_series:
  assumes "length source \<le> 255" "length source + 2 \<le> length room"
  shows "rtw_set_ie (pre @ ies_bytes es @ room) (length pre + length (ies_bytes es)) index source frlen
    = Some (pre @ ies_bytes (es @ [(word_of_int index, source)]) @ drop (length source + 2) room,
            length pre + length (ies_bytes (es @ [(word_of_int index, source)])), frlen + (length source + 2))"
  using assms by (simp add: rtw_set_ie_def Let_def ie_bytes_def)

text \<open>An element appended by \<^verbatim>\<open>rtw_set_ie\<close> is found by \<^verbatim>\<open>rtw_get_ie\<close> when no earlier one has its number.\<close>

lemma set_get_ie:
  assumes "ies_wf es" "length source \<le> 255" "length source + 2 \<le> length room" "index \<in> {0..255}"
    and "\<forall>e\<in>set es. uint (fst e) \<noteq> index"
  obtains buf end' n where "rtw_set_ie (ies_bytes es @ room) (length (ies_bytes es)) index source frlen = Some (buf, end', n)"
    "rtw_get_ie buf index (int end') = Some (Some (length (ies_bytes es), length source))"
proof -
  let ?es = "es @ [(word_of_int index, source)]"
  have u: "uint (word_of_int index :: u8) = index" using assms(4) by (simp add: uint_word_of_int)
  have "find_ie (\<lambda>e. uint (fst e) = index) (xs @ [(word_of_int index, source)]) = Some (length (ies_bytes xs), length source)"
    if "\<forall>e\<in>set xs. uint (fst e) \<noteq> index" for xs using that u by (induction xs) auto
  moreover have "ies_wf ?es" using assms(1,2) by (simp add: ies_wf_def)
  ultimately show thesis
    using that rtw_set_ie_series [OF assms(2,3), of "[]" es index frlen] assms(5)
      rtw_get_ie_series [of ?es "drop (length source + 2) room" index] by simp
qed

text \<open>A series that ends inside an element header makes the search read behind it.\<close>

lemma rtw_get_ie_truncated:
  assumes "ies_wf es" "\<forall>e\<in>set es. uint (fst e) \<noteq> index"
  shows "rtw_get_ie (ies_bytes es @ [b]) index (int (length (ies_bytes es)) + 1) = None"
proof -
  have "get_ie_loop (pre @ ies_bytes es @ [b]) index (int (length pre + length (ies_bytes es)) + 1) (length pre) = None" for pre
    using assms
  proof (induction es arbitrary: pre)
    case Nil
    have "rd (pre @ [b]) (Suc (length pre)) = None" by simp
    then show ?case by (subst get_ie_loop.simps) (simp split: option.split)
  next
    case (Cons e es)
    have "get_ie_loop (pre @ ies_bytes (e # es) @ [b]) index (int (length pre + length (ies_bytes (e # es))) + 1) (length (pre @ ie_bytes e)) = None"
      using Cons.IH [of "pre @ ie_bytes e"] Cons.prems by (simp add: add_ac)
    then show ?case using rd_ie(1,2) [of e pre "ies_bytes es @ [b]"] rd_ie(3) [of e] Cons.prems
      by (subst get_ie_loop.simps) (simp add: add_ac del: rd_Some_iff)
  qed
  from this [of "[]"] show ?thesis by (simp add: rtw_get_ie_def)
qed

section \<open>Termination of the attribute search\<close>

text \<open>The positions the attribute search comes to.\<close>

inductive wps_reach :: "bytes \<Rightarrow> nat \<Rightarrow> u16 \<Rightarrow> nat \<Rightarrow> nat \<Rightarrow> bool" for ie ielen target where
  wps_here: "wps_reach ie ielen target p p"
| wps_next: "p < ielen \<Longrightarrow> get_be16 ie p = Some attr_id \<Longrightarrow> attr_id \<noteq> target \<Longrightarrow> get_be16 ie (p + 2) = Some n \<Longrightarrow>
    wps_reach ie ielen target (p + unat (n + 4)) q \<Longrightarrow> wps_reach ie ielen target p q"

definition wps_stuck :: "bytes \<Rightarrow> nat \<Rightarrow> u16 \<Rightarrow> nat \<Rightarrow> bool" where
  "wps_stuck ie ielen target q \<longleftrightarrow> q < ielen \<and> (\<exists>i. get_be16 ie q = Some i \<and> i \<noteq> target) \<and> get_be16 ie (q + 2) = Some 0xFFFC"

inductive_cases wps_reach_cases: "wps_reach ie ielen target p q"

lemma wps_reach_step:
  assumes "wps_reach ie ielen target p q"
  shows "q = p \<or> (\<exists>i n. p < ielen \<and> get_be16 ie p = Some i \<and> i \<noteq> target \<and> get_be16 ie (p + 2) = Some n
     \<and> wps_reach ie ielen target (p + unat (n + 4)) q)"
  using assms by (auto elim: wps_reach_cases)

text \<open>Where the search returns it never comes to an attribute of length 0xFFFC.\<close>

lemma wps_attr_loop_not_stuck:
  assumes "wps_attr_loop ie ielen target p = Some r"
  shows "\<forall>q. wps_reach ie ielen target p q \<longrightarrow> \<not> wps_stuck ie ielen target q"
proof (rule wps_attr_loop.raw_induct [where P = "\<lambda>ie ielen target p r. \<forall>q. wps_reach ie ielen target p q \<longrightarrow> \<not> wps_stuck ie ielen target q", OF _ assms], goal_cases)
  case (1 loop ie ielen target p r)
  show ?case
  proof (intro allI impI notI)
    fix q assume q: "wps_reach ie ielen target p q" "wps_stuck ie ielen target q"
    have next_ok: "\<not> wps_reach ie ielen target (p + unat (n + 4)) q"
      if "p < ielen" "get_be16 ie p = Some i" "i \<noteq> target" "get_be16 ie (p + 2) = Some n" for i n
    proof -
      have "loop ie ielen target (p + unat (n + 4)) = Some r" using that "1"(2) by simp
      then show ?thesis using "1"(1) q(2) by blast
    qed
    show False
    proof (cases "q = p")
      case True
      then obtain i where i: "p < ielen" "get_be16 ie p = Some i" "i \<noteq> target" "get_be16 ie (p + 2) = Some 0xFFFC"
        using q(2) by (auto simp: wps_stuck_def)
      then show False using next_ok [OF i] True wps_here by simp
    qed (use wps_reach_step [OF q(1)] next_ok in blast)
  qed
qed

lemma wps_attr_loop_returns:
  assumes "\<forall>q. wps_reach ie ielen target p q \<longrightarrow> \<not> wps_stuck ie ielen target q"
  shows "\<exists>r. wps_attr_loop ie ielen target p = Some r"
  using assms
proof (induction "ielen - p" arbitrary: p rule: less_induct)
  case less
  have "\<exists>r. wps_attr_loop ie ielen target (p + unat (n + 4)) = Some r"
    if h: "p < ielen" "get_be16 ie p = Some i" "i \<noteq> target" "get_be16 ie (p + 2) = Some n" for i n
  proof (rule less.hyps)
    have "n \<noteq> 0xFFFC" using less.prems h wps_here by (fastforce simp: wps_stuck_def)
    moreover have "(- 4 :: u16) = 0xFFFC" by simp
    ultimately have "n + 4 \<noteq> 0" using eq_neg_iff_add_eq_0 [of n 4] by metis
    then have "0 < unat (n + 4)" by (simp add: unat_gt_0)
    then show "ielen - (p + unat (n + 4)) < ielen - p" using h(1) by simp
    show "\<forall>q. wps_reach ie ielen target (p + unat (n + 4)) q \<longrightarrow> \<not> wps_stuck ie ielen target q"
      using less.prems wps_next [OF h] by blast
  qed
  then show ?case by (subst wps_attr_loop.simps) (auto split: option.splits)
qed

lemma wps_attr_returns:
  "(\<exists>r. rtw_get_wps_attr ie ielen target copy = Some r) \<longleftrightarrow>
     \<not> (ex_match ie WLAN_EID_VENDOR_SPECIFIC (Some WPS_OUI) 0 = Some True
        \<and> (\<exists>q. wps_reach ie ielen target 6 q \<and> wps_stuck ie ielen target q))"
proof -
  have "(\<exists>r. rtw_get_wps_attr ie ielen target copy = Some r) \<longleftrightarrow>
      \<not> (ex_match ie WLAN_EID_VENDOR_SPECIFIC (Some WPS_OUI) 0 = Some True \<and> wps_attr_loop ie ielen target 6 = None)"
    by (auto simp: rtw_get_wps_attr_def split: option.splits bool.splits wps_res.splits)
  moreover have "wps_attr_loop ie ielen target 6 = None \<longleftrightarrow> (\<exists>q. wps_reach ie ielen target 6 q \<and> wps_stuck ie ielen target q)"
    using wps_attr_loop_not_stuck wps_attr_loop_returns by (metis option.distinct(1) not_Some_eq)
  ultimately show ?thesis by simp
qed

text \<open>A frame can hold such an attribute.\<close>

definition wps_trap :: bytes where
  "wps_trap = [0xdd, 0x08, 0x00, 0x50, 0xf2, 0x04, 0x10, 0x44, 0xff, 0xfc]"

lemma wps_trap_diverges: "rtw_get_wps_attr wps_trap 10 0x104a False = None"
proof -
  have "wps_stuck wps_trap 10 0x104a 6" by (simp add: wps_stuck_def wps_trap_def get_be16_def)
  moreover have "ex_match wps_trap WLAN_EID_VENDOR_SPECIFIC (Some WPS_OUI) 0 = Some True"
    by (simp add: ex_match_def rd_def memcmp_at_def wps_trap_def WPS_OUI_def WLAN_EID_VENDOR_SPECIFIC_def)
  ultimately show ?thesis using wps_attr_returns wps_here by (metis not_Some_eq)
qed

text \<open>
  C39. Termination of the attribute search: \<^verbatim>\<open>rtw_get_wps_attr\<close> returns exactly when the walk over the
  attributes of a WPS element does not come to an attribute that is not the wanted one and whose
  length field is 0xFFFC; there the 16-bit sum of length and header is 0 and the loop stays.
\<close>

theorem wps_attr_returns_iff:
  "(\<exists>r. rtw_get_wps_attr ie ielen target copy = Some r) \<longleftrightarrow>
     \<not> (ex_match ie WLAN_EID_VENDOR_SPECIFIC (Some WPS_OUI) 0 = Some True
        \<and> (\<exists>q. wps_reach ie ielen target 6 q \<and> wps_stuck ie ielen target q))"
  by (rule wps_attr_returns)

end
