(* ===== verification/Ie_Parse.thy ===== *)
theory Ie_Parse
  imports Ie_Search
begin

unbundle bit_operations_syntax

text \<open>
  Parsing of information elements (\<^verbatim>\<open>core/rtw_ieee80211.c\<close>): the cipher and key management selectors,
  the WPA and RSN elements, and the table of elements of a management frame. Pointers are offsets into
  the buffer, a null pointer is \<open>None\<close>, and an outer \<open>None\<close> is an access outside the buffer.
  Outputs are taken as all requested; the code skips those whose pointer is null.
\<close>

section \<open>Selectors\<close>

definition WPA_CIPHER_NONE :: u32 where "WPA_CIPHER_NONE = 0x001"
definition WPA_CIPHER_WEP40 :: u32 where "WPA_CIPHER_WEP40 = 0x002"
definition WPA_CIPHER_WEP104 :: u32 where "WPA_CIPHER_WEP104 = 0x004"
definition WPA_CIPHER_TKIP :: u32 where "WPA_CIPHER_TKIP = 0x008"
definition WPA_CIPHER_CCMP :: u32 where "WPA_CIPHER_CCMP = 0x010"
definition WPA_CIPHER_GCMP :: u32 where "WPA_CIPHER_GCMP = 0x020"
definition WPA_CIPHER_GCMP_256 :: u32 where "WPA_CIPHER_GCMP_256 = 0x040"
definition WPA_CIPHER_CCMP_256 :: u32 where "WPA_CIPHER_CCMP_256 = 0x080"
definition WPA_CIPHER_BIP_CMAC_128 :: u32 where "WPA_CIPHER_BIP_CMAC_128 = 0x100"
definition WPA_CIPHER_BIP_GMAC_128 :: u32 where "WPA_CIPHER_BIP_GMAC_128 = 0x200"
definition WPA_CIPHER_BIP_GMAC_256 :: u32 where "WPA_CIPHER_BIP_GMAC_256 = 0x400"
definition WPA_CIPHER_BIP_CMAC_256 :: u32 where "WPA_CIPHER_BIP_CMAC_256 = 0x800"
definition WLAN_AKM_TYPE_8021X :: u32 where "WLAN_AKM_TYPE_8021X = 0x1"

text \<open>Each of the three functions compares the four bytes at its argument with a list of selectors.\<close>

definition rtw_get_wpa_cipher_suite :: "bytes \<Rightarrow> u32" where
  "rtw_get_wpa_cipher_suite s =
     (if s = [0x00, 0x50, 0xf2, 0] then WPA_CIPHER_NONE
      else if s = [0x00, 0x50, 0xf2, 1] then WPA_CIPHER_WEP40
      else if s = [0x00, 0x50, 0xf2, 2] then WPA_CIPHER_TKIP
      else if s = [0x00, 0x50, 0xf2, 4] then WPA_CIPHER_CCMP
      else if s = [0x00, 0x50, 0xf2, 5] then WPA_CIPHER_WEP104
      else 0)"

definition rtw_get_rsn_cipher_suite :: "bytes \<Rightarrow> u32" where
  "rtw_get_rsn_cipher_suite s =
     (if s = [0x00, 0x0f, 0xac, 0] then WPA_CIPHER_NONE
      else if s = [0x00, 0x0f, 0xac, 1] then WPA_CIPHER_WEP40
      else if s = [0x00, 0x0f, 0xac, 2] then WPA_CIPHER_TKIP
      else if s = [0x00, 0x0f, 0xac, 4] then WPA_CIPHER_CCMP
      else if s = [0x00, 0x0f, 0xac, 8] then WPA_CIPHER_GCMP
      else if s = [0x00, 0x0f, 0xac, 9] then WPA_CIPHER_GCMP_256
      else if s = [0x00, 0x0f, 0xac, 10] then WPA_CIPHER_CCMP_256
      else if s = [0x00, 0x0f, 0xac, 5] then WPA_CIPHER_WEP104
      else if s = [0x00, 0x0f, 0xac, 6] then WPA_CIPHER_BIP_CMAC_128
      else if s = [0x00, 0x0f, 0xac, 11] then WPA_CIPHER_BIP_GMAC_128
      else if s = [0x00, 0x0f, 0xac, 12] then WPA_CIPHER_BIP_GMAC_256
      else if s = [0x00, 0x0f, 0xac, 13] then WPA_CIPHER_BIP_CMAC_256
      else 0)"

definition rtw_get_akm_suite_bitmap :: "bytes \<Rightarrow> u32" where
  "rtw_get_akm_suite_bitmap s =
     (if s = [0x00, 0x0f, 0xac, 1] then WLAN_AKM_TYPE_8021X
      else if s = [0x00, 0x0f, 0xac, 2] then 0x0002
      else if s = [0x00, 0x0f, 0xac, 3] then 0x0004
      else if s = [0x00, 0x0f, 0xac, 4] then 0x0008
      else if s = [0x00, 0x0f, 0xac, 5] then 0x0010
      else if s = [0x00, 0x0f, 0xac, 6] then 0x0020
      else if s = [0x00, 0x0f, 0xac, 7] then 0x0040
      else if s = [0x00, 0x0f, 0xac, 8] then 0x0080
      else if s = [0x00, 0x0f, 0xac, 9] then 0x0100
      else if s = [0x00, 0x0f, 0xac, 11] then 0x0200
      else if s = [0x00, 0x0f, 0xac, 12] then 0x0400
      else if s = [0x00, 0x0f, 0xac, 14] then 0x0800
      else if s = [0x00, 0x0f, 0xac, 15] then 0x1000
      else if s = [0x00, 0x0f, 0xac, 16] then 0x2000
      else if s = [0x00, 0x0f, 0xac, 17] then 0x4000
      else 0)"

text \<open>A selector read from the buffer, and the loop that collects the bits of \<open>n\<close> selectors.\<close>

definition suite_at :: "(bytes \<Rightarrow> u32) \<Rightarrow> bytes \<Rightarrow> nat \<Rightarrow> u32 option" where
  "suite_at f buf p = (if p + 4 \<le> length buf then Some (f (take 4 (drop p buf))) else None)"

primrec or_suites :: "(bytes \<Rightarrow> u32) \<Rightarrow> bytes \<Rightarrow> nat \<Rightarrow> nat \<Rightarrow> u32 \<Rightarrow> u32 option" where
  "or_suites f buf p 0 acc = Some acc"
| "or_suites f buf p (Suc n) acc =
     (case suite_at f buf p of None \<Rightarrow> None | Some v \<Rightarrow> or_suites f buf (p + 4) n (acc OR v))"

section \<open>The WPA element\<close>

text \<open>
  \<open>left\<close> is signed: for an element shorter than its fixed part it is negative and every part is
  skipped. The result has the group cipher (if the element has one), the pairwise ciphers added to
  the given bits and the key management type (if it is 802.1X).
\<close>

definition wpa_akm :: "bytes \<Rightarrow> nat \<Rightarrow> int \<Rightarrow> u32 option option" where
  "wpa_akm ie pos left =
     (if 6 \<le> left then
        map_option (\<lambda>m. if m then Some WLAN_AKM_TYPE_8021X else None) (memcmp_at ie (pos + 2) [0x00, 0x50, 0xf2, 1])
      else Some None)"

definition wpa_pairwise :: "bytes \<Rightarrow> nat \<Rightarrow> int \<Rightarrow> u32 option \<Rightarrow> u32 \<Rightarrow> (ret \<times> u32 option \<times> u32 \<times> u32 option) option" where
  "wpa_pairwise ie pos left gcs pcs =
     (if 2 \<le> left then
        (case get_le16 ie pos of
           None \<Rightarrow> None
         | Some cnt \<Rightarrow>
             if cnt = 0 \<or> left - 2 < uint cnt * 4 then Some (RET_FAIL, gcs, pcs, None)
             else (case or_suites rtw_get_wpa_cipher_suite ie (pos + 2) (unat cnt) pcs of
                     None \<Rightarrow> None
                   | Some pcs' \<Rightarrow>
                       map_option (\<lambda>akm. (RET_SUCCESS, gcs, pcs', akm))
                         (wpa_akm ie (pos + 2 + 4 * unat cnt) (left - 2 - uint cnt * 4))))
      else if left = 1 then Some (RET_FAIL, gcs, pcs, None)
      else map_option (\<lambda>akm. (RET_SUCCESS, gcs, pcs, akm)) (wpa_akm ie pos left))"

definition rtw_parse_wpa_ie :: "bytes \<Rightarrow> int \<Rightarrow> u32 \<Rightarrow> (ret \<times> u32 option \<times> u32 \<times> u32 option) option" where
  "rtw_parse_wpa_ie wpa_ie wpa_ie_len pcs0 =
     (if wpa_ie_len \<le> 0 then Some (RET_FAIL, None, pcs0, None)
      else case rd wpa_ie 0 of
        None \<Rightarrow> None
      | Some e \<Rightarrow>
         if e \<noteq> WPA_IE_ID then Some (RET_FAIL, None, pcs0, None)
         else case rd wpa_ie 1 of
           None \<Rightarrow> None
         | Some l \<Rightarrow>
            if l \<noteq> word_of_int (wpa_ie_len - 2) then Some (RET_FAIL, None, pcs0, None)
            else case memcmp_at wpa_ie 2 [0x00, 0x50, 0xf2, 1] of
              None \<Rightarrow> None
            | Some False \<Rightarrow> Some (RET_FAIL, None, pcs0, None)
            | Some True \<Rightarrow>
               let left = wpa_ie_len - 8 in
               if 4 \<le> left then
                 (case suite_at rtw_get_wpa_cipher_suite wpa_ie 8 of
                    None \<Rightarrow> None
                  | Some g \<Rightarrow> wpa_pairwise wpa_ie 12 (left - 4) (Some g) pcs0)
               else if 0 < left then Some (RET_FAIL, None, pcs0, None)
               else wpa_pairwise wpa_ie 8 left None pcs0)"

section \<open>The RSN element\<close>

record rsne_info =
  rs_gcs :: "nat option"
  rs_pcs_cnt :: u16
  rs_pcs_list :: "nat option"
  rs_akm_cnt :: u16
  rs_akm_list :: "nat option"
  rs_cap :: "nat option"
  rs_pmkid_cnt :: u16
  rs_pmkid_list :: "nat option"
  rs_gmcs :: "nat option"
  rs_err :: bool

definition rsne_empty :: rsne_info where
  "rsne_empty = \<lparr>rs_gcs = None, rs_pcs_cnt = 0, rs_pcs_list = None, rs_akm_cnt = 0, rs_akm_list = None, rs_cap = None,
     rs_pmkid_cnt = 0, rs_pmkid_list = None, rs_gmcs = None, rs_err = False\<rparr>"

text \<open>The parts of the parser from the last one back: each ends the parse where the element ends.\<close>

definition rsne_end :: "nat \<Rightarrow> nat \<Rightarrow> rsne_info \<Rightarrow> ret \<times> rsne_info" where
  "rsne_end ie_len pos info = (if ie_len \<noteq> pos then (RET_FAIL, info\<lparr>rs_err := True\<rparr>) else (RET_SUCCESS, info))"

definition rsne_gmcs :: "nat \<Rightarrow> nat \<Rightarrow> rsne_info \<Rightarrow> ret \<times> rsne_info" where
  "rsne_gmcs ie_len pos info =
     (if ie_len < pos + 4 then rsne_end ie_len pos info else (RET_SUCCESS, info\<lparr>rs_gmcs := Some pos\<rparr>))"

text \<open>A counted list: its length field, the list if it fits, and what follows it.\<close>

definition rsne_list :: "bytes \<Rightarrow> nat \<Rightarrow> nat \<Rightarrow> nat \<Rightarrow> (u16 \<Rightarrow> nat \<Rightarrow> rsne_info \<Rightarrow> rsne_info) \<Rightarrow>
    (nat \<Rightarrow> rsne_info \<Rightarrow> (ret \<times> rsne_info) option) \<Rightarrow> rsne_info \<Rightarrow> (ret \<times> rsne_info) option" where
  "rsne_list ie ie_len pos sz store cont info =
     (if ie_len < pos + 2 then Some (rsne_end ie_len pos info)
      else case get_le16 ie pos of
             None \<Rightarrow> None
           | Some cnt \<Rightarrow>
               if ie_len < pos + 2 + sz * unat cnt then Some (rsne_end ie_len (pos + 2) info)
               else cont (pos + 2 + sz * unat cnt) (store cnt (pos + 2) info))"

definition rsne_pmkid :: "bytes \<Rightarrow> nat \<Rightarrow> nat \<Rightarrow> rsne_info \<Rightarrow> (ret \<times> rsne_info) option" where
  "rsne_pmkid ie ie_len pos =
     rsne_list ie ie_len pos 16 (\<lambda>cnt p info. info\<lparr>rs_pmkid_cnt := cnt, rs_pmkid_list := Some p\<rparr>)
       (\<lambda>pos info. Some (rsne_gmcs ie_len pos info))"

definition rsne_cap :: "bytes \<Rightarrow> nat \<Rightarrow> nat \<Rightarrow> rsne_info \<Rightarrow> (ret \<times> rsne_info) option" where
  "rsne_cap ie ie_len pos info =
     (if ie_len < pos + 2 then Some (rsne_end ie_len pos info)
      else rsne_pmkid ie ie_len (pos + 2) (info\<lparr>rs_cap := Some pos\<rparr>))"

definition rsne_akm :: "bytes \<Rightarrow> nat \<Rightarrow> nat \<Rightarrow> rsne_info \<Rightarrow> (ret \<times> rsne_info) option" where
  "rsne_akm ie ie_len pos =
     rsne_list ie ie_len pos 4 (\<lambda>cnt p info. info\<lparr>rs_akm_cnt := cnt, rs_akm_list := Some p\<rparr>) (rsne_cap ie ie_len)"

definition rsne_pcs :: "bytes \<Rightarrow> nat \<Rightarrow> nat \<Rightarrow> rsne_info \<Rightarrow> (ret \<times> rsne_info) option" where
  "rsne_pcs ie ie_len pos =
     rsne_list ie ie_len pos 4 (\<lambda>cnt p info. info\<lparr>rs_pcs_cnt := cnt, rs_pcs_list := Some p\<rparr>) (rsne_akm ie ie_len)"

definition rtw_rsne_info_parse :: "bytes \<Rightarrow> nat \<Rightarrow> (ret \<times> rsne_info) option" where
  "rtw_rsne_info_parse ie ie_len =
     (if ie_len < 4 then Some (RET_FAIL, rsne_empty\<lparr>rs_err := True\<rparr>)
      else case (rd ie 0, rd ie 1) of
        (Some e, Some l) \<Rightarrow>
          if e \<noteq> WPA2_IE_ID \<or> unat l \<noteq> ie_len - 2 then Some (RET_FAIL, rsne_empty\<lparr>rs_err := True\<rparr>)
          else if ie_len < 4 + 4 then Some (rsne_end ie_len 4 rsne_empty)
          else rsne_pcs ie ie_len (4 + 4) (rsne_empty\<lparr>rs_gcs := Some 4\<rparr>)
      | _ \<Rightarrow> None)"

record rsn_params =
  rp_group_cipher :: u32
  rp_pairwise_cipher :: u32
  rp_gmcs :: u32
  rp_akm :: u32
  rp_mfp_opt :: u16
  rp_spp_opt :: u16

definition opt_suite :: "bytes \<Rightarrow> nat option \<Rightarrow> u32 \<Rightarrow> u32 option" where
  "opt_suite ie p absent = (case p of None \<Rightarrow> Some absent | Some p \<Rightarrow> suite_at rtw_get_rsn_cipher_suite ie p)"

definition cap_bits :: "bytes \<Rightarrow> nat option \<Rightarrow> nat \<Rightarrow> u16 option" where
  "cap_bits ie p off = (case p of None \<Rightarrow> Some 0 | Some p \<Rightarrow> map_option (\<lambda>v. drop_bit off v AND 3) (get_le16 ie p))"

definition list_suites :: "(bytes \<Rightarrow> u32) \<Rightarrow> bytes \<Rightarrow> nat option \<Rightarrow> u16 \<Rightarrow> u32 option" where
  "list_suites f ie p cnt = or_suites f ie (case p of None \<Rightarrow> 0 | Some p \<Rightarrow> p) (unat cnt) 0"

definition rtw_parse_wpa2_ie :: "bytes \<Rightarrow> nat \<Rightarrow> (ret \<times> rsn_params option) option" where
  "rtw_parse_wpa2_ie rsn_ie rsn_ie_len =
     (case rtw_rsne_info_parse rsn_ie rsn_ie_len of
        None \<Rightarrow> None
      | Some (r, info) \<Rightarrow>
         if r \<noteq> RET_SUCCESS then Some (r, None)
         else case (opt_suite rsn_ie (rs_gcs info) 0,
                    list_suites rtw_get_rsn_cipher_suite rsn_ie (rs_pcs_list info) (rs_pcs_cnt info),
                    opt_suite rsn_ie (rs_gmcs info) WPA_CIPHER_BIP_CMAC_128,
                    list_suites rtw_get_akm_suite_bitmap rsn_ie (rs_akm_list info) (rs_akm_cnt info),
                    cap_bits rsn_ie (rs_cap info) 6, cap_bits rsn_ie (rs_cap info) 10) of
           (Some g, Some p, Some m, Some a, Some mfp, Some spp) \<Rightarrow>
             Some (RET_SUCCESS, Some \<lparr>rp_group_cipher = g, rp_pairwise_cipher = p, rp_gmcs = m, rp_akm = a,
                                      rp_mfp_opt = mfp, rp_spp_opt = spp\<rparr>)
         | _ \<Rightarrow> None)"

section \<open>The elements of a management frame\<close>

text \<open>Each pointer of the structure with its length; a null pointer is \<open>None\<close>.\<close>

record rtw_ieee802_11_elems =
  el_ssid :: "(nat \<times> u8) option"
  el_supp_rates :: "(nat \<times> u8) option"
  el_fh_params :: "(nat \<times> u8) option"
  el_ds_params :: "(nat \<times> u8) option"
  el_cf_params :: "(nat \<times> u8) option"
  el_tim :: "(nat \<times> u8) option"
  el_ibss_params :: "(nat \<times> u8) option"
  el_challenge :: "(nat \<times> u8) option"
  el_erp_info :: "(nat \<times> u8) option"
  el_ext_supp_rates :: "(nat \<times> u8) option"
  el_wpa_ie :: "(nat \<times> u8) option"
  el_rsn_ie :: "(nat \<times> u8) option"
  el_wme :: "(nat \<times> u8) option"
  el_wme_tspec :: "(nat \<times> u8) option"
  el_wps_ie :: "(nat \<times> u8) option"
  el_power_cap :: "(nat \<times> u8) option"
  el_supp_channels :: "(nat \<times> u8) option"
  el_mdie :: "(nat \<times> u8) option"
  el_ftie :: "(nat \<times> u8) option"
  el_timeout_int :: "(nat \<times> u8) option"
  el_ht_capabilities :: "(nat \<times> u8) option"
  el_ht_operation :: "(nat \<times> u8) option"
  el_vendor_ht_cap :: "(nat \<times> u8) option"
  el_vht_capabilities :: "(nat \<times> u8) option"
  el_vht_operation :: "(nat \<times> u8) option"
  el_vht_op_mode_notify :: "(nat \<times> u8) option"
  el_rm_en_cap :: "(nat \<times> u8) option"

definition no_elems :: rtw_ieee802_11_elems where
  "no_elems = \<lparr>el_ssid = None, el_supp_rates = None, el_fh_params = None, el_ds_params = None, el_cf_params = None, el_tim = None, el_ibss_params = None, el_challenge = None, el_erp_info = None, el_ext_supp_rates = None, el_wpa_ie = None, el_rsn_ie = None, el_wme = None, el_wme_tspec = None, el_wps_ie = None, el_power_cap = None, el_supp_channels = None, el_mdie = None, el_ftie = None, el_timeout_int = None, el_ht_capabilities = None, el_ht_operation = None, el_vendor_ht_cap = None, el_vht_capabilities = None, el_vht_operation = None, el_vht_op_mode_notify = None, el_rm_en_cap = None\<rparr>"

datatype ParseRes = ParseOK | ParseUnknown | ParseFailed

text \<open>
  Vendor elements: \<open>None\<close> of the inner option is the result -1. An element of at least four bytes
  is looked at by its first five.
\<close>

definition OUI_MICROSOFT :: u32 where "OUI_MICROSOFT = 0x0050f2"
definition OUI_BROADCOM :: u32 where "OUI_BROADCOM = 0x00904c"

definition get_be24 :: "bytes \<Rightarrow> nat \<Rightarrow> u32" where
  "get_be24 buf p = push_bit 16 (ucast (buf ! p)) OR push_bit 8 (ucast (buf ! (p + 1))) OR ucast (buf ! (p + 2))"

definition vendor_type :: "bytes \<Rightarrow> nat \<Rightarrow> nat \<Rightarrow> rtw_ieee802_11_elems \<Rightarrow> rtw_ieee802_11_elems option" where
  "vendor_type buf pos elen elems =
     (let oui = get_be24 buf pos; t = buf ! (pos + 3); v = Some (pos, of_nat elen) in
      if oui = OUI_MICROSOFT then
        (if t = 1 then Some (elems\<lparr>el_wpa_ie := v\<rparr>)
         else if t = 2 then
           (if elen < 5 then None
            else if buf ! (pos + 4) = 0 \<or> buf ! (pos + 4) = 1 then Some (elems\<lparr>el_wme := v\<rparr>)
            else if buf ! (pos + 4) = 2 then Some (elems\<lparr>el_wme_tspec := v\<rparr>)
            else None)
         else if t = 4 then Some (elems\<lparr>el_wps_ie := v\<rparr>)
         else None)
      else if oui = OUI_BROADCOM then (if t = 0x33 then Some (elems\<lparr>el_vendor_ht_cap := v\<rparr>) else None)
      else None)"

definition rtw_ieee802_11_parse_vendor_specific :: "bytes \<Rightarrow> nat \<Rightarrow> nat \<Rightarrow> rtw_ieee802_11_elems \<Rightarrow> rtw_ieee802_11_elems option option" where
  "rtw_ieee802_11_parse_vendor_specific buf pos elen elems =
     (if elen < 4 then Some None
      else if length buf < pos + min elen 5 then None
      else Some (vendor_type buf pos elen elems))"

text \<open>The elements that are recorded by their number alone; \<open>None\<close> for the others.\<close>

definition parse_elem :: "u8 \<Rightarrow> nat \<times> u8 \<Rightarrow> rtw_ieee802_11_elems \<Rightarrow> rtw_ieee802_11_elems option" where
  "parse_elem i v elems =
     (if i = 0 then Some (elems\<lparr>el_ssid := Some v\<rparr>)
      else if i = 1 then Some (elems\<lparr>el_supp_rates := Some v\<rparr>)
      else if i = 2 then Some (elems\<lparr>el_fh_params := Some v\<rparr>)
      else if i = 3 then Some (elems\<lparr>el_ds_params := Some v\<rparr>)
      else if i = 4 then Some (elems\<lparr>el_cf_params := Some v\<rparr>)
      else if i = 5 then Some (elems\<lparr>el_tim := Some v\<rparr>)
      else if i = 6 then Some (elems\<lparr>el_ibss_params := Some v\<rparr>)
      else if i = 16 then Some (elems\<lparr>el_challenge := Some v\<rparr>)
      else if i = 42 then Some (elems\<lparr>el_erp_info := Some v\<rparr>)
      else if i = 50 then Some (elems\<lparr>el_ext_supp_rates := Some v\<rparr>)
      else if i = 48 then Some (elems\<lparr>el_rsn_ie := Some v\<rparr>)
      else if i = 33 then Some (elems\<lparr>el_power_cap := Some v\<rparr>)
      else if i = 36 then Some (elems\<lparr>el_supp_channels := Some v\<rparr>)
      else if i = 54 then Some (elems\<lparr>el_mdie := Some v\<rparr>)
      else if i = 55 then Some (elems\<lparr>el_ftie := Some v\<rparr>)
      else if i = 56 then Some (elems\<lparr>el_timeout_int := Some v\<rparr>)
      else if i = 45 then Some (elems\<lparr>el_ht_capabilities := Some v\<rparr>)
      else if i = 61 then Some (elems\<lparr>el_ht_operation := Some v\<rparr>)
      else if i = 191 then Some (elems\<lparr>el_vht_capabilities := Some v\<rparr>)
      else if i = 192 then Some (elems\<lparr>el_vht_operation := Some v\<rparr>)
      else if i = 199 then Some (elems\<lparr>el_vht_op_mode_notify := Some v\<rparr>)
      else if i = 70 then Some (elems\<lparr>el_rm_en_cap := Some v\<rparr>)
      else None)"

function parse_elems_loop :: "bytes \<Rightarrow> nat \<Rightarrow> nat \<Rightarrow> rtw_ieee802_11_elems \<Rightarrow> nat \<Rightarrow> (ParseRes \<times> rtw_ieee802_11_elems) option" where
  "parse_elems_loop start pos left elems unknown =
     (if 2 \<le> left then
        (case (rd start pos, rd start (pos + 1)) of
           (Some i, Some elen) \<Rightarrow>
             if left - 2 < unat elen then Some (ParseFailed, elems)
             else
              (case (if i = WLAN_EID_VENDOR_SPECIFIC then rtw_ieee802_11_parse_vendor_specific start (pos + 2) (unat elen) elems
                     else Some (parse_elem i (pos + 2, elen) elems)) of
                 None \<Rightarrow> None
               | Some None \<Rightarrow> parse_elems_loop start (pos + 2 + unat elen) (left - 2 - unat elen) elems (Suc unknown)
               | Some (Some elems') \<Rightarrow> parse_elems_loop start (pos + 2 + unat elen) (left - 2 - unat elen) elems' unknown)
         | _ \<Rightarrow> None)
      else Some (if left \<noteq> 0 then ParseFailed else if unknown \<noteq> 0 then ParseUnknown else ParseOK, elems))"
  by pat_completeness auto
termination by (relation "measure (\<lambda>(start, pos, left, elems, unknown). left)") auto

definition rtw_ieee802_11_parse_elems :: "bytes \<Rightarrow> nat \<Rightarrow> (ParseRes \<times> rtw_ieee802_11_elems) option" where
  "rtw_ieee802_11_parse_elems start len = parse_elems_loop start 0 len no_elems 0"

section \<open>The element table\<close>

declare parse_elems_loop.simps [simp del]

text \<open>The decoder of a series.\<close>

fun split_ies :: "bytes \<Rightarrow> element list option" where
  "split_ies [] = Some []"
| "split_ies [i] = None"
| "split_ies (i # l # r) =
     (if length r < unat l then None else map_option ((#) (i, take (unat l) r)) (split_ies (drop (unat l) r)))"

lemma split_ies_iff: "split_ies bs = Some es \<longleftrightarrow> ies_wf es \<and> bs = ies_bytes es"
proof
  show "split_ies bs = Some es \<Longrightarrow> ies_wf es \<and> bs = ies_bytes es"
  proof (induction bs arbitrary: es rule: split_ies.induct)
    case (3 i l r)
    then obtain es' where "unat l \<le> length r" "es = (i, take (unat l) r) # es'" "split_ies (drop (unat l) r) = Some es'"
      by (auto split: if_splits)
    moreover have "unat l \<le> 255" using u8_bound [of l] by simp
    ultimately show ?case using 3(1) [of es'] by (simp add: ie_bytes_def min_absorb2) (metis append_take_drop_id)
  qed simp_all
next
  have "split_ies (ies_bytes es) = Some es" if "ies_wf es" for es
    using that by (induction es) (simp_all add: ie_bytes_def rd_ie(3))
  then show "ies_wf es \<and> bs = ies_bytes es \<Longrightarrow> split_ies bs = Some es" by simp
qed

text \<open>Every recorded element lies in the first \<open>len\<close> bytes, behind its length byte.\<close>

definition elems_all :: "(nat \<times> u8 \<Rightarrow> bool) \<Rightarrow> rtw_ieee802_11_elems \<Rightarrow> bool" where
  "elems_all P e \<longleftrightarrow> list_all (\<lambda>f. case f of None \<Rightarrow> True | Some v \<Rightarrow> P v)
     [el_ssid e, el_supp_rates e, el_fh_params e, el_ds_params e, el_cf_params e, el_tim e, el_ibss_params e, el_challenge e, el_erp_info e, el_ext_supp_rates e, el_wpa_ie e, el_rsn_ie e, el_wme e, el_wme_tspec e, el_wps_ie e, el_power_cap e, el_supp_channels e, el_mdie e, el_ftie e, el_timeout_int e, el_ht_capabilities e, el_ht_operation e, el_vendor_ht_cap e, el_vht_capabilities e, el_vht_operation e, el_vht_op_mode_notify e, el_rm_en_cap e]"

definition elem_in :: "bytes \<Rightarrow> nat \<Rightarrow> nat \<times> u8 \<Rightarrow> bool" where
  "elem_in start len v \<longleftrightarrow> 2 \<le> fst v \<and> fst v + unat (snd v) \<le> len \<and> start ! (fst v - 1) = snd v"

text \<open>The field of the table for an element number, and the numbers that have one.\<close>

definition elem_field :: "u8 \<Rightarrow> rtw_ieee802_11_elems \<Rightarrow> (nat \<times> u8) option" where
  "elem_field i elems =
     (if i = 0 then el_ssid elems
      else if i = 1 then el_supp_rates elems
      else if i = 2 then el_fh_params elems
      else if i = 3 then el_ds_params elems
      else if i = 4 then el_cf_params elems
      else if i = 5 then el_tim elems
      else if i = 6 then el_ibss_params elems
      else if i = 16 then el_challenge elems
      else if i = 42 then el_erp_info elems
      else if i = 50 then el_ext_supp_rates elems
      else if i = 48 then el_rsn_ie elems
      else if i = 33 then el_power_cap elems
      else if i = 36 then el_supp_channels elems
      else if i = 54 then el_mdie elems
      else if i = 55 then el_ftie elems
      else if i = 56 then el_timeout_int elems
      else if i = 45 then el_ht_capabilities elems
      else if i = 61 then el_ht_operation elems
      else if i = 191 then el_vht_capabilities elems
      else if i = 192 then el_vht_operation elems
      else if i = 199 then el_vht_op_mode_notify elems
      else if i = 70 then el_rm_en_cap elems
      else None)"

definition plain_ids :: "u8 list" where
  "plain_ids = [0, 1, 2, 3, 4, 5, 6, 16, 42, 50, 48, 33, 36, 54, 55, 56, 45, 61, 191, 192, 199, 70]"

lemma parse_elem_None: "parse_elem i v e = None \<longleftrightarrow> i \<notin> set plain_ids"
  by (simp add: parse_elem_def plain_ids_def)

lemma plain_elem_eqs:
  "parse_elem 0 v e = Some (e\<lparr>el_ssid := Some v\<rparr>)" "elem_field 0 e = el_ssid e"
  "parse_elem 1 v e = Some (e\<lparr>el_supp_rates := Some v\<rparr>)" "elem_field 1 e = el_supp_rates e"
  "parse_elem 2 v e = Some (e\<lparr>el_fh_params := Some v\<rparr>)" "elem_field 2 e = el_fh_params e"
  "parse_elem 3 v e = Some (e\<lparr>el_ds_params := Some v\<rparr>)" "elem_field 3 e = el_ds_params e"
  "parse_elem 4 v e = Some (e\<lparr>el_cf_params := Some v\<rparr>)" "elem_field 4 e = el_cf_params e"
  "parse_elem 5 v e = Some (e\<lparr>el_tim := Some v\<rparr>)" "elem_field 5 e = el_tim e"
  "parse_elem 6 v e = Some (e\<lparr>el_ibss_params := Some v\<rparr>)" "elem_field 6 e = el_ibss_params e"
  "parse_elem 16 v e = Some (e\<lparr>el_challenge := Some v\<rparr>)" "elem_field 16 e = el_challenge e"
  "parse_elem 42 v e = Some (e\<lparr>el_erp_info := Some v\<rparr>)" "elem_field 42 e = el_erp_info e"
  "parse_elem 50 v e = Some (e\<lparr>el_ext_supp_rates := Some v\<rparr>)" "elem_field 50 e = el_ext_supp_rates e"
  "parse_elem 48 v e = Some (e\<lparr>el_rsn_ie := Some v\<rparr>)" "elem_field 48 e = el_rsn_ie e"
  "parse_elem 33 v e = Some (e\<lparr>el_power_cap := Some v\<rparr>)" "elem_field 33 e = el_power_cap e"
  "parse_elem 36 v e = Some (e\<lparr>el_supp_channels := Some v\<rparr>)" "elem_field 36 e = el_supp_channels e"
  "parse_elem 54 v e = Some (e\<lparr>el_mdie := Some v\<rparr>)" "elem_field 54 e = el_mdie e"
  "parse_elem 55 v e = Some (e\<lparr>el_ftie := Some v\<rparr>)" "elem_field 55 e = el_ftie e"
  "parse_elem 56 v e = Some (e\<lparr>el_timeout_int := Some v\<rparr>)" "elem_field 56 e = el_timeout_int e"
  "parse_elem 45 v e = Some (e\<lparr>el_ht_capabilities := Some v\<rparr>)" "elem_field 45 e = el_ht_capabilities e"
  "parse_elem 61 v e = Some (e\<lparr>el_ht_operation := Some v\<rparr>)" "elem_field 61 e = el_ht_operation e"
  "parse_elem 191 v e = Some (e\<lparr>el_vht_capabilities := Some v\<rparr>)" "elem_field 191 e = el_vht_capabilities e"
  "parse_elem 192 v e = Some (e\<lparr>el_vht_operation := Some v\<rparr>)" "elem_field 192 e = el_vht_operation e"
  "parse_elem 199 v e = Some (e\<lparr>el_vht_op_mode_notify := Some v\<rparr>)" "elem_field 199 e = el_vht_op_mode_notify e"
  "parse_elem 70 v e = Some (e\<lparr>el_rm_en_cap := Some v\<rparr>)" "elem_field 70 e = el_rm_en_cap e"
  by (simp_all only: parse_elem_def elem_field_def) simp_all

lemma parse_elem_field:
  assumes "parse_elem i v e = Some e'" "j \<in> set plain_ids"
  shows "elem_field j e' = (if j = i then Some v else elem_field j e)"
proof -
  have "i \<in> set plain_ids" using assms(1) parse_elem_None [of i v e] by fastforce
  then show ?thesis
    using assms unfolding plain_ids_def list.set(2) list.set(1) insert_iff empty_iff
    by (elim disjE FalseE) (auto simp: plain_elem_eqs)
qed

lemma vendor_elem_field:
  "elem_field j (e\<lparr>el_wpa_ie := x\<rparr>) = elem_field j e"
  "elem_field j (e\<lparr>el_wme := x\<rparr>) = elem_field j e"
  "elem_field j (e\<lparr>el_wme_tspec := x\<rparr>) = elem_field j e"
  "elem_field j (e\<lparr>el_wps_ie := x\<rparr>) = elem_field j e"
  "elem_field j (e\<lparr>el_vendor_ht_cap := x\<rparr>) = elem_field j e"
  by (simp_all add: elem_field_def)

lemma elems_all_update:
  assumes "elems_all P e" "P v"
  shows "elems_all P (e\<lparr>el_ssid := Some v\<rparr>)"
    "elems_all P (e\<lparr>el_supp_rates := Some v\<rparr>)"
    "elems_all P (e\<lparr>el_fh_params := Some v\<rparr>)"
    "elems_all P (e\<lparr>el_ds_params := Some v\<rparr>)"
    "elems_all P (e\<lparr>el_cf_params := Some v\<rparr>)"
    "elems_all P (e\<lparr>el_tim := Some v\<rparr>)"
    "elems_all P (e\<lparr>el_ibss_params := Some v\<rparr>)"
    "elems_all P (e\<lparr>el_challenge := Some v\<rparr>)"
    "elems_all P (e\<lparr>el_erp_info := Some v\<rparr>)"
    "elems_all P (e\<lparr>el_ext_supp_rates := Some v\<rparr>)"
    "elems_all P (e\<lparr>el_wpa_ie := Some v\<rparr>)"
    "elems_all P (e\<lparr>el_rsn_ie := Some v\<rparr>)"
    "elems_all P (e\<lparr>el_wme := Some v\<rparr>)"
    "elems_all P (e\<lparr>el_wme_tspec := Some v\<rparr>)"
    "elems_all P (e\<lparr>el_wps_ie := Some v\<rparr>)"
    "elems_all P (e\<lparr>el_power_cap := Some v\<rparr>)"
    "elems_all P (e\<lparr>el_supp_channels := Some v\<rparr>)"
    "elems_all P (e\<lparr>el_mdie := Some v\<rparr>)"
    "elems_all P (e\<lparr>el_ftie := Some v\<rparr>)"
    "elems_all P (e\<lparr>el_timeout_int := Some v\<rparr>)"
    "elems_all P (e\<lparr>el_ht_capabilities := Some v\<rparr>)"
    "elems_all P (e\<lparr>el_ht_operation := Some v\<rparr>)"
    "elems_all P (e\<lparr>el_vendor_ht_cap := Some v\<rparr>)"
    "elems_all P (e\<lparr>el_vht_capabilities := Some v\<rparr>)"
    "elems_all P (e\<lparr>el_vht_operation := Some v\<rparr>)"
    "elems_all P (e\<lparr>el_vht_op_mode_notify := Some v\<rparr>)"
    "elems_all P (e\<lparr>el_rm_en_cap := Some v\<rparr>)"
  using assms by (simp_all add: elems_all_def)

lemma vendor_field:
  assumes "vendor_type buf pos elen e = Some e'"
  shows "elem_field j e' = elem_field j e"
  using assms by (auto simp: vendor_type_def vendor_elem_field Let_def split: if_splits)

lemma parse_elem_all: "parse_elem i v e = Some e' \<Longrightarrow> elems_all P e \<Longrightarrow> P v \<Longrightarrow> elems_all P e'"
proof -
  assume p: "parse_elem i v e = Some e'" and h: "elems_all P e" "P v"
  have "i \<in> set plain_ids" using p parse_elem_None [of i v e] by fastforce
  then show "elems_all P e'"
    using p elems_all_update [OF h] unfolding plain_ids_def list.set(2) list.set(1) insert_iff empty_iff
    by (elim disjE FalseE) (simp_all only: plain_elem_eqs option.inject)
qed

lemma vendor_all: "vendor_type buf pos elen e = Some e' \<Longrightarrow> elems_all P e \<Longrightarrow> P (pos, of_nat elen) \<Longrightarrow> elems_all P e'"
  by (auto simp: vendor_type_def Let_def elems_all_update split: if_splits)

primrec last_ie :: "u8 \<Rightarrow> nat \<Rightarrow> element list \<Rightarrow> (nat \<times> u8) option" where
  "last_ie i off [] = None"
| "last_ie i off (x # xs) =
     (case last_ie i (off + length (ie_bytes x)) xs of
        Some v \<Rightarrow> Some v
      | None \<Rightarrow> if fst x = i then Some (off + 2, of_nat (length (snd x))) else None)"

text \<open>One round of the loop.\<close>

lemma parse_elems_step:
  assumes "pos + left \<le> length start" "2 \<le> left" "unat (start ! (pos + 1)) \<le> left - 2"
  defines "l \<equiv> start ! (pos + 1)"
  obtains e' u' where
    "parse_elems_loop start pos left e u = parse_elems_loop start (pos + 2 + unat l) (left - 2 - unat l) e' u'"
    "\<And>n. pos + left \<le> n \<Longrightarrow> elems_all (elem_in start n) e \<Longrightarrow> elems_all (elem_in start n) e'"
    "\<And>j. j \<in> set plain_ids \<Longrightarrow> elem_field j e' = (if j = start ! pos then Some (pos + 2, l) else elem_field j e)"
proof -
  let ?i = "start ! pos" and ?go = "\<lambda>e' u'. parse_elems_loop start (pos + 2 + unat l) (left - 2 - unat l) e' u'"
  have v: "elem_in start n (pos + 2, l)" if "pos + left \<le> n" for n
    using that assms by (simp add: elem_in_def)
  have rds: "rd start pos = Some ?i" "rd start (pos + 1) = Some l" "\<not> left - 2 < unat l"
    using assms by (simp_all add: rd_in)
  have nv: "221 \<notin> set plain_ids" by (simp add: plain_ids_def)
  show thesis
  proof (cases "?i = WLAN_EID_VENDOR_SPECIFIC")
    case True
    have ok: "length start < pos + 2 + min (unat l) 5 \<longleftrightarrow> False" using assms by auto
    have j: "j \<noteq> ?i" if "j \<in> set plain_ids" for j using that True nv by (auto simp: WLAN_EID_VENDOR_SPECIFIC_def)
    show thesis
    proof (cases "unat l < 4 \<or> vendor_type start (pos + 2) (unat l) e = None")
      case none: True
      have "parse_elems_loop start pos left e u = ?go e (Suc u)"
        using rds True ok none assms(2) by (subst parse_elems_loop.simps) (auto simp: rtw_ieee802_11_parse_vendor_specific_def simp del: rd_Some_iff)
      then show thesis using that [of e "Suc u"] j by auto
    next
      case some: False
      then obtain e' where e': "vendor_type start (pos + 2) (unat l) e = Some e'" by auto
      have "parse_elems_loop start pos left e u = ?go e' u"
        using rds True ok some e' assms(2) by (subst parse_elems_loop.simps) (auto simp: rtw_ieee802_11_parse_vendor_specific_def simp del: rd_Some_iff)
      then show thesis using that [of e' u] j vendor_field [OF e'] vendor_all [OF e'] v by auto
    qed
  next
    case False
    show thesis
    proof (cases "parse_elem ?i (pos + 2, l) e")
      case None
      have "parse_elems_loop start pos left e u = ?go e (Suc u)"
        using rds False None assms(2) by (subst parse_elems_loop.simps) (auto simp del: rd_Some_iff)
      moreover have "j \<noteq> ?i" if "j \<in> set plain_ids" for j using that None parse_elem_None by auto
      ultimately show thesis using that [of e "Suc u"] by auto
    next
      case (Some e')
      have "parse_elems_loop start pos left e u = ?go e' u"
        using rds False Some assms(2) by (subst parse_elems_loop.simps) (auto simp del: rd_Some_iff)
      then show thesis using that [of e' u] parse_elem_field [OF Some] parse_elem_all [OF Some] v by auto
    qed
  qed
qed

lemma split_ies_step:
  assumes "pos + left \<le> length start" "2 \<le> left"
  defines "l \<equiv> start ! (pos + 1)"
  shows "split_ies (take left (drop pos start)) =
    (if left - 2 < unat l then None
     else map_option ((#) (start ! pos, take (unat l) (drop (pos + 2) start))) (split_ies (take (left - 2 - unat l) (drop (pos + 2 + unat l) start))))"
proof -
  have "drop pos start = start ! pos # start ! (pos + 1) # drop (pos + 2) start"
    using assms(1,2) by (simp add: Cons_nth_drop_Suc)
  moreover have "take left (a # b # c) = a # b # take (left - 2) c" for a b :: u8 and c
    using assms(2) by (cases left; cases "left - 1") auto
  ultimately have "take left (drop pos start) = start ! pos # l # take (left - 2) (drop (pos + 2) start)" by (simp add: l_def)
  then show ?thesis using assms(1,2) by (auto simp: drop_take add_ac take_take min_def)
qed

lemma parse_elems_loop_correct:
  assumes "pos + left \<le> length start" "pos + left \<le> n" "elems_all (elem_in start n) e"
  obtains res e' where "parse_elems_loop start pos left e u = Some (res, e')" "elems_all (elem_in start n) e'"
    "res = ParseFailed \<longleftrightarrow> split_ies (take left (drop pos start)) = None"
    "\<And>es j. split_ies (take left (drop pos start)) = Some es \<Longrightarrow> j \<in> set plain_ids \<Longrightarrow>
       elem_field j e' = (case last_ie j pos es of None \<Rightarrow> elem_field j e | Some v \<Rightarrow> Some v)"
  using assms
proof (induction left arbitrary: pos e u thesis rule: less_induct)
  case (less left)
  let ?l = "start ! (pos + 1)"
  consider "left = 0" | "left = 1" | "2 \<le> left" "left - 2 < unat ?l" | "2 \<le> left" "unat ?l \<le> left - 2" by linarith
  then show ?case
  proof cases
    case 1
    show ?thesis by (rule less.prems(1)) (use 1 less.prems in \<open>auto simp: parse_elems_loop.simps split: if_splits\<close>)
  next
    case 2
    have "take left (drop pos start) = [start ! pos]" using 2 less.prems(2) by (simp add: take_Suc_conv_app_nth)
    then show ?thesis using less.prems(1) [of ParseFailed e] 2 less.prems(4) by (simp add: parse_elems_loop.simps)
  next
    case 3
    have "parse_elems_loop start pos left e u = Some (ParseFailed, e)"
      using 3 less.prems(2) rd_in [of pos start] rd_in [of "pos + 1" start] by (subst parse_elems_loop.simps) (simp del: rd_Some_iff)
    then show ?thesis using less.prems(1) [of ParseFailed e] split_ies_step [OF less.prems(2) 3(1)] 3(2) less.prems(4) by simp
  next
    case 4
    obtain e1 u1 where s: "parse_elems_loop start pos left e u = parse_elems_loop start (pos + 2 + unat ?l) (left - 2 - unat ?l) e1 u1"
      "elems_all (elem_in start n) e1"
      "\<And>j. j \<in> set plain_ids \<Longrightarrow> elem_field j e1 = (if j = start ! pos then Some (pos + 2, ?l) else elem_field j e)"
      using parse_elems_step [OF less.prems(2) 4(1,2), of e u] less.prems(3,4) by metis
    let ?t = "take (left - 2 - unat ?l) (drop (pos + 2 + unat ?l) start)"
    have sm: "left - 2 - unat ?l < left" "pos + 2 + unat ?l + (left - 2 - unat ?l) \<le> length start"
      "pos + 2 + unat ?l + (left - 2 - unat ?l) \<le> n"
      using 4 less.prems(2,3) by auto
    obtain res e' where r: "parse_elems_loop start (pos + 2 + unat ?l) (left - 2 - unat ?l) e1 u1 = Some (res, e')"
      "elems_all (elem_in start n) e'" "res = ParseFailed \<longleftrightarrow> split_ies ?t = None"
      "\<And>es j. split_ies ?t = Some es \<Longrightarrow> j \<in> set plain_ids \<Longrightarrow>
         elem_field j e' = (case last_ie j (pos + 2 + unat ?l) es of None \<Rightarrow> elem_field j e1 | Some v \<Rightarrow> Some v)"
      using less.IH [OF sm(1) _ sm(2,3) s(2), of u1] by blast
    have sp: "split_ies (take left (drop pos start)) = map_option ((#) (start ! pos, take (unat ?l) (drop (pos + 2) start))) (split_ies ?t)"
      using split_ies_step [OF less.prems(2) 4(1)] 4(2) by simp
    have lt: "length (take (unat ?l) (drop (pos + 2) start)) = unat ?l" using 4 less.prems(2) by simp
    show ?thesis
    proof (rule less.prems(1))
      show "parse_elems_loop start pos left e u = Some (res, e')" using s(1) r(1) by simp
      show "elems_all (elem_in start n) e'" by (rule r(2))
      show "res = ParseFailed \<longleftrightarrow> split_ies (take left (drop pos start)) = None" using r(3) sp by simp
      fix es j assume "split_ies (take left (drop pos start)) = Some es" and j: "j \<in> set plain_ids"
      then obtain es' where es: "es = (start ! pos, take (unat ?l) (drop (pos + 2) start)) # es'" "split_ies ?t = Some es'"
        using sp by auto
      show "elem_field j e' = (case last_ie j pos es of None \<Rightarrow> elem_field j e | Some v \<Rightarrow> Some v)"
        using r(4) [OF es(2) j] s(3) [OF j] lt by (auto simp: es(1) add_ac split: option.splits)
    qed
  qed
qed

lemma no_elems_all: "elems_all P no_elems"
  by (simp add: elems_all_def no_elems_def)

lemma no_elems_field: "elem_field j no_elems = None"
  by (simp add: elem_field_def no_elems_def)

text \<open>
  C38. The element parser is safe and exact on arbitrary bytes: it never reads behind the given
  length, it always returns, every pointer it stores lies with its length inside the buffer and
  behind the matching length byte, it fails exactly on the byte strings that are not a series of
  elements, and otherwise each field has the last element with its number.
\<close>

theorem parse_elems_correct:
  assumes "len \<le> length start"
  shows "\<exists>res elems. rtw_ieee802_11_parse_elems start len = Some (res, elems)
     \<and> elems_all (elem_in start len) elems
     \<and> (res \<noteq> ParseFailed \<longleftrightarrow> (\<exists>es. ies_wf es \<and> take len start = ies_bytes es))
     \<and> (\<forall>es. ies_wf es \<and> take len start = ies_bytes es \<longrightarrow> (\<forall>i\<in>set plain_ids. elem_field i elems = last_ie i 0 es))"
proof -
  obtain res e' where r: "parse_elems_loop start 0 len no_elems 0 = Some (res, e')" "elems_all (elem_in start len) e'"
    "res = ParseFailed \<longleftrightarrow> split_ies (take len start) = None"
    and f: "\<And>es j. split_ies (take len start) = Some es \<Longrightarrow> j \<in> set plain_ids \<Longrightarrow>
       elem_field j e' = (case last_ie j 0 es of None \<Rightarrow> elem_field j no_elems | Some v \<Rightarrow> Some v)"
    using parse_elems_loop_correct [of 0 len start len no_elems 0] assms no_elems_all [of "elem_in start len"] by auto
  have f': "elem_field j e' = last_ie j 0 es" if "split_ies (take len start) = Some es" "j \<in> set plain_ids" for es j
    using f [OF that] by (simp add: no_elems_field split: option.splits)
  have "res \<noteq> ParseFailed \<longleftrightarrow> (\<exists>es. ies_wf es \<and> take len start = ies_bytes es)"
    using r(3) split_ies_iff by (metis not_None_eq option.distinct(1))
  then show ?thesis using r(1,2) f' split_ies_iff [of "take len start"] by (auto simp: rtw_ieee802_11_parse_elems_def)
qed

section \<open>The RSN element\<close>

text \<open>The fields of a parsed element lie inside it.\<close>

definition span_in :: "nat \<Rightarrow> nat option \<Rightarrow> nat \<Rightarrow> bool" where
  "span_in n p len \<longleftrightarrow> (case p of None \<Rightarrow> len = 0 | Some q \<Rightarrow> q + len \<le> n)"

lemma span_in_simps [simp]: "span_in n None len \<longleftrightarrow> len = 0" "span_in n (Some q) len \<longleftrightarrow> q + len \<le> n"
  by (simp_all add: span_in_def)

definition rsne_in :: "nat \<Rightarrow> rsne_info \<Rightarrow> bool" where
  "rsne_in n i \<longleftrightarrow> (rs_gcs i \<noteq> None \<longrightarrow> span_in n (rs_gcs i) 4) \<and> span_in n (rs_pcs_list i) (4 * unat (rs_pcs_cnt i))
     \<and> span_in n (rs_akm_list i) (4 * unat (rs_akm_cnt i)) \<and> (rs_cap i \<noteq> None \<longrightarrow> span_in n (rs_cap i) 2)
     \<and> span_in n (rs_pmkid_list i) (16 * unat (rs_pmkid_cnt i)) \<and> (rs_gmcs i \<noteq> None \<longrightarrow> span_in n (rs_gmcs i) 4)"

definition rsne_safe :: "nat \<Rightarrow> (ret \<times> rsne_info) option \<Rightarrow> bool" where
  "rsne_safe n r \<longleftrightarrow> (\<exists>ret i. r = Some (ret, i) \<and> rsne_in n i)"

lemma rsne_end_safe: "rsne_in n i \<Longrightarrow> rsne_safe n (Some (rsne_end ie_len pos i))"
  by (auto simp: rsne_safe_def rsne_end_def rsne_in_def)

lemma rsne_list_safe:
  assumes "n \<le> length ie" "rsne_in n i"
    and "\<And>cnt. pos + 2 + sz * unat cnt \<le> n \<Longrightarrow> rsne_safe n (cont (pos + 2 + sz * unat cnt) (store cnt (pos + 2) i))"
  shows "rsne_safe n (rsne_list ie n pos sz store cont i)"
  using assms rsne_end_safe [OF assms(2)] by (auto simp: rsne_list_def get_le16_def)

lemma rsne_pmkid_safe: "n \<le> length ie \<Longrightarrow> rsne_in n i \<Longrightarrow> rsne_safe n (rsne_pmkid ie n pos i)"
  unfolding rsne_pmkid_def
  by (rule rsne_list_safe) (auto simp: rsne_gmcs_def rsne_end_def rsne_safe_def rsne_in_def)

lemma rsne_cap_safe: "n \<le> length ie \<Longrightarrow> rsne_in n i \<Longrightarrow> rsne_safe n (rsne_cap ie n pos i)"
  by (auto simp: rsne_cap_def rsne_end_safe intro!: rsne_pmkid_safe) (auto simp: rsne_in_def)

lemma rsne_akm_safe: "n \<le> length ie \<Longrightarrow> rsne_in n i \<Longrightarrow> rsne_safe n (rsne_akm ie n pos i)"
  unfolding rsne_akm_def
  by (rule rsne_list_safe) (auto intro!: rsne_cap_safe simp: rsne_in_def)

lemma rsne_pcs_safe: "n \<le> length ie \<Longrightarrow> rsne_in n i \<Longrightarrow> rsne_safe n (rsne_pcs ie n pos i)"
  unfolding rsne_pcs_def
  by (rule rsne_list_safe) (auto intro!: rsne_akm_safe simp: rsne_in_def)

lemma rtw_rsne_info_parse_safe:
  assumes "n \<le> length ie"
  obtains r i where "rtw_rsne_info_parse ie n = Some (r, i)" "rsne_in n i"
proof -
  have e: "rsne_in n rsne_empty" "rsne_in n (rsne_empty\<lparr>rs_err := True\<rparr>)" by (simp_all add: rsne_in_def rsne_empty_def)
  have "rsne_safe n (rtw_rsne_info_parse ie n)"
  proof (cases "n < 4")
    case False
    then have r: "rd ie 0 = Some (ie ! 0)" "rd ie 1 = Some (ie ! 1)" using assms by (auto simp: rd_in)
    have "rsne_safe n (rsne_pcs ie n 8 (rsne_empty\<lparr>rs_gcs := Some 4\<rparr>))" if "8 \<le> n"
      using that e by (intro rsne_pcs_safe assms) (simp add: rsne_in_def rsne_empty_def)
    then show ?thesis using False r e rsne_end_safe [OF e(1)]
      by (auto simp: rtw_rsne_info_parse_def rsne_safe_def simp del: rd_Some_iff)
  qed (use e in \<open>auto simp: rtw_rsne_info_parse_def rsne_safe_def\<close>)
  then show thesis using that by (auto simp: rsne_safe_def)
qed

lemma or_suites_in: "p + 4 * n \<le> length ie \<Longrightarrow> or_suites f ie p n acc \<noteq> None"
  by (induction n arbitrary: p acc) (auto simp: suite_at_def)

lemma list_suites_in: "span_in m p (4 * unat c) \<Longrightarrow> m \<le> length ie \<Longrightarrow> list_suites f ie p c \<noteq> None"
  using or_suites_in [of "case p of None \<Rightarrow> 0 | Some p \<Rightarrow> p" "unat c" ie f 0]
  by (auto simp: list_suites_def span_in_def split: option.splits)

text \<open>No content of an element makes the parser read outside it.\<close>

lemma rtw_parse_wpa2_ie_safe:
  assumes "n \<le> length ie"
  shows "rtw_parse_wpa2_ie ie n \<noteq> None"
proof -
  obtain r i where i: "rtw_rsne_info_parse ie n = Some (r, i)" "rsne_in n i" using rtw_rsne_info_parse_safe [OF assms] .
  have "list_suites f ie (rs_pcs_list i) (rs_pcs_cnt i) \<noteq> None" "list_suites f ie (rs_akm_list i) (rs_akm_cnt i) \<noteq> None" for f
    using i(2) list_suites_in [OF _ assms] unfolding rsne_in_def by blast+
  moreover have "opt_suite ie (rs_gcs i) a \<noteq> None" "opt_suite ie (rs_gmcs i) a \<noteq> None" "cap_bits ie (rs_cap i) k \<noteq> None" for a k
    using i(2) assms by (auto simp: rsne_in_def span_in_def opt_suite_def cap_bits_def suite_at_def get_le16_def split: option.splits)
  ultimately show ?thesis using i(1) by (simp add: rtw_parse_wpa2_ie_def del: not_None_eq split: option.split)
qed

text \<open>An element that a station sends: version 1, one group cipher, lists of ciphers and key management suites, capabilities.\<close>

definition rsn_body :: "bytes \<Rightarrow> bytes list \<Rightarrow> bytes list \<Rightarrow> u16 \<Rightarrow> bytes" where
  "rsn_body g ps as cap = [1, 0] @ g @ put_le16 (of_nat (length ps)) @ concat ps @ put_le16 (of_nat (length as)) @ concat as @ put_le16 cap"

lemma get_le16_at: "get_le16 (pre @ put_le16 v @ r) (length pre) = Some v"
  using le16_roundtrip [of v] by (simp add: get_le16_def put_le16_def nth_append)

lemma or_suites_concat:
  assumes "\<forall>s\<in>set ps. length s = 4"
  shows "or_suites f (pre @ concat ps @ r) (length pre) (length ps) acc = Some (fold (\<lambda>s a. a OR f s) ps acc)"
  using assms
proof (induction ps arbitrary: pre acc)
  case (Cons s ps)
  have "suite_at f (pre @ concat (s # ps) @ r) (length pre) = Some (f s)" using Cons.prems by (simp add: suite_at_def)
  then show ?case using Cons.IH [of "pre @ s" "acc OR f s"] Cons.prems by simp
qed simp

lemma length_concat4: "\<forall>s\<in>set ps. length s = 4 \<Longrightarrow> length (concat ps) = 4 * length ps"
  by (induction ps) auto

text \<open>
  C40. Round trip of the RSN element: parsing an element built from a group cipher, lists of pairwise
  ciphers and key management suites and a capability field, followed by anything, gives back the
  cipher, the union of each list and the two options of the capabilities.
\<close>

theorem rtw_parse_wpa2_ie_roundtrip:
  assumes "length g = 4" "\<forall>s\<in>set ps. length s = 4" "\<forall>s\<in>set as. length s = 4" "length (rsn_body g ps as cap) \<le> 255"
  shows "rtw_parse_wpa2_ie ([0x30, of_nat (length (rsn_body g ps as cap))] @ rsn_body g ps as cap @ rest) (length (rsn_body g ps as cap) + 2)
    = Some (RET_SUCCESS, Some \<lparr>rp_group_cipher = rtw_get_rsn_cipher_suite g,
        rp_pairwise_cipher = fold (\<lambda>s a. a OR rtw_get_rsn_cipher_suite s) ps 0, rp_gmcs = WPA_CIPHER_BIP_CMAC_128,
        rp_akm = fold (\<lambda>s a. a OR rtw_get_akm_suite_bitmap s) as 0,
        rp_mfp_opt = drop_bit 6 cap AND 3, rp_spp_opt = drop_bit 10 cap AND 3\<rparr>)"
proof -
  define np na where "np = length ps" and "na = length as"
  define n where "n = length (rsn_body g ps as cap) + 2"
  let ?h = "[0x30, of_nat (length (rsn_body g ps as cap)), 1, 0] :: bytes"
  define ie where "ie = [0x30, of_nat (length (rsn_body g ps as cap))] @ rsn_body g ps as cap @ rest"
  have lc: "length (concat ps) = 4 * np" "length (concat as) = 4 * na"
    using assms(2,3) by (simp_all add: length_concat4 np_def na_def)
  have n: "n = 14 + 4 * np + 4 * na" using assms(1) lc by (simp add: n_def rsn_body_def put_le16_def)
  have small: "np < 2 ^ 16" "na < 2 ^ 16" using assms(4) n by (simp_all add: n_def)
  have un: "unat (of_nat np :: u16) = np" "unat (of_nat na :: u16) = na" using small by (simp_all add: unat_of_nat take_bit_nat_eq_self)
  have e1: "ie = (?h @ g) @ put_le16 (of_nat np) @ concat ps @ put_le16 (of_nat na) @ concat as @ put_le16 cap @ rest"
    and e2: "ie = (?h @ g @ put_le16 (of_nat np) @ concat ps) @ put_le16 (of_nat na) @ concat as @ put_le16 cap @ rest"
    and e3: "ie = (?h @ g @ put_le16 (of_nat np) @ concat ps @ put_le16 (of_nat na) @ concat as) @ put_le16 cap @ rest"
    and e4: "ie = (?h @ g @ put_le16 (of_nat np)) @ concat ps @ put_le16 (of_nat na) @ concat as @ put_le16 cap @ rest"
    and e5: "ie = (?h @ g @ put_le16 (of_nat np) @ concat ps @ put_le16 (of_nat na)) @ concat as @ put_le16 cap @ rest"
    by (simp_all add: ie_def rsn_body_def np_def na_def)
  have l2: "length (put_le16 v) = 2" for v by (simp add: put_le16_def)
  have g1: "get_le16 ie 8 = Some (of_nat np)" using get_le16_at [of "?h @ g"] e1 assms(1) by simp
  have g2: "get_le16 ie (10 + 4 * np) = Some (of_nat na)"
    using get_le16_at [of "?h @ g @ put_le16 (of_nat np) @ concat ps"] e2 assms(1) lc by (simp add: l2)
  have g3: "get_le16 ie (12 + 4 * np + 4 * na) = Some cap"
    using get_le16_at [of "?h @ g @ put_le16 (of_nat np) @ concat ps @ put_le16 (of_nat na) @ concat as"] e3 assms(1) lc by (simp add: l2 add_ac)
  have r: "rd ie 0 = Some 0x30" "rd ie 1 = Some (of_nat (n - 2))" by (simp_all add: ie_def n_def)
  have ul: "unat (of_nat (n - 2) :: u8) = n - 2" using assms(4) by (simp add: n_def unat_of_nat take_bit_nat_eq_self)
  have info: "rtw_rsne_info_parse ie n = Some (RET_SUCCESS, rsne_empty\<lparr>rs_gcs := Some 4, rs_pcs_cnt := of_nat np, rs_pcs_list := Some 10,
      rs_akm_cnt := of_nat na, rs_akm_list := Some (12 + 4 * np), rs_cap := Some (12 + 4 * np + 4 * na)\<rparr>)"
    using r ul g1 g2 g3 un n
    by (simp add: rtw_rsne_info_parse_def rsne_pcs_def rsne_akm_def rsne_cap_def rsne_pmkid_def rsne_list_def rsne_end_def WPA2_IE_ID_def add_ac del: rd_Some_iff)
  have s: "opt_suite ie (Some 4) 0 = Some (rtw_get_rsn_cipher_suite g)"
    using assms(1) by (simp add: opt_suite_def suite_at_def e1)
  have p: "list_suites f ie (Some 10) (of_nat np) = Some (fold (\<lambda>s a. a OR f s) ps 0)" for f
    using or_suites_concat [OF assms(2), of f "?h @ g @ put_le16 (of_nat np)"] e4 assms(1) un(1)
    unfolding np_def [symmetric] by (simp add: list_suites_def l2)
  have a: "list_suites f ie (Some (12 + 4 * np)) (of_nat na) = Some (fold (\<lambda>s a. a OR f s) as 0)" for f
    using or_suites_concat [OF assms(3), of f "?h @ g @ put_le16 (of_nat np) @ concat ps @ put_le16 (of_nat na)"] e5 assms(1) lc un(2)
    unfolding na_def [symmetric] by (simp add: list_suites_def l2)
  show ?thesis
    unfolding ie_def [symmetric] n_def [symmetric]
    using info s p a g3 by (simp add: rtw_parse_wpa2_ie_def rsne_empty_def opt_suite_def cap_bits_def)
qed

theorem parse_elems_correct_witness:
  "\<exists>res elems. rtw_ieee802_11_parse_elems [0, 2, 97, 98, 1, 1, 130] 7 = Some (res, elems)
     \<and> res \<noteq> ParseFailed \<and> elem_field 0 elems = Some (2, 2) \<and> elem_field 1 elems = Some (6, 1)"
proof -
  let ?es = "[(0, [97, 98]), (1, [130])] :: element list"
  have e: "ies_wf ?es" "take 7 [0, 2, 97, 98, 1, 1, 130] = ies_bytes ?es" by (simp_all add: ie_bytes_def)
  have p: "0 \<in> set plain_ids" "1 \<in> set plain_ids" by (simp_all add: plain_ids_def)
  have "last_ie 0 0 ?es = Some (2, 2)" "last_ie 1 0 ?es = Some (6, 1)" by simp_all
  moreover have "7 \<le> length ([0, 2, 97, 98, 1, 1, 130] :: bytes)" by simp
  ultimately show ?thesis using parse_elems_correct [of 7 "[0, 2, 97, 98, 1, 1, 130]"] e p by metis
qed

theorem rtw_parse_wpa2_ie_roundtrip_witness:
  "\<exists>p. rtw_parse_wpa2_ie ([0x30, 20] @ rsn_body [0, 0x0f, 0xac, 2] [[0, 0x0f, 0xac, 4]] [[0, 0x0f, 0xac, 2]] 0x80 @ []) (20 + 2)
      = Some (RET_SUCCESS, Some p) \<and> rp_group_cipher p = WPA_CIPHER_TKIP \<and> rp_pairwise_cipher p = WPA_CIPHER_CCMP
      \<and> rp_akm p = 2 \<and> rp_mfp_opt p = 2"
proof -
  have len: "length (rsn_body [0, 0x0f, 0xac, 2] [[0, 0x0f, 0xac, 4]] [[0, 0x0f, 0xac, 2]] 0x80) = 20"
    by (simp add: rsn_body_def put_le16_def)
  show ?thesis
    using rtw_parse_wpa2_ie_roundtrip [of "[0, 0x0f, 0xac, 2]" "[[0, 0x0f, 0xac, 4]]" "[[0, 0x0f, 0xac, 2]]" "0x80" "[]", unfolded len]
    by (auto simp: rtw_get_rsn_cipher_suite_def rtw_get_akm_suite_bitmap_def)
qed

section \<open>The WPA element\<close>

lemma wpa_pairwise_safe:
  assumes "int pos + left \<le> int (length ie)"
  shows "wpa_pairwise ie pos left g p \<noteq> None"
proof -
  have akm: "wpa_akm ie q l \<noteq> None" if "int q + l \<le> int (length ie)" for q l
    using that by (auto simp: wpa_akm_def memcmp_at_def)
  show ?thesis
  proof (cases "2 \<le> left")
    case True
    then obtain c where c: "get_le16 ie pos = Some c" using assms by (auto simp: get_le16_def)
    show ?thesis
    proof (cases "c = 0 \<or> left - 2 < uint c * 4")
      case False
      have "uint c = int (unat c)" by simp
      then have "pos + 2 + 4 * unat c \<le> length ie" "int (pos + 2 + 4 * unat c) + (left - 2 - uint c * 4) \<le> int (length ie)"
        using False assms by linarith+
      then show ?thesis using or_suites_in [of "pos + 2" "unat c" ie rtw_get_wpa_cipher_suite p] akm True c False
        by (auto simp: wpa_pairwise_def)
    qed (use c True in \<open>simp add: wpa_pairwise_def\<close>)
  qed (use akm [of pos left] assms in \<open>simp add: wpa_pairwise_def\<close>)
qed

lemma rtw_parse_wpa_ie_safe:
  assumes "6 \<le> n" "n \<le> length ie"
  shows "rtw_parse_wpa_ie ie (int n) p \<noteq> None"
proof -
  have "rd ie 0 = Some (ie ! 0)" "rd ie 1 = Some (ie ! 1)" using assms by (auto simp: rd_def)
  moreover obtain m where "memcmp_at ie 2 [0, 0x50, 0xf2, 1] = Some m" using assms by (auto simp: memcmp_at_def)
  moreover have "wpa_pairwise ie 12 (int n - 8 - 4) g p \<noteq> None" "wpa_pairwise ie 8 (int n - 8) None p \<noteq> None" for g
    using assms wpa_pairwise_safe [of 12 "int n - 8 - 4" ie g p] wpa_pairwise_safe [of 8 "int n - 8" ie None p] by simp_all
  ultimately show ?thesis using assms
    by (auto simp: rtw_parse_wpa_ie_def suite_at_def Let_def simp del: rd_Some_iff split: bool.split)
qed

end
