(* ===== verification/Recv_Mpdu.thy ===== *)
theory Recv_Mpdu
  imports Recv_Reorder
begin

unbundle bit_operations_syntax

text \<open>
  From received MPDUs to packets (\<^verbatim>\<open>core/rtw_recv.c\<close>): the LLC header, the exchange of the 802.11 header
  for an Ethernet header, the split of an A-MSDU into its subframes with the policy checks, and
  \<^verbatim>\<open>recv_process_mpdu\<close>, which hands packets to the system or back to the air. The environment record
  has the adapter's fields these functions read and, per MSDU, whether the system's allocations
  succeed. Forwarding is recorded as an event; the transmit path has its own theory. An outer \<open>None\<close>
  is an access outside the frame's buffer.
\<close>

section \<open>LLC and Ethernet headers\<close>

datatype rtw_rx_llc_hdl = RTW_RX_LLC_KEEP | RTW_RX_LLC_REMOVE

definition rtw_rfc1042_header :: bytes where "rtw_rfc1042_header = [0xaa, 0xaa, 0x03, 0x00, 0x00, 0x00]"
definition rtw_bridge_tunnel_header :: bytes where "rtw_bridge_tunnel_header = [0xaa, 0xaa, 0x03, 0x00, 0x00, 0xf8]"
definition ETH_P_AARP :: u16 where "ETH_P_AARP = 0x80F3"
definition ETH_P_IPX :: u16 where "ETH_P_IPX = 0x8137"

text \<open>\<open>buf\<close> is the memory from the start of the frame, \<open>p\<close> the position of the MSDU in it.\<close>

definition rtw_recv_llc_parse :: "bytes \<Rightarrow> nat \<Rightarrow> u16 \<Rightarrow> rtw_rx_llc_hdl option" where
  "rtw_recv_llc_parse buf p msdu_len =
     (if msdu_len < 8 then Some RTW_RX_LLC_KEEP
      else case (get_be16 buf (p + 6), memcmp_at buf p rtw_rfc1042_header, memcmp_at buf p rtw_bridge_tunnel_header) of
             (Some eth_type, Some rfc1042, Some tunnel) \<Rightarrow>
               Some (if (rfc1042 \<and> eth_type \<noteq> ETH_P_AARP \<and> eth_type \<noteq> ETH_P_IPX) \<or> tunnel
                     then RTW_RX_LLC_REMOVE else RTW_RX_LLC_KEEP)
           | _ \<Rightarrow> None)"

definition wlanhdr_to_ethhdr :: "recv_frame \<Rightarrow> rtw_rx_llc_hdl \<Rightarrow> (ret \<times> recv_frame) option" where
  "wlanhdr_to_ethhdr f llc_hdl =
     (let at = fr_attrib f;
          f = (if pa_encrypt at \<noteq> 0 then snd (recvframe_pull_tail f (uint (pa_icv_len at))) else f);
          rmv_len = uint (pa_hdrlen at) + uint (pa_iv_len at) + (if llc_hdl = RTW_RX_LLC_REMOVE then 6 else 0);
          len = (word_of_int (uint (fr_len f) - rmv_len) :: u16)
      in case recvframe_pull f (rmv_len - 14 + (if llc_hdl = RTW_RX_LLC_REMOVE then 2 else 0)) of
           (None, f) \<Rightarrow> Some (RET_FAIL, f)
         | (Some ptr, f) \<Rightarrow>
             (case frame_write f ptr (pa_dst at) of
                None \<Rightarrow> None
              | Some f \<Rightarrow>
                 (case frame_write f (ptr + 6) (pa_src at) of
                    None \<Rightarrow> None
                  | Some f \<Rightarrow>
                      if llc_hdl = RTW_RX_LLC_REMOVE then Some (RET_SUCCESS, f)
                      else map_option (Pair RET_SUCCESS) (frame_write f (ptr + 12) (put_be16 len)))))"

text \<open>\<^verbatim>\<open>rtw_os_alloc_msdu_pkt\<close>: the packet built from a subframe (the copy, or the clone if that fails).\<close>

definition rtw_os_alloc_msdu_pkt :: "bytes \<Rightarrow> bytes \<Rightarrow> bytes \<Rightarrow> rtw_rx_llc_hdl \<Rightarrow> bytes" where
  "rtw_os_alloc_msdu_pkt da sa msdu llc_hdl =
     (case llc_hdl of
        RTW_RX_LLC_REMOVE \<Rightarrow> da @ sa @ drop 6 msdu
      | RTW_RX_LLC_KEEP \<Rightarrow> da @ sa @ put_be16 (of_nat (length msdu)) @ msdu)"

section \<open>What happens to an MSDU\<close>

record msdu_env =
  me_is_ap :: bool
  me_is_sta :: bool
  me_mac :: bytes
  me_ap_isolate :: bool
  me_asoc_list_cnt :: nat
  me_peer :: "bytes \<Rightarrow> bool"
  me_amsdu_mode :: u8
  me_dot11PrivacyAlgrthm :: u32
  me_cannot_run :: bool
  me_fwd_frame :: "nat \<Rightarrow> bool"
  me_pkt_copy :: "nat \<Rightarrow> bool"
  me_pkt_alloc :: "nat \<Rightarrow> bool"

record msdu_act =
  act_indicate :: bool
  act_forward :: bool

datatype msdu_event = MsduForward bytes | MsduIndicate bytes

text \<open>
  The policy of the access point. \<open>fwd_ok\<close> says whether a transmit frame (or the list of unicast
  copies of a group frame) could be had.
\<close>

definition rtw_ap_rx_msdu_act_check :: "msdu_env \<Rightarrow> bytes \<Rightarrow> bytes \<Rightarrow> bool \<Rightarrow> msdu_act" where
  "rtw_ap_rx_msdu_act_check env da sa fwd_ok =
     (let fwd_chk = (\<lambda>ind. if me_asoc_list_cnt env \<le> 1 \<or> \<not> fwd_ok then \<lparr>act_indicate = ind, act_forward = False\<rparr>
                           else \<lparr>act_indicate = ind, act_forward = True\<rparr>);
          no = \<lparr>act_indicate = False, act_forward = False\<rparr>; ind = \<lparr>act_indicate = True, act_forward = False\<rparr>
      in if sa = me_mac env then no
         else if IS_MCAST da then (if me_ap_isolate env then ind else fwd_chk True)
         else if da = me_mac env then ind
         else if me_peer env da then (if me_ap_isolate env then no else fwd_chk False)
         else ind)"

definition rtw_sta_rx_amsdu_act_check :: msdu_act where
  "rtw_sta_rx_amsdu_act_check = \<lparr>act_indicate = True, act_forward = False\<rparr>"

definition validate_amsdu_content :: "msdu_env \<Rightarrow> rx_pkt_attrib \<Rightarrow> bytes \<Rightarrow> bytes \<Rightarrow> bool" where
  "validate_amsdu_content env at da sa \<longleftrightarrow>
     \<not> (me_amsdu_mode env = 0 \<and> me_dot11PrivacyAlgrthm env \<noteq> 0
        \<and> (pa_to_fr_ds at = 1 \<and> da \<noteq> pa_ra at \<or> pa_to_fr_ds at = 2 \<and> sa \<noteq> pa_ta at \<or> da = rtw_rfc1042_header))"

text \<open>
  \<^verbatim>\<open>recv_fwd_pkt_hdl\<close> as an event: the packet goes to the transmit path, unless it is also indicated
  and cannot be copied.
\<close>

definition recv_fwd_pkt_hdl :: "msdu_act \<Rightarrow> bool \<Rightarrow> bytes \<Rightarrow> msdu_event list" where
  "recv_fwd_pkt_hdl act copy_ok pkt = (if act_indicate act \<and> \<not> copy_ok then [] else [MsduForward pkt])"

section \<open>A-MSDU\<close>

definition MAX_SUBFRAME_COUNT :: nat where "MAX_SUBFRAME_COUNT = 64"

definition amsdu_act :: "msdu_env \<Rightarrow> nat \<Rightarrow> bytes \<Rightarrow> bytes \<Rightarrow> msdu_act" where
  "amsdu_act env k da sa =
     (if me_is_ap env then rtw_ap_rx_msdu_act_check env da sa (me_fwd_frame env k)
      else if me_is_sta env then rtw_sta_rx_amsdu_act_check
      else \<lparr>act_indicate = True, act_forward = False\<rparr>)"

definition amsdu_padding :: "nat \<Rightarrow> nat" where
  "amsdu_padding n = (let padding_len = 4 - (n + 14) mod 4 in if padding_len = 4 then 0 else padding_len)"

text \<open>
  The loop over the subframes: \<open>p\<close> and \<open>a_len\<close> are \<^verbatim>\<open>pdata\<close> and what is left, \<open>k\<close> the number of the
  subframe, \<open>subframes\<close> the packets kept for indication, \<open>fwd\<close> what was forwarded so far.
\<close>

function amsdu_loop :: "msdu_env \<Rightarrow> rx_pkt_attrib \<Rightarrow> bytes \<Rightarrow> nat \<Rightarrow> nat \<Rightarrow> nat \<Rightarrow> bytes list \<Rightarrow> msdu_event list \<Rightarrow>
    (bytes list \<times> msdu_event list) option" where
  "amsdu_loop env at buf p a_len k subframes fwd =
     (if \<not> 14 < a_len then Some (subframes, fwd)
      else case get_be16 buf (p + 12) of
        None \<Rightarrow> None
      | Some nSubframe_Length \<Rightarrow>
        let n = unat nSubframe_Length in
        if a_len < 14 + n then Some (subframes, fwd)
        else if length buf < p + 14 + n then None
        else
          let da = take 6 (drop p buf); sa = take 6 (drop (p + 6) buf); msdu = take n (drop (p + 14) buf) in
          if \<not> validate_amsdu_content env at da sa then Some (subframes, fwd)
          else case rtw_recv_llc_parse buf (p + 14) nSubframe_Length of
            None \<Rightarrow> None
          | Some llc_hdl \<Rightarrow>
            let act = amsdu_act env k da sa; pkt = rtw_os_alloc_msdu_pkt da sa msdu llc_hdl in
            if (act_indicate act \<or> act_forward act) \<and> \<not> me_pkt_alloc env k then Some (subframes, fwd)
            else
              let fwd = fwd @ (if act_forward act then recv_fwd_pkt_hdl act (me_pkt_copy env k) pkt else []);
                  subframes = subframes @ (if act_indicate act then [pkt] else []) in
              if MAX_SUBFRAME_COUNT \<le> length subframes then Some (subframes, fwd)
              else
                let a_len = a_len - 14 - n; pad = amsdu_padding n in
                if a_len = 0 then Some (subframes, fwd)
                else if a_len < pad then Some (subframes, fwd)
                else amsdu_loop env at buf (p + 14 + n + pad) (a_len - pad) (Suc k) subframes fwd)"
  by pat_completeness auto
termination by (relation "measure (\<lambda>(env, at, buf, p, a_len, k, subframes, fwd). a_len)") auto

declare amsdu_loop.simps [simp del]

definition amsdu_to_msdu :: "msdu_env \<Rightarrow> recv_frame \<Rightarrow> recv_priv \<Rightarrow> (ret \<times> msdu_event list \<times> recv_priv) option" where
  "amsdu_to_msdu env f rp =
     (let at = fr_attrib f;
          f = snd (recvframe_pull f (uint (pa_hdrlen at)));
          f = (if pa_iv_len at > 0 then snd (recvframe_pull f (uint (pa_iv_len at))) else f);
          f = (if pa_encrypt at \<noteq> 0 then snd (recvframe_pull_tail f (uint (pa_icv_len at))) else f)
      in case amsdu_loop env at (drop (nat (rx_data f)) (rx_mem f)) 0 (unat (fr_len f)) 0 [] [] of
           None \<Rightarrow> None
         | Some (subframes, fwd) \<Rightarrow>
             Some (RET_SUCCESS, fwd @ map MsduIndicate subframes, rtw_free_recvframe (f\<lparr>fr_len := 0\<rparr>) rp))"

section \<open>MPDUs\<close>

text \<open>The result has the return code, what was handed on, and the pool.\<close>

definition recv_process_mpdu :: "msdu_env \<Rightarrow> recv_frame \<Rightarrow> recv_priv \<Rightarrow> (ret \<times> msdu_event list \<times> recv_priv) option" where
  "recv_process_mpdu env f rp =
     (let at = fr_attrib f in
      if pa_amsdu at then amsdu_to_msdu env f rp
      else
       (let off = unat (pa_hdrlen at) + unat (pa_iv_len at);
            msdu_len = (word_of_int (uint (fr_len f) - uint (pa_hdrlen at) - uint (pa_iv_len at)
                          - (if pa_encrypt at \<noteq> 0 then uint (pa_icv_len at) else 0)) :: u16)
        in case rtw_recv_llc_parse (drop (nat (rx_data f)) (rx_mem f)) off msdu_len of
             None \<Rightarrow> None
           | Some llc_hdl \<Rightarrow>
              (let act = (if me_is_ap env then rtw_ap_rx_msdu_act_check env (pa_dst at) (pa_src at) (me_fwd_frame env 0)
                          else \<lparr>act_indicate = True, act_forward = False\<rparr>)
               in if \<not> act_indicate act \<and> \<not> act_forward act then Some (RET_FAIL, [], rtw_free_recvframe f rp)
                  else case wlanhdr_to_ethhdr f llc_hdl of
                    None \<Rightarrow> None
                  | Some (RET_SUCCESS, f) \<Rightarrow>
                     (let pkt = frame_payload f;
                          fwd = (if act_forward act then recv_fwd_pkt_hdl act (me_pkt_copy env 0) pkt else [])
                      in if \<not> act_indicate act then Some (RET_SUCCESS, fwd, rtw_free_recvframe f rp)
                         else if me_cannot_run env then Some (RET_SUCCESS, fwd, rtw_free_recvframe f rp)
                         else Some (RET_SUCCESS, fwd @ [MsduIndicate pkt], rtw_free_recvframe f rp))
                  | Some (r, f) \<Rightarrow> Some (r, [], rtw_free_recvframe f rp))))"

section \<open>Splitting an A-MSDU\<close>

definition llc_of :: "bytes \<Rightarrow> rtw_rx_llc_hdl" where
  "llc_of m =
     (if 8 \<le> length m \<and> (take 6 m = rtw_rfc1042_header \<and> get_be16 m 6 \<noteq> Some ETH_P_AARP \<and> get_be16 m 6 \<noteq> Some ETH_P_IPX
          \<or> take 6 m = rtw_bridge_tunnel_header)
      then RTW_RX_LLC_REMOVE else RTW_RX_LLC_KEEP)"

lemma llc_parse_at:
  assumes "length m < 65536"
  shows "rtw_recv_llc_parse (pre @ m @ r) (length pre) (of_nat (length m)) = Some (llc_of m)"
proof -
  have u: "unat (of_nat (length m) :: u16) = length m" using assms by (simp add: unat_of_nat take_bit_nat_eq_self)
  show ?thesis
  proof (cases "length m < 8")
    case False
    have "get_be16 (pre @ m @ r) (length pre + 6) = get_be16 m 6" using False by (simp add: get_be16_def nth_append)
    moreover obtain t where "get_be16 m 6 = Some t" using False by (auto simp: get_be16_def)
    moreover have "memcmp_at (pre @ m @ r) (length pre) pat = Some (take 6 m = pat)" if "length pat = 6" for pat
      using that False by (simp add: memcmp_at_def)
    moreover have "length rtw_rfc1042_header = 6" "length rtw_bridge_tunnel_header = 6"
      by (simp_all add: rtw_rfc1042_header_def rtw_bridge_tunnel_header_def)
    ultimately show ?thesis using False u by (simp add: rtw_recv_llc_parse_def llc_of_def word_less_nat_alt)
  qed (use u in \<open>simp add: rtw_recv_llc_parse_def llc_of_def word_less_nat_alt\<close>)
qed

lemma llc_parse_in:
  assumes "p + unat w \<le> length buf"
  shows "rtw_recv_llc_parse buf p w = Some (llc_of (take (unat w) (drop p buf)))"
proof -
  let ?m = "take (unat w) (drop p buf)"
  have "buf = take p buf @ ?m @ drop (p + unat w) buf" using assms by (rule drop_take_split)
  moreover have "length (take p buf) = p" "length ?m = unat w" using assms by auto
  moreover have "unat w < 65536" using unsigned_less [where w = w and ?'a = nat] by simp
  ultimately show ?thesis using llc_parse_at [of ?m "take p buf" "drop (p + unat w) buf"] by simp
qed

lemma amsdu_loop_safe:
  assumes "p + a_len \<le> length buf" "length subframes < MAX_SUBFRAME_COUNT"
  shows "\<exists>s fw. amsdu_loop env at buf p a_len k subframes fwd = Some (s, fw) \<and> length s \<le> MAX_SUBFRAME_COUNT"
  using assms
proof (induction a_len arbitrary: p k subframes fwd rule: less_induct)
  case (less a_len)
  show ?case
  proof (cases "14 < a_len")
    case True
    then obtain w where w: "get_be16 buf (p + 12) = Some w" using less.prems(1) by (auto simp: get_be16_def)
    let ?n = "unat w"
    show ?thesis
    proof (cases "a_len < 14 + ?n")
      case False
      then have in_buf: "\<not> length buf < p + 14 + ?n" using less.prems(1) by simp
      then have l: "rtw_recv_llc_parse buf (p + 14) w = Some (llc_of (take ?n (drop (p + 14) buf)))"
        by (intro llc_parse_in) simp
      have IH: "\<exists>s fw. amsdu_loop env at buf (p + 14 + ?n + pad) (a_len - 14 - ?n - pad) k' sub' fwd' = Some (s, fw) \<and> length s \<le> MAX_SUBFRAME_COUNT"
        if "\<not> a_len - 14 - ?n < pad" "\<not> MAX_SUBFRAME_COUNT \<le> length sub'" for k' sub' fwd' pad
        using that less.prems(1) True False by (intro less.IH) auto
      show ?thesis
        using True w False in_buf l IH less.prems(2) by (subst amsdu_loop.simps) (auto simp: Let_def MAX_SUBFRAME_COUNT_def)
    qed (use True w less.prems(2) in \<open>subst amsdu_loop.simps, simp\<close>)
  qed (use less.prems(2) in \<open>subst amsdu_loop.simps, simp\<close>)
qed

text \<open>An A-MSDU as a sender builds it: addresses, length and payload of each subframe, padded to four bytes except the last.\<close>

type_synonym subframe = "bytes \<times> bytes \<times> bytes \<times> bytes"

definition subframe_wf :: "subframe \<Rightarrow> bool" where
  "subframe_wf s \<longleftrightarrow> (case s of (da, sa, m, pad) \<Rightarrow>
     length da = 6 \<and> length sa = 6 \<and> m \<noteq> [] \<and> length m < 65536 \<and> length pad = amsdu_padding (length m))"

fun amsdu_bytes :: "subframe list \<Rightarrow> bytes" where
  "amsdu_bytes [] = []"
| "amsdu_bytes [(da, sa, m, pad)] = da @ sa @ put_be16 (of_nat (length m)) @ m"
| "amsdu_bytes ((da, sa, m, pad) # s # ss) = da @ sa @ put_be16 (of_nat (length m)) @ m @ pad @ amsdu_bytes (s # ss)"

definition subframe_ok :: "msdu_env \<Rightarrow> rx_pkt_attrib \<Rightarrow> subframe \<Rightarrow> bool" where
  "subframe_ok env at s \<longleftrightarrow> validate_amsdu_content env at (fst s) (fst (snd s))"

definition eth_of :: "subframe \<Rightarrow> bytes" where
  "eth_of s = (case s of (da, sa, m, pad) \<Rightarrow> rtw_os_alloc_msdu_pkt da sa m (llc_of m))"

definition sta_env :: "msdu_env \<Rightarrow> bool" where
  "sta_env env \<longleftrightarrow> \<not> me_is_ap env \<and> me_is_sta env \<and> (\<forall>k. me_pkt_alloc env k)"

text \<open>One round of the loop on the first subframe.\<close>

lemma amsdu_loop_round:
  assumes "sta_env env" "subframe_wf (da, sa, m, pad)" "length acc < MAX_SUBFRAME_COUNT"
    and buf: "buf = pre @ (da @ sa @ put_be16 (of_nat (length m)) @ m) @ r" and a: "14 + length m \<le> a_len"
  shows "amsdu_loop env at buf (length pre) a_len k acc fwd =
    (if \<not> subframe_ok env at (da, sa, m, pad) then Some (acc, fwd)
     else if MAX_SUBFRAME_COUNT \<le> Suc (length acc) then Some (acc @ [eth_of (da, sa, m, pad)], fwd)
     else if a_len - 14 - length m < amsdu_padding (length m) \<or> a_len = 14 + length m then Some (acc @ [eth_of (da, sa, m, pad)], fwd)
     else amsdu_loop env at buf (length pre + 14 + length m + length pad) (a_len - 14 - length m - length pad) (Suc k)
            (acc @ [eth_of (da, sa, m, pad)]) fwd)"
proof -
  let ?w = "of_nat (length m) :: u16"
  have wf: "length da = 6" "length sa = 6" "length m < 65536" "length pad = amsdu_padding (length m)" "m \<noteq> []"
    using assms(2) by (auto simp: subframe_wf_def)
  have u: "unat ?w = length m" using wf(3) by (simp add: unat_of_nat take_bit_nat_eq_self)
  have g: "get_be16 buf (length pre + 12) = Some ?w"
    using be16_roundtrip [of ?w] wf by (simp add: buf get_be16_def put_be16_def nth_append)
  have l2: "length (put_be16 v) = 2" for v by (simp add: put_be16_def)
  have parts: "take 6 (drop (length pre) buf) = da" "take 6 (drop (length pre + 6) buf) = sa" "take (length m) (drop (length pre + 14) buf) = m"
    using wf l2 by (simp_all add: buf)
  have inb: "\<not> length buf < length pre + 14 + length m" using wf l2 by (simp add: buf)
  have "rtw_recv_llc_parse buf (length pre + 14) ?w = Some (llc_of m)"
    using llc_parse_in [of "length pre + 14" ?w buf] inb u parts(3) by simp
  moreover have "amsdu_act env k da sa = \<lparr>act_indicate = True, act_forward = False\<rparr>"
    using assms(1) by (simp add: amsdu_act_def sta_env_def rtw_sta_rx_amsdu_act_check_def)
  moreover have "14 < a_len" "\<not> a_len < 14 + length m" using a wf(5) by (cases m; simp)+
  ultimately show ?thesis
    using g u parts inb assms(1,3) wf(4)
    by (subst amsdu_loop.simps) (auto simp: Let_def subframe_ok_def eth_of_def sta_env_def)
qed

lemma amsdu_loop_series:
  assumes "sta_env env" "\<forall>s\<in>set ss. subframe_wf s" "length acc < MAX_SUBFRAME_COUNT"
  shows "amsdu_loop env at (pre @ amsdu_bytes ss @ r) (length pre) (length (amsdu_bytes ss)) k acc fwd
    = Some (take MAX_SUBFRAME_COUNT (acc @ map eth_of (takeWhile (subframe_ok env at) ss)), fwd)"
  using assms
proof (induction ss arbitrary: pre k acc rule: amsdu_bytes.induct)
  case 1
  then show ?case by (subst amsdu_loop.simps) simp
next
  case (2 da sa m pad)
  have l: "length (amsdu_bytes [(da, sa, m, pad)]) = 14 + length m"
    using 2(2) by (simp add: subframe_wf_def put_be16_def)
  show ?case
    using amsdu_loop_round [OF 2(1) _ 2(3), of da sa m pad "pre @ amsdu_bytes [(da, sa, m, pad)] @ r" pre r "14 + length m"] 2(2,3)
    unfolding l by auto
next
  case (3 da sa m pad s ss)
  let ?all = "(da, sa, m, pad) # s # ss" and ?one = "da @ sa @ put_be16 (of_nat (length m)) @ m"
  have w: "subframe_wf (da, sa, m, pad)" using 3(3) by simp
  have lp: "length pad = amsdu_padding (length m)" "length ?one = 14 + length m"
    using w by (simp_all add: subframe_wf_def put_be16_def)
  have ne: "0 < length (amsdu_bytes (s # ss))" using 3(3) by (cases s; cases ss) (auto simp: subframe_wf_def)
  have l: "length (amsdu_bytes ?all) = 14 + length m + length pad + length (amsdu_bytes (s # ss))" using lp(2) by simp
  have round: "amsdu_loop env at (pre @ amsdu_bytes ?all @ r) (length pre) (length (amsdu_bytes ?all)) k acc fwd =
     (if \<not> subframe_ok env at (da, sa, m, pad) then Some (acc, fwd)
      else if MAX_SUBFRAME_COUNT \<le> Suc (length acc) then Some (acc @ [eth_of (da, sa, m, pad)], fwd)
      else amsdu_loop env at ((pre @ ?one @ pad) @ amsdu_bytes (s # ss) @ r) (length (pre @ ?one @ pad)) (length (amsdu_bytes (s # ss))) (Suc k)
             (acc @ [eth_of (da, sa, m, pad)]) fwd)"
  proof -
    let ?B = "length (amsdu_bytes (s # ss))"
    have pos: "length (pre @ ?one @ pad) = length pre + 14 + length m + length pad" using lp(2) by simp
    have b: "pre @ amsdu_bytes ?all @ r = pre @ ?one @ pad @ amsdu_bytes (s # ss) @ r"
      "(pre @ ?one @ pad) @ amsdu_bytes (s # ss) @ r = pre @ ?one @ pad @ amsdu_bytes (s # ss) @ r" by simp_all
    have c: "(14 + length m + length pad + ?B - 14 - length m < amsdu_padding (length m) \<or> 14 + length m + length pad + ?B = 14 + length m) = False"
      "14 + length m + length pad + ?B - 14 - length m - length pad = ?B" "14 + length m \<le> 14 + length m + length pad + ?B"
      using ne lp(1) by auto
    show ?thesis
      using amsdu_loop_round [OF 3(2) w 3(4) refl c(3), of at pre "pad @ amsdu_bytes (s # ss) @ r" k fwd]
      unfolding l pos b c if_False by (simp only: append_assoc)
  qed
  show ?case
  proof (cases "subframe_ok env at (da, sa, m, pad) \<and> \<not> MAX_SUBFRAME_COUNT \<le> Suc (length acc)")
    case True
    have "amsdu_loop env at ((pre @ ?one @ pad) @ amsdu_bytes (s # ss) @ r) (length (pre @ ?one @ pad)) (length (amsdu_bytes (s # ss))) (Suc k)
             (acc @ [eth_of (da, sa, m, pad)]) fwd
       = Some (take MAX_SUBFRAME_COUNT ((acc @ [eth_of (da, sa, m, pad)]) @ map eth_of (takeWhile (subframe_ok env at) (s # ss))), fwd)"
      using 3(2,3) True by (intro 3(1)) auto
    then show ?thesis using round True by simp
  next
    case False
    then consider "\<not> subframe_ok env at (da, sa, m, pad)" | "subframe_ok env at (da, sa, m, pad)" "Suc (length acc) = MAX_SUBFRAME_COUNT"
      using 3(4) by linarith
    then show ?thesis using round 3(4) by cases (simp_all add: take_Cons')
  qed
qed

lemma pull_ok:
  assumes "frame_wf f" "0 \<le> sz" "nat sz \<le> length (frame_payload f)"
  shows "frame_wf (snd (recvframe_pull f sz))" "frame_payload (snd (recvframe_pull f sz)) = drop (nat sz) (frame_payload f)"
    "fr_attrib (snd (recvframe_pull f sz)) = fr_attrib f" "fr_id (snd (recvframe_pull f sz)) = fr_id f"
proof -
  have "fst (recvframe_pull f sz) = Some (rx_data f + sz)"
    using assms frame_payload_length [OF assms(1)] by (auto simp: recvframe_pull_def Let_def)
  then show "frame_payload (snd (recvframe_pull f sz)) = drop (nat sz) (frame_payload f)" using assms(1,2) pull_payload by blast
qed (use assms pull_wf in \<open>auto simp: recvframe_pull_def Let_def\<close>)

lemma pull_tail_ok:
  assumes "frame_wf f" "0 \<le> sz" "nat sz \<le> length (frame_payload f)"
  shows "frame_wf (snd (recvframe_pull_tail f sz))"
    "frame_payload (snd (recvframe_pull_tail f sz)) = take (length (frame_payload f) - nat sz) (frame_payload f)"
    "fr_attrib (snd (recvframe_pull_tail f sz)) = fr_attrib f" "fr_id (snd (recvframe_pull_tail f sz)) = fr_id f"
proof -
  have "fst (recvframe_pull_tail f sz) = Some (rx_tail f - sz)"
    using assms frame_payload_length [OF assms(1)] by (auto simp: recvframe_pull_tail_def Let_def)
  then show "frame_payload (snd (recvframe_pull_tail f sz)) = take (length (frame_payload f) - nat sz) (frame_payload f)"
    using assms(1,2) pull_tail_payload by blast
qed (use assms pull_tail_wf in \<open>auto simp: recvframe_pull_tail_def Let_def\<close>)

lemma frame_mem_split:
  assumes "frame_wf f"
  shows "drop (nat (rx_data f)) (rx_mem f) = frame_payload f @ drop (length (frame_payload f)) (drop (nat (rx_data f)) (rx_mem f))"
proof -
  have "ys = take n ys @ drop (length (take n ys)) ys" for n and ys :: bytes by (simp add: min_def)
  then show ?thesis unfolding frame_payload_def .
qed

lemma amsdu_to_msdu_run:
  assumes wf: "frame_wf f" and sta: "sta_env env" and ok: "\<forall>s\<in>set subs. subframe_wf s"
    and p: "frame_payload f = hdr @ iv @ amsdu_bytes subs @ icv"
    and lens: "length hdr = unat (pa_hdrlen (fr_attrib f))" "length iv = unat (pa_iv_len (fr_attrib f))"
      "length icv = (if pa_encrypt (fr_attrib f) \<noteq> 0 then unat (pa_icv_len (fr_attrib f)) else 0)"
  shows "\<exists>g. fr_id g = fr_id f \<and> amsdu_to_msdu env f rp = Some (RET_SUCCESS,
      map MsduIndicate (take MAX_SUBFRAME_COUNT (map eth_of (takeWhile (subframe_ok env (fr_attrib f)) subs))), rtw_free_recvframe g rp)"
proof -
  let ?at = "fr_attrib f"
  define f1 where "f1 = snd (recvframe_pull f (uint (pa_hdrlen ?at)))"
  define f2 where "f2 = (if pa_iv_len ?at > 0 then snd (recvframe_pull f1 (uint (pa_iv_len ?at))) else f1)"
  define f3 where "f3 = (if pa_encrypt ?at \<noteq> 0 then snd (recvframe_pull_tail f2 (uint (pa_icv_len ?at))) else f2)"
  have 1: "frame_wf f1" "frame_payload f1 = iv @ amsdu_bytes subs @ icv" "fr_id f1 = fr_id f"
    using pull_ok [OF wf, of "uint (pa_hdrlen ?at)"] p lens(1) by (simp_all add: f1_def flip: unat_eq_nat_uint)
  have 2: "frame_wf f2" "frame_payload f2 = amsdu_bytes subs @ icv" "fr_id f2 = fr_id f"
  proof -
    consider "pa_iv_len ?at > 0" | "pa_iv_len ?at = 0" by (metis word_gt_0)
    then have "frame_wf f2 \<and> frame_payload f2 = amsdu_bytes subs @ icv \<and> fr_id f2 = fr_id f"
      using pull_ok [OF 1(1), of "uint (pa_iv_len ?at)"] 1 lens(2)
      by cases (simp_all add: f2_def flip: unat_eq_nat_uint)
    then show "frame_wf f2" "frame_payload f2 = amsdu_bytes subs @ icv" "fr_id f2 = fr_id f" by auto
  qed
  have 3: "frame_wf f3" "frame_payload f3 = amsdu_bytes subs" "fr_id f3 = fr_id f"
    using pull_tail_ok [OF 2(1), of "uint (pa_icv_len ?at)"] 2 lens(3)
    by (cases "pa_encrypt ?at = 0"; simp add: f3_def flip: unat_eq_nat_uint)+
  obtain r where r: "drop (nat (rx_data f3)) (rx_mem f3) = amsdu_bytes subs @ r"
    using frame_mem_split [OF 3(1), unfolded 3(2)] by (rule that)
  have len: "unat (fr_len f3) = length (amsdu_bytes subs)"
    using frame_wf_len [OF 3(1)] unfolding 3(2) .
  have "amsdu_loop env ?at (amsdu_bytes subs @ r) 0 (length (amsdu_bytes subs)) 0 [] [] =
      Some (take MAX_SUBFRAME_COUNT (map eth_of (takeWhile (subframe_ok env ?at) subs)), [])"
    using amsdu_loop_series [OF sta ok, of "[]" ?at "[]" r 0 "[]"] by (simp add: MAX_SUBFRAME_COUNT_def)
  then have "amsdu_to_msdu env f rp = Some (RET_SUCCESS,
      map MsduIndicate (take MAX_SUBFRAME_COUNT (map eth_of (takeWhile (subframe_ok env ?at) subs))), rtw_free_recvframe (f3\<lparr>fr_len := 0\<rparr>) rp)"
    unfolding amsdu_to_msdu_def Let_def f1_def [symmetric] f2_def [symmetric] f3_def [symmetric] r len by simp
  then show ?thesis using 3(3) by (intro exI [of _ "f3\<lparr>fr_len := 0\<rparr>"]) simp
qed

section \<open>MPDUs in station mode\<close>

lemma frame_write_id: "frame_write f p src = Some g \<Longrightarrow> fr_id g = fr_id f"
  by (auto simp: frame_write_def split: if_splits)

lemma llc_of_remove_len: "llc_of m = RTW_RX_LLC_REMOVE \<Longrightarrow> 8 \<le> length m"
  by (auto simp: llc_of_def split: if_splits)

text \<open>Two addresses, and a length where the LLC header stays, written over the end of the header.\<close>

lemma eth_header_write:
  assumes "frame_wf f" "frame_payload f = h @ m" "length h = (if llc = RTW_RX_LLC_REMOVE then 6 else 14)" "length dst = 6" "length src = 6"
    "llc = RTW_RX_LLC_REMOVE \<longrightarrow> 6 \<le> length m"
  obtains g1 g2 g3 where "frame_write f (rx_data f) dst = Some g1" "frame_write g1 (rx_data f + 6) src = Some g2"
    "if llc = RTW_RX_LLC_REMOVE then g3 = g2 else frame_write g2 (rx_data f + 12) (put_be16 v) = Some g3"
    "fr_id g3 = fr_id f" "frame_payload g3 = (if llc = RTW_RX_LLC_REMOVE then dst @ src @ drop 6 m else dst @ src @ put_be16 v @ m)"
proof -
  have l: "6 \<le> length (h @ m)" "12 \<le> length (h @ m)" using assms by auto
  obtain g1 where g1: "frame_write f (rx_data f) dst = Some g1" "frame_wf g1" "rx_data g1 = rx_data f" "frame_payload g1 = dst @ drop 6 (h @ m)"
    using frame_write_payload [OF assms(1), of 0 dst] assms(2,4) l(1) by auto
  obtain g2 where g2: "frame_write g1 (rx_data f + 6) src = Some g2" "frame_wf g2" "rx_data g2 = rx_data f"
      "frame_payload g2 = dst @ src @ drop 12 (h @ m)"
  proof -
    have "drop 12 (dst @ drop 6 (h @ m)) = drop 12 (h @ m)" using assms(4) drop_append [of 12 dst "drop 6 (h @ m)"] by (simp add: drop_drop del: drop_append)
    moreover have "6 + 6 \<le> length (frame_payload g1)" using g1(4) assms(4) l(2) by simp
    ultimately show ?thesis
      using frame_write_payload [OF g1(2), of 6 src] g1(3,4) assms(4,5) l(2) that by (auto simp del: drop_append)
  qed
  have i: "fr_id g2 = fr_id f" using frame_write_id [OF g1(1)] frame_write_id [OF g2(1)] by simp
  show ?thesis
  proof (cases llc)
    case RTW_RX_LLC_REMOVE
    then show ?thesis using g1(1) g2(1,4) i assms(3) by (intro that [of g1 g2 g2]) simp_all
  next
    case RTW_RX_LLC_KEEP
    then have l14: "length h = 14" using assms(3) by simp
    obtain g3 where g3: "frame_write g2 (rx_data f + 12) (put_be16 v) = Some g3"
        "frame_payload g3 = dst @ src @ put_be16 v @ m"
      using frame_write_payload [OF g2(2), of 12 "put_be16 v"] g2(3,4) assms(4,5) l14 by (auto simp: put_be16_def)
    show ?thesis using g1(1) g2(1) g3 i frame_write_id [OF g3(1)] RTW_RX_LLC_KEEP by (intro that [of g1 g2 g3]) simp_all
  qed
qed

lemma wlanhdr_to_ethhdr_run:
  assumes wf: "frame_wf f" and p: "frame_payload f = hv @ m @ icv"
    and lens: "length hv = unat (pa_hdrlen (fr_attrib f)) + unat (pa_iv_len (fr_attrib f))" "14 \<le> length hv"
      "length icv = (if pa_encrypt (fr_attrib f) \<noteq> 0 then unat (pa_icv_len (fr_attrib f)) else 0)"
      "length (pa_dst (fr_attrib f)) = 6" "length (pa_src (fr_attrib f)) = 6"
  shows "\<exists>g. wlanhdr_to_ethhdr f (llc_of m) = Some (RET_SUCCESS, g) \<and> fr_id g = fr_id f
     \<and> frame_payload g = rtw_os_alloc_msdu_pkt (pa_dst (fr_attrib f)) (pa_src (fr_attrib f)) m (llc_of m)"
proof -
  let ?at = "fr_attrib f" and ?H = "uint (pa_hdrlen (fr_attrib f)) + uint (pa_iv_len (fr_attrib f))"
  let ?s = "if llc_of m = RTW_RX_LLC_REMOVE then 6 else (0::int)"
  let ?k = "?H + ?s - 14 + (if llc_of m = RTW_RX_LLC_REMOVE then 2 else 0)"
  define f1 where "f1 = (if pa_encrypt ?at \<noteq> 0 then snd (recvframe_pull_tail f (uint (pa_icv_len ?at))) else f)"
  have 1: "frame_wf f1" "frame_payload f1 = hv @ m" "fr_id f1 = fr_id f"
    using pull_tail_ok [OF wf, of "uint (pa_icv_len ?at)"] wf p lens(3)
    by (cases "pa_encrypt ?at = 0"; simp add: f1_def flip: unat_eq_nat_uint)+
  have H: "?H = int (length hv)" unfolding lens(1) by simp
  have k: "0 \<le> ?k" "nat ?k = length hv - (if llc_of m = RTW_RX_LLC_REMOVE then 6 else 14)" using lens(2) unfolding H by auto
  define f2 where "f2 = snd (recvframe_pull f1 ?k)"
  have c: "nat ?k \<le> length (frame_payload f1)" unfolding k(2) 1(2) by simp
  have 2: "frame_wf f2" "frame_payload f2 = drop (nat ?k) hv @ m" "fr_id f2 = fr_id f"
    using pull_ok [OF 1(1) k(1) c] 1(3) k(2) unfolding f2_def 1(2) by (simp_all add: 1(2))
  have pull: "recvframe_pull f1 ?k = (Some (rx_data f2), f2)"
    using c frame_payload_length [OF 1(1)] k(1) unfolding f2_def by (auto simp: recvframe_pull_def Let_def)
  have len: "(word_of_int (uint (fr_len f1) - (?H + ?s)) :: u16) = of_nat (length m)" if "llc_of m \<noteq> RTW_RX_LLC_REMOVE"
  proof -
    have "uint (fr_len f1) = int (length hv + length m)" using frame_wf_len [OF 1(1)] unfolding 1(2) by (metis length_append uint_nat)
    then show ?thesis using that unfolding H by simp
  qed
  obtain g1 g2 g3 where g: "frame_write f2 (rx_data f2) (pa_dst ?at) = Some g1" "frame_write g1 (rx_data f2 + 6) (pa_src ?at) = Some g2"
    "if llc_of m = RTW_RX_LLC_REMOVE then g3 = g2 else frame_write g2 (rx_data f2 + 12) (put_be16 (of_nat (length m))) = Some g3" "fr_id g3 = fr_id f2"
    "frame_payload g3 = (if llc_of m = RTW_RX_LLC_REMOVE then pa_dst ?at @ pa_src ?at @ drop 6 m
       else pa_dst ?at @ pa_src ?at @ put_be16 (of_nat (length m)) @ m)"
  proof (rule eth_header_write [OF 2(1,2), of "llc_of m" "pa_dst ?at" "pa_src ?at" "of_nat (length m)"])
    show "length (drop (nat ?k) hv) = (if llc_of m = RTW_RX_LLC_REMOVE then 6 else 14)" unfolding k(2) using lens(2) by simp
    show "llc_of m = RTW_RX_LLC_REMOVE \<longrightarrow> 6 \<le> length m" using llc_of_remove_len [of m] by auto
  qed (use lens(4,5) that in auto)
  have "wlanhdr_to_ethhdr f (llc_of m) = Some (RET_SUCCESS, g3)"
    using g(1,2,3) len pull unfolding wlanhdr_to_ethhdr_def Let_def f1_def [symmetric]
    by (cases "llc_of m") simp_all
  then show ?thesis using g(4,5) 2(3) by (cases "llc_of m") (auto simp: rtw_os_alloc_msdu_pkt_def)
qed

text \<open>A data frame as the reorder buffer hands it on in station mode.\<close>

lemma recv_process_mpdu_run:
  assumes wf: "frame_wf f" and env: "sta_env env" "\<not> me_cannot_run env" and at: "\<not> pa_amsdu (fr_attrib f)"
    and p: "frame_payload f = hdr @ iv @ m @ icv"
    and lens: "length hdr = unat (pa_hdrlen (fr_attrib f))" "length iv = unat (pa_iv_len (fr_attrib f))" "14 \<le> length hdr" "length m < 65536"
      "length icv = (if pa_encrypt (fr_attrib f) \<noteq> 0 then unat (pa_icv_len (fr_attrib f)) else 0)"
      "length (pa_dst (fr_attrib f)) = 6" "length (pa_src (fr_attrib f)) = 6"
  shows "\<exists>g. fr_id g = fr_id f \<and> recv_process_mpdu env f rp = Some (RET_SUCCESS,
     [MsduIndicate (rtw_os_alloc_msdu_pkt (pa_dst (fr_attrib f)) (pa_src (fr_attrib f)) m (llc_of m))], rtw_free_recvframe g rp)"
proof -
  let ?at = "fr_attrib f"
  obtain g where g: "wlanhdr_to_ethhdr f (llc_of m) = Some (RET_SUCCESS, g)" "fr_id g = fr_id f"
     "frame_payload g = rtw_os_alloc_msdu_pkt (pa_dst ?at) (pa_src ?at) m (llc_of m)"
    using wlanhdr_to_ethhdr_run [OF wf, of "hdr @ iv" m icv] p lens by auto
  obtain r where r: "drop (nat (rx_data f)) (rx_mem f) = (hdr @ iv) @ m @ icv @ r"
    using frame_mem_split [OF wf, unfolded p] by (auto intro: that)
  have o: "unat (pa_hdrlen ?at) + unat (pa_iv_len ?at) = length (hdr @ iv)" using lens by simp
  have "uint (fr_len f) = int (length hdr + length iv + length m + length icv)"
    using frame_wf_len [OF wf] unfolding p by (metis add.assoc length_append uint_nat)
  moreover have "uint (pa_hdrlen ?at) = int (length hdr)" "uint (pa_iv_len ?at) = int (length iv)"
    "(if pa_encrypt ?at \<noteq> 0 then uint (pa_icv_len ?at) else 0) = int (length icv)" using lens(1,2,5) by simp_all
  ultimately have w: "(word_of_int (uint (fr_len f) - uint (pa_hdrlen ?at) - uint (pa_iv_len ?at)
      - (if pa_encrypt ?at \<noteq> 0 then uint (pa_icv_len ?at) else 0)) :: u16) = of_nat (length m)" by simp
  have "rtw_recv_llc_parse ((hdr @ iv) @ m @ icv @ r) (length (hdr @ iv)) (of_nat (length m)) = Some (llc_of m)"
    using lens(4) by (rule llc_parse_at)
  then show ?thesis
    using g(1,2) env at unfolding recv_process_mpdu_def Let_def w o r
    by (intro exI [of _ g]) (simp add: sta_env_def g(3))
qed

text \<open>On every path the frame itself goes back to the pool exactly once.\<close>

lemma pull_id: "fr_id (snd (recvframe_pull f sz)) = fr_id f" "fr_id (snd (recvframe_pull_tail f sz)) = fr_id f"
  by (auto simp: recvframe_pull_def recvframe_pull_tail_def Let_def)

lemma wlanhdr_to_ethhdr_id:
  assumes "wlanhdr_to_ethhdr f llc = Some (r, g)"
  shows "fr_id g = fr_id f"
proof -
  define f1 where "f1 = (if pa_encrypt (fr_attrib f) \<noteq> 0 then snd (recvframe_pull_tail f (uint (pa_icv_len (fr_attrib f)))) else f)"
  have "fr_id f1 = fr_id f" by (simp add: f1_def pull_id)
  moreover have "fr_id h = fr_id f1" if "recvframe_pull f1 sz = (x, h)" for x h sz
    using pull_id(1) [of f1 sz] that by simp
  ultimately show ?thesis
    using assms unfolding wlanhdr_to_ethhdr_def Let_def f1_def [symmetric]
    by (force split: option.splits prod.splits if_splits dest: frame_write_id)
qed

lemma recv_process_mpdu_frees:
  assumes "recv_process_mpdu env f rp = Some (r, ev, rp')"
  shows "\<exists>g. fr_id g = fr_id f \<and> rp' = rtw_free_recvframe g rp"
proof (cases "pa_amsdu (fr_attrib f)")
  case True
  let ?at = "fr_attrib f"
  define f1 where "f1 = snd (recvframe_pull f (uint (pa_hdrlen ?at)))"
  define f2 where "f2 = (if pa_iv_len ?at > 0 then snd (recvframe_pull f1 (uint (pa_iv_len ?at))) else f1)"
  define f3 where "f3 = (if pa_encrypt ?at \<noteq> 0 then snd (recvframe_pull_tail f2 (uint (pa_icv_len ?at))) else f2)"
  have "fr_id f3 = fr_id f" by (simp add: f3_def f2_def f1_def pull_id)
  then show ?thesis
    using assms True unfolding recv_process_mpdu_def amsdu_to_msdu_def Let_def f1_def [symmetric] f2_def [symmetric] f3_def [symmetric]
    by (auto split: option.splits intro!: exI [of _ "f3\<lparr>fr_len := 0\<rparr>"])
next
  case False
  then show ?thesis
    using assms unfolding recv_process_mpdu_def Let_def
    by (auto split: option.splits prod.splits if_splits ret.splits dest: wlanhdr_to_ethhdr_id)
qed

text \<open>
  C14. In station mode an A-MSDU that a sender assembled from subframes is taken apart into exactly
  these: up to the first subframe the address check refuses, and up to the 64th, the system gets
  for each subframe, in order, the Ethernet frame with its addresses and payload. The frame itself
  goes back to the pool.
\<close>

theorem amsdu_to_msdu_delivers:
  assumes "frame_wf f" "sta_env env" "\<forall>s\<in>set subs. subframe_wf s"
    "frame_payload f = hdr @ iv @ amsdu_bytes subs @ icv"
    "length hdr = unat (pa_hdrlen (fr_attrib f))" "length iv = unat (pa_iv_len (fr_attrib f))"
    "length icv = (if pa_encrypt (fr_attrib f) \<noteq> 0 then unat (pa_icv_len (fr_attrib f)) else 0)"
  shows "\<exists>g. fr_id g = fr_id f \<and> amsdu_to_msdu env f rp = Some (RET_SUCCESS,
      map MsduIndicate (take MAX_SUBFRAME_COUNT (map eth_of (takeWhile (subframe_ok env (fr_attrib f)) subs))), rtw_free_recvframe g rp)"
  by (rule amsdu_to_msdu_run [OF assms])

definition sample_env :: msdu_env where
  "sample_env = \<lparr>me_is_ap = False, me_is_sta = True, me_mac = replicate 6 2, me_ap_isolate = False, me_asoc_list_cnt = 0,
     me_peer = (\<lambda>_. False), me_amsdu_mode = 0, me_dot11PrivacyAlgrthm = 0, me_cannot_run = False, me_fwd_frame = (\<lambda>_. True),
     me_pkt_copy = (\<lambda>_. True), me_pkt_alloc = (\<lambda>_. True)\<rparr>"

definition sample_subs :: "subframe list" where
  "sample_subs = [(replicate 6 2, replicate 6 4, [1, 2, 3], [0, 0, 0]), (replicate 6 2, replicate 6 4, [5], [0])]"

definition sample_amsdu :: recv_frame where
  "sample_amsdu = (sample_frame 9 0)\<lparr>fr_len := 61, rx_mem := replicate 26 0 @ amsdu_bytes sample_subs, rx_tail := 61\<rparr>"

theorem amsdu_to_msdu_delivers_witness:
  "\<exists>g. fr_id g = 9 \<and> amsdu_to_msdu sample_env sample_amsdu sample_recv_priv = Some (RET_SUCCESS,
     [MsduIndicate (replicate 6 2 @ replicate 6 4 @ [0, 3, 1, 2, 3]), MsduIndicate (replicate 6 2 @ replicate 6 4 @ [0, 1, 5])],
     rtw_free_recvframe g sample_recv_priv)"
proof -
  have l: "length (amsdu_bytes sample_subs) = 35" by (simp add: sample_subs_def put_be16_def)
  have p: "frame_payload sample_amsdu = replicate 26 0 @ [] @ amsdu_bytes sample_subs @ []"
    using l by (simp add: sample_amsdu_def frame_payload_def sample_frame_def)
  have a: "fr_attrib sample_amsdu = sample_attrib\<lparr>pa_seq_num := 0\<rparr>" "fr_id sample_amsdu = 9"
    by (simp_all add: sample_amsdu_def sample_frame_def)
  have w: "frame_wf sample_amsdu" "sta_env sample_env" using l by (simp_all add: frame_wf_def sample_amsdu_def sample_env_def sta_env_def sample_frame_def)
  have s: "\<forall>s\<in>set sample_subs. subframe_wf s" by (simp add: sample_subs_def subframe_wf_def amsdu_padding_def)
  have ok: "subframe_ok sample_env t s" for t s
    by (simp add: subframe_ok_def validate_amsdu_content_def sample_env_def NO_PRIVACY_def)
  have e: "map eth_of sample_subs = [replicate 6 2 @ replicate 6 4 @ [0, 3, 1, 2, 3], replicate 6 2 @ replicate 6 4 @ [0, 1, 5]]"
    by (simp add: sample_subs_def eth_of_def llc_of_def rtw_os_alloc_msdu_pkt_def put_be16_def)
  have tw: "takeWhile (subframe_ok sample_env t) sample_subs = sample_subs" for t
    by (simp add: sample_subs_def ok)
  show ?thesis
    using amsdu_to_msdu_delivers [OF w(1,2) s p, of sample_recv_priv] unfolding tw e a
    by (simp add: sample_attrib_def MAX_SUBFRAME_COUNT_def)
qed

end
