(* ===== verification/Ap_Pwrsave.thy ===== *)
theory Ap_Pwrsave
  imports Sta_Mgt Ie_Search
begin

unbundle bit_operations_syntax

text \<open>
  Power save in access point mode (\<^verbatim>\<open>core/rtw_xmit.c\<close>, \<^verbatim>\<open>core/rtw_recv.c\<close>): frames for a dozing
  station are kept in its \<^verbatim>\<open>sleep_q\<close> and announced in the TIM bitmap, group frames are kept while
  anybody dozes. \<^verbatim>\<open>stop_sta_xmit\<close> and \<^verbatim>\<open>wakeup_sta_to_xmit\<close> follow the power management bit of
  received frames, a PS-Poll fetches one frame, a trigger frame the delivery-enabled ones. Sending of
  null frames and rewriting of the beacon are recorded in the adapter's log. A station is its offset in
  the station pool; the locks are left out because every routine runs under one.
\<close>

section \<open>The adapter's parts\<close>

definition WIFI_SLEEP_STATE :: u32 where "WIFI_SLEEP_STATE = 4"
definition WIFI_STA_ALIVE_CHK_STATE :: u32 where "WIFI_STA_ALIVE_CHK_STATE = 0x400"
definition QSLT_HIGH :: u8 where "QSLT_HIGH = 0x11"

definition sta_of :: "adapter \<Rightarrow> nat \<Rightarrow> sta_info" where
  "sta_of ad i = pstainfo_buf (ad_stapriv ad) ! i"

definition upd_sta :: "nat \<Rightarrow> (sta_info \<Rightarrow> sta_info) \<Rightarrow> adapter \<Rightarrow> adapter" where
  "upd_sta i g ad = ad\<lparr>ad_stapriv := (ad_stapriv ad)\<lparr>pstainfo_buf := (pstainfo_buf (ad_stapriv ad))[i := g (sta_of ad i)]\<rparr>\<rparr>"

definition upd_tim :: "(bytes \<Rightarrow> bytes) \<Rightarrow> adapter \<Rightarrow> adapter" where
  "upd_tim g ad = ad\<lparr>ad_stapriv := (ad_stapriv ad)\<lparr>tim_bitmap := g (tim_bitmap (ad_stapriv ad))\<rparr>\<rparr>"

definition upd_dz :: "(bytes \<Rightarrow> bytes) \<Rightarrow> adapter \<Rightarrow> adapter" where
  "upd_dz g ad = ad\<lparr>ad_stapriv := (ad_stapriv ad)\<lparr>sta_dz_bitmap := g (sta_dz_bitmap (ad_stapriv ad))\<rparr>\<rparr>"

definition ad_note_add :: "ad_note \<Rightarrow> adapter \<Rightarrow> adapter" where
  "ad_note_add n ad = ad\<lparr>ad_log := ad_log ad @ [n]\<rparr>"

abbreviation ad_tim :: "adapter \<Rightarrow> bytes" where "ad_tim ad \<equiv> tim_bitmap (ad_stapriv ad)"
abbreviation ad_dz :: "adapter \<Rightarrow> bytes" where "ad_dz ad \<equiv> sta_dz_bitmap (ad_stapriv ad)"
abbreviation ad_get_sta :: "adapter \<Rightarrow> bytes \<Rightarrow> nat option" where "ad_get_sta ad \<equiv> rtw_get_stainfo (ad_stapriv ad)"

definition sta_asoc :: "adapter \<Rightarrow> nat \<Rightarrow> bool" where
  "sta_asoc ad i \<longleftrightarrow> si_state (sta_of ad i) AND WIFI_ASOC_STATE \<noteq> 0"

definition sta_sleeps :: "sta_info \<Rightarrow> bool" where
  "sta_sleeps s \<longleftrightarrow> si_state s AND WIFI_SLEEP_STATE \<noteq> 0"

definition sta_aid8 :: "sta_info \<Rightarrow> u8" where
  "sta_aid8 s = ucast (si_aid s)"

text \<open>
  The switch over a user priority that picks one of \<^verbatim>\<open>uapsd_vo\<close>, \<^verbatim>\<open>uapsd_vi\<close>, \<^verbatim>\<open>uapsd_be\<close>,
  \<^verbatim>\<open>uapsd_bk\<close> (in this order in \<open>si_uapsd\<close>) and tests a bit of it.
\<close>

definition wmmps_ac :: "u8 \<Rightarrow> u8 \<Rightarrow> sta_info \<Rightarrow> bool" where
  "wmmps_ac m priority s =
     (case si_uapsd s of (vo, vi, be, bk) \<Rightarrow>
        (if priority = 1 \<or> priority = 2 then bk
         else if priority = 4 \<or> priority = 5 then vi
         else if priority = 6 \<or> priority = 7 then vo
         else be) AND m \<noteq> 0)"

text \<open>
  The WMM element of an association request (\<^verbatim>\<open>core/rtw_ap.c\<close>) says which categories are
  delivery-enabled and trigger-enabled: bits 0 and 1 of the \<^verbatim>\<open>uapsd\<close> fields. \<open>qos\<close> is \<^verbatim>\<open>qospriv.qos_option\<close>;
  \<open>None\<close> is a read behind the elements.
\<close>

definition WLAN_STA_WME :: u32 where "WLAN_STA_WME = 0x200"

definition uapsd_bits :: "u8 \<Rightarrow> nat \<Rightarrow> u8" where
  "uapsd_bits qos_info n = (if bit qos_info n then 3 else 0)"

definition rtw_ap_parse_sta_wmm_ie :: "bool \<Rightarrow> bytes \<Rightarrow> nat \<Rightarrow> sta_info \<Rightarrow> sta_info option" where
  "rtw_ap_parse_sta_wmm_ie qos tlv_ies tlv_ies_len sta =
     (let sta = sta\<lparr>si_flags := si_flags sta AND NOT WLAN_STA_WME, si_qos_option := False, si_qos_info := 0,
            si_has_legacy_ac := 1, si_uapsd := (0, 0, 0, 0)\<rparr>
      in if \<not> qos then Some sta
      else case rtw_get_ie_ex (Some tlv_ies) tlv_ies_len WLAN_EID_VENDOR_SPECIFIC (Some [0, 0x50, 0xf2, 2, 0, 1]) False of
        None \<Rightarrow> None
      | Some None \<Rightarrow> Some sta
      | Some (Some (p, _, _)) \<Rightarrow>
          (case rd tlv_ies (p + 8) of
             None \<Rightarrow> None
           | Some q \<Rightarrow> Some (sta\<lparr>si_flags := si_flags sta OR WLAN_STA_WME, si_qos_option := True, si_qos_info := q,
               si_max_sp_len := drop_bit 5 q AND 3, si_has_legacy_ac := (if q AND 0xf \<noteq> 0xf then 1 else 0),
               si_uapsd := (if q AND 0xf \<noteq> 0 then (uapsd_bits q 0, uapsd_bits q 1, uapsd_bits q 3, uapsd_bits q 2) else (0, 0, 0, 0))\<rparr>)))"

section \<open>Buffering\<close>

text \<open>\<^verbatim>\<open>hiq_filter\<close> is 0 for \<^verbatim>\<open>ALLOW_ALL\<close>, 1 for \<^verbatim>\<open>ALLOW_SPECIAL\<close>, 2 for \<^verbatim>\<open>DENY_ALL\<close>.\<close>

definition xmitframe_hiq_filter :: "adapter \<Rightarrow> xmit_frame \<Rightarrow> bool" where
  "xmitframe_hiq_filter ad f =
     (if wifi_spec (ad_xmitpriv ad) then True
      else if ad_hiq_filter ad = 1 then xf_ether_type f = 0x0806 \<or> xf_ether_type f = 0x888e \<or> xf_dhcp_pkt f
      else ad_hiq_filter ad = 0)"

definition sleepq_push :: "xmit_frame \<Rightarrow> sta_info \<Rightarrow> sta_info" where
  "sleepq_push f s = s\<lparr>si_sleep_q := si_sleep_q s @ [f], si_sleepq_len := si_sleepq_len s + 1\<rparr>"

text \<open>
  \<^verbatim>\<open>xmitframe_enqueue_for_sleeping_sta\<close>: whether the frame was taken, the frame (a triggered group
  frame is steered to the high queue), and the adapter.
\<close>

definition xmitframe_enqueue_for_sleeping_sta :: "xmit_frame \<Rightarrow> adapter \<Rightarrow> bool \<times> xmit_frame \<times> adapter" where
  "xmitframe_enqueue_for_sleeping_sta f ad =
     (if \<not> ad_mlme_ap ad then (False, f, ad)
      else
       (let psta = ad_get_sta ad (xf_ra f); bmcst = IS_MCAST (xf_ra f) in
        if xf_psta f \<noteq> psta then (False, f, ad)
        else case psta of
          None \<Rightarrow> (False, f, ad)
        | Some i \<Rightarrow>
            if \<not> sta_asoc ad i then (False, f, ad)
            else if xf_triggered f
            then (False, if bmcst \<and> xmitframe_hiq_filter ad f then f\<lparr>xf_qsel := QSLT_HIGH\<rparr> else f, ad)
            else if bmcst then
              (if rtw_tim_map_anyone_be_set (ad_dz ad) then
                 (let update_tim = (\<not> rtw_tim_map_is_set (ad_tim ad) 0);
                      ad = upd_sta i (sleepq_push f) ad;
                      ad = upd_dz (\<lambda>m. rtw_tim_map_set m 0) (upd_tim (\<lambda>m. rtw_tim_map_set m 0) ad)
                  in (True, f, ad_note_add (if update_tim then UpdateBeaconTim else ChkBmcSleepqCmd) ad))
               else (False, f, ad))
            else if sta_sleeps (sta_of ad i) \<and> rtw_tim_map_is_set (ad_dz ad) (sta_aid8 (sta_of ad i)) then
              (let aid = sta_aid8 (sta_of ad i);
                   wmm = wmmps_ac 1 (xf_priority f) (sta_of ad i);
                   legacy = si_has_legacy_ac (sta_of ad i) \<noteq> 0;
                   ad = upd_sta i (\<lambda>s. let s = sleepq_push f s
                          in if wmm then s\<lparr>si_sleepq_ac_len := si_sleepq_ac_len s + 1\<rparr> else s) ad
               in if legacy \<and> \<not> wmm \<or> \<not> legacy \<and> wmm then
                    (let update_tim = (\<not> rtw_tim_map_is_set (ad_tim ad) aid);
                         ad = upd_tim (\<lambda>m. rtw_tim_map_set m aid) ad
                     in (True, f, if update_tim then ad_note_add UpdateBeaconTim ad else ad))
                  else (True, f, ad))
            else (False, f, ad)))"

text \<open>
  \<^verbatim>\<open>dequeue_xmitframes_to_sleeping_queue\<close> on the queue of category \<open>ac\<close>: \<open>kept\<close> are the frames that
  stay. The counters are those of the category of the frame's own priority.
\<close>

definition servq_dec :: "nat \<Rightarrow> nat \<Rightarrow> adapter \<Rightarrow> adapter" where
  "servq_dec i ac ad =
     (let xp = ad_xmitpriv ad; sq = servq xp i ac; h = hwxmits xp ac in
      ad\<lparr>ad_xmitpriv := xp\<lparr>servq := (servq xp)(i := (servq xp i)(ac := sq\<lparr>qcnt := qcnt sq - 1\<rparr>)),
                           hwxmits := (hwxmits xp)(ac := h\<lparr>accnt := accnt h - 1\<rparr>)\<rparr>\<rparr>)"

fun dequeue_sleeping_loop :: "nat \<Rightarrow> xmit_frame list \<Rightarrow> xmit_frame list \<Rightarrow> adapter \<Rightarrow> xmit_frame list \<times> adapter" where
  "dequeue_sleeping_loop i [] kept ad = (kept, ad)"
| "dequeue_sleeping_loop i (f # fs) kept ad =
     (case xmitframe_enqueue_for_sleeping_sta (f\<lparr>xf_triggered := False\<rparr>) ad of
        (True, f, ad) \<Rightarrow> dequeue_sleeping_loop i fs kept (servq_dec i (rtw_get_sta_pending (xf_priority f)) ad)
      | (False, f, ad) \<Rightarrow> dequeue_sleeping_loop i fs (kept @ [f]) ad)"

definition dequeue_xmitframes_to_sleeping_queue :: "nat \<Rightarrow> nat \<Rightarrow> adapter \<Rightarrow> adapter" where
  "dequeue_xmitframes_to_sleeping_queue i ac ad =
     (let (kept, ad) = dequeue_sleeping_loop i (sta_pending (servq (ad_xmitpriv ad) i ac)) [] ad;
          xp = ad_xmitpriv ad in
      ad\<lparr>ad_xmitpriv := xp\<lparr>servq := (servq xp)(i := (servq xp i)(ac := (servq xp i ac)\<lparr>sta_pending := kept\<rparr>))\<rparr>\<rparr>)"

text \<open>\<^verbatim>\<open>rtw_list_delete(&q.tx_pending)\<close>: the station leaves the scheduler's list of the category.\<close>

definition tx_pending_delete :: "nat \<Rightarrow> nat \<Rightarrow> adapter \<Rightarrow> adapter" where
  "tx_pending_delete i ac ad =
     (let xp = ad_xmitpriv ad; h = hwxmits xp ac in
      ad\<lparr>ad_xmitpriv := xp\<lparr>hwxmits := (hwxmits xp)(ac := h\<lparr>hw_sta_queue := removeAll i (hw_sta_queue h)\<rparr>)\<rparr>\<rparr>)"

definition stop_sta_queues :: "nat \<Rightarrow> adapter \<Rightarrow> adapter" where
  "stop_sta_queues i ad =
     fold (\<lambda>ac ad. tx_pending_delete i ac (dequeue_xmitframes_to_sleeping_queue i ac ad)) [0, 1, 2, 3] ad"

definition stop_sta_xmit :: "nat \<Rightarrow> adapter \<Rightarrow> adapter" where
  "stop_sta_xmit i ad =
     (let bmc = rtw_get_bcmc_stainfo (ad_stapriv ad);
          ad = upd_sta i (\<lambda>s. s\<lparr>si_state := si_state s OR WIFI_SLEEP_STATE\<rparr>) ad;
          ad = upd_dz (\<lambda>m. rtw_tim_map_set m (sta_aid8 (sta_of ad i))) ad;
          ad = stop_sta_queues i ad
      in case bmc of None \<Rightarrow> ad | Some b \<Rightarrow> stop_sta_queues b ad)"

section \<open>Delivery\<close>

text \<open>\<^verbatim>\<open>rtl8192eu_hal_xmitframe_enqueue\<close>.\<close>

definition rtw_hal_xmitframe_enqueue :: "xmit_frame \<Rightarrow> adapter \<Rightarrow> adapter" where
  "rtw_hal_xmitframe_enqueue f ad =
     (case rtw_xmitframe_enqueue (ad_get_sta ad) (sta_asoc ad) f (ad_xmitpriv ad) of
        (RET_SUCCESS, xp) \<Rightarrow> ad\<lparr>ad_xmitpriv := xp\<rparr>
      | (_, xp) \<Rightarrow> ad\<lparr>ad_xmitpriv := (rtw_free_xmitframe f xp)\<lparr>tx_drop := tx_drop (rtw_free_xmitframe f xp) + 1\<rparr>\<rparr>)"

definition sleepq_pop :: "xmit_frame \<Rightarrow> sta_info \<Rightarrow> sta_info" where
  "sleepq_pop f s = s\<lparr>si_sleep_q := remove1 f (si_sleep_q s), si_sleepq_len := si_sleepq_len s - 1\<rparr>"

text \<open>One frame of the wake-up loop of a station.\<close>

definition wakeup_one :: "nat \<Rightarrow> xmit_frame \<Rightarrow> adapter \<Rightarrow> adapter" where
  "wakeup_one i f ad =
     (let wmm = wmmps_ac 2 (xf_priority f) (sta_of ad i);
          ad = upd_sta i (sleepq_pop f) ad;
          f' = f\<lparr>xf_mdata := si_sleepq_len (sta_of ad i) > 0\<rparr>;
          ad = (if wmm then upd_sta i (\<lambda>s. s\<lparr>si_sleepq_ac_len := si_sleepq_ac_len s - 1\<rparr>) ad else ad);
          f' = (if wmm then f'\<lparr>xf_mdata := si_sleepq_ac_len (sta_of ad i) > 0, xf_eosp := \<not> si_sleepq_ac_len (sta_of ad i) > 0\<rparr>
                else f')
      in rtw_hal_xmitframe_enqueue (f'\<lparr>xf_triggered := True\<rparr>) ad)"

text \<open>One frame of the loop over the group frames.\<close>

definition wakeup_bmc_one :: "nat \<Rightarrow> xmit_frame \<Rightarrow> adapter \<Rightarrow> adapter" where
  "wakeup_bmc_one b f ad =
     (let ad = upd_sta b (sleepq_pop f) ad
      in rtw_hal_xmitframe_enqueue (f\<lparr>xf_mdata := si_sleepq_len (sta_of ad b) > 0, xf_triggered := True\<rparr>) ad)"

text \<open>The station itself is awake again; the result says whether the TIM bit was set.\<close>

definition wakeup_state :: "nat \<Rightarrow> adapter \<Rightarrow> bool \<times> adapter" where
  "wakeup_state i ad =
     (if si_sleepq_len (sta_of ad i) = 0 then
        (let aid = sta_aid8 (sta_of ad i); was_set = rtw_tim_map_is_set (ad_tim ad) aid;
             ad = upd_tim (\<lambda>m. rtw_tim_map_clear m aid) ad;
             ad = upd_sta i (\<lambda>s.
                    let s = (if sta_sleeps s then s\<lparr>si_state := si_state s XOR WIFI_SLEEP_STATE\<rparr> else s)
                    in if si_state s AND WIFI_STA_ALIVE_CHK_STATE \<noteq> 0
                       then s\<lparr>si_expire_to := sp_expire_to (ad_stapriv ad), si_state := si_state s XOR WIFI_STA_ALIVE_CHK_STATE\<rparr>
                       else s) ad
         in (was_set, upd_dz (\<lambda>m. rtw_tim_map_clear m aid) ad))
      else (False, ad))"

definition wakeup_bmc :: "nat \<Rightarrow> adapter \<Rightarrow> bool \<times> adapter" where
  "wakeup_bmc b ad =
     (if rtw_tim_map_anyone_be_set_exclude_aid0 (ad_dz ad) then (False, ad)
      else
       (let ad = fold (wakeup_bmc_one b) (si_sleep_q (sta_of ad b)) ad in
        if si_sleepq_len (sta_of ad b) = 0
        then (rtw_tim_map_is_set (ad_tim ad) 0, upd_dz (\<lambda>m. rtw_tim_map_clear m 0) (upd_tim (\<lambda>m. rtw_tim_map_clear m 0) ad))
        else (False, ad)))"

definition wakeup_sta_to_xmit :: "nat \<Rightarrow> adapter \<Rightarrow> adapter" where
  "wakeup_sta_to_xmit i ad =
     (let bmc = rtw_get_bcmc_stainfo (ad_stapriv ad);
          ad = fold (wakeup_one i) (si_sleep_q (sta_of ad i)) ad;
          (uc, ad) = wakeup_state i ad;
          (mc, ad) = (case bmc of None \<Rightarrow> (False, ad) | Some b \<Rightarrow> wakeup_bmc b ad)
      in if uc \<or> mc then ad_note_add UpdateBeaconTim ad else ad)"

text \<open>The loop of \<^verbatim>\<open>xmit_delivery_enabled_frames\<close> over the frames of the queue.\<close>

definition delivery_one :: "nat \<Rightarrow> xmit_frame \<Rightarrow> adapter \<Rightarrow> adapter" where
  "delivery_one i f ad =
     (if \<not> wmmps_ac 2 (xf_priority f) (sta_of ad i) then ad
      else
       (let ad = upd_sta i (\<lambda>s. (sleepq_pop f s)\<lparr>si_sleepq_ac_len := si_sleepq_ac_len s - 1\<rparr>) ad;
            more = si_sleepq_ac_len (sta_of ad i) > 0;
            ad = rtw_hal_xmitframe_enqueue (f\<lparr>xf_mdata := more, xf_eosp := \<not> more, xf_triggered := True\<rparr>) ad
        in if si_sleepq_ac_len (sta_of ad i) = 0 \<and> si_has_legacy_ac (sta_of ad i) = 0
           then ad_note_add UpdateBeaconTim (upd_tim (\<lambda>m. rtw_tim_map_clear m (sta_aid8 (sta_of ad i))) ad)
           else ad))"

definition xmit_delivery_enabled_frames :: "nat \<Rightarrow> adapter \<Rightarrow> adapter" where
  "xmit_delivery_enabled_frames i ad = fold (delivery_one i) (si_sleep_q (sta_of ad i)) ad"

section \<open>What received frames trigger\<close>

definition process_pwrbit_data :: "bool \<Rightarrow> nat \<Rightarrow> adapter \<Rightarrow> adapter" where
  "process_pwrbit_data pwrbit i ad =
     (if pwrbit then (if \<not> sta_sleeps (sta_of ad i) then stop_sta_xmit i ad else ad)
      else (if sta_sleeps (sta_of ad i) then wakeup_sta_to_xmit i ad else ad))"

definition process_wmmps_data :: "u8 \<Rightarrow> nat \<Rightarrow> adapter \<Rightarrow> adapter" where
  "process_wmmps_data priority i ad =
     (let s = sta_of ad i in
      if \<not> si_qos_option s \<or> si_qos_info s AND 0xf = 0 then ad
      else if sta_sleeps s \<and> wmmps_ac 2 priority s then
        (if si_sleepq_ac_len s > 0 then xmit_delivery_enabled_frames i ad
         else ad_note_add (IssueQosNulldata (si_mac_addr s) (ucast priority)) ad)
      else ad)"

text \<open>
  The PS-Poll branch of \<^verbatim>\<open>validate_recv_ctrl_frame\<close>: \<open>aid\<close> is \<^verbatim>\<open>GetAid\<close>, \<open>priority\<close> the frame's
  \<^verbatim>\<open>pattrib->priority\<close>.
\<close>

definition pspoll_frame :: "nat \<Rightarrow> adapter \<Rightarrow> adapter" where
  "pspoll_frame i ad =
     (let aid = sta_aid8 (sta_of ad i) in
      case si_sleep_q (sta_of ad i) of
        f # _ \<Rightarrow>
          (let ad = upd_sta i (sleepq_pop f) ad;
               ad = rtw_hal_xmitframe_enqueue (f\<lparr>xf_mdata := si_sleepq_len (sta_of ad i) > 0, xf_triggered := True\<rparr>) ad
           in if si_sleepq_len (sta_of ad i) = 0
              then ad_note_add UpdateBeaconTim (upd_tim (\<lambda>m. rtw_tim_map_clear m aid) ad) else ad)
      | [] \<Rightarrow>
          if rtw_tim_map_is_set (ad_tim ad) aid then
            (let ad = (if si_sleepq_len (sta_of ad i) = 0 then ad_note_add (IssueNulldata (si_mac_addr (sta_of ad i))) ad
                       else upd_sta i (\<lambda>s. s\<lparr>si_sleepq_len := 0\<rparr>) ad)
             in ad_note_add UpdateBeaconTim (upd_tim (\<lambda>m. rtw_tim_map_clear m aid) ad))
          else ad)"

definition pspoll_hdl :: "u16 \<Rightarrow> u8 \<Rightarrow> nat \<Rightarrow> adapter \<Rightarrow> adapter" where
  "pspoll_hdl aid priority i ad =
     (if si_aid (sta_of ad i) \<noteq> aid \<or> wmmps_ac 1 priority (sta_of ad i) then ad
      else
       (let ad = upd_sta i (\<lambda>s. if si_state s AND WIFI_STA_ALIVE_CHK_STATE \<noteq> 0
                    then s\<lparr>si_expire_to := sp_expire_to (ad_stapriv ad), si_state := si_state s XOR WIFI_STA_ALIVE_CHK_STATE\<rparr>
                    else s) ad
        in if sta_sleeps (sta_of ad i) \<and> rtw_tim_map_is_set (ad_dz ad) (sta_aid8 (sta_of ad i)) then pspoll_frame i ad else ad))"

section \<open>Invariant\<close>

abbreviation sp_sta :: "sta_priv \<Rightarrow> nat \<Rightarrow> sta_info" where
  "sp_sta sp i \<equiv> pstainfo_buf sp ! i"

definition si_asoc :: "sta_info \<Rightarrow> bool" where
  "si_asoc s \<longleftrightarrow> si_state s AND WIFI_ASOC_STATE \<noteq> 0"

text \<open>What the power save routines never change in a station.\<close>

definition sta_core :: "sta_info \<Rightarrow> bytes \<times> u16 \<times> (u8 \<times> u8 \<times> u8 \<times> u8) \<times> u8 \<times> bool" where
  "sta_core s = (si_mac_addr s, si_aid s, si_uapsd s, si_has_legacy_ac s, si_asoc s)"

definition ps_members :: "sta_priv \<Rightarrow> nat set" where
  "ps_members sp = {i \<in> set (sta_live sp). si_asoc (sp_sta sp i)}"

text \<open>
  A station's categories as the WMM element leaves them: delivery-enabled is trigger-enabled, and
  \<^verbatim>\<open>has_legacy_ac\<close> says that one of them is not delivery-enabled. Each of the user priorities 0, 1, 4 and 6
  stands for its category.
\<close>

definition all_delivery_enabled :: "sta_info \<Rightarrow> bool" where
  "all_delivery_enabled s \<longleftrightarrow> (\<forall>p\<in>set [0, 1, 4, 6]. wmmps_ac 1 p s)"

text \<open>
  The rule of unscheduled automatic power save delivery: the beacon announces the frames of the
  categories that are not delivery-enabled, because a trigger frame does not fetch them; when all
  categories are delivery-enabled, it announces every frame.
\<close>

definition announced :: "sta_info \<Rightarrow> xmit_frame \<Rightarrow> bool" where
  "announced s f \<longleftrightarrow> \<not> wmmps_ac 1 (xf_priority f) s \<or> all_delivery_enabled s"

definition uapsd_ok :: "sta_info \<Rightarrow> bool" where
  "uapsd_ok s \<longleftrightarrow> (\<forall>p\<in>set [0, 1, 4, 6]. wmmps_ac 1 p s = wmmps_ac 2 p s) \<and> (si_has_legacy_ac s \<noteq> 0 \<longleftrightarrow> \<not> all_delivery_enabled s)"

lemma wmmps_ac_cases:
  obtains q where "q \<in> set [0, 1, 4, 6 :: u8]" "\<And>m s. wmmps_ac m p s = wmmps_ac m q s"
proof -
  define q :: u8 where "q = (if p = 1 \<or> p = 2 then 1 else if p = 4 \<or> p = 5 then 4 else if p = 6 \<or> p = 7 then 6 else 0)"
  have "q \<in> set [0, 1, 4, 6]" by (simp add: q_def)
  moreover have "wmmps_ac m p s = wmmps_ac m q s" for m s by (auto simp: wmmps_ac_def q_def split: prod.splits)
  ultimately show thesis by (rule that)
qed

lemma uapsd_okD:
  assumes "uapsd_ok s"
  shows "wmmps_ac 2 p s = wmmps_ac 1 p s" "announced s f \<longleftrightarrow> (si_has_legacy_ac s \<noteq> 0) \<noteq> wmmps_ac 1 (xf_priority f) s"
proof -
  show "wmmps_ac 2 p s = wmmps_ac 1 p s" by (rule wmmps_ac_cases [of p]) (use assms in \<open>auto simp: uapsd_ok_def\<close>)
  have "wmmps_ac 1 (xf_priority f) s" if "all_delivery_enabled s"
    by (rule wmmps_ac_cases [of "xf_priority f"]) (use that in \<open>auto simp: all_delivery_enabled_def\<close>)
  then show "announced s f \<longleftrightarrow> (si_has_legacy_ac s \<noteq> 0) \<noteq> wmmps_ac 1 (xf_priority f) s"
    using assms by (auto simp: announced_def uapsd_ok_def)
qed

text \<open>Whatever an association request holds, the station it makes is of this kind.\<close>

lemma parse_sta_wmm_ie_uapsd:
  assumes "rtw_ap_parse_sta_wmm_ie qos ies n s = Some s'"
  shows "uapsd_ok s'"
proof -
  have none: "uapsd_ok s'" if "si_uapsd s' = (0, 0, 0, 0)" "si_has_legacy_ac s' = 1" for s' :: sta_info
    using that by (simp add: uapsd_ok_def all_delivery_enabled_def wmmps_ac_def)
  have some: "uapsd_ok s'" if "si_uapsd s' = (uapsd_bits q 0, uapsd_bits q 1, uapsd_bits q 3, uapsd_bits q 2)"
    "si_has_legacy_ac s' = (if q AND 0xf \<noteq> 0xf then 1 else 0)" for s' :: sta_info and q
  proof -
    have "q AND 0xf = 0xf \<longleftrightarrow> (\<forall>n<4. bit q n)"
    proof -
      have "bit (0xf :: u8) n \<longleftrightarrow> n < 4" for n
        using bit_mask_iff [where ?'a = u8, of 4 n] by (auto simp: mask_eq_exp_minus_1 possible_bit_word)
      then show ?thesis by (auto simp: bit_eq_iff bit_simps)
    qed
    then have "q AND 0xf = 0xf \<longleftrightarrow> bit q 0 \<and> bit q 1 \<and> bit q 2 \<and> bit q 3" by (auto simp: numeral_eq_Suc less_Suc_eq)
    then show ?thesis using that by (auto simp: uapsd_ok_def all_delivery_enabled_def wmmps_ac_def uapsd_bits_def)
  qed
  show ?thesis
    using assms none [of s'] some [of s'] unfolding rtw_ap_parse_sta_wmm_ie_def
    by (auto simp: Let_def split: if_splits option.splits)
qed

definition ps_static :: "sta_priv \<Rightarrow> bool" where
  "ps_static sp \<longleftrightarrow> sta_inv sp \<and> length (sta_dz_bitmap sp) = length (tim_bitmap sp)
     \<and> inj_on (\<lambda>i. sta_aid8 (sp_sta sp i)) (ps_members sp) \<and> set_option (rtw_get_bcmc_stainfo sp) \<subseteq> ps_members sp
     \<and> (\<forall>i\<in>ps_members sp. unat (sta_aid8 (sp_sta sp i)) < 8 * length (tim_bitmap sp)
           \<and> (sta_aid8 (sp_sta sp i) = 0 \<longleftrightarrow> rtw_get_bcmc_stainfo sp = Some i)
           \<and> (rtw_get_bcmc_stainfo sp \<noteq> Some i \<longrightarrow> uapsd_ok (sp_sta sp i)))"

definition ps_queue :: "sta_priv \<Rightarrow> nat \<Rightarrow> sta_info \<Rightarrow> bool" where
  "ps_queue sp i s \<longleftrightarrow> unat (si_sleepq_len s) = length (si_sleep_q s)
     \<and> (\<forall>f\<in>set (si_sleep_q s). \<not> xf_triggered f \<and> xf_psta f = Some i \<and> rtw_get_stainfo sp (xf_ra f) = Some i)"

definition ps_doze :: "bytes \<Rightarrow> bytes \<Rightarrow> sta_info \<Rightarrow> bool" where
  "ps_doze tim dz s \<longleftrightarrow>
     (if sta_aid8 s = 0 then si_sleep_q s \<noteq> [] \<longrightarrow> rtw_tim_map_is_set tim 0 \<and> rtw_tim_map_is_set dz 0
      else (sta_sleeps s \<longleftrightarrow> rtw_tim_map_is_set dz (sta_aid8 s)) \<and> (si_sleep_q s \<noteq> [] \<longrightarrow> sta_sleeps s)
        \<and> length (filter (\<lambda>f. wmmps_ac 1 (xf_priority f) s) (si_sleep_q s)) \<le> unat (si_sleepq_ac_len s)
        \<and> ((\<exists>f\<in>set (si_sleep_q s). announced s f) \<longrightarrow> rtw_tim_map_is_set tim (sta_aid8 s)))"

definition ps_inv :: "sta_priv \<Rightarrow> bool" where
  "ps_inv sp \<longleftrightarrow> ps_static sp
     \<and> (\<forall>i\<in>ps_members sp. ps_queue sp i (sp_sta sp i) \<and> ps_doze (tim_bitmap sp) (sta_dz_bitmap sp) (sp_sta sp i))"

lemma state_bits: "si_asoc s \<longleftrightarrow> bit (si_state s) 0" "sta_sleeps s \<longleftrightarrow> bit (si_state s) 2"
proof -
  have 1: "WIFI_ASOC_STATE = push_bit 0 1" "WIFI_SLEEP_STATE = push_bit 2 1"
    by (simp_all add: WIFI_ASOC_STATE_def WIFI_SLEEP_STATE_def)
  show "si_asoc s \<longleftrightarrow> bit (si_state s) 0" "sta_sleeps s \<longleftrightarrow> bit (si_state s) 2"
    unfolding si_asoc_def sta_sleeps_def 1 by (simp_all only: bit_iff_and_push_bit_not_eq_0)
qed

lemma state_masks: "bit WIFI_SLEEP_STATE n \<longleftrightarrow> n = 2" "bit WIFI_STA_ALIVE_CHK_STATE n \<longleftrightarrow> n = 10"
proof -
  have e: "WIFI_SLEEP_STATE = 2 ^ 2" "WIFI_STA_ALIVE_CHK_STATE = 2 ^ 10"
    by (simp_all add: WIFI_STA_ALIVE_CHK_STATE_def WIFI_SLEEP_STATE_def)
  show "bit WIFI_SLEEP_STATE n \<longleftrightarrow> n = 2" "bit WIFI_STA_ALIVE_CHK_STATE n \<longleftrightarrow> n = 10"
    unfolding e bit_exp_iff by auto
qed

text \<open>A change of one station and of its own bits.\<close>

definition ps_change :: "sta_priv \<Rightarrow> nat \<Rightarrow> sta_info \<Rightarrow> bytes \<Rightarrow> bytes \<Rightarrow> sta_priv" where
  "ps_change sp i s tim dz = sp\<lparr>pstainfo_buf := (pstainfo_buf sp)[i := s], tim_bitmap := tim, sta_dz_bitmap := dz\<rparr>"

lemma ps_member_bound: "sta_inv sp \<Longrightarrow> i \<in> ps_members sp \<Longrightarrow> i < length (pstainfo_buf sp)"
  by (auto simp: ps_members_def sta_inv_def)

lemma ps_change_get [simp]:
  assumes "sta_core s = sta_core (sp_sta sp i)"
  shows "rtw_get_stainfo (ps_change sp i s tim dz) a = rtw_get_stainfo sp a"
proof -
  have "si_mac_addr ((pstainfo_buf sp)[i := s] ! j) = si_mac_addr (sp_sta sp j)" for j
    using assms by (cases "i < length (pstainfo_buf sp)"; cases "i = j") (simp_all add: sta_core_def list_update_beyond)
  then show ?thesis by (simp add: rtw_get_stainfo_def ps_change_def)
qed

lemma ps_change_core:
  assumes "i < length (pstainfo_buf sp)" "sta_core s = sta_core (sp_sta sp i)"
  shows "sta_core (sp_sta (ps_change sp i s tim dz) j) = sta_core (sp_sta sp j)"
  using assms by (simp add: ps_change_def nth_list_update)

lemma ps_change_members:
  assumes inv: "sta_inv sp" and i: "i \<in> ps_members sp" and core: "sta_core s = sta_core (sp_sta sp i)"
  shows "sta_inv (ps_change sp i s tim dz)" "ps_members (ps_change sp i s tim dz) = ps_members sp"
proof -
  define sp' where "sp' = ps_change sp i s tim dz"
  note c = ps_change_core [OF ps_member_bound [OF inv i] core, of tim dz]
  have c: "si_mac_addr (sp_sta sp' j) = si_mac_addr (sp_sta sp j)" "si_asoc (sp_sta sp' j) = si_asoc (sp_sta sp j)" for j
    using c [of j] by (simp_all add: sta_core_def sp'_def)
  have h: "sta_hash sp' = sta_hash sp" "free_sta_queue sp' = free_sta_queue sp" "asoc_sta_count sp' = asoc_sta_count sp"
    "length (pstainfo_buf sp') = length (pstainfo_buf sp)"
    by (simp_all add: sp'_def ps_change_def)
  have l: "sta_live sp' = sta_live sp" by (simp add: sta_live_def h)
  have "sta_inv sp'" using inv by (simp add: sta_inv_def l h c)
  moreover have "ps_members sp' = ps_members sp" by (simp add: ps_members_def l c)
  ultimately show "sta_inv (ps_change sp i s tim dz)" "ps_members (ps_change sp i s tim dz) = ps_members sp" by (simp_all add: sp'_def)
qed

lemma ps_change_static:
  assumes "ps_static sp" "i \<in> ps_members sp" "sta_core s = sta_core (sp_sta sp i)"
    "length tim = length (tim_bitmap sp)" "length dz = length (sta_dz_bitmap sp)"
  shows "ps_static (ps_change sp i s tim dz)" "ps_members (ps_change sp i s tim dz) = ps_members sp"
proof -
  let ?sp' = "ps_change sp i s tim dz"
  have inv: "sta_inv sp" using assms(1) by (simp add: ps_static_def)
  note m = ps_change_members [OF inv assms(2,3)]
  show "ps_members ?sp' = ps_members sp" by (rule m)
  have c: "sta_aid8 (sp_sta ?sp' j) = sta_aid8 (sp_sta sp j)" "uapsd_ok (sp_sta ?sp' j) = uapsd_ok (sp_sta sp j)" for j
    using ps_change_core [OF ps_member_bound [OF inv assms(2)] assms(3), of tim dz j]
    by (simp_all add: sta_core_def sta_aid8_def wmmps_ac_def uapsd_ok_def all_delivery_enabled_def)
  have "rtw_get_bcmc_stainfo ?sp' = rtw_get_bcmc_stainfo sp"
    unfolding rtw_get_bcmc_stainfo_def by (rule ps_change_get [OF assms(3)])
  then show "ps_static ?sp'"
    using assms(1,4,5) m by (simp add: ps_static_def c) (simp add: ps_change_def)
qed

lemma ps_change_inv:
  assumes inv: "ps_inv sp" and i: "i \<in> ps_members sp" and core: "sta_core s = sta_core (sp_sta sp i)"
    and len: "length tim = length (tim_bitmap sp)" "length dz = length (sta_dz_bitmap sp)"
    and bits: "\<And>a. a \<noteq> sta_aid8 s \<Longrightarrow> rtw_tim_map_is_set tim a = rtw_tim_map_is_set (tim_bitmap sp) a"
      "\<And>a. a \<noteq> sta_aid8 s \<Longrightarrow> rtw_tim_map_is_set dz a = rtw_tim_map_is_set (sta_dz_bitmap sp) a"
    and new: "ps_queue sp i s" "ps_doze tim dz s"
  shows "ps_inv (ps_change sp i s tim dz)"
proof -
  let ?sp = "ps_change sp i s tim dz"
  have st: "ps_static sp" using inv by (simp add: ps_inv_def)
  note s = ps_change_static [OF st i core len]
  have b: "i < length (pstainfo_buf sp)" using st i ps_member_bound by (auto simp: ps_static_def)
  have q: "ps_queue ?sp j t = ps_queue sp j t" for j t using core by (simp add: ps_queue_def)
  have "ps_queue ?sp j (sp_sta ?sp j) \<and> ps_doze tim dz (sp_sta ?sp j)" if j: "j \<in> ps_members sp" for j
  proof (cases "j = i")
    case True
    then show ?thesis using new b q by (simp add: ps_change_def)
  next
    case False
    then have sj: "sp_sta ?sp j = sp_sta sp j" by (simp add: ps_change_def)
    have "sta_aid8 (sp_sta sp j) \<noteq> sta_aid8 (sp_sta sp i)"
      using st i j False by (auto simp: ps_static_def dest: inj_onD)
    moreover have "sta_aid8 (sp_sta sp i) = sta_aid8 s" using core by (simp add: sta_core_def sta_aid8_def)
    ultimately have "sta_aid8 (sp_sta sp j) \<noteq> sta_aid8 s" by simp
    then have "rtw_tim_map_is_set tim (sta_aid8 (sp_sta sp j)) = rtw_tim_map_is_set (tim_bitmap sp) (sta_aid8 (sp_sta sp j))"
      "rtw_tim_map_is_set dz (sta_aid8 (sp_sta sp j)) = rtw_tim_map_is_set (sta_dz_bitmap sp) (sta_aid8 (sp_sta sp j))"
      by (simp_all add: bits)
    then have "ps_doze tim dz (sp_sta sp j) = ps_doze (tim_bitmap sp) (sta_dz_bitmap sp) (sp_sta sp j)"
      by (cases "sta_aid8 (sp_sta sp j) = 0") (simp_all add: ps_doze_def)
    then show ?thesis using inv j sj q by (simp add: ps_inv_def)
  qed
  moreover have "tim_bitmap ?sp = tim" "sta_dz_bitmap ?sp = dz" by (simp_all add: ps_change_def)
  ultimately show ?thesis using s unfolding ps_inv_def by simp
qed

section \<open>Steps\<close>

lemma upd_sel [simp]:
  "ad_stapriv (upd_sta i g ad) = ps_change (ad_stapriv ad) i (g (sta_of ad i)) (ad_tim ad) (ad_dz ad)"
  "ad_stapriv (upd_tim h ad) = (ad_stapriv ad)\<lparr>tim_bitmap := h (ad_tim ad)\<rparr>"
  "ad_stapriv (upd_dz h ad) = (ad_stapriv ad)\<lparr>sta_dz_bitmap := h (ad_dz ad)\<rparr>"
  "ad_stapriv (ad_note_add n ad) = ad_stapriv ad" "ad_mlme_ap (upd_sta i g ad) = ad_mlme_ap ad" 
  "ad_xmitpriv (upd_sta i g ad) = ad_xmitpriv ad" "ad_xmitpriv (upd_tim h ad) = ad_xmitpriv ad"
  "ad_xmitpriv (upd_dz h ad) = ad_xmitpriv ad" "ad_xmitpriv (ad_note_add n ad) = ad_xmitpriv ad"
  by (simp_all add: upd_sta_def upd_tim_def upd_dz_def ad_note_add_def ps_change_def)

lemma ps_change_sel [simp]:
  "tim_bitmap (ps_change sp i s tim dz) = tim" "sta_dz_bitmap (ps_change sp i s tim dz) = dz"
  "(ps_change sp i s tim dz)\<lparr>tim_bitmap := t\<rparr> = ps_change sp i s t dz"
  "(ps_change sp i s tim dz)\<lparr>sta_dz_bitmap := d\<rparr> = ps_change sp i s tim d"
  "ps_change (ps_change sp i s tim dz) i s' t d = ps_change sp i s' t d"
  "i < length (pstainfo_buf sp) \<Longrightarrow> pstainfo_buf (ps_change sp i s tim dz) ! i = s"
  "length (pstainfo_buf (ps_change sp i s tim dz)) = length (pstainfo_buf sp)"
  "sp_expire_to (ps_change sp i s tim dz) = sp_expire_to sp"
  by (simp_all add: ps_change_def)

lemma hal_enqueue_sta [simp]: "ad_stapriv (rtw_hal_xmitframe_enqueue f ad) = ad_stapriv ad"
  by (simp add: rtw_hal_xmitframe_enqueue_def split: prod.splits ret.splits)

lemma tim_is_set:
  "rtw_tim_map_is_set (rtw_tim_map_set m a) b \<longleftrightarrow> (a = b \<and> unat a < 8 * length m) \<or> rtw_tim_map_is_set m b"
  "rtw_tim_map_is_set (rtw_tim_map_clear m a) b \<longleftrightarrow> a \<noteq> b \<and> rtw_tim_map_is_set m b"
  by (simp_all only: rtw_tim_map_is_set_def rtw_tim_map_set_def rtw_tim_map_clear_def bmp_map.is_set_set bmp_map.is_set_clr)

lemma tim_len [simp]: "length (rtw_tim_map_set m a) = length m" "length (rtw_tim_map_clear m a) = length m"
  by (simp_all add: rtw_tim_map_set_def rtw_tim_map_clear_def rtw_bmp_set_def rtw_bmp_clear_def)

text \<open>Room for another frame in the counters of a station.\<close>

definition ps_room :: "nat \<Rightarrow> sta_info \<Rightarrow> bool" where
  "ps_room n s \<longleftrightarrow> unat (si_sleepq_len s) + n < 2 ^ 32 \<and> unat (si_sleepq_ac_len s) + n < 2 ^ 32"

lemma unat_inc32: "unat (w :: u32) + 1 < 2 ^ 32 \<Longrightarrow> unat (w + 1) = unat w + 1"
  by (simp add: unat_word_ariths)

lemma get_sta_mcast:
  assumes "sta_inv sp" "rtw_get_stainfo sp a = Some i"
  shows "IS_MCAST a \<longleftrightarrow> rtw_get_bcmc_stainfo sp = Some i"
proof
  assume "IS_MCAST a"
  then show "rtw_get_bcmc_stainfo sp = Some i"
    using assms by (simp add: rtw_get_bcmc_stainfo_def get_stainfo_iff sta_canon_def)
next
  assume "rtw_get_bcmc_stainfo sp = Some i"
  then have "sta_mac sp i = bc_addr" using assms(1) by (simp add: rtw_get_bcmc_stainfo_def get_stainfo_iff sta_canon_def)
  then show "IS_MCAST a" using assms by (auto simp: get_stainfo_iff sta_canon_def split: if_splits)
qed

lemma sleepq_push_doze:
  assumes "ps_queue sp i s" "ps_doze tim dz s" "ps_room 1 s" "xf_psta f = Some i" "rtw_get_stainfo sp (xf_ra f) = Some i" "\<not> xf_triggered f"
  shows "ps_queue sp i (sleepq_push f s)"
  using assms unat_inc32 [of "si_sleepq_len s"] by (auto simp: ps_queue_def sleepq_push_def ps_room_def)

lemma enqueue_sleeping_inv:
  assumes inv: "ps_inv (ad_stapriv ad)" and r: "xmitframe_enqueue_for_sleeping_sta f ad = (r, f', ad')"
    and room: "\<And>i. i \<in> ps_members (ad_stapriv ad) \<Longrightarrow> ps_room 1 (sta_of ad i)"
  shows "ps_inv (ad_stapriv ad')"
proof (cases r)
  case False
  then have "ad' = ad" using r by (auto simp: xmitframe_enqueue_for_sleeping_sta_def Let_def split: option.splits if_splits)
  then show ?thesis using inv by simp
next
  case True
  let ?sp = "ad_stapriv ad"
  obtain i where g: "rtw_get_stainfo ?sp (xf_ra f) = Some i" "xf_psta f = Some i" "sta_asoc ad i" "\<not> xf_triggered f"
    using r True by (auto simp: xmitframe_enqueue_for_sleeping_sta_def Let_def split: option.splits if_splits)
  let ?s = "sta_of ad i"
  have st: "ps_static ?sp" "sta_inv ?sp" using inv by (simp_all add: ps_inv_def ps_static_def)
  have i: "i \<in> ps_members ?sp" using g st(2) by (auto simp: ps_members_def get_stainfo_iff sta_asoc_def si_asoc_def sta_of_def)
  have old: "ps_queue ?sp i ?s" "ps_doze (ad_tim ad) (ad_dz ad) ?s" using inv i by (auto simp: ps_inv_def sta_of_def)
  have aid: "unat (sta_aid8 ?s) < 8 * length (ad_tim ad)" "sta_aid8 ?s = 0 \<longleftrightarrow> IS_MCAST (xf_ra f)" "length (ad_dz ad) = length (ad_tim ad)"
    using st i get_sta_mcast [OF st(2) g(1)] by (auto simp: ps_static_def sta_of_def)
  have q: "ps_queue ?sp i (sleepq_push f ?s)" using sleepq_push_doze [OF old room [OF i] g(2,1,4)] .
  have c: "sta_core (sleepq_push f ?s) = sta_core ?s" by (simp add: sta_core_def sleepq_push_def si_asoc_def)
  show ?thesis
  proof (cases "IS_MCAST (xf_ra f)")
    case mc: True
    then have "ad_stapriv ad' = ps_change ?sp i (sleepq_push f ?s) (rtw_tim_map_set (ad_tim ad) 0) (rtw_tim_map_set (ad_dz ad) 0)"
      using r True g by (auto simp: xmitframe_enqueue_for_sleeping_sta_def Let_def split: if_splits)
    moreover have "ps_inv (ps_change ?sp i (sleepq_push f ?s) (rtw_tim_map_set (ad_tim ad) 0) (rtw_tim_map_set (ad_dz ad) 0))"
      using aid mc c by (intro ps_change_inv [OF inv i _ _ _ _ _ q]) (auto simp: sta_of_def tim_is_set ps_doze_def sleepq_push_def sta_aid8_def)
    ultimately show ?thesis by simp
  next
    case uc: False
    let ?wmm = "wmmps_ac 1 (xf_priority f) ?s"
    let ?s' = "(let s = sleepq_push f ?s in if ?wmm then s\<lparr>si_sleepq_ac_len := si_sleepq_ac_len s + 1\<rparr> else s)"
    let ?ann = "si_has_legacy_ac ?s \<noteq> 0 \<and> \<not> ?wmm \<or> \<not> si_has_legacy_ac ?s \<noteq> 0 \<and> ?wmm"
    let ?t = "if ?ann then rtw_tim_map_set (ad_tim ad) (sta_aid8 ?s) else ad_tim ad"
    have sl: "sta_sleeps ?s" "rtw_tim_map_is_set (ad_dz ad) (sta_aid8 ?s)"
      using r True g uc by (auto simp: xmitframe_enqueue_for_sleeping_sta_def Let_def split: if_splits)
    have e: "ad_stapriv ad' = ps_change ?sp i ?s' ?t (ad_dz ad)"
      using r True g uc sl by (auto simp: xmitframe_enqueue_for_sleeping_sta_def Let_def split: if_splits)
    have f: "sta_aid8 ?s' = sta_aid8 ?s" "sta_core ?s' = sta_core ?s" "sta_sleeps ?s' = sta_sleeps ?s"
      "wmmps_ac m p ?s' = wmmps_ac m p ?s" "announced ?s' g = announced ?s g" "si_sleep_q ?s' = si_sleep_q ?s @ [f]" for m p g
      using c by (auto simp: Let_def sleepq_push_def sta_aid8_def sta_core_def si_asoc_def sta_sleeps_def wmmps_ac_def announced_def all_delivery_enabled_def)
    have n: "unat (si_sleepq_ac_len ?s') = unat (si_sleepq_ac_len ?s) + (if ?wmm then 1 else 0)"
      using room [OF i] unat_inc32 [of "si_sleepq_ac_len ?s"] by (auto simp: Let_def sleepq_push_def ps_room_def)
    have q': "ps_queue ?sp i ?s'" using q by (auto simp: ps_queue_def Let_def)
    have "uapsd_ok ?s" using st i aid(2) uc by (auto simp: ps_static_def sta_of_def)
    then have a: "announced ?s f \<longleftrightarrow> ?ann" by (auto simp: uapsd_okD(2))
    have "ps_doze ?t (ad_dz ad) ?s'"
      using old(2) aid uc sl unfolding ps_doze_def f n by (auto simp: tim_is_set a)
    then have "ps_inv (ps_change ?sp i ?s' ?t (ad_dz ad))"
      using f(1,2) by (intro ps_change_inv [OF inv i _ _ _ _ _ q']) (auto simp: sta_of_def tim_is_set)
    then show ?thesis using e by simp
  qed
qed

text \<open>The wake-up loop empties the queue and touches nothing else of the station table.\<close>

lemma ps_change_self: "ps_change sp i (sp_sta sp i) (tim_bitmap sp) (sta_dz_bitmap sp) = sp"
  by (simp add: ps_change_def)

definition slept_out :: "sta_info \<Rightarrow> u32 \<Rightarrow> u32 \<Rightarrow> sta_info" where
  "slept_out s n ac = s\<lparr>si_sleep_q := [], si_sleepq_len := n, si_sleepq_ac_len := ac\<rparr>"

lemma slept_out_sel [simp]:
  "sta_core (slept_out s n ac) = sta_core s" "sta_aid8 (slept_out s n ac) = sta_aid8 s" "si_sleep_q (slept_out s n ac) = []"
  "si_sleepq_len (slept_out s n ac) = n" "sta_sleeps (slept_out s n ac) = sta_sleeps s"
  by (simp_all add: slept_out_def sta_core_def si_asoc_def sta_aid8_def sta_sleeps_def)

lemma wakeup_fold:
  assumes "i < length (pstainfo_buf (ad_stapriv ad))"
  shows "\<exists>ac. ad_stapriv (fold (wakeup_one i) (si_sleep_q (sta_of ad i)) ad)
     = ps_change (ad_stapriv ad) i (slept_out (sta_of ad i) (si_sleepq_len (sta_of ad i) - of_nat (length (si_sleep_q (sta_of ad i)))) ac)
         (ad_tim ad) (ad_dz ad)"
  using assms
proof (induction "si_sleep_q (sta_of ad i)" arbitrary: ad)
  case Nil
  have "slept_out (sta_of ad i) (si_sleepq_len (sta_of ad i)) (si_sleepq_ac_len (sta_of ad i)) = sta_of ad i"
    using Nil(1) by (simp add: slept_out_def)
  then show ?case using Nil(1) [symmetric] by (intro exI [of _ "si_sleepq_ac_len (sta_of ad i)"]) (simp add: sta_of_def ps_change_self)
next
  case (Cons f fs)
  let ?s = "sta_of ad i" and ?ad = "wakeup_one i f ad"
  obtain ac where st: "ad_stapriv ?ad = ps_change (ad_stapriv ad) i ((sleepq_pop f ?s)\<lparr>si_sleepq_ac_len := ac\<rparr>) (ad_tim ad) (ad_dz ad)"
  proof
    show "ad_stapriv ?ad = ps_change (ad_stapriv ad) i ((sleepq_pop f ?s)\<lparr>si_sleepq_ac_len := (if wmmps_ac 2 (xf_priority f) ?s
        then si_sleepq_ac_len ?s - 1 else si_sleepq_ac_len ?s)\<rparr>) (ad_tim ad) (ad_dz ad)"
      using Cons.prems by (auto simp: wakeup_one_def Let_def sta_of_def sleepq_pop_def)
  qed
  have q: "si_sleep_q (sta_of ?ad i) = fs" "si_sleepq_len (sta_of ?ad i) = si_sleepq_len ?s - 1"
    using Cons.hyps(2) [symmetric] Cons.prems st by (simp_all add: sta_of_def sleepq_pop_def)
  from Cons.hyps(1) [of ?ad] q Cons.prems st obtain ac' where
    "ad_stapriv (fold (wakeup_one i) fs ?ad) = ps_change (ad_stapriv ?ad) i (slept_out (sta_of ?ad i) (si_sleepq_len ?s - 1 - of_nat (length fs)) ac') (ad_tim ?ad) (ad_dz ?ad)"
    by auto
  moreover have "slept_out (sta_of ?ad i) n a = slept_out ?s n a" for n a
    using st Cons.prems by (simp add: sta_of_def slept_out_def sleepq_pop_def)
  moreover have "si_sleepq_len ?s - 1 - of_nat (length fs) = si_sleepq_len ?s - of_nat (length (si_sleep_q ?s))"
    using Cons.hyps(2) [symmetric] by (simp add: algebra_simps)
  ultimately show ?case using st Cons.hyps(2) [symmetric] by auto
qed

lemma wakeup_bmc_fold:
  assumes "b < length (pstainfo_buf (ad_stapriv ad))"
  shows "ad_stapriv (fold (wakeup_bmc_one b) (si_sleep_q (sta_of ad b)) ad)
     = ps_change (ad_stapriv ad) b (slept_out (sta_of ad b) (si_sleepq_len (sta_of ad b) - of_nat (length (si_sleep_q (sta_of ad b))))
          (si_sleepq_ac_len (sta_of ad b))) (ad_tim ad) (ad_dz ad)"
  using assms
proof (induction "si_sleep_q (sta_of ad b)" arbitrary: ad)
  case Nil
  have "slept_out (sta_of ad b) (si_sleepq_len (sta_of ad b)) (si_sleepq_ac_len (sta_of ad b)) = sta_of ad b"
    using Nil(1) by (simp add: slept_out_def)
  then show ?case using Nil(1) [symmetric] by (simp add: sta_of_def ps_change_self)
next
  case (Cons f fs)
  let ?s = "sta_of ad b" and ?ad = "wakeup_bmc_one b f ad"
  have st: "ad_stapriv ?ad = ps_change (ad_stapriv ad) b (sleepq_pop f ?s) (ad_tim ad) (ad_dz ad)"
    by (simp add: wakeup_bmc_one_def Let_def)
  have q: "si_sleep_q (sta_of ?ad b) = fs" "si_sleepq_len (sta_of ?ad b) = si_sleepq_len ?s - 1" "si_sleepq_ac_len (sta_of ?ad b) = si_sleepq_ac_len ?s"
    using Cons.hyps(2) [symmetric] Cons.prems st by (simp_all add: sta_of_def sleepq_pop_def)
  have "slept_out (sta_of ?ad b) n a = slept_out ?s n a" for n a
    using st Cons.prems by (simp add: sta_of_def slept_out_def sleepq_pop_def)
  moreover have "si_sleepq_len ?s - 1 - of_nat (length fs) = si_sleepq_len ?s - of_nat (length (si_sleep_q ?s))"
    using Cons.hyps(2) [symmetric] by (simp add: algebra_simps)
  ultimately show ?case using Cons.hyps(1) [of ?ad] q Cons.prems st Cons.hyps(2) [symmetric] by (simp add: diff_diff_eq)
qed

lemma ps_queue_empty: "si_sleep_q s = [] \<Longrightarrow> si_sleepq_len s = 0 \<Longrightarrow> ps_queue sp i s"
  by (simp add: ps_queue_def)

lemma queue_len_word: "ps_queue sp i s \<Longrightarrow> si_sleepq_len s - of_nat (length (si_sleep_q s)) = 0"
  by (simp add: ps_queue_def unat_eq_word)

definition awake :: "sta_priv \<Rightarrow> sta_info \<Rightarrow> sta_info" where
  "awake sp s = (let s = (if sta_sleeps s then s\<lparr>si_state := si_state s XOR WIFI_SLEEP_STATE\<rparr> else s)
                 in if si_state s AND WIFI_STA_ALIVE_CHK_STATE \<noteq> 0
                    then s\<lparr>si_expire_to := sp_expire_to sp, si_state := si_state s XOR WIFI_STA_ALIVE_CHK_STATE\<rparr> else s)"

lemma awake_sel [simp]:
  "sta_core (awake sp s) = sta_core s" "\<not> sta_sleeps (awake sp s)" "si_sleep_q (awake sp s) = si_sleep_q s"
  "si_sleepq_len (awake sp s) = si_sleepq_len s" "sta_aid8 (awake sp s) = sta_aid8 s"
  by (auto simp: awake_def Let_def sta_core_def state_bits state_masks bit_xor_iff sta_aid8_def)

lemma wakeup_bmc_inv:
  assumes inv: "ps_inv (ad_stapriv ad)" and k: "rtw_get_bcmc_stainfo (ad_stapriv ad) = Some k"
  shows "ps_inv (ad_stapriv (snd (wakeup_bmc k ad)))"
proof (cases "rtw_tim_map_anyone_be_set_exclude_aid0 (ad_dz ad)")
  case False
  let ?sp = "ad_stapriv ad" and ?s = "sta_of ad k"
  have st: "ps_static ?sp" "sta_inv ?sp" using inv by (simp_all add: ps_inv_def ps_static_def)
  have m: "k \<in> ps_members ?sp" "sta_aid8 ?s = 0" using st k by (auto simp: ps_static_def sta_of_def)
  note b = ps_member_bound [OF st(2) m(1)]
  define ad1 where "ad1 = fold (wakeup_bmc_one k) (si_sleep_q ?s) ad"
  let ?o = "slept_out ?s 0 (si_sleepq_ac_len ?s)"
  have 1: "ad_stapriv ad1 = ps_change ?sp k ?o (ad_tim ad) (ad_dz ad)"
    using wakeup_bmc_fold [OF b] queue_len_word [of ?sp k ?s] inv m(1) unfolding ad1_def by (auto simp: ps_inv_def sta_of_def)
  have "ad_stapriv (snd (wakeup_bmc k ad)) = ps_change ?sp k ?o (rtw_tim_map_clear (ad_tim ad) 0) (rtw_tim_map_clear (ad_dz ad) 0)"
    unfolding wakeup_bmc_def Let_def ad1_def [symmetric] using False 1 b by (simp add: sta_of_def)
  moreover have "ps_inv (ps_change ?sp k ?o (rtw_tim_map_clear (ad_tim ad) 0) (rtw_tim_map_clear (ad_dz ad) 0))"
    using m(2) by (intro ps_change_inv [OF inv m(1)]) (auto simp: tim_is_set sta_of_def ps_doze_def ps_queue_def)
  ultimately show ?thesis by simp
qed (use inv in \<open>simp add: wakeup_bmc_def\<close>)

lemma wakeup_inv:
  assumes inv: "ps_inv (ad_stapriv ad)" and i: "i \<in> ps_members (ad_stapriv ad)" "rtw_get_bcmc_stainfo (ad_stapriv ad) \<noteq> Some i"
  shows "ps_inv (ad_stapriv (wakeup_sta_to_xmit i ad))"
proof -
  let ?sp = "ad_stapriv ad" and ?s = "sta_of ad i"
  have st: "ps_static ?sp" "sta_inv ?sp" using inv by (simp_all add: ps_inv_def ps_static_def)
  note b = ps_member_bound [OF st(2) i(1)]
  define ad1 where "ad1 = fold (wakeup_one i) (si_sleep_q ?s) ad"
  obtain ac where 1: "ad_stapriv ad1 = ps_change ?sp i (slept_out ?s 0 ac) (ad_tim ad) (ad_dz ad)"
    using wakeup_fold [OF b] queue_len_word [of ?sp i ?s] inv i(1) unfolding ad1_def by (auto simp: ps_inv_def sta_of_def)
  let ?a = "sta_aid8 ?s"
  define ad2 where "ad2 = snd (wakeup_state i ad1)"
  have 2: "ad_stapriv ad2 = ps_change ?sp i (awake ?sp (slept_out ?s 0 ac)) (rtw_tim_map_clear (ad_tim ad) ?a) (rtw_tim_map_clear (ad_dz ad) ?a)"
    using 1 b by (simp add: ad2_def wakeup_state_def sta_of_def Let_def awake_def)
  have a0: "?a \<noteq> 0" using st i by (auto simp: ps_static_def sta_of_def)
  have inv2: "ps_inv (ad_stapriv ad2)"
    unfolding 2
  proof (rule ps_change_inv [OF inv i(1)])
    show "ps_doze (rtw_tim_map_clear (ad_tim ad) ?a) (rtw_tim_map_clear (ad_dz ad) ?a) (awake ?sp (slept_out ?s 0 ac))"
      using a0 by (simp add: ps_doze_def tim_is_set)
    show "ps_queue ?sp i (awake ?sp (slept_out ?s 0 ac))" by (simp add: ps_queue_def)
  qed (auto simp: tim_is_set sta_of_def)
  have g: "rtw_get_bcmc_stainfo (ad_stapriv ad2) = rtw_get_bcmc_stainfo ?sp"
    unfolding 2 rtw_get_bcmc_stainfo_def by (rule ps_change_get) (simp add: sta_of_def)
  have "ps_inv (ad_stapriv (snd (wakeup_bmc k ad2)))" if "rtw_get_bcmc_stainfo ?sp = Some k" for k
    using wakeup_bmc_inv [OF inv2] that g by simp
  then show ?thesis
    using inv2 unfolding wakeup_sta_to_xmit_def Let_def ad1_def [symmetric]
    by (auto simp: ad2_def split: prod.splits option.splits)
qed

lemma unat_dec32: "(w :: u32) \<noteq> 0 \<Longrightarrow> unat (w - 1) = unat w - 1"
  by (simp add: unat_minus_one)

lemma sleepq_pop_queue:
  assumes "ps_queue sp i s" "f \<in> set (si_sleep_q s)"
  shows "ps_queue sp i (sleepq_pop f s)"
proof -
  have l: "unat (si_sleepq_len s) = length (si_sleep_q s)" using assms(1) by (simp add: ps_queue_def)
  then have "si_sleepq_len s \<noteq> 0" using assms(2) by (cases "si_sleep_q s") (auto simp: unat_0_iff)
  then show ?thesis
    using assms l unat_dec32 [of "si_sleepq_len s"] set_remove1_subset [of f "si_sleep_q s"]
    by (auto simp: ps_queue_def sleepq_pop_def length_remove1)
qed

lemma sleepq_pop_sel [simp]:
  "sta_core (sleepq_pop f s) = sta_core s" "sta_aid8 (sleepq_pop f s) = sta_aid8 s" "sta_sleeps (sleepq_pop f s) = sta_sleeps s"
  "si_sleep_q (sleepq_pop f s) = remove1 f (si_sleep_q s)" "wmmps_ac m p (sleepq_pop f s) = wmmps_ac m p s"
  "announced (sleepq_pop f s) g = announced s g" "si_sleepq_ac_len (sleepq_pop f s) = si_sleepq_ac_len s"
  "si_has_legacy_ac (sleepq_pop f s) = si_has_legacy_ac s"
  by (simp_all add: sleepq_pop_def sta_core_def si_asoc_def sta_aid8_def sta_sleeps_def wmmps_ac_def announced_def all_delivery_enabled_def)

lemma ac_len_sel [simp]:
  "sta_core (s\<lparr>si_sleepq_ac_len := n\<rparr>) = sta_core s" "sta_aid8 (s\<lparr>si_sleepq_ac_len := n\<rparr>) = sta_aid8 s"
  "sta_sleeps (s\<lparr>si_sleepq_ac_len := n\<rparr>) = sta_sleeps s" "wmmps_ac m p (s\<lparr>si_sleepq_ac_len := n\<rparr>) = wmmps_ac m p s"
  "announced (s\<lparr>si_sleepq_ac_len := n\<rparr>) f = announced s f" "ps_queue sp i (s\<lparr>si_sleepq_ac_len := n\<rparr>) = ps_queue sp i s"
  by (simp_all add: sta_core_def si_asoc_def sta_aid8_def sta_sleeps_def wmmps_ac_def announced_def all_delivery_enabled_def ps_queue_def)

lemma filter_remove1_length:
  "f \<in> set q \<Longrightarrow> length (filter P (remove1 f q)) = length (filter P q) - (if P f then 1 else 0)"
  by (simp add: filter_remove1 length_remove1)

lemma delivery_one_inv:
  assumes inv: "ps_inv (ad_stapriv ad)" and i: "i \<in> ps_members (ad_stapriv ad)" "rtw_get_bcmc_stainfo (ad_stapriv ad) \<noteq> Some i"
    and f: "f \<in> set (si_sleep_q (sta_of ad i))"
  defines "ad' \<equiv> delivery_one i f ad"
  shows "ps_inv (ad_stapriv ad')" "ps_members (ad_stapriv ad') = ps_members (ad_stapriv ad)"
    "rtw_get_bcmc_stainfo (ad_stapriv ad') = rtw_get_bcmc_stainfo (ad_stapriv ad)"
    "mset (si_sleep_q (sta_of ad i)) \<subseteq># add_mset f (mset (si_sleep_q (sta_of ad' i)))"
proof -
  let ?sp = "ad_stapriv ad" and ?s = "sta_of ad i"
  have st: "ps_static ?sp" "sta_inv ?sp" using inv by (simp_all add: ps_inv_def ps_static_def)
  note b = ps_member_bound [OF st(2) i(1)]
  have old: "ps_queue ?sp i ?s" "ps_doze (ad_tim ad) (ad_dz ad) ?s" using inv i by (auto simp: ps_inv_def sta_of_def)
  have u: "uapsd_ok ?s" and a0: "sta_aid8 ?s \<noteq> 0" using st i by (auto simp: ps_static_def sta_of_def)
  have a: "sta_aid8 ?s \<noteq> 0" "wmmps_ac 2 p ?s = wmmps_ac 1 p ?s" for p using a0 uapsd_okD(1) [OF u] by auto
  have "ps_inv (ad_stapriv ad') \<and> ps_members (ad_stapriv ad') = ps_members (ad_stapriv ad)
    \<and> rtw_get_bcmc_stainfo (ad_stapriv ad') = rtw_get_bcmc_stainfo (ad_stapriv ad)
    \<and> mset (si_sleep_q (sta_of ad i)) \<subseteq># add_mset f (mset (si_sleep_q (sta_of ad' i)))"
  proof (cases "wmmps_ac 1 (xf_priority f) ?s")
    case False
    then have "ad' = ad" using a(2) by (simp add: ad'_def delivery_one_def)
    then show ?thesis using inv by simp
  next
    case True
    let ?n = "si_sleepq_ac_len ?s"
    let ?s' = "(sleepq_pop f ?s)\<lparr>si_sleepq_ac_len := ?n - 1\<rparr>"
    let ?t = "if ?n - 1 = 0 \<and> si_has_legacy_ac ?s = 0 then rtw_tim_map_clear (ad_tim ad) (sta_aid8 ?s) else ad_tim ad"
    let ?W = "\<lambda>f. wmmps_ac 1 (xf_priority f) ?s"
    have e: "ad_stapriv ad' = ps_change ?sp i ?s' ?t (ad_dz ad)"
      using True a(2) b by (auto simp: ad'_def delivery_one_def Let_def sta_of_def)
    have "f \<in> set (filter ?W (si_sleep_q ?s))" using f True by simp
    then have "0 < length (filter ?W (si_sleep_q ?s))" by (rule length_pos_if_in_set)
    moreover have "length (filter ?W (si_sleep_q ?s)) \<le> unat ?n" using old(2) a(1) by (simp add: ps_doze_def)
    ultimately have cnt: "0 < length (filter ?W (si_sleep_q ?s))" "length (filter ?W (si_sleep_q ?s)) \<le> unat ?n" by auto
    then have n0: "0 < unat ?n" by linarith
    then have n: "unat (?n - 1) = unat ?n - 1" by (intro unat_dec32) auto
    have w: "length (filter ?W (remove1 f (si_sleep_q ?s))) = length (filter ?W (si_sleep_q ?s)) - 1"
      using filter_remove1_length [OF f, of ?W] True by simp
    have none: "\<forall>g\<in>set (remove1 f (si_sleep_q ?s)). \<not> announced ?s g" if "?n - 1 = 0" "si_has_legacy_ac ?s = 0"
    proof -
      have "filter ?W (remove1 f (si_sleep_q ?s)) = []" using n that(1) w cnt by simp
      then show ?thesis using that(2) by (auto simp: uapsd_okD(2) [OF u] filter_empty_conv)
    qed
    have "ps_doze ?t (ad_dz ad) ?s'"
      using old(2) a(1) n n0 w cnt none set_remove1_subset [of f "si_sleep_q ?s"] unfolding ps_doze_def
      by (auto simp: tim_is_set)
    moreover have q: "ps_queue ?sp i ?s'" using sleepq_pop_queue [OF old(1) f] by simp
    ultimately have "ps_inv (ps_change ?sp i ?s' ?t (ad_dz ad))"
      by (intro ps_change_inv [OF inv i(1) _ _ _ _ _ q]) (auto simp: sta_of_def tim_is_set)
    moreover have "ps_members (ad_stapriv ad') = ps_members ?sp"
      unfolding e by (rule ps_change_static(2) [OF st(1) i(1)]) (simp_all add: sta_of_def)
    moreover have "rtw_get_bcmc_stainfo (ad_stapriv ad') = rtw_get_bcmc_stainfo ?sp"
      unfolding e rtw_get_bcmc_stainfo_def by (rule ps_change_get) (simp add: sta_of_def)
    ultimately show ?thesis using e b f by (simp add: sta_of_def)
  qed
  then show "ps_inv (ad_stapriv ad')" "ps_members (ad_stapriv ad') = ps_members (ad_stapriv ad)"
    "rtw_get_bcmc_stainfo (ad_stapriv ad') = rtw_get_bcmc_stainfo (ad_stapriv ad)"
    "mset (si_sleep_q (sta_of ad i)) \<subseteq># add_mset f (mset (si_sleep_q (sta_of ad' i)))" by blast+
qed

lemma delivery_inv:
  assumes "ps_inv (ad_stapriv ad)" "i \<in> ps_members (ad_stapriv ad)" "rtw_get_bcmc_stainfo (ad_stapriv ad) \<noteq> Some i"
    "mset fs \<subseteq># mset (si_sleep_q (sta_of ad i))"
  shows "ps_inv (ad_stapriv (fold (delivery_one i) fs ad))"
  using assms
proof (induction fs arbitrary: ad)
  case (Cons f fs)
  let ?ad = "delivery_one i f ad"
  have f: "f \<in> set (si_sleep_q (sta_of ad i))" using Cons.prems(4) by (metis list.set_intros(1) mset_subset_eqD set_mset_mset)
  note d = delivery_one_inv [OF Cons.prems(1-3) f]
  have "add_mset f (mset fs) \<subseteq># add_mset f (mset (si_sleep_q (sta_of ?ad i)))"
    using Cons.prems(4) d(4) by (metis mset.simps(2) subset_mset.order_trans)
  then have "mset fs \<subseteq># mset (si_sleep_q (sta_of ?ad i))" by simp
  then show ?case using Cons.IH [of ?ad] d Cons.prems by simp
qed simp

lemma ps_doze_pop:
  assumes "ps_doze tim dz s" "sta_aid8 s \<noteq> 0"
  shows "ps_doze tim dz (sleepq_pop f s)"
proof -
  have "length (filter P (remove1 f q)) \<le> length (filter P q)" for P q
    by (simp add: filter_remove1 length_remove1)
  then show ?thesis
    using assms set_remove1_subset [of f "si_sleep_q s"] unfolding ps_doze_def
    by (auto intro: order_trans)
qed

lemma pspoll_frame_inv:
  assumes inv: "ps_inv (ad_stapriv ad)" and i: "i \<in> ps_members (ad_stapriv ad)" "rtw_get_bcmc_stainfo (ad_stapriv ad) \<noteq> Some i"
  shows "ps_inv (ad_stapriv (pspoll_frame i ad))"
proof -
  let ?sp = "ad_stapriv ad" and ?s = "sta_of ad i"
  have st: "ps_static ?sp" "sta_inv ?sp" using inv by (simp_all add: ps_inv_def ps_static_def)
  note b = ps_member_bound [OF st(2) i(1)]
  have old: "ps_queue ?sp i ?s" "ps_doze (ad_tim ad) (ad_dz ad) ?s" using inv i by (auto simp: ps_inv_def sta_of_def)
  have a: "sta_aid8 ?s \<noteq> 0" using st i by (auto simp: ps_static_def sta_of_def)
  show ?thesis
  proof (cases "si_sleep_q ?s")
    case Nil
    then have "si_sleepq_len ?s = 0" using old(1) by (simp add: ps_queue_def unat_0_iff)
    then have e: "ad_stapriv (pspoll_frame i ad) = (if rtw_tim_map_is_set (ad_tim ad) (sta_aid8 ?s)
        then ps_change ?sp i ?s (rtw_tim_map_clear (ad_tim ad) (sta_aid8 ?s)) (ad_dz ad) else ?sp)"
      using Nil by (simp add: pspoll_frame_def Let_def ps_change_def sta_of_def)
    have "ps_doze (rtw_tim_map_clear (ad_tim ad) (sta_aid8 ?s)) (ad_dz ad) ?s" using old(2) Nil a by (simp add: ps_doze_def)
    then have "ps_inv (ps_change ?sp i ?s (rtw_tim_map_clear (ad_tim ad) (sta_aid8 ?s)) (ad_dz ad))"
      by (intro ps_change_inv [OF inv i(1) _ _ _ _ _ old(1)]) (auto simp: sta_of_def tim_is_set)
    then show ?thesis using e inv by simp
  next
    case (Cons f q)
    let ?s' = "sleepq_pop f ?s"
    let ?t = "if si_sleepq_len ?s' = 0 then rtw_tim_map_clear (ad_tim ad) (sta_aid8 ?s) else ad_tim ad"
    have e: "ad_stapriv (pspoll_frame i ad) = ps_change ?sp i ?s' ?t (ad_dz ad)"
      using Cons b by (simp add: pspoll_frame_def Let_def sta_of_def)
    have q: "ps_queue ?sp i ?s'" using sleepq_pop_queue [OF old(1), of f] Cons by simp
    have d: "ps_doze (ad_tim ad) (ad_dz ad) ?s'" by (rule ps_doze_pop [OF old(2) a])
    moreover have "si_sleep_q ?s' = []" if "si_sleepq_len ?s' = 0" using q that by (simp add: ps_queue_def)
    ultimately have "ps_doze ?t (ad_dz ad) ?s'" using a by (auto simp: ps_doze_def tim_is_set)
    then have "ps_inv (ps_change ?sp i ?s' ?t (ad_dz ad))"
      by (intro ps_change_inv [OF inv i(1) _ _ _ _ _ q]) (auto simp: sta_of_def tim_is_set)
    then show ?thesis using e by simp
  qed
qed

text \<open>Changes of the station's state word and expiry that leave the association and sleep bits.\<close>

lemma ps_state_inv:
  assumes inv: "ps_inv (ad_stapriv ad)" and i: "i \<in> ps_members (ad_stapriv ad)"
    and g: "sta_core (g (sta_of ad i)) = sta_core (sta_of ad i)" "sta_sleeps (g (sta_of ad i)) = sta_sleeps (sta_of ad i)"
      "si_sleep_q (g (sta_of ad i)) = si_sleep_q (sta_of ad i)" "si_sleepq_len (g (sta_of ad i)) = si_sleepq_len (sta_of ad i)"
      "si_sleepq_ac_len (g (sta_of ad i)) = si_sleepq_ac_len (sta_of ad i)"
  shows "ps_inv (ad_stapriv (upd_sta i g ad))"
proof -
  let ?sp = "ad_stapriv ad" and ?s = "sta_of ad i"
  have old: "ps_queue ?sp i ?s" "ps_doze (ad_tim ad) (ad_dz ad) ?s" using inv i by (auto simp: ps_inv_def sta_of_def)
  have c: "sta_aid8 (g ?s) = sta_aid8 ?s" "wmmps_ac m p (g ?s) = wmmps_ac m p ?s" "announced (g ?s) f = announced ?s f" for m p f
    using g(1) by (simp_all add: sta_core_def sta_aid8_def wmmps_ac_def announced_def all_delivery_enabled_def)
  have q: "ps_queue ?sp i (g ?s)" using old(1) g by (simp add: ps_queue_def)
  have "ps_doze (ad_tim ad) (ad_dz ad) (g ?s)" using old(2) unfolding ps_doze_def g c .
  then show ?thesis
    using g(1) by (simp, intro ps_change_inv [OF inv i _ _ _ _ _ q]) (auto simp: sta_of_def)
qed

lemma pspoll_inv:
  assumes inv: "ps_inv (ad_stapriv ad)" and i: "i \<in> ps_members (ad_stapriv ad)" "rtw_get_bcmc_stainfo (ad_stapriv ad) \<noteq> Some i"
  shows "ps_inv (ad_stapriv (pspoll_hdl aid p i ad))"
proof -
  define g where "g = (\<lambda>s :: sta_info. if si_state s AND WIFI_STA_ALIVE_CHK_STATE \<noteq> 0
      then s\<lparr>si_expire_to := sp_expire_to (ad_stapriv ad), si_state := si_state s XOR WIFI_STA_ALIVE_CHK_STATE\<rparr> else s)"
  have st: "ps_static (ad_stapriv ad)" using inv by (simp add: ps_inv_def)
  have c: "sta_core (g s) = sta_core s" for s
    by (auto simp: g_def sta_core_def state_bits state_masks bit_xor_iff)
  have 1: "ps_inv (ad_stapriv (upd_sta i g ad))"
    by (rule ps_state_inv [OF inv i(1)], rule c) (auto simp: g_def state_bits state_masks bit_xor_iff)
  moreover have "i \<in> ps_members (ad_stapriv (upd_sta i g ad))"
    using i(1) ps_change_static(2) [OF st i(1), of "g (sta_of ad i)"] c by (simp add: sta_of_def)
  moreover have "rtw_get_bcmc_stainfo (ad_stapriv (upd_sta i g ad)) = rtw_get_bcmc_stainfo (ad_stapriv ad)"
    using c by (simp add: rtw_get_bcmc_stainfo_def sta_of_def)
  ultimately have "ps_inv (ad_stapriv (pspoll_frame i (upd_sta i g ad)))" using i(2) by (intro pspoll_frame_inv) auto
  then show ?thesis using inv 1 unfolding pspoll_hdl_def Let_def g_def [symmetric] by simp
qed

lemma process_wmmps_inv:
  assumes "ps_inv (ad_stapriv ad)" "i \<in> ps_members (ad_stapriv ad)" "rtw_get_bcmc_stainfo (ad_stapriv ad) \<noteq> Some i"
  shows "ps_inv (ad_stapriv (process_wmmps_data p i ad))"
  using assms delivery_inv [OF assms, of "si_sleep_q (sta_of ad i)"]
  by (simp add: process_wmmps_data_def Let_def xmit_delivery_enabled_frames_def)

definition ps_room_all :: "nat \<Rightarrow> sta_priv \<Rightarrow> bool" where
  "ps_room_all n sp \<longleftrightarrow> (\<forall>i\<in>ps_members sp. ps_room n (sp_sta sp i))"

lemma unat_inc_le: "unat ((w :: u32) + 1) \<le> unat w + 1"
  by (simp add: unat_word_ariths)

text \<open>Nothing but queues, counters and bits changes.\<close>

definition ps_same :: "sta_priv \<Rightarrow> sta_priv \<Rightarrow> bool" where
  "ps_same sp sp' \<longleftrightarrow> ps_members sp' = ps_members sp \<and> rtw_get_stainfo sp' = rtw_get_stainfo sp
     \<and> (\<forall>i. sta_core (sp_sta sp' i) = sta_core (sp_sta sp i))"

lemma ps_same_refl: "ps_same sp sp" and ps_same_trans: "ps_same a b \<Longrightarrow> ps_same b c \<Longrightarrow> ps_same a c"
  by (auto simp: ps_same_def)

lemma ps_change_same:
  assumes "ps_static sp" "i \<in> ps_members sp" "sta_core s = sta_core (sp_sta sp i)"
    "length tim = length (tim_bitmap sp)" "length dz = length (sta_dz_bitmap sp)"
  shows "ps_same sp (ps_change sp i s tim dz)"
proof -
  have "i < length (pstainfo_buf sp)" using assms(1,2) ps_member_bound by (auto simp: ps_static_def)
  then show ?thesis
    using assms(3) ps_change_static(2) [OF assms] by (auto simp: ps_same_def ps_change_def nth_list_update fun_eq_iff) (metis ps_change_def ps_change_get)+
qed

lemma enqueue_sleeping_effect:
  assumes st: "ps_static (ad_stapriv ad)" and r: "xmitframe_enqueue_for_sleeping_sta f ad = (r, f', ad')"
  shows "ps_same (ad_stapriv ad) (ad_stapriv ad')" "ad_xmitpriv ad' = ad_xmitpriv ad"
    "ps_room_all (Suc n) (ad_stapriv ad) \<Longrightarrow> ps_room_all n (ad_stapriv ad')"
    "ad_mlme_ap ad' = ad_mlme_ap ad"
proof -
  let ?sp = "ad_stapriv ad"
  have cases: "ad' = ad \<or> (\<exists>i s t d. i \<in> ps_members ?sp \<and> ad_stapriv ad' = ps_change ?sp i s t d \<and> sta_core s = sta_core (sp_sta ?sp i)
      \<and> length t = length (ad_tim ad) \<and> length d = length (ad_dz ad)
      \<and> unat (si_sleepq_len s) \<le> unat (si_sleepq_len (sp_sta ?sp i)) + 1
      \<and> unat (si_sleepq_ac_len s) \<le> unat (si_sleepq_ac_len (sp_sta ?sp i)) + 1)"
  proof (cases r)
    case False
    then show ?thesis using r by (auto simp: xmitframe_enqueue_for_sleeping_sta_def Let_def split: option.splits if_splits)
  next
    case True
    obtain i where g: "rtw_get_stainfo ?sp (xf_ra f) = Some i" "sta_asoc ad i"
      using r True by (auto simp: xmitframe_enqueue_for_sleeping_sta_def Let_def split: option.splits if_splits)
    have m: "i \<in> ps_members ?sp" using g st by (auto simp: ps_static_def ps_members_def get_stainfo_iff sta_asoc_def si_asoc_def sta_of_def)
    obtain s t d where "ad_stapriv ad' = ps_change ?sp i s t d" "length t = length (ad_tim ad)" "length d = length (ad_dz ad)"
        "s = sleepq_push f (sta_of ad i) \<or> s = (sleepq_push f (sta_of ad i))\<lparr>si_sleepq_ac_len := si_sleepq_ac_len (sta_of ad i) + 1\<rparr>"
      using r True g by (auto simp: xmitframe_enqueue_for_sleeping_sta_def Let_def sleepq_push_def split: if_splits)
    then show ?thesis using m unat_inc_le
      by (intro disjI2 exI [of _ i] exI [of _ s] exI [of _ t] exI [of _ d])
        (auto simp: sleepq_push_def sta_core_def si_asoc_def sta_of_def intro: le_SucI)
  qed
  then show same: "ps_same ?sp (ad_stapriv ad')" using ps_change_same [OF st] by (auto intro: ps_same_refl)
  show "ps_room_all n (ad_stapriv ad')" if room: "ps_room_all (Suc n) ?sp"
    using cases
  proof
    assume "ad' = ad"
    then show ?thesis using room by (auto simp: ps_room_all_def ps_room_def)
  next
    assume "\<exists>i s t d. i \<in> ps_members ?sp \<and> ad_stapriv ad' = ps_change ?sp i s t d \<and> sta_core s = sta_core (sp_sta ?sp i)
      \<and> length t = length (ad_tim ad) \<and> length d = length (ad_dz ad)
      \<and> unat (si_sleepq_len s) \<le> unat (si_sleepq_len (sp_sta ?sp i)) + 1
      \<and> unat (si_sleepq_ac_len s) \<le> unat (si_sleepq_ac_len (sp_sta ?sp i)) + 1"
    then obtain i s t d where c: "i \<in> ps_members ?sp" "ad_stapriv ad' = ps_change ?sp i s t d"
      "unat (si_sleepq_len s) \<le> unat (si_sleepq_len (sp_sta ?sp i)) + 1"
      "unat (si_sleepq_ac_len s) \<le> unat (si_sleepq_ac_len (sp_sta ?sp i)) + 1" by blast
    have "i < length (pstainfo_buf ?sp)" using st c(1) ps_member_bound by (auto simp: ps_static_def)
    then have "ps_room n (sp_sta (ad_stapriv ad') j)" if "j \<in> ps_members ?sp" for j
      using room that c by (cases "j = i") (auto simp: ps_room_all_def ps_room_def ps_change_def)
    then show ?thesis using same by (simp add: ps_room_all_def ps_same_def)
  qed
  show "ad_xmitpriv ad' = ad_xmitpriv ad" "ad_mlme_ap ad' = ad_mlme_ap ad"
    using r by (auto simp: xmitframe_enqueue_for_sleeping_sta_def Let_def upd_sta_def upd_tim_def upd_dz_def ad_note_add_def split: option.splits if_splits)
qed

lemma dequeue_loop_inv:
  assumes "ps_inv (ad_stapriv ad)" "ps_room_all (length fs + n) (ad_stapriv ad)" "dequeue_sleeping_loop i fs kept ad = (k', ad')"
  shows "ps_inv (ad_stapriv ad') \<and> ps_room_all n (ad_stapriv ad') \<and> ps_same (ad_stapriv ad) (ad_stapriv ad')
    \<and> (\<forall>j ac. sta_pending (servq (ad_xmitpriv ad') j ac) = sta_pending (servq (ad_xmitpriv ad) j ac))"
  using assms
proof (induction fs arbitrary: kept ad)
  case (Cons f fs)
  let ?f = "f\<lparr>xf_triggered := False\<rparr>"
  obtain r f1 ad1 where e: "xmitframe_enqueue_for_sleeping_sta ?f ad = (r, f1, ad1)" by (metis prod_cases3)
  have st: "ps_static (ad_stapriv ad)" using Cons.prems(1) by (simp add: ps_inv_def)
  have i1: "ps_inv (ad_stapriv ad1)"
    using Cons.prems(2) by (intro enqueue_sleeping_inv [OF Cons.prems(1) e]) (auto simp: ps_room_all_def ps_room_def sta_of_def)
  note ef = enqueue_sleeping_effect [OF st e]
  define ad2 where "ad2 = (if r then servq_dec i (rtw_get_sta_pending (xf_priority f1)) ad1 else ad1)"
  have 2: "ad_stapriv ad2 = ad_stapriv ad1" "\<forall>j ac. sta_pending (servq (ad_xmitpriv ad2) j ac) = sta_pending (servq (ad_xmitpriv ad1) j ac)"
    by (simp_all add: ad2_def servq_dec_def Let_def)
  have "dequeue_sleeping_loop i fs (if r then kept else kept @ [f1]) ad2 = (k', ad')"
    using Cons.prems(3) e by (cases r) (simp_all add: ad2_def)
  from Cons.IH [OF _ _ this] i1 ef(3) [of "length fs + n"] Cons.prems(2) 2
  have "ps_inv (ad_stapriv ad') \<and> ps_room_all n (ad_stapriv ad') \<and> ps_same (ad_stapriv ad2) (ad_stapriv ad')
    \<and> (\<forall>j ac. sta_pending (servq (ad_xmitpriv ad') j ac) = sta_pending (servq (ad_xmitpriv ad2) j ac))" by simp
  then show ?case using 2 ef(1,2) ps_same_trans by auto
qed (auto simp: ps_same_refl)

abbreviation pend_len :: "adapter \<Rightarrow> nat \<Rightarrow> nat \<Rightarrow> nat" where
  "pend_len ad i ac \<equiv> length (sta_pending (servq (ad_xmitpriv ad) i ac))"

lemma dequeue_queue_inv:
  assumes "ps_inv (ad_stapriv ad)" "ps_room_all (pend_len ad i ac + n) (ad_stapriv ad)"
  defines "ad' \<equiv> tx_pending_delete i ac (dequeue_xmitframes_to_sleeping_queue i ac ad)"
  shows "ps_inv (ad_stapriv ad') \<and> ps_room_all n (ad_stapriv ad') \<and> ps_same (ad_stapriv ad) (ad_stapriv ad')
    \<and> (\<forall>j ac'. (j, ac') \<noteq> (i, ac) \<longrightarrow> sta_pending (servq (ad_xmitpriv ad') j ac') = sta_pending (servq (ad_xmitpriv ad) j ac'))"
proof -
  obtain k ad1 where l: "dequeue_sleeping_loop i (sta_pending (servq (ad_xmitpriv ad) i ac)) [] ad = (k, ad1)" by fastforce
  have "ad_stapriv ad' = ad_stapriv ad1"
    "\<forall>j ac'. (j, ac') \<noteq> (i, ac) \<longrightarrow> sta_pending (servq (ad_xmitpriv ad') j ac') = sta_pending (servq (ad_xmitpriv ad1) j ac')"
    by (auto simp: ad'_def tx_pending_delete_def dequeue_xmitframes_to_sleeping_queue_def l Let_def)
  then show ?thesis using dequeue_loop_inv [OF assms(1,2) l] by simp
qed

lemma stop_queues_inv:
  assumes "ps_inv (ad_stapriv ad)" "ps_room_all (sum_list (map (pend_len ad i) acs) + n) (ad_stapriv ad)" "distinct acs"
  defines "ad' \<equiv> fold (\<lambda>ac ad. tx_pending_delete i ac (dequeue_xmitframes_to_sleeping_queue i ac ad)) acs ad"
  shows "ps_inv (ad_stapriv ad') \<and> ps_room_all n (ad_stapriv ad') \<and> ps_same (ad_stapriv ad) (ad_stapriv ad')
    \<and> (\<forall>j ac'. j \<noteq> i \<longrightarrow> sta_pending (servq (ad_xmitpriv ad') j ac') = sta_pending (servq (ad_xmitpriv ad) j ac'))"
  using assms(1-3) unfolding ad'_def
proof (induction acs arbitrary: ad)
  case (Cons ac acs)
  let ?ad = "tx_pending_delete i ac (dequeue_xmitframes_to_sleeping_queue i ac ad)"
  have r: "ps_room_all (pend_len ad i ac + (sum_list (map (pend_len ad i) acs) + n)) (ad_stapriv ad)"
    using Cons.prems(2) by (simp add: add.assoc)
  note d = dequeue_queue_inv [OF Cons.prems(1) r]
  have "sta_pending (servq (ad_xmitpriv ?ad) i x) = sta_pending (servq (ad_xmitpriv ad) i x)" if "x \<in> set acs" for x
    using d that Cons.prems(3) by (cases "x = ac") auto
  then have "map (pend_len ?ad i) acs = map (pend_len ad i) acs" by simp
  with d Cons.IH [of ?ad] Cons.prems(3) show ?case using ps_same_trans by auto
qed (simp add: ps_same_refl)

definition pend_total :: "adapter \<Rightarrow> nat \<Rightarrow> nat" where
  "pend_total ad i = sum_list (map (pend_len ad i) [0, 1, 2, 3])"

lemma stop_inv:
  assumes inv: "ps_inv (ad_stapriv ad)" and i: "i \<in> ps_members (ad_stapriv ad)" "rtw_get_bcmc_stainfo (ad_stapriv ad) \<noteq> Some i"
    and aw: "\<not> sta_sleeps (sta_of ad i)"
    and room: "ps_room_all (pend_total ad i + (case rtw_get_bcmc_stainfo (ad_stapriv ad) of None \<Rightarrow> 0 | Some b \<Rightarrow> pend_total ad b)) (ad_stapriv ad)"
  shows "ps_inv (ad_stapriv (stop_sta_xmit i ad))"
proof -
  let ?sp = "ad_stapriv ad" and ?s = "sta_of ad i"
  let ?n = "case rtw_get_bcmc_stainfo ?sp of None \<Rightarrow> 0 | Some b \<Rightarrow> pend_total ad b"
  let ?s' = "?s\<lparr>si_state := si_state ?s OR WIFI_SLEEP_STATE\<rparr>"
  have st: "ps_static ?sp" "sta_inv ?sp" using inv by (simp_all add: ps_inv_def ps_static_def)
  note b = ps_member_bound [OF st(2) i(1)]
  have old: "ps_queue ?sp i ?s" "ps_doze (ad_tim ad) (ad_dz ad) ?s" using inv i by (auto simp: ps_inv_def sta_of_def)
  have a: "sta_aid8 ?s \<noteq> 0" "unat (sta_aid8 ?s) < 8 * length (ad_dz ad)" using st i by (auto simp: ps_static_def sta_of_def)
  have emp: "si_sleep_q ?s = []" using old(2) aw a(1) by (simp add: ps_doze_def)
  have c: "sta_core ?s' = sta_core ?s" "sta_aid8 ?s' = sta_aid8 ?s" "sta_sleeps ?s'"
    by (simp_all add: sta_core_def state_bits state_masks bit_or_iff sta_aid8_def)
  have q: "ps_queue ?sp i ?s'" using old(1) by (simp add: ps_queue_def)
  define ad1 where "ad1 = upd_dz (\<lambda>m. rtw_tim_map_set m (sta_aid8 (sta_of (upd_sta i (\<lambda>s. s\<lparr>si_state := si_state s OR WIFI_SLEEP_STATE\<rparr>) ad) i)))
     (upd_sta i (\<lambda>s. s\<lparr>si_state := si_state s OR WIFI_SLEEP_STATE\<rparr>) ad)"
  have 1: "ad_stapriv ad1 = ps_change ?sp i ?s' (ad_tim ad) (rtw_tim_map_set (ad_dz ad) (sta_aid8 ?s))" "ad_xmitpriv ad1 = ad_xmitpriv ad"
    using b c(2) by (simp_all add: ad1_def sta_of_def)
  have inv1: "ps_inv (ad_stapriv ad1)"
    unfolding 1
  proof (rule ps_change_inv [OF inv i(1) _ _ _ _ _ q])
    show "ps_doze (ad_tim ad) (rtw_tim_map_set (ad_dz ad) (sta_aid8 ?s)) ?s'" using a emp c by (simp add: ps_doze_def tim_is_set)
  qed (use c in \<open>auto simp: tim_is_set sta_of_def\<close>)
  have same1: "ps_same ?sp (ad_stapriv ad1)"
    unfolding 1 by (rule ps_change_same [OF st(1) i(1)]) (use c in \<open>simp_all add: sta_of_def\<close>)
  have room1: "ps_room_all (sum_list (map (pend_len ad1 i) [0, 1, 2, 3]) + ?n) (ad_stapriv ad1)"
  proof -
    have "ps_room m (sp_sta (ad_stapriv ad1) j) = ps_room m (sp_sta ?sp j)" for m j
      unfolding 1 using b by (cases "j = i") (simp_all add: ps_change_def ps_room_def sta_of_def)
    then show ?thesis using room same1 1(2) by (simp add: ps_room_all_def pend_total_def ps_same_def)
  qed
  define ad2 where "ad2 = stop_sta_queues i ad1"
  have 2: "ps_inv (ad_stapriv ad2) \<and> ps_room_all ?n (ad_stapriv ad2) \<and> ps_same (ad_stapriv ad1) (ad_stapriv ad2)
    \<and> (\<forall>j ac'. j \<noteq> i \<longrightarrow> sta_pending (servq (ad_xmitpriv ad2) j ac') = sta_pending (servq (ad_xmitpriv ad1) j ac'))"
    unfolding ad2_def stop_sta_queues_def by (rule stop_queues_inv [OF inv1 room1]) simp
  have e: "stop_sta_xmit i ad = (case rtw_get_bcmc_stainfo ?sp of None \<Rightarrow> ad2 | Some b \<Rightarrow> stop_sta_queues b ad2)"
    unfolding stop_sta_xmit_def Let_def ad1_def [symmetric] ad2_def ..
  show ?thesis
  proof (cases "rtw_get_bcmc_stainfo ?sp")
    case None
    then show ?thesis using 2 e by simp
  next
    case (Some k)
    then have "k \<noteq> i" using i(2) by auto
    then have "ps_room_all (sum_list (map (pend_len ad2 k) [0, 1, 2, 3]) + 0) (ad_stapriv ad2)"
      using 2 1(2) Some by (simp add: pend_total_def)
    from stop_queues_inv [OF _ this] 2 show ?thesis using e Some by (simp add: stop_sta_queues_def)
  qed
qed

section \<open>Runs\<close>

text \<open>
  Data frames to be buffered, power management bits, trigger frames and PS-Polls of associated
  stations, in any order. The counters are 32 bits wide: an event that buffers needs room for the
  frames at hand.
\<close>

datatype ps_event = PsBuffer xmit_frame | PsPwrBit bool nat | PsTrigger u8 nat | PsPoll u16 u8 nat

fun ps_step :: "adapter \<Rightarrow> ps_event \<Rightarrow> adapter" where
  "ps_step ad (PsBuffer f) = snd (snd (xmitframe_enqueue_for_sleeping_sta f ad))"
| "ps_step ad (PsPwrBit p i) = process_pwrbit_data p i ad"
| "ps_step ad (PsTrigger p i) = process_wmmps_data p i ad"
| "ps_step ad (PsPoll aid p i) = pspoll_hdl aid p i ad"

definition ps_peer :: "adapter \<Rightarrow> nat \<Rightarrow> bool" where
  "ps_peer ad i \<longleftrightarrow> i \<in> ps_members (ad_stapriv ad) \<and> rtw_get_bcmc_stainfo (ad_stapriv ad) \<noteq> Some i"

definition bmc_pend :: "adapter \<Rightarrow> nat" where
  "bmc_pend ad = (case rtw_get_bcmc_stainfo (ad_stapriv ad) of None \<Rightarrow> 0 | Some b \<Rightarrow> pend_total ad b)"

fun ps_adm :: "adapter \<Rightarrow> ps_event \<Rightarrow> bool" where
  "ps_adm ad (PsBuffer f) \<longleftrightarrow> ps_room_all 1 (ad_stapriv ad)"
| "ps_adm ad (PsPwrBit p i) \<longleftrightarrow> ps_peer ad i \<and> ps_room_all (pend_total ad i + bmc_pend ad) (ad_stapriv ad)"
| "ps_adm ad (PsTrigger p i) \<longleftrightarrow> ps_peer ad i"
| "ps_adm ad (PsPoll aid p i) \<longleftrightarrow> ps_peer ad i"

lemma ps_step_inv:
  assumes inv: "ps_inv (ad_stapriv ad)" and adm: "ps_adm ad e"
  shows "ps_inv (ad_stapriv (ps_step ad e))"
proof (cases e)
  case (PsBuffer f)
  obtain r f' ad' where c: "xmitframe_enqueue_for_sleeping_sta f ad = (r, f', ad')" by (metis prod_cases3)
  show ?thesis
    using enqueue_sleeping_inv [OF inv c] adm c PsBuffer by (auto simp: ps_room_all_def sta_of_def)
next
  case (PsPwrBit p i)
  then have m: "i \<in> ps_members (ad_stapriv ad)" "rtw_get_bcmc_stainfo (ad_stapriv ad) \<noteq> Some i"
    "ps_room_all (pend_total ad i + (case rtw_get_bcmc_stainfo (ad_stapriv ad) of None \<Rightarrow> 0 | Some b \<Rightarrow> pend_total ad b)) (ad_stapriv ad)"
    using adm by (auto simp: ps_peer_def bmc_pend_def)
  show ?thesis
    using inv stop_inv [OF inv m(1,2) _ m(3)] wakeup_inv [OF inv m(1,2)] PsPwrBit by (simp add: process_pwrbit_data_def)
next
  case (PsTrigger p i)
  then show ?thesis using adm process_wmmps_inv [OF inv] by (simp add: ps_peer_def)
next
  case (PsPoll aid p i)
  then show ?thesis using adm pspoll_inv [OF inv] by (simp add: ps_peer_def)
qed

interpretation pwrsave: invariant_system ps_step ps_adm "\<lambda>ad. ps_inv (ad_stapriv ad)"
  by unfold_locales (rule ps_step_inv)

section \<open>Delivery on wake-up\<close>

lemma hal_enqueue_accept:
  assumes "ad_get_sta ad (xf_ra f) = Some i" "xf_psta f = Some i" "sta_asoc ad i"
  shows "sta_pending (servq (ad_xmitpriv (rtw_hal_xmitframe_enqueue f ad)) j ac)
    = sta_pending (servq (ad_xmitpriv ad) j ac) @ (if j = i \<and> ac = rtw_get_sta_pending (xf_priority f) then [f] else [])"
  using assms by (auto simp: rtw_hal_xmitframe_enqueue_def rtw_xmitframe_enqueue_def rtw_xmit_classifier_def Let_def)

lemma asoc_sta_core: "sta_asoc ad i = si_asoc (sta_of ad i)"
  by (simp add: sta_asoc_def si_asoc_def)

text \<open>A delivered frame differs from the buffered one in its flags only.\<close>

definition same_frame :: "xmit_frame \<Rightarrow> xmit_frame \<Rightarrow> bool" where
  "same_frame f g \<longleftrightarrow> xf_id g = xf_id f \<and> xf_ra g = xf_ra f \<and> xf_priority g = xf_priority f \<and> xf_psta g = xf_psta f \<and> xf_triggered g"

lemma wakeup_fold_delivers:
  assumes "sta_inv (ad_stapriv ad)" "i \<in> ps_members (ad_stapriv ad)"
    "\<forall>f\<in>set (si_sleep_q (sta_of ad i)). xf_psta f = Some i \<and> ad_get_sta ad (xf_ra f) = Some i"
  shows "\<exists>gs. list_all2 same_frame (si_sleep_q (sta_of ad i)) gs
    \<and> (\<forall>j ac. sta_pending (servq (ad_xmitpriv (fold (wakeup_one i) (si_sleep_q (sta_of ad i)) ad)) j ac)
        = sta_pending (servq (ad_xmitpriv ad) j ac)
          @ (if j = i then filter (\<lambda>f. rtw_get_sta_pending (xf_priority f) = ac) gs else []))"
  using assms
proof (induction "si_sleep_q (sta_of ad i)" arbitrary: ad)
  case Nil
  show ?case using Nil(1) [symmetric] by (intro exI [of _ "[]"]) simp
next
  case (Cons f fs)
  let ?s = "sta_of ad i" and ?ad = "wakeup_one i f ad" and ?sp = "ad_stapriv ad"
  note b = ps_member_bound [OF Cons.prems(1,2)]
  define wmm where "wmm = wmmps_ac 2 (xf_priority f) ?s"
  define ad1 where "ad1 = upd_sta i (sleepq_pop f) ad"
  define ad2 where "ad2 = (if wmm then upd_sta i (\<lambda>s. s\<lparr>si_sleepq_ac_len := si_sleepq_ac_len s - 1\<rparr>) ad1 else ad1)"
  define g where "g = (let h = f\<lparr>xf_mdata := si_sleepq_len (sta_of ad1 i) > 0\<rparr> in
     (if wmm then h\<lparr>xf_mdata := si_sleepq_ac_len (sta_of ad2 i) > 0, xf_eosp := \<not> si_sleepq_ac_len (sta_of ad2 i) > 0\<rparr> else h)\<lparr>xf_triggered := True\<rparr>)"
  have w: "?ad = rtw_hal_xmitframe_enqueue g ad2"
    unfolding wakeup_one_def Let_def wmm_def [symmetric] ad1_def [symmetric] ad2_def [symmetric] g_def by simp
  obtain s' where s': "ad_stapriv ad2 = ps_change ?sp i s' (ad_tim ad) (ad_dz ad)" "sta_core s' = sta_core ?s" "si_sleep_q s' = fs"
    using Cons.hyps(2) [symmetric] b by (cases wmm) (auto simp: ad2_def ad1_def sta_of_def)
  have same: "same_frame f g" by (simp add: same_frame_def g_def Let_def)
  have sp2: "sta_of ad2 i = s'" "ad_get_sta ad2 = ad_get_sta ad" "ad_xmitpriv ad2 = ad_xmitpriv ad"
    using s' b by (auto simp: sta_of_def fun_eq_iff ad2_def ad1_def)
  have f: "xf_psta f = Some i" "ad_get_sta ad (xf_ra f) = Some i" using Cons.prems(3) Cons.hyps(2) [symmetric] by auto
  have as: "sta_asoc ad2 i" using Cons.prems(2) s'(2) sp2(1) by (simp add: asoc_sta_core sta_core_def ps_members_def sta_of_def)
  have acc: "sta_pending (servq (ad_xmitpriv ?ad) j ac) = sta_pending (servq (ad_xmitpriv ad) j ac)
      @ (if j = i \<and> ac = rtw_get_sta_pending (xf_priority g) then [g] else [])" for j ac
    using hal_enqueue_accept [of ad2 g i j ac] f same as sp2(2,3) w by (simp add: same_frame_def)
  have rest: "\<forall>g\<in>set fs. xf_psta g = Some i \<and> ad_get_sta ad (xf_ra g) = Some i" using Cons.prems(3) Cons.hyps(2) [symmetric] by auto
  have core: "ad_stapriv ?ad = ad_stapriv ad2" by (simp add: w)
  have "sta_inv (ad_stapriv ?ad)" "ps_members (ad_stapriv ?ad) = ps_members ?sp"
    using ps_change_members [OF Cons.prems(1,2)] s' core by (simp_all add: sta_of_def)
  from Cons.hyps(1) [of ?ad] this s' sp2 core rest Cons.prems(1,2) obtain gs where gs: "list_all2 same_frame fs gs"
    "\<forall>j ac. sta_pending (servq (ad_xmitpriv (fold (wakeup_one i) fs ?ad)) j ac)
        = sta_pending (servq (ad_xmitpriv ?ad) j ac) @ (if j = i then filter (\<lambda>f. rtw_get_sta_pending (xf_priority f) = ac) gs else [])"
    by (auto simp: sta_of_def)
  show ?case
    using same gs acc Cons.hyps(2) [symmetric] by (intro exI [of _ "g # gs"]) auto
qed

lemma hal_enqueue_other:
  assumes "xf_psta f = Some b" "j \<noteq> b"
  shows "servq (ad_xmitpriv (rtw_hal_xmitframe_enqueue f ad)) j = servq (ad_xmitpriv ad) j"
  using assms by (auto simp: rtw_hal_xmitframe_enqueue_def rtw_xmitframe_enqueue_def rtw_xmit_classifier_def Let_def
      rtw_free_xmitframe_def xf_complete_def split: option.splits)

lemma wakeup_bmc_fold_servq:
  assumes "\<forall>f\<in>set fs. xf_psta f = Some b" "j \<noteq> b"
  shows "servq (ad_xmitpriv (fold (wakeup_bmc_one b) fs ad)) j = servq (ad_xmitpriv ad) j"
  using assms by (induction fs arbitrary: ad) (simp_all add: wakeup_bmc_one_def Let_def hal_enqueue_other)

lemma wakeup_bmc_sta:
  assumes "b < length (pstainfo_buf (ad_stapriv ad))" "j \<noteq> b" "\<forall>f\<in>set (si_sleep_q (sta_of ad b)). xf_psta f = Some b"
  defines "ad' \<equiv> snd (wakeup_bmc b ad)"
  shows "sta_of ad' j = sta_of ad j" "servq (ad_xmitpriv ad') j = servq (ad_xmitpriv ad) j"
    "a \<noteq> 0 \<Longrightarrow> rtw_tim_map_is_set (ad_tim ad') a = rtw_tim_map_is_set (ad_tim ad) a"
    "a \<noteq> 0 \<Longrightarrow> rtw_tim_map_is_set (ad_dz ad') a = rtw_tim_map_is_set (ad_dz ad) a"
  using wakeup_bmc_fold [OF assms(1)] wakeup_bmc_fold_servq [OF assms(3,2)] assms(2)
  by (auto simp: ad'_def wakeup_bmc_def Let_def sta_of_def ps_change_def tim_is_set)

lemma wakeup_delivers:
  assumes inv: "ps_inv (ad_stapriv ad)" and p: "ps_peer ad i"
  defines "ad' \<equiv> wakeup_sta_to_xmit i ad" and "q \<equiv> si_sleep_q (sta_of ad i)"
  shows "si_sleep_q (sta_of ad' i) = [] \<and> \<not> sta_sleeps (sta_of ad' i)
     \<and> \<not> rtw_tim_map_is_set (ad_tim ad') (sta_aid8 (sta_of ad i)) \<and> \<not> rtw_tim_map_is_set (ad_dz ad') (sta_aid8 (sta_of ad i))
     \<and> (\<exists>gs. list_all2 same_frame q gs \<and> (\<forall>ac. sta_pending (servq (ad_xmitpriv ad') i ac)
          = sta_pending (servq (ad_xmitpriv ad) i ac) @ filter (\<lambda>f. rtw_get_sta_pending (xf_priority f) = ac) gs))"
proof -
  let ?sp = "ad_stapriv ad" and ?s = "sta_of ad i"
  have st: "ps_static ?sp" "sta_inv ?sp" using inv by (simp_all add: ps_inv_def ps_static_def)
  have i: "i \<in> ps_members ?sp" "rtw_get_bcmc_stainfo ?sp \<noteq> Some i" using p by (auto simp: ps_peer_def)
  note b = ps_member_bound [OF st(2) i(1)]
  have a0: "sta_aid8 ?s \<noteq> 0" using st i by (auto simp: ps_static_def sta_of_def)
  define ad1 where "ad1 = fold (wakeup_one i) q ad"
  have qi: "ps_queue ?sp i ?s" using inv i(1) by (auto simp: ps_inv_def sta_of_def)
  obtain ac where 1: "ad_stapriv ad1 = ps_change ?sp i (slept_out ?s 0 ac) (ad_tim ad) (ad_dz ad)"
    using wakeup_fold [OF b] queue_len_word [OF qi] unfolding ad1_def q_def by auto
  obtain gs where gs: "list_all2 same_frame q gs" "\<And>ac. sta_pending (servq (ad_xmitpriv ad1) i ac)
      = sta_pending (servq (ad_xmitpriv ad) i ac) @ filter (\<lambda>f. rtw_get_sta_pending (xf_priority f) = ac) gs"
    using wakeup_fold_delivers [OF st(2) i(1)] qi unfolding ad1_def q_def ps_queue_def by auto
  define ad2 where "ad2 = snd (wakeup_state i ad1)"
  have 2: "ad_stapriv ad2 = ps_change ?sp i (awake ?sp (slept_out ?s 0 ac)) (rtw_tim_map_clear (ad_tim ad) (sta_aid8 ?s)) (rtw_tim_map_clear (ad_dz ad) (sta_aid8 ?s))"
    "ad_xmitpriv ad2 = ad_xmitpriv ad1"
    using 1 b by (simp_all add: ad2_def wakeup_state_def sta_of_def Let_def awake_def)
  have s2: "sta_of ad2 i = awake ?sp (slept_out ?s 0 ac)" using 2 b by (simp add: sta_of_def)
  define ad3 where "ad3 = (case rtw_get_bcmc_stainfo ?sp of None \<Rightarrow> ad2 | Some k \<Rightarrow> snd (wakeup_bmc k ad2))"
  have 3: "sta_of ad3 i = sta_of ad2 i" "servq (ad_xmitpriv ad3) i = servq (ad_xmitpriv ad2) i"
    "rtw_tim_map_is_set (ad_tim ad3) (sta_aid8 ?s) = rtw_tim_map_is_set (ad_tim ad2) (sta_aid8 ?s)"
    "rtw_tim_map_is_set (ad_dz ad3) (sta_aid8 ?s) = rtw_tim_map_is_set (ad_dz ad2) (sta_aid8 ?s)"
  proof -
    have w: "k \<noteq> i" "k < length (pstainfo_buf (ad_stapriv ad2))" "\<forall>f\<in>set (si_sleep_q (sta_of ad2 k)). xf_psta f = Some k"
      if "rtw_get_bcmc_stainfo ?sp = Some k" for k
    proof -
      have k: "k \<in> ps_members ?sp" using st(1) that by (auto simp: ps_static_def)
      show "k \<noteq> i" using that i(2) by auto
      then show "\<forall>f\<in>set (si_sleep_q (sta_of ad2 k)). xf_psta f = Some k"
        using inv k 2(1) by (auto simp: sta_of_def ps_change_def ps_inv_def ps_queue_def)
      show "k < length (pstainfo_buf (ad_stapriv ad2))" using ps_member_bound [OF st(2) k] 2(1) by simp
    qed
    show "sta_of ad3 i = sta_of ad2 i" "servq (ad_xmitpriv ad3) i = servq (ad_xmitpriv ad2) i"
      "rtw_tim_map_is_set (ad_tim ad3) (sta_aid8 ?s) = rtw_tim_map_is_set (ad_tim ad2) (sta_aid8 ?s)"
      "rtw_tim_map_is_set (ad_dz ad3) (sta_aid8 ?s) = rtw_tim_map_is_set (ad_dz ad2) (sta_aid8 ?s)"
      using wakeup_bmc_sta [OF w(2) w(1) [symmetric] w(3)] a0
      by (cases "rtw_get_bcmc_stainfo ?sp"; simp add: ad3_def)+
  qed
  have "ad' = ad3 \<or> ad' = ad_note_add UpdateBeaconTim ad3"
    unfolding ad'_def wakeup_sta_to_xmit_def Let_def q_def [symmetric] ad1_def [symmetric] ad3_def ad2_def
    by (cases "rtw_get_bcmc_stainfo ?sp") (auto split: prod.splits)
  then have f: "sta_of ad' i = sta_of ad3 i" "ad_xmitpriv ad' = ad_xmitpriv ad3" "ad_stapriv ad' = ad_stapriv ad3"
    by (auto simp: sta_of_def)
  show ?thesis using f 3 s2 2 gs by (auto simp: tim_is_set)
qed

section \<open>Properties\<close>

text \<open>
  C10. Over any run of buffering, power management, trigger and PS-Poll events the access point keeps
  its books about every associated station: \<^verbatim>\<open>sleepq_len\<close> is the length of the queue, the station is
  marked in the doze map exactly while it sleeps, frames are kept only while it sleeps, and the TIM bit
  of the station is set as long as a frame is kept for it in a category that is not delivery-enabled,
  or any frame at all if all its categories are delivery-enabled. Kept frames of the delivery-enabled
  categories of a station with other categories do not set the bit: such a station fetches them with
  trigger frames. The start state has the stations as their WMM element leaves them (\<open>uapsd_ok\<close>); the
  events are those of associated stations, and the 32 bit queue counters do not overflow.
\<close>

theorem ap_pwrsave_announces:
  assumes "ps_inv (ad_stapriv ad)" "adm_run ps_step ps_adm ad es"
  defines "ad' \<equiv> run ps_step ad es"
  assumes "ps_peer ad' i"
  shows "unat (si_sleepq_len (sta_of ad' i)) = length (si_sleep_q (sta_of ad' i))
    \<and> sta_sleeps (sta_of ad' i) = rtw_tim_map_is_set (ad_dz ad') (sta_aid8 (sta_of ad' i))
    \<and> (si_sleep_q (sta_of ad' i) \<noteq> [] \<longrightarrow> sta_sleeps (sta_of ad' i))
    \<and> (\<forall>f\<in>set (si_sleep_q (sta_of ad' i)). \<not> wmmps_ac 1 (xf_priority f) (sta_of ad' i) \<or> all_delivery_enabled (sta_of ad' i)
         \<longrightarrow> rtw_tim_map_is_set (ad_tim ad') (sta_aid8 (sta_of ad' i)))"
proof -
  have inv: "ps_inv (ad_stapriv ad')" unfolding ad'_def by (rule pwrsave.run_inv [OF assms(1,2)])
  have p: "i \<in> ps_members (ad_stapriv ad')" "rtw_get_bcmc_stainfo (ad_stapriv ad') \<noteq> Some i" using assms(4) by (auto simp: ps_peer_def)
  then have "sta_aid8 (sta_of ad' i) \<noteq> 0" using inv by (auto simp: ps_inv_def ps_static_def sta_of_def)
  moreover have "ps_queue (ad_stapriv ad') i (sta_of ad' i)" "ps_doze (ad_tim ad') (ad_dz ad') (sta_of ad' i)"
    using inv p(1) by (auto simp: ps_inv_def sta_of_def)
  ultimately show ?thesis unfolding ps_queue_def ps_doze_def announced_def by auto
qed

text \<open>An access point with the broadcast station and one dozing peer with association id 1.\<close>

definition sample_peer :: "bytes \<Rightarrow> u16 \<Rightarrow> u32 \<Rightarrow> sta_info" where
  "sample_peer mac aid st = zero_stainfo\<lparr>si_mac_addr := mac, si_aid := aid, si_state := st, si_has_legacy_ac := 1\<rparr>"

lemma sample_peer_sel [simp]:
  "si_mac_addr (sample_peer m a st) = m" "sta_aid8 (sample_peer m a st) = ucast a" "si_state (sample_peer m a st) = st"
  "si_sleep_q (sample_peer m a st) = []" "si_sleepq_len (sample_peer m a st) = 0" "si_sleepq_ac_len (sample_peer m a st) = 0"
  "si_has_legacy_ac (sample_peer m a st) = 1" "\<not> wmmps_ac k p (sample_peer m a st)" "uapsd_ok (sample_peer m a st)"
  by (simp_all add: sample_peer_def zero_stainfo_def sta_aid8_def wmmps_ac_def uapsd_ok_def all_delivery_enabled_def)

definition sample_ap :: adapter where
  "sample_ap = sample_adapter\<lparr>ad_mlme_ap := True, ad_stapriv := sample_sta_priv\<lparr>
     pstainfo_buf := sample_peer [255, 255, 255, 255, 255, 255] 0 1 # sample_peer [4, 4, 4, 4, 4, 4] 1 5 # replicate 30 zero_stainfo,
     free_sta_queue := [2..<32], sta_hash := [] # [1] # [] # [0] # replicate 28 [], asoc_sta_count := 2, sta_dz_bitmap := [2, 0, 0, 0, 0]\<rparr>\<rparr>"

lemma sample_hash: "unat (wifi_mac_hash [255, 255, 255, 255, 255, 255]) = 3" "unat (wifi_mac_hash [4, 4, 4, 4, 4, 4]) = 1"
  by (simp_all add: wifi_mac_hash_def Let_def)

lemma bc_addr_list: "bc_addr = [255, 255, 255, 255, 255, 255]"
  by (simp add: bc_addr_def numeral_eq_Suc)

lemma sample_ap_live: "sta_live (ad_stapriv sample_ap) = [1, 0]"
  by (simp add: sta_live_def sample_ap_def)

lemma sample_ap_sta:
  "sta_of sample_ap 0 = sample_peer bc_addr 0 1" "sta_of sample_ap 1 = sample_peer [4, 4, 4, 4, 4, 4] 1 5"
  "rtw_get_bcmc_stainfo (ad_stapriv sample_ap) = Some 0"
  "rtw_get_stainfo (ad_stapriv sample_ap) [4, 4, 4, 4, 4, 4] = Some 1"
  by (simp_all add: sta_of_def sample_ap_def bc_addr_list rtw_get_bcmc_stainfo_def rtw_get_stainfo_def Let_def sample_hash IS_MCAST_def)

lemma sample_ap_inv: "sta_inv (ad_stapriv sample_ap)"
proof -
  let ?sp = "ad_stapriv sample_ap"
  have h: "sta_hash ?sp = [] # [1] # [] # [0] # replicate 28 []" "length (sta_hash ?sp) = 32" "free_sta_queue ?sp = [2..<32]"
      "length (pstainfo_buf ?sp) = 32" "asoc_sta_count ?sp = 2"
    by (simp_all add: sample_ap_def)
  have m: "sta_mac ?sp 0 = [255, 255, 255, 255, 255, 255]" "sta_mac ?sp 1 = [4, 4, 4, 4, 4, 4]"
    by (simp_all add: sample_ap_def)
  have bk: "sta_hash ?sp ! b = (if b = 1 then [1] else if b = 3 then [0] else [])" if "b < 32" for b
    unfolding h using that by (simp add: nth_Cons')
  have "distinct (free_sta_queue ?sp @ sta_live ?sp) \<and> set (free_sta_queue ?sp @ sta_live ?sp) = {..<32}"
    unfolding h sample_ap_live by (auto simp del: upt_rec_numeral)
  moreover have "\<forall>b < 32. \<forall>i\<in>set (sta_hash ?sp ! b). unat (wifi_mac_hash (sta_mac ?sp i)) = b"
    using bk m sample_hash by simp
  moreover have "inj_on (sta_mac ?sp) (set (sta_live ?sp)) \<and> (\<forall>i\<in>set (sta_live ?sp). sta_key (sta_mac ?sp i))"
    using m by (auto simp: sample_ap_live sta_key_def IS_MCAST_def bc_addr_list)
  ultimately show ?thesis using h by (simp add: sta_inv_def NUM_STA_def sample_ap_live)
qed

lemma sample_ap_members: "ps_members (ad_stapriv sample_ap) = {0, 1}"
  using sample_ap_sta(1,2) unfolding ps_members_def sample_ap_live sta_of_def
  by (auto simp: si_asoc_def WIFI_ASOC_STATE_def)

lemma sample_ap_maps: "ad_mlme_ap sample_ap" "ad_tim sample_ap = [0, 0, 0, 0, 0]" "ad_dz sample_ap = [2, 0, 0, 0, 0]"
  by (simp_all add: sample_ap_def sample_sta_priv_def numeral_eq_Suc)

lemma sample_ap_ps: "ps_inv (ad_stapriv sample_ap)"
proof -
  have s: "sp_sta (ad_stapriv sample_ap) 0 = sample_peer bc_addr 0 1" "sp_sta (ad_stapriv sample_ap) (Suc 0) = sample_peer [4, 4, 4, 4, 4, 4] 1 5"
    using sample_ap_sta(1,2) by (simp_all add: sta_of_def)
  have "ps_static (ad_stapriv sample_ap)"
    unfolding ps_static_def sample_ap_members using sample_ap_inv sample_ap_sta(3) by (simp add: s sample_ap_maps)
  moreover have "ps_doze (ad_tim sample_ap) (ad_dz sample_ap) (sample_peer bc_addr 0 1)"
    "ps_doze (ad_tim sample_ap) (ad_dz sample_ap) (sample_peer [4, 4, 4, 4, 4, 4] 1 5)"
    by (simp_all add: ps_doze_def sample_ap_maps sta_sleeps_def WIFI_SLEEP_STATE_def rtw_tim_map_is_set_def rtw_bmp_is_set_def BIT8_def)
  ultimately show ?thesis unfolding ps_inv_def sample_ap_members by (simp add: s ps_queue_def)
qed

abbreviation sample_data :: xmit_frame where
  "sample_data \<equiv> (sample_xframe 7 0 1)\<lparr>xf_ra := [4, 4, 4, 4, 4, 4]\<rparr>"

lemma sample_buffer:
  "ad_stapriv (snd (snd (xmitframe_enqueue_for_sleeping_sta sample_data sample_ap)))
   = ps_change (ad_stapriv sample_ap) 1 (sleepq_push sample_data (sample_peer [4, 4, 4, 4, 4, 4] 1 5)) [2, 0, 0, 0, 0] [2, 0, 0, 0, 0]"
  using sample_ap_sta(2,4)
  by (simp add: xmitframe_enqueue_for_sleeping_sta_def Let_def sample_xframe_def IS_MCAST_def sample_ap_maps sta_asoc_def WIFI_ASOC_STATE_def
      sta_sleeps_def WIFI_SLEEP_STATE_def rtw_tim_map_is_set_def rtw_tim_map_set_def rtw_bmp_is_set_def rtw_bmp_set_def BIT8_def)

abbreviation sample_kept :: adapter where
  "sample_kept \<equiv> run ps_step sample_ap [PsBuffer sample_data]"

lemma sample_kept_run: "adm_run ps_step ps_adm sample_ap [PsBuffer sample_data]"
proof -
  have "ps_room_all 1 (ad_stapriv sample_ap)"
    unfolding ps_room_all_def sample_ap_members using sample_ap_sta(1,2) by (simp add: ps_room_def sta_of_def)
  then show ?thesis by simp
qed

lemma sample_kept_sta:
  "sta_of sample_kept 1 = sleepq_push sample_data (sample_peer [4, 4, 4, 4, 4, 4] 1 5)" (is ?s) "ps_peer sample_kept 1" (is ?p)
proof -
  have b: "1 < length (pstainfo_buf (ad_stapriv sample_ap))" by (simp add: sample_ap_def)
  have e: "ad_stapriv sample_kept = ps_change (ad_stapriv sample_ap) 1 (sleepq_push sample_data (sample_peer [4, 4, 4, 4, 4, 4] 1 5)) [2, 0, 0, 0, 0] [2, 0, 0, 0, 0]"
    using sample_buffer by simp
  show ?s unfolding sta_of_def e using b by simp
  have c: "sta_core (sleepq_push sample_data (sample_peer [4, 4, 4, 4, 4, 4] 1 5)) = sta_core (sp_sta (ad_stapriv sample_ap) 1)"
    using sample_ap_sta(2) by (simp add: sta_of_def sta_core_def sleepq_push_def si_asoc_def)
  have "ps_members (ad_stapriv sample_kept) = {0, 1}" "rtw_get_bcmc_stainfo (ad_stapriv sample_kept) = Some 0"
    using ps_change_members(2) [OF sample_ap_inv _ c] sample_ap_members sample_ap_sta(3)
    unfolding e rtw_get_bcmc_stainfo_def ps_change_get [OF c] by auto
  then show ?p by (simp add: ps_peer_def)
qed

theorem ap_pwrsave_announces_witness:
  "let ad = run ps_step sample_ap [PsBuffer sample_data] in
   si_sleep_q (sta_of ad 1) = [sample_data] \<and> unat (si_sleepq_len (sta_of ad 1)) = 1 \<and> rtw_tim_map_is_set (ad_tim ad) 1"
proof -
  note t = ap_pwrsave_announces [OF sample_ap_ps sample_kept_run sample_kept_sta(2)]
  have q: "si_sleep_q (sta_of sample_kept 1) = [sample_data]" "\<not> wmmps_ac 1 (xf_priority sample_data) (sta_of sample_kept 1)" "sta_aid8 (sta_of sample_kept 1) = 1"
    unfolding sample_kept_sta(1) by (simp_all add: sleepq_push_def wmmps_ac_def sta_aid8_def sample_peer_def zero_stainfo_def)
  show ?thesis unfolding Let_def using t q by simp
qed

text \<open>
  C11. When a dozing station wakes up, all frames kept for it are handed to its transmit queues, each
  in the queue of its priority and in the order they were kept; the queue is empty, the station awake
  and neither announced nor marked as dozing.
\<close>

theorem wakeup_sta_to_xmit_delivers:
  assumes "ps_inv (ad_stapriv ad)" "ps_peer ad i"
  defines "ad' \<equiv> wakeup_sta_to_xmit i ad"
  shows "si_sleep_q (sta_of ad' i) = [] \<and> \<not> sta_sleeps (sta_of ad' i)
     \<and> \<not> rtw_tim_map_is_set (ad_tim ad') (sta_aid8 (sta_of ad i)) \<and> \<not> rtw_tim_map_is_set (ad_dz ad') (sta_aid8 (sta_of ad i))
     \<and> (\<exists>gs. list_all2 same_frame (si_sleep_q (sta_of ad i)) gs \<and> (\<forall>ac. sta_pending (servq (ad_xmitpriv ad') i ac)
          = sta_pending (servq (ad_xmitpriv ad) i ac) @ filter (\<lambda>f. rtw_get_sta_pending (xf_priority f) = ac) gs))"
  unfolding ad'_def by (rule wakeup_delivers [OF assms(1,2)])

text \<open>A frame is kept for the dozing station; when it wakes up, the frame is in its transmit queue.\<close>

theorem wakeup_sta_to_xmit_delivers_witness:
  "let ad = run ps_step sample_ap [PsBuffer sample_data]; ad' = wakeup_sta_to_xmit 1 ad in
   si_sleep_q (sta_of ad 1) = [sample_data] \<and> sta_sleeps (sta_of ad 1) \<and> si_sleep_q (sta_of ad' 1) = [] \<and> \<not> sta_sleeps (sta_of ad' 1)
   \<and> (\<exists>g. same_frame sample_data g \<and> sta_pending (servq (ad_xmitpriv ad') 1 (rtw_get_sta_pending (xf_priority sample_data))) = [g])"
proof -
  have inv: "ps_inv (ad_stapriv sample_kept)" by (rule pwrsave.run_inv [OF sample_ap_ps sample_kept_run])
  have q: "si_sleep_q (sta_of sample_kept 1) = [sample_data]" "sta_sleeps (sta_of sample_kept 1)"
    unfolding sample_kept_sta(1) by (simp_all add: sleepq_push_def sta_sleeps_def WIFI_SLEEP_STATE_def)
  have x: "sta_pending (servq (ad_xmitpriv sample_kept) 1 ac) = []" for ac
    using sample_ap_sta(2,4)
    by (simp add: xmitframe_enqueue_for_sleeping_sta_def Let_def sample_xframe_def IS_MCAST_def sample_ap_maps sta_asoc_def WIFI_ASOC_STATE_def
        sta_sleeps_def WIFI_SLEEP_STATE_def rtw_tim_map_is_set_def rtw_bmp_is_set_def BIT8_def upd_sta_def upd_tim_def ad_note_add_def)
      (simp add: sample_ap_def sample_adapter_def sample_xmit_def)
  note w = wakeup_sta_to_xmit_delivers [OF inv sample_kept_sta(2)]
  obtain g where g: "same_frame sample_data g" "\<forall>ac. sta_pending (servq (ad_xmitpriv (wakeup_sta_to_xmit 1 sample_kept)) 1 ac) = filter (\<lambda>f. rtw_get_sta_pending (xf_priority f) = ac) [g]"
    using w unfolding q(1) x by (auto simp: list_all2_Cons1)
  have "xf_priority g = xf_priority sample_data" using g(1) by (simp add: same_frame_def)
  then have "sta_pending (servq (ad_xmitpriv (wakeup_sta_to_xmit 1 sample_kept)) 1 (rtw_get_sta_pending (xf_priority sample_data))) = [g]" using g(2) by simp
  then show ?thesis unfolding Let_def using q w g(1) by blast
qed

end
