(* ===== verification/Recv_Validate.thy ===== *)
theory Recv_Validate
  imports Recv_Defrag Ap_Pwrsave "HOL-Library.Monad_Syntax"
begin

unbundle bit_operations_syntax

text \<open>
  Admission of received data frames (\<^verbatim>\<open>core/rtw_recv.c\<close>, \<^verbatim>\<open>core/rtw_ap.c\<close>): the checks of the address
  fields in station, access point and ad hoc mode, the QoS control field, duplicate and replay
  detection, the choice of the cipher, and the refusal of unprotected frames in a protected network.
  Every read of the frame is a read of its buffer; \<open>None\<close> is a read outside it. The results carry the
  frame with the attributes filled in. Statistics counters are left out.
\<close>

section \<open>Header fields\<close>

definition frame_fc :: "recv_frame \<Rightarrow> u16 option" where
  "frame_fc f = map_option (\<lambda>b. ucast (b ! 0) OR push_bit 8 (ucast (b ! 1))) (frame_rd f 0 2)"

definition get_frame_sub_type :: "u16 \<Rightarrow> u16" where "get_frame_sub_type fc = fc AND 0xFC"
definition GetFrameType :: "u16 \<Rightarrow> u16" where "GetFrameType fc = fc AND 0xC"
definition GetPwrMgt :: "u16 \<Rightarrow> bool" where "GetPwrMgt fc = bit fc 12"
definition GetPrivacy :: "u16 \<Rightarrow> bool" where "GetPrivacy fc = bit fc 14"
definition GetOrder :: "u16 \<Rightarrow> bool" where "GetOrder fc = bit fc 15"
definition GetMFrag :: "u16 \<Rightarrow> bool" where "GetMFrag fc = bit fc 10"
definition GetMData :: "u16 \<Rightarrow> bool" where "GetMData fc = bit fc 13"

definition get_tofr_ds :: "u16 \<Rightarrow> u8" where
  "get_tofr_ds fc = (if bit fc 8 then 2 else 0) OR (if bit fc 9 then 1 else 0)"

definition addr1 :: "recv_frame \<Rightarrow> bytes option" where "addr1 f = frame_rd f 4 6"
definition addr2 :: "recv_frame \<Rightarrow> bytes option" where "addr2 f = frame_rd f 10 6"
definition addr3 :: "recv_frame \<Rightarrow> bytes option" where "addr3 f = frame_rd f 16 6"
definition addr4 :: "recv_frame \<Rightarrow> bytes option" where "addr4 f = frame_rd f 24 6"

text \<open>The first byte of the QoS control field at an offset of the header.\<close>

definition frame_qc :: "recv_frame \<Rightarrow> int \<Rightarrow> u8 option" where
  "frame_qc f p = map_option (\<lambda>b. b ! 0) (frame_rd f p 2)"

definition GetPriority :: "u8 \<Rightarrow> u8" where "GetPriority qc = qc AND 0xF"
definition GetAckpolicy :: "u8 \<Rightarrow> u8" where "GetAckpolicy qc = drop_bit 5 qc AND 3"
definition GetAMsdu :: "u8 \<Rightarrow> bool" where "GetAMsdu qc = bit qc 7"

definition upd_attrib :: "(rx_pkt_attrib \<Rightarrow> rx_pkt_attrib) \<Rightarrow> recv_frame \<Rightarrow> recv_frame" where
  "upd_attrib g f = f\<lparr>fr_attrib := g (fr_attrib f)\<rparr>"

definition set_ra_ta :: "bytes \<Rightarrow> bytes \<Rightarrow> recv_frame \<Rightarrow> recv_frame" where
  "set_ra_ta ra ta = upd_attrib (\<lambda>a. a\<lparr>pa_ra := ra, pa_ta := ta\<rparr>)"

definition set_dst_src :: "bytes \<Rightarrow> bytes \<Rightarrow> bytes \<Rightarrow> recv_frame \<Rightarrow> recv_frame" where
  "set_dst_src dst src bssid = upd_attrib (\<lambda>a. a\<lparr>pa_dst := dst, pa_src := src, pa_bssid := bssid\<rparr>)"

section \<open>Environment\<close>

text \<open>
  What the checks read of the MLME and the clock, and what they change besides the receive context:
  the two static times of the last deauthentication and the flag for traffic other than best effort.
\<close>

record val_env =
  ve_fw_state :: u32
  ve_bssid :: bytes
  ve_radar :: bool
  ve_now :: u64
  ve_to_ms :: "u64 \<Rightarrow> u32"

record val_ctx =
  vc_rx :: rx_ctx
  vc_sta_deauth_time :: u64
  vc_ap_deauth_time :: u64
  vc_is_any_non_be_pkts :: bool

definition WIFI_UNDER_LINKING :: u32 where "WIFI_UNDER_LINKING = 0x80"
definition WIFI_STATION_STATE :: u32 where "WIFI_STATION_STATE = 8"
definition WIFI_ADHOC_STATE :: u32 where "WIFI_ADHOC_STATE = 0x20"
definition WIFI_ADHOC_MASTER_STATE :: u32 where "WIFI_ADHOC_MASTER_STATE = 0x40"
definition WIFI_MP_STATE :: u32 where "WIFI_MP_STATE = 0x10000"

definition check_fwstate :: "val_env \<Rightarrow> u32 \<Rightarrow> bool" where
  "check_fwstate env st \<longleftrightarrow> ve_fw_state env AND st \<noteq> 0"

abbreviation vc_ad :: "val_ctx \<Rightarrow> adapter" where "vc_ad v \<equiv> rx_ad (vc_rx v)"
abbreviation vc_sp :: "val_ctx \<Rightarrow> sta_priv" where "vc_sp v \<equiv> ad_stapriv (vc_ad v)"

definition upd_ad :: "(adapter \<Rightarrow> adapter) \<Rightarrow> val_ctx \<Rightarrow> val_ctx" where
  "upd_ad g v = v\<lparr>vc_rx := (vc_rx v)\<lparr>rx_ad := g (vc_ad v)\<rparr>\<rparr>"

definition issue_deauth :: "bytes \<Rightarrow> val_ctx \<Rightarrow> val_ctx" where
  "issue_deauth a = upd_ad (ad_note_add (IssueDeauth a))"

definition deauth_due :: "val_env \<Rightarrow> u64 \<Rightarrow> bool" where
  "deauth_due env t \<longleftrightarrow> sint (ve_to_ms env (ve_now env - t)) > 10000 \<or> t = 0"

type_synonym hdr_result = "ret \<times> nat option \<times> recv_frame \<times> val_ctx"

section \<open>Address checks\<close>

text \<open>The addresses of a frame of an associated station by its DS bits; the inner \<open>None\<close> is a frame that is not for a station.\<close>

definition sta_hdr_addrs :: "recv_frame \<Rightarrow> bytes \<Rightarrow> bytes \<Rightarrow> recv_frame option option" where
  "sta_hdr_addrs f a1 a2 =
     (if pa_to_fr_ds (fr_attrib f) = 1 then do { a3 \<leftarrow> addr3 f; Some (Some (set_dst_src a1 a3 a2 f)) }
      else if pa_to_fr_ds (fr_attrib f) = 3 then do { a3 \<leftarrow> addr3 f; a4 \<leftarrow> addr4 f; Some (Some (set_dst_src a3 a4 a2 f)) }
      else Some None)"

text \<open>The source must be somebody else, the transmitter a known station; null frames carry nothing.\<close>

definition sta_hdr_check :: "val_env \<Rightarrow> bool \<Rightarrow> recv_frame \<Rightarrow> val_ctx \<Rightarrow> hdr_result option" where
  "sta_hdr_check env is_ra_bmc f v =
     (if \<not> pa_amsdu (fr_attrib f) \<and> ad_mac (vc_ad v) = pa_src (fr_attrib f) then Some (RET_FAIL, None, f, v)
      else
       (case rtw_get_stainfo (vc_sp v) (pa_ta (fr_attrib f)) of
          None \<Rightarrow> Some (RET_FAIL, None, f, if \<not> is_ra_bmc \<and> \<not> ve_radar env then issue_deauth (pa_ta (fr_attrib f)) v else v)
        | Some i \<Rightarrow> do {
            fc \<leftarrow> frame_fc f;
            Some (if get_frame_sub_type fc AND 0x40 \<noteq> 0 then RET_RX_HANDLED else RET_SUCCESS, Some i, f, v)
          }))"

definition rtw_sta_rx_data_validate_hdr :: "val_env \<Rightarrow> recv_frame \<Rightarrow> val_ctx \<Rightarrow> hdr_result option" where
  "rtw_sta_rx_data_validate_hdr env f v = do {
     b4 \<leftarrow> frame_rd f 4 1;
     if pa_to_fr_ds (fr_attrib f) = 0 then do {
       a1 \<leftarrow> addr1 f; a2 \<leftarrow> addr2 f; a3 \<leftarrow> addr3 f;
       let f = set_dst_src a1 a2 a3 (set_ra_ta a1 a2 f);
       if a3 \<noteq> a2 then Some (RET_FAIL, None, f, v)
       else (let sta = rtw_get_stainfo (vc_sp v) a2
             in Some (if sta = None then RET_FAIL else RET_SUCCESS, sta, f, v))
     }
     else if \<not> check_fwstate env (WIFI_ASOC_STATE OR WIFI_UNDER_LINKING) then
       (if \<not> IS_MCAST b4 \<and> deauth_due env (vc_sta_deauth_time v) then do {
          a2 \<leftarrow> addr2 f;
          Some (RET_FAIL, None, f, issue_deauth a2 (v\<lparr>vc_sta_deauth_time := ve_now env\<rparr>))
        }
        else Some (RET_FAIL, None, f, v))
     else do {
       a1 \<leftarrow> addr1 f; a2 \<leftarrow> addr2 f;
       addrs \<leftarrow> sta_hdr_addrs (set_ra_ta a1 a2 f) a1 a2;
       case addrs of
         None \<Rightarrow> Some (RET_RX_HANDLED, None, set_ra_ta a1 a2 f, v)
       | Some f \<Rightarrow> sta_hdr_check env (IS_MCAST b4) f v
     }
   }"

definition rtw_ap_rx_data_validate_hdr :: "val_env \<Rightarrow> recv_frame \<Rightarrow> val_ctx \<Rightarrow> hdr_result option" where
  "rtw_ap_rx_data_validate_hdr env f v =
     (if \<not> check_fwstate env WIFI_ASOC_STATE then Some (RET_FAIL, None, f, v)
      else do {
        r \<leftarrow> (if pa_to_fr_ds (fr_attrib f) = 2 then do {
                 b4 \<leftarrow> frame_rd f 4 1;
                 if IS_MCAST b4 then Some (Inl RET_FAIL)
                 else do { a1 \<leftarrow> addr1 f; a2 \<leftarrow> addr2 f; a3 \<leftarrow> addr3 f;
                           Some (Inr (False, set_dst_src a3 a2 a1 (set_ra_ta a1 a2 f))) }
               }
               else if pa_to_fr_ds (fr_attrib f) = 3 then do {
                 b4 \<leftarrow> frame_rd f 4 1; a1 \<leftarrow> addr1 f; a2 \<leftarrow> addr2 f; a3 \<leftarrow> addr3 f; a4 \<leftarrow> addr4 f;
                 Some (Inr (IS_MCAST b4, set_dst_src a3 a4 (if IS_MCAST b4 then pa_bssid (fr_attrib f) else a1) (set_ra_ta a1 a2 f)))
               }
               else Some (Inl RET_RX_HANDLED));
        case r of
          Inl ret \<Rightarrow> Some (ret, None, f, v)
        | Inr (is_ra_bmc, f) \<Rightarrow>
            (case rtw_get_stainfo (vc_sp v) (pa_ta (fr_attrib f)) of
               None \<Rightarrow> Some (RET_RX_HANDLED, None, f, if \<not> is_ra_bmc \<and> \<not> ve_radar env then issue_deauth (pa_ta (fr_attrib f)) v else v)
             | Some i \<Rightarrow> do {
                 fc \<leftarrow> frame_fc f;
                 let v = upd_ad (process_pwrbit_data (GetPwrMgt fc) i) v;
                 let v = (if get_frame_sub_type fc AND 0x88 = 0x88 then upd_ad (process_wmmps_data (pa_priority (fr_attrib f)) i) v else v);
                 Some (if get_frame_sub_type fc AND 0x40 \<noteq> 0 then RET_RX_HANDLED else RET_SUCCESS, Some i, f, v)
               })
      })"

text \<open>The three remaining modes. In MP mode the addresses are taken as in ad hoc mode.\<close>

definition mp_addrs :: "recv_frame \<Rightarrow> recv_frame option" where
  "mp_addrs f = do { a1 \<leftarrow> addr1 f; a2 \<leftarrow> addr2 f; a3 \<leftarrow> addr3 f; Some (set_ra_ta a1 a2 (set_dst_src a1 a2 a3 f)) }"

definition sta2sta_data_frame :: "val_env \<Rightarrow> recv_frame \<Rightarrow> val_ctx \<Rightarrow> hdr_result option" where
  "sta2sta_data_frame env f v =
     (let a = fr_attrib f; bmcast = IS_MCAST (pa_dst a) in
      if check_fwstate env WIFI_ADHOC_STATE \<or> check_fwstate env WIFI_ADHOC_MASTER_STATE then
        (if ad_mac (vc_ad v) = pa_src a \<or> ad_mac (vc_ad v) \<noteq> pa_dst a \<and> \<not> bmcast
            \<or> pa_bssid a = replicate 6 0 \<or> ve_bssid env = replicate 6 0 \<or> pa_bssid a \<noteq> ve_bssid env
         then Some (RET_FAIL, None, f, v)
         else (let sta = rtw_get_stainfo (vc_sp v) (pa_ta a) in Some (if sta = None then RET_FAIL else RET_SUCCESS, sta, f, v)))
      else if check_fwstate env WIFI_MP_STATE then do {
        f \<leftarrow> mp_addrs f;
        let sta = rtw_get_stainfo (vc_sp v) (ve_bssid env);
        Some (if sta = None then RET_FAIL else RET_SUCCESS, sta, f, v)
      }
      else Some (RET_FAIL, rtw_get_stainfo (vc_sp v) (pa_ta a), f, v))"

definition ap2sta_data_frame :: "val_env \<Rightarrow> recv_frame \<Rightarrow> val_ctx \<Rightarrow> hdr_result option" where
  "ap2sta_data_frame env f v =
     (let a = fr_attrib f; bmcast = IS_MCAST (pa_dst a) in
      if check_fwstate env WIFI_MP_STATE \<and> check_fwstate env WIFI_ASOC_STATE then do {
        f \<leftarrow> mp_addrs f;
        let sta = rtw_get_stainfo (vc_sp v) (pa_bssid (fr_attrib f));
        Some (if sta = None then RET_FAIL else RET_SUCCESS, sta, f, v)
      }
      else if ad_mac (vc_ad v) = pa_dst a \<and> \<not> bmcast then
        (case rtw_get_stainfo (vc_sp v) (pa_ta a) of
           None \<Rightarrow> Some (RET_FAIL, None, f, if deauth_due env (vc_ap_deauth_time v)
                    then issue_deauth (pa_bssid a) (v\<lparr>vc_ap_deauth_time := ve_now env\<rparr>) else v)
         | Some i \<Rightarrow> Some (RET_FAIL, Some i, f, v))
      else Some (RET_FAIL, None, f, v))"

definition sta2ap_data_frame :: "val_env \<Rightarrow> recv_frame \<Rightarrow> val_ctx \<Rightarrow> hdr_result option" where
  "sta2ap_data_frame env f v =
     (if check_fwstate env WIFI_MP_STATE \<and> check_fwstate env WIFI_ASOC_STATE then do {
        f \<leftarrow> mp_addrs f;
        let sta = rtw_get_stainfo (vc_sp v) (pa_bssid (fr_attrib f));
        Some (if sta = None then RET_FAIL else RET_SUCCESS, sta, f, v)
      }
      else if pa_ra (fr_attrib f) \<noteq> ad_mac (vc_ad v) then Some (RET_RX_HANDLED, None, f, v)
      else Some (RET_RX_HANDLED, None, f, issue_deauth (pa_src (fr_attrib f)) v))"

section \<open>Ciphers\<close>

definition GET_ENCRY_ALGO :: "security_priv \<Rightarrow> sta_info \<Rightarrow> bool \<Rightarrow> u8 \<Rightarrow> u8" where
  "GET_ENCRY_ALGO sec psta bmcst encry_algo =
     (if dot11AuthAlgrthm sec \<in> {0, 1, 3} then ucast (dot11PrivacyAlgrthm sec)
      else if dot11AuthAlgrthm sec = dot11AuthAlgrthm_8021X
      then (if bmcst then ucast (dot118021XGrpPrivacy sec) else ucast (si_dot118021XPrivacy psta))
      else if dot11AuthAlgrthm sec = 4 then ucast (dot11PrivacyAlgrthm sec)
      else encry_algo)"

definition SET_ICE_IV_LEN :: "u8 \<Rightarrow> u8 \<times> u8" where
  "SET_ICE_IV_LEN encrypt =
     (if encrypt = WEP40 \<or> encrypt = WEP104 then (4, 4)
      else if encrypt = TKIP then (8, 4)
      else if encrypt = AES then (8, 8)
      else if encrypt = GCMP \<or> encrypt = GCMP_256 then (8, 16)
      else if encrypt = CCMP_256 then (8, 16)
      else if encrypt = 6 then (18, 16)
      else (0, 0))"

section \<open>Data frames\<close>

definition WLAN_STA_AMSDU_DISABLE :: u32 where "WLAN_STA_AMSDU_DISABLE = 0x20000"

definition validate_data_hdr :: "val_env \<Rightarrow> recv_frame \<Rightarrow> val_ctx \<Rightarrow> hdr_result option" where
  "validate_data_hdr env f v =
     (if ad_mlme_ap (vc_ad v) then rtw_ap_rx_data_validate_hdr env f v
      else if check_fwstate env WIFI_STATION_STATE then rtw_sta_rx_data_validate_hdr env f v
      else if pa_to_fr_ds (fr_attrib f) = 0 then do {
        a1 \<leftarrow> addr1 f; a2 \<leftarrow> addr2 f; a3 \<leftarrow> addr3 f;
        sta2sta_data_frame env (set_dst_src a1 a2 a3 (set_ra_ta a1 a2 f)) v
      }
      else if pa_to_fr_ds (fr_attrib f) = 1 then do {
        a1 \<leftarrow> addr1 f; a2 \<leftarrow> addr2 f; a3 \<leftarrow> addr3 f;
        ap2sta_data_frame env (set_dst_src a1 a3 a2 (set_ra_ta a1 a2 f)) v
      }
      else if pa_to_fr_ds (fr_attrib f) = 2 then do {
        a1 \<leftarrow> addr1 f; a2 \<leftarrow> addr2 f; a3 \<leftarrow> addr3 f;
        sta2ap_data_frame env (set_dst_src a3 a2 a1 (set_ra_ta a1 a2 f)) v
      }
      else Some (RET_FAIL, None, f, v))"

text \<open>The QoS control field: priority, acknowledgement policy and header length.\<close>

definition validate_data_qos :: "recv_frame \<Rightarrow> int \<Rightarrow> val_ctx \<Rightarrow> (recv_frame \<times> val_ctx) option" where
  "validate_data_qos f a4_shift v = do {
     let f = upd_attrib (\<lambda>a. a\<lparr>pa_ack_policy := 0\<rparr>) f;
     (f, v) \<leftarrow>
       (if pa_qos (fr_attrib f) then do {
          qc \<leftarrow> frame_qc f (24 + a4_shift);
          let f = upd_attrib (\<lambda>a. a\<lparr>pa_priority := GetPriority qc, pa_ack_policy := GetAckpolicy qc,
                               pa_hdrlen := 26 + word_of_int a4_shift\<rparr>) f;
          Some (f, v\<lparr>vc_is_any_non_be_pkts := GetPriority qc \<noteq> 0 \<and> GetPriority qc \<noteq> 3\<rparr>)
        }
        else Some (upd_attrib (\<lambda>a. a\<lparr>pa_priority := 0, pa_hdrlen := 24 + word_of_int a4_shift\<rparr>) f, v));
     Some (upd_attrib (\<lambda>a. if pa_order a then a\<lparr>pa_hdrlen := pa_hdrlen a + 4\<rparr> else a) f, v)
   }"

text \<open>Duplicates and replays; the frame of a QoS station gets its reorder control.\<close>

definition validate_data_decache :: "val_env \<Rightarrow> nat \<Rightarrow> recv_frame \<Rightarrow> val_ctx \<Rightarrow> (ret \<times> recv_frame \<times> val_ctx) option" where
  "validate_data_decache env i f v =
     (let a = fr_attrib f; c = vc_rx v;
          (r, s) = recv_decache a (rx_sta c i);
          c = set_sta i s c; v = v\<lparr>vc_rx := c\<rparr> in
      if r = RET_FAIL then Some (RET_FAIL, f, v)
      else if \<not> IS_MCAST (pa_ra a) then
        (let f = (if pa_qos a then f\<lparr>fr_preorder_ctrl := Some (i, unat (pa_priority a))\<rparr> else f) in do {
           (r, s) \<leftarrow> recv_ucast_pn_decache f (rx_sta c i);
           Some (r, f, v\<lparr>vc_rx := set_sta i s c\<rparr>)
         })
      else do {
        (r, sec) \<leftarrow> recv_bcast_pn_decache (check_fwstate env WIFI_STATION_STATE) f (rx_sec c);
        Some (r, f, v\<lparr>vc_rx := c\<lparr>rx_sec := sec\<rparr>\<rparr>)
      })"

definition validate_data_cipher :: "nat \<Rightarrow> recv_frame \<Rightarrow> val_ctx \<Rightarrow> recv_frame" where
  "validate_data_cipher i f v =
     upd_attrib (\<lambda>a.
       if pa_privacy a then
         (let e = GET_ENCRY_ALGO (rx_sec (vc_rx v)) (rx_sta (vc_rx v) i) (IS_MCAST (pa_ra a)) (pa_encrypt a)
          in a\<lparr>pa_encrypt := e, pa_iv_len := fst (SET_ICE_IV_LEN e), pa_icv_len := snd (SET_ICE_IV_LEN e)\<rparr>)
       else a\<lparr>pa_encrypt := 0, pa_iv_len := 0, pa_icv_len := 0\<rparr>) f"

text \<open>Unprotected frames in a protected network.\<close>

definition validate_data_protected :: "nat \<Rightarrow> recv_frame \<Rightarrow> val_ctx \<Rightarrow> ret option" where
  "validate_data_protected i f v =
     (let a = fr_attrib f; sec = rx_sec (vc_rx v) in
      if dot11PrivacyAlgrthm sec = 0 then Some RET_SUCCESS
      else if IS_MCAST (pa_ra a) then Some (if \<not> pa_privacy a then RET_FAIL else RET_SUCCESS)
      else do {
        et \<leftarrow> frame_rd f (uint (pa_hdrlen a) + uint (pa_iv_len a) + 6) 2;
        let eapol = (et = [0x88, 0x8e]);
        if dot11AuthAlgrthm sec = dot11AuthAlgrthm_8021X then
          Some (if \<not> pa_privacy a \<and> \<not> eapol \<or> \<not> pa_privacy a \<and> pa_amsdu a
                   \<or> eapol \<and> ad_mlme_ap (vc_ad v) \<and> si_dot118021XPrivacy (rx_sta (vc_rx v) i) = 0 \<and> ad_mac (vc_ad v) \<noteq> pa_dst a
                then RET_FAIL else RET_SUCCESS)
        else Some (if \<not> pa_privacy a then RET_FAIL else RET_SUCCESS)
      })"

text \<open>The checks once the station is known.\<close>

definition validate_data_sta :: "val_env \<Rightarrow> nat \<Rightarrow> int \<Rightarrow> recv_frame \<Rightarrow> val_ctx \<Rightarrow> (ret \<times> recv_frame \<times> val_ctx) option" where
  "validate_data_sta env i a4_shift f v =
     (if si_flags (rx_sta (vc_rx v) i) AND WLAN_STA_AMSDU_DISABLE \<noteq> 0 \<and> pa_amsdu (fr_attrib f) then Some (RET_FAIL, f, v)
      else do {
        (f, v) \<leftarrow> validate_data_qos (f\<lparr>fr_psta := Some i, fr_preorder_ctrl := None\<rparr>) a4_shift v;
        (r, f, v) \<leftarrow> validate_data_decache env i f v;
        if r = RET_FAIL then Some (RET_FAIL, f, v)
        else do {
          let f = validate_data_cipher i f v;
          r \<leftarrow> validate_data_protected i f v;
          Some (r, f, v)
        }
      })"

definition validate_recv_data_frame :: "val_env \<Rightarrow> recv_frame \<Rightarrow> val_ctx \<Rightarrow> (ret \<times> recv_frame \<times> val_ctx) option" where
  "validate_recv_data_frame env f v = do {
     let a4_shift = (if pa_to_fr_ds (fr_attrib f) = 3 then 6 else 0);
     amsdu \<leftarrow> (if pa_qos (fr_attrib f) then map_option GetAMsdu (frame_qc f (24 + a4_shift)) else Some False);
     (r, psta, f, v) \<leftarrow> validate_data_hdr env (upd_attrib (\<lambda>a. a\<lparr>pa_amsdu := amsdu\<rparr>) f) v;
     if r \<noteq> RET_SUCCESS then Some (r, f, v)
     else case psta of
       None \<Rightarrow> Some (RET_FAIL, f, v)
     | Some i \<Rightarrow> validate_data_sta env i a4_shift f v
   }"

section \<open>What admission leaves alone\<close>

text \<open>The buffer, the identity and the attributes taken from the frame control field.\<close>

definition same_bytes :: "recv_frame \<Rightarrow> recv_frame \<Rightarrow> bool" where
  "same_bytes f g \<longleftrightarrow> rx_mem g = rx_mem f \<and> rx_data g = rx_data f \<and> rx_tail g = rx_tail f \<and> fr_len g = fr_len f \<and> fr_id g = fr_id f
     \<and> pa_privacy (fr_attrib g) = pa_privacy (fr_attrib f) \<and> pa_qos (fr_attrib g) = pa_qos (fr_attrib f)
     \<and> pa_to_fr_ds (fr_attrib g) = pa_to_fr_ds (fr_attrib f) \<and> pa_order (fr_attrib g) = pa_order (fr_attrib f)"

lemma same_bytes_refl [simp]: "same_bytes f f"
  and same_bytes_trans: "same_bytes f g \<Longrightarrow> same_bytes g h \<Longrightarrow> same_bytes f h"
  by (auto simp: same_bytes_def)

lemma same_bytes_set [simp]: "same_bytes f (set_ra_ta ra ta g) = same_bytes f g" "same_bytes f (set_dst_src d s b g) = same_bytes f g"
  "same_bytes f (upd_attrib (\<lambda>a. a\<lparr>pa_amsdu := x\<rparr>) g) = same_bytes f g"
  by (simp_all add: same_bytes_def set_ra_ta_def set_dst_src_def upd_attrib_def)

lemma frame_rd_same: "same_bytes f g \<Longrightarrow> frame_rd g = frame_rd f"
  by (auto simp: same_bytes_def frame_rd_def fun_eq_iff)

lemma frame_rd_attrib [simp]: "frame_rd (upd_attrib g f) = frame_rd f"
  by (simp add: upd_attrib_def frame_rd_def fun_eq_iff)

lemma set_sel [simp]:
  "pa_ta (fr_attrib (set_ra_ta ra ta f)) = ta" "pa_ta (fr_attrib (set_dst_src d s b f)) = pa_ta (fr_attrib f)"
  "frame_rd (set_ra_ta ra ta f) = frame_rd f" "frame_rd (set_dst_src d s b f) = frame_rd f"
  "pa_to_fr_ds (fr_attrib (set_ra_ta ra ta f)) = pa_to_fr_ds (fr_attrib f)"
  by (simp_all add: set_ra_ta_def set_dst_src_def upd_attrib_def frame_rd_def fun_eq_iff)

lemma upd_ad_sec [simp]: "rx_sec (vc_rx (upd_ad g v)) = rx_sec (vc_rx v)" "rx_sec (vc_rx (issue_deauth a v)) = rx_sec (vc_rx v)"
  by (simp_all add: upd_ad_def issue_deauth_def)

lemma bind_Some: "Option.bind x g = Some y \<longleftrightarrow> (\<exists>z. x = Some z \<and> g z = Some y)"
  by (cases x) auto

definition known_ta :: "recv_frame \<Rightarrow> val_ctx \<Rightarrow> nat option \<Rightarrow> bool" where
  "known_ta f v psta \<longleftrightarrow> (\<exists>a2 i. addr2 f = Some a2 \<and> rtw_get_stainfo (vc_sp v) a2 = Some i \<and> psta = Some i)"

lemmas addr_defs = addr1_def addr2_def addr3_def addr4_def

lemma sta_hdr_check_ok:
  assumes "sta_hdr_check env m f v = Some (r, psta, g, v')"
  shows "g = f \<and> rx_sec (vc_rx v') = rx_sec (vc_rx v) \<and> (r = RET_SUCCESS \<longrightarrow> rtw_get_stainfo (vc_sp v) (pa_ta (fr_attrib f)) = psta \<and> psta \<noteq> None)"
  using assms unfolding sta_hdr_check_def by (auto simp: bind_Some split: if_splits option.splits)

lemma sta_hdr_addrs_ok: "sta_hdr_addrs f a1 a2 = Some (Some g) \<Longrightarrow> same_bytes f g \<and> pa_ta (fr_attrib g) = pa_ta (fr_attrib f)"
  unfolding sta_hdr_addrs_def by (auto simp: bind_Some split: if_splits)

lemma sta_hdr_ok:
  assumes "rtw_sta_rx_data_validate_hdr env f v = Some (r, psta, g, v')"
  shows "same_bytes f g \<and> rx_sec (vc_rx v') = rx_sec (vc_rx v) \<and> (r = RET_SUCCESS \<longrightarrow> known_ta f v psta)"
proof (cases "pa_to_fr_ds (fr_attrib f) = 0")
  case True
  then show ?thesis
    using assms unfolding rtw_sta_rx_data_validate_hdr_def known_ta_def
    by (simp add: bind_Some Let_def split: if_splits) fastforce+
next
  case False
  show ?thesis
  proof (cases "check_fwstate env (WIFI_ASOC_STATE OR WIFI_UNDER_LINKING)")
    case no: False
    show ?thesis
      using assms False no unfolding rtw_sta_rx_data_validate_hdr_def
      by (auto simp: bind_Some Let_def split: if_splits)
  next
    case True
    obtain b4 a1 a2 addrs where r: "addr2 f = Some a2" "sta_hdr_addrs (set_ra_ta a1 a2 f) a1 a2 = Some addrs"
      "(case addrs of None \<Rightarrow> Some (RET_RX_HANDLED, None, set_ra_ta a1 a2 f, v) | Some f \<Rightarrow> sta_hdr_check env (IS_MCAST b4) f v) = Some (r, psta, g, v')"
      using assms False True unfolding rtw_sta_rx_data_validate_hdr_def by (auto simp: bind_Some)
    show ?thesis
    proof (cases addrs)
      case None
      then show ?thesis using r(3) by auto
    next
      case (Some h)
      have h: "same_bytes f h" "pa_ta (fr_attrib h) = a2" using sta_hdr_addrs_ok [of "set_ra_ta a1 a2 f" a1 a2 h] r(2) Some
        by (auto simp: same_bytes_def set_ra_ta_def upd_attrib_def)
      show ?thesis using sta_hdr_check_ok [of env "IS_MCAST b4" h v r psta g v'] r Some h by (auto simp: known_ta_def)
    qed
  qed
qed

lemma ap_hdr_ok:
  assumes "rtw_ap_rx_data_validate_hdr env f v = Some (r, psta, g, v')"
  shows "same_bytes f g \<and> rx_sec (vc_rx v') = rx_sec (vc_rx v) \<and> (r = RET_SUCCESS \<longrightarrow> known_ta f v psta)"
  using assms unfolding rtw_ap_rx_data_validate_hdr_def
  by (auto simp: bind_Some Let_def known_ta_def addr1_def addr2_def addr3_def addr4_def split: if_splits option.splits)

lemma data_hdr_ok:
  assumes "validate_data_hdr env f v = Some (r, psta, g, v')" "\<not> check_fwstate env WIFI_MP_STATE"
  shows "same_bytes f g \<and> rx_sec (vc_rx v') = rx_sec (vc_rx v) \<and> (r = RET_SUCCESS \<longrightarrow> known_ta f v psta)"
proof -
  consider "rtw_ap_rx_data_validate_hdr env f v = Some (r, psta, g, v')" | "rtw_sta_rx_data_validate_hdr env f v = Some (r, psta, g, v')"
    | "\<not> ad_mlme_ap (vc_ad v)" "\<not> check_fwstate env WIFI_STATION_STATE"
    using assms(1) by (auto simp: validate_data_hdr_def split: if_splits)
  then show ?thesis
  proof cases
    case 3
    then show ?thesis
      using assms unfolding validate_data_hdr_def
      by (auto simp: bind_Some Let_def known_ta_def addr1_def addr2_def addr3_def addr4_def sta2sta_data_frame_def ap2sta_data_frame_def
          sta2ap_data_frame_def split: if_splits option.splits)
  qed (use sta_hdr_ok ap_hdr_ok in blast)+
qed

lemma bcast_pn_sec:
  assumes "recv_bcast_pn_decache st f sec = Some (r, sec')"
  shows "dot11PrivacyAlgrthm sec' = dot11PrivacyAlgrthm sec \<and> dot11AuthAlgrthm sec' = dot11AuthAlgrthm sec"
  using assms by (auto simp: recv_bcast_pn_decache_def Let_def split: if_splits option.splits)

lemma data_decache_ok:
  assumes "validate_data_decache env i f v = Some (r, g, v')"
  shows "same_bytes f g \<and> fr_psta g = fr_psta f \<and> fr_attrib g = fr_attrib f
    \<and> dot11PrivacyAlgrthm (rx_sec (vc_rx v')) = dot11PrivacyAlgrthm (rx_sec (vc_rx v))
    \<and> dot11AuthAlgrthm (rx_sec (vc_rx v')) = dot11AuthAlgrthm (rx_sec (vc_rx v))"
  using assms unfolding validate_data_decache_def
  by (auto simp: Let_def bind_Some same_bytes_def set_sta_def dest: bcast_pn_sec split: if_splits prod.splits)

lemma data_qos_ok:
  assumes "validate_data_qos f k v = Some (g, v')"
  shows "same_bytes f g \<and> fr_psta g = fr_psta f \<and> vc_rx v' = vc_rx v"
  using assms unfolding validate_data_qos_def
  by (auto simp: Let_def bind_Some same_bytes_def upd_attrib_def split: if_splits)

lemma data_cipher_ok:
  "same_bytes f (validate_data_cipher i f v)" "fr_psta (validate_data_cipher i f v) = fr_psta f"
  "\<not> pa_privacy (fr_attrib f) \<Longrightarrow> pa_iv_len (fr_attrib (validate_data_cipher i f v)) = 0"
  by (auto simp: same_bytes_def validate_data_cipher_def upd_attrib_def Let_def)

text \<open>What the last check lets pass.\<close>

definition protected_or_eapol :: "security_priv \<Rightarrow> recv_frame \<Rightarrow> bool" where
  "protected_or_eapol sec f \<longleftrightarrow> pa_privacy (fr_attrib f)
     \<or> dot11AuthAlgrthm sec = dot11AuthAlgrthm_8021X \<and> \<not> IS_MCAST (pa_ra (fr_attrib f)) \<and> \<not> pa_amsdu (fr_attrib f)
       \<and> frame_rd f (uint (pa_hdrlen (fr_attrib f)) + uint (pa_iv_len (fr_attrib f)) + 6) 2 = Some [0x88, 0x8e]"

lemma data_protected_ok:
  assumes "validate_data_protected i f v = Some RET_SUCCESS" "dot11PrivacyAlgrthm (rx_sec (vc_rx v)) \<noteq> 0"
  shows "protected_or_eapol (rx_sec (vc_rx v)) f"
  using assms by (auto simp: validate_data_protected_def protected_or_eapol_def Let_def bind_Some split: if_splits)

lemma data_sta_ok:
  assumes "validate_data_sta env i k f v = Some (RET_SUCCESS, g, v')"
  shows "same_bytes f g \<and> fr_psta g = Some i \<and> (dot11PrivacyAlgrthm (rx_sec (vc_rx v)) \<noteq> 0 \<longrightarrow> protected_or_eapol (rx_sec (vc_rx v)) g)"
proof -
  obtain f2 v2 r3 f3 where s: "validate_data_qos (f\<lparr>fr_psta := Some i, fr_preorder_ctrl := None\<rparr>) k v = Some (f2, v2)"
    "validate_data_decache env i f2 v2 = Some (r3, f3, v')" "validate_data_protected i (validate_data_cipher i f3 v') v' = Some RET_SUCCESS"
    "g = validate_data_cipher i f3 v'"
    using assms unfolding validate_data_sta_def
    by (auto simp: bind_Some Let_def split: if_splits)
  have q: "same_bytes f f2" "fr_psta f2 = Some i" "vc_rx v2 = vc_rx v" using data_qos_ok [OF s(1)] by (auto simp: same_bytes_def)
  note d = data_decache_ok [OF s(2)]
  have "same_bytes f g" using q(1) d data_cipher_ok(1) same_bytes_trans s(4) by blast
  moreover have "fr_psta g = Some i" using q(2) d data_cipher_ok(2) s(4) by simp
  moreover have "protected_or_eapol (rx_sec (vc_rx v)) g" if "dot11PrivacyAlgrthm (rx_sec (vc_rx v)) \<noteq> 0"
    using data_protected_ok [OF s(3)] that q(3) d s(4) by (simp add: protected_or_eapol_def)
  ultimately show ?thesis by simp
qed

lemma validate_admits:
  assumes "validate_recv_data_frame env f v = Some (RET_SUCCESS, g, v')" "\<not> check_fwstate env WIFI_MP_STATE"
  shows "known_ta f v (fr_psta g) \<and> same_bytes f g
    \<and> (dot11PrivacyAlgrthm (rx_sec (vc_rx v)) \<noteq> 0 \<longrightarrow> protected_or_eapol (rx_sec (vc_rx v)) g)"
proof -
  obtain am i f1 v1 k where s: "validate_data_hdr env (upd_attrib (\<lambda>a. a\<lparr>pa_amsdu := am\<rparr>) f) v = Some (RET_SUCCESS, Some i, f1, v1)"
    "validate_data_sta env i k f1 v1 = Some (RET_SUCCESS, g, v')"
    using assms(1) unfolding validate_recv_data_frame_def bind_Some Let_def by (auto split: if_splits option.splits)
  have h: "same_bytes f f1" "rx_sec (vc_rx v1) = rx_sec (vc_rx v)" "known_ta f v (Some i)"
    using data_hdr_ok [OF s(1) assms(2)] same_bytes_trans [of f "upd_attrib (\<lambda>a. a\<lparr>pa_amsdu := am\<rparr>) f" f1]
    by (auto simp: known_ta_def addr2_def)
  show ?thesis using data_sta_ok [OF s(2)] h same_bytes_trans by auto
qed

section \<open>Property\<close>

text \<open>
  C12. A data frame is admitted only from a known station, the one whose address is in the frame's
  second address field, and admission leaves the bytes of the frame alone. In a network that uses
  encryption an admitted frame is marked as protected, except for unicast EAPOL frames that are no
  A-MSDU under 802.1X.
\<close>

theorem validate_recv_data_frame_admits:
  assumes "validate_recv_data_frame env f v = Some (RET_SUCCESS, g, v')" "\<not> check_fwstate env WIFI_MP_STATE"
  shows "(\<exists>a2 i. addr2 f = Some a2 \<and> rtw_get_stainfo (vc_sp v) a2 = Some i \<and> fr_psta g = Some i) \<and> same_bytes f g
    \<and> (dot11PrivacyAlgrthm (rx_sec (vc_rx v)) \<noteq> 0 \<longrightarrow> pa_privacy (fr_attrib g)
        \<or> dot11AuthAlgrthm (rx_sec (vc_rx v)) = dot11AuthAlgrthm_8021X \<and> \<not> IS_MCAST (pa_ra (fr_attrib g)) \<and> \<not> pa_amsdu (fr_attrib g)
          \<and> frame_rd g (uint (pa_hdrlen (fr_attrib g)) + uint (pa_iv_len (fr_attrib g)) + 6) 2 = Some [0x88, 0x8e])"
  using validate_admits [OF assms] unfolding known_ta_def protected_or_eapol_def .

definition sample_val_env :: val_env where
  "sample_val_env = \<lparr>ve_fw_state = 9, ve_bssid = replicate 6 4, ve_radar = False, ve_now = 0, ve_to_ms = (\<lambda>_. 0)\<rparr>"

definition sample_val_ctx :: val_ctx where
  "sample_val_ctx = \<lparr>vc_rx = sample_rx_ctx, vc_sta_deauth_time = 0, vc_ap_deauth_time = 0, vc_is_any_non_be_pkts = False\<rparr>"

definition sample_data_frame :: recv_frame where
  "sample_data_frame = (sample_frame 3 1)\<lparr>fr_attrib := sample_attrib\<lparr>pa_seq_num := 1, pa_to_fr_ds := 1, pa_qos := False, pa_privacy := True\<rparr>,
     fr_len := 40, rx_mem := [0x08, 0x42, 0, 0] @ replicate 6 0x10 @ replicate 6 4 @ replicate 6 6 @ [0x10, 0] @ replicate 16 0, rx_tail := 40\<rparr>"

lemma sample_hdr: "frame_rd sample_data_frame 4 (Suc 0) = Some [0x10]" "frame_rd sample_data_frame 4 6 = Some (replicate 6 0x10)"
  "frame_rd sample_data_frame 10 6 = Some (replicate 6 4)" "frame_rd sample_data_frame 16 6 = Some (replicate 6 6)"
  "frame_rd sample_data_frame 0 2 = Some [0x08, 0x42]" "frame_rd sample_data_frame 30 2 = Some [0, 0]"
  by (simp_all add: frame_rd_def sample_data_frame_def sample_frame_def numeral_eq_Suc)

abbreviation sample_hdr_frame :: recv_frame where
  "sample_hdr_frame \<equiv> set_dst_src (replicate 6 0x10) (replicate 6 6) (replicate 6 4)
     (set_ra_ta (replicate 6 0x10) (replicate 6 4) (upd_attrib (\<lambda>a. a\<lparr>pa_amsdu := False\<rparr>) sample_data_frame))"

lemma sample_attr: "pa_to_fr_ds (fr_attrib sample_data_frame) = 1" "\<not> pa_qos (fr_attrib sample_data_frame)"
  by (simp_all add: sample_data_frame_def)

lemma sample_hdr_ok: "validate_data_hdr sample_val_env (upd_attrib (\<lambda>a. a\<lparr>pa_amsdu := False\<rparr>) sample_data_frame) sample_val_ctx
    = Some (RET_SUCCESS, Some 0, sample_hdr_frame, sample_val_ctx)"
proof -
  have st: "\<not> ad_mlme_ap (vc_ad sample_val_ctx)" "check_fwstate sample_val_env WIFI_STATION_STATE"
      "check_fwstate sample_val_env (WIFI_ASOC_STATE OR WIFI_UNDER_LINKING)" "ad_mac (vc_ad sample_val_ctx) = replicate 6 0x10"
      "rtw_get_stainfo (vc_sp sample_val_ctx) (replicate 6 4) = Some 0"
    using sample_rx_sta(2)
    by (simp_all add: sample_val_ctx_def sample_rx_ctx_def sample_adapter_def check_fwstate_def sample_val_env_def WIFI_STATION_STATE_def
        WIFI_ASOC_STATE_def WIFI_UNDER_LINKING_def)
  have d: "pa_to_fr_ds (fr_attrib (upd_attrib (\<lambda>a. a\<lparr>pa_amsdu := False\<rparr>) sample_data_frame)) = 1"
    using sample_attr by (simp add: upd_attrib_def)
  have e: "pa_src (fr_attrib sample_hdr_frame) = replicate 6 6" "pa_ta (fr_attrib sample_hdr_frame) = replicate 6 4"
    by (simp_all add: set_dst_src_def set_ra_ta_def upd_attrib_def)
  have "sta_hdr_check sample_val_env (IS_MCAST [0x10]) sample_hdr_frame sample_val_ctx = Some (RET_SUCCESS, Some 0, sample_hdr_frame, sample_val_ctx)"
    unfolding sta_hdr_check_def e using st(4,5) by (simp add: frame_fc_def sample_hdr get_frame_sub_type_def)
  then show ?thesis
    unfolding validate_data_hdr_def rtw_sta_rx_data_validate_hdr_def sta_hdr_addrs_def
    using st d by (simp add: addr_defs sample_hdr)
qed

lemma frame_rd_psta [simp]: "frame_rd (f\<lparr>fr_psta := a, fr_preorder_ctrl := b\<rparr>) = frame_rd f"
  by (simp add: frame_rd_def fun_eq_iff)

lemma sample_sta_admitted:
  assumes "frame_rd f = frame_rd sample_data_frame" "\<not> pa_amsdu (fr_attrib f)" "\<not> pa_qos (fr_attrib f)" "pa_privacy (fr_attrib f)"
    "\<not> pa_order (fr_attrib f)" "pa_ra (fr_attrib f) = replicate 6 0x10" "pa_encrypt (fr_attrib f) = 0" "pa_seq_num (fr_attrib f) = 1"
    "pa_frag_num (fr_attrib f) = 0"
  shows "\<exists>g v'. validate_data_sta sample_val_env 0 0 f sample_val_ctx = Some (RET_SUCCESS, g, v')"
proof -
  let ?g = "upd_attrib (\<lambda>a. a\<lparr>pa_ack_policy := 0, pa_priority := 0, pa_hdrlen := 24\<rparr>) (f\<lparr>fr_psta := Some 0, fr_preorder_ctrl := None\<rparr>)"
  have q: "validate_data_qos (f\<lparr>fr_psta := Some 0, fr_preorder_ctrl := None\<rparr>) 0 sample_val_ctx = Some (?g, sample_val_ctx)"
    using assms(3,5) by (simp add: validate_data_qos_def upd_attrib_def)
  have s: "rx_sta (vc_rx sample_val_ctx) 0 = init_stainfo (replicate 6 4)" "rx_sec (vc_rx sample_val_ctx) = sample_sec"
    by (simp_all add: rx_sta_def sample_val_ctx_def sample_rx_ctx_def)
  let ?s = "rxseq_set (fr_attrib ?g) 0x10 (init_stainfo (replicate 6 4))"
  let ?v = "sample_val_ctx\<lparr>vc_rx := set_sta 0 ?s (vc_rx sample_val_ctx)\<rparr>"
  have mc: "\<not> IS_MCAST (pa_ra (fr_attrib ?g))" using assms(6) by (simp add: upd_attrib_def IS_MCAST_def numeral_eq_Suc)
  have "seq_ctrl (fr_attrib ?g) = 0x10" using assms by (simp add: upd_attrib_def seq_ctrl_def)
  moreover have "rxseq_get (fr_attrib ?g) (init_stainfo (replicate 6 4)) \<noteq> 0x10"
    using mc assms(3) by (simp add: upd_attrib_def rxseq_get_def init_stainfo_def zero_stainfo_def)
  ultimately have d: "recv_decache (fr_attrib ?g) (init_stainfo (replicate 6 4)) = (RET_SUCCESS, ?s)"
    by (simp add: recv_decache_def upd_attrib_def)
  have b: "0 < length (pstainfo_buf (ad_stapriv (rx_ad (vc_rx sample_val_ctx))))" by (simp add: sample_val_ctx_def sample_rx_ctx_def)
  have s': "rx_sta (vc_rx ?v) 0 = ?s" using b by (simp add: rx_sta_def set_sta_def)
  have dec: "validate_data_decache sample_val_env 0 ?g sample_val_ctx = Some (RET_SUCCESS, ?g, ?v\<lparr>vc_rx := set_sta 0 ?s (vc_rx ?v)\<rparr>)"
    unfolding validate_data_decache_def Let_def s d using mc s' assms(3,7)
    by (simp add: upd_attrib_def recv_ucast_pn_decache_def AES_def)
  let ?v2 = "?v\<lparr>vc_rx := set_sta 0 ?s (vc_rx ?v)\<rparr>"
  let ?h = "validate_data_cipher 0 ?g ?v2"
  have si: "si_dot118021XPrivacy ?s = 0" by (simp add: rxseq_set_def init_stainfo_def zero_stainfo_def)
  have "rx_sta (vc_rx ?v2) 0 = ?s" "rx_sec (vc_rx ?v2) = sample_sec" using b s(2) by (simp_all add: rx_sta_def set_sta_def)
  then have h: "pa_hdrlen (fr_attrib ?h) = 24" "pa_iv_len (fr_attrib ?h) = 0" "pa_privacy (fr_attrib ?h)"
      "pa_ra (fr_attrib ?h) = pa_ra (fr_attrib ?g)" "rx_sec (vc_rx ?v2) = sample_sec"
    using mc assms(1,4) si
    by (simp_all add: validate_data_cipher_def upd_attrib_def GET_ENCRY_ALGO_def sample_sec_def dot11AuthAlgrthm_8021X_def SET_ICE_IV_LEN_def sec_type_defs)
  have r: "frame_rd ?h = frame_rd sample_data_frame"
    using assms(1) by (simp add: validate_data_cipher_def Let_def)
  have "validate_data_protected 0 ?h ?v2 = Some RET_SUCCESS"
    unfolding validate_data_protected_def Let_def h r using h(3) mc sample_hdr(6) by (simp add: sample_sec_def dot11AuthAlgrthm_8021X_def)
  then show ?thesis
    unfolding validate_data_sta_def Let_def using assms(2) q dec by simp
qed

lemma sample_admitted: "\<exists>g v'. validate_recv_data_frame sample_val_env sample_data_frame sample_val_ctx = Some (RET_SUCCESS, g, v')"
proof -
  have "frame_rd sample_hdr_frame = frame_rd sample_data_frame" by simp
  moreover have "fr_attrib sample_hdr_frame = (fr_attrib sample_data_frame)\<lparr>pa_amsdu := False, pa_ra := replicate 6 0x10, pa_ta := replicate 6 4,
      pa_dst := replicate 6 0x10, pa_src := replicate 6 6, pa_bssid := replicate 6 4\<rparr>"
    by (simp add: set_dst_src_def set_ra_ta_def upd_attrib_def)
  moreover have "fr_attrib sample_data_frame = sample_attrib\<lparr>pa_seq_num := 1, pa_to_fr_ds := 1, pa_qos := False, pa_privacy := True\<rparr>"
    by (simp add: sample_data_frame_def)
  ultimately have "\<exists>g v'. validate_data_sta sample_val_env 0 0 sample_hdr_frame sample_val_ctx = Some (RET_SUCCESS, g, v')"
    by (intro sample_sta_admitted) (simp_all add: sample_attrib_def)
  then show ?thesis unfolding validate_recv_data_frame_def using sample_attr by (simp add: sample_hdr_ok)
qed

theorem validate_recv_data_frame_admits_witness:
  "\<exists>g v'. validate_recv_data_frame sample_val_env sample_data_frame sample_val_ctx = Some (RET_SUCCESS, g, v') \<and> fr_psta g = Some 0
     \<and> dot11PrivacyAlgrthm (rx_sec (vc_rx sample_val_ctx)) \<noteq> 0"
proof -
  obtain g v' where s: "validate_recv_data_frame sample_val_env sample_data_frame sample_val_ctx = Some (RET_SUCCESS, g, v')"
    using sample_admitted by blast
  have "\<not> check_fwstate sample_val_env WIFI_MP_STATE" by (simp add: check_fwstate_def sample_val_env_def WIFI_MP_STATE_def)
  from validate_recv_data_frame_admits [OF s this] have "fr_psta g = Some 0"
    using sample_hdr(3) sample_rx_sta(2) by (auto simp: sample_val_ctx_def addr2_def)
  moreover have "dot11PrivacyAlgrthm (rx_sec (vc_rx sample_val_ctx)) \<noteq> 0" by (simp add: sample_val_ctx_def sample_rx_ctx_def sample_sec_def)
  ultimately show ?thesis using s by blast
qed

end
