(* ===== verification/Aes_Omac.thy ===== *)
theory Aes_Omac
  imports Aes_Gcm "HOL-Library.Monad_Syntax"
begin

unbundle bit_operations_syntax

text \<open>
  Message authentication and misuse-resistant encryption with AES: \<^verbatim>\<open>core/crypto/aes-omac1.c\<close> (CMAC),
  \<^verbatim>\<open>core/crypto/aes-ctr.c\<close> and \<^verbatim>\<open>core/crypto/aes-siv.c\<close>. The outer \<open>None\<close> of a result is an access outside a
  buffer, the inner one the failure code. The code's CMAC equals the one of SP 800-38B for every data
  vector without empty elements, and SIV decryption accepts exactly the sealed messages.
\<close>

section \<open>CMAC\<close>

text \<open>Multiplication by $x$ in the field of $2^{128}$ elements, in place on a block.\<close>

definition gf_mulx :: "bytes \<Rightarrow> bytes" where
  "gf_mulx pad =
     (let p = map (\<lambda>i. push_bit 1 (pad ! i) OR drop_bit 7 (pad ! Suc i)) [0..<15] @ [push_bit 1 (pad ! 15)]
      in if pad ! 0 AND 0x80 \<noteq> 0 then p[15 := p ! 15 XOR 0x87] else p)"

text \<open>
  Reading the data vector. The state has what is left of the current element and the elements after
  it; after a byte the reader moves on to the next element when the current one is used up, unless
  this was the last byte to read (\<open>stop\<close>). \<open>None\<close> is a read behind an element or behind the vector.
\<close>

type_synonym vec_pos = "bytes \<times> bytes list"

fun vec_next :: "bool \<Rightarrow> vec_pos \<Rightarrow> (u8 \<times> vec_pos) option" where
  "vec_next stop ([], rest) = None"
| "vec_next stop (b # cur, rest) =
     (if cur \<noteq> [] \<or> stop then Some (b, cur, rest)
      else case rest of [] \<Rightarrow> None | c # rest \<Rightarrow> Some (b, c, rest))"

fun vec_take :: "nat \<Rightarrow> bool \<Rightarrow> vec_pos \<Rightarrow> (bytes \<times> vec_pos) option" where
  "vec_take 0 lst st = Some ([], st)"
| "vec_take (Suc n) lst st = do {
     (b, st) \<leftarrow> vec_next (n = 0 \<and> lst) st;
     (bs, st) \<leftarrow> vec_take n lst st;
     Some (b # bs, st)
   }"

function omac_loop :: "aes_ctx \<Rightarrow> nat \<Rightarrow> bytes \<Rightarrow> vec_pos \<Rightarrow> (nat \<times> bytes \<times> vec_pos) option" where
  "omac_loop ctx left cbc st =
     (if 16 \<le> left then do {
        (bs, st) \<leftarrow> vec_take 16 (left = 16) st;
        let cbc = map2 (XOR) cbc bs;
        omac_loop ctx (left - 16) (if 16 < left then aes_encrypt ctx cbc else cbc) st
      }
      else Some (left, cbc, st))"
  by pat_completeness auto
termination
  by (relation "measure (\<lambda>(ctx, left, cbc, st). left)") auto

declare omac_loop.simps [simp del]

text \<open>The inner \<open>None\<close> is the return value -1: no memory or a bad key length.\<close>

definition omac1_aes_vector :: "bool \<Rightarrow> bytes \<Rightarrow> nat \<Rightarrow> bytes list \<Rightarrow> bytes option option" where
  "omac1_aes_vector m key key_len elems =
     (case aes_encrypt_init m key key_len of
        None \<Rightarrow> Some None
      | Some ctx \<Rightarrow> do {
          let total_len = sum_list (map length elems);
          st \<leftarrow> (case elems of [] \<Rightarrow> None | e # es \<Rightarrow> Some (e, es));
          (left, cbc, st) \<leftarrow> omac_loop ctx total_len (replicate 16 0) st;
          let pad = gf_mulx (aes_encrypt ctx (replicate 16 0));
          (cbc, pad) \<leftarrow>
            (if left \<noteq> 0 \<or> total_len = 0 then do {
               (bs, st) \<leftarrow> vec_take left True st;
               let cbc = map2 (XOR) (take left cbc) bs @ drop left cbc;
               Some (cbc[left := cbc ! left XOR 0x80], gf_mulx pad)
             }
             else Some (cbc, pad));
          Some (Some (aes_encrypt ctx (map2 (XOR) pad cbc)))
        })"

definition omac1_aes_128 :: "bool \<Rightarrow> bytes \<Rightarrow> bytes \<Rightarrow> bytes option option" where
  "omac1_aes_128 m key data = omac1_aes_vector m key 16 [data]"

definition omac1_aes_256 :: "bool \<Rightarrow> bytes \<Rightarrow> bytes \<Rightarrow> bytes option option" where
  "omac1_aes_256 m key data = omac1_aes_vector m key 32 [data]"

section \<open>Counter mode\<close>

fun ctr_inc :: "bytes \<Rightarrow> nat \<Rightarrow> bytes" where
  "ctr_inc counter 0 = counter"
| "ctr_inc counter (Suc i) =
     (let c = counter[i := counter ! i + 1] in if c ! i \<noteq> 0 then c else ctr_inc c i)"

function ctr_loop :: "aes_ctx \<Rightarrow> bytes \<Rightarrow> bytes \<Rightarrow> bytes" where
  "ctr_loop ctx counter data =
     (if data = [] then []
      else map2 (XOR) (take 16 data) (aes_encrypt ctx counter) @ ctr_loop ctx (ctr_inc counter 16) (drop 16 data))"
  by pat_completeness auto
termination
  by (relation "measure (\<lambda>(ctx, counter, data). length data)") auto

declare ctr_loop.simps [simp del]

definition aes_ctr_encrypt :: "bool \<Rightarrow> bytes \<Rightarrow> nat \<Rightarrow> bytes \<Rightarrow> bytes \<Rightarrow> bytes option" where
  "aes_ctr_encrypt m key key_len nonce data =
     map_option (\<lambda>ctx. ctr_loop ctx (take 16 nonce) data) (aes_encrypt_init m key key_len)"

section \<open>SIV\<close>

definition dbl :: "bytes \<Rightarrow> bytes" where
  "dbl pad =
     (let p = map (\<lambda>i. push_bit 1 (pad ! i) OR drop_bit 7 (pad ! Suc i)) [0..<15] @ [push_bit 1 (pad ! 15)]
      in if pad ! 0 AND 0x80 \<noteq> 0 then p[15 := p ! 15 XOR 0x87] else p)"

definition xorend :: "bytes \<Rightarrow> bytes \<Rightarrow> bytes" where
  "xorend a b = (if length a < length b then a else take (length a - length b) a @ map2 (XOR) (drop (length a - length b) a) b)"

definition pad_block :: "bytes \<Rightarrow> bytes" where
  "pad_block d = (if length d < 16 then (d @ replicate (16 - length d) 0)[length d := 0x80] else take 16 d)"

text \<open>The loop over all but the last string.\<close>

fun s2v_loop :: "bool \<Rightarrow> bytes \<Rightarrow> nat \<Rightarrow> bytes list \<Rightarrow> bytes \<Rightarrow> bytes option option" where
  "s2v_loop m key key_len [] tmp = Some (Some tmp)"
| "s2v_loop m key key_len (a # as) tmp = do {
     r \<leftarrow> omac1_aes_vector m key key_len [a];
     case r of
       None \<Rightarrow> Some None
     | Some tmp2 \<Rightarrow> s2v_loop m key key_len as (map2 (XOR) (dbl tmp) tmp2)
   }"

text \<open>\<open>m\<close> and \<open>m2\<close>: whether the allocations of the cipher context and of the copy of the last string succeed.\<close>

definition aes_s2v :: "bool \<Rightarrow> bool \<Rightarrow> bytes \<Rightarrow> nat \<Rightarrow> bytes list \<Rightarrow> bytes option option" where
  "aes_s2v m m2 key key_len elems =
     (if elems = [] then omac1_aes_vector m key key_len [(replicate 16 0)[15 := 1]]
      else do {
        r \<leftarrow> omac1_aes_vector m key key_len [replicate 16 0];
        case r of None \<Rightarrow> Some None | Some tmp \<Rightarrow> do {
        r \<leftarrow> s2v_loop m key key_len (butlast elems) tmp;
        case r of None \<Rightarrow> Some None | Some tmp \<Rightarrow>
          (let e = last elems in
           if 16 \<le> length e then (if \<not> m2 then Some None else omac1_aes_vector m key key_len [xorend e tmp])
           else omac1_aes_vector m key key_len [map2 (XOR) (dbl tmp) (pad_block e)])
        }
      })"

definition siv_ctr :: "bytes \<Rightarrow> bytes" where
  "siv_ctr v = v[8 := v ! 8 AND 0x7f, 12 := v ! 12 AND 0x7f]"

definition siv_key_ok :: "nat \<Rightarrow> nat \<Rightarrow> bool" where
  "siv_key_ok num_elem key_len \<longleftrightarrow> num_elem \<le> 5 \<and> (key_len = 32 \<or> key_len = 48 \<or> key_len = 64)"

definition aes_siv_encrypt :: "bool \<Rightarrow> bool \<Rightarrow> bytes \<Rightarrow> nat \<Rightarrow> bytes \<Rightarrow> bytes list \<Rightarrow> bytes option option" where
  "aes_siv_encrypt m m2 key key_len pw addr =
     (if \<not> siv_key_ok (length addr) key_len then Some None
      else do {
        let kl = key_len div 2;
        let k2 = drop kl key;
        r \<leftarrow> aes_s2v m m2 key kl (addr @ [pw]);
        case r of
          None \<Rightarrow> Some None
        | Some v \<Rightarrow> Some (map_option (\<lambda>crypt_pw. v @ crypt_pw) (aes_ctr_encrypt m k2 kl (siv_ctr v) pw))
      })"

definition aes_siv_decrypt :: "bool \<Rightarrow> bool \<Rightarrow> bytes \<Rightarrow> nat \<Rightarrow> bytes \<Rightarrow> bytes list \<Rightarrow> bytes option option" where
  "aes_siv_decrypt m m2 key key_len iv_crypt addr =
     (if length iv_crypt < 16 \<or> \<not> siv_key_ok (length addr) key_len then Some None
      else do {
        let kl = key_len div 2;
        let k2 = drop kl key;
        let iv = take 16 iv_crypt;
        case aes_ctr_encrypt m k2 kl (siv_ctr iv) (drop 16 iv_crypt) of
          None \<Rightarrow> Some None
        | Some out \<Rightarrow> do {
            r \<leftarrow> aes_s2v m m2 key kl (addr @ [out]);
            case r of None \<Rightarrow> Some None | Some check \<Rightarrow> Some (if check = iv then Some out else None)
          }
      })"

section \<open>The message authentication code of SP 800-38B\<close>

definition dbl128 :: "u128 \<Rightarrow> u128" where
  "dbl128 w = (if bit w 127 then push_bit 1 w XOR 0x87 else push_bit 1 w)"

definition put128 :: "u128 \<Rightarrow> bytes" where
  "put128 w = map (\<lambda>i. ucast (drop_bit (8 * (15 - i)) w)) [0..<16]"

definition cmac_k1 :: "aes_ctx \<Rightarrow> bytes" where
  "cmac_k1 ctx = put128 (dbl128 (be128 (aes_encrypt ctx (replicate 16 0))))"

definition cmac_k2 :: "aes_ctx \<Rightarrow> bytes" where
  "cmac_k2 ctx = put128 (dbl128 (be128 (cmac_k1 ctx)))"

text \<open>The message in full blocks before the last one, and the last one, which may be short or empty.\<close>

definition cmac_split :: "bytes \<Rightarrow> bytes \<times> bytes" where
  "cmac_split d = (let n = 16 * ((length d - 1) div 16) in (take n d, drop n d))"

definition cmac :: "aes_ctx \<Rightarrow> bytes \<Rightarrow> bytes" where
  "cmac ctx d =
     (let (full, lst) = cmac_split d;
          blk = (if length lst = 16 then map2 (XOR) lst (cmac_k1 ctx)
                 else map2 (XOR) (lst @ 0x80 # replicate (15 - length lst) 0) (cmac_k2 ctx))
      in cbc_mac ctx (replicate 16 0) (full @ blk))"

lemma put128_length [simp]: "length (put128 w) = 16"
  by (simp add: put128_def)

lemma bit_put128: "i < 16 \<Longrightarrow> bit (put128 w ! i) n \<longleftrightarrow> n < 8 \<and> bit w (8 * (15 - i) + n)"
  by (auto simp: put128_def bit_simps nth_append dest: bit_imp_le_length)

lemma and80: "v AND 0x80 \<noteq> 0 \<longleftrightarrow> bit v 7" for v :: u8
  by (simp add: bit_iff_and_push_bit_not_eq_0 push_bit_eq_mult)

lemma bit_shl1: "bit (push_bit 1 w) n \<longleftrightarrow> 0 < n \<and> n < LENGTH('a) \<and> bit w (n - 1)" for w :: "'a::len word"
  unfolding bit_push_bit_iff possible_bit_word by auto

lemma bit_shr7: "bit (drop_bit 7 w) n \<longleftrightarrow> n = 0 \<and> bit w 7" for w :: u8
  unfolding bit_drop_bit_eq o_apply using bit_imp_le_length [of w "7 + n"] by auto

lemma bit_0x87: "bit (0x87 :: 'a::len word) n \<longleftrightarrow> n < LENGTH('a) \<and> n \<in> {0, 1, 2, 7}"
proof -
  have "(0x87 :: 'a word) = (push_bit 7 1 OR push_bit 2 1) OR (push_bit 1 1 OR 1)" by simp
  then show ?thesis by (simp only: bit_or_iff bit_push_bit_iff bit_1_iff possible_bit_word) auto
qed

lemma gf_mulx_length [simp]: "length (gf_mulx p) = 16"
  by (simp add: gf_mulx_def Let_def)

lemma gf_mulx_nth:
  assumes "i < 16"
  shows "gf_mulx p ! i = (if i < 15 then push_bit 1 (p ! i) OR drop_bit 7 (p ! Suc i)
     else if bit (p ! 0) 7 then push_bit 1 (p ! i) XOR 0x87 else push_bit 1 (p ! i))"
proof -
  have "i = 15" if "\<not> i < 15" using that assms by simp
  then show ?thesis unfolding gf_mulx_def Let_def and80 
    by (cases "i < 15"; cases "bit (p ! 0) 7") (simp_all only: if_True if_False, simp_all add: nth_append)
qed

lemma gf_mulx_bit:
  assumes "i < 16" "n < 8"
  shows "bit (gf_mulx p ! i) n \<longleftrightarrow>
    (if n = 0 then i < 15 \<and> bit (p ! Suc i) 7 else bit (p ! i) (n - 1)) \<noteq> (i = 15 \<and> bit (p ! 0) 7 \<and> n \<in> {0, 1, 2, 7})"
proof -
  have i: "i = 15 \<longleftrightarrow> \<not> i < 15" using assms(1) by auto
  show ?thesis
    unfolding gf_mulx_nth [OF assms(1)] i
    using assms(2) by (cases "i < 15"; cases "bit (p ! 0) 7")
      (simp_all only: if_True if_False bit_or_iff bit_xor_iff bit_shl1 bit_shr7 bit_0x87, auto)
qed

lemma dbl128_bit: "bit (dbl128 w) k \<longleftrightarrow> k < 128 \<and> (0 < k \<and> bit w (k - 1)) \<noteq> (bit w 127 \<and> k \<in> {0, 1, 2, 7})"
  unfolding dbl128_def
  by (cases "bit w 127") (simp_all only: if_True if_False bit_xor_iff bit_shl1 bit_0x87, auto)

lemma gf_mulx_dbl:
  assumes "length p = 16"
  shows "gf_mulx p = put128 (dbl128 (be128 p))"
proof (rule nth_equalityI)
  show "gf_mulx p ! i = put128 (dbl128 (be128 p)) ! i" if "i < length (gf_mulx p)" for i
  proof (rule bit_word_eqI)
    fix n :: nat assume "n < LENGTH(8)"
    then have n: "n < 8" by simp
    have i: "i < 16" using that by simp
    have b: "bit (be128 p) k \<longleftrightarrow> k < 128 \<and> bit (p ! (15 - k div 8)) (k mod 8)" for k
      using bit_be128 [of p k] assms by simp
    have "bit (dbl128 (be128 p)) (8 * (15 - i) + n) \<longleftrightarrow>
      (if n = 0 then i < 15 \<and> bit (p ! Suc i) 7 else bit (p ! i) (n - 1)) \<noteq> (i = 15 \<and> bit (p ! 0) 7 \<and> n \<in> {0, 1, 2, 7})"
    proof -
      have e1: "bit (be128 p) 127 = bit (p ! 0) 7" using b [of 127] by simp
      have e2: "8 * (15 - i) + n \<in> {0, 1, 2, 7} \<longleftrightarrow> i = 15 \<and> n \<in> {0, 1, 2, 7}" using i n by (cases "i = 15") auto
      have e3: "0 < 8 * (15 - i) + n \<and> bit (be128 p) (8 * (15 - i) + n - 1)
          \<longleftrightarrow> (if n = 0 then i < 15 \<and> bit (p ! Suc i) 7 else bit (p ! i) (n - 1))"
      proof (cases n)
        case 0
        show ?thesis
        proof (cases "i < 15")
          case True
          then have "8 * (15 - i) - 1 = 8 * (14 - i) + 7" "8 * (14 - i) < 121" by simp_all
          then show ?thesis using 0 True b [of "8 * (14 - i) + 7"] by (simp add: Suc_diff_le [symmetric])
        qed (use 0 in simp)
      next
        case (Suc k)
        then have "(8 * (15 - i) + k) div 8 = 15 - i" "(8 * (15 - i) + k) mod 8 = k" "8 * (15 - i) + k < 128" using n i by auto
        then show ?thesis using Suc i b [of "8 * (15 - i) + k"] by simp
      qed
      have e4: "8 * (15 - i) + n < 128" using i n by auto
      show ?thesis unfolding dbl128_bit e1 e2 e3 using e4 by blast
    qed
    then show "bit (gf_mulx p ! i) n \<longleftrightarrow> bit (put128 (dbl128 (be128 p)) ! i) n"
      unfolding gf_mulx_bit [OF i n] bit_put128 [OF i] using n by simp
  qed
qed simp

lemma dbl_gf_mulx: "dbl = gf_mulx"
  by (simp add: fun_eq_iff dbl_def gf_mulx_def)

section \<open>The code computes the CMAC\<close>

definition vec_ok :: "vec_pos \<Rightarrow> bool" where
  "vec_ok st \<longleftrightarrow> (fst st = [] \<longrightarrow> snd st = []) \<and> [] \<notin> set (snd st)"

definition vec_data :: "vec_pos \<Rightarrow> bytes" where
  "vec_data st = fst st @ concat (snd st)"

lemma vec_next_data:
  assumes "vec_ok st" "vec_data st = b # d" "stop \<longrightarrow> d = []" "\<not> stop \<longrightarrow> d \<noteq> []"
  shows "\<exists>st'. vec_next stop st = Some (b, st') \<and> vec_ok st' \<and> vec_data st' = d"
proof -
  obtain cur rest where st: "st = (b # cur, rest)" and d: "d = cur @ concat rest"
    using assms(1,2) by (cases st; cases "fst st") (auto simp: vec_ok_def vec_data_def)
  have "rest = []" if stop
  proof -
    have "concat rest = []" "[] \<notin> set rest" using assms(1,3) that d by (auto simp: st vec_ok_def)
    then show ?thesis by (cases rest) auto
  qed
  moreover obtain c rs where "rest = c # rs" if "\<not> stop" "cur = []"
    using assms(4) d by (cases rest) auto
  ultimately show ?thesis using assms(1) d by (cases "cur = []"; cases stop) (auto simp: st vec_ok_def vec_data_def)
qed

lemma vec_take_data:
  assumes "vec_ok st" "n \<le> length (vec_data st)" "lst \<longleftrightarrow> n = length (vec_data st)"
  shows "\<exists>st'. vec_take n lst st = Some (take n (vec_data st), st') \<and> vec_ok st' \<and> vec_data st' = drop n (vec_data st)"
  using assms
proof (induction n arbitrary: st)
  case (Suc n)
  obtain b d where d: "vec_data st = b # d" using Suc.prems(2) by (cases "vec_data st") auto
  obtain st1 where 1: "vec_next (n = 0 \<and> lst) st = Some (b, st1)" "vec_ok st1" "vec_data st1 = d"
    using vec_next_data [OF Suc.prems(1) d, of "n = 0 \<and> lst"] Suc.prems(2,3) d by (cases d) auto
  have "n \<le> length (vec_data st1)" "lst \<longleftrightarrow> n = length (vec_data st1)" using Suc.prems(2,3) d 1(3) by auto
  from Suc.IH [OF 1(2) this] show ?case using 1 d by auto
qed simp

lemma cmac_split_simps:
  "length d \<le> 16 \<Longrightarrow> cmac_split d = ([], d)"
  "16 < length d \<Longrightarrow> cmac_split d = (take 16 d @ fst (cmac_split (drop 16 d)), snd (cmac_split (drop 16 d)))"
proof -
  assume "length d \<le> 16"
  then have "(length d - 1) div 16 = 0" by simp
  then show "cmac_split d = ([], d)" by (simp add: cmac_split_def)
next
  assume l: "16 < length d"
  then have "length d - 1 = (length d - 16 - 1) + 16" by simp
  then have "(length d - 1) div 16 = Suc ((length d - 16 - 1) div 16)" by (metis div_add_self2 add.commute plus_1_eq_Suc zero_neq_numeral)
  then show "cmac_split d = (take 16 d @ fst (cmac_split (drop 16 d)), snd (cmac_split (drop 16 d)))"
    by (simp add: cmac_split_def Let_def take_add add.commute)
qed

lemma cmac_split_len: "d \<noteq> [] \<Longrightarrow> 0 < length (snd (cmac_split d)) \<and> length (snd (cmac_split d)) \<le> 16 \<and> 16 dvd length (fst (cmac_split d))"
proof (induction "length d" arbitrary: d rule: less_induct)
  case less
  show ?case
  proof (cases "length d \<le> 16")
    case False
    then show ?thesis using less.hyps [of "drop 16 d"] by (simp add: cmac_split_simps(2))
  qed (use less in \<open>simp add: cmac_split_simps(1)\<close>)
qed

lemma omac_loop_data:
  assumes "vec_ok st" "vec_data st \<noteq> []" "length cbc = 16"
  defines "full \<equiv> fst (cmac_split (vec_data st))" and "lst \<equiv> snd (cmac_split (vec_data st))"
  shows "\<exists>st'. vec_ok st' \<and> omac_loop ctx (length (vec_data st)) cbc st =
    (if length lst = 16 then Some (0, map2 (XOR) (cbc_mac ctx cbc full) lst, st')
     else Some (length lst, cbc_mac ctx cbc full, st')) \<and> (length lst < 16 \<longrightarrow> vec_data st' = lst)"
  using assms(1-3) unfolding full_def lst_def
proof (induction "length (vec_data st)" arbitrary: st cbc rule: less_induct)
  case less
  let ?d = "vec_data st"
  consider (short) "length ?d < 16" | (one) "length ?d = 16" | (long) "16 < length ?d" by linarith
  then show ?case
  proof cases
    case short
    then have "omac_loop ctx (length ?d) cbc st = Some (length ?d, cbc, st)" by (subst omac_loop.simps) simp
    then show ?thesis using less.prems short by (simp add: cmac_split_simps(1) del: split_paired_Ex)
  next
    case one
    obtain st' where "vec_take 16 True st = Some (?d, st')" "vec_ok st'"
      using vec_take_data [OF less.prems(1), of 16 True] one by auto
    moreover from this(1) have "omac_loop ctx (length ?d) cbc st = Some (0, map2 (XOR) cbc ?d, st')"
      using one by (subst omac_loop.simps) (simp add: omac_loop.simps [of _ 0])
    ultimately show ?thesis using one by (intro exI [of _ st']) (simp add: cmac_split_simps(1))
  next
    case long
    obtain st1 where 1: "vec_take 16 False st = Some (take 16 ?d, st1)" "vec_ok st1" "vec_data st1 = drop 16 ?d"
      using vec_take_data [OF less.prems(1), of 16 False] long by auto
    let ?c = "aes_encrypt ctx (map2 (XOR) cbc (take 16 ?d))"
    have "length (vec_data st1) < length ?d" "vec_data st1 \<noteq> []" "length ?c = 16" using long 1(3) by simp_all
    note ih = less.hyps [OF this(1) 1(2) this(2,3)]
    have "omac_loop ctx (length ?d) cbc st = omac_loop ctx (length (vec_data st1)) ?c st1"
      using long 1 by (subst omac_loop.simps) simp
    moreover have "cbc_mac ctx cbc (take 16 ?d @ x) = cbc_mac ctx ?c x" for x
      using long by (simp add: cbc_block)
    ultimately show ?thesis using ih unfolding cmac_split_simps(2) [OF long] 1(3) fst_conv snd_conv by (simp only:)
  qed
qed

lemma xor_comm: "length a = length b \<Longrightarrow> map2 (XOR) (a :: bytes) b = map2 (XOR) b a"
  by (rule nth_equalityI) (simp_all add: ac_simps)

lemma xor_assoc: "length a = length b \<Longrightarrow> length b = length c \<Longrightarrow> map2 (XOR) (a :: bytes) (map2 (XOR) b c) = map2 (XOR) (map2 (XOR) a b) c"
  by (rule nth_equalityI) (simp_all add: ac_simps)

lemma cbc_mac_length [simp]: "length x = 16 \<Longrightarrow> length (cbc_mac ctx x d) = 16"
  by (induction ctx x d rule: cbc_mac.induct) (subst cbc_mac.simps, simp)

lemma pad_last_block:
  assumes "length x = 16" "length b < 16"
  defines "c \<equiv> map2 (XOR) (take (length b) x) b @ drop (length b) x"
  shows "c[length b := c ! length b XOR 0x80] = map2 (XOR) x (b @ 0x80 # replicate (15 - length b) 0)"
  unfolding c_def using assms(1,2)
  by (intro nth_equalityI) (auto simp: nth_append nth_list_update nth_Cons' min_def)

lemma omac1_run:
  assumes "aes_encrypt_init m key key_len = Some ctx" "sum_list (map length (e # es)) = n"
    "omac_loop ctx n (replicate 16 0) (e, es) = Some (left, cbc, st)"
  defines "pad \<equiv> gf_mulx (aes_encrypt ctx (replicate 16 0))"
  shows "left = 0 \<Longrightarrow> n \<noteq> 0 \<Longrightarrow> omac1_aes_vector m key key_len (e # es) = Some (Some (aes_encrypt ctx (map2 (XOR) pad cbc)))"
    "left \<noteq> 0 \<or> n = 0 \<Longrightarrow> vec_take left True st = Some (b, st') \<Longrightarrow> length b = left \<Longrightarrow> left < 16 \<Longrightarrow> length cbc = 16 \<Longrightarrow>
       omac1_aes_vector m key key_len (e # es) = Some (Some (aes_encrypt ctx (map2 (XOR) (gf_mulx pad) (map2 (XOR) cbc (b @ 0x80 # replicate (15 - left) 0)))))"
  unfolding omac1_aes_vector_def assms(1,2) pad_def
  using assms(3) pad_last_block [of cbc b] by (simp_all only: option.case list.case Let_def Option.bind.simps prod.case if_True if_False simp_thms not_False_eq_True)

lemma omac1_cmac:
  assumes "elems = [[]] \<or> elems \<noteq> [] \<and> [] \<notin> set elems" "aes_encrypt_init m key key_len = Some ctx"
  shows "omac1_aes_vector m key key_len elems = Some (Some (cmac ctx (concat elems)))"
proof -
  let ?z = "replicate 16 0 :: bytes" and ?d = "concat elems"
  obtain e es where es: "elems = e # es" using assms(1) by (cases elems) auto
  have ok: "vec_ok (e, es)" and d: "vec_data (e, es) = ?d" using assms(1) by (auto simp: es vec_ok_def vec_data_def)
  have k: "gf_mulx (aes_encrypt ctx ?z) = cmac_k1 ctx" "gf_mulx (cmac_k1 ctx) = cmac_k2 ctx"
    by (simp_all add: gf_mulx_dbl cmac_k1_def cmac_k2_def)
  have kl: "length (cmac_k1 ctx) = 16" "length (cmac_k2 ctx) = 16" by (simp_all add: cmac_k1_def cmac_k2_def)
  have len: "sum_list (map length (e # es)) = length ?d" by (simp only: es length_concat)
  obtain full lst where sp: "cmac_split ?d = (full, lst)" by fastforce
  let ?x = "cbc_mac ctx ?z full"
  have fin: "cbc_mac ctx ?z (full @ map2 (XOR) b key) = aes_encrypt ctx (map2 (XOR) key (map2 (XOR) ?x b))"
    if "length b = 16" "length key = 16" "16 dvd length full" for b key
  proof -
    have "map2 (XOR) key (map2 (XOR) ?x b) = map2 (XOR) ?x (map2 (XOR) b key)"
      using that by (intro nth_equalityI) (simp_all add: ac_simps)
    then show ?thesis
      using cbc_append [OF that(3), of ctx ?z "map2 (XOR) b key"] cbc_block [of "map2 (XOR) b key" ctx ?x "[]"] that by simp
  qed
  note run = omac1_run [OF assms(2) len]
  show ?thesis
  proof (cases "?d = []")
    case True
    then have f: "full = []" "lst = []" using sp cmac_split_simps(1) [of ?d] by (simp_all del: concat_eq_Nil_conv)
    have "omac_loop ctx (length ?d) ?z (e, es) = Some (0, ?z, (e, es))"
      unfolding True by (subst omac_loop.simps) simp
    from run(2) [OF this, of "[]" "(e, es)"] show ?thesis
      using True k kl fin [of "0x80 # replicate 15 0" "cmac_k2 ctx"] sp f by (simp add: es [symmetric] cmac_def)
  next
    case False
    have l: "0 < length lst" "length lst \<le> 16" "16 dvd length full" using cmac_split_len [OF False] sp by simp_all
    obtain st' where st': "vec_ok st'" "omac_loop ctx (length ?d) ?z (e, es) =
        (if length lst = 16 then Some (0, map2 (XOR) ?x lst, st') else Some (length lst, ?x, st'))" "length lst < 16 \<longrightarrow> vec_data st' = lst"
      using omac_loop_data [OF ok, of ?z ctx] d False sp by auto
    show ?thesis
    proof (cases "length lst = 16")
      case True
      then have "omac_loop ctx (length ?d) ?z (e, es) = Some (0, map2 (XOR) ?x lst, st')" using st'(2) by simp
      from run(1) [OF this] show ?thesis using False True k kl l fin [of lst "cmac_k1 ctx"] sp by (simp add: es [symmetric] cmac_def)
    next
      case short: False
      then obtain st2 where t: "vec_take (length lst) True st' = Some (lst, st2)"
        using vec_take_data [OF st'(1), of "length lst" True] st'(3) l by auto
      have "omac_loop ctx (length ?d) ?z (e, es) = Some (length lst, ?x, st')" using st'(2) short by simp
      from run(2) [OF this _ t] show ?thesis
        using False short k kl l fin [of "lst @ 0x80 # replicate (15 - length lst) 0" "cmac_k2 ctx"] sp by (simp add: es [symmetric] cmac_def)
    qed
  qed
qed

lemma bind_Some_iff: "Option.bind x g = Some y \<longleftrightarrow> (\<exists>z. x = Some z \<and> g z = Some y)"
  by (cases x) simp_all

section \<open>SIV opens what it sealed\<close>

lemma ctr_loop_length [simp]: "length (ctr_loop ctx c d) = length d"
  by (induction ctx c d rule: ctr_loop.induct) (subst ctr_loop.simps, auto)

lemma ctr_loop_involutive: "ctr_loop ctx c (ctr_loop ctx c d) = d"
proof (induction ctx c d rule: ctr_loop.induct)
  case (1 ctx c d)
  show ?case
  proof (cases "d = []")
    case False
    let ?x = "map2 (XOR) (take 16 d) (aes_encrypt ctx c)" and ?r = "ctr_loop ctx (ctr_inc c 16) (drop 16 d)"
    have e: "ctr_loop ctx c d = ?x @ ?r" using False by (subst ctr_loop.simps) simp
    have "take 16 (?x @ ?r) = ?x" "drop 16 (?x @ ?r) = ?r" by (cases "length d \<le> 16"; simp add: ctr_loop.simps)+
    moreover have "map2 (XOR) ?x (aes_encrypt ctx c) = take 16 d" by (rule nth_equalityI) (simp_all add: xor.assoc)
    moreover have "?x @ ?r \<noteq> []" using False by auto
    ultimately have "ctr_loop ctx c (?x @ ?r) = take 16 d @ drop 16 d"
      unfolding ctr_loop.simps [of ctx c "?x @ ?r"] using 1 [OF False] by (simp only: if_False)
    then show ?thesis by (simp add: e)
  qed (simp add: ctr_loop.simps)
qed

lemma omac1_single: "omac1_aes_vector m key key_len [d] = Some (map_option (\<lambda>ctx. cmac ctx d) (aes_encrypt_init m key key_len))"
proof (cases "aes_encrypt_init m key key_len")
  case None
  then show ?thesis by (simp add: omac1_aes_vector_def)
next
  case (Some ctx)
  then show ?thesis using omac1_cmac [of "[d]" m key key_len ctx] by (cases "d = []") simp_all
qed

lemma cmac_length [simp]: "length (cmac ctx d) = 16"
  by (simp add: cmac_def case_prod_beta Let_def)

text \<open>The string function: it never reads out of bounds and gives a block.\<close>

lemma s2v_loop_total: "\<exists>r. s2v_loop m key kl as tmp = Some r"
  by (induction as arbitrary: tmp) (auto simp: omac1_single split: option.splits)

lemma aes_s2v_total: "\<exists>r. aes_s2v m m2 key kl es = Some r"
proof (cases "aes_encrypt_init m key kl")
  case (Some ctx)
  obtain r where "s2v_loop m key kl (butlast es) (cmac ctx (replicate 16 0)) = Some r" using s2v_loop_total by blast
  then show ?thesis using Some by (cases r) (auto simp: aes_s2v_def omac1_single Let_def)
qed (simp add: aes_s2v_def omac1_single)

lemma aes_s2v_length:
  assumes "aes_s2v m m2 key kl es = Some (Some v)"
  shows "length v = 16"
  using assms by (auto simp: aes_s2v_def omac1_single Let_def bind_Some_iff split: option.splits if_splits)

theorem aes_siv_decrypt_inverts_encrypt:
  "aes_siv_decrypt m m2 key key_len c addr = Some (Some p) \<longleftrightarrow> aes_siv_encrypt m m2 key key_len p addr = Some (Some c)"
proof -
  let ?kl = "key_len div 2"
  let ?k2 = "drop ?kl key"
  have inv: "aes_ctr_encrypt m ?k2 ?kl n a = Some b \<longleftrightarrow> aes_ctr_encrypt m ?k2 ?kl n b = Some a" for n a b
    using ctr_loop_involutive by (auto simp: aes_ctr_encrypt_def)
  show ?thesis
  proof
    assume "aes_siv_decrypt m m2 key key_len c addr = Some (Some p)"
    then have c: "\<not> length c < 16" "siv_key_ok (length addr) key_len" "aes_ctr_encrypt m ?k2 ?kl (siv_ctr (take 16 c)) (drop 16 c) = Some p"
        "aes_s2v m m2 key ?kl (addr @ [p]) = Some (Some (take 16 c))"
      by (auto simp: aes_siv_decrypt_def Let_def bind_Some_iff split: if_splits option.splits)
    have "aes_ctr_encrypt m ?k2 ?kl (siv_ctr (take 16 c)) p = Some (drop 16 c)" using c(3) inv by blast
    with c show "aes_siv_encrypt m m2 key key_len p addr = Some (Some c)" by (simp add: aes_siv_encrypt_def Let_def)
  next
    assume "aes_siv_encrypt m m2 key key_len p addr = Some (Some c)"
    then obtain v x where c: "siv_key_ok (length addr) key_len" "aes_s2v m m2 key ?kl (addr @ [p]) = Some (Some v)"
        "aes_ctr_encrypt m ?k2 ?kl (siv_ctr v) p = Some x" "c = v @ x"
      by (auto simp: aes_siv_encrypt_def Let_def bind_Some_iff split: if_splits option.splits)
    have "aes_ctr_encrypt m ?k2 ?kl (siv_ctr v) x = Some p" using c(3) inv by blast
    with c show "aes_siv_decrypt m m2 key key_len c addr = Some (Some p)"
      using aes_s2v_length [OF c(2)] by (simp add: aes_siv_decrypt_def Let_def)
  qed
qed

end
