(* ===== verification/Mgmt_Protect.thy ===== *)
theory Mgmt_Protect
  imports Aes_Omac Ccmp_Gcmp Ap_Pwrsave Recv_Decache Ie_Search
begin

unbundle bit_operations_syntax

text \<open>
  Protection of management frames (802.11w): the code of group frames and its verification
  (\<^verbatim>\<open>core/rtw_security.c\<close>, \<^verbatim>\<open>core/rtw_swcrypto.c\<close>) and the transmit side \<^verbatim>\<open>rtw_mgmt_xmitframe_coalesce\<close>
  (\<^verbatim>\<open>core/rtw_xmit.c\<close>). A frame in transmission is the buffer \<^verbatim>\<open>buf_addr\<close> with the frame at
  \<^verbatim>\<open>TXDESC_OFFSET\<close>. What the transmit side protects the receive side accepts, once.
\<close>

section \<open>Buffers\<close>

definition mem_rd :: "bytes \<Rightarrow> nat \<Rightarrow> nat \<Rightarrow> bytes option" where
  "mem_rd buf p n = (if p + n \<le> length buf then Some (take n (drop p buf)) else None)"

definition mem_wr :: "bytes \<Rightarrow> nat \<Rightarrow> bytes \<Rightarrow> bytes option" where
  "mem_wr buf p src = (if p + length src \<le> length buf then Some (take p buf @ src @ drop (p + length src) buf) else None)"

section \<open>Message integrity of group management frames\<close>

definition BIP_CMAC_128 :: u8 where "BIP_CMAC_128 = 0x20"
definition BIP_GMAC_128 :: u8 where "BIP_GMAC_128 = 0x21"
definition BIP_GMAC_256 :: u8 where "BIP_GMAC_256 = 0x22"
definition BIP_CMAC_256 :: u8 where "BIP_CMAC_256 = 0x23"

definition MME_IE :: int where "MME_IE = 76"

lemmas bip_defs = BIP_CMAC_128_def BIP_GMAC_128_def BIP_GMAC_256_def BIP_CMAC_256_def

text \<open>The inner \<open>None\<close> of a code is the failure return; \<open>m\<close> says whether the cipher context can be allocated.\<close>

definition bip_ccmp_protect :: "bool \<Rightarrow> bytes \<Rightarrow> nat \<Rightarrow> bytes \<Rightarrow> bytes option option" where
  "bip_ccmp_protect m key key_len data =
     (if key_len = 16 then omac1_aes_128 m key data
      else if key_len = 32 then omac1_aes_256 m key data
      else Some None)"

definition bip_gcmp_protect :: "bool \<Rightarrow> bytes \<Rightarrow> nat \<Rightarrow> bytes \<Rightarrow> nat \<Rightarrow> bytes \<Rightarrow> bytes option option" where
  "bip_gcmp_protect m whdr len key key_len data =
     (if len < 22 then None
      else do {
        gcmp_ipn \<leftarrow> mem_rd whdr (len - 22) 6;
        a2 \<leftarrow> mem_rd whdr 10 6;
        Some (aes_gmac m key key_len (a2 @ rev gcmp_ipn) data)
      })"

definition rtw_calculate_bip_mic :: "bool \<Rightarrow> u8 \<Rightarrow> bytes \<Rightarrow> nat \<Rightarrow> bytes \<Rightarrow> bytes \<Rightarrow> bytes option option" where
  "rtw_calculate_bip_mic m gmcs whdr len key data =
     (if gmcs = BIP_CMAC_128 then bip_ccmp_protect m key 16 data
      else if gmcs = BIP_CMAC_256 then bip_ccmp_protect m key 32 data
      else if gmcs = BIP_GMAC_128 then bip_gcmp_protect m whdr len key 16 data
      else if gmcs = BIP_GMAC_256 then bip_gcmp_protect m whdr len key 32 data
      else Some None)"

text \<open>The additional data: frame control with retry, power management and more data cleared, and the three addresses.\<close>

definition bip_aad :: "bytes \<Rightarrow> bytes option" where
  "bip_aad whdr = do {
     fc \<leftarrow> mem_rd whdr 0 2;
     addrs \<leftarrow> mem_rd whdr 4 18;
     Some ([fc ! 0, fc ! 1 AND 0xC7] @ addrs)
   }"

text \<open>
  \<open>whdr\<close> is the buffer from the frame's header on, \<open>flen\<close> the length of the frame and \<open>pkt_len\<close> the length
  the receive descriptor gave; the result has the packet number to remember. \<open>m0\<close> says whether the
  copy for the additional data can be allocated.
\<close>

definition bip_mic_len :: "u8 \<Rightarrow> nat" where
  "bip_mic_len gmcs = (if gmcs = BIP_CMAC_128 then 8 else 16)"

definition rtw_bip_verify :: "bool \<Rightarrow> bool \<Rightarrow> u8 \<Rightarrow> u16 \<Rightarrow> bytes \<Rightarrow> nat \<Rightarrow> bytes \<Rightarrow> u16 \<Rightarrow> u64 \<Rightarrow> (ret \<times> u64) option" where
  "rtw_bip_verify m0 m gmcs pkt_len whdr flen key keyid ipn =
     (let mic_len = bip_mic_len gmcs in
      if flen < 24 \<or> flen - 24 < mic_len then Some (RET_RX_HANDLED, ipn)
      else do {
        let mme = flen - (if mic_len = 8 then 18 else 26);
        e \<leftarrow> rd whdr mme;
        if e \<noteq> word_of_int MME_IE then Some (RET_RX_HANDLED, ipn)
        else do {
          pkt_keyid \<leftarrow> get_le16 whdr (mme + 2);
          if pkt_keyid \<noteq> keyid then Some (RET_FAIL, ipn)
          else do {
            pkt_ipn \<leftarrow> map_option (\<lambda>b. le64 (b @ [0, 0])) (mem_rd whdr (mme + 4) 6);
            if pkt_ipn \<le> ipn then Some (RET_FAIL, ipn)
            else if \<not> m0 then Some (RET_FAIL, ipn)
            else do {
              body \<leftarrow> mem_rd whdr 24 (flen - 24 - mic_len);
              aad \<leftarrow> bip_aad whdr;
              mic \<leftarrow> rtw_calculate_bip_mic m gmcs whdr (unat pkt_len) key (aad @ body @ replicate mic_len 0);
              case mic of
                None \<Rightarrow> Some (RET_FAIL, ipn)
              | Some mic \<Rightarrow> do {
                  pkt_mic \<leftarrow> mem_rd whdr (flen - mic_len) mic_len;
                  Some (if take mic_len mic = pkt_mic then (RET_SUCCESS, pkt_ipn) else (RET_FAIL, ipn))
                }
            }
          }
        }
      })"

section \<open>Categories of action frames\<close>

definition CATEGORY_IS_GROUP_PRIVACY :: "u8 \<Rightarrow> bool" where
  "CATEGORY_IS_GROUP_PRIVACY cat \<longleftrightarrow> cat = 13 \<or> cat = 14"

definition CATEGORY_IS_NON_ROBUST :: "u8 \<Rightarrow> bool" where
  "CATEGORY_IS_NON_ROBUST cat \<longleftrightarrow> cat = 4 \<or> cat = 7 \<or> cat = 11 \<or> cat = 15 \<or> cat = 21 \<or> cat = 0x7f"

definition WIFI_DEAUTH :: u8 where "WIFI_DEAUTH = 0xC0"
definition WIFI_DISASSOC :: u8 where "WIFI_DISASSOC = 0xA0"
definition WIFI_ACTION :: u8 where "WIFI_ACTION = 0xD0"

lemmas mgmt_subtypes = WIFI_DEAUTH_def WIFI_DISASSOC_def WIFI_ACTION_def

definition WLAN_STA_MFP :: u32 where "WLAN_STA_MFP = 0x400"

section \<open>Protecting a management frame\<close>

text \<open>
  What the transmit side depends on: the registry's A-MSDU mode, the allocations (\<open>mx_m0\<close> for the
  additional data, the others for the ciphers), the fragment size, the alignment base of the buffer
  and the packet offset of the frame.
\<close>

record mgmt_env =
  mx_amsdu_mode :: u8
  mx_m0 :: bool
  mx_m1 :: bool
  mx_m2 :: bool
  mx_frag_len :: u32
  mx_base :: nat
  mx_pkt_offset :: int

definition TXDESC_OFFSET :: nat where "TXDESC_OFFSET = 48"

definition AES_IV :: "u64 \<Rightarrow> u8 \<Rightarrow> bytes \<times> u64" where
  "AES_IV pn keyidx =
     (let v = (if pn = 0xffffffffffff then 0 else pn + 1); b = put_le64 v
      in ([b ! 0, b ! 1, 0, 0x20 OR push_bit 6 (keyidx AND 3), b ! 2, b ! 3, b ! 4, b ! 5], v))"

definition xmitframe_swencrypt :: "mgmt_env \<Rightarrow> security_priv \<Rightarrow> pkt_attrib \<Rightarrow> bytes \<Rightarrow> bytes option" where
  "xmitframe_swencrypt env sec pa buf =
     (let e = at_encrypt pa; fl = mx_frag_len env; base = mx_base env; po = mx_pkt_offset env;
          am = mx_amsdu_mode env; m1 = mx_m1 env; m2 = mx_m2 env; keep = (\<lambda>x. case x of None \<Rightarrow> buf | Some b \<Rightarrow> b) in
      if \<not> at_bswenc pa then Some buf
      else if e = WEP40 \<or> e = WEP104 then map_option keep (rtw_wep_encrypt sec pa fl base po (Some buf))
      else if e = TKIP then map_option (keep \<circ> snd) (rtw_tkip_encrypt sec pa fl base po (Some buf))
      else if e = AES \<or> e = CCMP_256 then map_option (keep \<circ> snd) (rtw_aes_encrypt am m1 m2 sec pa fl base po (Some buf))
      else if e = GCMP \<or> e = GCMP_256 then map_option (keep \<circ> snd) (rtw_gcmp_encrypt am m1 m2 sec pa fl base po (Some buf))
      else Some buf)"

type_synonym mgmt_result = "ret \<times> adapter \<times> security_priv \<times> pkt_attrib \<times> bytes"

text \<open>Group frames: the management MIC element with the next packet number and the code.\<close>

definition mgmt_bip :: "mgmt_env \<Rightarrow> adapter \<Rightarrow> security_priv \<Rightarrow> pkt_attrib \<Rightarrow> bytes \<Rightarrow> mgmt_result option" where
  "mgmt_bip env ad sec pa buf = do {
     let gmcs = dot11wCipher sec;
     let mic_len = bip_mic_len gmcs;
     let pn = dot11wBIPtxpn sec + 1;
     let sec = sec\<lparr>dot11wBIPtxpn := pn\<rparr>;
     let mme_cont = take (8 + mic_len) ([ucast (dot11wBIPKeyid sec), 0] @ put_le64 pn @ replicate 14 0);
     (buf, pframe, pktlen) \<leftarrow> rtw_set_ie buf (TXDESC_OFFSET + unat (at_pktlen pa)) MME_IE mme_cont (unat (at_pktlen pa));
     let pa = pa\<lparr>at_pktlen := of_nat pktlen, at_last_txcmdsz := of_nat pktlen\<rparr>;
     if pktlen < 24 then None
     else do {
       aad \<leftarrow> bip_aad (drop TXDESC_OFFSET buf);
       body \<leftarrow> mem_rd buf (TXDESC_OFFSET + 24) (pktlen - 24);
       key \<leftarrow> idx (dot11wBIPKey sec) (unat (dot11wBIPKeyid sec));
       mic \<leftarrow> rtw_calculate_bip_mic (mx_m1 env) gmcs (drop TXDESC_OFFSET buf) pktlen key (aad @ body);
       case mic of
         None \<Rightarrow> Some (RET_FAIL, ad, sec, pa, buf)
       | Some mic \<Rightarrow> do {
           buf \<leftarrow> mem_wr buf (pframe - mic_len) (take mic_len mic);
           Some (RET_SUCCESS, ad, sec, pa, buf)
         }
     }
   }"

text \<open>Other robust frames: an IV after the header and software encryption; \<open>i\<close> is the station whose packet number counts.\<close>

definition mgmt_iv_icv :: "u8 \<Rightarrow> (u8 \<times> u8) option" where
  "mgmt_iv_icv e = (if e = AES then Some (8, 8) else if e = CCMP_256 \<or> e = GCMP \<or> e = GCMP_256 then Some (8, 16) else None)"

definition mgmt_encrypt :: "mgmt_env \<Rightarrow> nat \<Rightarrow> u8 \<Rightarrow> u8 \<Rightarrow> adapter \<Rightarrow> security_priv \<Rightarrow> pkt_attrib \<Rightarrow> bytes \<Rightarrow> mgmt_result option" where
  "mgmt_encrypt env i cipher kid ad sec pa buf = do {
     tmp_buf \<leftarrow> mem_rd buf TXDESC_OFFSET (unat (at_pktlen pa));
     let pa = (if at_key_type pa \<noteq> 2 then pa\<lparr>at_encrypt := cipher, at_bswenc := True\<rparr> else pa);
     let hdrlen = unat (at_hdrlen pa);
     case mgmt_iv_icv (at_encrypt pa) of
       None \<Rightarrow> Some (RET_FAIL, ad, sec, pa, buf)
     | Some (iv_len, icv_len) \<Rightarrow> do {
         let (iv, pn) = AES_IV (si_dot11txpn (sta_of ad i)) kid;
         let ad = upd_sta i (\<lambda>s. s\<lparr>si_dot11txpn := pn\<rparr>) ad;
         let pa = pa\<lparr>at_iv_len := iv_len, at_icv_len := icv_len, at_iv := iv @ drop 8 (at_iv pa)\<rparr>;
         if length tmp_buf < hdrlen then None
         else do {
           buf \<leftarrow> mem_wr buf (TXDESC_OFFSET + hdrlen) (iv @ drop hdrlen tmp_buf);
           let pframe = TXDESC_OFFSET + 8 + length tmp_buf;
           buf \<leftarrow> (if at_bswenc pa then mem_wr buf pframe (take (unat icv_len) (at_icv pa)) else Some buf);
           let pktlen = at_pktlen pa + ucast iv_len + ucast icv_len;
           let pa = pa\<lparr>at_pktlen := pktlen, at_last_txcmdsz := pktlen\<rparr>;
           fc1 \<leftarrow> rd buf (TXDESC_OFFSET + 1);
           buf \<leftarrow> xmitframe_swencrypt env sec pa (buf[TXDESC_OFFSET + 1 := fc1 OR 0x40]);
           Some (RET_SUCCESS, ad, sec, pa, buf)
         }
       }
   }"

text \<open>The station of a unicast frame: the one the frame carries or the receiver's.\<close>

definition mgmt_psta :: "adapter \<Rightarrow> nat option \<Rightarrow> pkt_attrib \<Rightarrow> nat option \<times> pkt_attrib" where
  "mgmt_psta ad found pa = (case at_psta pa of Some i \<Rightarrow> (Some i, pa) | None \<Rightarrow> (found, pa\<lparr>at_psta := found\<rparr>))"

definition uncst_key :: "nat \<Rightarrow> adapter \<Rightarrow> u8 \<Rightarrow> pkt_attrib \<Rightarrow> pkt_attrib" where
  "uncst_key i ad cipher pa =
     (let n = (if cipher AND 0x10 \<noteq> 0 then 32 else 16);
          key = take n (si_UncstKey (sta_of ad i)) @ drop n (at_UncstKey pa)
      in pa\<lparr>at_UncstKey := if at_key_type pa = 1 then key[0 := 0xff] else key\<rparr>)"

definition mgmt_unicast :: "mgmt_env \<Rightarrow> adapter \<Rightarrow> security_priv \<Rightarrow> pkt_attrib \<Rightarrow> bytes \<Rightarrow> mgmt_result option" where
  "mgmt_unicast env ad sec pa buf =
     (case mgmt_psta ad (ad_get_sta ad (at_ra pa)) pa of
        (None, pa) \<Rightarrow> Some (RET_FAIL, ad, sec, pa, buf)
      | (Some i, pa) \<Rightarrow>
          if si_flags (sta_of ad i) AND WLAN_STA_MFP = 0 then Some (RET_SUCCESS, ad, sec, pa, buf)
          else if \<not> si_bpairwise_key_installed (sta_of ad i) then Some (RET_FAIL, ad, sec, pa, buf)
          else if \<not> mx_m0 env then Some (RET_FAIL, ad, sec, pa, buf)
          else (let cipher = ucast (si_dot118021XPrivacy (sta_of ad i))
                in mgmt_encrypt env i cipher 0 ad sec (uncst_key i ad cipher pa) buf))"

definition mgmt_group :: "mgmt_env \<Rightarrow> bool \<Rightarrow> adapter \<Rightarrow> security_priv \<Rightarrow> pkt_attrib \<Rightarrow> bytes \<Rightarrow> mgmt_result option" where
  "mgmt_group env group_privacy ad sec pa buf =
     (if \<not> mx_m0 env then Some (RET_FAIL, ad, sec, pa, buf)
      else if group_privacy then
        (case mgmt_psta ad (rtw_get_bcmc_stainfo (ad_stapriv ad)) pa of
           (None, pa) \<Rightarrow> Some (RET_FAIL, ad, sec, pa, buf)
         | (Some i, pa) \<Rightarrow>
             if \<not> binstallGrpkey sec then Some (RET_FAIL, ad, sec, pa, buf)
             else mgmt_encrypt env i (ucast (dot118021XGrpPrivacy sec)) (ucast (dot118021XGrpKeyid sec)) ad sec pa buf)
      else if \<not> binstallBIPkey sec then Some (RET_SUCCESS, ad, sec, pa, buf)
      else mgmt_bip env ad sec pa buf)"

definition rtw_mgmt_xmitframe_coalesce :: "mgmt_env \<Rightarrow> adapter \<Rightarrow> security_priv \<Rightarrow> pkt_attrib \<Rightarrow> bytes option \<Rightarrow>
    (ret \<times> adapter \<times> security_priv \<times> pkt_attrib \<times> bytes option) option" where
  "rtw_mgmt_xmitframe_coalesce env ad sec pa buf_addr =
     (case buf_addr of
        None \<Rightarrow> Some (RET_FAIL, ad, sec, pa, None)
      | Some buf \<Rightarrow> do {
          fc \<leftarrow> mem_rd buf TXDESC_OFFSET 2;
          let subtype = fc ! 0 AND 0xFC;
          category \<leftarrow> (if subtype = WIFI_ACTION then rd buf (TXDESC_OFFSET + 24) else Some 0xFF);
          if subtype \<notin> {WIFI_DEAUTH, WIFI_DISASSOC, WIFI_ACTION} \<or> subtype = WIFI_ACTION \<and> CATEGORY_IS_NON_ROBUST category
          then Some (RET_SUCCESS, ad, sec, pa, Some buf)
          else do {
            (r, ad, sec, pa, buf) \<leftarrow>
              (if IS_MCAST (at_ra pa) then mgmt_group env (subtype = WIFI_ACTION \<and> CATEGORY_IS_GROUP_PRIVACY category) ad sec pa buf
               else mgmt_unicast env ad sec pa buf);
            Some (r, ad, sec, pa, Some buf)
          }
        })"

section \<open>The receiver accepts what the transmitter protects\<close>

definition bip_cipher :: "u8 \<Rightarrow> bool" where
  "bip_cipher g \<longleftrightarrow> g \<in> {BIP_CMAC_128, BIP_GMAC_128, BIP_GMAC_256, BIP_CMAC_256}"

lemma mem_rd_append: "length a = p \<Longrightarrow> length b = n \<Longrightarrow> mem_rd (a @ b @ c) p n = Some b"
  by (simp add: mem_rd_def)

lemma mem_wr_append: "length a = p \<Longrightarrow> length b = length s \<Longrightarrow> mem_wr (a @ b @ c) p s = Some (a @ s @ c)"
  by (simp add: mem_wr_def)

lemma bip_mic_same:
  assumes "bip_mic_len g = 16 \<Longrightarrow> mem_rd w (len - 22) 6 = mem_rd w' (len - 22) 6" "mem_rd w 10 6 = mem_rd w' 10 6"
  shows "rtw_calculate_bip_mic m g w len key d = rtw_calculate_bip_mic m g w' len key d"
proof (cases "g = BIP_CMAC_128")
  case False
  then have "mem_rd w (len - 22) 6 = mem_rd w' (len - 22) 6" using assms(1) by (simp add: bip_mic_len_def)
  then show ?thesis using assms(2) by (simp add: rtw_calculate_bip_mic_def bip_gcmp_protect_def)
qed (simp add: rtw_calculate_bip_mic_def)

lemma gmac_total: "key_len \<in> {16, 32} \<Longrightarrow> \<exists>mic. aes_gmac True key key_len iv aad = Some mic \<and> length mic = 16"
  using aes_encrypt_init_None [of True key key_len]
  by (auto simp: aes_gmac_def aes_gcm_ae_def aes_gcm_init_hash_subkey_def Let_def split: option.splits)

lemma cmac_total: "key_len \<in> {16, 32} \<Longrightarrow> \<exists>mic. bip_ccmp_protect True key key_len d = Some (Some mic) \<and> length mic = 16"
  using aes_encrypt_init_None [of True key key_len]
  by (auto simp: bip_ccmp_protect_def omac1_aes_128_def omac1_aes_256_def omac1_single)

lemma bip_mic_total:
  assumes "bip_cipher g" "22 \<le> len" "bip_mic_len g = 16 \<Longrightarrow> mem_rd w (len - 22) 6 = Some ipn" "mem_rd w 10 6 = Some a2"
  shows "\<exists>mic. rtw_calculate_bip_mic True g w len key d = Some (Some mic) \<and> length mic = 16"
proof -
  have "g = BIP_CMAC_128 \<or> g = BIP_GMAC_128 \<or> g = BIP_GMAC_256 \<or> g = BIP_CMAC_256" using assms(1) by (simp add: bip_cipher_def)
  then show ?thesis
    using gmac_total [of 16 key "a2 @ rev ipn" d] gmac_total [of 32 key "a2 @ rev ipn" d] cmac_total [of 16 key d] cmac_total [of 32 key d] assms(2-4)
    by (elim disjE) (auto simp: rtw_calculate_bip_mic_def bip_gcmp_protect_def bip_defs bip_mic_len_def)
qed

text \<open>The additional data of a header: the receiver's copy may differ in the three bits that are cleared.\<close>

definition bip_hdr_data :: "bytes \<Rightarrow> bytes" where
  "bip_hdr_data hdr = [hdr ! 0, hdr ! 1 AND 0xC7] @ take 18 (drop 4 hdr)"

lemma bip_aad_hdr:
  assumes "length hdr = 24"
  shows "bip_aad (hdr @ x) = Some (bip_hdr_data hdr)"
  using assms by (simp add: bip_aad_def bip_hdr_data_def mem_rd_def nth_append)

lemma bip_hdr_data_byte:
  assumes "length hdr = 24" "b AND 0xC7 = hdr ! 1 AND 0xC7"
  shows "bip_hdr_data (hdr[1 := b]) = bip_hdr_data hdr"
  using assms by (simp add: bip_hdr_data_def)

lemma put_le64_split:
  assumes "pn < 0x1000000000000"
  shows "put_le64 pn = take 6 (put_le64 pn) @ [0, 0]"
proof -
  have "unat pn < 2 ^ 48" using assms by (simp add: word_less_nat_alt)
  then have "drop_bit 48 pn = 0" "drop_bit 56 pn = 0"
    by (simp_all add: drop_bit_eq_div word_unat_eq_iff unat_div)
  then have "put_le64 pn ! 6 = 0" "put_le64 pn ! 7 = 0" by (simp_all add: put_le64_def)
  then show ?thesis
    by (intro nth_equalityI) (auto simp: put_le64_def nth_append nth_Cons' less_Suc_eq numeral_eq_Suc)
qed

text \<open>The element before the code: number, length, key index and packet number.\<close>

definition mme_head :: "u8 \<Rightarrow> u32 \<Rightarrow> u64 \<Rightarrow> bytes" where
  "mme_head g keyid pn = [76, of_nat (8 + bip_mic_len g), ucast keyid, 0] @ take 6 (put_le64 pn)"

lemma mme_head_length [simp]: "length (mme_head g keyid pn) = 10"
  by (simp add: mme_head_def put_le64_def)

lemma bip_verify_layout:
  assumes "bip_cipher g" "length hdr = 24" "unat keyid < 256" "pn < 0x1000000000000"
    and mic: "rtw_calculate_bip_mic True g w flen key (bip_hdr_data hdr @ body @ mme_head g keyid pn @ replicate (bip_mic_len g) 0) = Some (Some mic)"
    and w: "w = hdr @ body @ mme_head g keyid pn @ c" and c: "c = take (bip_mic_len g) mic @ rest" "length mic = 16"
    and fl: "flen = 34 + length body + bip_mic_len g" "flen < 65536"
  shows "rtw_bip_verify True True g (of_nat flen) w flen key (ucast keyid) ipn = Some (if ipn < pn then (RET_SUCCESS, pn) else (RET_FAIL, ipn))"
proof -
  let ?l = "bip_mic_len g" and ?h = "mme_head g keyid pn"
  have l: "?l = 8 \<or> ?l = 16" by (simp add: bip_mic_len_def)
  then have mme: "flen - (if ?l = 8 then 18 else 26) = 24 + length body" using fl by auto
  have r1: "rd w (24 + length body) = Some 76" using assms(2) by (simp add: w mme_head_def nth_append)
  have r2: "get_le16 w (24 + length body + 2) = Some (ucast keyid)"
  proof -
    have "w ! (24 + length body + 2) = ucast keyid" "w ! (24 + length body + 3) = 0" "24 + length body + 3 < length w"
      using assms(2) by (simp_all add: w mme_head_def nth_append)
    moreover have "ucast (ucast keyid :: u8) = (ucast keyid :: u16)"
      using assms(3) by (simp add: word_unat_eq_iff unsigned_ucast_eq take_bit_eq_mod unat_mod)
    ultimately show ?thesis by (simp add: get_le16_def)
  qed
  have r3: "mem_rd w (24 + length body + 4) 6 = Some (take 6 (put_le64 pn))"
    using mem_rd_append [of "hdr @ body @ take 4 ?h" "24 + length body + 4" "take 6 (put_le64 pn)" 6 c] assms(2) by (simp add: w mme_head_def put_le64_def)
  have r4: "le64 (take 6 (put_le64 pn) @ [0, 0]) = pn" using put_le64_split [OF assms(4)] le64_put by metis
  have r5: "mem_rd w 24 (flen - 24 - ?l) = Some (body @ ?h)"
    using mem_rd_append [of hdr 24 "body @ ?h" "10 + length body" c] assms(2) fl by (simp add: w)
  have r6: "bip_aad w = Some (bip_hdr_data hdr)" using bip_aad_hdr [OF assms(2)] by (simp add: w)
  have r7: "mem_rd w (flen - ?l) ?l = Some (take ?l mic)"
    using mem_rd_append [of "hdr @ body @ ?h" "flen - ?l" "take ?l mic" ?l rest] assms(2) fl l c by (auto simp: w)
  have r8: "unat (of_nat flen :: u16) = flen" using fl(2) by (simp add: unat_of_nat)
  have r9: "\<not> (flen < 24 \<or> flen - 24 < ?l)" using fl by auto
  have i76: "word_of_int 76 = (76 :: u8)" by simp
  show ?thesis
    unfolding rtw_bip_verify_def Let_def mme MME_IE_def i76
    by (simp only: r1 r2 r3 r4 r5 r6 r7 r8 r9 mic Option.bind.simps option.map if_True if_False simp_thms option.case append_assoc not_le) auto
qed

lemma mgmt_bip_run:
  assumes buf: "buf = desc @ hdr @ body @ room" "length desc = 48" "length hdr = 24" "unat (at_pktlen pa) = 24 + length body"
      "10 + bip_mic_len (dot11wCipher sec) \<le> length room"
    and sec: "bip_cipher (dot11wCipher sec)" "idx (dot11wBIPKey sec) (unat (dot11wBIPKeyid sec)) = Some key" "dot11wBIPtxpn sec + 1 < 0x1000000000000"
    and m: "mx_m1 env"
  defines "g \<equiv> dot11wCipher sec" and "pn \<equiv> dot11wBIPtxpn sec + 1"
  defines "h \<equiv> mme_head g (dot11wBIPKeyid sec) pn" and "flen \<equiv> 34 + length body + bip_mic_len g"
  shows "\<exists>mic sec' pa' room'. mgmt_bip env ad sec pa buf = Some (RET_SUCCESS, ad, sec', pa', desc @ hdr @ body @ h @ take (bip_mic_len g) mic @ room')
    \<and> sec' = sec\<lparr>dot11wBIPtxpn := pn\<rparr> \<and> at_pktlen pa' = of_nat flen \<and> length mic = 16
    \<and> (\<forall>b c. rtw_calculate_bip_mic True g (hdr[Suc 0 := b] @ body @ h @ c) flen key (bip_hdr_data hdr @ body @ h @ replicate (bip_mic_len g) 0) = Some (Some mic))"
proof -
  let ?l = "bip_mic_len g" and ?z = "replicate (bip_mic_len g) (0 :: u8)"
  let ?pa = "pa\<lparr>at_pktlen := of_nat flen, at_last_txcmdsz := of_nat flen\<rparr>" and ?sec = "sec\<lparr>dot11wBIPtxpn := pn\<rparr>"
  let ?room = "drop (10 + ?l) room"
  have l: "?l = 8 \<or> ?l = 16" by (simp add: bip_mic_len_def)
  have cont: "take (8 + ?l) ([ucast (dot11wBIPKeyid sec), 0] @ put_le64 pn @ replicate 14 0) = [ucast (dot11wBIPKeyid sec), 0] @ take 6 (put_le64 pn) @ ?z"
  proof -
    have x: "put_le64 pn = take 6 (put_le64 pn) @ [0, 0]" "length (take 6 (put_le64 pn)) = 6"
      using put_le64_split sec(3) by (simp_all add: pn_def put_le64_def)
    have z: "[0, 0] @ replicate 14 0 = replicate 16 (0 :: u8)" by (simp add: numeral_eq_Suc)
    obtain y where y: "take 6 (put_le64 pn) = y" "length y = 6" using x(2) by blast
    have "take (8 + ?l) ([ucast (dot11wBIPKeyid sec), 0] @ put_le64 pn @ replicate 14 0)
        = take (8 + ?l) ([ucast (dot11wBIPKeyid sec), 0] @ y @ replicate 16 0)"
      by (subst x(1)) (simp only: y append_assoc z)
    then show ?thesis using l y by auto
  qed
  have len: "length room = 10 + ?l + length ?room" using buf(5) by (simp add: g_def)
  have set: "rtw_set_ie buf (TXDESC_OFFSET + unat (at_pktlen pa)) MME_IE ([ucast (dot11wBIPKeyid sec), 0] @ take 6 (put_le64 pn) @ ?z) (unat (at_pktlen pa))
      = Some (desc @ hdr @ body @ h @ ?z @ ?room, 48 + flen, flen)"
  proof -
    have n: "length ([ucast (dot11wBIPKeyid sec), 0] @ take 6 (put_le64 pn) @ ?z) = 8 + ?l" by (simp add: put_le64_def)
    have b: "TXDESC_OFFSET + unat (at_pktlen pa) = length (desc @ hdr @ body)" "buf = (desc @ hdr @ body) @ room" using buf by (simp_all add: TXDESC_OFFSET_def)
    show ?thesis unfolding rtw_set_ie_def Let_def n b using buf(2-4) len
      by (simp add: h_def mme_head_def flen_def MME_IE_def ac_simps)
  qed
  have d: "drop TXDESC_OFFSET (desc @ x) = x" for x using buf(2) by (simp add: TXDESC_OFFSET_def)
  have aad: "bip_aad (hdr @ body @ h @ ?z @ ?room) = Some (bip_hdr_data hdr)" by (rule bip_aad_hdr [OF buf(3)])
  have bd: "mem_rd (desc @ hdr @ body @ h @ ?z @ ?room) (TXDESC_OFFSET + 24) (flen - 24) = Some (body @ h @ ?z)"
    using mem_rd_append [of "desc @ hdr" "TXDESC_OFFSET + 24" "body @ h @ ?z" "flen - 24" ?room] buf by (simp add: TXDESC_OFFSET_def flen_def h_def)
  have hl: "length h = 10" by (simp add: h_def)
  have rd: "mem_rd (hdr[Suc 0 := b] @ body @ h @ c) 10 6 = Some (take 6 (drop 10 hdr))" for b c
    using buf(3) by (simp add: mem_rd_def drop_update_cancel)
  have ipn: "mem_rd (hdr[Suc 0 := b] @ body @ h @ c) (flen - 22) 6 = Some (drop 4 h)" if "?l = 16" for b c
    using mem_rd_append [of "hdr[Suc 0 := b] @ body @ take 4 h" "flen - 22" "drop 4 h" 6 c] buf(3) that hl
    by (simp add: flen_def flip: append_assoc) (simp add: append_assoc)
  let ?d = "bip_hdr_data hdr @ body @ h @ ?z" and ?w = "hdr @ body @ h @ ?z @ ?room"
  have h1: "hdr[Suc 0 := hdr ! Suc 0] = hdr" by simp
  have g: "bip_cipher g" using sec(1) by (simp add: g_def)
  obtain mic where mic: "rtw_calculate_bip_mic True g ?w flen key ?d = Some (Some mic)" "length mic = 16"
    using bip_mic_total [OF g, of flen ?w "drop 4 h" _ key ?d] ipn [of "hdr ! Suc 0"] rd [of "hdr ! Suc 0"] unfolding h1 by (auto simp: flen_def)
  have same: "rtw_calculate_bip_mic True g (hdr[Suc 0 := b] @ body @ h @ c) flen key ?d = Some (Some mic)" for b c
    using bip_mic_same [of g "hdr[Suc 0 := b] @ body @ h @ c" flen ?w True key ?d] ipn [of b c] ipn [of "hdr ! Suc 0" "?z @ ?room"]
      rd [of b c] rd [of "hdr ! Suc 0" "?z @ ?room"] mic(1) unfolding h1 by auto
  have wr: "mem_wr (desc @ ?w) (48 + flen - ?l) (take ?l mic) = Some (desc @ hdr @ body @ h @ take ?l mic @ ?room)"
    using mem_wr_append [of "desc @ hdr @ body @ h" "48 + flen - ?l" ?z "take ?l mic" ?room] buf l mic(2) hl by (auto simp: flen_def)
  have k: "idx (dot11wBIPKey ?sec) (unat (dot11wBIPKeyid ?sec)) = Some key" using sec(2) by simp
  have f24: "\<not> flen < 24" by (simp add: flen_def)
  have sel: "dot11wBIPKeyid ?sec = dot11wBIPKeyid sec" by simp
  have "mgmt_bip env ad sec pa buf = Some (RET_SUCCESS, ad, ?sec, ?pa, desc @ hdr @ body @ h @ take ?l mic @ ?room)"
    unfolding mgmt_bip_def Let_def g_def [symmetric] pn_def [symmetric] sel cont set
    using f24 m k by (simp add: d aad bd mic(1) wr del: drop_append)
  then show ?thesis using same mic(2) by auto
qed

text \<open>
  C13. A robust group management frame that the transmit path protects is accepted by the receive path
  exactly once: the management MIC element it carries makes the verification succeed under the same key,
  cipher and key index for every packet number below the one sent, also when the retry, power
  management or more data bits changed on the way, and as a replay it is refused.
\<close>

theorem bip_roundtrip:
  assumes buf: "buf = desc @ hdr @ body @ room" "length desc = 48" "length hdr = 24" "unat (at_pktlen pa) = 24 + length body"
      "26 \<le> length room" "length body < 60000"
    and robust: "hdr ! 0 AND 0xFC \<in> {WIFI_DEAUTH, WIFI_DISASSOC} \<or> hdr ! 0 AND 0xFC = WIFI_ACTION \<and> body \<noteq> []
      \<and> \<not> CATEGORY_IS_NON_ROBUST (body ! 0) \<and> \<not> CATEGORY_IS_GROUP_PRIVACY (body ! 0)" and "IS_MCAST (at_ra pa)"
    and sec: "binstallBIPkey sec" "bip_cipher (dot11wCipher sec)" "idx (dot11wBIPKey sec) (unat (dot11wBIPKeyid sec)) = Some key"
      "unat (dot11wBIPKeyid sec) < 256" "dot11wBIPtxpn sec + 1 < 0x1000000000000"
    and m: "mx_m0 env" "mx_m1 env"
  shows "\<exists>sec' pa' buf'. rtw_mgmt_xmitframe_coalesce env ad sec pa (Some buf) = Some (RET_SUCCESS, ad, sec', pa', Some buf')
    \<and> (\<forall>b rest ipn. b AND 0xC7 = hdr ! 1 AND 0xC7 \<longrightarrow>
        (let flen = unat (at_pktlen pa'); f = (take flen (drop 48 buf'))[1 := b] @ rest in
         rtw_bip_verify True True (dot11wCipher sec) (of_nat flen) f flen key (ucast (dot11wBIPKeyid sec)) ipn
           = Some (if ipn < dot11wBIPtxpn sec + 1 then (RET_SUCCESS, dot11wBIPtxpn sec + 1) else (RET_FAIL, ipn))))"
proof -
  let ?g = "dot11wCipher sec" and ?pn = "dot11wBIPtxpn sec + 1"
  let ?l = "bip_mic_len ?g" and ?h = "mme_head ?g (dot11wBIPKeyid sec) ?pn"
  let ?flen = "34 + length body + ?l"
  have l: "?l \<le> 16" by (simp add: bip_mic_len_def)
  have "10 + ?l \<le> length room" using buf(5) l by simp
  from mgmt_bip_run [OF buf(1-4) this sec(2,3,5) m(2), of ad] obtain mic sec' pa' room' where
    r: "mgmt_bip env ad sec pa buf = Some (RET_SUCCESS, ad, sec', pa', desc @ hdr @ body @ ?h @ take ?l mic @ room')"
      "at_pktlen pa' = of_nat ?flen" "length mic = 16"
    and mic: "\<And>b c. rtw_calculate_bip_mic True ?g (hdr[Suc 0 := b] @ body @ ?h @ c) ?flen key (bip_hdr_data hdr @ body @ ?h @ replicate ?l 0) = Some (Some mic)"
    by blast
  have w: "unat (of_nat n :: u32) = n" if "n < 65536" for n using that by (simp add: unat_of_nat)
  have fl: "unat (at_pktlen pa') = ?flen" "?flen < 65536" using w [of ?flen] r(2) l buf(6) by simp_all
  have fc: "mem_rd buf TXDESC_OFFSET 2 = Some (take 2 hdr)" using buf(1-3) by (simp add: mem_rd_def TXDESC_OFFSET_def)
  have cat: "rd buf (TXDESC_OFFSET + 24) = Some (body ! 0)" if "body \<noteq> []" using that buf(1-3) by (simp add: TXDESC_OFFSET_def nth_append)
  have "rtw_mgmt_xmitframe_coalesce env ad sec pa (Some buf) = Some (RET_SUCCESS, ad, sec', pa', Some (desc @ hdr @ body @ ?h @ take ?l mic @ room'))"
    using robust fc cat sec(1) m(1) \<open>IS_MCAST (at_ra pa)\<close> r(1) buf(3)
    unfolding rtw_mgmt_xmitframe_coalesce_def mgmt_group_def by (auto simp: mgmt_subtypes rd_in)
  moreover have "rtw_bip_verify True True ?g (of_nat ?flen) ((take ?flen (drop 48 (desc @ hdr @ body @ ?h @ take ?l mic @ room')))[1 := b] @ rest) ?flen key
      (ucast (dot11wBIPKeyid sec)) ipn = Some (if ipn < ?pn then (RET_SUCCESS, ?pn) else (RET_FAIL, ipn))"
    if "b AND 0xC7 = hdr ! 1 AND 0xC7" for b rest ipn
  proof -
    have "(take ?flen (drop 48 (desc @ hdr @ body @ ?h @ take ?l mic @ room')))[1 := b] @ rest = hdr[1 := b] @ body @ ?h @ take ?l mic @ rest"
      using buf(2,3) r(3) l by (simp add: list_update_append)
    moreover have "bip_hdr_data (hdr[1 := b]) = bip_hdr_data hdr" using bip_hdr_data_byte [OF buf(3)] that by simp
    ultimately show ?thesis
      using bip_verify_layout [where hdr = "hdr[1 := b]" and keyid = "dot11wBIPKeyid sec" and pn = ?pn and flen = ?flen and key = key and body = body
          and mic = mic and c = "take ?l mic @ rest" and rest = rest and ipn = ipn, OF sec(2)] mic [of b "take ?l mic @ rest"]
        buf(3) sec(4,5) r(3) fl(2) by simp
  qed
  ultimately show ?thesis using fl(1) by (metis (no_types, lifting))
qed

definition sample_mgmt_env :: mgmt_env where
  "sample_mgmt_env = \<lparr>mx_amsdu_mode = 0, mx_m0 = True, mx_m1 = True, mx_m2 = True, mx_frag_len = 2346, mx_base = 0, mx_pkt_offset = 1\<rparr>"

definition sample_deauth_hdr :: bytes where
  "sample_deauth_hdr = [0xC0, 0, 0, 0] @ replicate 6 0xFF @ replicate 6 4 @ replicate 6 4 @ [0x10, 0]"

abbreviation sample_deauth :: bytes where
  "sample_deauth \<equiv> replicate 48 0 @ sample_deauth_hdr @ [7, 0] @ replicate 26 0"

abbreviation sample_mgmt_pa :: pkt_attrib where
  "sample_mgmt_pa \<equiv> sample_tkip_attrib\<lparr>at_ra := replicate 6 0xFF, at_pktlen := 26\<rparr>"

theorem bip_roundtrip_witness:
  "\<exists>sec' pa' buf'. rtw_mgmt_xmitframe_coalesce sample_mgmt_env sample_ap sample_sec sample_mgmt_pa (Some sample_deauth) = Some (RET_SUCCESS, sample_ap, sec', pa', Some buf')
    \<and> (let flen = unat (at_pktlen pa') in rtw_bip_verify True True BIP_CMAC_128 (of_nat flen) ((take flen (drop 48 buf'))[1 := 8] @ []) flen (replicate 32 9) 4 0
        = Some (RET_SUCCESS, 1))"
proof -
  have h: "length sample_deauth_hdr = 24" "sample_deauth_hdr ! 0 AND 0xFC \<in> {WIFI_DEAUTH, WIFI_DISASSOC}" "(8 :: u8) AND 0xC7 = sample_deauth_hdr ! 1 AND 0xC7"
    by (simp_all add: sample_deauth_hdr_def mgmt_subtypes)
  have s: "binstallBIPkey sample_sec" "dot11wCipher sample_sec = BIP_CMAC_128" "idx (dot11wBIPKey sample_sec) (unat (dot11wBIPKeyid sample_sec)) = Some (replicate 32 9)"
    "unat (dot11wBIPKeyid sample_sec) < 256" "dot11wBIPtxpn sample_sec + 1 = 1" "ucast (dot11wBIPKeyid sample_sec) = (4 :: u16)"
    by (simp_all add: sample_sec_def bip_defs idx_def)
  have c: "bip_cipher (dot11wCipher sample_sec)" using s(2) by (simp add: bip_cipher_def)
  have m: "mx_m0 sample_mgmt_env" "mx_m1 sample_mgmt_env" by (simp_all add: sample_mgmt_env_def)
  have ra: "IS_MCAST (at_ra sample_mgmt_pa)" by (simp add: IS_MCAST_def numeral_eq_Suc)
  have p: "dot11wBIPtxpn sample_sec + 1 < 0x1000000000000" unfolding s(5) by simp
  from bip_roundtrip [where desc = "replicate 48 0" and body = "[7, 0]" and room = "replicate 26 0" and ad = sample_ap,
      OF refl _ h(1) _ _ _ disjI1 [OF h(2)] ra s(1) c s(3,4) p m]
  obtain sec' pa' buf' where r: "rtw_mgmt_xmitframe_coalesce sample_mgmt_env sample_ap sample_sec sample_mgmt_pa (Some sample_deauth)
        = Some (RET_SUCCESS, sample_ap, sec', pa', Some buf')"
    and v: "\<And>b rest ipn. b AND 0xC7 = sample_deauth_hdr ! 1 AND 0xC7 \<Longrightarrow>
        (let flen = unat (at_pktlen pa'); f = (take flen (drop 48 buf'))[1 := b] @ rest in
         rtw_bip_verify True True BIP_CMAC_128 (of_nat flen) f flen (replicate 32 9) 4 ipn = Some (if ipn < 1 then (RET_SUCCESS, 1) else (RET_FAIL, ipn)))"
    unfolding s(2,5,6) by auto
  show ?thesis using r v [OF h(3), of "[]" 0] by (auto simp: Let_def)
qed

end
