(* ===== verification/Recv_Path.thy ===== *)
theory Recv_Path
  imports Recv_Mpdu Recv_Validate Mgmt_Protect
begin

unbundle bit_operations_syntax

text \<open>
  The receive path from the frame the USB code delivers to the network stack (\<^verbatim>\<open>core/rtw_recv.c\<close>):
  \<^verbatim>\<open>rtw_recv_entry\<close>, \<^verbatim>\<open>recv_func\<close> with its two halves, \<^verbatim>\<open>validate_recv_frame\<close> with the branches for
  management, control and data frames, \<^verbatim>\<open>decryptor\<close>, and the calls of reassembly, port control, reorder
  window and MSDU delivery, which are the other theories'. The outer \<open>None\<close> is an access outside a
  buffer or an array. \<open>path_env\<close> holds what the path does not change: the firmware state, the clock,
  whether allocations succeed, and \<^verbatim>\<open>mgt_dispatcher\<close> with the handlers of management frames. What goes
  up to the network stack is recorded in \<open>pc_events\<close>.
\<close>

section \<open>Environment\<close>

record path_env =
  pe_val :: val_env
  pe_hz :: u64
  pe_amsdu_mode :: u8
  pe_dec_mem :: "nat \<Rightarrow> bool \<times> bool"
  pe_bip_mem :: "bool \<times> bool"
  pe_mgmt_mem :: bool
  pe_msdu :: "nat \<Rightarrow> msdu_env"
  pe_mgt_dispatcher :: "recv_frame \<Rightarrow> val_ctx \<Rightarrow> val_ctx"

record path_ctx =
  pc_val :: val_ctx
  pc_events :: "msdu_event list"

definition upd_rx :: "rx_ctx \<Rightarrow> val_ctx \<Rightarrow> val_ctx" where
  "upd_rx c v = v\<lparr>vc_rx := c\<rparr>"

definition frame_le16 :: "recv_frame \<Rightarrow> int \<Rightarrow> u16 option" where
  "frame_le16 f p = map_option (\<lambda>b. ucast (b ! 0) OR push_bit 8 (ucast (b ! 1))) (frame_rd f p 2)"

section \<open>Decryption\<close>

definition decryptor_key_index :: "recv_frame \<Rightarrow> security_priv \<Rightarrow> recv_frame option" where
  "decryptor_key_index f sec =
     (let a = fr_attrib f in
      if pa_encrypt a > 0 then do {
        iv3 \<leftarrow> frame_rd f (uint (pa_hdrlen a) + 3) 1;
        let k = drop_bit 6 (iv3 ! 0) AND 3;
        let k = (if k > 4 then (if pa_encrypt a = WEP40 \<or> pa_encrypt a = WEP104 then ucast (dot11PrivacyKeyIndex sec)
                                else ucast (dot118021XGrpKeyid sec)) else k);
        Some (upd_attrib (\<lambda>a. a\<lparr>pa_key_index := k\<rparr>) f)
      }
      else Some f)"

definition decryptor_cipher :: "path_env \<Rightarrow> recv_frame \<Rightarrow> rx_ctx \<Rightarrow> (ret \<times> recv_frame) option" where
  "decryptor_cipher env f c =
     (let e = pa_encrypt (fr_attrib f); (m1, m2) = pe_dec_mem env (fr_id f); sec = rx_sec c;
          sta = map_option (\<lambda>i. si_UncstKey (rx_sta c i)) (rtw_get_stainfo (ad_stapriv (rx_ad c)) (pa_ta (fr_attrib f)))
      in if e = WEP40 \<or> e = WEP104 then map_option (Pair RET_SUCCESS) (rtw_wep_decrypt sec f)
         else if e = TKIP then rtw_tkip_decrypt sec sta f
         else if e = AES \<or> e = CCMP_256 then rtw_aes_decrypt (pe_amsdu_mode env) m1 m2 sec sta f
         else if e = GCMP \<or> e = GCMP_256 then rtw_gcmp_decrypt (pe_amsdu_mode env) m1 m2 sec sta f
         else Some (RET_SUCCESS, f))"

definition decryptor :: "path_env \<Rightarrow> recv_frame \<Rightarrow> rx_ctx \<Rightarrow> (recv_frame option \<times> rx_ctx) option" where
  "decryptor env f c = do {
     f \<leftarrow> decryptor_key_index f (rx_sec c);
     (res, f, c) \<leftarrow>
       (let a = fr_attrib f; hw = (\<lambda>b. c\<lparr>rx_sec := (rx_sec c)\<lparr>hw_decrypted := b\<rparr>\<rparr>) in
        if pa_encrypt a \<noteq> 0 \<and> \<not> pa_bdecrypted a then do {
          fc \<leftarrow> frame_fc f;
          (r, f) \<leftarrow> decryptor_cipher env f (if GetFrameType fc = WIFI_DATA_TYPE then hw False else c);
          Some (r, f, if GetFrameType fc = WIFI_DATA_TYPE then hw False else c)
        }
        else if pa_bdecrypted a \<and> pa_encrypt a > 0 \<and> (busetkipkey (rx_sec c) \<or> pa_encrypt a \<noteq> TKIP)
        then Some (RET_SUCCESS, f, hw True)
        else Some (RET_SUCCESS, f, c));
     Some (if res = RET_FAIL then (None, free_frame f c)
           else (Some (upd_attrib (\<lambda>a. a\<lparr>pa_bdecrypted := True\<rparr>) f), c))
   }"

section \<open>Control frames\<close>

definition WIFI_MGT_TYPE :: u16 where "WIFI_MGT_TYPE = 0"
definition WIFI_CTRL_TYPE :: u16 where "WIFI_CTRL_TYPE = 4"
definition WIFI_PSPOLL :: u16 where "WIFI_PSPOLL = 0xA4"
definition WIFI_BAR :: u16 where "WIFI_BAR = 0x84"

text \<open>A block acknowledgement request moves the reorder window of its traffic identifier.\<close>

definition rtw_process_bar_frame :: "recv_frame \<Rightarrow> val_ctx \<Rightarrow> val_ctx option" where
  "rtw_process_bar_frame f v = do {
     a2 \<leftarrow> addr2 f;
     case rtw_get_stainfo (vc_sp v) a2 of
       None \<Rightarrow> Some v
     | Some i \<Rightarrow> do {
         ctl \<leftarrow> frame_le16 f 16;
         let tid = unat (drop_bit 12 (ctl AND 0xf000));
         ssc \<leftarrow> frame_le16 f 18;
         let s = rx_sta (vc_rx v) i;
         rc \<leftarrow> idx (si_recvreorder_ctrl s) tid;
         Some (upd_rx (set_sta i (s\<lparr>si_recvreorder_ctrl := (si_recvreorder_ctrl s)[tid := rc\<lparr>indicate_seq := drop_bit 4 ssc\<rparr>]\<rparr>) (vc_rx v)) v)
       }
   }"

text \<open>The result is always \<^verbatim>\<open>_FAIL\<close>: a control frame is never processed further.\<close>

definition validate_recv_ctrl_frame :: "recv_frame \<Rightarrow> val_ctx \<Rightarrow> val_ctx option" where
  "validate_recv_ctrl_frame f v = do {
     fc \<leftarrow> frame_fc f;
     if GetFrameType fc \<noteq> WIFI_CTRL_TYPE then Some v
     else do {
       a1 \<leftarrow> addr1 f;
       if a1 \<noteq> ad_mac (vc_ad v) then Some v
       else do {
         a2 \<leftarrow> addr2 f;
         case rtw_get_stainfo (vc_sp v) a2 of
           None \<Rightarrow> Some v
         | Some i \<Rightarrow>
             if get_frame_sub_type fc = WIFI_PSPOLL then do {
               aid \<leftarrow> frame_le16 f 2;
               Some (upd_ad (pspoll_hdl (aid AND 0x3fff) (pa_priority (fr_attrib f)) i) v)
             }
             else if get_frame_sub_type fc = WIFI_BAR then rtw_process_bar_frame f v
             else Some v
       }
     }
   }"

section \<open>Management frames\<close>

definition sta_mfp :: "rx_ctx \<Rightarrow> nat option \<Rightarrow> bool" where
  "sta_mfp c psta \<longleftrightarrow> (case psta of None \<Rightarrow> False | Some i \<Rightarrow> si_flags (rx_sta c i) AND WLAN_STA_MFP \<noteq> 0)"

text \<open>The code of a group frame under the installed key; the packet number is recorded.\<close>

definition mgmt_bip_verify :: "path_env \<Rightarrow> recv_frame \<Rightarrow> val_ctx \<Rightarrow> (ret \<times> val_ctx) option" where
  "mgmt_bip_verify env f v = do {
     let sec = rx_sec (vc_rx v);
     igtk \<leftarrow> idx (dot11wBIPKey sec) (unat (dot11wBIPKeyid sec));
     (r, ipn) \<leftarrow> rtw_bip_verify (fst (pe_bip_mem env)) (snd (pe_bip_mem env)) (dot11wCipher sec) (pa_pkt_len (fr_attrib f))
        (drop (nat (rx_data f)) (rx_mem f)) (unat (fr_len f)) igtk (ucast (dot11wBIPKeyid sec)) (dot11wBIPrxpn sec);
     Some (if r = RET_SUCCESS then RET_SUCCESS else RET_FAIL, upd_rx ((vc_rx v)\<lparr>rx_sec := sec\<lparr>dot11wBIPrxpn := ipn\<rparr>\<rparr>) v)
   }"

text \<open>A frame that is not marked as protected, from a station (given by its offset) with frame protection.\<close>

definition mgmt_unprotected :: "path_env \<Rightarrow> u8 \<Rightarrow> bool \<Rightarrow> nat \<Rightarrow> recv_frame \<Rightarrow> val_ctx \<Rightarrow> (ret \<times> val_ctx) option" where
  "mgmt_unprotected env subtype is_bmc i f v = do {
     category \<leftarrow> (if subtype = WIFI_ACTION then map_option (\<lambda>b. b ! 0) (frame_rd f 24 1) else Some 0xFF);
     let robust = (subtype = WIFI_ACTION \<and> \<not> CATEGORY_IS_NON_ROBUST category);
     let leave = (subtype = WIFI_DEAUTH \<or> subtype = WIFI_DISASSOC);
     if is_bmc then
       (if subtype = WIFI_ACTION \<and> CATEGORY_IS_GROUP_PRIVACY category then Some (RET_FAIL, v)
        else if robust \<or> leave then mgmt_bip_verify env f v
        else Some (RET_SUCCESS, v))
     else if leave then do {
       reason \<leftarrow> frame_le16 f 24;
       Some (RET_FAIL, if reason = 6 \<or> reason = 7 then upd_ad (ad_note_add (IssueSaQuery (si_mac_addr (rx_sta (vc_rx v) i)))) v else v)
     }
     else Some (if robust \<and> si_bpairwise_key_installed (rx_sta (vc_rx v) i) then RET_FAIL else RET_SUCCESS, v)
   }"

text \<open>
  A protected frame is decrypted and its body moved over the IV. When decryption fails the frame's
  buffer is already released: the copy that follows reads it, which is the outer \<open>None\<close> as any other
  access outside a buffer.
\<close>

definition mgmt_dec_attrib :: "sta_info \<Rightarrow> bytes \<Rightarrow> bytes \<Rightarrow> recv_frame \<Rightarrow> recv_frame" where
  "mgmt_dec_attrib psta a1 a2 = upd_attrib (\<lambda>a.
     let e = ucast (si_dot118021XPrivacy psta); (iv_len, icv_len) = SET_ICE_IV_LEN e in
     a\<lparr>pa_bdecrypted := False, pa_encrypt := e, pa_hdrlen := 24, pa_iv_len := iv_len, pa_icv_len := icv_len, pa_ra := a1, pa_ta := a2\<rparr>)"

definition mgmt_data_len :: "rx_pkt_attrib \<Rightarrow> u32" where
  "mgmt_data_len a = ucast (pa_pkt_len a) - ucast (pa_hdrlen a) - ucast (pa_iv_len a) - ucast (pa_icv_len a)"

definition mgmt_cut :: "recv_frame \<Rightarrow> recv_frame" where
  "mgmt_cut = upd_attrib (\<lambda>a. a\<lparr>pa_pkt_len := pa_pkt_len a - ucast (pa_iv_len a) - ucast (pa_icv_len a)\<rparr>)"

definition mgmt_decrypt :: "path_env \<Rightarrow> nat \<Rightarrow> recv_frame \<Rightarrow> val_ctx \<Rightarrow> (ret \<times> recv_frame \<times> val_ctx) option" where
  "mgmt_decrypt env i f v = do {
     a1 \<leftarrow> addr1 f;
     a2 \<leftarrow> addr2 f;
     let f = mgmt_dec_attrib (rx_sta (vc_rx v) i) a1 a2 f;
     let data_len = mgmt_data_len (fr_attrib f);
     if \<not> pe_mgmt_mem env then Some (RET_FAIL, f, v)
     else do {
       (r, c) \<leftarrow> decryptor env f (vc_rx v);
       case r of
         None \<Rightarrow> if data_len = 0 then Some (RET_FAIL, mgmt_cut f, upd_rx c v) else None
       | Some g \<Rightarrow> do {
           mgmt_DATA \<leftarrow> frame_rd g (uint (pa_hdrlen (fr_attrib g)) + uint (pa_iv_len (fr_attrib g))) (unat data_len);
           g \<leftarrow> frame_write g (rx_data g + uint (pa_hdrlen (fr_attrib g))) mgmt_DATA;
           Some (RET_SUCCESS, mgmt_cut g, upd_rx c v)
         }
     }
   }"

definition validate_mgmt_protect :: "path_env \<Rightarrow> recv_frame \<Rightarrow> val_ctx \<Rightarrow> (ret \<times> recv_frame \<times> val_ctx) option" where
  "validate_mgmt_protect env f v =
     (if \<not> binstallBIPkey (rx_sec (vc_rx v)) then Some (RET_SUCCESS, f, v)
      else do {
        fc \<leftarrow> frame_fc f;
        a1 \<leftarrow> frame_rd f 4 1;
        case (fr_psta f, sta_mfp (vc_rx v) (fr_psta f)) of
          (Some i, True) \<Rightarrow>
            if pa_privacy (fr_attrib f) then mgmt_decrypt env i f v
            else do { (r, v) \<leftarrow> mgmt_unprotected env (ucast (get_frame_sub_type fc)) (IS_MCAST a1) i f v; Some (r, f, v) }
        | _ \<Rightarrow> Some (if pa_privacy (fr_attrib f) then RET_FAIL else RET_SUCCESS, f, v)
      })"

text \<open>The result is the frame as it is left in its structure; what \<^verbatim>\<open>mgt_dispatcher\<close> does is the environment's.\<close>

definition validate_recv_mgnt_frame :: "path_env \<Rightarrow> recv_frame \<Rightarrow> val_ctx \<Rightarrow> (recv_frame \<times> val_ctx) option" where
  "validate_recv_mgnt_frame env f v = do {
     a2 \<leftarrow> addr2 f;
     let f = f\<lparr>fr_psta := rtw_get_stainfo (vc_sp v) a2\<rparr>;
     (r, f, v) \<leftarrow> validate_mgmt_protect env f v;
     if r = RET_FAIL then Some (f, v)
     else do {
       (g, c) \<leftarrow> recvframe_chk_defrag (pe_hz env) (ve_now (pe_val env)) f (vc_rx v);
       Some (f, case g of None \<Rightarrow> upd_rx c v | Some g \<Rightarrow> pe_mgt_dispatcher env g (upd_rx c v))
     }
   }"

section \<open>All frames\<close>

definition drop_count :: "rx_ctx \<Rightarrow> rx_ctx" where
  "drop_count c = set_pool ((rx_pool c)\<lparr>dbg_rx_drop_count := dbg_rx_drop_count (rx_pool c) + 1\<rparr>) c"

definition parse_fc :: "u16 \<Rightarrow> u16 \<Rightarrow> recv_frame \<Rightarrow> recv_frame" where
  "parse_fc fc sc = upd_attrib (\<lambda>a. a\<lparr>pa_to_fr_ds := get_tofr_ds fc, pa_frag_num := ucast (sc AND 0xf), pa_seq_num := drop_bit 4 sc,
     pa_pw_save := GetPwrMgt fc, pa_mfrag := GetMFrag fc, pa_mdata := GetMData fc, pa_privacy := GetPrivacy fc, pa_order := GetOrder fc\<rparr>)"

definition validate_recv_frame :: "path_env \<Rightarrow> recv_frame \<Rightarrow> val_ctx \<Rightarrow> (ret \<times> recv_frame \<times> val_ctx) option" where
  "validate_recv_frame env f v = do {
     b0 \<leftarrow> frame_rd f 0 1;
     if b0 ! 0 AND 3 \<noteq> 0 then Some (RET_FAIL, f, v)
     else do {
       fc \<leftarrow> frame_fc f;
       sc \<leftarrow> frame_le16 f 22;
       let f = parse_fc fc sc f;
       if GetFrameType fc = WIFI_MGT_TYPE then do {
         (f, v) \<leftarrow> validate_recv_mgnt_frame env f v;
         Some (RET_FAIL, f, v)
       }
       else if GetFrameType fc = WIFI_CTRL_TYPE then do {
         v \<leftarrow> validate_recv_ctrl_frame f v;
         Some (RET_FAIL, f, v)
       }
       else if GetFrameType fc = WIFI_DATA_TYPE then do {
         (r, f, v) \<leftarrow> validate_recv_data_frame (pe_val env) (upd_attrib (\<lambda>a. a\<lparr>pa_qos := bit fc 7\<rparr>) f) v;
         Some (r, f, if r = RET_FAIL then upd_rx (drop_count (vc_rx v)) v else v)
       }
       else Some (RET_FAIL, f, v)
     }
   }"

text \<open>
  \<^verbatim>\<open>rtw_free_recvframe\<close> of a frame that may be linked anywhere: \<^verbatim>\<open>rtw_list_delete\<close> takes it out of the
  fragment or reorder queue it is in.
\<close>

definition sta_unlink_frame :: "nat \<Rightarrow> sta_info \<Rightarrow> sta_info" where
  "sta_unlink_frame k s = s\<lparr>si_defrag_q := list_unlink k (si_defrag_q s), si_recvreorder_ctrl :=
     map (\<lambda>rc. rc\<lparr>pending_recvframe_queue := list_unlink k (pending_recvframe_queue rc)\<rparr>) (si_recvreorder_ctrl s)\<rparr>"

definition free_linked :: "recv_frame \<Rightarrow> rx_ctx \<Rightarrow> rx_ctx" where
  "free_linked f c = free_frame f (c\<lparr>rx_ad := (rx_ad c)\<lparr>ad_stapriv := (ad_stapriv (rx_ad c))\<lparr>
     pstainfo_buf := map (sta_unlink_frame (fr_id f)) (rx_stas c)\<rparr>\<rparr>\<rparr>)"

definition recv_func_prehandle :: "path_env \<Rightarrow> recv_frame \<Rightarrow> val_ctx \<Rightarrow> (ret \<times> recv_frame \<times> val_ctx) option" where
  "recv_func_prehandle env f v = do {
     (r, f, v) \<leftarrow> validate_recv_frame env f v;
     Some (r, f, if r \<noteq> RET_SUCCESS then upd_rx (free_linked f (vc_rx v)) v else v)
   }"

text \<open>The environment of \<^verbatim>\<open>recv_process_mpdu\<close> and the function as the reorder code calls it.\<close>

definition mpdu_env :: "path_env \<Rightarrow> rx_ctx \<Rightarrow> recv_frame \<Rightarrow> msdu_env" where
  "mpdu_env env c f = (pe_msdu env (fr_id f))\<lparr>me_is_ap := ad_mlme_ap (rx_ad c), me_is_sta := check_fwstate (pe_val env) WIFI_STATION_STATE,
     me_mac := ad_mac (rx_ad c), me_peer := (\<lambda>a. rtw_get_stainfo (ad_stapriv (rx_ad c)) a \<noteq> None),
     me_amsdu_mode := pe_amsdu_mode env, me_dot11PrivacyAlgrthm := dot11PrivacyAlgrthm (rx_sec c)\<rparr>"

definition mpdu_consume :: "path_env \<Rightarrow> rx_ctx \<Rightarrow> mpdu_consumer" where
  "mpdu_consume env c f rp = (case recv_process_mpdu (mpdu_env env c f) f rp of None \<Rightarrow> (RET_FAIL, rp) | Some (r, ev, rp) \<Rightarrow> (r, rp))"

definition mpdu_events :: "path_env \<Rightarrow> rx_ctx \<Rightarrow> recv_frame list \<Rightarrow> msdu_event list option" where
  "mpdu_events env c out = map_option concat
     (those (map (\<lambda>f. map_option (\<lambda>(r, ev, rp). ev) (recv_process_mpdu (mpdu_env env c f) f (rx_pool c))) out))"

text \<open>The reorder control a frame points to, and writing it back.\<close>

definition get_rc :: "rx_ctx \<Rightarrow> (nat \<times> nat) option \<Rightarrow> recv_reorder_ctrl option option" where
  "get_rc c p = (case p of None \<Rightarrow> Some None
     | Some (i, t) \<Rightarrow> if i < length (rx_stas c) then map_option Some (idx (si_recvreorder_ctrl (rx_sta c i)) t) else None)"

definition put_rc :: "(nat \<times> nat) option \<Rightarrow> recv_reorder_ctrl option \<Rightarrow> rx_ctx \<Rightarrow> rx_ctx" where
  "put_rc p orc c = (case (p, orc) of
     (Some (i, t), Some rc) \<Rightarrow> set_sta i ((rx_sta c i)\<lparr>si_recvreorder_ctrl := (si_recvreorder_ctrl (rx_sta c i))[t := rc]\<rparr>) c
   | _ \<Rightarrow> c)"

text \<open>From the reorder control on; \<open>orig\<close> is the frame \<^verbatim>\<open>recv_func_posthandle\<close> was called with.\<close>

definition posthandle_reorder :: "path_env \<Rightarrow> recv_frame \<Rightarrow> recv_frame \<Rightarrow> rx_ctx \<Rightarrow> (ret \<times> msdu_event list \<times> rx_ctx) option" where
  "posthandle_reorder env orig f c = do {
     orc \<leftarrow> get_rc c (fr_preorder_ctrl f);
     let (ret, orc, out, rp) = recv_indicatepkt_reorder (mpdu_consume env c) f orc (rx_pool c);
     ev \<leftarrow> mpdu_events env c out;
     let c' = put_rc (fr_preorder_ctrl f) orc (set_pool rp c);
     case ret of
       RET_FAIL \<Rightarrow> Some (RET_FAIL, ev, drop_count (free_linked (if fr_id f = fr_id orig then f else orig) c'))
     | RET_RX_HANDLED \<Rightarrow> Some (RET_RX_HANDLED, ev, c')
     | RET_SUCCESS \<Rightarrow> do {
         let orc = recv_set_iseq_before_mpdu_process orc (seq_of orig);
         (r, ev, rp) \<leftarrow> recv_process_mpdu (mpdu_env env c f) f rp;
         let c' = put_rc (fr_preorder_ctrl f) (recv_set_iseq_after_mpdu_process orc) (set_pool rp c);
         Some (r, ev, if r = RET_FAIL then drop_count c' else c')
       }
   }"

definition posthandle_rx :: "path_env \<Rightarrow> recv_frame \<Rightarrow> rx_ctx \<Rightarrow> (ret \<times> msdu_event list \<times> rx_ctx) option" where
  "posthandle_rx env f c = do {
     (r, c) \<leftarrow> decryptor env f c;
     case r of None \<Rightarrow> Some (RET_FAIL, [], drop_count c)
     | Some orig \<Rightarrow> do {
         (r, c) \<leftarrow> recvframe_chk_defrag (pe_hz env) (ve_now (pe_val env)) orig c;
         case r of None \<Rightarrow> Some (RET_SUCCESS, [], drop_count c)
         | Some g \<Rightarrow> do {
             (r, c) \<leftarrow> portctrl g c;
             case r of None \<Rightarrow> Some (RET_FAIL, [], drop_count c)
             | Some g \<Rightarrow> posthandle_reorder env orig g c
           }
       }
   }"

definition recv_func_posthandle :: "path_env \<Rightarrow> recv_frame \<Rightarrow> path_ctx \<Rightarrow> (ret \<times> path_ctx) option" where
  "recv_func_posthandle env f p = do {
     (r, ev, c) \<leftarrow> posthandle_rx env f (vc_rx (pc_val p));
     Some (r, p\<lparr>pc_val := upd_rx c (pc_val p), pc_events := pc_events p @ ev\<rparr>)
   }"

section \<open>What decryption leaves alone\<close>

text \<open>Decryption overwrites bytes of the buffer and sets the key index and the decrypted flag.\<close>

definition dec_norm :: "recv_frame \<Rightarrow> recv_frame" where
  "dec_norm f = f\<lparr>rx_mem := [], fr_attrib := (fr_attrib f)\<lparr>pa_key_index := 0, pa_bdecrypted := False\<rparr>\<rparr>"

definition dec_same :: "recv_frame \<Rightarrow> recv_frame \<Rightarrow> bool" where
  "dec_same f g \<longleftrightarrow> length (rx_mem g) = length (rx_mem f) \<and> dec_norm g = dec_norm f"

lemma dec_same_refl [simp]: "dec_same f f"
  and dec_same_trans: "dec_same f g \<Longrightarrow> dec_same g h \<Longrightarrow> dec_same f h"
  by (simp_all add: dec_same_def)

lemma dec_same_mem: "length m = length (rx_mem f) \<Longrightarrow> dec_same f (f\<lparr>rx_mem := m\<rparr>)"
  by (simp add: dec_same_def dec_norm_def)

lemma dec_same_upd [simp]: "dec_same f (upd_attrib (\<lambda>a. a\<lparr>pa_key_index := k\<rparr>) f)"
  "dec_same f (upd_attrib (\<lambda>a. a\<lparr>pa_bdecrypted := b\<rparr>) f)"
  by (simp_all add: dec_same_def dec_norm_def upd_attrib_def)

lemma dec_norm_sel:
  "fr_id (dec_norm f) = fr_id f" "fr_psta (dec_norm f) = fr_psta f" "fr_preorder_ctrl (dec_norm f) = fr_preorder_ctrl f"
  "fr_len (dec_norm f) = fr_len f" "rx_data (dec_norm f) = rx_data f" "rx_tail (dec_norm f) = rx_tail f"
  "pa_hdrlen (fr_attrib (dec_norm f)) = pa_hdrlen (fr_attrib f)" "pa_frag_num (fr_attrib (dec_norm f)) = pa_frag_num (fr_attrib f)"
  "pa_mfrag (fr_attrib (dec_norm f)) = pa_mfrag (fr_attrib f)"
  by (simp_all add: dec_norm_def)

lemma dec_same_sel:
  assumes "dec_same f g"
  shows "fr_id g = fr_id f" "fr_psta g = fr_psta f" "fr_preorder_ctrl g = fr_preorder_ctrl f" "fr_len g = fr_len f" "rx_data g = rx_data f"
    "rx_tail g = rx_tail f" "length (rx_mem g) = length (rx_mem f)" "pa_hdrlen (fr_attrib g) = pa_hdrlen (fr_attrib f)"
    "pa_frag_num (fr_attrib g) = pa_frag_num (fr_attrib f)" "pa_mfrag (fr_attrib g) = pa_mfrag (fr_attrib f)"
  using assms unfolding dec_same_def by (metis dec_norm_sel)+

lemma frame_write_dec: "frame_write f p src = Some g \<Longrightarrow> dec_same f g"
  unfolding frame_write_def by (auto split: if_splits intro!: dec_same_mem)

lemma rc4_open_dec: "rc4_open f key n = Some g \<Longrightarrow> dec_same f g"
  by (auto simp: rc4_open_def split: option.splits intro: frame_write_dec)

lemma dec_place_length:
  assumes "dec_place dec m1 mic hdrlen frame plen = Some (r, b)"
    and "\<And>d p. dec frame d = Some p \<Longrightarrow> m1 \<and> 8 + mic \<le> length d \<and> length p \<le> length d - 8 - mic"
  shows "length b = length frame"
proof (cases "dec frame (take (unat (plen - of_nat hdrlen)) (drop hdrlen frame))")
  case None
  then show ?thesis using assms(1) by (auto simp: dec_place_def Let_def split: if_splits)
next
  case (Some p)
  note a = assms(2) [OF this]
  have "hdrlen + unat (plen - of_nat hdrlen) \<le> length frame"
    using assms(1) a by (auto simp: dec_place_def Let_def split: if_splits)
  then show ?thesis using assms(1) a Some by (auto simp: dec_place_def Let_def split: if_splits)
qed

lemma ccmp_decrypt_length:
  "ccmp_decrypt am m1 m2 tk hdr d = Some p \<Longrightarrow> m1 \<and> 8 + 8 \<le> length d \<and> length p \<le> length d - 8 - 8"
  "ccmp_256_decrypt am m1 m2 tk hdr d = Some p \<Longrightarrow> m1 \<and> 8 + 16 \<le> length d \<and> length p \<le> length d - 8 - 16"
  by (auto simp: ccmp_decrypt_def ccmp_256_decrypt_def aes_ccm_ad_def Let_def split: if_splits prod.splits option.splits)

lemma gcmp_decrypt_length:
  "gcmp_decrypt am m1 m2 tk n hdr d = Some p \<Longrightarrow> m1 \<and> 8 + 16 \<le> length d \<and> length p \<le> length d - 8 - 16"
  by (auto simp: gcmp_decrypt_def aes_gcm_ad_def aes_gcm_gctr_def Let_def split: if_splits prod.splits option.splits)

lemma dec_recvframe_dec:
  assumes "dec_recvframe dec f = Some (r, g)" "\<And>b n r c. dec b n = Some (r, c) \<Longrightarrow> length c = length b"
  shows "dec_same f g"
proof -
  obtain b where b: "dec (drop (nat (rx_data f)) (rx_mem f)) (fr_len f) = Some (r, b)" "g = f\<lparr>rx_mem := take (nat (rx_data f)) (rx_mem f) @ b\<rparr>"
    using assms(1) by (auto simp: dec_recvframe_def)
  have "length (take (nat (rx_data f)) (rx_mem f) @ b) = length (rx_mem f)" using assms(2) [OF b(1)] by simp
  then show ?thesis using dec_same_mem b(2) by blast
qed

lemma ccmp_frame_length: "rtw_ccmp_decrypt_frame am m1 m2 key kl h b n = Some (r, c) \<Longrightarrow> length c = length b"
  unfolding rtw_ccmp_decrypt_frame_def
  by (auto split: if_splits dest!: dec_place_length [OF _ ccmp_decrypt_length(1)] dest: dec_place_length [OF _ ccmp_decrypt_length(2)])

lemma gcmp_frame_length: "rtw_gcmp_decrypt_frame am m1 m2 key kl h b n = Some (r, c) \<Longrightarrow> length c = length b"
  unfolding rtw_gcmp_decrypt_frame_def by (rule dec_place_length [OF _ gcmp_decrypt_length])

lemma decryptor_cipher_dec:
  assumes "decryptor_cipher env f c = Some (r, g)"
  shows "dec_same f g"
proof -
  obtain m1 m2 where m: "pe_dec_mem env (fr_id f) = (m1, m2)" by fastforce
  define sta where "sta = map_option (\<lambda>i. si_UncstKey (rx_sta c i)) (rtw_get_stainfo (ad_stapriv (rx_ad c)) (pa_ta (fr_attrib f)))"
  consider "rtw_wep_decrypt (rx_sec c) f = Some g" | "rtw_tkip_decrypt (rx_sec c) sta f = Some (r, g)"
    | "rtw_aes_decrypt (pe_amsdu_mode env) m1 m2 (rx_sec c) sta f = Some (r, g)"
    | "rtw_gcmp_decrypt (pe_amsdu_mode env) m1 m2 (rx_sec c) sta f = Some (r, g)" | "g = f"
    using assms m by (auto simp: decryptor_cipher_def Let_def sta_def split: if_splits)
  then show ?thesis
  proof cases
    case 1
    then show ?thesis by (auto simp: rtw_wep_decrypt_def split: if_splits option.splits intro: rc4_open_dec)
  next
    case 2
    then show ?thesis by (auto simp: rtw_tkip_decrypt_def Let_def split: if_splits option.splits intro: rc4_open_dec)
  next
    case 3
    then show ?thesis
      by (auto simp: rtw_aes_decrypt_def Let_def split: if_splits option.splits intro: dec_recvframe_dec ccmp_frame_length)
  next
    case 4
    then show ?thesis
      by (auto simp: rtw_gcmp_decrypt_def Let_def split: if_splits option.splits intro: dec_recvframe_dec gcmp_frame_length)
  qed simp
qed

lemma key_index_dec: "decryptor_key_index f sec = Some g \<Longrightarrow> dec_same f g"
  by (auto simp: decryptor_key_index_def Let_def bind_Some split: if_splits)

lemma decryptor_cases:
  assumes "decryptor env f c = Some (r, c')"
  obtains g d where "rx_ad d = rx_ad c" "dec_same f g" "r = None \<and> c' = free_frame g d \<or> r = Some g \<and> c' = d"
proof -
  obtain f1 res f2 d where 1: "decryptor_key_index f (rx_sec c) = Some f1"
    and 2: "(let a = fr_attrib f1; hw = (\<lambda>b. c\<lparr>rx_sec := (rx_sec c)\<lparr>hw_decrypted := b\<rparr>\<rparr>) in
        if pa_encrypt a \<noteq> 0 \<and> \<not> pa_bdecrypted a then do {
          fc \<leftarrow> frame_fc f1;
          (r, f) \<leftarrow> decryptor_cipher env f1 (if GetFrameType fc = WIFI_DATA_TYPE then hw False else c);
          Some (r, f, if GetFrameType fc = WIFI_DATA_TYPE then hw False else c)
        }
        else if pa_bdecrypted a \<and> pa_encrypt a > 0 \<and> (busetkipkey (rx_sec c) \<or> pa_encrypt a \<noteq> TKIP)
        then Some (RET_SUCCESS, f1, hw True)
        else Some (RET_SUCCESS, f1, c)) = Some (res, f2, d)"
    and 3: "(r, c') = (if res = RET_FAIL then (None, free_frame f2 d) else (Some (upd_attrib (\<lambda>a. a\<lparr>pa_bdecrypted := True\<rparr>) f2), d))"
    using assms unfolding decryptor_def bind_Some by (auto split: prod.splits)
  have "dec_same f1 f2 \<and> rx_ad d = rx_ad c"
    using 2 unfolding Let_def bind_Some by (auto simp: bind_Some split: if_splits intro: decryptor_cipher_dec)
  then have d: "dec_same f f2" "rx_ad d = rx_ad c" using key_index_dec [OF 1] dec_same_trans by blast+
  show thesis
  proof (cases "res = RET_FAIL")
    case True
    then show thesis using that [OF d(2,1)] 3 by simp
  next
    case False
    then show thesis using that [OF d(2) dec_same_trans [OF d(1) dec_same_upd(2)]] 3 by simp
  qed
qed

section \<open>The frames that waited for a key\<close>

abbreviation rp_wait :: "recv_priv \<Rightarrow> nat" where
  "rp_wait rp \<equiv> length (uc_swdec_pending_queue rp)"

definition waits_in :: "recv_priv \<Rightarrow> recv_priv \<Rightarrow> bool" where
  "waits_in rp' rp \<longleftrightarrow> rp_wait rp' \<le> rp_wait rp \<and> set (uc_swdec_pending_queue rp') \<subseteq> set (uc_swdec_pending_queue rp)"

lemma waits_in_refl [simp]: "waits_in rp rp"
  and waits_in_trans: "waits_in a b \<Longrightarrow> waits_in b c \<Longrightarrow> waits_in a c"
  by (auto simp: waits_in_def)

lemma waits_in_upd [simp]: "waits_in (rp\<lparr>dbg_rx_drop_count := n\<rparr>) rp' = waits_in rp rp'"
  by (simp add: waits_in_def)

lemma free_recvframe_wait: "waits_in (rtw_free_recvframe f rp) rp"
  by (auto simp: waits_in_def rtw_free_recvframe_def rp_unlink_def list_unlink_def Let_def)

lemma free_queue_wait: "waits_in (rtw_free_recvframe_queue q rp) rp"
  by (induction q rp rule: rtw_free_recvframe_queue.induct) (simp, metis free_recvframe_wait waits_in_trans rtw_free_recvframe_queue.simps(2))

lemma ctx_wait [simp]: "waits_in (rx_pool (free_frame f c)) (rx_pool c)" "waits_in (rx_pool (free_linked f c)) (rx_pool c)"
  "waits_in (rx_pool (drop_count c)) rp = waits_in (rx_pool c) rp" "rx_pool (put_rc p orc c) = rx_pool c"
  by (simp_all add: free_linked_def free_frame_def free_recvframe_wait drop_count_def put_rc_def split: option.splits prod.splits)

lemma decryptor_wait:
  assumes "decryptor env f c = Some (r, c')"
  shows "waits_in (rx_pool c') (rx_pool c)"
  by (rule decryptor_cases [OF assms]) (metis ctx_wait(1) waits_in_refl)

lemma defrag_wait:
  assumes "recvframe_defrag q rp = Some (r, rp')"
  shows "waits_in rp' rp"
  using assms unfolding recvframe_defrag_def
  by (auto split: list.splits option.splits if_splits prod.splits bool.splits intro: waits_in_trans [OF free_queue_wait free_recvframe_wait] free_queue_wait)

lemma chk_defrag_end_wait:
  assumes "chk_defrag_end hz now r c = Some (r', c')"
  shows "waits_in (rx_pool c') (rx_pool c)"
  using assms unfolding chk_defrag_end_def
  by (auto split: option.splits if_splits prod.splits ret.splits simp: free_frame_def free_recvframe_wait dest!: chkmic_keeps(1))

lemma chk_defrag_wait:
  assumes "recvframe_chk_defrag hz now f c = Some (r, c')"
  shows "waits_in (rx_pool c') (rx_pool c)"
  using assms unfolding recvframe_chk_defrag_def Let_def
  by (auto split: option.splits if_splits prod.splits simp: free_frame_def free_recvframe_wait free_queue_wait
      dest!: chk_defrag_end_wait defrag_wait intro: waits_in_trans)

lemma portctrl_wait:
  assumes "portctrl f c = Some (r, c')"
  shows "waits_in (rx_pool c') (rx_pool c)"
  using assms unfolding portctrl_def by (auto split: option.splits if_splits)

lemma mpdu_consume_wait: "waits_in (snd (mpdu_consume env c f rp)) rp"
  by (auto simp: mpdu_consume_def free_recvframe_wait split: option.splits dest!: recv_process_mpdu_frees)

text \<open>The indication loop hands a prefix of the queue to the consumer, one frame after the other.\<close>

definition pm_step :: "mpdu_consumer \<Rightarrow> recv_frame \<Rightarrow> recv_priv \<Rightarrow> recv_priv" where
  "pm_step pm f rp = (let (r, rp) = pm f rp in if r \<noteq> RET_SUCCESS then rp\<lparr>dbg_rx_drop_count := dbg_rx_drop_count rp + 1\<rparr> else rp)"

lemma indicate_loop_fold:
  "indicate_loop pm iseq q rp = (b, i, left, out, rp') \<Longrightarrow> q = out @ left \<and> rp' = fold (pm_step pm) out rp"
proof (induction q arbitrary: iseq rp b i left out rp')
  case (Cons f q)
  show ?case
  proof (cases "SN_LESS iseq (seq_of f)")
    case False
    obtain r rp1 where 1: "pm f rp = (r, rp1)" by fastforce
    define iseq' where "iseq' = (if SN_EQUAL iseq (seq_of f) then iseq + 1 AND 0xFFF else iseq)"
    obtain b2 i2 left2 out2 rp2 where 2: "indicate_loop pm iseq' q (pm_step pm f rp) = (b2, i2, left2, out2, rp2)" by (metis prod_cases5)
    have "(b, i, left, out, rp') = (b2, i2, left2, f # out2, rp2)"
      using Cons.prems False 2 by (simp add: 1 pm_step_def iseq'_def)
    then show ?thesis using Cons.IH [OF 2] by simp
  qed (use Cons.prems in auto)
qed simp

lemma pm_step_wait: "waits_in (pm_step (mpdu_consume env c) f rp) rp"
  using mpdu_consume_wait [of env c f rp] by (simp add: pm_step_def split_beta)

lemma pm_fold_wait: "waits_in (fold (pm_step (mpdu_consume env c)) out rp) rp"
proof (induction out arbitrary: rp)
  case (Cons f out)
  show ?case using waits_in_trans [OF Cons.IH pm_step_wait] by simp
qed simp

lemma indicate_loop_wait: "indicate_loop (mpdu_consume env c) iseq q rp = (b, i, left, out, rp') \<Longrightarrow> waits_in rp' rp"
  using indicate_loop_fold pm_fold_wait by blast

lemma reorder_wait:
  assumes "recv_indicatepkt_reorder (mpdu_consume env c) f orc rp = (r, orc', out, rp')"
  shows "waits_in rp' rp"
proof -
  have chk: "waits_in rp2 rp" if "check_indicate_seq rc s rp = (ok, rc2, rp2)" for rc s ok rc2 rp2
    using that by (auto simp: check_indicate_seq_def Let_def waits_in_def split: if_splits)
  show ?thesis
    using assms
    by (auto simp: recv_indicatepkt_reorder_def recv_indicatepkts_in_order_def Let_def
        split: option.splits if_splits prod.splits dest!: chk indicate_loop_wait intro: waits_in_trans) (auto simp: waits_in_def)
qed

lemma posthandle_reorder_cases:
  assumes "posthandle_reorder env orig g c = Some (r, ev, c')"
  obtains (refused) orc orc' out rp where "get_rc c (fr_preorder_ctrl g) = Some orc"
      "recv_indicatepkt_reorder (mpdu_consume env c) g orc (rx_pool c) = (RET_FAIL, orc', out, rp)"
      "mpdu_events env c out = Some ev" "r = RET_FAIL"
      "c' = drop_count (free_linked (if fr_id g = fr_id orig then g else orig) (put_rc (fr_preorder_ctrl g) orc' (set_pool rp c)))"
  | (taken) orc orc' out rp where "get_rc c (fr_preorder_ctrl g) = Some orc"
      "recv_indicatepkt_reorder (mpdu_consume env c) g orc (rx_pool c) = (RET_RX_HANDLED, orc', out, rp)"
      "mpdu_events env c out = Some ev" "r = RET_RX_HANDLED" "c' = put_rc (fr_preorder_ctrl g) orc' (set_pool rp c)"
  | (passed) orc orc' out rp rp' where "get_rc c (fr_preorder_ctrl g) = Some orc"
      "recv_indicatepkt_reorder (mpdu_consume env c) g orc (rx_pool c) = (RET_SUCCESS, orc', out, rp)"
      "recv_process_mpdu (mpdu_env env c g) g rp = Some (r, ev, rp')"
      "c' = (if r = RET_FAIL then drop_count else (\<lambda>c. c))
         (put_rc (fr_preorder_ctrl g) (recv_set_iseq_after_mpdu_process (recv_set_iseq_before_mpdu_process orc' (seq_of orig))) (set_pool rp' c))"
proof -
  obtain orc where 1: "get_rc c (fr_preorder_ctrl g) = Some orc"
    using assms unfolding posthandle_reorder_def by (cases "get_rc c (fr_preorder_ctrl g)") auto
  obtain ret orc' out rp where 2: "recv_indicatepkt_reorder (mpdu_consume env c) g orc (rx_pool c) = (ret, orc', out, rp)"
    by (metis prod_cases4)
  obtain ev1 where 3: "mpdu_events env c out = Some ev1"
    using assms 1 2 unfolding posthandle_reorder_def by (cases "mpdu_events env c out") auto
  note a = assms [unfolded posthandle_reorder_def Let_def, simplified 1 2 3, simplified]
  show thesis
  proof (cases ret)
    case RET_FAIL
    then show thesis using refused [OF 1] 2 3 a by simp
  next
    case RET_SUCCESS
    then obtain rp' where "recv_process_mpdu (mpdu_env env c g) g rp = Some (r, ev, rp')"
      "c' = (if r = RET_FAIL then drop_count else (\<lambda>c. c))
         (put_rc (fr_preorder_ctrl g) (recv_set_iseq_after_mpdu_process (recv_set_iseq_before_mpdu_process orc' (seq_of orig))) (set_pool rp' c))"
      using a 2 3 by (auto simp: bind_Some)
    then show thesis using passed [OF 1] 2 RET_SUCCESS by blast
  next
    case RET_RX_HANDLED
    then show thesis using taken [OF 1] 2 3 a by simp
  qed
qed

lemma posthandle_reorder_wait:
  assumes "posthandle_reorder env orig g c = Some (r, ev, c')"
  shows "waits_in (rx_pool c') (rx_pool c)"
  using assms
proof (cases rule: posthandle_reorder_cases)
  case (refused orc orc' out rp)
  then show ?thesis
    using reorder_wait [OF refused(2)] ctx_wait(2) [of "if fr_id g = fr_id orig then g else orig" "put_rc (fr_preorder_ctrl g) orc' (set_pool rp c)"]
    by (auto intro: waits_in_trans)
next
  case (taken orc orc' out rp)
  then show ?thesis using reorder_wait [OF taken(2)] by simp
next
  case (passed orc orc' out rp rp')
  obtain h where h: "rp' = rtw_free_recvframe h rp" using recv_process_mpdu_frees [OF passed(3)] by blast
  show ?thesis using reorder_wait [OF passed(2)] free_recvframe_wait [of h rp] passed(4) by (auto simp: h split: if_splits intro: waits_in_trans)
qed

lemma posthandle_rx_cases:
  assumes "posthandle_rx env f c = Some (r, ev, c')"
  obtains c1 where "decryptor env f c = Some (None, c1)" "r = RET_FAIL" "ev = []" "c' = drop_count c1"
  | orig c1 c2 where "decryptor env f c = Some (Some orig, c1)" "recvframe_chk_defrag (pe_hz env) (ve_now (pe_val env)) orig c1 = Some (None, c2)"
      "r = RET_SUCCESS" "ev = []" "c' = drop_count c2"
  | orig c1 g c2 c3 where "decryptor env f c = Some (Some orig, c1)" "recvframe_chk_defrag (pe_hz env) (ve_now (pe_val env)) orig c1 = Some (Some g, c2)"
      "portctrl g c2 = Some (None, c3)" "r = RET_FAIL" "ev = []" "c' = drop_count c3"
  | orig c1 g c2 h c3 where "decryptor env f c = Some (Some orig, c1)" "recvframe_chk_defrag (pe_hz env) (ve_now (pe_val env)) orig c1 = Some (Some g, c2)"
      "portctrl g c2 = Some (Some h, c3)" "posthandle_reorder env orig h c3 = Some (r, ev, c')"
proof -
  obtain r1 c1 where 1: "decryptor env f c = Some (r1, c1)" using assms by (auto simp: posthandle_rx_def bind_Some)
  show thesis
  proof (cases r1)
    case None
    then show thesis using that(1) 1 assms by (simp add: posthandle_rx_def)
  next
    case orig: (Some orig)
    obtain r2 c2 where 2: "recvframe_chk_defrag (pe_hz env) (ve_now (pe_val env)) orig c1 = Some (r2, c2)"
      using assms 1 orig by (auto simp: posthandle_rx_def bind_Some)
    show thesis
    proof (cases r2)
      case None
      then show thesis using that(2) 1 2 orig assms by (simp add: posthandle_rx_def)
    next
      case g: (Some g)
      obtain r3 c3 where 3: "portctrl g c2 = Some (r3, c3)" using assms 1 2 orig g by (auto simp: posthandle_rx_def bind_Some)
      show thesis
        using that(3) [of orig c1 g c2 c3] that(4) [of orig c1 g c2 _ c3] 1 2 3 orig g assms by (cases r3) (simp_all add: posthandle_rx_def)
    qed
  qed
qed

lemma posthandle_wait:
  assumes "posthandle_rx env f c = Some (r, ev, c')"
  shows "waits_in (rx_pool c') (rx_pool c)"
  by (rule posthandle_rx_cases [OF assms])
    (auto dest!: decryptor_wait chk_defrag_wait portctrl_wait posthandle_reorder_wait intro: waits_in_trans)

abbreviation pc_rx :: "path_ctx \<Rightarrow> rx_ctx" where
  "pc_rx p \<equiv> vc_rx (pc_val p)"

definition pc_set_pool :: "recv_priv \<Rightarrow> path_ctx \<Rightarrow> path_ctx" where
  "pc_set_pool rp p = p\<lparr>pc_val := upd_rx (set_pool rp (pc_rx p)) (pc_val p)\<rparr>"

lemma pc_set_pool_rx [simp]: "pc_rx (pc_set_pool rp p) = set_pool rp (pc_rx p)"
  by (simp add: pc_set_pool_def upd_rx_def)

function swdec_drain :: "path_env \<Rightarrow> path_ctx \<Rightarrow> path_ctx option" where
  "swdec_drain env p =
     (case rtw_alloc_recvframe UC_SWDEC_PENDING_QUEUE (rx_pool (pc_rx p)) of
        (None, rp) \<Rightarrow> Some p
      | (Some f, rp) \<Rightarrow>
          (case recv_func_posthandle env f (pc_set_pool rp p) of
             None \<Rightarrow> None
           | Some (r, p) \<Rightarrow> swdec_drain env p))"
  by pat_completeness auto
termination
proof (relation "measure (\<lambda>(env, p). rp_wait (rx_pool (pc_rx p)))", simp, goal_cases)
  case (1 env p x rp f z r p')
  have a: "rtw_alloc_recvframe UC_SWDEC_PENDING_QUEUE (rx_pool (pc_rx p)) = (Some f, rp)" using 1 by simp
  have "rp_wait rp < rp_wait (rx_pool (pc_rx p))"
    using a by (auto simp: rtw_alloc_recvframe_def Let_def split: list.splits)
  moreover obtain ev c where "posthandle_rx env f (pc_rx (pc_set_pool rp p)) = Some (r, ev, c)" "pc_rx p' = c"
    using 1 unfolding recv_func_posthandle_def bind_Some by (auto simp: upd_rx_def)
  ultimately show ?case using posthandle_wait [of env f "pc_rx (pc_set_pool rp p)" r ev c] by (simp add: waits_in_def)
qed
declare swdec_drain.simps [simp del]

section \<open>The receive function\<close>

definition WIFI_MONITOR_STATE :: u32 where "WIFI_MONITOR_STATE = 0x80000000"
definition Ndis802_11AuthModeWPAPSK :: u32 where "Ndis802_11AuthModeWPAPSK = 4"
definition NR_RECVFRAME :: u32 where "NR_RECVFRAME = 256"

text \<open>A unicast frame that has to wait for the key: it is encrypted, in WPA-PSK, and no key is installed.\<close>

definition waits_for_key :: "path_env \<Rightarrow> recv_frame \<Rightarrow> security_priv \<Rightarrow> bool" where
  "waits_for_key env f sec \<longleftrightarrow> check_fwstate (pe_val env) WIFI_STATION_STATE \<and> \<not> IS_MCAST (pa_ra (fr_attrib f))
     \<and> pa_encrypt (fr_attrib f) > 0 \<and> (\<not> pa_bdecrypted (fr_attrib f) \<or> sw_decrypt sec)
     \<and> ndisauthtype sec = Ndis802_11AuthModeWPAPSK \<and> \<not> busetkipkey sec"

definition recv_func_main :: "path_env \<Rightarrow> recv_frame \<Rightarrow> path_ctx \<Rightarrow> (ret \<times> path_ctx) option" where
  "recv_func_main env f p = do {
     (ret, f, v) \<leftarrow> recv_func_prehandle env f (pc_val p);
     let p = p\<lparr>pc_val := v\<rparr>;
     if ret \<noteq> RET_SUCCESS then Some (ret, p)
     else if waits_for_key env f (rx_sec (pc_rx p)) then
       (let p = pc_set_pool (rtw_enqueue_recvframe UC_SWDEC_PENDING_QUEUE f (rx_pool (pc_rx p))) p in
        if free_recvframe_cnt (rx_pool (pc_rx p)) < NR_RECVFRAME div 4 then
          (case rtw_alloc_recvframe UC_SWDEC_PENDING_QUEUE (rx_pool (pc_rx p)) of
             (None, rp) \<Rightarrow> Some (ret, p)
           | (Some g, rp) \<Rightarrow> recv_func_posthandle env g (pc_set_pool rp p))
        else Some (ret, p))
     else recv_func_posthandle env f p
   }"

definition recv_func :: "path_env \<Rightarrow> recv_frame \<Rightarrow> path_ctx \<Rightarrow> (ret \<times> path_ctx) option" where
  "recv_func env f p =
     (if check_fwstate (pe_val env) WIFI_MONITOR_STATE
      then Some (RET_SUCCESS, pc_set_pool (rtw_free_recvframe f (rx_pool (pc_rx p))) p)
      else do {
        p \<leftarrow> (if check_fwstate (pe_val env) WIFI_STATION_STATE \<and> busetkipkey (rx_sec (pc_rx p)) then swdec_drain env p else Some p);
        recv_func_main env f p
      })"

definition rtw_recv_entry :: "path_env \<Rightarrow> recv_frame \<Rightarrow> path_ctx \<Rightarrow> (ret \<times> path_ctx) option" where
  "rtw_recv_entry env f p = recv_func env f p"

end
