(* ===== verification/Recv_Path_Inv.thy ===== *)
theory Recv_Path_Inv
  imports Recv_Path
begin

unbundle bit_operations_syntax

text \<open>
  Where a received frame ends. Every stage of the receive path owns one frame besides the free pool,
  the queue of frames that wait for a key, the fragment queues and the reorder windows; the locale
  \<open>rx_stage\<close> states the contract of a stage, and decryption, reassembly and port control are its
  instances. From these, and from what admission and the handlers of management and control frames
  leave alone, follows that the receive function neither loses nor doubles a frame, except with the
  last fragment of a frame. At the end: what a station hands up of an admitted frame.
\<close>

section \<open>Where the frames are\<close>

definition sta_pend_ids :: "sta_info \<Rightarrow> nat list" where
  "sta_pend_ids s = concat (map (\<lambda>rc. map fr_id (pending_recvframe_queue rc)) (si_recvreorder_ctrl s))"

definition reorder_ids :: "sta_info list \<Rightarrow> nat list" where
  "reorder_ids ss = concat (map sta_pend_ids ss)"

definition all_ids :: "rx_ctx \<Rightarrow> nat list" where
  "all_ids c = rx_ids c @ reorder_ids (rx_stas c)"

text \<open>A buffer with room for the longest header and the packet number behind it, as the driver allocates.\<close>

definition frame_room :: "recv_frame \<Rightarrow> bool" where
  "frame_room f \<longleftrightarrow> frame_wf f \<and> pa_hdrlen (fr_attrib f) \<le> 48 \<and> rx_data f + 64 \<le> int (length (rx_mem f))"

definition path_ok :: "rx_ctx \<Rightarrow> bool" where
  "path_ok c \<longleftrightarrow> sta_inv (ad_stapriv (rx_ad c)) \<and> (\<forall>s\<in>set (rx_stas c). \<forall>f\<in>set (si_defrag_q s). frag_readable f)
     \<and> (\<forall>f\<in>set (uc_swdec_pending_queue (rx_pool c)). frame_room f)"

definition path_inv :: "rx_ctx \<Rightarrow> bool" where
  "path_inv c \<longleftrightarrow> path_ok c \<and> distinct (all_ids c)"

text \<open>What of the adapter decides where the frames are.\<close>

definition rx_view :: "adapter \<Rightarrow> (recv_frame list \<times> recv_frame list) \<times> (nat list list \<times> nat list \<times> int) \<times>
    (bytes \<times> recv_frame list \<times> recv_frame list list) list" where
  "rx_view ad = ((free_recv_queue (ad_recvpriv ad), uc_swdec_pending_queue (ad_recvpriv ad)),
     (sta_hash (ad_stapriv ad), free_sta_queue (ad_stapriv ad), asoc_sta_count (ad_stapriv ad)),
     map (\<lambda>s. (si_mac_addr s, si_defrag_q s, map pending_recvframe_queue (si_recvreorder_ctrl s))) (pstainfo_buf (ad_stapriv ad)))"

lemma rx_view_stas:
  assumes "rx_view ad = rx_view ad'"
  shows "length (pstainfo_buf (ad_stapriv ad)) = length (pstainfo_buf (ad_stapriv ad'))"
    "map si_mac_addr (pstainfo_buf (ad_stapriv ad)) = map si_mac_addr (pstainfo_buf (ad_stapriv ad'))"
    "map si_defrag_q (pstainfo_buf (ad_stapriv ad)) = map si_defrag_q (pstainfo_buf (ad_stapriv ad'))"
    "map (\<lambda>s. map pending_recvframe_queue (si_recvreorder_ctrl s)) (pstainfo_buf (ad_stapriv ad))
     = map (\<lambda>s. map pending_recvframe_queue (si_recvreorder_ctrl s)) (pstainfo_buf (ad_stapriv ad'))"
proof -
  have e: "map (\<lambda>s. (si_mac_addr s, si_defrag_q s, map pending_recvframe_queue (si_recvreorder_ctrl s))) (pstainfo_buf (ad_stapriv ad))
     = map (\<lambda>s. (si_mac_addr s, si_defrag_q s, map pending_recvframe_queue (si_recvreorder_ctrl s))) (pstainfo_buf (ad_stapriv ad'))"
    using assms by (simp add: rx_view_def)
  show "length (pstainfo_buf (ad_stapriv ad)) = length (pstainfo_buf (ad_stapriv ad'))" using map_eq_imp_length_eq [OF e] .
  from arg_cong [OF e, of "map fst"] show "map si_mac_addr (pstainfo_buf (ad_stapriv ad)) = map si_mac_addr (pstainfo_buf (ad_stapriv ad'))"
    by (simp add: comp_def)
  from arg_cong [OF e, of "map (\<lambda>x. fst (snd x))"] show "map si_defrag_q (pstainfo_buf (ad_stapriv ad)) = map si_defrag_q (pstainfo_buf (ad_stapriv ad'))"
    by (simp add: comp_def)
  from arg_cong [OF e, of "map (\<lambda>x. snd (snd x))"]
  show "map (\<lambda>s. map pending_recvframe_queue (si_recvreorder_ctrl s)) (pstainfo_buf (ad_stapriv ad))
     = map (\<lambda>s. map pending_recvframe_queue (si_recvreorder_ctrl s)) (pstainfo_buf (ad_stapriv ad'))"
    by (simp add: comp_def)
qed

text \<open>The station table's invariant depends on the table and on the addresses only.\<close>

lemma sta_inv_same:
  assumes inv: "sta_inv sp" and h: "sta_hash sp' = sta_hash sp" "free_sta_queue sp' = free_sta_queue sp" "asoc_sta_count sp' = asoc_sta_count sp"
    and mac: "map si_mac_addr (pstainfo_buf sp') = map si_mac_addr (pstainfo_buf sp)"
  shows "sta_inv sp'"
proof -
  have len: "length (pstainfo_buf sp') = length (pstainfo_buf sp)" using map_eq_imp_length_eq [OF mac] .
  have l: "length (pstainfo_buf sp) = NUM_STA" using inv by (simp add: sta_inv_def)
  have live: "sta_live sp' = sta_live sp" by (simp add: sta_live_def h)
  have m: "sta_mac sp' i = sta_mac sp i" if "i < NUM_STA" for i using mac len that l by (metis nth_map)
  have b: "i < NUM_STA" if "i \<in> set (sta_live sp)" for i using inv that by (auto simp: sta_inv_def)
  have b2: "i < NUM_STA" if "k < NUM_STA" "i \<in> set (sta_hash sp ! k)" for i k
    using that inv by (intro b) (auto simp: sta_inv_def sta_live_def)
  have i: "inj_on (sta_mac sp') (set (sta_live sp))" using inv b m by (auto simp: sta_inv_def inj_on_def)
  show ?thesis using inv i b m b2 len unfolding sta_inv_def h live by auto
qed

lemma rx_view_sta_inv:
  assumes "rx_view ad = rx_view ad'"
  shows "sta_inv (ad_stapriv ad) = sta_inv (ad_stapriv ad')"
  using assms rx_view_stas(2) [OF assms] sta_inv_same [of "ad_stapriv ad" "ad_stapriv ad'"] sta_inv_same [of "ad_stapriv ad'" "ad_stapriv ad"]
  by (auto simp: rx_view_def)

lemma rx_view_ids:
  assumes "rx_view (rx_ad c) = rx_view (rx_ad d)"
  shows "all_ids c = all_ids d" "path_ok c = path_ok d" "path_inv c = path_inv d"
proof -
  note s = rx_view_stas [OF assms]
  have "queued_ids (rx_stas c) = queued_ids (rx_stas d)"
    using arg_cong [OF s(3), of "\<lambda>x. concat (map (map fr_id) x)"] by (simp add: queued_ids_def comp_def)
  moreover have "reorder_ids (rx_stas c) = reorder_ids (rx_stas d)"
    using arg_cong [OF s(4), of "\<lambda>x. concat (map (\<lambda>y. concat (map (map fr_id) y)) x)"] by (simp add: reorder_ids_def sta_pend_ids_def [abs_def] comp_def)
  ultimately show ids: "all_ids c = all_ids d" using assms by (simp add: all_ids_def rx_ids_def pool_ids_def rx_view_def)
  have "(\<Union>s\<in>set (rx_stas c). set (si_defrag_q s)) = (\<Union>s\<in>set (rx_stas d). set (si_defrag_q s))"
    using arg_cong [OF s(3), of "\<lambda>x. \<Union> (set ` set x)"] by simp
  then have "(\<forall>s\<in>set (rx_stas c). \<forall>f\<in>set (si_defrag_q s). frag_readable f) \<longleftrightarrow> (\<forall>s\<in>set (rx_stas d). \<forall>f\<in>set (si_defrag_q s). frag_readable f)"
    by (metis (no_types, lifting) UN_iff)
  then show "path_ok c = path_ok d" using rx_view_sta_inv [OF assms] assms by (simp add: path_ok_def rx_view_def)
  then show "path_inv c = path_inv d" using ids by (simp add: path_inv_def)
qed

lemma rx_view_simps [simp]:
  "rx_view (rx_ad (drop_count c)) = rx_view (rx_ad c)"
  "rx_view (ad_note_add n ad) = rx_view ad" "rx_view (upd_tim h ad) = rx_view ad" "rx_view (upd_dz h ad) = rx_view ad"
  "rx_view (ad\<lparr>ad_xmitpriv := x\<rparr>) = rx_view ad"
  by (simp_all add: rx_view_def drop_count_def set_pool_def ad_note_add_def upd_tim_def upd_dz_def)

lemma map_upd_same: "g y = g (xs ! i) \<Longrightarrow> map g (xs[i := y]) = map g xs"
  by (metis list_update_beyond list_update_id map_update not_less nth_map)

lemma rx_view_upd_sta:
  assumes "\<And>s. si_mac_addr (g s) = si_mac_addr s" "\<And>s. si_defrag_q (g s) = si_defrag_q s"
    "\<And>s. map pending_recvframe_queue (si_recvreorder_ctrl (g s)) = map pending_recvframe_queue (si_recvreorder_ctrl s)"
  shows "rx_view (upd_sta i g ad) = rx_view ad"
  by (simp add: rx_view_def upd_sta_def sta_of_def) (rule map_upd_same, simp add: assms)

lemma rx_view_set_sta:
  assumes "si_mac_addr s = si_mac_addr (rx_sta c i)" "si_defrag_q s = si_defrag_q (rx_sta c i)"
    "map pending_recvframe_queue (si_recvreorder_ctrl s) = map pending_recvframe_queue (si_recvreorder_ctrl (rx_sta c i))"
  shows "rx_view (rx_ad (set_sta i s c)) = rx_view (rx_ad c)"
  by (simp add: rx_view_def set_sta_def) (rule map_upd_same, use assms in \<open>simp add: rx_sta_def\<close>)

lemma room_readable: "frame_room f \<Longrightarrow> frag_readable f"
  by (auto simp: frame_room_def frag_readable_def frame_wf_def frame_pn_def frame_ccmph_def frame_rd_def word_le_def)

lemma room_dec: "dec_same f g \<Longrightarrow> frame_room f \<Longrightarrow> frame_room g"
  by (frule dec_same_sel, auto simp: frame_room_def frame_wf_def dec_same_sel)

section \<open>Freeing\<close>

lemma free_frame_all:
  assumes "path_ok c" "fr_id f \<notin> set (all_ids c)"
  shows "path_ok (free_frame f c)" "mset (all_ids (free_frame f c)) = add_mset (fr_id f) (mset (all_ids c))"
proof -
  have "fr_id f \<notin> fr_id ` set (free_recv_queue (rx_pool c) @ uc_swdec_pending_queue (rx_pool c))"
    using assms(2) by (auto simp: all_ids_def rx_ids_def pool_ids_def)
  note fr = free_recvframe_pool [OF this]
  show "path_ok (free_frame f c)" using assms(1) by (simp add: path_ok_def free_frame_def fr)
  show "mset (all_ids (free_frame f c)) = add_mset (fr_id f) (mset (all_ids c))"
    by (simp add: all_ids_def rx_ids_def pool_ids_def free_frame_def fr)
qed

lemma unlink_ids: "map fr_id (list_unlink k q) = filter (\<lambda>i. i \<noteq> k) (map fr_id q)"
  by (simp add: list_unlink_def filter_map comp_def)

lemma sta_unlink_ids:
  "map fr_id (si_defrag_q (sta_unlink_frame k s)) = filter (\<lambda>i. i \<noteq> k) (map fr_id (si_defrag_q s))"
  "sta_pend_ids (sta_unlink_frame k s) = filter (\<lambda>i. i \<noteq> k) (sta_pend_ids s)"
  by (simp_all add: sta_unlink_frame_def unlink_ids sta_pend_ids_def filter_concat comp_def)

lemma sta_unlink_table:
  "sta_inv sp \<Longrightarrow> sta_inv (sp\<lparr>pstainfo_buf := map (sta_unlink_frame k) (pstainfo_buf sp)\<rparr>)"
  by (erule sta_inv_same) (simp_all add: sta_unlink_frame_def)

lemma add_filter_mset: "distinct xs \<Longrightarrow> k \<in> set xs \<Longrightarrow> add_mset k (filter_mset (\<lambda>i. i \<noteq> k) (mset xs)) = mset xs"
  by (auto simp: multiset_eq_iff distinct_count_atmost_1)

lemma free_linked_all:
  assumes "path_inv c"
  shows "path_ok (free_linked f c)"
    "mset (all_ids (free_linked f c)) = (if fr_id f \<in> set (all_ids c) then mset (all_ids c) else add_mset (fr_id f) (mset (all_ids c)))"
proof -
  let ?k = "fr_id f"
  define d where "d = c\<lparr>rx_ad := (rx_ad c)\<lparr>ad_stapriv := (ad_stapriv (rx_ad c))\<lparr>pstainfo_buf := map (sta_unlink_frame ?k) (rx_stas c)\<rparr>\<rparr>\<rparr>"
  have d: "rx_pool d = rx_pool c" "rx_stas d = map (sta_unlink_frame ?k) (rx_stas c)" by (simp_all add: d_def)
  have fl: "free_linked f c = free_frame f d" by (simp add: free_linked_def d_def)
  have q: "queued_ids (rx_stas d) = filter (\<lambda>i. i \<noteq> ?k) (queued_ids (rx_stas c))"
    by (simp add: d queued_ids_def sta_unlink_ids filter_concat comp_def)
  have r: "reorder_ids (rx_stas d) = filter (\<lambda>i. i \<noteq> ?k) (reorder_ids (rx_stas c))"
    by (simp add: d reorder_ids_def sta_unlink_ids filter_concat comp_def)
  have p: "mset (pool_ids (rtw_free_recvframe f rp)) = add_mset ?k (filter_mset (\<lambda>i. i \<noteq> ?k) (mset (pool_ids rp)))" for rp
    by (simp add: pool_ids_def rtw_free_recvframe_def rp_unlink_def Let_def unlink_ids)
  have m: "mset (all_ids (free_linked f c)) = add_mset ?k (filter_mset (\<lambda>i. i \<noteq> ?k) (mset (all_ids c)))"
    unfolding fl all_ids_def rx_ids_def free_frame_def by (simp add: p d(1) q [unfolded d] r [unfolded d] d(2))
  show "mset (all_ids (free_linked f c)) = (if ?k \<in> set (all_ids c) then mset (all_ids c) else add_mset ?k (mset (all_ids c)))"
  proof (cases "?k \<in> set (all_ids c)")
    case True
    then show ?thesis using m add_filter_mset [of "all_ids c" ?k] assms by (simp add: path_inv_def)
  next
    case False
    then have "filter (\<lambda>i. i \<noteq> ?k) (all_ids c) = all_ids c" by (auto simp: filter_id_conv)
    then show ?thesis using m False by (metis mset_filter)
  qed
  have "sta_inv (ad_stapriv (rx_ad d))"
    using assms sta_unlink_table [of "ad_stapriv (rx_ad c)" ?k] by (simp add: d_def path_inv_def path_ok_def)
  moreover have "\<forall>s\<in>set (rx_stas d). \<forall>g\<in>set (si_defrag_q s). frag_readable g"
    using assms by (auto simp: d sta_unlink_frame_def list_unlink_def path_inv_def path_ok_def)
  moreover have "\<forall>g\<in>set (uc_swdec_pending_queue (rtw_free_recvframe f (rx_pool d))). frame_room g"
    using assms by (auto simp: d rtw_free_recvframe_def rp_unlink_def list_unlink_def path_inv_def path_ok_def Let_def)
  ultimately show "path_ok (free_linked f c)" by (simp add: fl free_frame_def path_ok_def)
qed

section \<open>Decryption, reassembly and port control\<close>

text \<open>
  A stage of the receive path has a frame of its own in its hands. It passes on one frame or none,
  and between that frame and the queues nothing is lost, doubled or added.
\<close>

definition owns :: "recv_frame \<Rightarrow> rx_ctx \<Rightarrow> bool" where
  "owns f c \<longleftrightarrow> path_inv c \<and> fr_id f \<notin> set (all_ids c)"

abbreviation owned :: "recv_frame \<Rightarrow> rx_ctx \<Rightarrow> nat multiset" where
  "owned f c \<equiv> add_mset (fr_id f) (mset (all_ids c))"

lemma distinct_subset_mset: "mset xs \<subseteq># mset ys \<Longrightarrow> distinct ys \<Longrightarrow> distinct xs"
proof -
  assume "mset xs \<subseteq># mset ys" "distinct ys"
  then obtain zs where "mset ys = mset (xs @ zs)" by (metis ex_mset mset_append mset_subset_eq_exists_conv)
  then show "distinct xs" using \<open>distinct ys\<close> mset_eq_imp_distinct_iff [of ys "xs @ zs"] by simp
qed

lemma path_invI: "path_ok c' \<Longrightarrow> mset (all_ids c') = mset xs \<Longrightarrow> distinct xs \<Longrightarrow> path_inv c'"
  unfolding path_inv_def using mset_eq_imp_distinct_iff by blast

lemma dis_owned: "owns f c \<Longrightarrow> distinct (fr_id f # all_ids c)"
  by (simp add: owns_def path_inv_def)

locale rx_stage =
  fixes stage :: "recv_frame \<Rightarrow> rx_ctx \<Rightarrow> (recv_frame option \<times> rx_ctx) option"
    and fits :: "recv_frame \<Rightarrow> bool"
  assumes ok: "stage f c = Some (r, c') \<Longrightarrow> owns f c \<Longrightarrow> fits f \<Longrightarrow> path_ok c'"
    and keeps: "stage f c = Some (r, c') \<Longrightarrow> owns f c \<Longrightarrow> fits f \<Longrightarrow> mset (all_ids c') + ret_ids r = owned f c"
begin

lemma stopped:
  assumes "stage f c = Some (None, c')" "owns f c" "fits f"
  shows "path_inv c' \<and> mset (all_ids c') = owned f c"
  using path_invI [OF ok [OF assms], of "fr_id f # all_ids c"] keeps [OF assms] dis_owned [OF assms(2)] by (simp add: ret_ids_def)

lemma passed:
  assumes "stage f c = Some (Some g, c')" "owns f c" "fits f"
  shows "owns g c'" "owned g c' = owned f c"
proof -
  show e: "owned g c' = owned f c" using keeps [OF assms] by (simp add: ret_ids_def)
  show "owns g c'"
    using ok [OF assms] mset_eq_imp_distinct_iff [of "fr_id g # all_ids c'" "fr_id f # all_ids c"] e dis_owned [OF assms(2)]
    by (simp add: owns_def path_inv_def)
qed

end

lemma decryptor_same: "decryptor env f c = Some (Some g, c') \<Longrightarrow> dec_same f g"
  by (erule decryptor_cases) auto

interpretation dec: rx_stage "decryptor env" "\<lambda>_. True"
proof (unfold_locales, goal_cases)
  case (1 f c r c')
  obtain h d where h: "rx_ad d = rx_ad c" "dec_same f h" "r = None \<and> c' = free_frame h d \<or> r = Some h \<and> c' = d" using decryptor_cases [OF 1(1)] .
  then show ?case using rx_view_ids [of d c] free_frame_all [of d h] dec_same_sel(1) [OF h(2)] 1(2) by (auto simp: owns_def path_inv_def)
next
  case (2 f c r c')
  obtain h d where h: "rx_ad d = rx_ad c" "dec_same f h" "r = None \<and> c' = free_frame h d \<or> r = Some h \<and> c' = d" using decryptor_cases [OF 2(1)] .
  then show ?case using rx_view_ids [of d c] free_frame_all [of d h] dec_same_sel(1) [OF h(2)] 2(2) by (auto simp: owns_def path_inv_def ret_ids_def)
qed

lemma chk_defrag_reorder:
  assumes "recvframe_chk_defrag hz now f c = Some (r, c')"
  shows "reorder_ids (rx_stas c') = reorder_ids (rx_stas c)"
proof -
  have 1: "rx_stas d' = rx_stas d" if "chk_defrag_end hz now x d = Some (y, d')" for x y d d'
    using that by (auto simp: chk_defrag_end_def free_frame_def split: option.splits if_splits prod.splits ret.splits dest!: chkmic_keeps(1))
  have 2: "reorder_ids ((rx_stas c)[i := (rx_sta c i)\<lparr>si_defrag_q := q\<rparr>]) = reorder_ids (rx_stas c)" for i q
    unfolding reorder_ids_def by (subst map_upd_same) (simp_all add: sta_pend_ids_def rx_sta_def)
  show ?thesis
    using assms unfolding recvframe_chk_defrag_def Let_def
    by (auto split: option.splits if_splits prod.splits simp: free_frame_def 2 dest!: 1)
      (use 2 in \<open>simp_all add: rx_sta_def\<close>)
qed

lemma chk_defrag_id:
  assumes "recvframe_chk_defrag hz now f c = Some (Some g, c')" "pa_mfrag (fr_attrib f) \<or> pa_frag_num (fr_attrib f) = 0"
  shows "fr_id g = fr_id f"
  using assms unfolding recvframe_chk_defrag_def Let_def chk_defrag_end_def
  by (auto split: option.splits if_splits prod.splits ret.splits dest!: chkmic_keeps(2))

interpretation frag: rx_stage "recvframe_chk_defrag hz now" frame_room
proof -
  have cons: "defrag_inv c' \<and> mset (rx_ids c') + ret_ids r = add_mset (fr_id f) (mset (rx_ids c))"
    if "recvframe_chk_defrag hz now f c = Some (r, c')" "owns f c" "frame_room f" for f c r c'
  proof -
    have "defrag_inv c" "distinct (fr_id f # rx_ids c)"
      using that(2) by (auto simp: owns_def path_inv_def path_ok_def defrag_inv_def all_ids_def)
    from chk_defrag_conserves [OF this(1) room_readable [OF that(3)] this(2) that(1)] show ?thesis by (simp add: ret_ids_def split: option.splits)
  qed
  show "rx_stage (recvframe_chk_defrag hz now) frame_room"
  proof (unfold_locales, goal_cases)
    case (1 f c r c')
    then show ?case using cons [OF 1] chk_defrag_wait [OF 1(1)] by (auto simp: owns_def path_ok_def path_inv_def defrag_inv_def waits_in_def)
  next
    case (2 f c r c')
    then show ?case using cons [OF 2] chk_defrag_reorder [OF 2(1)] by (auto simp: all_ids_def ret_ids_def split: option.splits)
  qed
qed

interpretation port: rx_stage portctrl "\<lambda>_. True"
  using free_frame_all unfolding portctrl_def
  by unfold_locales (auto simp: owns_def path_inv_def ret_ids_def split: option.splits if_splits)

section \<open>The reorder window\<close>

lemma process_mpdu_pool:
  assumes "recv_process_mpdu env f rp = Some (r, ev, rp1)"
  shows "\<exists>rp3. recv_process_mpdu env f rp2 = Some (r, ev, rp3)"
  using assms unfolding recv_process_mpdu_def amsdu_to_msdu_def Let_def
  by (auto split: if_splits option.splits prod.splits ret.splits)

lemma mpdu_events_all:
  assumes "mpdu_events env c out = Some ev" "f \<in> set out"
  shows "\<exists>r ev rp'. recv_process_mpdu (mpdu_env env c f) f rp = Some (r, ev, rp')"
proof -
  have "\<forall>x\<in>set xs. x \<noteq> None" if "those xs = Some ys" for xs :: "msdu_event list option list" and ys
    using that by (induction xs arbitrary: ys) (auto split: option.splits)
  then have "recv_process_mpdu (mpdu_env env c f) f (rx_pool c) \<noteq> None" using assms by (fastforce simp: mpdu_events_def)
  then show ?thesis using process_mpdu_pool by fastforce
qed

definition rp_queues :: "recv_priv \<Rightarrow> recv_frame list \<times> recv_frame list" where
  "rp_queues rp = (free_recv_queue rp, uc_swdec_pending_queue rp)"

lemma rp_queues_ids: "rp_queues rp = rp_queues rp' \<Longrightarrow> pool_ids rp = pool_ids rp'"
  by (simp add: rp_queues_def pool_ids_def)

lemma pm_step_frees:
  assumes "\<exists>r ev rp'. recv_process_mpdu (mpdu_env env c f) f rp = Some (r, ev, rp')"
  shows "\<exists>g. fr_id g = fr_id f \<and> rp_queues (pm_step (mpdu_consume env c) f rp) = rp_queues (rtw_free_recvframe g rp)"
proof -
  obtain r ev rp' where e: "recv_process_mpdu (mpdu_env env c f) f rp = Some (r, ev, rp')" using assms by blast
  show ?thesis using recv_process_mpdu_frees [OF e] e by (auto simp: pm_step_def mpdu_consume_def rp_queues_def)
qed

lemma pm_fold_ids:
  assumes "\<forall>f\<in>set out. \<forall>rp. \<exists>r ev rp'. recv_process_mpdu (mpdu_env env c f) f rp = Some (r, ev, rp')"
    "distinct (map fr_id out @ pool_ids rp)"
  shows "mset (pool_ids (fold (pm_step (mpdu_consume env c)) out rp)) = mset (map fr_id out) + mset (pool_ids rp)"
  using assms
proof (induction out arbitrary: rp)
  case (Cons f out)
  let ?rp = "pm_step (mpdu_consume env c) f rp"
  obtain g where g: "fr_id g = fr_id f" "rp_queues ?rp = rp_queues (rtw_free_recvframe g rp)"
    using pm_step_frees Cons.prems(1) by (metis list.set_intros(1))
  have "fr_id g \<notin> fr_id ` set (free_recv_queue rp @ uc_swdec_pending_queue rp)"
    using Cons.prems(2) g(1) by (auto simp: pool_ids_def)
  then have p: "mset (pool_ids ?rp) = add_mset (fr_id f) (mset (pool_ids rp))"
    using g by (simp add: rp_queues_ids [OF g(2)] free_recvframe_pool) (simp add: pool_ids_def)
  have "distinct (map fr_id out @ pool_ids ?rp)"
    using Cons.prems(2) mset_eq_imp_distinct_iff [of "map fr_id out @ pool_ids ?rp" "map fr_id (f # out) @ pool_ids rp"] p by simp
  then show ?case using Cons.IH [of ?rp] Cons.prems(1) p by simp
qed simp

lemma scan_mset: "enqueue_scan f q = Some q' \<Longrightarrow> mset q' = add_mset f (mset q)"
  by (induction q arbitrary: q') (auto split: if_splits)

lemma reorder_passed:
  "recv_indicatepkt_reorder pm f orc rp = (RET_SUCCESS, orc', out, rp') \<Longrightarrow> orc' = orc \<and> out = [] \<and> rp' = rp"
  by (auto simp: recv_indicatepkt_reorder_def Let_def split: option.splits if_splits prod.splits)

lemma check_seq_queues:
  "check_indicate_seq rc s rp = (ok, rc', rp') \<Longrightarrow> pending_recvframe_queue rc' = pending_recvframe_queue rc \<and> rp_queues rp' = rp_queues rp"
  by (auto simp: check_indicate_seq_def Let_def rp_queues_def split: if_splits)

lemma reorder_refused:
  "recv_indicatepkt_reorder pm f orc rp = (RET_FAIL, orc', out, rp') \<Longrightarrow>
     \<exists>rc rc'. orc = Some rc \<and> orc' = Some rc' \<and> pending_recvframe_queue rc' = pending_recvframe_queue rc \<and> rp_queues rp' = rp_queues rp \<and> out = []"
  by (auto simp: recv_indicatepkt_reorder_def Let_def enqueue_reorder_recvframe_def rp_queues_def
      split: option.splits if_splits prod.splits dest!: check_seq_queues)

lemma reorder_taken:
  assumes "recv_indicatepkt_reorder pm f orc rp = (RET_RX_HANDLED, orc', out, rp')"
  obtains rc rc' rp1 where "orc = Some rc" "orc' = Some rc'" "rp_queues rp1 = rp_queues rp" "rp' = fold (pm_step pm) out rp1"
    "mset out + mset (pending_recvframe_queue rc') = add_mset f (mset (pending_recvframe_queue rc))"
proof -
  obtain rc where rc: "orc = Some rc" "pa_qos (fr_attrib f)" "rc_enable rc"
    using assms by (auto simp: recv_indicatepkt_reorder_def split: option.splits if_splits)
  define rc0 where "rc0 = (if rec_abba_rsp_ack rc then rc\<lparr>rec_abba_rsp_ack := False, indicate_seq := 0xFFFF\<rparr> else rc)"
  obtain ok rc1 rp1 where 1: "check_indicate_seq rc0 (seq_of f) rp = (ok, rc1, rp1)" by (metis prod_cases3)
  obtain queued rc2 where 2: "enqueue_reorder_recvframe rc1 f = (queued, rc2)" by fastforce
  obtain inbuf rc3 out3 rp3 where 3: "recv_indicatepkts_in_order pm rc2 False rp1 = (inbuf, rc3, out3, rp3)" by (metis prod_cases4)
  have r: "ok" "queued" "out = out3" "rp' = rp3" "\<exists>rc'. orc' = Some rc' \<and> pending_recvframe_queue rc' = pending_recvframe_queue rc3"
    using assms rc 1 2 3 by (auto simp: recv_indicatepkt_reorder_def rc0_def [symmetric] Let_def split: if_splits)
  have q: "mset (pending_recvframe_queue rc2) = add_mset f (mset (pending_recvframe_queue rc1))"
    using 2 r(2) scan_mset by (auto simp: enqueue_reorder_recvframe_def split: option.splits)
  obtain b i left where 4: "indicate_loop pm (indicate_seq rc2) (pending_recvframe_queue rc2) rp1 = (b, i, left, out, rp')"
    "pending_recvframe_queue rc3 = left"
    using 3 r(3,4) by (auto simp: recv_indicatepkts_in_order_def Let_def split: prod.splits)
  note f = indicate_loop_fold [OF 4(1)]
  have c: "pending_recvframe_queue rc1 = pending_recvframe_queue rc" "rp_queues rp1 = rp_queues rp"
    using check_seq_queues [OF 1] by (simp_all add: rc0_def)
  have "mset (out @ left) = add_mset f (mset (pending_recvframe_queue rc))" using f q c(1) by simp
  then show thesis using that rc(1) r(5) c(2) f 4(2) by auto
qed

lemma put_rc_all:
  assumes "get_rc c p = Some (Some rc)"
  shows "mset (all_ids (put_rc p (Some rc') c)) + mset (map fr_id (pending_recvframe_queue rc))
     = mset (all_ids c) + mset (map fr_id (pending_recvframe_queue rc'))"
    "path_ok c \<Longrightarrow> path_ok (put_rc p (Some rc') c)"
proof -
  obtain i t where p: "p = Some (i, t)" "i < length (rx_stas c)" "t < length (si_recvreorder_ctrl (rx_sta c i))" "rc = si_recvreorder_ctrl (rx_sta c i) ! t"
    using assms by (auto simp: get_rc_def idx_def split: option.splits if_splits)
  define s' where "s' = (rx_sta c i)\<lparr>si_recvreorder_ctrl := (si_recvreorder_ctrl (rx_sta c i))[t := rc']\<rparr>"
  define c' where "c' = set_sta i s' c"
  have c': "put_rc p (Some rc') c = c'" by (simp add: put_rc_def p(1) s'_def c'_def)
  have 1: "mset (sta_pend_ids s') + mset (map fr_id (pending_recvframe_queue rc)) = mset (sta_pend_ids (rx_sta c i)) + mset (map fr_id (pending_recvframe_queue rc'))"
    using mset_concat_update [OF p(3), of "\<lambda>rc. map fr_id (pending_recvframe_queue rc)" rc'] p(4) by (simp add: sta_pend_ids_def s'_def)
  have 2: "mset (reorder_ids ((rx_stas c)[i := s'])) + mset (sta_pend_ids (rx_sta c i)) = mset (reorder_ids (rx_stas c)) + mset (sta_pend_ids s')"
    using mset_concat_update [OF p(2), of sta_pend_ids s'] by (simp add: reorder_ids_def rx_sta_def)
  have 3: "queued_ids ((rx_stas c)[i := s']) = queued_ids (rx_stas c)"
    unfolding queued_ids_def by (subst map_upd_same) (simp_all add: s'_def rx_sta_def)
  have "mset (reorder_ids ((rx_stas c)[i := s'])) + mset (map fr_id (pending_recvframe_queue rc)) + mset (sta_pend_ids s')
    = mset (reorder_ids (rx_stas c)) + mset (map fr_id (pending_recvframe_queue rc')) + mset (sta_pend_ids s')"
    using 1 2 by (metis (no_types, lifting) add.assoc add.commute)
  then have "mset (reorder_ids ((rx_stas c)[i := s'])) + mset (map fr_id (pending_recvframe_queue rc))
    = mset (reorder_ids (rx_stas c)) + mset (map fr_id (pending_recvframe_queue rc'))" by simp
  then show "mset (all_ids (put_rc p (Some rc') c)) + mset (map fr_id (pending_recvframe_queue rc))
     = mset (all_ids c) + mset (map fr_id (pending_recvframe_queue rc'))"
    by (simp add: c' c'_def all_ids_def rx_ids_def 3)
  assume ok: "path_ok c"
  have "sta_inv (ad_stapriv (rx_ad c'))"
  proof (rule sta_inv_same)
    show "sta_inv (ad_stapriv (rx_ad c))" using ok by (simp add: path_ok_def)
    show "map si_mac_addr (rx_stas c') = map si_mac_addr (rx_stas c)"
      unfolding c'_def ctx_sel by (rule map_upd_same) (simp add: s'_def rx_sta_def)
  qed (simp_all add: c'_def set_sta_def)
  moreover have "si_defrag_q s' = si_defrag_q (rx_stas c ! i)" by (simp add: s'_def rx_sta_def)
  then have "\<forall>s\<in>set ((rx_stas c)[i := s']). \<forall>f\<in>set (si_defrag_q s). frag_readable f"
    using ok p(2) by (auto simp: path_ok_def in_set_conv_nth nth_list_update split: if_splits) (metis nth_mem)+
  ultimately show "path_ok (put_rc p (Some rc') c)" using ok unfolding c' by (simp add: path_ok_def c'_def)
qed

section \<open>Handling of an admitted frame\<close>

lemma set_pool_all:
  assumes "rp_queues rp = rp_queues (rx_pool c)"
  shows "rx_view (rx_ad (set_pool rp c)) = rx_view (rx_ad c)"
  using assms by (simp add: rx_view_def set_pool_def rp_queues_def)

lemma get_rc_pool [simp]: "get_rc (set_pool rp c) p = get_rc c p"
  by (simp add: get_rc_def set_pool_def rx_sta_def split: option.splits)

lemma seq_before_after:
  "map_option pending_recvframe_queue (recv_set_iseq_after_mpdu_process (recv_set_iseq_before_mpdu_process orc s)) = map_option pending_recvframe_queue orc"
  by (cases orc) (simp_all add: recv_set_iseq_after_mpdu_process_def recv_set_iseq_before_mpdu_process_def)

lemma put_rc_seq:
  assumes "get_rc c p = Some orc" "map_option pending_recvframe_queue orc' = map_option pending_recvframe_queue orc"
  shows "mset (all_ids (put_rc p orc' c)) = mset (all_ids c)" "path_ok c \<Longrightarrow> path_ok (put_rc p orc' c)"
proof -
  have "mset (all_ids (put_rc p orc' c)) = mset (all_ids c) \<and> (path_ok c \<longrightarrow> path_ok (put_rc p orc' c))"
  proof (cases orc)
    case None
    then show ?thesis using assms(2) by (simp add: put_rc_def split: option.splits)
  next
    case (Some rc)
    then obtain rc' where rc': "orc' = Some rc'" "pending_recvframe_queue rc' = pending_recvframe_queue rc" using assms(2) by auto
    then show ?thesis using put_rc_all [of c p rc rc'] assms(1) Some by simp
  qed
  then show "mset (all_ids (put_rc p orc' c)) = mset (all_ids c)" "path_ok c \<Longrightarrow> path_ok (put_rc p orc' c)" by simp_all
qed

lemma process_mpdu_all:
  assumes "recv_process_mpdu menv g (rx_pool c) = Some (r, ev, rp')" "path_ok c" "fr_id g \<notin> set (all_ids c)"
  shows "path_ok (set_pool rp' c)" "mset (all_ids (set_pool rp' c)) = add_mset (fr_id g) (mset (all_ids c))"
proof -
  obtain h where h: "fr_id h = fr_id g" "rp' = rtw_free_recvframe h (rx_pool c)" using recv_process_mpdu_frees [OF assms(1)] by blast
  then have "set_pool rp' c = free_frame h c" by (simp add: free_frame_def)
  then show "path_ok (set_pool rp' c)" "mset (all_ids (set_pool rp' c)) = add_mset (fr_id g) (mset (all_ids c))"
    using free_frame_all [OF assms(2), of h] assms(3) h(1) by simp_all
qed

lemma drop_count_all [simp]: "all_ids (drop_count c) = all_ids c" "path_ok (drop_count c) = path_ok c" "path_inv (drop_count c) = path_inv c"
  by (rule rx_view_ids, simp)+

text \<open>A frame the reorder window takes over, together with the frames that go up in order.\<close>

lemma reorder_taken_all:
  assumes r: "recv_indicatepkt_reorder (mpdu_consume env c) g orc (rx_pool c) = (RET_RX_HANDLED, orc', out, rp)"
    and rc: "get_rc c p = Some orc" and ev: "mpdu_events env c out = Some ev" and ok: "path_inv c" and g: "fr_id g \<notin> set (all_ids c)"
  shows "path_ok (put_rc p orc' (set_pool rp c))" "mset (all_ids (put_rc p orc' (set_pool rp c))) = add_mset (fr_id g) (mset (all_ids c))"
proof -
  obtain rc rc' rp1 where t: "orc = Some rc" "orc' = Some rc'" "rp_queues rp1 = rp_queues (rx_pool c)" "rp = fold (pm_step (mpdu_consume env c)) out rp1"
    "mset out + mset (pending_recvframe_queue rc') = add_mset g (mset (pending_recvframe_queue rc))"
    using reorder_taken [OF r] .
  have ids: "mset (map fr_id out) + mset (map fr_id (pending_recvframe_queue rc')) = add_mset (fr_id g) (mset (map fr_id (pending_recvframe_queue rc)))"
    using arg_cong [OF t(5), of "image_mset fr_id"] by simp
  let ?d = "put_rc p orc' c"
  have d: "mset (all_ids ?d) + mset (map fr_id out) = add_mset (fr_id g) (mset (all_ids c))"
  proof -
    have "mset (all_ids ?d) + mset (map fr_id (pending_recvframe_queue rc)) = mset (all_ids c) + mset (map fr_id (pending_recvframe_queue rc'))"
      using put_rc_all(1) [of c p rc rc'] rc t(1,2) by simp
    then have "mset (all_ids ?d) + mset (map fr_id out) + mset (map fr_id (pending_recvframe_queue rc))
      = add_mset (fr_id g) (mset (all_ids c)) + mset (map fr_id (pending_recvframe_queue rc))"
      using ids by (metis (no_types, lifting) add.assoc add.commute add_mset_add_single)
    then show ?thesis by simp
  qed
  have "distinct (map fr_id out @ all_ids ?d)"
    using mset_eq_imp_distinct_iff [of "map fr_id out @ all_ids ?d" "fr_id g # all_ids c"] d ok g by (simp add: path_inv_def union_commute)
  then have dis: "distinct (map fr_id out @ pool_ids rp1)"
    using rp_queues_ids [OF t(3)] by (auto simp: all_ids_def rx_ids_def)
  have "\<forall>f\<in>set out. \<forall>rp. \<exists>r ev rp'. recv_process_mpdu (mpdu_env env c f) f rp = Some (r, ev, rp')"
    using mpdu_events_all [OF ev] by blast
  from pm_fold_ids [OF this dis] have pool: "mset (pool_ids rp) = mset (map fr_id out) + mset (pool_ids (rx_pool c))"
    using t(4) rp_queues_ids [OF t(3)] by simp
  have e: "put_rc p orc' (set_pool rp c) = set_pool rp ?d"
    by (simp add: put_rc_def set_pool_def set_sta_def rx_sta_def split: option.splits)
  have "mset (all_ids (set_pool rp ?d)) = mset (map fr_id out) + mset (all_ids ?d)"
    by (simp add: all_ids_def rx_ids_def pool)
  then show "mset (all_ids (put_rc p orc' (set_pool rp c))) = add_mset (fr_id g) (mset (all_ids c))" using d e by (simp add: union_commute)
  have "path_ok ?d" using put_rc_all(2) [of c p rc rc'] rc t(1,2) ok by (simp add: path_inv_def)
  moreover have "set (uc_swdec_pending_queue rp) \<subseteq> set (uc_swdec_pending_queue (rx_pool c))"
    using reorder_wait [OF r] by (simp add: waits_in_def)
  ultimately show "path_ok (put_rc p orc' (set_pool rp c))" unfolding e by (auto simp: path_ok_def)
qed

lemma posthandle_reorder_all:
  assumes "posthandle_reorder env orig g c = Some (r, ev, c')" "path_inv c" "fr_id g \<notin> set (all_ids c)" "fr_id orig \<in> insert (fr_id g) (set (all_ids c))"
  shows "path_ok c'" "mset (all_ids c') = (if r = RET_FAIL \<and> fr_id g \<noteq> fr_id orig \<and> mset (all_ids c') = mset (all_ids c) then mset (all_ids c) else add_mset (fr_id g) (mset (all_ids c)))"
proof -
  have ok: "path_ok c" using assms(2) by (simp add: path_inv_def)
  have "path_ok c' \<and> (mset (all_ids c') = add_mset (fr_id g) (mset (all_ids c)) \<or> r = RET_FAIL \<and> fr_id g \<noteq> fr_id orig \<and> mset (all_ids c') = mset (all_ids c))"
    using assms(1)
  proof (cases rule: posthandle_reorder_cases)
    case (refused orc orc' out rp)
    have rc: "map_option pending_recvframe_queue orc' = map_option pending_recvframe_queue orc" "rp_queues rp = rp_queues (rx_pool c)"
      using reorder_refused [OF refused(2)] by auto
    let ?d = "put_rc (fr_preorder_ctrl g) orc' (set_pool rp c)"
    have v: "all_ids (set_pool rp c) = all_ids c" "path_ok (set_pool rp c) = path_ok c" using rx_view_ids [OF set_pool_all [OF rc(2)]] by simp_all
    have d: "mset (all_ids ?d) = mset (all_ids c)" "path_ok ?d" using put_rc_seq [of "set_pool rp c" _ orc orc'] refused(1) rc(1) v ok by simp_all
    have inv: "path_inv ?d" using path_invI [OF d(2,1)] assms(2) by (simp add: path_inv_def)
    have s: "set (all_ids ?d) = set (all_ids c)" using d(1) by (metis set_mset_mset)
    show ?thesis
    proof (cases "fr_id g = fr_id orig")
      case True
      then show ?thesis using refused(5) free_linked_all [OF inv, of g] assms(3) s d(1) by simp
    next
      case False
      then show ?thesis using refused(4,5) free_linked_all [OF inv, of orig] assms(4) s d(1) by simp
    qed
  next
    case (taken orc orc' out rp)
    then show ?thesis using reorder_taken_all [OF taken(2,1,3) assms(2,3)] by simp
  next
    case (passed orc orc' out rp rp')
    have e: "orc' = orc" "rp = rx_pool c" using reorder_passed [OF passed(2)] by simp_all
    note m = process_mpdu_all [OF passed(3) [unfolded e] ok assms(3)]
    let ?o = "recv_set_iseq_after_mpdu_process (recv_set_iseq_before_mpdu_process orc' (seq_of orig))"
    have "mset (all_ids (put_rc (fr_preorder_ctrl g) ?o (set_pool rp' c))) = mset (all_ids (set_pool rp' c))"
      "path_ok (put_rc (fr_preorder_ctrl g) ?o (set_pool rp' c))"
      using put_rc_seq [of "set_pool rp' c" "fr_preorder_ctrl g" orc ?o] passed(1) e(1) m(1) seq_before_after [of orc] by simp_all
    then show ?thesis using passed(4) m(2) by (simp split: if_splits)
  qed
  then show "path_ok c'" "mset (all_ids c') = (if r = RET_FAIL \<and> fr_id g \<noteq> fr_id orig \<and> mset (all_ids c') = mset (all_ids c) then mset (all_ids c) else add_mset (fr_id g) (mset (all_ids c)))"
    by auto
qed

text \<open>The last fragment of a frame: all earlier ones are with their station.\<close>

abbreviation last_frag :: "recv_frame \<Rightarrow> bool" where
  "last_frag f \<equiv> \<not> pa_mfrag (fr_attrib f) \<and> pa_frag_num (fr_attrib f) \<noteq> 0"

lemma posthandle_all:
  assumes "posthandle_rx env f c = Some (r, ev, c')" "path_inv c" "frame_room f" "fr_id f \<notin> set (all_ids c)"
  shows "path_inv c'" "mset (all_ids c') \<subseteq># add_mset (fr_id f) (mset (all_ids c))"
    "\<not> last_frag f \<Longrightarrow> mset (all_ids c') = add_mset (fr_id f) (mset (all_ids c))"
proof -
  have own: "owns f c" using assms(2,4) by (simp add: owns_def)
  have "path_inv c' \<and> mset (all_ids c') \<subseteq># owned f c \<and> (\<not> last_frag f \<longrightarrow> mset (all_ids c') = owned f c)"
    using assms(1)
  proof (cases rule: posthandle_rx_cases)
    case (1 c1)
    then show ?thesis using dec.stopped [OF 1(1) own] by simp
  next
    case (2 orig c1 c2)
    note d = dec.passed [OF 2(1) own TrueI]
    have room: "frame_room orig" using decryptor_same [OF 2(1)] room_dec assms(3) by blast
    show ?thesis using frag.stopped [OF 2(2) d(1) room] d(2) 2(5) by simp
  next
    case (3 orig c1 g c2 c3)
    note d = dec.passed [OF 3(1) own TrueI]
    have room: "frame_room orig" using decryptor_same [OF 3(1)] room_dec assms(3) by blast
    note e = frag.passed [OF 3(2) d(1) room]
    show ?thesis using port.stopped [OF 3(3) e(1)] d(2) e(2) 3(6) by simp
  next
    case (4 orig c1 g c2 h c3)
    note d = dec.passed [OF 4(1) own TrueI]
    have o: "dec_same f orig" using decryptor_same [OF 4(1)] .
    have room: "frame_room orig" using room_dec o assms(3) by blast
    note e = frag.passed [OF 4(2) d(1) room]
    note p = port.passed [OF 4(3) e(1) TrueI]
    have g: "h = g" using 4(3) by (auto simp: portctrl_def split: option.splits if_splits)
    have eq: "owned g c3 = owned f c" using p(2) e(2) d(2) g by simp
    have id: "fr_id orig = fr_id f" using dec_same_sel(1) [OF o] .
    have "fr_id f \<in># owned g c3" unfolding eq by simp
    then have "fr_id orig \<in> insert (fr_id g) (set (all_ids c3))" using id by simp
    note z = posthandle_reorder_all [OF 4(4) [unfolded g] _ _ this]
    have "fr_id g = fr_id orig" if "\<not> last_frag f" using chk_defrag_id [OF 4(2)] that o by (auto simp: dec_same_sel)
    moreover have "mset (all_ids c3) \<subseteq># owned g c3" by simp
    ultimately show ?thesis using z p(1) dis_owned [OF own] unfolding eq g owns_def path_inv_def
      by (auto split: if_splits intro: distinct_subset_mset [of _ "fr_id f # all_ids c"])
  qed
  then show "path_inv c'" "mset (all_ids c') \<subseteq># add_mset (fr_id f) (mset (all_ids c))"
    "\<not> last_frag f \<Longrightarrow> mset (all_ids c') = add_mset (fr_id f) (mset (all_ids c))"
    by simp_all
qed

section \<open>What leaves the frames where they are\<close>

lemma view_upd_sta [simp]:
  "rx_view (upd_sta i (sleepq_push f) ad) = rx_view ad" "rx_view (upd_sta i (sleepq_pop f) ad) = rx_view ad"
  "rx_view (upd_sta i (\<lambda>s. s\<lparr>si_state := g s\<rparr>) ad) = rx_view ad"
  "rx_view (upd_sta i (\<lambda>s. s\<lparr>si_sleepq_ac_len := h s\<rparr>) ad) = rx_view ad"
  "rx_view (upd_sta i (\<lambda>s. s\<lparr>si_sleepq_len := h s\<rparr>) ad) = rx_view ad"
  "rx_view (upd_sta i (\<lambda>s. (sleepq_pop f s)\<lparr>si_sleepq_ac_len := h s\<rparr>) ad) = rx_view ad"
  "rx_view (upd_sta i (\<lambda>s. (sleepq_push f s)\<lparr>si_sleepq_ac_len := h s\<rparr>) ad) = rx_view ad"
  by (simp_all add: rx_view_upd_sta sleepq_push_def sleepq_pop_def)

lemma view_xmit [simp]: "rx_view (servq_dec i ac ad) = rx_view ad" "rx_view (tx_pending_delete i ac ad) = rx_view ad"
  "rx_view (rtw_hal_xmitframe_enqueue f ad) = rx_view ad"
  by (simp_all add: servq_dec_def tx_pending_delete_def rtw_hal_xmitframe_enqueue_def Let_def split: prod.splits ret.splits)

lemma view_sleeping:
  assumes "xmitframe_enqueue_for_sleeping_sta f ad = (r, g, ad')"
  shows "rx_view ad' = rx_view ad"
  using assms unfolding xmitframe_enqueue_for_sleeping_sta_def Let_def by (auto split: if_splits option.splits)

lemma view_dequeue_loop: "dequeue_sleeping_loop i fs kept ad = (k, ad') \<Longrightarrow> rx_view ad' = rx_view ad"
proof (induction fs arbitrary: kept ad)
  case (Cons f fs)
  obtain r g ad1 where 1: "xmitframe_enqueue_for_sleeping_sta (f\<lparr>xf_triggered := False\<rparr>) ad = (r, g, ad1)" by (metis prod_cases3)
  then show ?case using Cons.prems Cons.IH view_sleeping [OF 1] by (cases r) (auto dest!: Cons.IH)
qed simp

lemma view_stop_queues [simp]: "rx_view (stop_sta_queues i ad) = rx_view ad"
proof -
  have 1: "rx_view (dequeue_xmitframes_to_sleeping_queue i ac a) = rx_view a" for ac a
    by (auto simp: dequeue_xmitframes_to_sleeping_queue_def Let_def dest: view_dequeue_loop split: prod.splits)
  show ?thesis by (simp add: stop_sta_queues_def 1)
qed

lemma view_stop [simp]: "rx_view (stop_sta_xmit i ad) = rx_view ad"
  by (simp add: stop_sta_xmit_def Let_def split: option.splits)

lemma view_fold:
  assumes "\<And>f ad. rx_view (g f ad) = rx_view ad"
  shows "rx_view (fold g fs ad) = rx_view ad"
  by (induction fs arbitrary: ad) (simp_all add: assms)

lemma view_wakeup [simp]: "rx_view (wakeup_sta_to_xmit i ad) = rx_view ad"
proof -
  have 1: "rx_view (fold (wakeup_one i) fs ad) = rx_view ad" "rx_view (fold (wakeup_bmc_one i) fs ad) = rx_view ad" for i fs ad
    by (rule view_fold, simp add: wakeup_one_def wakeup_bmc_one_def Let_def)+
  have 2: "rx_view (snd (wakeup_state i ad)) = rx_view ad" for i ad
    by (simp add: wakeup_state_def Let_def) (rule impI, rule trans [OF rx_view_upd_sta], simp_all)
  have 3: "rx_view (snd (wakeup_bmc b ad)) = rx_view ad" for b ad by (simp add: wakeup_bmc_def Let_def 1)
  define a1 where "a1 = fold (wakeup_one i) (si_sleep_q (sta_of ad i)) ad"
  obtain uc a2 where a2: "wakeup_state i a1 = (uc, a2)" by fastforce
  have "rx_view a1 = rx_view ad" unfolding a1_def by (rule 1)
  then have v: "rx_view a2 = rx_view ad" using 2 [of i a1] by (simp add: a2)
  show ?thesis
    using v 3 by (auto simp: wakeup_sta_to_xmit_def Let_def a1_def [symmetric] a2 split: option.splits prod.splits) (metis snd_conv)+
qed

lemma view_pwrbit [simp]: "rx_view (process_pwrbit_data b i ad) = rx_view ad"
  by (simp add: process_pwrbit_data_def)

lemma view_wmmps [simp]: "rx_view (process_wmmps_data pr i ad) = rx_view ad"
proof -
  have "rx_view (xmit_delivery_enabled_frames i ad) = rx_view ad" for i ad
    unfolding xmit_delivery_enabled_frames_def by (rule view_fold) (simp add: delivery_one_def Let_def)
  then show ?thesis by (simp add: process_wmmps_data_def Let_def)
qed

lemma view_pspoll [simp]: "rx_view (pspoll_hdl aid pr i ad) = rx_view ad"
proof -
  have 1: "rx_view (pspoll_frame i ad) = rx_view ad" for ad
    by (simp add: pspoll_frame_def Let_def split: list.splits)
  have 2: "rx_view (upd_sta i (\<lambda>s. if si_state s AND WIFI_STA_ALIVE_CHK_STATE \<noteq> 0
       then s\<lparr>si_expire_to := e, si_state := si_state s XOR WIFI_STA_ALIVE_CHK_STATE\<rparr> else s) ad) = rx_view ad" for e ad
    by (rule rx_view_upd_sta) simp_all
  show ?thesis by (simp add: pspoll_hdl_def Let_def 1 2)
qed

section \<open>Admission\<close>

lemma view_upd_ad [simp]: "rx_view (vc_ad (upd_ad g v)) = rx_view (g (vc_ad v))" "rx_view (vc_ad (issue_deauth a v)) = rx_view (vc_ad v)"
  by (simp_all add: upd_ad_def issue_deauth_def)

text \<open>The fields of a frame that decide where it goes: identity, buffer, fragment number.\<close>

definition same_frag :: "recv_frame \<Rightarrow> recv_frame \<Rightarrow> bool" where
  "same_frag f g \<longleftrightarrow> length (rx_mem g) = length (rx_mem f) \<and> rx_data g = rx_data f \<and> rx_tail g = rx_tail f \<and> fr_len g = fr_len f \<and> fr_id g = fr_id f
     \<and> pa_frag_num (fr_attrib g) = pa_frag_num (fr_attrib f) \<and> pa_mfrag (fr_attrib g) = pa_mfrag (fr_attrib f)"

lemma same_frag_refl [simp]: "same_frag f f"
  and same_frag_trans: "same_frag f g \<Longrightarrow> same_frag g h \<Longrightarrow> same_frag f h"
  by (auto simp: same_frag_def)

lemma same_frag_set [simp]: "same_frag f (set_ra_ta ra ta g) = same_frag f g" "same_frag f (set_dst_src d s b g) = same_frag f g"
  "same_frag f (upd_attrib (\<lambda>a. a\<lparr>pa_amsdu := x\<rparr>) g) = same_frag f g" "same_frag f (upd_attrib (\<lambda>a. a\<lparr>pa_qos := x\<rparr>) g) = same_frag f g"
  by (simp_all add: same_frag_def set_ra_ta_def set_dst_src_def upd_attrib_def)

lemma sta_hdr_frag:
  assumes "rtw_sta_rx_data_validate_hdr env f v = Some (r, psta, g, v')"
  shows "same_frag f g \<and> rx_view (vc_ad v') = rx_view (vc_ad v)"
proof -
  have 1: "same_frag h g \<and> rx_view (vc_ad v') = rx_view (vc_ad v)" if "sta_hdr_check env m h v = Some (r, psta, g, v')" for m h
    using that unfolding sta_hdr_check_def by (auto simp: bind_Some split: if_splits option.splits)
  have 2: "same_frag h k" if "sta_hdr_addrs h a1 a2 = Some (Some k)" for h k a1 a2
    using that unfolding sta_hdr_addrs_def by (auto simp: bind_Some split: if_splits)
  have 3: "same_frag f g \<and> rx_view (vc_ad v') = rx_view (vc_ad v)"
    if "sta_hdr_addrs (set_ra_ta a1 a2 f) a1 a2 = Some addrs" "(case addrs of None \<Rightarrow> Some (RET_RX_HANDLED, None, set_ra_ta a1 a2 f, v)
       | Some f \<Rightarrow> sta_hdr_check env m f v) = Some (r, psta, g, v')" for a1 a2 m addrs
  proof (cases addrs)
    case None
    then show ?thesis using that(2) by auto
  next
    case (Some h)
    have "same_frag f h" using 2 [of "set_ra_ta a1 a2 f" a1 a2 h] that(1) Some by (simp add: same_frag_def set_ra_ta_def upd_attrib_def)
    then show ?thesis using 1 [of m h] that(2) Some same_frag_trans by auto
  qed
  show ?thesis
    using assms unfolding rtw_sta_rx_data_validate_hdr_def by (auto simp: bind_Some Let_def split: if_splits dest!: 3) 
qed

lemma ap_hdr_frag:
  assumes "rtw_ap_rx_data_validate_hdr env f v = Some (r, psta, g, v')"
  shows "same_frag f g \<and> rx_view (vc_ad v') = rx_view (vc_ad v)"
  using assms unfolding rtw_ap_rx_data_validate_hdr_def
  by (auto simp: bind_Some Let_def split: if_splits option.splits)

lemma data_hdr_frag:
  assumes "validate_data_hdr env f v = Some (r, psta, g, v')"
  shows "same_frag f g \<and> rx_view (vc_ad v') = rx_view (vc_ad v)"
proof -
  consider "rtw_ap_rx_data_validate_hdr env f v = Some (r, psta, g, v')" | "rtw_sta_rx_data_validate_hdr env f v = Some (r, psta, g, v')"
    | "\<not> ad_mlme_ap (vc_ad v)" "\<not> check_fwstate env WIFI_STATION_STATE"
    using assms(1) by (auto simp: validate_data_hdr_def split: if_splits)
  then show ?thesis
  proof cases
    case 3
    then show ?thesis
      using assms unfolding validate_data_hdr_def
      by (auto simp: bind_Some Let_def mp_addrs_def sta2sta_data_frame_def ap2sta_data_frame_def
          sta2ap_data_frame_def split: if_splits option.splits)
  qed (use sta_hdr_frag ap_hdr_frag in blast)+
qed

lemma decache_view:
  assumes "recv_decache a s = (r, s')"
  shows "si_mac_addr s' = si_mac_addr s" "si_defrag_q s' = si_defrag_q s" "si_recvreorder_ctrl s' = si_recvreorder_ctrl s"
  using assms by (auto simp: recv_decache_def rxseq_set_def Let_def split: if_splits)

lemma ucast_pn_view:
  assumes "recv_ucast_pn_decache f s = Some (r, s')"
  shows "si_mac_addr s' = si_mac_addr s" "si_defrag_q s' = si_defrag_q s" "si_recvreorder_ctrl s' = si_recvreorder_ctrl s"
  using assms by (auto simp: recv_ucast_pn_decache_def Let_def split: if_splits option.splits)

lemma data_decache_frag:
  assumes "validate_data_decache env i f v = Some (r, g, v')"
  shows "same_frag f g \<and> pa_hdrlen (fr_attrib g) = pa_hdrlen (fr_attrib f) \<and> rx_view (vc_ad v') = rx_view (vc_ad v)"
proof -
  obtain r1 s1 where 1: "recv_decache (fr_attrib f) (rx_sta (vc_rx v) i) = (r1, s1)" by fastforce
  define c where "c = set_sta i s1 (vc_rx v)"
  have vc: "rx_view (rx_ad c) = rx_view (vc_ad v)" unfolding c_def by (rule rx_view_set_sta) (simp_all add: decache_view [OF 1])
  have 2: "rx_view (rx_ad (set_sta i s2 c)) = rx_view (vc_ad v)" if "recv_ucast_pn_decache h (rx_sta c i) = Some (r2, s2)" for h r2 s2
    using rx_view_set_sta [of s2 c i] ucast_pn_view [OF that] vc by simp
  note a = assms [unfolded validate_data_decache_def 1 Let_def prod.case c_def [symmetric]]
  show ?thesis
  proof (cases "r1 = RET_FAIL")
    case True
    then show ?thesis using a vc by auto
  next
    case False
    show ?thesis
    proof (cases "IS_MCAST (pa_ra (fr_attrib f))")
      case True
      then show ?thesis using a vc False by (auto simp: bind_Some)
    next
      case uc: False
      define h where "h = (if pa_qos (fr_attrib f) then f\<lparr>fr_preorder_ctrl := Some (i, unat (pa_priority (fr_attrib f)))\<rparr> else f)"
      have h: "same_frag f h" "fr_attrib h = fr_attrib f" by (simp_all add: h_def same_frag_def)
      have "Option.bind (recv_ucast_pn_decache h (rx_sta c i)) (\<lambda>(r, s). Some (r, h, v\<lparr>vc_rx := c\<rparr>\<lparr>vc_rx := set_sta i s c\<rparr>)) = Some (r, g, v')"
        using a False uc unfolding h_def [symmetric] by (simp split del: if_split)
      then obtain r2 s2 where u: "recv_ucast_pn_decache h (rx_sta c i) = Some (r2, s2)" "g = h" "vc_rx v' = set_sta i s2 c"
        unfolding bind_Some by auto
      then show ?thesis using h 2 [OF u(1)] by simp
    qed
  qed
qed

lemma data_qos_frag:
  assumes "validate_data_qos f k v = Some (g, v')" "k = 0 \<or> k = 6"
  shows "same_frag f g \<and> pa_hdrlen (fr_attrib g) \<le> 48 \<and> vc_rx v' = vc_rx v"
proof -
  define fin where "fin = upd_attrib (\<lambda>a. if pa_order a then a\<lparr>pa_hdrlen := pa_hdrlen a + 4\<rparr> else a)"
  have fin: "same_frag h (fin h)" "pa_hdrlen (fr_attrib (fin h)) \<in> {pa_hdrlen (fr_attrib h), pa_hdrlen (fr_attrib h) + 4}" for h
    by (simp_all add: fin_def same_frag_def upd_attrib_def)
  define f0 where "f0 = upd_attrib (\<lambda>a. a\<lparr>pa_ack_policy := 0\<rparr>) f"
  have f0: "same_frag f f0" by (simp add: f0_def same_frag_def upd_attrib_def)
  have "\<exists>f1. same_frag f0 f1 \<and> pa_hdrlen (fr_attrib f1) \<in> {26 + word_of_int k, 24 + word_of_int k} \<and> g = fin f1 \<and> vc_rx v' = vc_rx v"
  proof (cases "pa_qos (fr_attrib f0)")
    case True
    obtain qc where "g = fin (upd_attrib (\<lambda>a. a\<lparr>pa_priority := GetPriority qc, pa_ack_policy := GetAckpolicy qc,
        pa_hdrlen := 26 + word_of_int k\<rparr>) f0)" "vc_rx v' = vc_rx v"
      using assms(1) True unfolding validate_data_qos_def Let_def f0_def [symmetric] fin_def [symmetric] bind_Some by (auto simp: bind_Some)
    then show ?thesis by (intro exI conjI) (auto simp: same_frag_def upd_attrib_def)
  next
    case False
    have "g = fin (upd_attrib (\<lambda>a. a\<lparr>pa_priority := 0, pa_hdrlen := 24 + word_of_int k\<rparr>) f0)" "vc_rx v' = vc_rx v"
      using assms(1) False unfolding validate_data_qos_def Let_def f0_def [symmetric] fin_def [symmetric] by auto
    then show ?thesis by (intro exI conjI) (auto simp: same_frag_def upd_attrib_def)
  qed
  then obtain f1 where f1: "same_frag f0 f1" "pa_hdrlen (fr_attrib f1) \<in> {26 + word_of_int k, 24 + word_of_int k}" "g = fin f1" "vc_rx v' = vc_rx v"
    by blast
  have "pa_hdrlen (fr_attrib g) \<le> 48" using fin(2) [of f1] f1(2,3) assms(2) by auto
  then show ?thesis using f0 f1 fin(1) same_frag_trans by blast
qed

lemma data_cipher_frag: "same_frag f (validate_data_cipher i f v)" "pa_hdrlen (fr_attrib (validate_data_cipher i f v)) = pa_hdrlen (fr_attrib f)"
  by (auto simp: same_frag_def validate_data_cipher_def upd_attrib_def Let_def)

lemma validate_data_frag:
  assumes "validate_recv_data_frame env f v = Some (r, g, v')"
  shows "same_frag f g \<and> rx_view (vc_ad v') = rx_view (vc_ad v) \<and> (r = RET_SUCCESS \<longrightarrow> pa_hdrlen (fr_attrib g) \<le> 48)"
proof -
  define k :: int where "k = (if pa_to_fr_ds (fr_attrib f) = 3 then 6 else 0)"
  obtain am r1 psta f1 v1 where h: "validate_data_hdr env (upd_attrib (\<lambda>a. a\<lparr>pa_amsdu := am\<rparr>) f) v = Some (r1, psta, f1, v1)"
    and rest: "(if r1 \<noteq> RET_SUCCESS then Some (r1, f1, v1) else case psta of None \<Rightarrow> Some (RET_FAIL, f1, v1)
       | Some i \<Rightarrow> validate_data_sta env i k f1 v1) = Some (r, g, v')"
    using assms unfolding validate_recv_data_frame_def k_def [symmetric] Let_def bind_Some by auto
  have f1: "same_frag f f1" "rx_view (vc_ad v1) = rx_view (vc_ad v)"
    using data_hdr_frag [OF h] by (auto simp: same_frag_def upd_attrib_def)
  show ?thesis
  proof (cases "r1 = RET_SUCCESS \<and> psta \<noteq> None")
    case False
    then show ?thesis using rest f1 by (auto split: if_splits option.splits)
  next
    case True
    then obtain i where "validate_data_sta env i k f1 v1 = Some (r, g, v')" using rest by auto
    then consider "g = f1" "v' = v1" "r = RET_FAIL"
      | f2 v2 r3 f3 where "validate_data_qos (f1\<lparr>fr_psta := Some i, fr_preorder_ctrl := None\<rparr>) k v1 = Some (f2, v2)"
        "validate_data_decache env i f2 v2 = Some (r3, f3, v')" "g = f3 \<or> g = validate_data_cipher i f3 v'"
      unfolding validate_data_sta_def by (auto simp: bind_Some Let_def split: if_splits)
    then show ?thesis
    proof cases
      case 2
      have "same_frag f (f1\<lparr>fr_psta := Some i, fr_preorder_ctrl := None\<rparr>)" using f1(1) by (simp add: same_frag_def)
      moreover have q: "same_frag (f1\<lparr>fr_psta := Some i, fr_preorder_ctrl := None\<rparr>) f2" "pa_hdrlen (fr_attrib f2) \<le> 48" "vc_rx v2 = vc_rx v1"
        using data_qos_frag [OF 2(1)] by (auto simp: k_def)
      moreover note d = data_decache_frag [OF 2(2)]
      ultimately have "same_frag f f3" using same_frag_trans by blast
      then have "same_frag f g" using 2(3) data_cipher_frag(1) same_frag_trans by blast
      moreover have "pa_hdrlen (fr_attrib g) \<le> 48" using 2(3) q(2) d data_cipher_frag(2) by auto
      ultimately show ?thesis using d q(3) f1(2) by simp
    qed (use f1 in simp)
  qed
qed

section \<open>Management and control frames\<close>

lemma room_frag: "same_frag f g \<Longrightarrow> pa_hdrlen (fr_attrib g) \<le> 48 \<Longrightarrow> frame_room f \<Longrightarrow> frame_room g"
  by (auto simp: same_frag_def frame_room_def frame_wf_def)

lemma frag_dec: "dec_same f g \<Longrightarrow> same_frag f g"
  by (simp add: same_frag_def dec_same_sel)

lemma mgmt_attrib_frag: "same_frag f (mgmt_dec_attrib s a1 a2 f)" "pa_hdrlen (fr_attrib (mgmt_dec_attrib s a1 a2 f)) = 24"
  "same_frag f (mgmt_cut f)" "pa_hdrlen (fr_attrib (mgmt_cut f)) = pa_hdrlen (fr_attrib f)"
  by (simp_all add: mgmt_dec_attrib_def mgmt_cut_def same_frag_def upd_attrib_def Let_def split: prod.splits)

lemma mgmt_decrypt_all:
  assumes "mgmt_decrypt env i f v = Some (r, g, v')" "path_inv (vc_rx v)" "fr_id f \<notin> set (all_ids (vc_rx v))"
  shows "same_frag f g \<and> pa_hdrlen (fr_attrib g) = 24 \<and> path_ok (vc_rx v') \<and> (mset (all_ids (vc_rx v')) = mset (all_ids (vc_rx v))
    \<or> r = RET_FAIL \<and> mset (all_ids (vc_rx v')) = add_mset (fr_id f) (mset (all_ids (vc_rx v))))"
proof -
  obtain a1 a2 where a: "addr1 f = Some a1" "addr2 f = Some a2" using assms(1) unfolding mgmt_decrypt_def bind_Some by blast
  define h where "h = mgmt_dec_attrib (rx_sta (vc_rx v) i) a1 a2 f"
  have h: "same_frag f h" "pa_hdrlen (fr_attrib h) = 24" "fr_id h = fr_id f"
    unfolding h_def using mgmt_attrib_frag(1) [of f _ a1 a2] by (simp_all add: mgmt_attrib_frag same_frag_def)
  have ok: "path_ok (vc_rx v)" using assms(2) by (simp add: path_inv_def)
  note m = assms(1) [unfolded mgmt_decrypt_def a bind.bind_lunit Let_def h_def [symmetric]]
  show ?thesis
  proof (cases "pe_mgmt_mem env")
    case False
    then show ?thesis using m h ok by auto
  next
    case True
    obtain q c where d: "decryptor env h (vc_rx v) = Some (q, c)" using m True by (auto simp: bind_Some)
    have own: "owns h (vc_rx v)" using assms(2,3) h(3) by (simp add: owns_def)
    note da = dec.ok [OF d own TrueI] dec.keeps [OF d own TrueI, unfolded h(3)]
    show ?thesis
    proof (cases q)
      case None
      then have "g = mgmt_cut h" "v' = upd_rx c v" "r = RET_FAIL" using m True d by (auto simp: bind_Some split: if_splits)
      then show ?thesis using da(1,2) None mgmt_attrib_frag(3,4) [of h] h same_frag_trans by (auto simp: upd_rx_def ret_ids_def)
    next
      case (Some k)
      then obtain w g0 p where w: "frame_write k p w = Some g0" "g = mgmt_cut g0" "v' = upd_rx c v" using m True d by (auto simp: bind_Some)
      have s: "dec_same h k" using decryptor_same [OF d [unfolded Some]] .
      have k: "dec_same h g0" using s frame_write_dec [OF w(1)] dec_same_trans by blast
      have "same_frag f g" using h(1) frag_dec [OF k] mgmt_attrib_frag(3) [of g0] w(2) same_frag_trans by blast
      moreover have "pa_hdrlen (fr_attrib g) = 24" using w(2) mgmt_attrib_frag(4) dec_same_sel(8) [OF k] h(2) by simp
      moreover have "fr_id k = fr_id f" using dec_same_sel(1) [OF s] h(3) by simp
      ultimately show ?thesis using da(1,2) Some w(3) by (simp add: upd_rx_def ret_ids_def)
    qed
  qed
qed

lemma upd_rx_sel [simp]: "vc_rx (upd_rx c v) = c"
  by (simp add: upd_rx_def)

lemma bip_verify_view: "mgmt_bip_verify env f v = Some (r, v') \<Longrightarrow> rx_view (vc_ad v') = rx_view (vc_ad v)"
  unfolding mgmt_bip_verify_def Let_def bind_Some by (auto simp del: split_paired_Ex)

lemma mgmt_unprotected_view:
  assumes "mgmt_unprotected env st bmc i f v = Some (r, v')"
  shows "rx_view (vc_ad v') = rx_view (vc_ad v)"
proof -
  obtain cat where c: "(if st = WIFI_ACTION then map_option (\<lambda>b. b ! 0) (frame_rd f 24 1) else Some 0xFF) = Some cat"
    using assms unfolding mgmt_unprotected_def bind_Some by blast
  show ?thesis
    using assms unfolding mgmt_unprotected_def c bind.bind_lunit Let_def
    by (cases bmc; cases "st = WIFI_DEAUTH \<or> st = WIFI_DISASSOC") (auto simp: bind_Some split: if_splits dest: bip_verify_view)
qed

lemma mgmt_protect_all:
  assumes "validate_mgmt_protect env f v = Some (r, g, v')" "path_inv (vc_rx v)" "frame_room f" "fr_id f \<notin> set (all_ids (vc_rx v))"
  shows "same_frag f g" "frame_room g" "path_ok (vc_rx v')" "mset (all_ids (vc_rx v')) = mset (all_ids (vc_rx v))
    \<or> r = RET_FAIL \<and> mset (all_ids (vc_rx v')) = add_mset (fr_id f) (mset (all_ids (vc_rx v)))"
proof -
  have ok: "path_ok (vc_rx v)" using assms(2) by (simp add: path_inv_def)
  consider (same) "g = f" "rx_view (vc_ad v') = rx_view (vc_ad v)" | (dec) i where "mgmt_decrypt env i f v = Some (r, g, v')"
    using assms(1) unfolding validate_mgmt_protect_def
    by (auto simp: bind_Some split: if_splits option.splits bool.splits dest!: mgmt_unprotected_view)
  then have "same_frag f g \<and> frame_room g \<and> path_ok (vc_rx v') \<and> (mset (all_ids (vc_rx v')) = mset (all_ids (vc_rx v))
    \<or> r = RET_FAIL \<and> mset (all_ids (vc_rx v')) = add_mset (fr_id f) (mset (all_ids (vc_rx v))))"
  proof cases
    case same
    then show ?thesis using rx_view_ids [OF same(2)] ok assms(3) by simp
  next
    case dec
    note d = mgmt_decrypt_all [OF dec assms(2,4)]
    then have "frame_room g" using room_frag [of f g] assms(3) by simp
    then show ?thesis using d by blast
  qed
  then show "same_frag f g" "frame_room g" "path_ok (vc_rx v')" "mset (all_ids (vc_rx v')) = mset (all_ids (vc_rx v))
    \<or> r = RET_FAIL \<and> mset (all_ids (vc_rx v')) = add_mset (fr_id f) (mset (all_ids (vc_rx v)))" by blast+
qed

text \<open>
  A management frame up to the call of its handler: the state the handler starts from keeps the
  invariant, and the frame and all others are where they were, or one of them went back to the pool.
\<close>

lemma mgnt_frame_before_dispatch:
  assumes "validate_recv_mgnt_frame env f v = Some (g, v')" "path_inv (vc_rx v)" "frame_room f" "fr_id f \<notin> set (all_ids (vc_rx v))"
  defines "M \<equiv> mset (all_ids (vc_rx v))"
  shows "fr_id g = fr_id f" "\<exists>w. (v' = w \<or> (\<exists>h. v' = pe_mgt_dispatcher env h w)) \<and> path_inv (vc_rx w)
    \<and> mset (all_ids (vc_rx w)) \<subseteq># add_mset (fr_id f) M
    \<and> (\<not> last_frag f \<longrightarrow> mset (all_ids (vc_rx w)) = M \<or> mset (all_ids (vc_rx w)) = add_mset (fr_id f) M)"
proof -
  have dis: "distinct (fr_id f # all_ids (vc_rx v))" using assms(2,4) by (auto simp: path_inv_def)
  obtain a2 where a2: "addr2 f = Some a2" using assms(1) unfolding validate_recv_mgnt_frame_def bind_Some by blast
  define h where "h = f\<lparr>fr_psta := rtw_get_stainfo (vc_sp v) a2\<rparr>"
  have h: "same_frag f h" "fr_id h = fr_id f" "frame_room h" using assms(3) by (simp_all add: h_def same_frag_def frame_room_def frame_wf_def)
  obtain r k v1 where p: "validate_mgmt_protect env h v = Some (r, k, v1)"
    and rest: "(if r = RET_FAIL then Some (k, v1) else do {
       (g, c) \<leftarrow> recvframe_chk_defrag (pe_hz env) (ve_now (pe_val env)) k (vc_rx v1);
       Some (k, case g of None \<Rightarrow> upd_rx c v1 | Some g \<Rightarrow> pe_mgt_dispatcher env g (upd_rx c v1))
     }) = Some (g, v')"
    using assms(1) unfolding validate_recv_mgnt_frame_def a2 bind.bind_lunit Let_def h_def [symmetric] bind_Some by auto
  note pa = mgmt_protect_all [OF p assms(2) h(3) [folded h(2)], unfolded h(2), OF assms(4)]
  have fk: "same_frag f k" using h(1) pa(1) same_frag_trans by blast
  then have id: "fr_id k = fr_id f" "last_frag k = last_frag f" by (simp_all add: same_frag_def)
  have gk: "g = k" using rest by (auto simp: bind_Some split: if_splits)
  show "fr_id g = fr_id f" using gk id(1) by simp
  have inv1: "path_inv (vc_rx v1)" "mset (all_ids (vc_rx v1)) = M \<or> mset (all_ids (vc_rx v1)) = add_mset (fr_id f) M"
    using pa(3,4) path_invI [OF pa(3), of "all_ids (vc_rx v)"] path_invI [OF pa(3), of "fr_id f # all_ids (vc_rx v)"] dis unfolding M_def by auto
  show "\<exists>w. (v' = w \<or> (\<exists>h. v' = pe_mgt_dispatcher env h w)) \<and> path_inv (vc_rx w)
    \<and> mset (all_ids (vc_rx w)) \<subseteq># add_mset (fr_id f) M
    \<and> (\<not> last_frag f \<longrightarrow> mset (all_ids (vc_rx w)) = M \<or> mset (all_ids (vc_rx w)) = add_mset (fr_id f) M)"
  proof (cases "r = RET_FAIL")
    case True
    then show ?thesis using inv1 rest by auto
  next
    case False
    then obtain q c where d: "recvframe_chk_defrag (pe_hz env) (ve_now (pe_val env)) k (vc_rx v1) = Some (q, c)"
      and v': "v' = (case q of None \<Rightarrow> upd_rx c v1 | Some g \<Rightarrow> pe_mgt_dispatcher env g (upd_rx c v1))"
      using rest by (auto simp: bind_Some)
    have m1: "mset (all_ids (vc_rx v1)) = M" using pa(4) False by (simp add: M_def)
    then have "owns k (vc_rx v1)" using inv1(1) assms(4) id(1) M_def unfolding owns_def by (metis set_mset_mset)
    note c = frag.ok [OF d this pa(2)] frag.keeps [OF d this pa(2)]
    have mc: "mset (all_ids c) + ret_ids q = add_mset (fr_id f) M" using c(2) m1 id(1) by simp
    have "mset (all_ids c) \<subseteq># mset (fr_id f # all_ids (vc_rx v))" using mc unfolding M_def by (metis mset.simps(2) mset_subset_eq_add_left)
    then have ic: "path_inv c" using c(1) distinct_subset_mset [OF _ dis] unfolding path_inv_def by blast
    have e: "v' = upd_rx c v1 \<or> (\<exists>h. v' = pe_mgt_dispatcher env h (upd_rx c v1))" using v' by (auto split: option.splits)
    have "mset (all_ids c) = M \<or> mset (all_ids c) = add_mset (fr_id f) M" if "\<not> last_frag f"
    proof (cases q)
      case None
      then show ?thesis using mc by (simp add: ret_ids_def)
    next
      case (Some z)
      have "fr_id z = fr_id f" using chk_defrag_id [OF d [unfolded Some]] that id by auto
      then show ?thesis using mc Some by (simp add: ret_ids_def)
    qed
    moreover have "mset (all_ids c) \<subseteq># add_mset (fr_id f) M" using mc by (metis mset_subset_eq_add_left)
    ultimately show ?thesis using e ic by (intro exI [of _ "upd_rx c v1"]) simp
  qed
qed

lemma ctrl_frame_view:
  assumes "validate_recv_ctrl_frame f v = Some v'"
  shows "rx_view (vc_ad v') = rx_view (vc_ad v)"
proof -
  have bar: "rx_view (vc_ad w') = rx_view (vc_ad w)" if b: "rtw_process_bar_frame f w = Some w'" for w w'
  proof -
    obtain a2 where a: "addr2 f = Some a2" using b unfolding rtw_process_bar_frame_def bind_Some by blast
    show ?thesis
    proof (cases "rtw_get_stainfo (vc_sp w) a2")
      case None
      then show ?thesis using b a by (simp add: rtw_process_bar_frame_def)
    next
      case (Some i)
      then obtain t rc seq where t: "idx (si_recvreorder_ctrl (rx_sta (vc_rx w) i)) t = Some rc"
        "w' = upd_rx (set_sta i ((rx_sta (vc_rx w) i)\<lparr>si_recvreorder_ctrl := (si_recvreorder_ctrl (rx_sta (vc_rx w) i))[t := rc\<lparr>indicate_seq := seq\<rparr>]\<rparr>) (vc_rx w)) w"
        using b a by (auto simp: rtw_process_bar_frame_def Let_def bind_Some)
      have "rc = si_recvreorder_ctrl (rx_sta (vc_rx w) i) ! t" using t(1) by (auto simp: idx_def split: if_splits)
      then have "map pending_recvframe_queue ((si_recvreorder_ctrl (rx_sta (vc_rx w) i))[t := rc\<lparr>indicate_seq := seq\<rparr>])
        = map pending_recvframe_queue (si_recvreorder_ctrl (rx_sta (vc_rx w) i))" by (intro map_upd_same) simp
      then show ?thesis unfolding t(2) upd_rx_sel by (intro rx_view_set_sta) simp_all
    qed
  qed
  obtain fc where fc: "frame_fc f = Some fc" using assms unfolding validate_recv_ctrl_frame_def bind_Some by blast
  show ?thesis
    using assms unfolding validate_recv_ctrl_frame_def fc bind.bind_lunit
    by (auto simp: bind_Some split: if_splits option.splits dest: bar)
qed

section \<open>Every received frame\<close>

text \<open>The header of the last fragment of a frame that was sent in several.\<close>

definition hdr_last_frag :: "recv_frame \<Rightarrow> bool" where
  "hdr_last_frag f \<longleftrightarrow> (case (frame_fc f, frame_le16 f 22) of
     (Some fc, Some sc) \<Rightarrow> \<not> GetMFrag fc \<and> sc AND 0xf \<noteq> 0 | _ \<Rightarrow> False)"

text \<open>The frames \<^verbatim>\<open>validate_recv_mgnt_frame\<close> takes: their handlers are not modelled.\<close>

definition mgt_frame :: "recv_frame \<Rightarrow> bool" where
  "mgt_frame f \<longleftrightarrow> (case frame_fc f of Some fc \<Rightarrow> GetFrameType fc = WIFI_MGT_TYPE | None \<Rightarrow> False)"

lemma parse_fc_frag: "fr_id (parse_fc fc sc f) = fr_id f" "frame_room f \<Longrightarrow> frame_room (parse_fc fc sc f)"
  "last_frag (parse_fc fc sc f) \<longleftrightarrow> \<not> GetMFrag fc \<and> sc AND 0xf \<noteq> 0"
proof -
  have "(ucast (sc AND 0xf) :: u8) \<noteq> 0 \<longleftrightarrow> sc AND 0xf \<noteq> 0"
  proof -
    have "sc AND 0xf = take_bit 4 sc" by (simp add: take_bit_eq_mask mask_eq_exp_minus_1)
    moreover have "ucast (take_bit 4 sc) = (take_bit 4 (ucast sc) :: u8)" by (rule bit_word_eqI) (auto simp: bit_simps)
    moreover have "take_bit 4 (ucast sc :: u8) = 0 \<longleftrightarrow> take_bit 4 sc = 0"
      by (auto simp: bit_eq_iff bit_simps)
    ultimately show ?thesis by simp
  qed
  then show "last_frag (parse_fc fc sc f) \<longleftrightarrow> \<not> GetMFrag fc \<and> sc AND 0xf \<noteq> 0" by (simp add: parse_fc_def upd_attrib_def)
qed (simp_all add: parse_fc_def upd_attrib_def frame_room_def frame_wf_def)

lemma free_linked_sub:
  assumes "path_inv c" "mset (all_ids c) \<subseteq># add_mset (fr_id f) M" "fr_id f \<notin># M"
  shows "mset (all_ids (free_linked f c)) \<subseteq># add_mset (fr_id f) M"
    "mset (all_ids c) = M \<or> mset (all_ids c) = add_mset (fr_id f) M \<Longrightarrow> mset (all_ids (free_linked f c)) = add_mset (fr_id f) M"
proof -
  note l = free_linked_all(2) [OF assms(1), of f]
  have in_m: "fr_id f \<in> set (all_ids c) \<longleftrightarrow> fr_id f \<in># mset (all_ids c)" by simp
  show "mset (all_ids (free_linked f c)) \<subseteq># add_mset (fr_id f) M"
  proof (cases "fr_id f \<in> set (all_ids c)")
    case False
    then have z: "count (mset (all_ids c)) (fr_id f) = 0" by simp
    have "mset (all_ids c) \<subseteq># M"
    proof (rule mset_subset_eqI)
      fix x
      show "count (mset (all_ids c)) x \<le> count M x"
        using mset_subset_eq_count [OF assms(2), of x] by (cases "x = fr_id f") (metis z le0, simp)
    qed
    then show ?thesis using l False by simp
  qed (use l assms(2) in simp)
  show "mset (all_ids (free_linked f c)) = add_mset (fr_id f) M" if "mset (all_ids c) = M \<or> mset (all_ids c) = add_mset (fr_id f) M"
    using that
  proof
    assume "mset (all_ids c) = M"
    moreover from this have "fr_id f \<notin> set (all_ids c)" using assms(3) in_m by simp
    ultimately show ?thesis using l by simp
  next
    assume e: "mset (all_ids c) = add_mset (fr_id f) M"
    then have "fr_id f \<in> set (all_ids c)" using in_m by simp
    then show ?thesis using l e by simp
  qed
qed

lemma prehandle_all:
  assumes "recv_func_prehandle env f v = Some (r, g, v')" "path_inv (vc_rx v)" "frame_room f" "fr_id f \<notin> set (all_ids (vc_rx v))" "\<not> mgt_frame f"
  defines "M \<equiv> mset (all_ids (vc_rx v))"
  shows "path_inv (vc_rx v')" "fr_id g = fr_id f"
    "r = RET_SUCCESS \<Longrightarrow> mset (all_ids (vc_rx v')) = M \<and> frame_room g \<and> (last_frag g \<longrightarrow> hdr_last_frag f)
       \<and> uc_swdec_pending_queue (rx_pool (vc_rx v')) = uc_swdec_pending_queue (rx_pool (vc_rx v))"
    "r \<noteq> RET_SUCCESS \<Longrightarrow> mset (all_ids (vc_rx v')) \<subseteq># add_mset (fr_id f) M \<and> (\<not> hdr_last_frag f \<longrightarrow> mset (all_ids (vc_rx v')) = add_mset (fr_id f) M)"
proof -
  have nM: "fr_id f \<notin># M" using assms(4) by (simp add: M_def)
  have dis: "distinct (fr_id f # all_ids (vc_rx v))" using assms(2,4) by (auto simp: path_inv_def)
  obtain v1 where val: "validate_recv_frame env f v = Some (r, g, v1)"
    and v': "v' = (if r \<noteq> RET_SUCCESS then upd_rx (free_linked g (vc_rx v1)) v1 else v1)"
    using assms(1) unfolding recv_func_prehandle_def bind_Some by auto
  have main: "fr_id g = fr_id f \<and> path_inv (vc_rx v1) \<and> mset (all_ids (vc_rx v1)) \<subseteq># add_mset (fr_id f) M
    \<and> (\<not> hdr_last_frag f \<or> r = RET_SUCCESS \<longrightarrow> mset (all_ids (vc_rx v1)) = M \<or> mset (all_ids (vc_rx v1)) = add_mset (fr_id f) M \<and> r \<noteq> RET_SUCCESS)
    \<and> (r = RET_SUCCESS \<longrightarrow> frame_room g \<and> (last_frag g \<longrightarrow> hdr_last_frag f) \<and> uc_swdec_pending_queue (rx_pool (vc_rx v1)) = uc_swdec_pending_queue (rx_pool (vc_rx v)))" (is ?main)
  proof -
    have same: ?main if "rx_view (vc_ad v1) = rx_view (vc_ad v)" "fr_id g = fr_id f" "r = RET_SUCCESS \<longrightarrow> frame_room g \<and> (last_frag g \<longrightarrow> hdr_last_frag f)"
      using rx_view_ids [OF that(1)] that assms(2) by (auto simp: M_def rx_view_def)
    obtain b0 where b0: "frame_rd f 0 1 = Some b0" using val unfolding validate_recv_frame_def bind_Some by blast
    show ?main
    proof (cases "b0 ! 0 AND 3 = 0")
      case False
      then have "r = RET_FAIL" "g = f" "v1 = v" using val unfolding validate_recv_frame_def b0 bind.bind_lunit by simp_all
      then show ?thesis using same by simp
    next
      case True
      obtain fc sc where fc: "frame_fc f = Some fc" "frame_le16 f 22 = Some sc" using val True unfolding validate_recv_frame_def b0 bind.bind_lunit by (auto simp: bind_Some)
      define h where "h = parse_fc fc sc f"
      have h: "fr_id h = fr_id f" "frame_room h" "last_frag h \<longleftrightarrow> hdr_last_frag f"
        using parse_fc_frag [where fc = fc and sc = sc and f = f] assms(3) by (simp_all add: h_def hdr_last_frag_def fc)
      note rest = val [unfolded validate_recv_frame_def b0 bind.bind_lunit fc Let_def h_def [symmetric]]
      consider (mgt) "GetFrameType fc = WIFI_MGT_TYPE" | (ctl) "GetFrameType fc \<noteq> WIFI_MGT_TYPE" "GetFrameType fc = WIFI_CTRL_TYPE"
        | (dat) "GetFrameType fc \<noteq> WIFI_MGT_TYPE" "GetFrameType fc \<noteq> WIFI_CTRL_TYPE" "GetFrameType fc = WIFI_DATA_TYPE"
        | (oth) "GetFrameType fc \<noteq> WIFI_MGT_TYPE" "GetFrameType fc \<noteq> WIFI_CTRL_TYPE" "GetFrameType fc \<noteq> WIFI_DATA_TYPE" by blast
      then show ?thesis
      proof cases
        case mgt
        then show ?thesis using assms(5) fc by (simp add: mgt_frame_def)
      next
        case ctl
        then have c: "validate_recv_ctrl_frame h v = Some v1" "g = h" "r = RET_FAIL" using rest True by (auto simp: bind_Some)
        show ?thesis using same ctrl_frame_view [OF c(1)] c(2,3) h(1) by simp
      next
        case dat
        define k where "k = upd_attrib (\<lambda>a. a\<lparr>pa_qos := bit fc 7\<rparr>) h"
        have k: "same_frag h k" by (simp add: k_def)
        obtain v2 where d: "validate_recv_data_frame (pe_val env) k v = Some (r, g, v2)"
          and v1: "v1 = (if r = RET_FAIL then upd_rx (drop_count (vc_rx v2)) v2 else v2)"
          using rest True dat by (auto simp: bind_Some k_def)
        note df = validate_data_frag [OF d]
        have hg: "same_frag h g" using df k same_frag_trans by blast
        have "rx_view (vc_ad v1) = rx_view (vc_ad v)" using df v1 by simp
        moreover have "frame_room g" if "r = RET_SUCCESS" using room_frag [OF hg] df that h(2) by blast
        ultimately show ?thesis using same hg h(1,3) by (simp add: same_frag_def)
      next
        case oth
        then show ?thesis using rest True same h(1) by auto
      qed
    qed
  qed
  then show "fr_id g = fr_id f" by blast
  show "path_inv (vc_rx v')"
  proof (cases "r = RET_SUCCESS")
    case False
    have "mset (all_ids (free_linked g (vc_rx v1))) \<subseteq># mset (fr_id f # all_ids (vc_rx v))"
      using free_linked_sub(1) [of "vc_rx v1" g M] main nM by (simp add: M_def)
    then have "distinct (all_ids (free_linked g (vc_rx v1)))" using distinct_subset_mset [OF _ dis] by blast
    then show ?thesis using free_linked_all(1) [of "vc_rx v1" g] main v' False by (simp add: path_inv_def)
  qed (use main v' in simp)
  show "mset (all_ids (vc_rx v')) = M \<and> frame_room g \<and> (last_frag g \<longrightarrow> hdr_last_frag f) \<and> uc_swdec_pending_queue (rx_pool (vc_rx v')) = uc_swdec_pending_queue (rx_pool (vc_rx v))" if "r = RET_SUCCESS" using main v' that by auto
  show "mset (all_ids (vc_rx v')) \<subseteq># add_mset (fr_id f) M \<and> (\<not> hdr_last_frag f \<longrightarrow> mset (all_ids (vc_rx v')) = add_mset (fr_id f) M)" if "r \<noteq> RET_SUCCESS"
    using free_linked_sub [of "vc_rx v1" g M] main nM v' that by (auto simp del: distinct.simps)
qed

text \<open>A frame put at the end of the waiting queue, and the first one taken out.\<close>

lemma enqueue_all:
  assumes "path_inv c" "frame_room f" "fr_id f \<notin> set (all_ids c)"
  defines "c' \<equiv> set_pool (rtw_enqueue_recvframe UC_SWDEC_PENDING_QUEUE f (rx_pool c)) c"
  shows "path_inv c'" "mset (all_ids c') = add_mset (fr_id f) (mset (all_ids c))"
    "uc_swdec_pending_queue (rx_pool c') = uc_swdec_pending_queue (rx_pool c) @ [f]"
proof -
  have "fr_id f \<notin> fr_id ` set (free_recv_queue (rx_pool c))" "fr_id f \<notin> fr_id ` set (uc_swdec_pending_queue (rx_pool c))"
    using assms(3) by (auto simp: all_ids_def rx_ids_def pool_ids_def)
  then have e: "rtw_enqueue_recvframe UC_SWDEC_PENDING_QUEUE f (rx_pool c) = (rx_pool c)\<lparr>uc_swdec_pending_queue := uc_swdec_pending_queue (rx_pool c) @ [f]\<rparr>"
    by (simp add: rtw_enqueue_recvframe_def rp_unlink_def list_unlink_id Let_def)
  show m: "mset (all_ids c') = add_mset (fr_id f) (mset (all_ids c))" by (simp add: c'_def e all_ids_def rx_ids_def pool_ids_def)
  have "path_ok c'" using assms(1,2) by (auto simp: c'_def e path_inv_def path_ok_def)
  then show "path_inv c'" using path_invI [of c' "fr_id f # all_ids c"] m assms(1,3) by (simp add: path_inv_def)
qed (use assms(3) in \<open>auto simp: c'_def rtw_enqueue_recvframe_def rp_unlink_def Let_def all_ids_def rx_ids_def pool_ids_def list_unlink_id\<close>)

lemma dequeue_all:
  assumes "path_inv c" "rtw_alloc_recvframe UC_SWDEC_PENDING_QUEUE (rx_pool c) = (Some g, rp)"
  shows "path_inv (set_pool rp c)" "mset (all_ids c) = add_mset (fr_id g) (mset (all_ids (set_pool rp c)))"
    "frame_room g" "fr_id g \<notin> set (all_ids (set_pool rp c))" "g \<in> set (uc_swdec_pending_queue (rx_pool c))"
    "set (uc_swdec_pending_queue rp) \<subseteq> set (uc_swdec_pending_queue (rx_pool c))"
proof -
  obtain fs where q: "uc_swdec_pending_queue (rx_pool c) = g # fs" "rp = (rx_pool c)\<lparr>uc_swdec_pending_queue := fs\<rparr>"
    using assms(2) by (auto simp: rtw_alloc_recvframe_def split: list.splits)
  show m: "mset (all_ids c) = add_mset (fr_id g) (mset (all_ids (set_pool rp c)))" using q by (simp add: all_ids_def rx_ids_def pool_ids_def)
  have d: "distinct (fr_id g # all_ids (set_pool rp c))"
    using assms(1) mset_eq_imp_distinct_iff [of "all_ids c" "fr_id g # all_ids (set_pool rp c)"] m by (simp add: path_inv_def)
  show "frame_room g" "g \<in> set (uc_swdec_pending_queue (rx_pool c))" using assms(1) q by (simp_all add: path_inv_def path_ok_def)
  have "path_ok (set_pool rp c)" using assms(1) q by (auto simp: path_inv_def path_ok_def)
  then show "path_inv (set_pool rp c)" "fr_id g \<notin> set (all_ids (set_pool rp c))" using d by (simp_all add: path_inv_def)
  show "set (uc_swdec_pending_queue rp) \<subseteq> set (uc_swdec_pending_queue (rx_pool c))" using q by auto
qed


lemma drain_all:
  assumes "swdec_drain env p = Some p'" "path_inv (pc_rx p)"
  shows "path_inv (pc_rx p') \<and> mset (all_ids (pc_rx p')) \<subseteq># mset (all_ids (pc_rx p)) \<and> uc_swdec_pending_queue (rx_pool (pc_rx p')) = []
    \<and> ((\<forall>g\<in>set (uc_swdec_pending_queue (rx_pool (pc_rx p))). \<not> last_frag g) \<longrightarrow> mset (all_ids (pc_rx p')) = mset (all_ids (pc_rx p)))"
  using assms
proof (induction env p arbitrary: p' rule: swdec_drain.induct)
  case (1 env p)
  let ?q = "uc_swdec_pending_queue (rx_pool (pc_rx p))"
  show ?case
  proof (cases ?q)
    case Nil
    then show ?thesis using "1.prems" by (simp add: swdec_drain.simps [of env p] rtw_alloc_recvframe_def)
  next
    case (Cons f fs)
    obtain rp where a: "rtw_alloc_recvframe UC_SWDEC_PENDING_QUEUE (rx_pool (pc_rx p)) = (Some f, rp)"
      using Cons by (simp add: rtw_alloc_recvframe_def)
    note d = dequeue_all [OF "1.prems"(2) a]
    obtain r p1 where p1: "recv_func_posthandle env f (pc_set_pool rp p) = Some (r, p1)" "swdec_drain env p1 = Some p'"
      using "1.prems"(1) a by (auto simp: swdec_drain.simps [of env p] split: option.splits)
    let ?c = "set_pool rp (pc_rx p)"
    obtain ev c1 where c1: "posthandle_rx env f ?c = Some (r, ev, c1)" "pc_rx p1 = c1"
      using p1(1) unfolding recv_func_posthandle_def bind_Some by auto
    note ph = posthandle_all [OF c1(1) d(1,3,4)]
    have w: "set (uc_swdec_pending_queue (rx_pool c1)) \<subseteq> set ?q" using posthandle_wait [OF c1(1)] d(6) by (auto simp: waits_in_def)
    have ih: "path_inv (pc_rx p') \<and> mset (all_ids (pc_rx p')) \<subseteq># mset (all_ids c1) \<and> uc_swdec_pending_queue (rx_pool (pc_rx p')) = []
      \<and> ((\<forall>g\<in>set (uc_swdec_pending_queue (rx_pool c1)). \<not> last_frag g) \<longrightarrow> mset (all_ids (pc_rx p')) = mset (all_ids c1))"
      using "1.IH" [OF a [symmetric] refl p1(1) refl p1(2)] c1(2) ph(1) by simp
    then show ?thesis using ph(2,3) d(2,5) w by (auto intro: subset_mset.order_trans)
  qed
qed

lemma posthandle_path_all:
  assumes "recv_func_posthandle env f p = Some (r, p')" "path_inv (pc_rx p)" "frame_room f" "fr_id f \<notin> set (all_ids (pc_rx p))"
  shows "path_inv (pc_rx p')" "mset (all_ids (pc_rx p')) \<subseteq># add_mset (fr_id f) (mset (all_ids (pc_rx p)))"
    "\<not> last_frag f \<Longrightarrow> mset (all_ids (pc_rx p')) = add_mset (fr_id f) (mset (all_ids (pc_rx p)))"
proof -
  obtain ev c where c: "posthandle_rx env f (pc_rx p) = Some (r, ev, c)" "pc_rx p' = c"
    using assms(1) unfolding recv_func_posthandle_def bind_Some by auto
  from posthandle_all [OF c(1) assms(2-4)] show "path_inv (pc_rx p')" "mset (all_ids (pc_rx p')) \<subseteq># add_mset (fr_id f) (mset (all_ids (pc_rx p)))"
    "\<not> last_frag f \<Longrightarrow> mset (all_ids (pc_rx p')) = add_mset (fr_id f) (mset (all_ids (pc_rx p)))" by (simp_all add: c(2))
qed

lemma recv_func_main_all:
  assumes "recv_func_main env f p = Some (r, p')" "path_inv (pc_rx p)" "frame_room f" "fr_id f \<notin> set (all_ids (pc_rx p))" "\<not> mgt_frame f"
  defines "M \<equiv> add_mset (fr_id f) (mset (all_ids (pc_rx p)))"
  shows "path_inv (pc_rx p') \<and> mset (all_ids (pc_rx p')) \<subseteq># M
    \<and> (\<not> hdr_last_frag f \<and> (\<forall>g\<in>set (uc_swdec_pending_queue (rx_pool (pc_rx p))). \<not> last_frag g) \<longrightarrow> mset (all_ids (pc_rx p')) = M)"
proof -
  obtain ret g v where pre: "recv_func_prehandle env f (pc_val p) = Some (ret, g, v)" using assms(1) unfolding recv_func_main_def bind_Some by auto
  note pa = prehandle_all [OF pre assms(2-5)]
  define p1 where "p1 = p\<lparr>pc_val := v\<rparr>"
  have p1: "pc_rx p1 = vc_rx v" by (simp add: p1_def)
  note m = assms(1) [unfolded recv_func_main_def pre bind.bind_lunit prod.case Let_def p1_def [symmetric]]
  show ?thesis
  proof (cases "ret = RET_SUCCESS")
    case False
    then show ?thesis using m pa(1,4) p1 by (auto simp: M_def)
  next
    case True
    have g: "path_inv (pc_rx p1)" "frame_room g" "fr_id g \<notin> set (all_ids (pc_rx p1))" "add_mset (fr_id g) (mset (all_ids (pc_rx p1))) = M"
      "last_frag g \<longrightarrow> hdr_last_frag f"
      using pa(1-3) True assms(4) unfolding M_def p1 by (auto simp flip: set_mset_mset)
    have u: "uc_swdec_pending_queue (rx_pool (pc_rx p1)) = uc_swdec_pending_queue (rx_pool (pc_rx p))" using pa(3) True p1 by simp
    show ?thesis
    proof (cases "waits_for_key env g (rx_sec (pc_rx p1))")
      case False
      then have "recv_func_posthandle env g p1 = Some (r, p')" using m True by simp
      from posthandle_path_all [OF this g(1-3)] show ?thesis using g(4,5) by auto
    next
      case wait: True
      define p2 where "p2 = pc_set_pool (rtw_enqueue_recvframe UC_SWDEC_PENDING_QUEUE g (rx_pool (pc_rx p1))) p1"
      have p2: "pc_rx p2 = set_pool (rtw_enqueue_recvframe UC_SWDEC_PENDING_QUEUE g (rx_pool (pc_rx p1))) (pc_rx p1)" by (simp add: p2_def)
      note e = enqueue_all [OF g(1-3), folded p2]
      have M: "mset (all_ids (pc_rx p2)) = M" using e(2) g(4) by simp
      show ?thesis
      proof (cases "p' = p2")
        case True
        then show ?thesis using e(1) M by simp
      next
        case False
        then obtain h rp where h: "rtw_alloc_recvframe UC_SWDEC_PENDING_QUEUE (rx_pool (pc_rx p2)) = (Some h, rp)"
          "recv_func_posthandle env h (pc_set_pool rp p2) = Some (r, p')"
          using m True wait unfolding p2_def [symmetric] by (auto split: if_splits option.splits prod.splits)
        note d = dequeue_all [OF e(1) h(1)]
        have lf: "\<not> last_frag h" if "\<not> hdr_last_frag f" "\<forall>g\<in>set (uc_swdec_pending_queue (rx_pool (pc_rx p))). \<not> last_frag g"
          using d(5) e(3) u g(5) that by auto
        from posthandle_path_all [OF h(2)] d(1,3,4) have
          "path_inv (pc_rx p')" "mset (all_ids (pc_rx p')) \<subseteq># M" "\<not> last_frag h \<Longrightarrow> mset (all_ids (pc_rx p')) = M"
          using d(2) M by simp_all
        then show ?thesis using lf by blast
      qed
    qed
  qed
qed


section \<open>Delivery\<close>

text \<open>A frame that needs no software decryption: the key index and the flag are all that changes.\<close>

lemma decryptor_plain:
  assumes "pa_bdecrypted (fr_attrib f) \<or> pa_encrypt (fr_attrib f) = 0"
    and "pa_encrypt (fr_attrib f) \<noteq> 0 \<Longrightarrow> frame_rd f (uint (pa_hdrlen (fr_attrib f)) + 3) 1 \<noteq> None"
  obtains k c' where "decryptor env f c = Some (Some (f\<lparr>fr_attrib := (fr_attrib f)\<lparr>pa_key_index := k, pa_bdecrypted := True\<rparr>\<rparr>), c')"
    "rx_ad c' = rx_ad c" "dot11AuthAlgrthm (rx_sec c') = dot11AuthAlgrthm (rx_sec c)" "dot11PrivacyAlgrthm (rx_sec c') = dot11PrivacyAlgrthm (rx_sec c)"
proof -
  obtain k where k: "decryptor_key_index f (rx_sec c) = Some (upd_attrib (\<lambda>a. a\<lparr>pa_key_index := k\<rparr>) f)"
  proof (cases "pa_encrypt (fr_attrib f) = 0")
    case True
    have "decryptor_key_index f (rx_sec c) = Some (upd_attrib (\<lambda>a. a\<lparr>pa_key_index := pa_key_index (fr_attrib f)\<rparr>) f)"
      using True by (simp add: decryptor_key_index_def upd_attrib_def)
    then show thesis by (rule that)
  next
    case False
    obtain iv3 where "frame_rd f (uint (pa_hdrlen (fr_attrib f)) + 3) 1 = Some iv3" using assms(2) False by auto
    then show thesis using that False unfolding decryptor_key_index_def Let_def by (simp add: word_gt_0)
  qed
  let ?f = "upd_attrib (\<lambda>a. a\<lparr>pa_key_index := k\<rparr>) f"
  have a: "pa_bdecrypted (fr_attrib ?f) = pa_bdecrypted (fr_attrib f)" "pa_encrypt (fr_attrib ?f) = pa_encrypt (fr_attrib f)"
    by (simp_all add: upd_attrib_def)
  have u: "upd_attrib (\<lambda>a. a\<lparr>pa_bdecrypted := True\<rparr>) ?f = f\<lparr>fr_attrib := (fr_attrib f)\<lparr>pa_key_index := k, pa_bdecrypted := True\<rparr>\<rparr>"
    by (simp add: upd_attrib_def)
  define c' where "c' = (if pa_bdecrypted (fr_attrib f) \<and> pa_encrypt (fr_attrib f) > 0 \<and> (busetkipkey (rx_sec c) \<or> pa_encrypt (fr_attrib f) \<noteq> TKIP)
     then c\<lparr>rx_sec := (rx_sec c)\<lparr>hw_decrypted := True\<rparr>\<rparr> else c)"
  have "decryptor env f c = Some (Some (f\<lparr>fr_attrib := (fr_attrib f)\<lparr>pa_key_index := k, pa_bdecrypted := True\<rparr>\<rparr>), c')"
    using assms(1) unfolding decryptor_def k bind.bind_lunit Let_def a by (auto simp: u c'_def)
  then show thesis by (rule that) (simp_all add: c'_def)
qed

lemma posthandle_delivers:
  fixes f :: recv_frame
  assumes f: "frame_wf f" "frame_payload f = hdr @ iv @ m @ icv" "length hdr = unat (pa_hdrlen a)" "length iv = unat (pa_iv_len a)"
      "14 \<le> length hdr" "length m < 65536" "length icv = (if pa_encrypt a \<noteq> 0 then unat (pa_icv_len a) else 0)"
      "length (pa_dst a) = 6" "length (pa_src a) = 6"
    and a: "a = fr_attrib f" "\<not> pa_amsdu a" "\<not> pa_mfrag a" "pa_frag_num a = 0" "pa_encrypt a \<noteq> TKIP"
      "if pa_encrypt a = 0 then True else pa_bdecrypted a \<and> 4 \<le> length iv"
    and st: "\<not> ad_mlme_ap (rx_ad (pc_rx p))" "check_fwstate (pe_val env) WIFI_STATION_STATE"
      "\<forall>k. me_pkt_alloc (pe_msdu env (fr_id f)) k" "\<not> me_cannot_run (pe_msdu env (fr_id f))"
    and port: "case rtw_get_stainfo (ad_stapriv (rx_ad (pc_rx p))) (pa_ta a) of None \<Rightarrow> True | Some i \<Rightarrow> \<not> si_ieee8021x_blocked (rx_sta (pc_rx p) i)"
    and rc: "get_rc (pc_rx p) (fr_preorder_ctrl f) = Some orc" "case orc of None \<Rightarrow> True | Some rc \<Rightarrow> \<not> pa_qos a \<or> \<not> rc_enable rc"
  shows "\<exists>g p'. fr_id g = fr_id f \<and> recv_func_posthandle env f p = Some (RET_SUCCESS, p')
    \<and> pc_events p' = pc_events p @ [MsduIndicate (rtw_os_alloc_msdu_pkt (pa_dst a) (pa_src a) m (llc_of m))]
    \<and> rx_pool (pc_rx p') = rtw_free_recvframe g (rx_pool (pc_rx p))"
proof -
  let ?c = "pc_rx p"
  have wl: "length (frame_payload f) = length hdr + length iv + length m + length icv" using f(2) by simp
  have rd: "frame_rd f (int k) n \<noteq> None" if "k + n \<le> length (frame_payload f)" for k n
    using frame_rd_payload [OF f(1), of "int k" n] that by simp
  have iv: "frame_rd f (uint (pa_hdrlen (fr_attrib f)) + 3) 1 \<noteq> None" if "pa_encrypt (fr_attrib f) \<noteq> 0"
    using rd [of "length hdr + 3" 1] wl that a f(3) by (auto simp: add.commute)
  obtain k c1 where d: "decryptor env f ?c = Some (Some (f\<lparr>fr_attrib := (fr_attrib f)\<lparr>pa_key_index := k, pa_bdecrypted := True\<rparr>\<rparr>), c1)"
    and c1: "rx_ad c1 = rx_ad ?c" "dot11AuthAlgrthm (rx_sec c1) = dot11AuthAlgrthm (rx_sec ?c)"
    using decryptor_plain [of f env ?c] iv a by (metis (full_types))
  define h where "h = f\<lparr>fr_attrib := (fr_attrib f)\<lparr>pa_key_index := k, pa_bdecrypted := True\<rparr>\<rparr>"
  have h: "frame_wf h" "frame_payload h = frame_payload f" "fr_id h = fr_id f" "fr_preorder_ctrl h = fr_preorder_ctrl f" "frame_rd h = frame_rd f"
    "fr_attrib h = a\<lparr>pa_key_index := k, pa_bdecrypted := True\<rparr>"
    using f(1) a(1) by (simp_all add: h_def frame_wf_def frame_payload_def frame_rd_def fun_eq_iff)
  have ha: "pa_hdrlen (fr_attrib h) = pa_hdrlen a" "pa_iv_len (fr_attrib h) = pa_iv_len a" "pa_icv_len (fr_attrib h) = pa_icv_len a"
    "pa_encrypt (fr_attrib h) = pa_encrypt a" "pa_dst (fr_attrib h) = pa_dst a" "pa_src (fr_attrib h) = pa_src a" "pa_amsdu (fr_attrib h) = pa_amsdu a"
    by (simp_all add: h(6))
  obtain b where b: "frame_rd f 0 2 = Some b" using rd [of 0 2] wl f(5) by auto
  have "defrag_sta h c1 \<noteq> None" by (auto simp: defrag_sta_def frame_type_def h(5) b split: option.splits)
  moreover have "chk_defrag_end hz now (Some h) c1 = Some (Some h, c1)" for hz now
    using a(5) by (simp add: chk_defrag_end_def recvframe_chkmic_def h(6) Let_def)
  ultimately have cd: "recvframe_chk_defrag hz now h c1 = Some (Some h, c1)" for hz now
    using a(3,4) by (auto simp: recvframe_chk_defrag_def h(6) split: option.splits)
  have pc: "portctrl h c1 = Some (Some h, c1)"
    using port by (simp add: portctrl_def h(6) c1(1) rx_sta_def split: option.splits)
  have rc1: "get_rc c1 (fr_preorder_ctrl h) = Some orc" using rc(1) unfolding get_rc_def rx_sta_def c1(1) h(4) .
  have ro: "recv_indicatepkt_reorder (mpdu_consume env c1) h orc (rx_pool c1) = (RET_SUCCESS, orc, [], rx_pool c1)"
    using rc(2) by (auto simp: recv_indicatepkt_reorder_def h(6) split: option.splits)
  have se: "sta_env (mpdu_env env c1 h)" "\<not> me_cannot_run (mpdu_env env c1 h)"
    using st by (simp_all add: sta_env_def mpdu_env_def h(3) c1(1))
  obtain g where g: "fr_id g = fr_id h" "recv_process_mpdu (mpdu_env env c1 h) h (rx_pool c1) = Some (RET_SUCCESS,
     [MsduIndicate (rtw_os_alloc_msdu_pkt (pa_dst (fr_attrib h)) (pa_src (fr_attrib h)) m (llc_of m))], rtw_free_recvframe g (rx_pool c1))"
    using recv_process_mpdu_run [OF h(1) se _ h(2) [unfolded f(2)], of "rx_pool c1"] f(3-9) a(2) unfolding ha by blast
  have "posthandle_reorder env h h c1 = Some (RET_SUCCESS, [MsduIndicate (rtw_os_alloc_msdu_pkt (pa_dst a) (pa_src a) m (llc_of m))],
     put_rc (fr_preorder_ctrl h) (recv_set_iseq_after_mpdu_process (recv_set_iseq_before_mpdu_process orc (seq_of h))) (set_pool (rtw_free_recvframe g (rx_pool c1)) c1))"
    using g(2) by (simp add: posthandle_reorder_def rc1 ro mpdu_events_def h(6))
  then show ?thesis
    using d cd pc g(1) h(3) c1(1) by (simp add: recv_func_posthandle_def posthandle_rx_def h_def [symmetric]) (metis)
qed

text \<open>
  C6. What a station gets it hands up. In station mode, a frame of a peer whose port is open that is
  not a fragment, not an A-MSDU, not under TKIP, either in the clear or decrypted before, and has no
  active reorder window, becomes exactly one Ethernet frame with the addresses of the header and the
  payload between IV and ICV, and its buffer goes back to the pool, provided the packet can be
  allocated and the driver is not being stopped.
\<close>

theorem recv_func_posthandle_delivers:
  fixes f :: recv_frame
  assumes f: "frame_wf f" "frame_payload f = hdr @ iv @ m @ icv" "length hdr = unat (pa_hdrlen a)" "length iv = unat (pa_iv_len a)"
      "14 \<le> length hdr" "length m < 65536" "length icv = (if pa_encrypt a \<noteq> 0 then unat (pa_icv_len a) else 0)"
      "length (pa_dst a) = 6" "length (pa_src a) = 6"
    and a: "a = fr_attrib f" "\<not> pa_amsdu a" "\<not> pa_mfrag a" "pa_frag_num a = 0" "pa_encrypt a \<noteq> TKIP"
      "if pa_encrypt a = 0 then True else pa_bdecrypted a \<and> 4 \<le> length iv"
    and st: "\<not> ad_mlme_ap (rx_ad (pc_rx p))" "check_fwstate (pe_val env) WIFI_STATION_STATE"
      "\<forall>k. me_pkt_alloc (pe_msdu env (fr_id f)) k" "\<not> me_cannot_run (pe_msdu env (fr_id f))"
    and port: "case rtw_get_stainfo (ad_stapriv (rx_ad (pc_rx p))) (pa_ta a) of None \<Rightarrow> True | Some i \<Rightarrow> \<not> si_ieee8021x_blocked (rx_sta (pc_rx p) i)"
    and rc: "get_rc (pc_rx p) (fr_preorder_ctrl f) = Some orc" "case orc of None \<Rightarrow> True | Some rc \<Rightarrow> \<not> pa_qos a \<or> \<not> rc_enable rc"
  shows "\<exists>g p'. fr_id g = fr_id f \<and> recv_func_posthandle env f p = Some (RET_SUCCESS, p')
    \<and> pc_events p' = pc_events p @ [MsduIndicate (rtw_os_alloc_msdu_pkt (pa_dst a) (pa_src a) m (llc_of m))]
    \<and> rx_pool (pc_rx p') = rtw_free_recvframe g (rx_pool (pc_rx p))"
  by (rule posthandle_delivers [OF assms])

section \<open>A data frame\<close>

definition sample_path_env :: path_env where
  "sample_path_env = \<lparr>pe_val = sample_val_env, pe_hz = 250, pe_amsdu_mode = 0, pe_dec_mem = (\<lambda>_. (True, True)), pe_bip_mem = (True, True),
     pe_mgmt_mem = True, pe_msdu = (\<lambda>_. sample_env), pe_mgt_dispatcher = (\<lambda>g v. v)\<rparr>"

definition sample_path_ctx :: path_ctx where
  "sample_path_ctx = \<lparr>pc_val = sample_val_ctx\<lparr>vc_rx := sample_rx_ctx\<lparr>rx_sec := sample_sec\<lparr>binstallBIPkey := False\<rparr>\<rparr>\<rparr>, pc_events = []\<rparr>"

lemma sample_path_rx: "ad_stapriv (rx_ad (pc_rx sample_path_ctx)) = ad_stapriv (rx_ad sample_rx_ctx)" "rx_pool (pc_rx sample_path_ctx) = sample_recv_priv"
  "rx_stas (pc_rx sample_path_ctx) = (replicate 32 zero_stainfo)[0 := init_stainfo (replicate 6 4)]"
  by (simp_all add: sample_path_ctx_def sample_rx_ctx_def sample_adapter_def)

definition sample_msdu_frame :: recv_frame where
  "sample_msdu_frame = (sample_frame 5 0)\<lparr>fr_attrib := sample_attrib\<lparr>pa_ta := replicate 6 4\<rparr>, fr_len := 29,
     rx_mem := replicate 26 0 @ [1, 2, 3], rx_tail := 29\<rparr>"

theorem recv_func_posthandle_delivers_witness:
  "\<exists>p'. recv_func_posthandle sample_path_env sample_msdu_frame sample_path_ctx = Some (RET_SUCCESS, p')
    \<and> pc_events p' = [MsduIndicate (replicate 6 2 @ replicate 6 4 @ [0, 3, 1, 2, 3])]"
proof -
  let ?f = sample_msdu_frame
  have f: "frame_wf ?f" "frame_payload ?f = replicate 26 0 @ [] @ [1, 2, 3] @ []" "fr_attrib ?f = sample_attrib\<lparr>pa_ta := replicate 6 4\<rparr>"
    "fr_preorder_ctrl ?f = None"
    by (simp_all add: sample_msdu_frame_def sample_frame_def frame_wf_def frame_payload_def)
  have st: "\<not> ad_mlme_ap (rx_ad (pc_rx sample_path_ctx))" "check_fwstate (pe_val sample_path_env) WIFI_STATION_STATE"
    "\<forall>k. me_pkt_alloc (pe_msdu sample_path_env (fr_id ?f)) k" "\<not> me_cannot_run (pe_msdu sample_path_env (fr_id ?f))" "pc_events sample_path_ctx = []"
    by (simp_all add: sample_path_ctx_def sample_rx_ctx_def sample_adapter_def sample_path_env_def sample_val_env_def sample_env_def
        check_fwstate_def WIFI_STATION_STATE_def)
  have port: "rtw_get_stainfo (ad_stapriv (rx_ad (pc_rx sample_path_ctx))) (replicate 6 4) = Some 0"
    "\<not> si_ieee8021x_blocked (rx_sta (pc_rx sample_path_ctx) 0)"
    using sample_rx_sta(2) unfolding sample_path_rx rx_sta_def by (simp_all add: sample_rx_ctx_def init_stainfo_def zero_stainfo_def)
  have e: "rtw_os_alloc_msdu_pkt (replicate 6 2) (replicate 6 4) [1, 2, 3] (llc_of [1, 2, 3]) = replicate 6 2 @ replicate 6 4 @ [0, 3, 1, 2, 3]"
    by (simp add: llc_of_def rtw_os_alloc_msdu_pkt_def put_be16_def)
  show ?thesis
    using recv_func_posthandle_delivers [where f = ?f and a = "fr_attrib ?f" and env = sample_path_env and p = sample_path_ctx and orc = None
        and hdr = "replicate 26 0" and iv = "[]" and m = "[1, 2, 3]" and icv = "[]"] f(1,2) st port
    unfolding f(3,4) by (auto simp: sample_attrib_def get_rc_def e sec_type_defs)
qed

end
