(* ===== verification/Xmit_Frame.thy ===== *)
theory Xmit_Frame
  imports Recv_Path
begin

unbundle bit_operations_syntax

text \<open>
  Building a data frame for the air (\<^verbatim>\<open>core/rtw_xmit.c\<close>): the 802.11 header from the attributes of the
  packet, the LLC header, fragmentation into the transmit buffer, the Michael code, software
  encryption and the choice of the protection mode. A packet is the bytes of its Ethernet frame;
  offsets are offsets of the buffer, which starts with the transmit descriptor. The outer \<open>None\<close> is
  an access outside the buffer. What a packet becomes is stated for an access point's frame.
\<close>

section \<open>State\<close>

text \<open>The fields of \<^verbatim>\<open>struct pkt_attrib\<close> that building a frame uses besides those of encryption.\<close>

record xmit_attrib = pkt_attrib +
  at_subtype :: u8
  at_ether_type :: u16
  at_seqnum :: u16
  at_pkt_hdrlen :: u16
  at_priority :: u8
  at_ack_policy :: u8
  at_vcs_mode :: u8
  at_dst :: bytes
  at_src :: bytes
  at_key_idx :: u8
  at_qos_en :: bool
  at_ht_en :: bool
  at_ampdu_en :: bool
  at_amsdu :: u8
  at_mdata :: bool
  at_eosp :: u8
  at_rtsen :: bool
  at_cts2self :: bool
  at_tkiptxmickey :: bytes
  at_mac_id :: u8
  at_bmc_camid :: u8
  at_dhcp_pkt :: bool
  at_icmp_pkt :: bool
  at_hipriority_pkt :: bool
  at_amsdu_ampdu_en :: bool
  at_ampdu_spacing :: u8
  at_triggered :: bool
  at_qsel :: u8
  at_rate :: u8

record vcs_env =
  vs_cur_wireless_mode :: u8
  vs_wifi_spec :: bool
  vs_rts_thresh :: u16
  vs_assoc_AP_vendor :: u8
  vs_HT_protection :: u8
  vs_cur_bwmode :: u8
  vs_vrtl_carrier_sense :: u8
  vs_vcs_type :: u8
  vs_driver_vcs :: "u8 option"

record tx_env = mgmt_env +
  tx_mlme :: val_env
  tx_qos_option :: bool
  tx_vcs :: vcs_env

section \<open>Reading the packet\<close>

text \<open>A packet file is what is left to read of the packet.\<close>

definition rtw_pktfile_read :: "bytes \<Rightarrow> u32 \<Rightarrow> bytes \<times> bytes" where
  "rtw_pktfile_read pktfile rlen = (take (unat rlen) pktfile, drop (unat rlen) pktfile)"

definition rtw_endofpktfile :: "bytes \<Rightarrow> bool" where
  "rtw_endofpktfile pktfile \<longleftrightarrow> pktfile = []"

section \<open>The header\<close>

definition le16_at :: "bytes \<Rightarrow> nat \<Rightarrow> u16" where
  "le16_at h p = ucast (h ! p) OR push_bit 8 (ucast (h ! Suc p))"

definition put16 :: "nat \<Rightarrow> u16 \<Rightarrow> bytes \<Rightarrow> bytes" where
  "put16 p v h = h[p := ucast v, Suc p := ucast (drop_bit 8 v)]"

definition hdr_or :: "u16 \<Rightarrow> bytes \<Rightarrow> bytes" where
  "hdr_or m h = put16 0 (le16_at h 0 OR m) h"

definition set_frame_sub_type :: "u8 \<Rightarrow> bytes \<Rightarrow> bytes" where
  "set_frame_sub_type t h = put16 0 (le16_at h 0 AND NOT 0xFC OR ucast t) h"

definition SetToDs :: "bytes \<Rightarrow> bytes" where "SetToDs = hdr_or 0x100"
definition SetFrDs :: "bytes \<Rightarrow> bytes" where "SetFrDs = hdr_or 0x200"
definition SetMFrag :: "bytes \<Rightarrow> bytes" where "SetMFrag = hdr_or 0x400"
definition ClearMFrag :: "bytes \<Rightarrow> bytes" where "ClearMFrag h = put16 0 (le16_at h 0 AND NOT 0x400) h"
definition SetMData :: "bytes \<Rightarrow> bytes" where "SetMData = hdr_or 0x2000"
definition SetPrivacy :: "bytes \<Rightarrow> bytes" where "SetPrivacy = hdr_or 0x4000"

definition SetSeqNum :: "u16 \<Rightarrow> bytes \<Rightarrow> bytes" where
  "SetSeqNum num h = put16 22 (le16_at h 22 AND 0xF OR (push_bit 4 num AND 0xFFF0)) h"

text \<open>A field of the QoS control word: \<^verbatim>\<open>SET_BITS_TO_LE_2BYTE\<close>.\<close>

definition set_bits16 :: "nat \<Rightarrow> nat \<Rightarrow> u8 \<Rightarrow> u16 \<Rightarrow> u16" where
  "set_bits16 pos len v w = (w AND NOT (push_bit pos (mask len))) OR push_bit pos (take_bit len (ucast v))"

definition put_addr :: "nat \<Rightarrow> bytes \<Rightarrow> bytes \<Rightarrow> bytes" where
  "put_addr p a h = take p h @ take 6 a @ drop (p + 6) h"

definition WLANHDR_OFFSET :: nat where "WLANHDR_OFFSET = 64"

text \<open>Addresses and DS bits of a data frame by operating mode, and whether it has a QoS control word.\<close>

definition wlanhdr_addrs :: "tx_env \<Rightarrow> xmit_attrib \<Rightarrow> bytes \<Rightarrow> (bytes \<times> bool) option" where
  "wlanhdr_addrs env pa h =
     (let m = tx_mlme env; bssid = ve_bssid m in
      if check_fwstate m WIFI_STATION_STATE
      then Some (put_addr 16 (at_dst pa) (put_addr 10 (at_ta pa) (put_addr 4 bssid (SetToDs h))), tx_qos_option env)
      else if check_fwstate m WIFI_AP_STATE
      then Some (put_addr 16 (at_src pa) (put_addr 10 bssid (put_addr 4 (at_dst pa) (SetFrDs h))), at_qos_en pa)
      else if check_fwstate m WIFI_ADHOC_STATE \<or> check_fwstate m WIFI_ADHOC_MASTER_STATE
      then Some (put_addr 16 bssid (put_addr 10 (at_ta pa) (put_addr 4 (at_dst pa) h)), at_qos_en pa)
      else None)"

definition wlanhdr_qc :: "xmit_attrib \<Rightarrow> bytes \<Rightarrow> bytes option" where
  "wlanhdr_qc pa h =
     (if at_hdrlen pa < 2 \<or> unat (at_hdrlen pa) > WLANHDR_OFFSET then None
      else
       (let p = unat (at_hdrlen pa) - 2; w = le16_at h p;
            w = (if at_priority pa \<noteq> 0 then set_bits16 0 4 (at_priority pa) w else w);
            w = set_bits16 4 1 (at_eosp pa) w;
            w = set_bits16 5 2 (at_ack_policy pa) w;
            w = (if at_amsdu pa \<noteq> 0 then set_bits16 7 1 (at_amsdu pa) w else w)
        in Some (put16 p w h)))"

text \<open>A-MPDU aggregation is re-checked against the first sequence number of the block acknowledgement session.\<close>

definition ba_recheck :: "xmit_attrib \<Rightarrow> u16 \<Rightarrow> sta_info \<Rightarrow> xmit_attrib \<times> sta_info" where
  "ba_recheck pa seq s =
     (if at_ampdu_en pa then
        (let t = unat (at_priority pa AND 0xf); tx_seq = si_BA_starting_seqctrl s ! t in
         if SN_LESS seq tx_seq then (pa\<lparr>at_ampdu_en := False\<rparr>, s)
         else if SN_EQUAL seq tx_seq then (pa, s\<lparr>si_BA_starting_seqctrl := (si_BA_starting_seqctrl s)[t := (tx_seq + 1) AND 0xfff]\<rparr>)
         else (pa, s\<lparr>si_BA_starting_seqctrl := (si_BA_starting_seqctrl s)[t := (seq + 1) AND 0xfff]\<rparr>))
      else (pa, s))"

definition WIFI_DATA_TYPE8 :: u8 where "WIFI_DATA_TYPE8 = 8"

type_synonym hdr_built = "ret \<times> adapter \<times> xmit_attrib \<times> bytes"

definition wlanhdr_seq :: "adapter \<Rightarrow> xmit_attrib \<Rightarrow> bytes \<Rightarrow> hdr_built option" where
  "wlanhdr_seq ad pa h =
     (case ad_get_sta ad (at_ra pa) of
        None \<Rightarrow> Some (RET_FAIL, ad, pa, h)
      | Some i \<Rightarrow>
          if at_psta pa \<noteq> Some i \<or> si_state (sta_of ad i) AND WIFI_ASOC_STATE = 0 then Some (RET_FAIL, ad, pa, h)
          else do {
            let s = sta_of ad i;
            let t = unat (at_priority pa);
            n \<leftarrow> idx (si_txseq_tid s) t;
            let seq = (n + 1) AND 0xFFF;
            let (pa, s) = ba_recheck (pa\<lparr>at_seqnum := seq\<rparr>) seq (s\<lparr>si_txseq_tid := (si_txseq_tid s)[t := seq]\<rparr>);
            Some (RET_SUCCESS, upd_sta i (\<lambda>_. s) ad, pa, SetSeqNum seq h)
          })"

definition rtw_make_wlanhdr :: "tx_env \<Rightarrow> adapter \<Rightarrow> xmit_attrib \<Rightarrow> hdr_built option" where
  "rtw_make_wlanhdr env ad pa =
     (let h = set_frame_sub_type (at_subtype pa) (replicate WLANHDR_OFFSET 0) in
      if at_subtype pa AND WIFI_DATA_TYPE8 = 0 then Some (RET_SUCCESS, ad, pa, h)
      else
       (case wlanhdr_addrs env pa h of
          None \<Rightarrow> Some (RET_FAIL, ad, pa, h)
        | Some (h, qos_option) \<Rightarrow> do {
            let h = (if at_mdata pa then SetMData h else h);
            let h = (if at_encrypt pa \<noteq> 0 then SetPrivacy h else h);
            h \<leftarrow> (if qos_option then wlanhdr_qc pa h else Some h);
            wlanhdr_seq ad pa h
          }))"

section \<open>Coalescing\<close>

definition rtw_put_snap :: "u16 \<Rightarrow> bytes" where
  "rtw_put_snap h_proto = [0xaa, 0xaa, 0x03] @ (if h_proto = 0x8137 \<or> h_proto = 0x80f3 then [0, 0, 0xf8] else [0, 0, 0]) @ put_be16 h_proto"

text \<open>An update of the header that starts at an offset of the buffer.\<close>

definition buf_upd :: "nat \<Rightarrow> nat \<Rightarrow> (bytes \<Rightarrow> bytes) \<Rightarrow> bytes \<Rightarrow> bytes option" where
  "buf_upd p n g buf = do { h \<leftarrow> mem_rd buf p n; mem_wr buf p (g h) }"

text \<open>
  One fragment: header at \<open>mem_start\<close> with the more-fragments bit, IV, the LLC header in the first fragment,
  as much of the packet as fits (all of it for a group frame), room for the ICV. The result has the
  buffer, the end of the fragment, the number of packet bytes written and the rest of the packet.
\<close>

definition put_frag :: "xmit_attrib \<Rightarrow> u32 \<Rightarrow> bool \<Rightarrow> nat \<Rightarrow> bytes \<Rightarrow> bytes \<Rightarrow> (bytes \<times> nat \<times> nat \<times> bytes) option" where
  "put_frag pa frag_len first mem_start pktfile buf = do {
     buf \<leftarrow> buf_upd mem_start 2 SetMFrag buf;
     let icv = (if at_icv_len pa > 0 \<and> at_bswenc pa then take (unat (at_icv_len pa)) (at_icv pa) else []);
     let llc = (if first then rtw_put_snap (at_ether_type pa) else []);
     let mpdu_len = frag_len - 4 - ucast (at_hdrlen pa) - ucast (at_iv_len pa) - of_nat (length llc)
                    - (if at_icv_len pa > 0 \<and> at_bswenc pa then ucast (at_icv_len pa) else 0);
     let (data, pktfile) = rtw_pktfile_read pktfile (if IS_MCAST (at_ra pa) then at_pktlen pa else mpdu_len);
     let pframe = mem_start + unat (at_hdrlen pa);
     let mpdu = take (unat (at_iv_len pa)) (at_iv pa) @ llc @ data @ icv;
     buf \<leftarrow> mem_wr buf pframe mpdu;
     Some (buf, pframe + length mpdu, length data, pktfile)
   }"

definition last_txcmdsz :: "xmit_attrib \<Rightarrow> nat \<Rightarrow> nat \<Rightarrow> nat \<Rightarrow> u32" where
  "last_txcmdsz pa frags llc_sz mem_sz =
     ucast (at_hdrlen pa) + ucast (at_iv_len pa) + (if frags = 1 then of_nat llc_sz else 0)
     + (if at_bswenc pa then ucast (at_icv_len pa) else 0) + of_nat mem_sz"

text \<open>The address of the next header; the buffer is at \<open>base\<close>.\<close>

definition next_mem :: "nat \<Rightarrow> nat \<Rightarrow> nat \<Rightarrow> nat" where
  "next_mem base hw pframe = RND4 (base + pframe) - base + hw"

lemma mem_wr_length: "mem_wr buf p src = Some buf' \<Longrightarrow> length buf' = length buf \<and> p + length src \<le> length buf"
  by (auto simp: mem_wr_def split: if_splits)

lemma put_frag_bounds:
  assumes "put_frag pa fl first ms pk buf = Some (buf', e, n, rest)"
  shows "length buf' = length buf" "ms + unat (at_hdrlen pa) \<le> e" "e \<le> length buf"
  using assms unfolding put_frag_def Let_def buf_upd_def rtw_pktfile_read_def
  by (auto simp: bind_Some dest!: mem_wr_length)

text \<open>
  The loop over the fragments. A fragment that writes nothing and whose successor would have the same
  place means that the loop does not end; it is the second \<open>None\<close>, as a write behind the buffer.
\<close>

function coalesce_loop :: "xmit_attrib \<Rightarrow> u32 \<Rightarrow> nat \<Rightarrow> nat \<Rightarrow> nat \<Rightarrow> nat \<Rightarrow> bytes \<Rightarrow> bytes \<Rightarrow> (nat \<times> u32 \<times> bytes) option" where
  "coalesce_loop pa frag_len base hw frg_inx mem_start pktfile buf =
     (case put_frag pa frag_len (frg_inx = 0) mem_start pktfile buf of
        None \<Rightarrow> None
      | Some (buf, pframe, mem_sz, pktfile) \<Rightarrow>
          if IS_MCAST (at_ra pa) \<or> rtw_endofpktfile pktfile then
            (case buf_upd mem_start 2 ClearMFrag buf of
               None \<Rightarrow> None
             | Some buf \<Rightarrow> Some (Suc frg_inx, last_txcmdsz pa (Suc frg_inx) (if frg_inx = 0 then 8 else 0) mem_sz, buf))
          else if next_mem base hw pframe \<le> mem_start then None
          else
           (let mem_start = next_mem base hw pframe in
            case mem_rd buf hw (unat (at_hdrlen pa)) of
              None \<Rightarrow> None
            | Some h \<Rightarrow>
                (case mem_wr buf mem_start h of
                   None \<Rightarrow> None
                 | Some buf \<Rightarrow> coalesce_loop pa frag_len base hw (Suc frg_inx) mem_start pktfile buf)))"
  by pat_completeness auto
termination
proof (relation "measure (\<lambda>(pa, fl, base, hw, i, ms, pk, buf). Suc (length buf) - ms)", simp, goal_cases)
  case (1 pa fl base hw i ms pk buf x b y pf z n rest ms' h b')
  then have p: "put_frag pa fl (i = 0) ms pk buf = Some (b, pf, n, rest)" by simp
  note bd = put_frag_bounds [OF p]
  have w: "mem_wr b ms' h = Some b'" using 1 by simp
  have "length b' = length buf" "ms' \<le> length buf" using mem_wr_length [OF w] bd(1) by auto
  then show ?case using 1 by simp
qed
declare coalesce_loop.simps [simp del]


section \<open>The Michael code of the frame\<close>

text \<open>The payload of the fragments in order, as the code walks over them, and the place behind the last one.\<close>

fun mic_frags :: "xmit_attrib \<Rightarrow> u32 \<Rightarrow> nat \<Rightarrow> nat \<Rightarrow> nat \<Rightarrow> mic_data \<Rightarrow> bytes \<Rightarrow> (mic_data \<times> nat) option" where
  "mic_frags pa frag_len base 0 payload d buf = Some (d, payload)"
| "mic_frags pa frag_len base (Suc n) payload d buf =
     (let payload = RND4 (base + payload) - base + unat (at_hdrlen pa) + unat (at_iv_len pa);
          len = (if n = 0 then at_last_txcmdsz pa else frag_len) - ucast (at_hdrlen pa) - ucast (at_iv_len pa)
                - (if at_bswenc pa then ucast (at_icv_len pa) else 0) in
       (case mem_rd buf payload (unat len) of
          None \<Rightarrow> None
        | Some b \<Rightarrow> mic_frags pa frag_len base n (payload + unat len + (if n = 0 then 0 else unat (at_icv_len pa))) (rtw_secmicappend d b) buf))"

definition mic_pseudo :: "bytes \<Rightarrow> mic_data \<Rightarrow> mic_data" where
  "mic_pseudo h d =
     (let addr = (\<lambda>p. take 6 (drop p h)) in
      if h ! 1 AND 1 \<noteq> 0
      then rtw_secmicappend (rtw_secmicappend d (addr 16)) (if h ! 1 AND 2 \<noteq> 0 then addr 24 else addr 10)
      else rtw_secmicappend (rtw_secmicappend d (addr 4)) (if h ! 1 AND 2 \<noteq> 0 then addr 16 else addr 10))"

definition xmitframe_addmic :: "tx_env \<Rightarrow> security_priv \<Rightarrow> xmit_attrib \<Rightarrow> bytes \<Rightarrow> (ret \<times> xmit_attrib \<times> bytes) option" where
  "xmitframe_addmic env sec pa buf =
     (if at_encrypt pa \<noteq> TKIP then Some (RET_SUCCESS, pa, buf)
      else do {
        key \<leftarrow> (if IS_MCAST (at_ra pa) then idx (dot118021XGrptxmickey sec) (unat (dot118021XGrpKeyid sec)) else Some (at_tkiptxmickey pa));
        if take 16 key = replicate 16 0 then Some (RET_FAIL, pa, buf)
        else do {
          let hw = hw_hdr_offset (mx_pkt_offset env);
          h \<leftarrow> mem_rd buf hw 30;
          let d = rtw_secmicsetkey key \<lparr>mic_K0 = 0, mic_K1 = 0, mic_L = 0, mic_R = 0, mic_M = 0, nBytesInM = 0\<rparr>;
          let d = rtw_secmicappend (mic_pseudo h d) [if at_qos_en pa then at_priority pa else 0, 0, 0, 0];
          (d, payload) \<leftarrow> mic_frags pa (mx_frag_len env) (mx_base env) (unat (at_nr_frags pa)) hw d buf;
          buf \<leftarrow> mem_wr buf payload (fst (rtw_secgetmic d));
          Some (RET_SUCCESS, pa\<lparr>at_last_txcmdsz := at_last_txcmdsz pa + 8\<rparr>, buf)
        }
      })"

section \<open>Virtual carrier sense\<close>

definition NONE_VCS :: u8 where "NONE_VCS = 0"
definition RTS_CTS :: u8 where "RTS_CTS = 1"
definition CTS_TO_SELF :: u8 where "CTS_TO_SELF = 2"

definition validate_vcs :: "vcs_env \<Rightarrow> u8 \<Rightarrow> u8" where
  "validate_vcs e mode =
     (if vs_vrtl_carrier_sense e = 0 then NONE_VCS
      else if vs_vrtl_carrier_sense e = 1 then vs_vcs_type e
      else if vs_vrtl_carrier_sense e = 2 then mode
      else NONE_VCS)"

definition erp_mode :: "xmit_attrib \<Rightarrow> u8" where
  "erp_mode pa = (if at_rtsen pa then RTS_CTS else if at_cts2self pa then CTS_TO_SELF else NONE_VCS)"

definition vcs_choice :: "vcs_env \<Rightarrow> security_priv \<Rightarrow> u32 \<Rightarrow> xmit_attrib \<Rightarrow> u8" where
  "vcs_choice e sec sz pa =
     (if vs_cur_wireless_mode e < 8 \<or> vs_wifi_spec e then
        (if sz > ucast (vs_rts_thresh e) then RTS_CTS else erp_mode pa)
      else if vs_assoc_AP_vendor e = 5 \<and> at_ampdu_en pa \<and> dot11PrivacyAlgrthm sec = ucast AES then CTS_TO_SELF
      else if at_rtsen pa \<or> at_cts2self pa then erp_mode pa
      else if at_ht_en pa \<and> (if vs_cur_bwmode e \<noteq> 0 then vs_HT_protection e = 2 \<or> vs_HT_protection e = 3 else vs_HT_protection e = 3) then RTS_CTS
      else if sz > ucast (vs_rts_thresh e) then RTS_CTS
      else if at_ampdu_en pa then RTS_CTS
      else NONE_VCS)"

definition update_attrib_vcs_info :: "tx_env \<Rightarrow> security_priv \<Rightarrow> xmit_attrib \<Rightarrow> xmit_attrib" where
  "update_attrib_vcs_info env sec pa =
     (let e = tx_vcs env; sz = (if at_nr_frags pa \<noteq> 1 then mx_frag_len env else at_last_txcmdsz pa);
          m = validate_vcs e (vcs_choice e sec sz pa)
      in pa\<lparr>at_vcs_mode := case vs_driver_vcs e of None \<Rightarrow> m | Some t \<Rightarrow> t\<rparr>)"

section \<open>The whole frame\<close>

definition rtw_xmitframe_coalesce :: "tx_env \<Rightarrow> adapter \<Rightarrow> security_priv \<Rightarrow> bytes \<Rightarrow> xmit_attrib \<Rightarrow> bytes option \<Rightarrow>
    (ret \<times> adapter \<times> xmit_attrib \<times> bytes option) option" where
  "rtw_xmitframe_coalesce env ad sec pkt pa buf_addr =
     (case buf_addr of
        None \<Rightarrow> Some (RET_FAIL, ad, pa, None)
      | Some buf \<Rightarrow> do {
          let hw = hw_hdr_offset (mx_pkt_offset env);
          (r, ad, pa, h) \<leftarrow> rtw_make_wlanhdr env ad pa;
          buf \<leftarrow> mem_wr buf hw h;
          if r = RET_FAIL then Some (RET_FAIL, ad, pa, Some buf)
          else do {
            let pktfile = snd (rtw_pktfile_read pkt (ucast (at_pkt_hdrlen pa)));
            (n, sz, buf) \<leftarrow> coalesce_loop pa (mx_frag_len env) (mx_base env) hw 0 hw pktfile buf;
            let pa = pa\<lparr>at_nr_frags := of_nat n, at_last_txcmdsz := sz\<rparr>;
            (r, pa, buf) \<leftarrow> xmitframe_addmic env sec pa buf;
            if r = RET_FAIL then Some (RET_FAIL, ad, pa, Some buf)
            else do {
              buf \<leftarrow> xmitframe_swencrypt (mgmt_env.truncate env) sec (pkt_attrib.truncate pa) buf;
              Some (RET_SUCCESS, ad,
                if IS_MCAST (at_ra pa) then pa\<lparr>at_vcs_mode := NONE_VCS\<rparr> else update_attrib_vcs_info env sec pa, Some buf)
            }
          }
        })"

section \<open>Header layout\<close>

definition le2 :: "u16 \<Rightarrow> bytes" where
  "le2 v = [ucast v, ucast (drop_bit 8 v)]"

definition wlanhdr :: "u16 \<Rightarrow> bytes \<Rightarrow> bytes \<Rightarrow> bytes \<Rightarrow> u16 \<Rightarrow> bytes \<Rightarrow> bytes" where
  "wlanhdr fc a1 a2 a3 sc r = le2 fc @ [0, 0] @ a1 @ a2 @ a3 @ le2 sc @ r"

lemma le2_length [simp]: "length (le2 v) = 2"
  by (simp add: le2_def)

lemma le2_u16: "ucast (ucast v :: u8) OR push_bit 8 (ucast (ucast (drop_bit 8 v) :: u8)) = (v :: u16)"
  by (rule bit_word_eqI) (auto simp: bit_simps)

lemma le16_le2 [simp]: "le16_at (le2 v @ r) 0 = v" "put16 0 w (le2 v @ r) = le2 w @ r"
  by (simp_all add: le16_at_def put16_def le2_def le2_u16)

lemma le16_shift: "le16_at (xs @ ys) (length xs) = le16_at ys 0" "put16 (length xs) w (xs @ ys) = xs @ put16 0 w ys"
  by (simp_all add: le16_at_def put16_def nth_append list_update_append)

lemma wlanhdr_zero: "replicate 64 0 = wlanhdr 0 (replicate 6 0) (replicate 6 0) (replicate 6 0) 0 (replicate 40 0)"
  by (simp add: wlanhdr_def le2_def numeral_eq_Suc)

lemma wlanhdr_fc [simp]: "le16_at (wlanhdr fc a1 a2 a3 sc r) 0 = fc" "put16 0 w (wlanhdr fc a1 a2 a3 sc r) = wlanhdr w a1 a2 a3 sc r"
  by (simp_all add: wlanhdr_def)

lemma wlanhdr_sc:
  assumes "length a1 = 6" "length a2 = 6" "length a3 = 6"
  shows "le16_at (wlanhdr fc a1 a2 a3 sc r) 22 = sc" "put16 22 w (wlanhdr fc a1 a2 a3 sc r) = wlanhdr fc a1 a2 a3 w r"
proof -
  have e: "wlanhdr fc a1 a2 a3 v r = (le2 fc @ [0, 0] @ a1 @ a2 @ a3) @ le2 v @ r" for v by (simp add: wlanhdr_def)
  have l: "22 = length (le2 fc @ [0, 0] @ a1 @ a2 @ a3)" using assms by simp
  show "le16_at (wlanhdr fc a1 a2 a3 sc r) 22 = sc" "put16 22 w (wlanhdr fc a1 a2 a3 sc r) = wlanhdr fc a1 a2 a3 w r"
    unfolding e l le16_shift by simp_all
qed

lemma wlanhdr_qos:
  assumes "length a1 = 6" "length a2 = 6" "length a3 = 6"
  shows "le16_at (wlanhdr fc a1 a2 a3 sc (le2 q @ r)) 24 = q" "put16 24 w (wlanhdr fc a1 a2 a3 sc (le2 q @ r)) = wlanhdr fc a1 a2 a3 sc (le2 w @ r)"
proof -
  have e: "wlanhdr fc a1 a2 a3 sc (le2 v @ r) = (le2 fc @ [0, 0] @ a1 @ a2 @ a3 @ le2 sc) @ le2 v @ r" for v by (simp add: wlanhdr_def)
  have l: "24 = length (le2 fc @ [0, 0] @ a1 @ a2 @ a3 @ le2 sc)" using assms by simp
  show "le16_at (wlanhdr fc a1 a2 a3 sc (le2 q @ r)) 24 = q" "put16 24 w (wlanhdr fc a1 a2 a3 sc (le2 q @ r)) = wlanhdr fc a1 a2 a3 sc (le2 w @ r)"
    unfolding e l le16_shift by simp_all
qed

lemma wlanhdr_addr:
  assumes "length a1 = 6" "length a2 = 6" "length a3 = 6" "length a = 6"
  shows "put_addr 4 a (wlanhdr fc a1 a2 a3 sc r) = wlanhdr fc a a2 a3 sc r"
    "put_addr 10 a (wlanhdr fc a1 a2 a3 sc r) = wlanhdr fc a1 a a3 sc r"
    "put_addr 16 a (wlanhdr fc a1 a2 a3 sc r) = wlanhdr fc a1 a2 a sc r"
  using assms by (simp_all add: put_addr_def wlanhdr_def le2_def)

lemma wlanhdr_rd:
  assumes "length a1 = 6" "length a2 = 6" "length a3 = 6"
  shows "take 2 (wlanhdr fc a1 a2 a3 sc r) = le2 fc" "take 6 (drop 4 (wlanhdr fc a1 a2 a3 sc r)) = a1"
    "take 6 (drop 10 (wlanhdr fc a1 a2 a3 sc r)) = a2" "take 6 (drop 16 (wlanhdr fc a1 a2 a3 sc r)) = a3"
    "take 2 (drop 22 (wlanhdr fc a1 a2 a3 sc r)) = le2 sc" "drop 24 (wlanhdr fc a1 a2 a3 sc r) = r"
    "length (wlanhdr fc a1 a2 a3 sc r) = 24 + length r"
  using assms by (simp_all add: wlanhdr_def le2_def)

lemma hdr_or_wlanhdr [simp]: "hdr_or m (wlanhdr fc a1 a2 a3 sc r) = wlanhdr (fc OR m) a1 a2 a3 sc r"
  "set_frame_sub_type t (wlanhdr fc a1 a2 a3 sc r) = wlanhdr (fc AND NOT 0xFC OR ucast t) a1 a2 a3 sc r"
  by (simp_all add: hdr_or_def set_frame_sub_type_def)

section \<open>The header of an access point's data frame\<close>

definition qc_word :: "xmit_attrib \<Rightarrow> u16" where
  "qc_word pa = set_bits16 5 2 (at_ack_policy pa) (set_bits16 4 1 (at_eosp pa) (set_bits16 0 4 (at_priority pa) 0))"

lemma set_bits16_zero: "set_bits16 p n 0 0 = 0"
  by (simp add: set_bits16_def)

text \<open>What the header is made of: an access point that sends unaggregated data to an associated station.\<close>

definition ap_sends :: "tx_env \<Rightarrow> adapter \<Rightarrow> xmit_attrib \<Rightarrow> nat \<Rightarrow> bool" where
  "ap_sends env ad pa i \<longleftrightarrow> \<not> check_fwstate (tx_mlme env) WIFI_STATION_STATE \<and> check_fwstate (tx_mlme env) WIFI_AP_STATE
     \<and> at_subtype pa = (if at_qos_en pa then 0x88 else 0x08) \<and> at_hdrlen pa = (if at_qos_en pa then 26 else 24)
     \<and> length (at_dst pa) = 6 \<and> length (at_src pa) = 6 \<and> length (ve_bssid (tx_mlme env)) = 6 \<and> at_amsdu pa = 0
     \<and> ad_get_sta ad (at_ra pa) = Some i \<and> at_psta pa = Some i \<and> si_state (sta_of ad i) AND WIFI_ASOC_STATE \<noteq> 0
     \<and> unat (at_priority pa) < length (si_txseq_tid (sta_of ad i))"

definition next_seq :: "adapter \<Rightarrow> nat \<Rightarrow> xmit_attrib \<Rightarrow> u16" where
  "next_seq ad i pa = (si_txseq_tid (sta_of ad i) ! unat (at_priority pa) + 1) AND 0xFFF"

definition ap_fc :: "xmit_attrib \<Rightarrow> u16" where
  "ap_fc pa = ucast (at_subtype pa) OR 0x200 OR (if at_mdata pa then 0x2000 else 0) OR (if at_encrypt pa \<noteq> 0 then 0x4000 else 0)"

lemma seq_field: "(0 :: u16) AND 0xF OR (push_bit 4 n AND 0xFFF0) = push_bit 4 n"
proof -
  have e: "(0xFFF0 :: u16) = push_bit 4 (mask 12)" by (simp add: mask_eq_exp_minus_1)
  show ?thesis unfolding e by (rule bit_word_eqI) (auto simp: bit_simps)
qed

lemma ba_recheck_cases:
  obtains b bas where "ba_recheck pa seq s = (pa\<lparr>at_ampdu_en := b\<rparr>, s\<lparr>si_BA_starting_seqctrl := bas\<rparr>)"
proof -
  have "\<exists>b bas. ba_recheck pa seq s = (pa\<lparr>at_ampdu_en := b\<rparr>, s\<lparr>si_BA_starting_seqctrl := bas\<rparr>)"
  proof (cases "at_ampdu_en pa")
    case False
    then have "ba_recheck pa seq s = (pa\<lparr>at_ampdu_en := at_ampdu_en pa\<rparr>, s\<lparr>si_BA_starting_seqctrl := si_BA_starting_seqctrl s\<rparr>)"
      by (simp add: ba_recheck_def)
    then show ?thesis by blast
  next
    case True
    let ?t = "unat (at_priority pa AND 0xf)"
    let ?q = "si_BA_starting_seqctrl s ! ?t"
    let ?b = "\<not> SN_LESS seq ?q"
    let ?v = "if SN_LESS seq ?q then si_BA_starting_seqctrl s else (si_BA_starting_seqctrl s)[?t := (seq + 1) AND 0xfff]"
    have "ba_recheck pa seq s = (pa\<lparr>at_ampdu_en := ?b\<rparr>, s\<lparr>si_BA_starting_seqctrl := ?v\<rparr>)"
      using True by (simp add: ba_recheck_def Let_def SN_EQUAL_def)
    then show ?thesis by blast
  qed
  then show thesis using that by blast
qed

lemma wlanhdr_qc_word:
  assumes "at_hdrlen pa = 26" "at_amsdu pa = 0" "length a1 = 6" "length a2 = 6" "length a3 = 6"
  shows "wlanhdr_qc pa (wlanhdr fc a1 a2 a3 sc (replicate 40 0)) = Some (wlanhdr fc a1 a2 a3 sc (le2 (qc_word pa) @ replicate 38 0))"
proof -
  have z: "replicate 40 (0 :: u8) = le2 0 @ replicate 38 0" by (simp add: le2_def numeral_eq_Suc)
  show ?thesis
    unfolding z wlanhdr_qc_def using assms(1,2)
    by (simp add: wlanhdr_qos [OF assms(3-5)] qc_word_def WLANHDR_OFFSET_def set_bits16_zero)
qed

lemma make_wlanhdr_ap:
  assumes "ap_sends env ad pa i"
  obtains b bas r where "rtw_make_wlanhdr env ad pa = Some (RET_SUCCESS,
      upd_sta i (\<lambda>s. s\<lparr>si_txseq_tid := (si_txseq_tid s)[unat (at_priority pa) := next_seq ad i pa], si_BA_starting_seqctrl := bas\<rparr>) ad,
      pa\<lparr>at_seqnum := next_seq ad i pa, at_ampdu_en := b\<rparr>,
      wlanhdr (ap_fc pa) (at_dst pa) (ve_bssid (tx_mlme env)) (at_src pa) (push_bit 4 (next_seq ad i pa)) r)"
    "r = (if at_qos_en pa then le2 (qc_word pa) @ replicate 38 0 else replicate 40 0)"
proof -
  note a = assms [unfolded ap_sends_def]
  let ?r = "if at_qos_en pa then le2 (qc_word pa) @ replicate 38 0 else replicate 40 0"
  let ?b = "ve_bssid (tx_mlme env)" and ?z = "replicate 6 0 :: bytes" and ?q = "next_seq ad i pa"
  let ?s = "(sta_of ad i)\<lparr>si_txseq_tid := (si_txseq_tid (sta_of ad i))[unat (at_priority pa) := ?q]\<rparr>"
  have z: "length ?z = 6" by simp
  have l: "length (at_dst pa) = 6" "length ?b = 6" "length (at_src pa) = 6" using a by simp_all
  obtain b bas where ba: "ba_recheck (pa\<lparr>at_seqnum := ?q\<rparr>) ?q ?s = (pa\<lparr>at_seqnum := ?q, at_ampdu_en := b\<rparr>, ?s\<lparr>si_BA_starting_seqctrl := bas\<rparr>)"
    using ba_recheck_cases [of "pa\<lparr>at_seqnum := ?q\<rparr>" ?q ?s] by metis
  have "wlanhdr_addrs env pa (wlanhdr fc ?z ?z ?z sc r) = Some (wlanhdr (fc OR 0x200) (at_dst pa) ?b (at_src pa) sc r, at_qos_en pa)" for fc sc r
    unfolding wlanhdr_addrs_def SetFrDs_def Let_def using a l z by (simp add: wlanhdr_addr)
  moreover have "wlanhdr_qc pa (wlanhdr fc (at_dst pa) ?b (at_src pa) 0 (replicate 40 0)) = Some (wlanhdr fc (at_dst pa) ?b (at_src pa) 0 ?r)"
    if "at_qos_en pa" for fc
    using a l wlanhdr_qc_word that by simp
  moreover have "wlanhdr_seq ad pa (wlanhdr fc (at_dst pa) ?b (at_src pa) 0 r) = Some (RET_SUCCESS,
      upd_sta i (\<lambda>s. s\<lparr>si_txseq_tid := (si_txseq_tid s)[unat (at_priority pa) := ?q], si_BA_starting_seqctrl := bas\<rparr>) ad,
      pa\<lparr>at_seqnum := ?q, at_ampdu_en := b\<rparr>, wlanhdr fc (at_dst pa) ?b (at_src pa) (push_bit 4 ?q) r)" for fc r
  proof -
    have "idx (si_txseq_tid (sta_of ad i)) (unat (at_priority pa)) = Some (si_txseq_tid (sta_of ad i) ! unat (at_priority pa))"
      using a by (simp add: idx_def)
    moreover have "SetSeqNum ?q (wlanhdr fc (at_dst pa) ?b (at_src pa) 0 r) = wlanhdr fc (at_dst pa) ?b (at_src pa) (push_bit 4 ?q) r"
      unfolding SetSeqNum_def by (simp only: wlanhdr_sc [OF l] seq_field)
    ultimately show ?thesis
      unfolding wlanhdr_seq_def using a ba by (simp add: next_seq_def [symmetric] upd_sta_def Let_def)
  qed
  moreover have "at_subtype pa AND WIFI_DATA_TYPE8 \<noteq> 0" using a by (simp add: WIFI_DATA_TYPE8_def)
  ultimately have "rtw_make_wlanhdr env ad pa = Some (RET_SUCCESS,
      upd_sta i (\<lambda>s. s\<lparr>si_txseq_tid := (si_txseq_tid s)[unat (at_priority pa) := ?q], si_BA_starting_seqctrl := bas\<rparr>) ad,
      pa\<lparr>at_seqnum := ?q, at_ampdu_en := b\<rparr>,
      wlanhdr (ap_fc pa) (at_dst pa) ?b (at_src pa) (push_bit 4 ?q) ?r)"
    unfolding rtw_make_wlanhdr_def Let_def WLANHDR_OFFSET_def wlanhdr_zero
    by (cases "at_mdata pa"; cases "at_encrypt pa = 0"; cases "at_qos_en pa") (simp_all add: SetMData_def SetPrivacy_def ap_fc_def or.assoc)
  then show thesis using that by blast
qed


section \<open>A frame in one fragment\<close>

lemma mfrag_le2: "SetMFrag (le2 fc) = le2 (fc OR 0x400)" "ClearMFrag (le2 fc) = le2 (fc AND NOT 0x400)"
  using le16_le2(1) [where v = fc and r = "[]"] le16_le2(2) [where v = fc and r = "[]"] by (simp_all add: SetMFrag_def ClearMFrag_def hdr_or_def)

lemma buf_upd_append:
  assumes "length pre = p" "length (g (le2 fc)) = 2"
  shows "buf_upd p 2 g (pre @ le2 fc @ r) = Some (pre @ g (le2 fc) @ r)"
  using assms by (simp add: buf_upd_def mem_rd_append mem_wr_append)

text \<open>What a fragment holds behind its header, and how many bytes of the packet are in it.\<close>

definition frag_room :: "xmit_attrib \<Rightarrow> u32 \<Rightarrow> bool \<Rightarrow> u32" where
  "frag_room pa frag_len first = frag_len - 4 - ucast (at_hdrlen pa) - ucast (at_iv_len pa) - (if first then 8 else 0)
     - (if at_icv_len pa > 0 \<and> at_bswenc pa then ucast (at_icv_len pa) else 0)"

definition frag_data :: "xmit_attrib \<Rightarrow> u32 \<Rightarrow> bool \<Rightarrow> bytes \<Rightarrow> bytes" where
  "frag_data pa frag_len first pk = take (unat (if IS_MCAST (at_ra pa) then at_pktlen pa else frag_room pa frag_len first)) pk"

definition frag_mpdu :: "xmit_attrib \<Rightarrow> bool \<Rightarrow> bytes \<Rightarrow> bytes" where
  "frag_mpdu pa first data = take (unat (at_iv_len pa)) (at_iv pa) @ (if first then rtw_put_snap (at_ether_type pa) else []) @ data
     @ (if at_icv_len pa > 0 \<and> at_bswenc pa then take (unat (at_icv_len pa)) (at_icv pa) else [])"

lemma put_snap_length [simp]: "length (rtw_put_snap t) = 8"
  by (simp add: rtw_put_snap_def put_be16_def)

lemma put_frag_layout:
  assumes "length pre = ms" "2 + length hr = unat (at_hdrlen pa)"
    and "data = frag_data pa fl first pk" "mpdu = frag_mpdu pa first data" "length mpdu \<le> length room"
  shows "put_frag pa fl first ms pk (pre @ le2 fc @ hr @ room) =
    Some (pre @ le2 (fc OR 0x400) @ hr @ mpdu @ drop (length mpdu) room, ms + unat (at_hdrlen pa) + length mpdu, length data, drop (length data) pk)"
proof -
  have u: "buf_upd ms 2 SetMFrag (pre @ le2 fc @ hr @ room) = Some (pre @ le2 (fc OR 0x400) @ hr @ room)"
    using buf_upd_append [OF assms(1), of SetMFrag fc "hr @ room"] by (simp add: mfrag_le2)
  have l: "length (pre @ le2 (fc OR 0x400) @ hr) = ms + unat (at_hdrlen pa)" using assms(1,2) by simp
  have "(pre @ le2 (fc OR 0x400) @ hr) @ take (length mpdu) room @ drop (length mpdu) room = pre @ le2 (fc OR 0x400) @ hr @ room" by simp
  then have w: "mem_wr (pre @ le2 (fc OR 0x400) @ hr @ room) (ms + unat (at_hdrlen pa)) mpdu = Some (pre @ le2 (fc OR 0x400) @ hr @ mpdu @ drop (length mpdu) room)"
    using mem_wr_append [OF l, of "take (length mpdu) room" mpdu "drop (length mpdu) room"] assms(5) by simp
  define n where "n = (if IS_MCAST (at_ra pa) then at_pktlen pa else frag_room pa fl first)"
  have d: "data = take (unat n) pk" "drop (length data) pk = drop (unat n) pk" using assms(3) by (simp_all add: frag_data_def n_def min_def)
  have fr: "fl - 4 - ucast (at_hdrlen pa) - ucast (at_iv_len pa) - of_nat (length (if first then rtw_put_snap (at_ether_type pa) else []))
      - (if at_icv_len pa > 0 \<and> at_bswenc pa then ucast (at_icv_len pa) else 0) = frag_room pa fl first"
    by (simp add: frag_room_def)
  have m: "take (unat (at_iv_len pa)) (at_iv pa) @ (if first then rtw_put_snap (at_ether_type pa) else []) @ take (unat n) pk
     @ (if at_icv_len pa > 0 \<and> at_bswenc pa then take (unat (at_icv_len pa)) (at_icv pa) else []) = mpdu"
    using assms(4) d(1) by (simp add: frag_mpdu_def)
  show ?thesis
    unfolding put_frag_def u bind.bind_lunit Let_def rtw_pktfile_read_def fr prod.case n_def [symmetric] m w d(2) by (simp add: d(1))
qed

text \<open>A packet that fits is one fragment.\<close>

lemma coalesce_loop_one:
  assumes "length pre = ms" "2 + length hr = unat (at_hdrlen pa)" "frag_data pa fl True pk = pk"
    and "mpdu = frag_mpdu pa True pk" "length mpdu \<le> length room" "\<not> bit fc 10"
  shows "coalesce_loop pa fl base hw 0 ms pk (pre @ le2 fc @ hr @ room) =
    Some (1, last_txcmdsz pa 1 8 (length pk), pre @ le2 fc @ hr @ mpdu @ drop (length mpdu) room)"
proof -
  note pf = put_frag_layout [where fl = fl and first = True and pk = pk and mpdu = mpdu and room = room and fc = fc, OF assms(1,2) refl, unfolded assms(3), OF assms(4,5)]
  have f: "(fc OR 0x400) AND NOT 0x400 = fc"
  proof -
    define m :: u16 where "m = 2 ^ 10"
    have e: "(0x400 :: u16) = m" by (simp add: m_def)
    have b: "bit m n \<longleftrightarrow> n = 10" for n unfolding m_def bit_exp_iff by auto
    show ?thesis unfolding e by (rule bit_word_eqI) (use assms(6) in \<open>auto simp: bit_simps b\<close>)
  qed
  have u: "buf_upd ms 2 ClearMFrag (pre @ le2 (fc OR 0x400) @ r) = Some (pre @ le2 fc @ r)" for r
    using buf_upd_append [OF assms(1), of ClearMFrag "fc OR 0x400" r] unfolding mfrag_le2 f by simp
  show ?thesis
    by (subst coalesce_loop.simps) (simp add: pf rtw_endofpktfile_def u)
qed


lemma subtype_bit: "\<not> bit (ap_fc pa) 10"
proof -
  have "bit (0x200 :: u16) 10 = False" "bit (0x2000 :: u16) 10 = False" "bit (0x4000 :: u16) 10 = False" by simp_all
  then show ?thesis unfolding ap_fc_def by (auto simp: bit_or_iff bit_ucast_iff dest: bit_imp_le_length)
qed

lemma coalesce_plain_ap:
  assumes ap: "ap_sends env ad pa i" "at_encrypt pa = 0" "at_iv_len pa = 0" "at_icv_len pa = 0" "\<not> at_bswenc pa"
    and pkt: "pkt = eth @ m" "length eth = unat (at_pkt_hdrlen pa)" "frag_data pa (mx_frag_len env) True m = m"
    and buf: "hw_hdr_offset (mx_pkt_offset env) + 64 \<le> length buf" "hw_hdr_offset (mx_pkt_offset env) + unat (at_hdrlen pa) + 8 + length m \<le> length buf"
  obtains ad' pa' buf' where "rtw_xmitframe_coalesce env ad sec pkt pa (Some buf) = Some (RET_SUCCESS, ad', pa', Some buf')"
    "at_last_txcmdsz pa' = ucast (at_hdrlen pa) + 8 + of_nat (length m)" "length buf' = length buf"
    "take (unat (at_hdrlen pa) + 8 + length m) (drop (hw_hdr_offset (mx_pkt_offset env)) buf') =
      wlanhdr (ap_fc pa) (at_dst pa) (ve_bssid (tx_mlme env)) (at_src pa) (push_bit 4 (next_seq ad i pa))
        ((if at_qos_en pa then le2 (qc_word pa) else []) @ rtw_put_snap (at_ether_type pa) @ m)"
proof -
  let ?hw = "hw_hdr_offset (mx_pkt_offset env)" and ?q = "next_seq ad i pa"
  let ?b = "ve_bssid (tx_mlme env)"
  let ?qc = "if at_qos_en pa then le2 (qc_word pa) else []"
  define hr where "hr = [0, 0] @ at_dst pa @ ?b @ at_src pa @ le2 (push_bit 4 ?q) @ ?qc"
  have hl: "2 + length hr = unat (at_hdrlen pa)" using ap(1) by (simp add: hr_def ap_sends_def)
  obtain bb bas r where h: "rtw_make_wlanhdr env ad pa = Some (RET_SUCCESS,
      upd_sta i (\<lambda>s. s\<lparr>si_txseq_tid := (si_txseq_tid s)[unat (at_priority pa) := ?q], si_BA_starting_seqctrl := bas\<rparr>) ad,
      pa\<lparr>at_seqnum := ?q, at_ampdu_en := bb\<rparr>, wlanhdr (ap_fc pa) (at_dst pa) ?b (at_src pa) (push_bit 4 ?q) r)"
    and r: "r = (if at_qos_en pa then le2 (qc_word pa) @ replicate 38 0 else replicate 40 0)"
    using make_wlanhdr_ap [OF ap(1)] .
  define z where "z = (if at_qos_en pa then replicate 38 0 else replicate 40 0 :: bytes)"
  have w: "wlanhdr (ap_fc pa) (at_dst pa) ?b (at_src pa) (push_bit 4 ?q) r = le2 (ap_fc pa) @ hr @ z"
    by (simp add: wlanhdr_def r hr_def z_def)
  have wl: "length (le2 (ap_fc pa) @ hr @ z) = 64" using ap(1) by (cases "at_qos_en pa") (simp_all add: z_def hr_def ap_sends_def)
  define pre tl where "pre = take ?hw buf" and "tl = drop (?hw + 64) buf"
  have pl: "length pre = ?hw" using buf(1) by (simp add: pre_def)
  have be: "buf = pre @ take 64 (drop ?hw buf) @ tl" by (simp add: pre_def tl_def) (metis append_take_drop_id drop_drop add.commute)
  have mw: "mem_wr buf ?hw (le2 (ap_fc pa) @ hr @ z) = Some (pre @ le2 (ap_fc pa) @ hr @ z @ tl)"
    by (subst be) (use mem_wr_append [OF pl, of "take 64 (drop ?hw buf)" "le2 (ap_fc pa) @ hr @ z" tl] wl buf(1) in simp)
  let ?pa = "pa\<lparr>at_seqnum := ?q, at_ampdu_en := bb\<rparr>"
  define mpdu where "mpdu = rtw_put_snap (at_ether_type pa) @ m"
  have mp: "mpdu = frag_mpdu ?pa True m" using ap by (simp add: mpdu_def frag_mpdu_def)
  have room: "length mpdu \<le> length (z @ tl)"
    using buf hl wl by (simp add: mpdu_def tl_def)
  have fr: "frag_room ?pa fl b = frag_room pa fl b" for fl b by (simp add: frag_room_def)
  have fd: "frag_data ?pa (mx_frag_len env) True m = m" using pkt(3) by (cases "IS_MCAST (at_ra pa)") (simp_all add: frag_data_def fr)
  have cl: "coalesce_loop ?pa (mx_frag_len env) (mx_base env) ?hw 0 ?hw m (pre @ le2 (ap_fc pa) @ hr @ z @ tl) =
     Some (1, last_txcmdsz ?pa 1 8 (length m), pre @ le2 (ap_fc pa) @ hr @ mpdu @ drop (length mpdu) (z @ tl))"
    using coalesce_loop_one [of pre ?hw hr ?pa "mx_frag_len env" m mpdu "z @ tl" "ap_fc pa"] pl hl fd mp room subtype_bit by simp
  have "unat (ucast (at_pkt_hdrlen pa) :: u32) = unat (at_pkt_hdrlen pa)" by (simp add: unsigned_ucast_eq take_bit_word_eq_self)
  then have pf: "snd (rtw_pktfile_read pkt (ucast (at_pkt_hdrlen pa))) = m" using pkt(1,2) by (simp add: rtw_pktfile_read_def)
  let ?pa2 = "?pa\<lparr>at_nr_frags := 1, at_last_txcmdsz := last_txcmdsz ?pa 1 8 (length m)\<rparr>"
  have "\<exists>pa'. rtw_xmitframe_coalesce env ad sec pkt pa (Some buf) = Some (RET_SUCCESS,
     upd_sta i (\<lambda>s. s\<lparr>si_txseq_tid := (si_txseq_tid s)[unat (at_priority pa) := ?q], si_BA_starting_seqctrl := bas\<rparr>) ad, pa',
     Some (pre @ le2 (ap_fc pa) @ hr @ mpdu @ drop (length mpdu) (z @ tl))) \<and> at_last_txcmdsz pa' = last_txcmdsz ?pa 1 8 (length m)"
    using ap(2,5) unfolding rtw_xmitframe_coalesce_def h w Let_def
    by (simp add: mw pf cl xmitframe_addmic_def sec_type_defs xmitframe_swencrypt_def pkt_attrib.defs update_attrib_vcs_info_def Let_def)
  then obtain pa' where res: "rtw_xmitframe_coalesce env ad sec pkt pa (Some buf) = Some (RET_SUCCESS,
     upd_sta i (\<lambda>s. s\<lparr>si_txseq_tid := (si_txseq_tid s)[unat (at_priority pa) := ?q], si_BA_starting_seqctrl := bas\<rparr>) ad, pa',
     Some (pre @ le2 (ap_fc pa) @ hr @ mpdu @ drop (length mpdu) (z @ tl)))" "at_last_txcmdsz pa' = last_txcmdsz ?pa 1 8 (length m)" by blast
  have n: "unat (at_hdrlen pa) + 8 + length m = length (le2 (ap_fc pa) @ hr @ mpdu)" using hl by (simp add: mpdu_def)
  have "take (unat (at_hdrlen pa) + 8 + length m) (drop ?hw (pre @ le2 (ap_fc pa) @ hr @ mpdu @ drop (length mpdu) (z @ tl))) = le2 (ap_fc pa) @ hr @ mpdu"
    unfolding n using pl by simp
  also have "\<dots> = wlanhdr (ap_fc pa) (at_dst pa) ?b (at_src pa) (push_bit 4 ?q) (?qc @ rtw_put_snap (at_ether_type pa) @ m)"
    by (simp add: hr_def mpdu_def wlanhdr_def)
  finally have t: "take (unat (at_hdrlen pa) + 8 + length m) (drop ?hw (pre @ le2 (ap_fc pa) @ hr @ mpdu @ drop (length mpdu) (z @ tl))) = \<dots>" .
  have bl: "length (pre @ le2 (ap_fc pa) @ hr @ mpdu @ drop (length mpdu) (z @ tl)) = length buf"
    using mem_wr_length [OF mw] room by (auto simp del: drop_append)
  show thesis by (rule that [OF res(1) _ bl t]) (use res(2) ap in \<open>simp add: last_txcmdsz_def\<close>)
qed

section \<open>A sample\<close>

definition one_sta :: "bytes \<Rightarrow> sta_priv" where
  "one_sta a = sample_sta_priv\<lparr>pstainfo_buf := (replicate 32 zero_stainfo)[0 := (init_stainfo a)\<lparr>si_state := WIFI_ASOC_STATE\<rparr>],
     free_sta_queue := [1..<32], sta_hash := (replicate 32 [])[unat (wifi_mac_hash a) := [0]], asoc_sta_count := 1\<rparr>"

lemma one_sta_get: "length a = 6 \<Longrightarrow> \<not> IS_MCAST a \<Longrightarrow> rtw_get_stainfo (one_sta a) a = Some 0"
  using wifi_mac_hash_bound [of a] by (simp add: rtw_get_stainfo_def one_sta_def init_stainfo_def NUM_STA_def)

definition sample_tx_env :: tx_env where
  "sample_tx_env = \<lparr>mx_amsdu_mode = 0, mx_m0 = True, mx_m1 = True, mx_m2 = True, mx_frag_len = 2346, mx_base = 0, mx_pkt_offset = 0,
     tx_mlme = sample_val_env\<lparr>ve_fw_state := 0x11\<rparr>, tx_qos_option = True,
     tx_vcs = \<lparr>vs_cur_wireless_mode = 3, vs_wifi_spec = False, vs_rts_thresh = 2347, vs_assoc_AP_vendor = 0, vs_HT_protection = 0,
       vs_cur_bwmode = 0, vs_vrtl_carrier_sense = 2, vs_vcs_type = 1, vs_driver_vcs = None\<rparr>\<rparr>"

definition sample_xmit_attrib :: xmit_attrib where
  "sample_xmit_attrib = \<lparr>at_encrypt = 0, at_hdrlen = 26, at_iv_len = 0, at_icv_len = 0, at_nr_frags = 0, at_last_txcmdsz = 0,
     at_ra = replicate 6 2, at_ta = replicate 6 4, at_UncstKey = replicate 32 0, at_pktlen = 17, at_psta = Some 0, at_key_type = 0,
     at_bswenc = False, at_iv = replicate 18 0, at_icv = replicate 16 0, at_subtype = 0x88, at_ether_type = 0x800, at_seqnum = 0,
     at_pkt_hdrlen = 14, at_priority = 5, at_ack_policy = 0, at_vcs_mode = 0, at_dst = replicate 6 2, at_src = replicate 6 6,
     at_key_idx = 0, at_qos_en = True, at_ht_en = False, at_ampdu_en = False, at_amsdu = 0, at_mdata = False, at_eosp = 0,
     at_rtsen = False, at_cts2self = False, at_tkiptxmickey = replicate 32 0, at_mac_id = 0,
     at_bmc_camid = 0, at_dhcp_pkt = False, at_icmp_pkt = False, at_hipriority_pkt = False, at_amsdu_ampdu_en = False, at_ampdu_spacing = 0,
     at_triggered = False, at_qsel = 0, at_rate = 0\<rparr>"

end
