(* ===== verification/Xmit_Attrib.thy ===== *)
theory Xmit_Attrib
  imports Xmit_Frame
begin

unbundle bit_operations_syntax

text \<open>
  The attributes of a packet to send (\<^verbatim>\<open>core/rtw_xmit.c\<close>, \<^verbatim>\<open>core/rtw_ap.c\<close>): the station it goes to, what kind of
  packet it is, its priority, cipher, IV and lengths. The clock, the firmware state and the rate data of a station are
  parameters (\<open>attr_env\<close>); what the code asks of other components (scan commands, the
  session tracker) is recorded as \<open>tx_note\<close>. The outer \<open>None\<close> is a read of bytes the packet does not have. At
  the end: the packet numbers of the packets sent to a station.
\<close>

section \<open>EAPOL frames\<close>

datatype eap_type = EAP_PACKET | NON_EAPOL | EAPOL_START | EAPOL_LOGOFF | EAPOL_KEY | EAPOL_ENCAP_ASF_ALERT | EAPOL_PACKET
  | EAPOL_WPA_GROUP_KEY_1_2 | EAPOL_WPA_GROUP_KEY_2_2 | EAPOL_1_4 | EAPOL_2_4 | EAPOL_3_4 | EAPOL_4_4

definition WIFI_UNDER_KEY_HANDSHAKE :: u32 where "WIFI_UNDER_KEY_HANDSHAKE = 0x01000000"

text \<open>\<open>pl\<close> is the packet behind its Ethernet header.\<close>

definition parsing_eapol_packet :: "security_priv \<Rightarrow> bytes \<Rightarrow> sta_info \<Rightarrow> (eap_type \<times> sta_info) option" where
  "parsing_eapol_packet sec pl psta = do {
     hdr \<leftarrow> mem_rd pl 0 4;
     if hdr ! 1 = 1 \<and> take 2 (drop 2 hdr) = [0, 0] then Some (EAPOL_START, psta)
     else if hdr ! 1 = 0 then Some (EAPOL_PACKET, psta)
     else do {
       key_info \<leftarrow> get_be16 pl 5;
       key_data_length \<leftarrow> get_be16 pl 97;
       Some (if \<not> bit key_info 3 then
               (if bit key_info 7 then (EAPOL_WPA_GROUP_KEY_1_2, psta)
                else (EAPOL_WPA_GROUP_KEY_2_2,
                      if ndisauthtype sec = Ndis802_11AuthModeWPAPSK then psta\<lparr>si_state := si_state psta AND NOT WIFI_UNDER_KEY_HANDSHAKE\<rparr> else psta))
             else if bit key_info 8 then
               (if key_data_length = 0 then EAPOL_4_4 else if bit key_info 7 then EAPOL_3_4 else EAPOL_2_4, psta)
             else (EAPOL_1_4, psta))
     }
   }"

section \<open>Priorities\<close>

definition qos_acm :: "u8 \<Rightarrow> u8 \<Rightarrow> u8" where
  "qos_acm acm_mask priority =
     (if priority = 0 \<or> priority = 3 then (if bit acm_mask 1 then 1 else priority)
      else if priority = 4 \<or> priority = 5 then (if bit acm_mask 2 then 0 else priority)
      else if priority = 6 \<or> priority = 7 then (if bit acm_mask 3 then 5 else priority)
      else priority)"

text \<open>\<^verbatim>\<open>CONFIG_RTW_UP_MAPPING_RULE\<close> is the type of service field: the precedence bits.\<close>

definition tos_to_up :: "u8 \<Rightarrow> u8" where
  "tos_to_up tos = drop_bit 5 tos"

definition ETH_P_IP :: u16 where "ETH_P_IP = 0x800"
definition ETH_P_ARP :: u16 where "ETH_P_ARP = 0x806"
definition ETH_P_PAE :: u16 where "ETH_P_PAE = 0x888e"

definition set_qos :: "bytes \<Rightarrow> xmit_attrib \<Rightarrow> xmit_attrib option" where
  "set_qos pkt pa = do {
     up \<leftarrow> (if at_ether_type pa = ETH_P_IP then map_option (\<lambda>b. tos_to_up (b ! 0)) (mem_rd pkt 15 1) else Some 0);
     Some (pa\<lparr>at_priority := up, at_hdrlen := 26, at_subtype := 0x88\<rparr>)
   }"

section \<open>Security\<close>

definition WEP_IV :: "u64 \<Rightarrow> u8 \<Rightarrow> bytes \<times> u64" where
  "WEP_IV pn keyidx =
     (let v = (if pn = 0xffffff then 0 else pn + 1); b = put_le64 v in ([b ! 0, b ! 1, b ! 2, push_bit 6 (keyidx AND 3)], v))"

definition TKIP_IV :: "u64 \<Rightarrow> u8 \<Rightarrow> bytes \<times> u64" where
  "TKIP_IV pn keyidx =
     (let v = (if pn = 0xffffffffffff then 0 else pn + 1); b = put_le64 v
      in ([b ! 1, (b ! 1 OR 0x20) AND 0x7f, b ! 0, 0x20 OR push_bit 6 (keyidx AND 3), b ! 2, b ! 3, b ! 4, b ! 5], v))"

text \<open>What the attributes depend on besides the adapter: the access control mask, the time since the last
  unencrypted key message of a station, the key search conflict, and the station's rate information.\<close>

record sta_phy =
  ph_rtsen :: bool
  ph_cts2self :: bool
  ph_ht_option :: bool
  ph_ampdu_enable :: bool
  ph_agg_enable_bitmap :: u8
  ph_tx_amsdu_enable :: bool
  ph_rx_ampdu_min_spacing :: u8
  ph_init_rate :: u8

record attr_env =
  ae_tx :: tx_env
  ae_acm_mask :: u8
  ae_elapsed :: "nat \<Rightarrow> u32"
  ae_conflict :: bool
  ae_ht :: bool
  ae_driver_ampdu_spacing :: u8
  ae_phy :: "nat \<Rightarrow> sta_phy"

abbreviation ae_state :: "attr_env \<Rightarrow> u32 \<Rightarrow> bool" where
  "ae_state env st \<equiv> check_fwstate (tx_mlme (ae_tx env)) st"

definition put_prefix :: "bytes \<Rightarrow> bytes \<Rightarrow> bytes" where
  "put_prefix new old = new @ drop (length new) old"

definition sec_cipher :: "security_priv \<Rightarrow> sta_info \<Rightarrow> bool \<Rightarrow> xmit_attrib \<Rightarrow> xmit_attrib" where
  "sec_cipher sec s bmcast pa =
     (let e = GET_ENCRY_ALGO sec s bmcast (at_encrypt pa);
          k = (if dot11AuthAlgrthm sec \<in> {0, 1, 3} then ucast (dot11PrivacyKeyIndex sec)
               else if dot11AuthAlgrthm sec = dot11AuthAlgrthm_8021X \<and> bmcast then ucast (dot118021XGrpKeyid sec) else 0);
          e = (if (e = WEP40 \<or> e = WEP104) \<and> at_ether_type pa = ETH_P_PAE then 0 else e)
      in pa\<lparr>at_encrypt := e, at_key_idx := k\<rparr>)"

text \<open>Lengths and the IV with the station's next packet number; \<open>None\<close> is TKIP without a key.\<close>

definition sec_iv :: "security_priv \<Rightarrow> bool \<Rightarrow> xmit_attrib \<Rightarrow> sta_info \<Rightarrow> (xmit_attrib \<times> sta_info) option" where
  "sec_iv sec bmcast pa s =
     (let e = at_encrypt pa; k = (if bmcast then at_key_idx pa else 0); pn = si_dot11txpn s;
          put = (\<lambda>ivl icvl (iv, pn). (pa\<lparr>at_iv_len := ivl, at_icv_len := icvl, at_iv := put_prefix iv (at_iv pa)\<rparr>, s\<lparr>si_dot11txpn := pn\<rparr>)) in
      if e = WEP40 \<or> e = WEP104 then Some (put 4 4 (WEP_IV pn (at_key_idx pa)))
      else if e = TKIP then
        (if \<not> busetkipkey sec then None
         else Some (let (pa, s) = put 8 4 (TKIP_IV pn k) in (pa\<lparr>at_tkiptxmickey := put_prefix (take 16 (si_tkiptxmickey s)) (at_tkiptxmickey pa)\<rparr>, s)))
      else if e = AES then Some (put 8 8 (AES_IV pn k))
      else if e = GCMP \<or> e = GCMP_256 \<or> e = CCMP_256 then Some (put 8 16 (AES_IV pn k))
      else Some (pa\<lparr>at_iv_len := 0, at_icv_len := 0\<rparr>, s))"

definition sec_finish :: "attr_env \<Rightarrow> security_priv \<Rightarrow> eap_type \<Rightarrow> bool \<Rightarrow> sta_info \<Rightarrow> xmit_attrib \<Rightarrow> xmit_attrib" where
  "sec_finish env sec eap bmcast s pa =
     (let e = at_encrypt pa;
          pa = (if e > 0 then pa\<lparr>at_UncstKey := put_prefix (take (if e AND 0x10 \<noteq> 0 then 32 else 16) (si_UncstKey s)) (at_UncstKey pa)\<rparr> else pa);
          sw = e \<noteq> 0 \<and> (sw_encrypt sec \<or> \<not> hw_decrypted sec \<or> bmcast \<and> ae_conflict env \<or> eap = EAPOL_4_4)
      in pa\<lparr>at_bswenc := sw, at_bmc_camid := dot118021x_bmc_cam_id sec\<rparr>)"

definition update_attrib_sec_info :: "attr_env \<Rightarrow> security_priv \<Rightarrow> eap_type \<Rightarrow> nat \<Rightarrow> adapter \<Rightarrow> xmit_attrib \<Rightarrow> ret \<times> adapter \<times> xmit_attrib" where
  "update_attrib_sec_info env sec eap i ad pa =
     (let s = sta_of ad i; bmcast = IS_MCAST (at_ra pa);
          pa = pa\<lparr>at_UncstKey := put_prefix (replicate 16 0) (at_UncstKey pa), at_tkiptxmickey := put_prefix (replicate 16 0) (at_tkiptxmickey pa),
                  at_mac_id := si_mac_id s\<rparr>;
          clear = si_ieee8021x_blocked s \<or> (eap = EAPOL_2_4 \<or> eap = EAPOL_4_4) \<and> sint (ae_elapsed env i) \<le> 100;
          pa = (if clear then pa\<lparr>at_encrypt := 0\<rparr> else sec_cipher sec s bmcast pa) in
      if clear \<and> at_ether_type pa \<noteq> ETH_P_PAE \<and> \<not> ae_state env WIFI_MP_STATE then (RET_FAIL, ad, pa)
      else case sec_iv sec bmcast pa s of
        None \<Rightarrow> (RET_FAIL, ad, pa\<lparr>at_iv_len := 8, at_icv_len := 4\<rparr>)
      | Some (pa, s) \<Rightarrow> (RET_SUCCESS, upd_sta i (\<lambda>_. s) ad, sec_finish env sec eap bmcast s pa))"

section \<open>Looking into the packet\<close>

datatype tx_note = ScanDeny nat | ScanAbort
  | SessionAdd nat bytes bytes bytes bytes | SessionDel nat bytes bytes bytes bytes

text \<open>
  The IPv4 branch: what kind of packet it is. \<open>pf\<close> is the rest behind the Ethernet header. A header
  with options is skipped by \<^verbatim>\<open>IHL - 20\<close> bytes, an unsigned number that leaves nothing to read; what is then
  read of the transport header is not initialised.
\<close>

definition ip_udp :: "bytes \<Rightarrow> xmit_attrib \<Rightarrow> xmit_attrib option" where
  "ip_udp pf pa = do {
     udp \<leftarrow> mem_rd pf 0 24;
     src \<leftarrow> get_be16 udp 0;
     dst \<leftarrow> get_be16 udp 2;
     let dhcp = ((src = 68 \<and> dst = 67 \<or> src = 67 \<and> dst = 68) \<and> at_pktlen pa > 282);
     let hi = ((udp ! 8 = 0xcc \<or> udp ! 8 = 0xdd) \<and> udp ! 23 = 0xe2);
     Some (pa\<lparr>at_dhcp_pkt := at_dhcp_pkt pa \<or> dhcp, at_hipriority_pkt := at_hipriority_pkt pa \<or> hi\<rparr>)
   }"

definition ip_tcp :: "nat \<Rightarrow> sta_info \<Rightarrow> bytes \<Rightarrow> bytes \<Rightarrow> tx_note list option" where
  "ip_tcp i s ip pf = do {
     tcp \<leftarrow> mem_rd pf 0 20;
     let (la, ra, lp, rp) = (take 4 (drop 12 ip), take 4 (drop 16 ip), take 2 tcp, take 2 (drop 2 tcp));
     if \<not> rtw_st_ctl_chk_reg_rule (si_st_ctl s) la lp ra rp then Some []
     else Some ((if bit (tcp ! 13) 1 \<and> bit (tcp ! 13) 4 then [SessionAdd i la lp la rp] else [])
                @ (if bit (tcp ! 13) 0 then [SessionDel i la lp la rp] else []))
   }"

definition ip_packet :: "nat \<Rightarrow> sta_info \<Rightarrow> bytes \<Rightarrow> xmit_attrib \<Rightarrow> (xmit_attrib \<times> tx_note list) option" where
  "ip_packet i s pf pa = do {
     ip \<leftarrow> mem_rd pf 0 20;
     let ihl = ip ! 0 AND 0xF;
     let pf = snd (rtw_pktfile_read pf 20);
     let pf = (if unat ihl * 4 > 20 then snd (rtw_pktfile_read pf (ucast ihl - 20)) else pf);
     let pa = pa\<lparr>at_icmp_pkt := False, at_dhcp_pkt := False, at_hipriority_pkt := False\<rparr>;
     if ip ! 9 = 1 then Some (pa\<lparr>at_icmp_pkt := True\<rparr>, [])
     else if ip ! 9 = 0x11 then do { pa \<leftarrow> ip_udp pf pa; Some (pa, []) }
     else if ip ! 9 = 6 \<and> rtw_st_ctl_chk_reg_s_proto (si_st_ctl s) 6 then do { ns \<leftarrow> ip_tcp i s ip pf; Some (pa, ns) }
     else Some (pa, [])
   }"

definition scan_notes :: "attr_env \<Rightarrow> xmit_attrib \<Rightarrow> tx_note list" where
  "scan_notes env pa = (if at_ether_type pa = ETH_P_PAE \<or> at_dhcp_pkt pa then [ScanDeny 3000] else [])
     @ (if ae_state env WIFI_STATION_STATE \<and> at_ether_type pa = ETH_P_ARP \<and> \<not> IS_MCAST (at_dst pa) then [ScanDeny 1000, ScanAbort] else [])"

section \<open>The attributes of a packet\<close>

definition update_attrib_phy_info :: "attr_env \<Rightarrow> nat \<Rightarrow> xmit_attrib \<Rightarrow> xmit_attrib" where
  "update_attrib_phy_info env i pa =
     (let ph = ae_phy env i;
          pa = pa\<lparr>at_rtsen := ph_rtsen ph, at_cts2self := ph_cts2self ph, at_mdata := False, at_eosp := 0, at_triggered := False, at_ampdu_spacing := 0\<rparr> in
      if \<not> ae_ht env then pa
      else
       (let agg = ph_ht_option ph \<and> ph_ampdu_enable ph \<and> bit (ph_agg_enable_bitmap ph) (unat (at_priority pa));
            pa = pa\<lparr>at_ht_en := ph_ht_option ph, at_ampdu_en := agg,
                    at_ampdu_spacing := if ae_driver_ampdu_spacing env \<noteq> 0xFF then ae_driver_ampdu_spacing env else ph_rx_ampdu_min_spacing ph\<rparr>
        in if agg then pa\<lparr>at_amsdu_ampdu_en := ph_tx_amsdu_enable ph\<rparr> else pa))"

definition attrib_qos :: "attr_env \<Rightarrow> bytes \<Rightarrow> xmit_attrib \<Rightarrow> xmit_attrib option" where
  "attrib_qos env pkt pa =
     (if ae_state env (WIFI_AP_STATE OR WIFI_ADHOC_STATE OR WIFI_ADHOC_MASTER_STATE)
      then (if at_qos_en pa then set_qos pkt pa else Some pa)
      else if tx_qos_option (ae_tx env) then do {
        pa \<leftarrow> set_qos pkt pa;
        Some (if ae_acm_mask env \<noteq> 0 then pa\<lparr>at_priority := qos_acm (ae_acm_mask env) (at_priority pa)\<rparr> else pa)
      }
      else Some pa)"

text \<open>Addresses of a packet in the modes where they are not resolved before.\<close>

definition attrib_addrs :: "attr_env \<Rightarrow> adapter \<Rightarrow> bytes \<Rightarrow> xmit_attrib \<Rightarrow> xmit_attrib" where
  "attrib_addrs env ad eth pa =
     (if ae_state env WIFI_AP_STATE then pa
      else
       (let pa = pa\<lparr>at_dst := take 6 eth, at_src := take 6 (drop 6 eth), at_ta := ad_mac ad\<rparr> in
        if ae_state env WIFI_ADHOC_STATE \<or> ae_state env WIFI_ADHOC_MASTER_STATE then pa\<lparr>at_ra := at_dst pa\<rparr>
        else if ae_state env WIFI_STATION_STATE then pa\<lparr>at_ra := ve_bssid (tx_mlme (ae_tx env))\<rparr>
        else pa))"

definition attrib_sta :: "attr_env \<Rightarrow> adapter \<Rightarrow> xmit_attrib \<Rightarrow> nat option" where
  "attrib_sta env ad pa =
     (case (if IS_MCAST (at_ra pa) then rtw_get_bcmc_stainfo (ad_stapriv ad) else ad_get_sta ad (at_ra pa)) of
        None \<Rightarrow> None
      | Some i \<Rightarrow> if si_state (sta_of ad i) AND WIFI_ASOC_STATE = 0 then None else Some i)"

type_synonym attr_result = "ret \<times> adapter \<times> xmit_attrib \<times> tx_note list"

definition attrib_packet :: "security_priv \<Rightarrow> nat \<Rightarrow> bytes \<Rightarrow> adapter \<Rightarrow> xmit_attrib \<Rightarrow> (eap_type \<times> adapter \<times> xmit_attrib \<times> tx_note list) option" where
  "attrib_packet sec i pf ad pa =
     (if at_ether_type pa = ETH_P_IP then do {
        (pa, ns) \<leftarrow> ip_packet i (sta_of ad i) pf pa;
        Some (NON_EAPOL, ad, pa, ns)
      }
      else if at_ether_type pa = ETH_P_PAE then do {
        (t, s) \<leftarrow> parsing_eapol_packet sec pf (sta_of ad i);
        Some (t, upd_sta i (\<lambda>_. s) ad, pa, [])
      }
      else Some (NON_EAPOL, ad, pa, []))"

definition update_attrib :: "attr_env \<Rightarrow> security_priv \<Rightarrow> bytes \<Rightarrow> adapter \<Rightarrow> xmit_attrib \<Rightarrow> attr_result option" where
  "update_attrib env sec pkt ad pa = do {
     eth \<leftarrow> mem_rd pkt 0 14;
     ether_type \<leftarrow> get_be16 eth 12;
     let pa = attrib_addrs env ad eth (pa\<lparr>at_ether_type := ether_type\<rparr>);
     case attrib_sta env ad pa of
       None \<Rightarrow> Some (RET_FAIL, ad, pa, [])
     | Some i \<Rightarrow> do {
         let pf = snd (rtw_pktfile_read pkt 14);
         let pa = pa\<lparr>at_pktlen := of_nat (length pf)\<rparr>;
         (eap, ad, pa, ns) \<leftarrow> attrib_packet sec i pf ad pa;
         let ns = ns @ scan_notes env pa;
         let (r, ad, pa) = update_attrib_sec_info env sec eap i ad pa;
         if r = RET_FAIL then Some (RET_FAIL, ad, pa, ns)
         else do {
           let pa = pa\<lparr>at_pkt_hdrlen := 14, at_hdrlen := 24, at_subtype := 8, at_qos_en := si_qos_option (sta_of ad i), at_priority := 0\<rparr>;
           pa \<leftarrow> attrib_qos env pkt pa;
           let pa = (update_attrib_phy_info env i pa)\<lparr>at_psta := Some i, at_ack_policy := 0\<rparr>;
           Some (RET_SUCCESS, ad, if IS_MCAST (at_ra pa) then pa\<lparr>at_rate := ph_init_rate (ae_phy env i)\<rparr> else pa, ns)
         }
       }
   }"

definition QSLT_VO :: u8 where "QSLT_VO = 7"

definition do_queue_select :: "xmit_attrib \<Rightarrow> xmit_attrib" where
  "do_queue_select pa = (if at_hipriority_pkt pa then pa\<lparr>at_qsel := QSLT_VO, at_priority := QSLT_VO\<rparr> else pa\<lparr>at_qsel := at_priority pa\<rparr>)"

section \<open>The addresses of an access point's packet\<close>

text \<open>
  Group packets become copies for single stations when the flags say so and frames are left. The
  list of associated stations is an argument; a copy is its frame with the addresses of its attributes.
\<close>

definition rtw_ap_src_b2u_policy_chk :: "u8 \<Rightarrow> bytes \<Rightarrow> bool" where
  "rtw_ap_src_b2u_policy_chk flags da \<longleftrightarrow> bit flags 0 \<or> bit flags 2 \<and> da = bc_addr \<or> bit flags 3 \<and> (take 3 da = [1, 0, 0x5e] \<or> take 2 da = [0x33, 0x33] \<and> da ! 2 \<noteq> 0xff)"

record b2u_frame =
  bf_frame :: xmit_frame
  bf_ra :: bytes
  bf_ta :: bytes
  bf_dst :: bytes
  bf_src :: bytes

fun b2u_sta_ids :: "nat \<Rightarrow> nat list \<Rightarrow> nat list \<times> bool" where
  "b2u_sta_ids num [] = ([], False)"
| "b2u_sta_ids num (i # is) =
     (if num \<ge> NUM_STA then ([], True)
      else if i < NUM_STA then (case b2u_sta_ids (Suc num) is of (ids, need) \<Rightarrow> (i # ids, need))
      else b2u_sta_ids num is)"

definition b2u_skip :: "sta_info \<Rightarrow> bytes \<Rightarrow> bytes option \<Rightarrow> bool" where
  "b2u_skip s sa ori_ta \<longleftrightarrow> si_state s AND WIFI_ASOC_STATE = 0 \<or> si_mac_addr s = sa \<or> ori_ta = Some (si_mac_addr s)
     \<or> si_mac_addr s = bc_addr \<or> si_mac_addr s = replicate 6 0"

fun b2u_copies :: "adapter \<Rightarrow> bytes \<Rightarrow> bytes option \<Rightarrow> u16 \<Rightarrow> nat list \<Rightarrow> xmit_priv \<Rightarrow> b2u_frame list \<times> bool \<times> xmit_priv" where
  "b2u_copies ad sa ori_ta os_qid [] xp = ([], False, xp)"
| "b2u_copies ad sa ori_ta os_qid (i # is) xp =
     (let a = si_mac_addr (sta_of ad i) in
      if b2u_skip (sta_of ad i) sa ori_ta then b2u_copies ad sa ori_ta os_qid is xp
      else case rtw_alloc_xmitframe xp os_qid of
        (None, xp) \<Rightarrow> ([], True, xp)
      | (Some f, xp) \<Rightarrow> (case b2u_copies ad sa ori_ta os_qid is xp of
          (l, need, xp) \<Rightarrow> (\<lparr>bf_frame = f\<lparr>xf_ra := a\<rparr>, bf_ra = a, bf_ta = ad_mac ad, bf_dst = a, bf_src = sa\<rparr> # l, need, xp)))"

definition rtw_ap_data_bmc_to_uc :: "nat list \<Rightarrow> adapter \<Rightarrow> bytes \<Rightarrow> bytes option \<Rightarrow> u16 \<Rightarrow> bool \<times> b2u_frame list \<times> adapter" where
  "rtw_ap_data_bmc_to_uc asoc_list ad sa ori_ta os_qid =
     (let (ids, need) = b2u_sta_ids 0 asoc_list; (l, need', xp) = b2u_copies ad sa ori_ta os_qid ids (ad_xmitpriv ad)
      in (need \<or> need', l, ad\<lparr>ad_xmitpriv := xp\<rparr>))"

definition rtw_ap_nexthop_resolve :: "xmit_attrib \<Rightarrow> xmit_attrib" where
  "rtw_ap_nexthop_resolve pa = pa\<lparr>at_ra := at_dst pa\<rparr>"

datatype resolve_ret = Resolve_Fail | Resolve_Success | RTW_BMC_NO_NEED

definition NR_XMITFRAME :: nat where "NR_XMITFRAME = 256"

definition rtw_ap_addr_resolve :: "u8 \<Rightarrow> nat list \<Rightarrow> u16 \<Rightarrow> adapter \<Rightarrow> bytes \<Rightarrow> xmit_attrib \<Rightarrow> resolve_ret \<times> adapter \<times> b2u_frame list \<times> xmit_attrib" where
  "rtw_ap_addr_resolve b2u_flags asoc_list os_qid ad pkt pa =
     (let (etherhdr, _) = rtw_pktfile_read pkt 14; dst = take 6 etherhdr; src = take 6 (drop 6 etherhdr); mc = IS_MCAST dst;
          fill = (\<lambda>ad l. (let pa = pa\<lparr>at_dst := dst, at_src := src, at_ta := ad_mac ad\<rparr> in
                          (Resolve_Success, ad, l, if mc then pa\<lparr>at_ra := at_dst pa\<rparr> else rtw_ap_nexthop_resolve pa))) in
      if length etherhdr \<noteq> 14 then (Resolve_Fail, ad, [], pa)
      else if mc \<and> rtw_ap_src_b2u_policy_chk b2u_flags dst \<and> \<not> wifi_spec (ad_xmitpriv ad) \<and> unat (free_xmitframe_cnt (ad_xmitpriv ad)) > NR_XMITFRAME div 4 then
        (case rtw_ap_data_bmc_to_uc asoc_list ad src None os_qid of
           (False, l, ad) \<Rightarrow> (RTW_BMC_NO_NEED, ad, l, pa)
         | (True, l, ad) \<Rightarrow> fill ad l)
      else fill ad [])"

text \<open>No station is left out: without the group frame every associated station but the sender has its copy, in the order of the list.\<close>

lemma b2u_sta_ids_all: "b2u_sta_ids num is = (ids, False) \<Longrightarrow> ids = filter (\<lambda>i. i < NUM_STA) is"
  by (induction num "is" arbitrary: ids rule: b2u_sta_ids.induct) (auto split: if_splits prod.splits)

lemma b2u_copies_all:
  "b2u_copies ad sa ori_ta os_qid is xp = (l, False, xp') \<Longrightarrow>
     map bf_ra l = map (\<lambda>i. si_mac_addr (sta_of ad i)) (filter (\<lambda>i. \<not> b2u_skip (sta_of ad i) sa ori_ta) is)"
  by (induction ad sa ori_ta os_qid "is" xp arbitrary: l rule: b2u_copies.induct) (auto simp: Let_def split: if_splits prod.splits option.splits)

lemma rtw_ap_data_bmc_to_uc_all:
  assumes "rtw_ap_data_bmc_to_uc asoc_list ad sa ori_ta os_qid = (False, l, ad')"
  shows "map bf_ra l = map (\<lambda>i. si_mac_addr (sta_of ad i)) (filter (\<lambda>i. i < NUM_STA \<and> \<not> b2u_skip (sta_of ad i) sa ori_ta) asoc_list)"
  using assms b2u_sta_ids_all b2u_copies_all
  by (fastforce simp: rtw_ap_data_bmc_to_uc_def Let_def conj_commute split: prod.splits)

section \<open>Packet numbers\<close>

text \<open>The ciphers whose nonce is the packet number, and the packet number in an IV.\<close>

definition aead_cipher :: "u8 \<Rightarrow> bool" where
  "aead_cipher e \<longleftrightarrow> e \<in> {AES, GCMP, GCMP_256, CCMP_256}"

definition attrib_pn :: "xmit_attrib \<Rightarrow> u64" where
  "attrib_pn pa = CCMPH_2_PN (le64 (take 8 (at_iv pa)))"

lemma length_le64_bytes [simp]: "length (put_le64 v) = 8" by (simp add: put_le64_def)

lemma put_le64_nth: "i < 8 \<Longrightarrow> put_le64 v ! i = ucast (drop_bit (8 * i) v)" by (simp add: put_le64_def)

lemma bit_le64: "bit (le64 b) n \<longleftrightarrow> n < 64 \<and> bit (b ! (n div 8)) (n mod 8)"
proof (cases "n < 64")
  case True
  define q r where "q = n div 8" and "r = n mod 8"
  have n: "n = 8 * q + r" "r < 8" "q < 8" using True by (auto simp: q_def r_def)
  have short: "bit (x :: u8) m \<Longrightarrow> m < 8" for x m using bit_imp_le_length [of x m] by simp
  have "le64 b = fold (\<lambda>i v. v OR push_bit (8 * i) (ucast (b ! i))) [0, 1, 2, 3, 4, 5, 6, 7] 0" by (simp add: le64_def upt_rec numeral_eq_Suc)
  then have "bit (le64 b) n \<longleftrightarrow> (\<exists>i \<in> {0, 1, 2, 3, 4, 5, 6, 7}. 8 * i \<le> n \<and> bit (b ! i) (n - 8 * i))"
    using True less_imp_diff_less [OF True] by (simp add: bit_simps del: One_nat_def)
  also have "\<dots> \<longleftrightarrow> bit (b ! q) r"
  proof
    assume "\<exists>i \<in> {0, 1, 2, 3, 4, 5, 6, 7}. 8 * i \<le> n \<and> bit (b ! i) (n - 8 * i)"
    then obtain i where i: "8 * i \<le> n" "bit (b ! i) (n - 8 * i)" by blast
    have "n - 8 * i < 8" using short [OF i(2)] .
    then have "i = q" using i(1) n by linarith
    then show "bit (b ! q) r" using i(2) n(1) by simp
  next
    assume "bit (b ! q) r"
    moreover have "q \<in> {0, 1, 2, 3, 4, 5, 6, 7}" using n(3) by auto
    ultimately show "\<exists>i \<in> {0, 1, 2, 3, 4, 5, 6, 7}. 8 * i \<le> n \<and> bit (b ! i) (n - 8 * i)" using n(1) by (intro bexI [of _ q]) simp_all
  qed
  finally show ?thesis using True by (simp add: q_def r_def)
qed (use bit_imp_le_length [of "le64 b" n] in auto)

lemma bit_CCMPH_2_PN: "bit (CCMPH_2_PN ch) n \<longleftrightarrow> n < 16 \<and> bit ch n \<or> 16 \<le> n \<and> n < 48 \<and> bit ch (n + 16)"
proof -
  have m: "(0xFFFF :: u64) = mask 16" "(0xFFFFFFFF00000000 :: u64) = push_bit 32 (mask 32)" by (simp_all add: mask_eq_exp_minus_1)
  show ?thesis unfolding CCMPH_2_PN_def m by (auto simp: bit_simps add.commute)
qed

lemma AES_IV_pn:
  assumes "pn < 0xffffffffffff" "AES_IV pn k = (iv, pn')"
  shows "pn' = pn + 1" "length iv = 8" "CCMPH_2_PN (le64 iv) = pn + 1"
proof -
  let ?b = "put_le64 (pn + 1)"
  have ne: "pn \<noteq> 0xffffffffffff" using assms(1) by auto
  then show "pn' = pn + 1" using assms(2) by (simp add: AES_IV_def Let_def)
  have iv: "iv = [?b ! 0, ?b ! 1, 0, 0x20 OR push_bit 6 (k AND 3), ?b ! 2, ?b ! 3, ?b ! 4, ?b ! 5]"
    using assms(2) ne by (auto simp: AES_IV_def Let_def)
  then show l: "length iv = 8" by simp
  have "pn + 1 \<le> 0xffffffffffff" using assms(1) by (metis inc_le)
  then have small: "\<not> bit (pn + 1) n" if "48 \<le> n" for n
  proof -
    have "uint (pn + 1) < 2 ^ 48" using \<open>pn + 1 \<le> 0xffffffffffff\<close> by (simp add: word_le_def)
    then have "take_bit 48 (pn + 1) = pn + 1" by (simp add: word_uint_eq_iff unsigned_take_bit_eq take_bit_int_eq_self)
    then show ?thesis using that by (metis bit_take_bit_iff not_less)
  qed
  show "CCMPH_2_PN (le64 iv) = pn + 1"
  proof (rule bit_word_eqI)
    fix n assume "n < LENGTH(64)"
    show "bit (CCMPH_2_PN (le64 iv)) n = bit (pn + 1) n"
    proof (cases "n < 48")
      case True
      define q r where "q = n div 8" and "r = n mod 8"
      have n: "n = 8 * q + r" "r < 8" "q < 6" using True by (auto simp: q_def r_def)
      have b: "i < 8 \<Longrightarrow> bit (?b ! i) r \<longleftrightarrow> bit (pn + 1) (8 * i + r)" for i using n(2) by (simp add: put_le64_nth bit_simps)
      have "n + 16 = r + 8 * (q + 2)" using n(1) by simp
      then have "(n + 16) mod 8 = r" "(n + 16) div 8 = q + 2" using n(2) by (simp_all only: mod_mult_self2 div_mult_self2 zero_neq_numeral) simp_all
      then have "bit (CCMPH_2_PN (le64 iv)) n \<longleftrightarrow> bit (iv ! (if q < 2 then q else q + 2)) r"
        using n True by (auto simp: bit_CCMPH_2_PN bit_le64 q_def [symmetric] r_def [symmetric])
      also have "iv ! (if q < 2 then q else q + 2) = ?b ! q"
        using n(3) by (auto simp: iv nth_Cons' less_Suc_eq numeral_eq_Suc)
      finally show ?thesis using b [of q] n by simp
    qed (simp add: small bit_CCMPH_2_PN)
  qed
qed

lemmas cipher_ids = WEP40_def WEP104_def TKIP_def AES_def GCMP_def GCMP_256_def CCMP_256_def

lemma sec_iv_aead:
  assumes "aead_cipher (at_encrypt pa)" "AES_IV (si_dot11txpn s) (if bmcast then at_key_idx pa else 0) = (iv, pn)"
  obtains l where "sec_iv sec bmcast pa s = Some (pa\<lparr>at_iv_len := 8, at_icv_len := l, at_iv := put_prefix iv (at_iv pa)\<rparr>, s\<lparr>si_dot11txpn := pn\<rparr>)"
proof -
  consider "at_encrypt pa = AES" | "at_encrypt pa \<in> {GCMP, GCMP_256, CCMP_256}" using assms(1) by (auto simp: aead_cipher_def)
  then show thesis
  proof cases
    case 1
    then show thesis using assms(2) by (intro that [of 8]) (simp add: sec_iv_def Let_def cipher_ids)
  next
    case 2
    then show thesis using assms(2) by (intro that [of 16]) (auto simp: sec_iv_def Let_def cipher_ids)
  qed
qed

lemma sec_iv_encrypt: "sec_iv sec bmcast pa s = Some (pa', s') \<Longrightarrow> at_encrypt pa' = at_encrypt pa"
  unfolding sec_iv_def Let_def by (simp only: simp_thms split: if_splits prod.splits) auto

lemma sec_iv_pn:
  assumes "sec_iv sec bmcast pa s = Some (pa', s')" "at_encrypt pa \<noteq> WEP40" "at_encrypt pa \<noteq> WEP104" "si_dot11txpn s < 0xffffffffffff"
  shows "s' = s\<lparr>si_dot11txpn := si_dot11txpn s'\<rparr>" "si_dot11txpn s' \<in> {si_dot11txpn s, si_dot11txpn s + 1}"
proof -
  have p: "si_dot11txpn s \<noteq> 0xffffffffffff" using assms(4) by auto
  show "s' = s\<lparr>si_dot11txpn := si_dot11txpn s'\<rparr>"
    using assms(1) unfolding sec_iv_def Let_def by (simp only: assms(2,3) if_False simp_thms split: if_splits prod.splits) auto
  show "si_dot11txpn s' \<in> {si_dot11txpn s, si_dot11txpn s + 1}"
    using assms(1) p unfolding sec_iv_def Let_def AES_IV_def TKIP_IV_def
    by (simp only: assms(2,3) if_False simp_thms split: if_splits prod.splits) auto
qed

text \<open>The table a station is found through: every entry is a station of the array.\<close>

definition hash_ok :: "adapter \<Rightarrow> bool" where
  "hash_ok ad \<longleftrightarrow> (\<forall>a i. ad_get_sta ad a = Some i \<longrightarrow> i < length (pstainfo_buf (ad_stapriv ad)))"

lemma sta_inv_hash_ok: "sta_inv (ad_stapriv ad) \<Longrightarrow> hash_ok ad"
  using get_stainfo_iff [of "ad_stapriv ad"] by (auto simp: hash_ok_def sta_inv_def)

text \<open>What the attributes of a packet may change: the packet numbers and the state bits.\<close>

definition pn_frame :: "adapter \<Rightarrow> adapter \<Rightarrow> nat \<Rightarrow> bool" where
  "pn_frame ad ad' i \<longleftrightarrow> (\<forall>j. j \<noteq> i \<longrightarrow> sta_of ad' j = sta_of ad j) \<and> length (pstainfo_buf (ad_stapriv ad')) = length (pstainfo_buf (ad_stapriv ad))
     \<and> (hash_ok ad \<longrightarrow> hash_ok ad')"

lemma sta_of_upd [simp]: "i < length (pstainfo_buf (ad_stapriv ad)) \<Longrightarrow> sta_of (upd_sta i g ad) i = g (sta_of ad i)"
  "j \<noteq> i \<Longrightarrow> sta_of (upd_sta i g ad) j = sta_of ad j"
  by (simp_all add: sta_of_def upd_sta_def)

lemma get_sta_upd:
  assumes "i < length (pstainfo_buf (ad_stapriv ad))" "si_mac_addr (g (sta_of ad i)) = si_mac_addr (sta_of ad i)"
  shows "ad_get_sta (upd_sta i g ad) = ad_get_sta ad"
proof -
  have "si_mac_addr ((pstainfo_buf (ad_stapriv ad))[i := g (sta_of ad i)] ! j) = si_mac_addr (pstainfo_buf (ad_stapriv ad) ! j)" for j
    using assms by (cases "j = i") (simp_all add: sta_of_def)
  then show ?thesis by (intro ext) (simp add: rtw_get_stainfo_def upd_sta_def Let_def)
qed

lemma pn_frame_upd:
  assumes "i < length (pstainfo_buf (ad_stapriv ad))" "si_mac_addr s = si_mac_addr (sta_of ad i)"
  shows "pn_frame ad (upd_sta i (\<lambda>_. s) ad) i"
  using get_sta_upd [of i ad "\<lambda>_. s"] assms by (simp add: pn_frame_def hash_ok_def upd_sta_def sta_of_def)

lemma pn_frame_refl: "pn_frame ad ad i" by (simp add: pn_frame_def)

lemma pn_frame_trans: "pn_frame ad ad' i \<Longrightarrow> pn_frame ad' ad'' i \<Longrightarrow> pn_frame ad ad'' i"
  by (simp add: pn_frame_def)

lemma sec_info_pn:
  assumes u: "update_attrib_sec_info env sec eap i ad pa = (r, ad', pa')" and i: "i < length (pstainfo_buf (ad_stapriv ad))"
    and pn: "si_dot11txpn (sta_of ad i) < 0xffffffffffff" and w: "r = RET_SUCCESS \<Longrightarrow> at_encrypt pa' \<noteq> WEP40 \<and> at_encrypt pa' \<noteq> WEP104"
  shows "pn_frame ad ad' i" "si_dot11txpn (sta_of ad' i) \<in> {si_dot11txpn (sta_of ad i), si_dot11txpn (sta_of ad i) + 1}"
    "r = RET_SUCCESS \<Longrightarrow> aead_cipher (at_encrypt pa') \<Longrightarrow> attrib_pn pa' = si_dot11txpn (sta_of ad i) + 1 \<and> si_dot11txpn (sta_of ad' i) = attrib_pn pa'"
proof -
  let ?s = "sta_of ad i"
  define bm where "bm = IS_MCAST (at_ra pa)"
  define pa0 where "pa0 = pa\<lparr>at_UncstKey := put_prefix (replicate 16 0) (at_UncstKey pa), at_tkiptxmickey := put_prefix (replicate 16 0) (at_tkiptxmickey pa),
      at_mac_id := si_mac_id ?s\<rparr>"
  define cl where "cl \<longleftrightarrow> si_ieee8021x_blocked ?s \<or> (eap = EAPOL_2_4 \<or> eap = EAPOL_4_4) \<and> sint (ae_elapsed env i) \<le> 100"
  define pa1 where "pa1 = (if cl then pa0\<lparr>at_encrypt := 0\<rparr> else sec_cipher sec ?s bm pa0)"
  have u': "(if cl \<and> at_ether_type pa1 \<noteq> ETH_P_PAE \<and> \<not> ae_state env WIFI_MP_STATE then (RET_FAIL, ad, pa1)
      else case sec_iv sec bm pa1 ?s of None \<Rightarrow> (RET_FAIL, ad, pa1\<lparr>at_iv_len := 8, at_icv_len := 4\<rparr>)
      | Some (pa, s) \<Rightarrow> (RET_SUCCESS, upd_sta i (\<lambda>_. s) ad, sec_finish env sec eap bm s pa)) = (r, ad', pa')"
    using u unfolding update_attrib_sec_info_def Let_def bm_def pa0_def cl_def pa1_def .
  have "(r = RET_FAIL \<and> ad' = ad) \<or> (r = RET_SUCCESS \<and> (\<exists>s p. sec_iv sec bm pa1 ?s = Some (p, s) \<and> ad' = upd_sta i (\<lambda>_. s) ad \<and> pa' = sec_finish env sec eap bm s p))"
    using u' by (auto split: if_splits option.splits)
  then consider "r = RET_FAIL" "ad' = ad" | s p where "r = RET_SUCCESS" "sec_iv sec bm pa1 ?s = Some (p, s)" "ad' = upd_sta i (\<lambda>_. s) ad" "pa' = sec_finish env sec eap bm s p"
    by blast
  then have "pn_frame ad ad' i \<and> si_dot11txpn (sta_of ad' i) \<in> {si_dot11txpn ?s, si_dot11txpn ?s + 1} \<and>
    (r = RET_SUCCESS \<longrightarrow> aead_cipher (at_encrypt pa') \<longrightarrow> attrib_pn pa' = si_dot11txpn ?s + 1 \<and> si_dot11txpn (sta_of ad' i) = attrib_pn pa')"
  proof cases
    case 1
    then show ?thesis by (simp add: pn_frame_refl)
  next
    case 2
    have e: "at_encrypt pa' = at_encrypt p" "at_iv pa' = at_iv p" unfolding 2(4) by (simp_all add: sec_finish_def Let_def)
    have p1: "at_encrypt p = at_encrypt pa1" by (rule sec_iv_encrypt [OF 2(2)])
    have q: "s = ?s\<lparr>si_dot11txpn := si_dot11txpn s\<rparr>" "si_dot11txpn s \<in> {si_dot11txpn ?s, si_dot11txpn ?s + 1}"
      using sec_iv_pn [OF 2(2) _ _ pn] w [OF 2(1)] e p1 by auto
    have "si_mac_addr s = si_mac_addr ?s" by (subst q(1)) simp
    note f = pn_frame_upd [OF i this]
    have "attrib_pn pa' = si_dot11txpn ?s + 1 \<and> si_dot11txpn s = si_dot11txpn ?s + 1" if "aead_cipher (at_encrypt pa')"
    proof -
      obtain iv v where a: "AES_IV (si_dot11txpn ?s) (if bm then at_key_idx pa1 else 0) = (iv, v)" by fastforce
      have "aead_cipher (at_encrypt pa1)" using that e p1 by simp
      from this a obtain l where "sec_iv sec bm pa1 ?s = Some (pa1\<lparr>at_iv_len := 8, at_icv_len := l, at_iv := put_prefix iv (at_iv pa1)\<rparr>, ?s\<lparr>si_dot11txpn := v\<rparr>)"
        by (rule sec_iv_aead)
      then have x: "at_iv p = put_prefix iv (at_iv pa1)" "si_dot11txpn s = v" using 2(2) by auto
      show ?thesis using AES_IV_pn [OF pn a] e(2) x by (simp add: attrib_pn_def put_prefix_def)
    qed
    then show ?thesis using 2 f q(2) i by simp
  qed
  then show "pn_frame ad ad' i" "si_dot11txpn (sta_of ad' i) \<in> {si_dot11txpn ?s, si_dot11txpn ?s + 1}"
    "r = RET_SUCCESS \<Longrightarrow> aead_cipher (at_encrypt pa') \<Longrightarrow> attrib_pn pa' = si_dot11txpn ?s + 1 \<and> si_dot11txpn (sta_of ad' i) = attrib_pn pa'" by blast+
qed

lemma parsing_eapol_frame:
  "parsing_eapol_packet sec pl s = Some (t, s') \<Longrightarrow> si_dot11txpn s' = si_dot11txpn s \<and> si_mac_addr s' = si_mac_addr s"
  by (auto simp: parsing_eapol_packet_def Let_def split: if_splits bind_splits)

lemma attrib_packet_frame:
  assumes "attrib_packet sec i pf ad pa = Some (t, ad', pa', ns)" "i < length (pstainfo_buf (ad_stapriv ad))"
  shows "pn_frame ad ad' i" "si_dot11txpn (sta_of ad' i) = si_dot11txpn (sta_of ad i)"
  using assms pn_frame_upd [OF assms(2)]
  by (auto simp: attrib_packet_def pn_frame_refl dest!: parsing_eapol_frame split: if_splits bind_splits prod.splits)

lemma attrib_qos_frame: "attrib_qos env pkt pa = Some pa' \<Longrightarrow> at_encrypt pa' = at_encrypt pa \<and> at_iv pa' = at_iv pa"
  by (auto simp: attrib_qos_def set_qos_def split: if_splits bind_splits)

lemma phy_info_frame [simp]: "at_encrypt (update_attrib_phy_info env i pa) = at_encrypt pa" "at_iv (update_attrib_phy_info env i pa) = at_iv pa"
  by (simp_all add: update_attrib_phy_info_def Let_def)

lemma attrib_sta_bound: "hash_ok ad \<Longrightarrow> attrib_sta env ad pa = Some i \<Longrightarrow> i < length (pstainfo_buf (ad_stapriv ad))"
  by (auto simp: attrib_sta_def hash_ok_def rtw_get_bcmc_stainfo_def split: if_splits option.splits)

lemma attrib_pn_cong: "at_iv a = at_iv b \<Longrightarrow> attrib_pn a = attrib_pn b" by (simp add: attrib_pn_def)

lemma sec_info_ret: "update_attrib_sec_info env sec eap i ad pa = (r, ad', pa') \<Longrightarrow> r = RET_SUCCESS \<or> r = RET_FAIL"
  by (auto simp: update_attrib_sec_info_def Let_def split: if_splits option.splits)

lemma update_attrib_cases:
  assumes "update_attrib env sec pkt ad pa = Some (r, ad', pa', ns)"
  obtains "r = RET_FAIL" "ad' = ad"
  | i pf ad1 pa0 eap pa1 n1 pa2 where "attrib_sta env ad pa0 = Some i" "attrib_packet sec i pf ad pa1 = Some (eap, ad1, pa2, n1)"
      "update_attrib_sec_info env sec eap i ad1 pa2 = (r, ad', pa')" "r = RET_FAIL"
  | i pf ad1 pa0 eap pa1 n1 pa2 pa3 where "attrib_sta env ad pa0 = Some i" "attrib_packet sec i pf ad pa1 = Some (eap, ad1, pa2, n1)"
      "update_attrib_sec_info env sec eap i ad1 pa2 = (RET_SUCCESS, ad', pa3)" "r = RET_SUCCESS"
      "at_encrypt pa' = at_encrypt pa3" "at_iv pa' = at_iv pa3" "at_psta pa' = Some i"
proof -
  obtain eth et where h: "mem_rd pkt 0 14 = Some eth" "get_be16 eth 12 = Some et"
    using assms by (auto simp: update_attrib_def split: bind_splits)
  define pa0 where "pa0 = attrib_addrs env ad eth (pa\<lparr>at_ether_type := et\<rparr>)"
  define pf where "pf = snd (rtw_pktfile_read pkt 14)"
  define pa1 where "pa1 = pa0\<lparr>at_pktlen := of_nat (length pf)\<rparr>"
  note u = assms [unfolded update_attrib_def h bind.bind_lunit Let_def, folded pa0_def pf_def, folded pa1_def]
  show thesis
  proof (cases "attrib_sta env ad pa0")
    case None
    then show thesis using u by (intro that(1)) simp_all
  next
    case (Some i)
    obtain eap ad1 pa2 n1 where p: "attrib_packet sec i pf ad pa1 = Some (eap, ad1, pa2, n1)"
      using u Some by (cases "attrib_packet sec i pf ad pa1") auto
    obtain q ad2 pa3 where s: "update_attrib_sec_info env sec eap i ad1 pa2 = (q, ad2, pa3)" by (metis prod_cases3)
    show thesis
    proof (cases "q = RET_FAIL")
      case True
      then show thesis using u Some p s by (intro that(2) [of pa0 i pf pa1 eap ad1 pa2 n1]) simp_all
    next
      case False
      then have q: "q = RET_SUCCESS" using sec_info_ret [OF s] by simp
      let ?p = "pa3\<lparr>at_pkt_hdrlen := 14, at_hdrlen := 24, at_subtype := 8, at_qos_en := si_qos_option (sta_of ad2 i), at_priority := 0\<rparr>"
      obtain pa4 where a: "attrib_qos env pkt ?p = Some pa4" using u Some p s q by (cases "attrib_qos env pkt ?p") simp_all
      have "at_encrypt pa4 = at_encrypt pa3" "at_iv pa4 = at_iv pa3" using attrib_qos_frame [OF a] by simp_all
      then show thesis using u Some p s q a by (intro that(3) [of pa0 i pf pa1 eap ad1 pa2 n1 pa3]) auto
    qed
  qed
qed

abbreviation n_sta :: "adapter \<Rightarrow> nat" where
  "n_sta ad \<equiv> length (pstainfo_buf (ad_stapriv ad))"

abbreviation tx_pn :: "adapter \<Rightarrow> nat \<Rightarrow> nat" where
  "tx_pn ad i \<equiv> unat (si_dot11txpn (sta_of ad i))"

text \<open>What one packet does to the packet numbers.\<close>

lemma update_attrib_pn:
  assumes u: "update_attrib env sec pkt ad pa = Some (r, ad', pa', ns)" and ok: "hash_ok ad"
    and pn: "\<And>i. i < n_sta ad \<Longrightarrow> tx_pn ad i < 0xffffffffffff" and w: "r = RET_SUCCESS \<Longrightarrow> at_encrypt pa' \<noteq> WEP40 \<and> at_encrypt pa' \<noteq> WEP104"
  shows "hash_ok ad' \<and> n_sta ad' = n_sta ad" "tx_pn ad i \<le> tx_pn ad' i" "tx_pn ad' i \<le> tx_pn ad i + 1"
    "r = RET_SUCCESS \<Longrightarrow> at_psta pa' = Some i \<Longrightarrow> aead_cipher (at_encrypt pa') \<Longrightarrow> tx_pn ad i < unat (attrib_pn pa') \<and> unat (attrib_pn pa') = tx_pn ad' i"
proof -
  have lim: "si_dot11txpn (sta_of ad i) < 0xffffffffffff" if "i < n_sta ad" for i using pn [OF that] by (simp add: word_less_nat_alt)
  have suc: "unat (si_dot11txpn (sta_of ad i) + 1) = tx_pn ad i + 1" if "i < n_sta ad" for i
    using pn [OF that] by (simp add: unat_plus_simple [THEN iffD1] word_le_nat_alt unat_word_ariths)
  have step: "hash_ok ad2 \<and> n_sta ad2 = n_sta ad \<and> tx_pn ad i \<le> tx_pn ad2 i \<and> tx_pn ad2 i \<le> tx_pn ad i + 1"
    "q = RET_SUCCESS \<Longrightarrow> aead_cipher (at_encrypt pa3) \<Longrightarrow> i = j \<Longrightarrow> tx_pn ad i < unat (attrib_pn pa3) \<and> unat (attrib_pn pa3) = tx_pn ad2 i"
    if a: "attrib_sta env ad pa0 = Some j" "attrib_packet sec j pf ad pa1 = Some (eap, ad1, pa2, n1)" "update_attrib_sec_info env sec eap j ad1 pa2 = (q, ad2, pa3)"
      "q = r" "at_encrypt pa3 = at_encrypt pa'" for pa0 j pf pa1 eap ad1 pa2 n1 q ad2 pa3
  proof -
    note j = attrib_sta_bound [OF ok a(1)]
    note p = attrib_packet_frame [OF a(2) j]
    have j1: "j < length (pstainfo_buf (ad_stapriv ad1))" using p(1) j by (simp add: pn_frame_def)
    have l1: "si_dot11txpn (sta_of ad1 j) < 0xffffffffffff" using lim [OF j] p(2) by simp
    have w3: "q = RET_SUCCESS \<Longrightarrow> at_encrypt pa3 \<noteq> WEP40 \<and> at_encrypt pa3 \<noteq> WEP104" using a(4,5) w by simp
    note s = sec_info_pn [OF a(3) j1 l1 w3]
    have f: "pn_frame ad ad2 j" using pn_frame_trans p(1) s(1) by blast
    show "hash_ok ad2 \<and> n_sta ad2 = n_sta ad \<and> tx_pn ad i \<le> tx_pn ad2 i \<and> tx_pn ad2 i \<le> tx_pn ad i + 1"
    proof (cases "i = j")
      case True
      then show ?thesis using f ok s(2) p(2) suc [OF j] by (auto simp: pn_frame_def)
    qed (use f ok in \<open>simp add: pn_frame_def\<close>)
    show "tx_pn ad i < unat (attrib_pn pa3) \<and> unat (attrib_pn pa3) = tx_pn ad2 i" if "q = RET_SUCCESS" "aead_cipher (at_encrypt pa3)" "i = j"
      using s(3) [OF _ that(1,2)] that(3) p(2) suc [OF j] by simp
  qed
  from u show "hash_ok ad' \<and> n_sta ad' = n_sta ad" "tx_pn ad i \<le> tx_pn ad' i" "tx_pn ad' i \<le> tx_pn ad i + 1"
    by (cases rule: update_attrib_cases; use ok step(1) in force)+
  assume r: "r = RET_SUCCESS" "at_psta pa' = Some i" "aead_cipher (at_encrypt pa')"
  from u show "tx_pn ad i < unat (attrib_pn pa') \<and> unat (attrib_pn pa') = tx_pn ad' i"
  proof (cases rule: update_attrib_cases)
    case (3 j pf ad1 pa0 eap pa1 n1 pa2 pa3)
    then show ?thesis using step(2) [OF 3(1-3)] r attrib_pn_cong [OF 3(6)] by simp
  qed (use r in simp_all)
qed

text \<open>Packets go through one after the other; the attributes of those that are not refused.\<close>

fun send_all :: "security_priv \<Rightarrow> adapter \<Rightarrow> (attr_env \<times> bytes \<times> xmit_attrib) list \<Rightarrow> xmit_attrib list" where
  "send_all sec ad [] = []"
| "send_all sec ad ((env, pkt, pa) # xs) =
     (case update_attrib env sec pkt ad pa of
        None \<Rightarrow> []
      | Some (r, ad', pa', ns) \<Rightarrow> (if r = RET_SUCCESS then [pa'] else []) @ send_all sec ad' xs)"

definition fresh_pn :: "xmit_attrib \<Rightarrow> xmit_attrib \<Rightarrow> bool" where
  "fresh_pn a b \<longleftrightarrow> (at_psta a = at_psta b \<and> aead_cipher (at_encrypt a) \<and> aead_cipher (at_encrypt b) \<longrightarrow> attrib_pn a < attrib_pn b)"

lemma send_all_Cons:
  assumes "update_attrib env sec pkt ad pa = Some (r, ad', pa', ns)"
  shows "send_all sec ad ((env, pkt, pa) # xs) = (if r = RET_SUCCESS then [pa'] else []) @ send_all sec ad' xs"
  using assms by simp

lemma update_attrib_psta: "update_attrib env sec pkt ad pa = Some (RET_SUCCESS, ad', pa', ns) \<Longrightarrow> \<exists>i. at_psta pa' = Some i"
  by (erule update_attrib_cases) simp_all

lemma send_all_pn:
  assumes "hash_ok ad" "\<And>i. i < n_sta ad \<Longrightarrow> tx_pn ad i + length xs < 2 ^ 48" "\<forall>a \<in> set (send_all sec ad xs). at_encrypt a \<noteq> WEP40 \<and> at_encrypt a \<noteq> WEP104"
  shows "sorted_wrt fresh_pn (send_all sec ad xs) \<and>
    (\<forall>a \<in> set (send_all sec ad xs). \<forall>i. at_psta a = Some i \<longrightarrow> aead_cipher (at_encrypt a) \<longrightarrow> tx_pn ad i < unat (attrib_pn a))"
  using assms
proof (induction xs arbitrary: ad)
  case (Cons x xs)
  obtain env pkt pa where x: "x = (env, pkt, pa)" by (metis prod_cases3)
  show ?case
  proof (cases "update_attrib env sec pkt ad pa")
    case (Some res)
    obtain r ad' pa' ns where u: "update_attrib env sec pkt ad pa = Some (r, ad', pa', ns)" using Some by (metis prod_cases4)
    note c = send_all_Cons [OF u, of xs, folded x]
    have lim: "tx_pn ad i < 0xffffffffffff" if "i < n_sta ad" for i using Cons.prems(2) [OF that] by simp
    have w: "r = RET_SUCCESS \<Longrightarrow> at_encrypt pa' \<noteq> WEP40 \<and> at_encrypt pa' \<noteq> WEP104" using Cons.prems(3) c by simp
    note p = update_attrib_pn [OF u Cons.prems(1) lim w]
    have "tx_pn ad' i + length xs < 2 ^ 48" if "i < n_sta ad'" for i using p(1) p(3) [of i] Cons.prems(2) [of i] that by simp
    from Cons.IH [OF _ this] p(1) have ih: "sorted_wrt fresh_pn (send_all sec ad' xs)"
      "\<And>a i. a \<in> set (send_all sec ad' xs) \<Longrightarrow> at_psta a = Some i \<Longrightarrow> aead_cipher (at_encrypt a) \<Longrightarrow> tx_pn ad' i < unat (attrib_pn a)"
      using Cons.prems(3) c by auto
    have later: "fresh_pn pa' a" if s: "r = RET_SUCCESS" "a \<in> set (send_all sec ad' xs)" for a
    proof -
      obtain i where "at_psta pa' = Some i" using update_attrib_psta u s(1) by blast
      then show ?thesis using p(4) s(1) ih(2) [OF s(2)] by (auto simp: fresh_pn_def word_less_nat_alt)
    qed
    have "tx_pn ad i < unat (attrib_pn a)" if a: "a \<in> set (send_all sec ad (x # xs))" "at_psta a = Some i" "aead_cipher (at_encrypt a)" for a i
    proof (cases "r = RET_SUCCESS \<and> a = pa'")
      case True
      then show ?thesis using p(4) a by blast
    next
      case False
      then have "a \<in> set (send_all sec ad' xs)" using a(1) c by (auto split: if_splits)
      from ih(2) [OF this a(2,3)] p(2) show ?thesis by (rule le_less_trans [rotated])
    qed
    then show ?thesis using ih(1) later c by auto
  qed (simp add: x)
qed simp

text \<open>
  C8. Packet numbers increase from packet to packet. Whatever packets go through the attribute code of
  the transmit path, in whatever environments and to whatever stations, of two packets for the same
  station (or two group packets) encrypted with CCMP or GCMP the later one has the greater packet number
  in its IV. This needs that the 48 bit counter does not wrap during the run and that no packet of it is
  sent with WEP, whose counter is the same field cut to 24 bits. It is about packets, each with the one
  IV this code gives it; the fragments of a packet share that IV.
\<close>

theorem tx_packet_numbers_fresh:
  assumes "hash_ok ad" "\<forall>i < length (pstainfo_buf (ad_stapriv ad)). unat (si_dot11txpn (sta_of ad i)) + length xs < 2 ^ 48"
    "\<forall>a \<in> set (send_all sec ad xs). at_encrypt a \<noteq> WEP40 \<and> at_encrypt a \<noteq> WEP104"
  shows "sorted_wrt fresh_pn (send_all sec ad xs)"
  using send_all_pn [OF assms(1) _ assms(3)] assms(2) by blast

definition sample_attr_env :: attr_env where
  "sample_attr_env = \<lparr>ae_tx = sample_tx_env, ae_acm_mask = 0, ae_elapsed = (\<lambda>_. 1000), ae_conflict = False, ae_ht = True,
     ae_driver_ampdu_spacing = 0xFF, ae_phy = (\<lambda>_. \<lparr>ph_rtsen = False, ph_cts2self = False, ph_ht_option = False, ph_ampdu_enable = False,
       ph_agg_enable_bitmap = 0, ph_tx_amsdu_enable = False, ph_rx_ampdu_min_spacing = 0, ph_init_rate = 2\<rparr>)\<rparr>"

definition aes_sta_ad :: adapter where
  "aes_sta_ad = upd_sta 0 (\<lambda>s. s\<lparr>si_dot118021XPrivacy := 4, si_dot11txpn := 41\<rparr>) (sample_adapter\<lparr>ad_stapriv := one_sta (replicate 6 2)\<rparr>)"

definition arp_packet :: bytes where
  "arp_packet = replicate 6 2 @ replicate 6 6 @ [8, 6, 0, 1, 8, 0]"

lemma aes_sta_pn: "n_sta aes_sta_ad = 32" "i < 32 \<Longrightarrow> si_dot11txpn (sta_of aes_sta_ad i) \<le> 41"
  by (simp_all add: aes_sta_ad_def upd_sta_def sta_of_def one_sta_def nth_list_update zero_stainfo_def)

lemma aes_sta_hash_ok: "hash_ok aes_sta_ad"
proof -
  have "sta_hash (ad_stapriv aes_sta_ad) ! b \<in> {[], [0]}" if "b < 32" for b
    using that by (cases "unat (wifi_mac_hash (replicate 6 2)) = b") (simp_all add: aes_sta_ad_def upd_sta_def one_sta_def)
  then have "i = 0" if "ad_get_sta aes_sta_ad a = Some i" for a i
    using that wifi_mac_hash_bound [of "if IS_MCAST a then bc_addr else a"]
    by (fastforce simp: rtw_get_stainfo_def Let_def NUM_STA_def find_Some_iff)
  then show ?thesis unfolding hash_ok_def aes_sta_pn(1) by fastforce
qed

definition aes_run :: "xmit_attrib list" where
  "aes_run = send_all sample_sec aes_sta_ad [(sample_attr_env, arp_packet, sample_xmit_attrib), (sample_attr_env, arp_packet, sample_xmit_attrib)]"

lemma aes_run_pns: "map (\<lambda>a. (at_encrypt a, attrib_pn a)) aes_run = [(AES, 42), (AES, 43)]"
  unfolding aes_run_def by code_simp

theorem tx_packet_numbers_fresh_witness:
  "sorted_wrt fresh_pn aes_run \<and> map (\<lambda>a. (at_encrypt a, attrib_pn a)) aes_run = [(AES, 42), (AES, 43)]"
proof -
  have "at_encrypt a = AES" if "a \<in> set aes_run" for a 
    using arg_cong [OF aes_run_pns, of "\<lambda>l. fst ` set l"] imageI [OF that, of at_encrypt] by (simp add: image_image)
  then have w: "\<forall>a \<in> set aes_run. at_encrypt a \<noteq> WEP40 \<and> at_encrypt a \<noteq> WEP104" by (simp add: cipher_ids)
  have "unat (si_dot11txpn (sta_of aes_sta_ad i)) + 2 < 2 ^ 48" if "i < 32" for i
    using aes_sta_pn(2) [OF that] by (simp add: word_le_nat_alt)
  then show ?thesis using tx_packet_numbers_fresh [OF aes_sta_hash_ok _ w [unfolded aes_run_def]] aes_run_pns by (simp add: aes_run_def aes_sta_pn(1))
qed

end
