(* ===== verification/Xmit_Recv.thy ===== *)
theory Xmit_Recv
  imports Xmit_Attrib Recv_Path_Inv
begin

unbundle bit_operations_syntax

text \<open>
  Transmit and receive path together: what the receive path of a station makes of the frame that the
  transmit path of its access point builds.
\<close>

section \<open>Reading the header back\<close>

lemma le2_back [simp]: "ucast (le2 v ! 0) OR push_bit 8 (ucast (le2 v ! Suc 0)) = v"
  by (simp add: le2_def le2_u16)

text \<open>The fields of a received frame that starts with a header.\<close>

lemma hdr_fields:
  assumes wf: "frame_wf f" and p: "frame_payload f = wlanhdr fc a1 a2 a3 sc r"
    and l: "length a1 = 6" "length a2 = 6" "length a3 = 6"
  shows "frame_fc f = Some fc" "addr1 f = Some a1" "addr2 f = Some a2" "addr3 f = Some a3" "frame_le16 f 22 = Some sc"
    "frame_rd f 0 (Suc 0) = Some [ucast fc]" "frame_rd f 4 (Suc 0) = Some [hd a1]" "2 \<le> length r \<Longrightarrow> frame_rd f 24 2 = Some (take 2 r)"
proof -
  have n: "length (frame_payload f) = 24 + length r" unfolding p wlanhdr_rd(7) [OF l] ..
  have rd: "frame_rd f k m = Some (take m (drop (nat k) (wlanhdr fc a1 a2 a3 sc r)))" if "0 \<le> k" "nat k + m \<le> 24 + length r" for k m
    using frame_rd_payload [OF wf that(1)] that(2) n p by simp
  show "frame_fc f = Some fc" "addr1 f = Some a1" "addr2 f = Some a2" "addr3 f = Some a3" "frame_le16 f 22 = Some sc"
    by (simp_all add: frame_fc_def addr_defs frame_le16_def rd wlanhdr_rd [OF l])
  show "2 \<le> length r \<Longrightarrow> frame_rd f 24 2 = Some (take 2 r)"
    by (simp add: rd wlanhdr_rd [OF l])
  show "frame_rd f 0 (Suc 0) = Some [ucast fc]" by (simp add: rd) (simp add: wlanhdr_def le2_def)
  have "take (Suc 0) (drop 4 (wlanhdr fc a1 a2 a3 sc r)) = [hd a1]" using l(1) by (cases a1) (simp_all add: wlanhdr_def le2_def)
  then show "frame_rd f 4 (Suc 0) = Some [hd a1]" by (simp add: rd)
qed

text \<open>The frame control field of a plain data frame of an access point.\<close>

definition plain_fc :: "bool \<Rightarrow> u16 \<Rightarrow> bool" where
  "plain_fc q fc \<longleftrightarrow> GetFrameType fc = WIFI_DATA_TYPE \<and> (ucast fc :: u8) AND 3 = 0 \<and> get_tofr_ds fc = 1 \<and> \<not> GetMFrag fc \<and> \<not> GetPrivacy fc \<and> \<not> GetOrder fc
     \<and> bit fc 7 = q \<and> get_frame_sub_type fc AND 0x40 = 0"

lemma ap_fc_plain:
  assumes "at_subtype pa = (if at_qos_en pa then 0x88 else 0x08)" "at_encrypt pa = 0"
  shows "plain_fc (at_qos_en pa) (ap_fc pa)"
  using assms unfolding plain_fc_def ap_fc_def
  by (cases "at_qos_en pa"; cases "at_mdata pa")
    (simp_all add: GetFrameType_def get_tofr_ds_def GetMFrag_def GetPrivacy_def GetOrder_def get_frame_sub_type_def WIFI_DATA_TYPE_def)

lemma set_bits16_bit:
  assumes "pos + len \<le> 8" "n < 16"
  shows "bit (set_bits16 pos len v w) n \<longleftrightarrow> (if pos \<le> n \<and> n < pos + len then bit v (n - pos) else bit w n)"
  using assms unfolding set_bits16_def by (auto simp: bit_simps)

lemma qc_word_bits: "GetPriority (ucast (qc_word pa)) = at_priority pa AND 0xF" "\<not> GetAMsdu (ucast (qc_word pa))"
proof -
  have m: "(0xF :: u8) = mask 4" by (simp add: mask_eq_exp_minus_1)
  show "GetPriority (ucast (qc_word pa)) = at_priority pa AND 0xF"
    unfolding GetPriority_def m by (rule bit_word_eqI) (auto simp: bit_and_iff bit_mask_iff bit_ucast_iff qc_word_def set_bits16_bit)
  show "\<not> GetAMsdu (ucast (qc_word pa))" by (simp add: GetAMsdu_def bit_ucast_iff qc_word_def set_bits16_bit)
qed

section \<open>A station that hears the access point\<close>

text \<open>
  An associated station of an open network: \<open>i\<close> is the access point's entry in its table. No frame
  waits for a key and no reorder window is active.
\<close>

definition open_peer :: "path_env \<Rightarrow> path_ctx \<Rightarrow> bytes \<Rightarrow> nat \<Rightarrow> bool" where
  "open_peer env p bssid i \<longleftrightarrow> \<not> check_fwstate (pe_val env) WIFI_MONITOR_STATE \<and> check_fwstate (pe_val env) WIFI_STATION_STATE
     \<and> check_fwstate (pe_val env) (WIFI_ASOC_STATE OR WIFI_UNDER_LINKING) \<and> \<not> ad_mlme_ap (rx_ad (pc_rx p))
     \<and> uc_swdec_pending_queue (rx_pool (pc_rx p)) = [] \<and> dot11PrivacyAlgrthm (rx_sec (pc_rx p)) = 0
     \<and> rtw_get_stainfo (ad_stapriv (rx_ad (pc_rx p))) bssid = Some i \<and> i < length (rx_stas (pc_rx p))
     \<and> \<not> si_ieee8021x_blocked (rx_sta (pc_rx p) i) \<and> length (si_recvreorder_ctrl (rx_sta (pc_rx p) i)) = 16
     \<and> (\<forall>rc\<in>set (si_recvreorder_ctrl (rx_sta (pc_rx p) i)). \<not> rc_enable rc)"

lemma swdec_drain_empty: "uc_swdec_pending_queue (rx_pool (pc_rx p)) = [] \<Longrightarrow> swdec_drain env p = Some p"
  by (subst swdec_drain.simps) (simp add: rtw_alloc_recvframe_def)

lemma frame_rd_upd [simp]: "frame_rd (parse_fc fc sc f) = frame_rd f"
  by (simp add: parse_fc_def)

lemma open_hdr:
  assumes op: "open_peer env p bssid i" and q: "plain_fc q fc"
    and f: "frame_fc f = Some fc" "addr1 f = Some dst" "addr2 f = Some bssid" "addr3 f = Some src" "frame_rd f 4 (Suc 0) = Some [hd dst]"
    and src: "src \<noteq> ad_mac (rx_ad (pc_rx p))" and at: "pa_to_fr_ds (fr_attrib f) = 1" "\<not> pa_amsdu (fr_attrib f)"
  shows "validate_data_hdr (pe_val env) f (pc_val p) =
    Some (RET_SUCCESS, Some i, set_dst_src dst src bssid (set_ra_ta dst bssid f), pc_val p)"
proof -
  note o = op [unfolded open_peer_def]
  let ?g = "set_dst_src dst src bssid (set_ra_ta dst bssid f)"
  have e: "pa_src (fr_attrib ?g) = src" "pa_ta (fr_attrib ?g) = bssid" "frame_rd ?g = frame_rd f"
    by (simp_all add: set_dst_src_def set_ra_ta_def upd_attrib_def frame_rd_def fun_eq_iff)
  have fc: "frame_fc ?g = Some fc" using f(1) by (simp add: frame_fc_def e)
  have "sta_hdr_check (pe_val env) b ?g (pc_val p) = Some (RET_SUCCESS, Some i, ?g, pc_val p)" for b
    unfolding sta_hdr_check_def e fc using o src q by (auto simp: plain_fc_def)
  moreover have "addr3 (set_ra_ta dst bssid f) = Some src" using f(4) by (simp add: addr_defs)
  ultimately show ?thesis
    unfolding validate_data_hdr_def rtw_sta_rx_data_validate_hdr_def sta_hdr_addrs_def
    using o f at by simp
qed


lemma set_sta_twice [simp]: "set_sta i s (set_sta i t c) = set_sta i s c"
  by (simp add: set_sta_def)

text \<open>The frame as it is admitted.\<close>

definition admitted :: "nat \<Rightarrow> u8 \<Rightarrow> u8 \<Rightarrow> recv_frame \<Rightarrow> recv_frame" where
  "admitted i pr ap f = f\<lparr>fr_attrib := (fr_attrib f)\<lparr>pa_ack_policy := ap, pa_priority := pr, pa_hdrlen := if pa_qos (fr_attrib f) then 26 else 24,
     pa_encrypt := 0, pa_iv_len := 0, pa_icv_len := 0\<rparr>, fr_psta := Some i,
     fr_preorder_ctrl := if pa_qos (fr_attrib f) then Some (i, unat pr) else None\<rparr>"

lemma open_sta:
  assumes op: "open_peer env p bssid i"
    and a: "\<not> pa_amsdu (fr_attrib f)" "\<not> pa_order (fr_attrib f)" "\<not> pa_privacy (fr_attrib f)" "\<not> IS_MCAST (pa_ra (fr_attrib f))" "pa_encrypt (fr_attrib f) = 0"
    and q: "pa_qos (fr_attrib f) \<Longrightarrow> frame_qc f 24 = Some qc" "pr = (if pa_qos (fr_attrib f) then GetPriority qc else 0)"
    and new: "seq_ctrl (fr_attrib f) \<noteq> (if pa_qos (fr_attrib f) then si_tid_rxseq (rx_sta (pc_rx p) i) ! unat pr else si_nonqos_rxseq (rx_sta (pc_rx p) i))"
  obtains ap v' s where "validate_data_sta (pe_val env) i 0 f (pc_val p) = Some (RET_SUCCESS, admitted i pr ap f, v')" "vc_rx v' = set_sta i s (pc_rx p)"
    "si_ieee8021x_blocked s = si_ieee8021x_blocked (rx_sta (pc_rx p) i)" "si_recvreorder_ctrl s = si_recvreorder_ctrl (rx_sta (pc_rx p) i)"
    "si_mac_addr s = si_mac_addr (rx_sta (pc_rx p) i)"
proof -
  note o = op [unfolded open_peer_def]
  let ?q = "pa_qos (fr_attrib f)" and ?c = "pc_rx p"
  define ap where "ap = (if ?q then GetAckpolicy qc else 0)"
  define f4 where "f4 = f\<lparr>fr_attrib := (fr_attrib f)\<lparr>pa_ack_policy := ap, pa_priority := pr, pa_hdrlen := if ?q then 26 else 24\<rparr>, fr_psta := Some i, fr_preorder_ctrl := None\<rparr>"
  have pr: "pr \<le> 15" using q(2) by (auto simp: GetPriority_def word_and_le1)
  have fq: "frame_qc (f\<lparr>fr_psta := x, fr_preorder_ctrl := y, fr_attrib := z\<rparr>) k = frame_qc f k" for x y z k by (simp add: frame_qc_def frame_rd_def)
  obtain v4 where qos: "validate_data_qos (f\<lparr>fr_psta := Some i, fr_preorder_ctrl := None\<rparr>) 0 (pc_val p) = Some (f4, v4)" "vc_rx v4 = ?c"
    using a(2) q by (cases ?q) (auto simp: validate_data_qos_def upd_attrib_def f4_def ap_def fq)
  define s where "s = rxseq_set (fr_attrib f4) (seq_ctrl (fr_attrib f4)) (rx_sta ?c i)"
  have s: "si_ieee8021x_blocked s = si_ieee8021x_blocked (rx_sta ?c i)" "si_recvreorder_ctrl s = si_recvreorder_ctrl (rx_sta ?c i)"
    "si_mac_addr s = si_mac_addr (rx_sta ?c i)" by (simp_all add: s_def rxseq_set_def)
  have "seq_ctrl (fr_attrib f4) \<noteq> rxseq_get (fr_attrib f4) (rx_sta ?c i)"
    using new a(4) by (cases ?q) (simp_all add: f4_def seq_ctrl_def rxseq_get_def)
  then have d: "recv_decache (fr_attrib f4) (rx_sta ?c i) = (RET_SUCCESS, s)"
    using pr by (simp add: recv_decache_def s_def f4_def)
  have rs: "rx_sta (set_sta i s ?c) i = s" using o by (simp add: rx_sta_def set_sta_def)
  define f5 where "f5 = f4\<lparr>fr_preorder_ctrl := if ?q then Some (i, unat pr) else None\<rparr>"
  define v5 where "v5 = v4\<lparr>vc_rx := set_sta i s ?c\<rparr>"
  have pn: "recv_ucast_pn_decache g s = Some (RET_SUCCESS, s)" if "fr_attrib g = fr_attrib f4" for g
    using pr a(5) that by (simp add: recv_ucast_pn_decache_def f4_def sec_type_defs Let_def word_le_nat_alt)
  have dec: "validate_data_decache (pe_val env) i f4 v4 = Some (RET_SUCCESS, f5, v5)"
    unfolding validate_data_decache_def Let_def qos(2) d prod.case
    using a(4) rs by (cases ?q) (simp_all add: f4_def f5_def v5_def pn)
  have ci: "validate_data_cipher i f5 v5 = admitted i pr ap f"
    using a(3) by (simp add: validate_data_cipher_def upd_attrib_def f5_def f4_def admitted_def)
  have "validate_data_protected i (admitted i pr ap f) v5 = Some RET_SUCCESS"
    using o by (simp add: validate_data_protected_def v5_def set_sta_def)
  then have "validate_data_sta (pe_val env) i 0 f (pc_val p) = Some (RET_SUCCESS, admitted i pr ap f, v5)"
    unfolding validate_data_sta_def using a(1) qos(1) dec ci by simp
  then show thesis using that s by (simp add: v5_def)
qed


lemma seq_ctrl_back: "take_bit 4 sc = 0 \<Longrightarrow> push_bit 4 (drop_bit 4 sc AND 0xFFFF) OR ucast (ucast (sc AND 0xf :: u16) AND 0xF :: u8) = sc"
proof -
  assume a: "take_bit 4 sc = 0"
  have m: "sc AND 0xf = take_bit 4 sc" by (simp add: take_bit_eq_mask mask_eq_exp_minus_1)
  have f: "(0xFFFF :: u16) = mask 16" by (simp add: mask_eq_exp_minus_1)
  have b: "4 \<le> n" if "bit sc n" for n
  proof (rule ccontr)
    assume "\<not> 4 \<le> n"
    then have "bit (take_bit 4 sc) n" using that by (simp add: bit_take_bit_iff)
    then show False unfolding a by simp
  qed
  have b2: "4 + (n - 4) = n" if "bit sc n" for n using b [OF that] by simp
  have "push_bit 4 (drop_bit 4 sc AND mask 16) = sc"
    by (rule bit_word_eqI) (auto simp: bit_simps b2 dest: b)
  then show ?thesis unfolding m a f by simp
qed

text \<open>The parsed frame: what the first checks make of the frame control and sequence fields.\<close>

lemma parsed_attr:
  fixes f :: recv_frame
  assumes "plain_fc q fc" "take_bit 4 sc = 0"
  defines "a \<equiv> fr_attrib (upd_attrib (\<lambda>a. a\<lparr>pa_qos := q\<rparr>) (parse_fc fc sc f))"
  shows "pa_to_fr_ds a = 1" "\<not> pa_mfrag a" "\<not> pa_privacy a" "\<not> pa_order a" "pa_qos a = q" "pa_frag_num a = 0" "seq_ctrl a = sc"
    "pa_encrypt a = pa_encrypt (fr_attrib f)"
proof -
  have "sc AND 0xf = 0" using assms(2) by (simp add: take_bit_eq_mask mask_eq_exp_minus_1)
  then show "pa_to_fr_ds a = 1" "\<not> pa_mfrag a" "\<not> pa_privacy a" "\<not> pa_order a" "pa_qos a = q" "pa_frag_num a = 0" "pa_encrypt a = pa_encrypt (fr_attrib f)"
    using assms(1) by (simp_all add: a_def upd_attrib_def parse_fc_def plain_fc_def)
  show "seq_ctrl a = sc" using seq_ctrl_back [OF assms(2)] by (simp add: a_def upd_attrib_def parse_fc_def seq_ctrl_def)
qed

definition last_seq :: "path_ctx \<Rightarrow> nat \<Rightarrow> bool \<Rightarrow> u8 \<Rightarrow> u16" where
  "last_seq p i q pr = (if q then si_tid_rxseq (rx_sta (pc_rx p) i) ! unat pr else si_nonqos_rxseq (rx_sta (pc_rx p) i))"

lemma open_prehandle:
  assumes op: "open_peer env p bssid i" and fc: "plain_fc q fc" and sc: "take_bit 4 sc = 0"
    and f: "frame_wf f" "frame_payload f = wlanhdr fc dst bssid src sc ((if q then le2 w else []) @ m)" "pa_encrypt (fr_attrib f) = 0"
    and l: "length dst = 6" "length bssid = 6" "length src = 6" "\<not> IS_MCAST dst" "src \<noteq> ad_mac (rx_ad (pc_rx p))" "\<not> GetAMsdu (ucast w)"
    and new: "sc \<noteq> last_seq p i q (GetPriority (ucast w))"
  obtains g v s and pr :: u8 where "recv_func_prehandle env f (pc_val p) = Some (RET_SUCCESS, g, v)" "vc_rx v = set_sta i s (pc_rx p)"
    "si_ieee8021x_blocked s = si_ieee8021x_blocked (rx_sta (pc_rx p) i)" "si_recvreorder_ctrl s = si_recvreorder_ctrl (rx_sta (pc_rx p) i)"
    "si_mac_addr s = si_mac_addr (rx_sta (pc_rx p) i)"
    "frame_wf g" "frame_payload g = frame_payload f" "fr_id g = fr_id f" "fr_preorder_ctrl g = (if q then Some (i, unat pr) else None)" "pr \<le> 15"
    "\<not> pa_amsdu (fr_attrib g)" "\<not> pa_mfrag (fr_attrib g)" "pa_frag_num (fr_attrib g) = 0" "pa_encrypt (fr_attrib g) = 0" "pa_iv_len (fr_attrib g) = 0"
    "pa_hdrlen (fr_attrib g) = (if q then 26 else 24)" "pa_dst (fr_attrib g) = dst" "pa_src (fr_attrib g) = src" "pa_ta (fr_attrib g) = bssid"
proof -
  note h = hdr_fields [OF f(1,2) l(1-3)]
  define f1 where "f1 = upd_attrib (\<lambda>a. a\<lparr>pa_qos := q\<rparr>) (parse_fc fc sc f)"
  have rd: "frame_rd f1 = frame_rd f" by (simp add: f1_def)
  note pa = parsed_attr [OF fc sc, of f, folded f1_def]
  define f0 where "f0 = upd_attrib (\<lambda>a. a\<lparr>pa_amsdu := False\<rparr>) f1"
  have f0: "frame_fc f0 = Some fc" "addr1 f0 = Some dst" "addr2 f0 = Some bssid" "addr3 f0 = Some src" "frame_rd f0 4 (Suc 0) = Some [hd dst]"
    "pa_to_fr_ds (fr_attrib f0) = 1" "\<not> pa_amsdu (fr_attrib f0)"
    using h pa by (simp_all add: frame_fc_def addr_defs f0_def rd) (simp_all add: upd_attrib_def)
  define f2 where "f2 = set_dst_src dst src bssid (set_ra_ta dst bssid f0)"
  have hdr: "validate_data_hdr (pe_val env) f0 (pc_val p) = Some (RET_SUCCESS, Some i, f2, pc_val p)"
    unfolding f2_def by (rule open_hdr [OF op fc f0(1-5) l(5) f0(6,7)])
  have a2: "fr_attrib f2 = (fr_attrib f1)\<lparr>pa_amsdu := False, pa_ra := dst, pa_ta := bssid, pa_dst := dst, pa_src := src, pa_bssid := bssid\<rparr>"
    by (simp add: f2_def f0_def set_dst_src_def set_ra_ta_def upd_attrib_def)
  have same: "frame_payload f2 = frame_payload f" "frame_wf f2 = frame_wf f" "fr_id f2 = fr_id f"
    by (simp_all add: f2_def f0_def f1_def set_dst_src_def set_ra_ta_def upd_attrib_def parse_fc_def frame_payload_def frame_wf_def)
  have qc: "frame_qc f1 24 = Some (ucast w)" "frame_qc f2 24 = Some (ucast w)" if q
    using h(8) that by (simp_all add: frame_qc_def rd f2_def f0_def le2_def)
  define pr where "pr = (if q then GetPriority (ucast w) else 0)"
  have seq: "seq_ctrl (fr_attrib f2) = sc" using pa(7) by (simp add: a2 seq_ctrl_def)
  have nw: "seq_ctrl (fr_attrib f2) \<noteq> (if pa_qos (fr_attrib f2) then si_tid_rxseq (rx_sta (pc_rx p) i) ! unat pr else si_nonqos_rxseq (rx_sta (pc_rx p) i))"
    using new pa(5) unfolding seq by (cases q) (simp_all add: a2 last_seq_def pr_def)
  obtain ap v s where st: "validate_data_sta (pe_val env) i 0 f2 (pc_val p) = Some (RET_SUCCESS, admitted i pr ap f2, v)" "vc_rx v = set_sta i s (pc_rx p)"
    "si_ieee8021x_blocked s = si_ieee8021x_blocked (rx_sta (pc_rx p) i)" "si_recvreorder_ctrl s = si_recvreorder_ctrl (rx_sta (pc_rx p) i)"
    "si_mac_addr s = si_mac_addr (rx_sta (pc_rx p) i)"
    using open_sta [OF op _ _ _ _ _ _ _ nw, of "ucast w"] pa f(3) l(4) qc(2) by (auto simp: a2 pr_def)
  have am: "(if pa_qos (fr_attrib f1) then map_option GetAMsdu (frame_qc f1 (24 + 0)) else Some False) = Some False"
    using pa(5) qc(1) l(6) by (cases q) simp_all
  have "validate_recv_data_frame (pe_val env) f1 (pc_val p) = Some (RET_SUCCESS, admitted i pr ap f2, v)"
    unfolding validate_recv_data_frame_def using pa(1) am hdr st(1) by (simp add: f0_def)
  then have "validate_recv_frame env f (pc_val p) = Some (RET_SUCCESS, admitted i pr ap f2, v)"
    unfolding validate_recv_frame_def using h fc
    by (simp add: plain_fc_def f1_def WIFI_MGT_TYPE_def WIFI_CTRL_TYPE_def WIFI_DATA_TYPE_def)
  then have pre: "recv_func_prehandle env f (pc_val p) = Some (RET_SUCCESS, admitted i pr ap f2, v)"
    by (simp add: recv_func_prehandle_def)
  have p15: "pr \<le> 15" by (auto simp: pr_def GetPriority_def word_and_le1)
  show thesis
    by (rule that [OF pre st(2-5), of pr]) (use same f(1) pa p15 in \<open>simp_all add: admitted_def a2 frame_wf_def frame_payload_def\<close>)
qed


lemma recv_entry_open:
  assumes op: "open_peer env p bssid i" and fc: "plain_fc q fc" and sc: "take_bit 4 sc = 0"
    and f: "frame_wf f" "frame_payload f = wlanhdr fc dst bssid src sc ((if q then le2 w else []) @ m)" "pa_encrypt (fr_attrib f) = 0"
    and l: "length dst = 6" "length bssid = 6" "length src = 6" "\<not> IS_MCAST dst" "src \<noteq> ad_mac (rx_ad (pc_rx p))" "\<not> GetAMsdu (ucast w)"
    and new: "sc \<noteq> last_seq p i q (GetPriority (ucast w))"
    and m: "length m < 65536" "\<forall>k. me_pkt_alloc (pe_msdu env (fr_id f)) k" "\<not> me_cannot_run (pe_msdu env (fr_id f))"
  shows "\<exists>p'. rtw_recv_entry env f p = Some (RET_SUCCESS, p') \<and> pc_events p' = pc_events p @ [MsduIndicate (rtw_os_alloc_msdu_pkt dst src m (llc_of m))]"
proof -
  note o = op [unfolded open_peer_def]
  obtain g v s and pr :: u8 where pre: "recv_func_prehandle env f (pc_val p) = Some (RET_SUCCESS, g, v)" and v: "vc_rx v = set_sta i s (pc_rx p)"
    "si_ieee8021x_blocked s = si_ieee8021x_blocked (rx_sta (pc_rx p) i)" "si_recvreorder_ctrl s = si_recvreorder_ctrl (rx_sta (pc_rx p) i)"
    "si_mac_addr s = si_mac_addr (rx_sta (pc_rx p) i)"
    and g: "frame_wf g" "frame_payload g = frame_payload f" "fr_id g = fr_id f" "fr_preorder_ctrl g = (if q then Some (i, unat pr) else None)" "pr \<le> 15"
    "\<not> pa_amsdu (fr_attrib g)" "\<not> pa_mfrag (fr_attrib g)" "pa_frag_num (fr_attrib g) = 0" "pa_encrypt (fr_attrib g) = 0" "pa_iv_len (fr_attrib g) = 0"
    "pa_hdrlen (fr_attrib g) = (if q then 26 else 24)" "pa_dst (fr_attrib g) = dst" "pa_src (fr_attrib g) = src" "pa_ta (fr_attrib g) = bssid"
    by (rule open_prehandle [OF op fc sc f l new])
  define p1 where "p1 = p\<lparr>pc_val := v\<rparr>"
  have i: "i < length (rx_stas (pc_rx p))" using o by simp
  have c1: "pc_rx p1 = set_sta i s (pc_rx p)" "rx_sta (pc_rx p1) i = s" "rx_stas (pc_rx p1) = (rx_stas (pc_rx p))[i := s]" "ad_mlme_ap (rx_ad (pc_rx p1)) = ad_mlme_ap (rx_ad (pc_rx p))"
    using i v(1) by (simp_all add: p1_def rx_sta_def set_sta_def)
  define hd where "hd = wlanhdr fc dst bssid src sc (if q then le2 w else [])"
  have hl: "length hd = unat (pa_hdrlen (fr_attrib g))" "14 \<le> length hd" using l(1-3) g(11) by (auto simp: hd_def wlanhdr_def)
  have gp: "frame_payload g = hd @ [] @ m @ []" using g(2) f(2) by (simp add: hd_def wlanhdr_def)
  have port: "rtw_get_stainfo (ad_stapriv (rx_ad (pc_rx p1))) bssid = Some i"
  proof -
    have "si_mac_addr (rx_stas (pc_rx p1) ! j) = si_mac_addr (rx_stas (pc_rx p) ! j)" for j
      unfolding c1(3) using v(4) i by (cases "j = i") (simp_all add: rx_sta_def)
    moreover have "sta_hash (ad_stapriv (rx_ad (pc_rx p1))) = sta_hash (ad_stapriv (rx_ad (pc_rx p)))" by (simp add: c1(1) set_sta_def)
    ultimately show ?thesis using o by (simp add: rtw_get_stainfo_def Let_def)
  qed
  obtain orc where rc: "get_rc (pc_rx p1) (fr_preorder_ctrl g) = Some orc" "case orc of None \<Rightarrow> True | Some rc \<Rightarrow> \<not> pa_qos (fr_attrib g) \<or> \<not> rc_enable rc"
  proof (cases q)
    case True
    have pl: "unat pr < length (si_recvreorder_ctrl s)" using o v(3) g(5) by (simp add: word_le_nat_alt)
    have "get_rc (pc_rx p1) (fr_preorder_ctrl g) = Some (Some (si_recvreorder_ctrl s ! unat pr))"
      using True i pl g(4) c1(2,3) by (simp add: get_rc_def idx_def)
    moreover have "\<not> rc_enable (si_recvreorder_ctrl s ! unat pr)" using o v(3) pl by simp
    ultimately show thesis using that by simp
  qed (use that g(4) in \<open>simp add: get_rc_def\<close>)
  have nk: "\<not> waits_for_key env g sec" for sec using g(9) by (simp add: waits_for_key_def)
  obtain p' where p': "recv_func_posthandle env g p1 = Some (RET_SUCCESS, p')"
    "pc_events p' = pc_events p1 @ [MsduIndicate (rtw_os_alloc_msdu_pkt (pa_dst (fr_attrib g)) (pa_src (fr_attrib g)) m (llc_of m))]"
    using posthandle_delivers [OF g(1) gp hl(1) _ hl(2) m(1) _ _ _ refl g(6-8), of p1 env orc] g(9,10,12-14) l(1,3) o m(2,3) g(3) c1(2,4) port v(2) rc
    by (auto simp: sec_type_defs)
  have "recv_func_main env f p = Some (RET_SUCCESS, p')"
    using pre nk p'(1) by (simp add: recv_func_main_def p1_def [symmetric])
  then have "rtw_recv_entry env f p = Some (RET_SUCCESS, p')"
    using o swdec_drain_empty by (simp add: rtw_recv_entry_def recv_func_def)
  then show ?thesis using p'(2) g(12,13) by (simp add: p1_def)
qed


text \<open>The LLC header the transmit side puts in front is the one the receive side takes off.\<close>

lemma put_snap_llc: "llc_of (rtw_put_snap t @ m) = RTW_RX_LLC_REMOVE" "drop 6 (rtw_put_snap t @ m) = put_be16 t @ m"
proof -
  have b: "get_be16 (rtw_put_snap t @ m) 6 = Some t"
    using be16_roundtrip [of t] by (simp add: get_be16_def rtw_put_snap_def put_be16_def)
  show "llc_of (rtw_put_snap t @ m) = RTW_RX_LLC_REMOVE"
    using b by (auto simp: llc_of_def rtw_put_snap_def rtw_rfc1042_header_def rtw_bridge_tunnel_header_def ETH_P_AARP_def ETH_P_IPX_def put_be16_def)
  show "drop 6 (rtw_put_snap t @ m) = put_be16 t @ m" by (simp add: rtw_put_snap_def)
qed


section \<open>From access point to station\<close>

text \<open>What goes on the air of a frame in one fragment.\<close>

definition air_bytes :: "tx_env \<Rightarrow> xmit_attrib \<Rightarrow> bytes \<Rightarrow> bytes" where
  "air_bytes env pa buf = take (unat (at_last_txcmdsz pa)) (drop (hw_hdr_offset (mx_pkt_offset env)) buf)"

definition open_attrib :: "xmit_attrib \<Rightarrow> bool" where
  "open_attrib pa \<longleftrightarrow> at_encrypt pa = 0 \<and> at_iv_len pa = 0 \<and> at_icv_len pa = 0 \<and> \<not> at_bswenc pa \<and> at_ra pa = at_dst pa \<and> \<not> IS_MCAST (at_dst pa)
     \<and> at_pkt_hdrlen pa = 14"

text \<open>
  From the transmit buffer to the network stack: in an open network a packet that fits one
  fragment, built into the transmit buffer by the access point's transmit path, is accepted by the
  receive path of a station associated with it, and comes out as the same Ethernet frame, exactly once.
\<close>

lemma ap_to_sta_air:
  assumes ap: "ap_sends env ad pa i" "open_attrib pa"
    and pkt: "pkt = at_dst pa @ at_src pa @ put_be16 (at_ether_type pa) @ m" "length m \<le> unat (frag_room pa (mx_frag_len env) True)" "length m < 65000"
    and buf: "hw_hdr_offset (mx_pkt_offset env) + 64 + length m \<le> length buf"
    and rx: "open_peer renv p (ve_bssid (tx_mlme env)) j" "at_src pa \<noteq> ad_mac (rx_ad (pc_rx p))"
      "push_bit 4 (next_seq ad i pa) \<noteq> last_seq p j (at_qos_en pa) (at_priority pa AND 0xF)"
      "\<forall>k x. me_pkt_alloc (pe_msdu renv k) x \<and> \<not> me_cannot_run (pe_msdu renv k)"
  shows "\<exists>ad' pa' buf'. rtw_xmitframe_coalesce env ad sec pkt pa (Some buf) = Some (RET_SUCCESS, ad', pa', Some buf') \<and> length buf' = length buf
    \<and> (\<forall>f. frame_wf f \<and> frame_payload f = air_bytes env pa' buf' \<and> pa_encrypt (fr_attrib f) = 0 \<longrightarrow>
        (\<exists>p'. rtw_recv_entry renv f p = Some (RET_SUCCESS, p') \<and> pc_events p' = pc_events p @ [MsduIndicate pkt]))"
proof -
  note o = ap(2) [unfolded open_attrib_def] and a = ap(1) [unfolded ap_sends_def]
  let ?t = "at_ether_type pa"
  have hl: "unat (at_hdrlen pa) \<le> 26" using a by (cases "at_qos_en pa") simp_all
  have fd: "frag_data pa (mx_frag_len env) True m = m" using pkt(2) o by (simp add: frag_data_def)
  have eth: "pkt = (at_dst pa @ at_src pa @ put_be16 ?t) @ m" "length (at_dst pa @ at_src pa @ put_be16 ?t) = unat (at_pkt_hdrlen pa)"
    using pkt(1) a o by (simp_all add: put_be16_def)
  obtain ad' pa' buf' where c: "rtw_xmitframe_coalesce env ad sec pkt pa (Some buf) = Some (RET_SUCCESS, ad', pa', Some buf')"
    "at_last_txcmdsz pa' = ucast (at_hdrlen pa) + 8 + of_nat (length m)" "length buf' = length buf"
    "take (unat (at_hdrlen pa) + 8 + length m) (drop (hw_hdr_offset (mx_pkt_offset env)) buf') =
      wlanhdr (ap_fc pa) (at_dst pa) (ve_bssid (tx_mlme env)) (at_src pa) (push_bit 4 (next_seq ad i pa))
        ((if at_qos_en pa then le2 (qc_word pa) else []) @ rtw_put_snap ?t @ m)"
    using coalesce_plain_ap [OF ap(1) _ _ _ _ eth fd, of buf sec] o buf hl by auto
  have n: "unat (at_last_txcmdsz pa') = unat (at_hdrlen pa) + 8 + length m"
  proof -
    define N where "N = unat (at_hdrlen pa) + 8 + length m"
    have "at_last_txcmdsz pa' = of_nat N" unfolding c(2) N_def by simp
    moreover have "N < 2 ^ 32" using hl pkt(3) by (simp add: N_def)
    ultimately show ?thesis by (simp only: N_def [symmetric]) (simp add: unat_of_nat take_bit_nat_eq_self)
  qed
  have fc: "plain_fc (at_qos_en pa) (ap_fc pa)" using a o by (intro ap_fc_plain) simp_all
  have "\<exists>p'. rtw_recv_entry renv f p = Some (RET_SUCCESS, p') \<and> pc_events p' = pc_events p @ [MsduIndicate pkt]"
    if f: "frame_wf f" "frame_payload f = air_bytes env pa' buf'" "pa_encrypt (fr_attrib f) = 0" for f
  proof -
    have w: "frame_payload f = wlanhdr (ap_fc pa) (at_dst pa) (ve_bssid (tx_mlme env)) (at_src pa) (push_bit 4 (next_seq ad i pa))
        ((if at_qos_en pa then le2 (qc_word pa) else []) @ rtw_put_snap ?t @ m)"
      using f(2) c(4) by (simp add: air_bytes_def n)
    have e: "rtw_os_alloc_msdu_pkt (at_dst pa) (at_src pa) (rtw_put_snap ?t @ m) (llc_of (rtw_put_snap ?t @ m)) = pkt"
      unfolding put_snap_llc(1) rtw_os_alloc_msdu_pkt_def using pkt(1) put_snap_llc(2) by simp
    have sc: "take_bit 4 (push_bit 4 (next_seq ad i pa)) = 0" by (simp add: take_bit_push_bit)
    from recv_entry_open [OF rx(1) fc sc f(1) w f(3)] show ?thesis
      using a o rx qc_word_bits [of pa] pkt(3) unfolding e by simp
  qed
  then show ?thesis using c(1,3) by blast
qed

section \<open>The attributes of an access point's packet\<close>

text \<open>An access point of an open network and a packet whose headers the attribute code can read.\<close>

definition open_ap :: "attr_env \<Rightarrow> security_priv \<Rightarrow> adapter \<Rightarrow> bytes \<Rightarrow> nat \<Rightarrow> bool" where
  "open_ap env sec ad dst i \<longleftrightarrow> \<not> ae_state env WIFI_STATION_STATE \<and> ae_state env WIFI_AP_STATE \<and> length (ve_bssid (tx_mlme (ae_tx env))) = 6
     \<and> dot11AuthAlgrthm sec = 0 \<and> dot11PrivacyAlgrthm sec = 0
     \<and> ad_get_sta ad dst = Some i \<and> si_state (sta_of ad i) AND WIFI_ASOC_STATE \<noteq> 0 \<and> \<not> si_ieee8021x_blocked (sta_of ad i)
     \<and> i < length (pstainfo_buf (ad_stapriv ad)) \<and> length (si_txseq_tid (sta_of ad i)) = 16"

definition readable :: "u16 \<Rightarrow> bytes \<Rightarrow> bool" where
  "readable t m \<longleftrightarrow> t \<noteq> ETH_P_PAE \<and> (t = ETH_P_IP \<longrightarrow> 20 \<le> length m \<and> unat (m ! 0 AND 0xF) * 4 \<le> 20
     \<and> (m ! 9 = 0x11 \<longrightarrow> 44 \<le> length m) \<and> (m ! 9 = 6 \<longrightarrow> 40 \<le> length m))"

definition tx_priority :: "bool \<Rightarrow> u16 \<Rightarrow> bytes \<Rightarrow> u8" where
  "tx_priority qos t m = (if qos \<and> t = ETH_P_IP then drop_bit 5 (m ! 1) else 0)"

definition same_packet :: "xmit_attrib \<Rightarrow> xmit_attrib \<Rightarrow> bool" where
  "same_packet pa pa' \<longleftrightarrow> at_dst pa' = at_dst pa \<and> at_src pa' = at_src pa \<and> at_ra pa' = at_ra pa \<and> at_ether_type pa' = at_ether_type pa \<and> at_amsdu pa' = at_amsdu pa"

lemma ip_udp_reads: "24 \<le> length m \<Longrightarrow> \<exists>pa'. ip_udp m pa = Some pa' \<and> same_packet pa pa'"
  by (simp add: ip_udp_def mem_rd_def get_be16_def Let_def same_packet_def)

lemma ip_tcp_reads: "20 \<le> length m \<Longrightarrow> \<exists>ns. ip_tcp i s ip m = Some ns"
  by (simp add: ip_tcp_def mem_rd_def)

lemma attrib_packet_readable:
  assumes "readable (at_ether_type pa) m"
  shows "\<exists>pa' ns. attrib_packet sec i m ad pa = Some (NON_EAPOL, ad, pa', ns) \<and> same_packet pa pa'"
proof (cases "at_ether_type pa = ETH_P_IP")
  case True
  then have l: "20 \<le> length m" "\<not> 20 < unat (m ! 0 AND 0xF) * 4" "m ! 9 = 0x11 \<Longrightarrow> 44 \<le> length m" "m ! 9 = 6 \<Longrightarrow> 40 \<le> length m"
    using assms by (auto simp: readable_def)
  have h: "mem_rd m 0 20 = Some (take 20 m)" "take 20 m ! 0 = m ! 0" "take 20 m ! 9 = m ! 9" "snd (rtw_pktfile_read m 20) = drop 20 m"
    using l(1) by (simp_all add: mem_rd_def rtw_pktfile_read_def)
  let ?pa = "pa\<lparr>at_icmp_pkt := False, at_dhcp_pkt := False, at_hipriority_pkt := False\<rparr>"
  note ip = ip_packet_def [of i "sta_of ad i" m pa, unfolded h(1) bind.bind_lunit Let_def h(2-4) if_not_P [OF l(2)]]
  consider "m ! 9 = 0x11" | "m ! 9 = 6" "rtw_st_ctl_chk_reg_s_proto (si_st_ctl (sta_of ad i)) 6"
    | "m ! 9 \<noteq> 0x11" "m ! 9 \<noteq> 6 \<or> \<not> rtw_st_ctl_chk_reg_s_proto (si_st_ctl (sta_of ad i)) 6" by blast
  then have "\<exists>pa' ns. ip_packet i (sta_of ad i) m pa = Some (pa', ns) \<and> same_packet pa pa'"
  proof cases
    case 1
    then have "24 \<le> length (drop 20 m)" using l(3) by simp
    from ip_udp_reads [OF this, of ?pa] obtain pa' where "ip_udp (drop 20 m) ?pa = Some pa'" "same_packet ?pa pa'" by blast
    then show ?thesis using 1 unfolding ip by (simp add: same_packet_def)
  next
    case 2
    then have "20 \<le> length (drop 20 m)" using l(4) by simp
    from ip_tcp_reads [OF this, of i "sta_of ad i" "take 20 m"] obtain ns where "ip_tcp i (sta_of ad i) (take 20 m) (drop 20 m) = Some ns" by blast
    then show ?thesis using 2 unfolding ip by (simp add: same_packet_def)
  next
    case 3
    then show ?thesis unfolding ip by (auto simp: same_packet_def)
  qed
  then show ?thesis using True by (auto simp: attrib_packet_def)
next
  case False
  then show ?thesis using assms by (simp add: attrib_packet_def readable_def same_packet_def)
qed

lemma sec_info_open:
  assumes "dot11AuthAlgrthm sec = 0" "dot11PrivacyAlgrthm sec = 0" "\<not> si_ieee8021x_blocked (sta_of ad i)"
  shows "\<exists>pa'. update_attrib_sec_info env sec NON_EAPOL i ad pa = (RET_SUCCESS, ad, pa') \<and> same_packet pa pa'
    \<and> at_encrypt pa' = 0 \<and> at_iv_len pa' = 0 \<and> at_icv_len pa' = 0 \<and> \<not> at_bswenc pa'"
proof -
  have "upd_sta i (\<lambda>_. sta_of ad i) ad = ad" by (simp add: upd_sta_def sta_of_def)
  then show ?thesis using assms
    by (simp add: update_attrib_sec_info_def sec_cipher_def GET_ENCRY_ALGO_def sec_iv_def sec_finish_def same_packet_def Let_def cipher_ids)
qed

lemma phy_info_keeps:
  "at_dst (update_attrib_phy_info env i pa) = at_dst pa" "at_src (update_attrib_phy_info env i pa) = at_src pa"
  "at_ra (update_attrib_phy_info env i pa) = at_ra pa" "at_ether_type (update_attrib_phy_info env i pa) = at_ether_type pa"
  "at_amsdu (update_attrib_phy_info env i pa) = at_amsdu pa" "at_iv_len (update_attrib_phy_info env i pa) = at_iv_len pa"
  "at_icv_len (update_attrib_phy_info env i pa) = at_icv_len pa" "at_bswenc (update_attrib_phy_info env i pa) = at_bswenc pa"
  "at_pkt_hdrlen (update_attrib_phy_info env i pa) = at_pkt_hdrlen pa" "at_qos_en (update_attrib_phy_info env i pa) = at_qos_en pa"
  "at_hdrlen (update_attrib_phy_info env i pa) = at_hdrlen pa" "at_subtype (update_attrib_phy_info env i pa) = at_subtype pa"
  "at_priority (update_attrib_phy_info env i pa) = at_priority pa"
  by (simp_all add: update_attrib_phy_info_def Let_def)

lemma tx_priority_bound: "unat (tx_priority q t m) < 16"
proof -
  have "unat b < 2 ^ LENGTH(8)" for b :: u8 by (rule unsigned_less)
  then have "unat (drop_bit 5 b) < 16" for b :: u8 by (simp add: drop_bit_eq_div unat_div less_mult_imp_div_less less_trans [of _ "256 :: nat" 512])
  then show ?thesis by (simp add: tx_priority_def)
qed

lemma tx_priority_nibble: "tx_priority q t m AND 0xF = tx_priority q t m"
proof -
  have "(0xF :: u8) = mask 4" by (simp add: mask_eq_exp_minus_1)
  then have "unat (x AND 0xF) = take_bit 4 (unat x)" for x :: u8 by (simp only: take_bit_eq_mask [symmetric] unsigned_take_bit_eq)
  then show ?thesis using tx_priority_bound [of q t m] by (simp add: word_unat_eq_iff take_bit_nat_eq_self)
qed

lemma be16_bytes: "push_bit 8 (ucast (ucast (drop_bit 8 t) :: u8)) OR ucast (ucast t :: u8) = t" for t :: u16
  by (rule bit_word_eqI) (auto simp: bit_simps)

lemma ap_mask: "ae_state env WIFI_AP_STATE \<Longrightarrow> ae_state env (WIFI_AP_STATE OR WIFI_ADHOC_STATE OR WIFI_ADHOC_MASTER_STATE)"
  by (simp add: check_fwstate_def bit.conj_disj_distrib or_eq_0_iff)

lemma update_attrib_open_ap:
  assumes ap: "open_ap env sec ad dst i" and len: "length dst = 6" "length src = 6" "\<not> IS_MCAST dst"
    and pkt: "pkt = dst @ src @ put_be16 t @ m" "readable t m" and pa: "at_amsdu pa = 0"
  obtains pa1 pa2 ns where "rtw_ap_addr_resolve flags asoc_list os_qid ad pkt pa = (Resolve_Success, ad, [], pa1)" "update_attrib env sec pkt ad pa1 = Some (RET_SUCCESS, ad, pa2, ns)"
    "ap_sends (ae_tx env) ad pa2 i" "open_attrib pa2" "at_dst pa2 = dst" "at_src pa2 = src" "at_ether_type pa2 = t"
    "at_qos_en pa2 = si_qos_option (sta_of ad i)" "at_priority pa2 = tx_priority (si_qos_option (sta_of ad i)) t m"
proof -
  note a = ap [unfolded open_ap_def]
  define pa1 where "pa1 = pa\<lparr>at_dst := dst, at_src := src, at_ta := ad_mac ad, at_ra := dst\<rparr>"
  have r: "rtw_ap_addr_resolve flags asoc_list os_qid ad pkt pa = (Resolve_Success, ad, [], pa1)"
    using len by (simp add: rtw_ap_addr_resolve_def rtw_pktfile_read_def rtw_ap_nexthop_resolve_def pkt(1) pa1_def put_be16_def)
  define eth where "eth = dst @ src @ put_be16 t"
  have eth: "mem_rd pkt 0 14 = Some eth" "get_be16 eth 12 = Some t" "snd (rtw_pktfile_read pkt 14) = m"
    using len by (simp_all add: mem_rd_def get_be16_def rtw_pktfile_read_def eth_def pkt(1) put_be16_def nth_append be16_bytes)
  define pa2 where "pa2 = pa1\<lparr>at_ether_type := t\<rparr>"
  have ad: "attrib_addrs env ad eth (pa1\<lparr>at_ether_type := t\<rparr>) = pa2" using a by (simp add: attrib_addrs_def pa2_def)
  have st: "attrib_sta env ad pa2 = Some i" using a len by (simp add: attrib_sta_def pa2_def pa1_def)
  define pa3 where "pa3 = pa2\<lparr>at_pktlen := of_nat (length m)\<rparr>"
  obtain pa4 ns where p: "attrib_packet sec i m ad pa3 = Some (NON_EAPOL, ad, pa4, ns)" "same_packet pa3 pa4"
    using attrib_packet_readable [of pa3 m sec i ad] pkt(2) by (auto simp: pa3_def pa2_def)
  obtain pa5 where s: "update_attrib_sec_info env sec NON_EAPOL i ad pa4 = (RET_SUCCESS, ad, pa5)" "same_packet pa4 pa5"
    "at_encrypt pa5 = 0" "at_iv_len pa5 = 0" "at_icv_len pa5 = 0" "\<not> at_bswenc pa5"
    using sec_info_open [of sec ad i env pa4] a by auto
  let ?q = "si_qos_option (sta_of ad i)"
  define pa6 where "pa6 = pa5\<lparr>at_pkt_hdrlen := 14, at_hdrlen := 24, at_subtype := 8, at_qos_en := ?q, at_priority := 0\<rparr>"
  have same: "at_dst pa6 = dst" "at_src pa6 = src" "at_ra pa6 = dst" "at_ether_type pa6 = t" "at_amsdu pa6 = 0"
    using p(2) s(2) pa by (simp_all add: same_packet_def pa6_def pa3_def pa2_def pa1_def)
  have tos: "mem_rd pkt 15 1 = Some [m ! 1]" if "t = ETH_P_IP"
  proof -
    have "20 \<le> length m" using pkt(2) that by (simp add: readable_def)
    then obtain x y m' where "m = x # y # m'" by (cases m; cases "tl m") auto
    then show ?thesis using len by (simp add: mem_rd_def pkt(1) put_be16_def)
  qed
  define pa7 where "pa7 = (if ?q then pa6\<lparr>at_priority := tx_priority True t m, at_hdrlen := 26, at_subtype := 0x88\<rparr> else pa6)"
  have q: "attrib_qos env pkt pa6 = Some pa7"
    using tos same(4) ap_mask [of env] a by (cases "?q"; cases "t = ETH_P_IP")
      (simp_all add: attrib_qos_def set_qos_def pa7_def tx_priority_def tos_to_up_def, simp_all add: pa6_def)
  have same7: "at_dst pa7 = dst" "at_src pa7 = src" "at_ra pa7 = dst" "at_ether_type pa7 = t" "at_amsdu pa7 = 0"
    using same by (simp_all add: pa7_def)
  have pa7: "at_encrypt pa7 = 0" "at_iv_len pa7 = 0" "at_icv_len pa7 = 0" "\<not> at_bswenc pa7" "at_pkt_hdrlen pa7 = 14" "at_qos_en pa7 = ?q"
    "at_hdrlen pa7 = (if ?q then 26 else 24)" "at_subtype pa7 = (if ?q then 0x88 else 8)" "at_priority pa7 = tx_priority ?q t m"
    using s by (simp_all add: pa7_def pa6_def tx_priority_def)
  define pa8 where "pa8 = (update_attrib_phy_info env i pa7)\<lparr>at_psta := Some i, at_ack_policy := 0\<rparr>"
  have u: "update_attrib env sec pkt ad pa1 = Some (RET_SUCCESS, ad, pa8, ns @ scan_notes env pa4)"
    unfolding update_attrib_def eth bind.bind_lunit Let_def ad st option.case pa3_def [symmetric] p(1) prod.case s(1) pa6_def [symmetric] q
    using same7(3) len(3) q by (simp add: pa8_def phy_info_keeps)
  show thesis
    using that [OF r u] same7 pa7 a len tx_priority_bound [of ?q t m]
    by (simp add: pa8_def phy_info_keeps ap_sends_def open_attrib_def)
qed

text \<open>
  C7. What an access point sends a station receives. In an open network a packet for an associated
  station that fits one fragment passes the access point's address and attribute code and is built into the transmit
  buffer; the receive path of the station accepts the frame and hands up the same Ethernet frame, exactly once.
\<close>

theorem ap_to_sta_roundtrip:
  assumes ap: "open_ap env sec ad dst i" "length dst = 6" "length src = 6" "\<not> IS_MCAST dst" "at_amsdu pa = 0"
    and pkt: "pkt = dst @ src @ put_be16 t @ m" "readable t m"
      "length m \<le> unat (mx_frag_len (ae_tx env) - 4 - (if si_qos_option (sta_of ad i) then 26 else 24) - 8)" "length m < 65000"
    and buf: "hw_hdr_offset (mx_pkt_offset (ae_tx env)) + 64 + length m \<le> length buf"
    and rx: "open_peer renv p (ve_bssid (tx_mlme (ae_tx env))) j" "src \<noteq> ad_mac (rx_ad (pc_rx p))"
      "prio = tx_priority (si_qos_option (sta_of ad i)) t m"
      "push_bit 4 ((si_txseq_tid (sta_of ad i) ! unat prio + 1) AND 0xFFF) \<noteq> last_seq p j (si_qos_option (sta_of ad i)) prio"
      "\<forall>k x. me_pkt_alloc (pe_msdu renv k) x \<and> \<not> me_cannot_run (pe_msdu renv k)"
  shows "\<exists>pa1 pa2 ns ad' pa' buf'. rtw_ap_addr_resolve flags asoc_list os_qid ad pkt pa = (Resolve_Success, ad, [], pa1) \<and> update_attrib env sec pkt ad pa1 = Some (RET_SUCCESS, ad, pa2, ns)
    \<and> rtw_xmitframe_coalesce (ae_tx env) ad sec pkt pa2 (Some buf) = Some (RET_SUCCESS, ad', pa', Some buf') \<and> length buf' = length buf
    \<and> (\<forall>f. frame_wf f \<and> frame_payload f = air_bytes (ae_tx env) pa' buf' \<and> pa_encrypt (fr_attrib f) = 0 \<longrightarrow>
        (\<exists>p'. rtw_recv_entry renv f p = Some (RET_SUCCESS, p') \<and> pc_events p' = pc_events p @ [MsduIndicate pkt]))"
proof -
  obtain pa1 pa2 ns where u: "rtw_ap_addr_resolve flags asoc_list os_qid ad pkt pa = (Resolve_Success, ad, [], pa1)" "update_attrib env sec pkt ad pa1 = Some (RET_SUCCESS, ad, pa2, ns)"
    and s: "ap_sends (ae_tx env) ad pa2 i" "open_attrib pa2" "at_dst pa2 = dst" "at_src pa2 = src" "at_ether_type pa2 = t"
      "at_qos_en pa2 = si_qos_option (sta_of ad i)" "at_priority pa2 = tx_priority (si_qos_option (sta_of ad i)) t m"
    by (rule update_attrib_open_ap [OF ap(1-4) pkt(1,2) ap(5)])
  have pk: "pkt = at_dst pa2 @ at_src pa2 @ put_be16 (at_ether_type pa2) @ m" using pkt(1) s by simp
  have room: "length m \<le> unat (frag_room pa2 (mx_frag_len (ae_tx env)) True)"
    using pkt(3) s(1,2,6) by (simp add: frag_room_def ap_sends_def open_attrib_def split: if_splits)
  have "prio AND 0xF = prio" unfolding rx(3) by (rule tx_priority_nibble)
  then have "push_bit 4 (next_seq ad i pa2) \<noteq> last_seq p j (at_qos_en pa2) (at_priority pa2 AND 0xF)" using rx(3,4) s(6,7) by (simp add: next_seq_def)
  from ap_to_sta_air [OF s(1,2) pk room pkt(4) buf rx(1) _ this rx(5)] u rx(2) s(4) show ?thesis by blast
qed

text \<open>An instance: access point 4, station 2, source 6 behind the access point.\<close>

definition sample_open_ctx :: path_ctx where
  "sample_open_ctx = \<lparr>pc_val = sample_val_ctx\<lparr>vc_rx := sample_rx_ctx\<lparr>rx_ad := sample_adapter\<lparr>ad_stapriv := one_sta (replicate 6 4), ad_mac := replicate 6 2\<rparr>,
     rx_sec := sample_sec\<lparr>dot11PrivacyAlgrthm := 0, dot11AuthAlgrthm := 0\<rparr>\<rparr>\<rparr>, pc_events = []\<rparr>"

definition heard :: "bytes \<Rightarrow> recv_frame" where
  "heard b = (sample_frame 5 0)\<lparr>fr_len := of_nat (length b), rx_mem := b, rx_tail := int (length b)\<rparr>"

definition open_sec :: security_priv where
  "open_sec = sample_sec\<lparr>dot11PrivacyAlgrthm := 0, dot11AuthAlgrthm := 0\<rparr>"

definition open_ap_ad :: adapter where
  "open_ap_ad = sample_adapter\<lparr>ad_stapriv := one_sta (replicate 6 2)\<rparr>"

lemma sample_open_rx:
  "rx_stas (pc_rx sample_open_ctx) = (replicate 32 zero_stainfo)[0 := (init_stainfo (replicate 6 4))\<lparr>si_state := WIFI_ASOC_STATE\<rparr>]"
  "ad_stapriv (rx_ad (pc_rx sample_open_ctx)) = one_sta (replicate 6 4)" "rx_pool (pc_rx sample_open_ctx) = sample_recv_priv"
  "ad_mac (rx_ad (pc_rx sample_open_ctx)) = replicate 6 2" "\<not> ad_mlme_ap (rx_ad (pc_rx sample_open_ctx))" "dot11PrivacyAlgrthm (rx_sec (pc_rx sample_open_ctx)) = 0"
  "pc_events sample_open_ctx = []" "rx_sta (pc_rx sample_open_ctx) 0 = (init_stainfo (replicate 6 4))\<lparr>si_state := WIFI_ASOC_STATE\<rparr>"
  by (simp_all add: sample_open_ctx_def one_sta_def rx_sta_def) (simp_all add: sample_adapter_def)

lemma sample_mac_uc: "\<not> IS_MCAST (replicate 6 2)" "\<not> IS_MCAST (replicate 6 4)"
  by (simp_all add: IS_MCAST_def numeral_eq_Suc)

lemma sample_open_peer: "open_peer sample_path_env sample_open_ctx (replicate 6 4) 0"
  unfolding open_peer_def sample_open_rx using one_sta_get [of "replicate 6 4"] sample_mac_uc sample_open_rx(5)
  by (simp add: one_sta_def sample_path_env_def sample_val_env_def sample_recv_priv_def init_stainfo_def zero_stainfo_def zero_reorder_ctrl_def
      init_recvreorder_ctrl_def check_fwstate_def WIFI_STATION_STATE_def WIFI_MONITOR_STATE_def WIFI_ASOC_STATE_def WIFI_UNDER_LINKING_def)

lemma sample_open_sta_inv: "sta_inv (one_sta (replicate 6 4))"
proof -
  let ?sp = "ad_stapriv (rx_ad sample_rx_ctx)" and ?sq = "one_sta (replicate 6 4)"
  have e: "sta_hash ?sq = sta_hash ?sp" "free_sta_queue ?sq = free_sta_queue ?sp" "asoc_sta_count ?sq = asoc_sta_count ?sp"
    "length (pstainfo_buf ?sq) = length (pstainfo_buf ?sp)"
    by (simp_all add: one_sta_def sample_rx_ctx_def)
  have m: "sta_mac ?sq k = sta_mac ?sp k" for k
    by (cases "k = 0") (simp_all add: one_sta_def sample_rx_ctx_def)
  have "sta_live ?sq = sta_live ?sp" by (simp add: sta_live_def e)
  then show ?thesis using sample_rx_sta(1) unfolding sta_inv_def e m by simp
qed

text \<open>The station gets a data frame of three bytes: it is handed up, and its buffer is in the pool.\<close>

definition heard_data :: recv_frame where
  "heard_data = (heard (wlanhdr 0x208 (replicate 6 2) (replicate 6 4) (replicate 6 6) 0x10 [1, 2, 3]))
     \<lparr>rx_mem := wlanhdr 0x208 (replicate 6 2) (replicate 6 4) (replicate 6 6) 0x10 [1, 2, 3] @ replicate 40 0\<rparr>"

lemma sample_open_inv: "path_inv (pc_rx sample_open_ctx)" "all_ids (pc_rx sample_open_ctx) = []"
proof -
  have s: "s = zero_stainfo \<or> s = (init_stainfo (replicate 6 4))\<lparr>si_state := WIFI_ASOC_STATE\<rparr>" if "s \<in> set (rx_stas (pc_rx sample_open_ctx))" for s
    using that unfolding sample_open_rx(1) by (auto dest!: subsetD [OF set_update_subset_insert])
  have p: "si_defrag_q s = []" "sta_pend_ids s = []" if "s \<in> set (rx_stas (pc_rx sample_open_ctx))" for s
    using s [OF that] by (auto simp: sta_pend_ids_def zero_stainfo_def init_stainfo_def zero_reorder_ctrl_def init_recvreorder_ctrl_def)
  show ids: "all_ids (pc_rx sample_open_ctx) = []"
    using p by (simp add: all_ids_def rx_ids_def queued_ids_def reorder_ids_def pool_ids_def sample_open_rx(3)) (simp add: sample_recv_priv_def)
  show "path_inv (pc_rx sample_open_ctx)"
    using p(1) ids sample_open_sta_inv by (simp add: path_inv_def path_ok_def sample_open_rx(2,3)) (simp add: sample_recv_priv_def)
qed


theorem ap_to_sta_roundtrip_witness:
  "\<exists>pa1 pa2 ns ad' pa' buf' p'. rtw_ap_addr_resolve 0 [0] 0 open_ap_ad arp_packet sample_xmit_attrib = (Resolve_Success, open_ap_ad, [], pa1)
    \<and> update_attrib sample_attr_env open_sec arp_packet open_ap_ad pa1 = Some (RET_SUCCESS, open_ap_ad, pa2, ns)
    \<and> rtw_xmitframe_coalesce sample_tx_env open_ap_ad open_sec arp_packet pa2 (Some (replicate 200 9)) = Some (RET_SUCCESS, ad', pa', Some buf')
    \<and> rtw_recv_entry sample_path_env (heard (air_bytes sample_tx_env pa' buf')) sample_open_ctx = Some (RET_SUCCESS, p')
    \<and> pc_events p' = [MsduIndicate arp_packet]"
proof -
  note mc = sample_mac_uc and c = sample_open_rx and s = sample_open_rx(8)
  have sta: "sta_of open_ap_ad 0 = (init_stainfo (replicate 6 2))\<lparr>si_state := WIFI_ASOC_STATE\<rparr>" by (simp add: sta_of_def one_sta_def open_ap_ad_def)
  have ae: "ae_tx sample_attr_env = sample_tx_env" by (simp add: sample_attr_env_def)
  have ap: "open_ap sample_attr_env open_sec open_ap_ad (replicate 6 2) 0"
    using one_sta_get [of "replicate 6 2"] mc unfolding open_ap_def sta ae
    by (simp add: init_stainfo_def zero_stainfo_def sample_tx_env_def sample_val_env_def open_ap_ad_def open_sec_def
        check_fwstate_def WIFI_STATION_STATE_def WIFI_AP_STATE_def WIFI_ASOC_STATE_def) (simp add: one_sta_def)
  have op: "open_peer sample_path_env sample_open_ctx (ve_bssid (tx_mlme sample_tx_env)) 0"
    using sample_open_peer by (simp add: sample_tx_env_def sample_val_env_def)
  have q: "\<not> si_qos_option (sta_of open_ap_ad 0)" by (simp add: sta init_stainfo_def zero_stainfo_def)
  have new: "push_bit 4 ((si_txseq_tid (sta_of open_ap_ad 0) ! unat (0 :: u8) + 1) AND 0xFFF) \<noteq> last_seq sample_open_ctx 0 (si_qos_option (sta_of open_ap_ad 0)) 0"
    using q by (simp add: last_seq_def sta s init_stainfo_def zero_stainfo_def)
  have hw: "hw_hdr_offset (mx_pkt_offset sample_tx_env) = 40" "mx_frag_len sample_tx_env = 2346" by (simp_all add: hw_hdr_offset_def sample_tx_env_def)
  have pkt: "arp_packet = replicate 6 2 @ replicate 6 6 @ put_be16 0x806 @ [0, 1, 8, 0]" "readable 0x806 [0, 1, 8, 0]"
    by (simp_all add: arp_packet_def put_be16_def readable_def ETH_P_PAE_def ETH_P_IP_def)
  have me: "\<forall>k x. me_pkt_alloc (pe_msdu sample_path_env k) x \<and> \<not> me_cannot_run (pe_msdu sample_path_env k)"
    by (simp add: sample_path_env_def sample_env_def)
  have hd: "frame_payload (heard b) = b" "pa_encrypt (fr_attrib (heard b)) = 0" "length b < 65536 \<Longrightarrow> frame_wf (heard b)" for b
    by (simp_all add: heard_def sample_frame_def sample_attrib_def frame_payload_def frame_wf_def uint_nat unat_of_nat take_bit_nat_eq_self)
  obtain pa1 pa2 ns ad' pa' buf' where t: "rtw_ap_addr_resolve 0 [0] 0 open_ap_ad arp_packet sample_xmit_attrib = (Resolve_Success, open_ap_ad, [], pa1)"
      "update_attrib sample_attr_env open_sec arp_packet open_ap_ad pa1 = Some (RET_SUCCESS, open_ap_ad, pa2, ns)"
      "rtw_xmitframe_coalesce sample_tx_env open_ap_ad open_sec arp_packet pa2 (Some (replicate 200 9)) = Some (RET_SUCCESS, ad', pa', Some buf')" "length buf' = 200"
    and r: "\<And>f. frame_wf f \<Longrightarrow> frame_payload f = air_bytes sample_tx_env pa' buf' \<Longrightarrow> pa_encrypt (fr_attrib f) = 0 \<Longrightarrow>
        \<exists>p'. rtw_recv_entry sample_path_env f sample_open_ctx = Some (RET_SUCCESS, p') \<and> pc_events p' = pc_events sample_open_ctx @ [MsduIndicate arp_packet]"
    using ap_to_sta_roundtrip [OF ap _ _ mc(1) _ pkt _ _ _ _ _ _ new me, where pa = sample_xmit_attrib and buf = "replicate 200 9" and flags = 0 and asoc_list = "[0]" and os_qid = 0, unfolded ae, OF _ _ _ _ _ _ op] hw q c(4)
    by (auto simp: sample_xmit_attrib_def tx_priority_def)
  have "length (air_bytes sample_tx_env pa' buf') < 65536" using t(4) by (simp add: air_bytes_def)
  from r [OF hd(3) [OF this] hd(1,2)] show ?thesis using t(1-3) c(7) by auto
qed

end
