(* ===== verification/Spec2Isabelle.thy ===== *)
theory Spec2Isabelle
  imports Recv_Frame Recv_Reorder Id_Maps Sec_Cam Macid Xmit_Queue Mac_Acl Sta_Mgt Sw_Crypto Wep_Tkip Recv_Decache Recv_Defrag
    Aes Aes_Ccm Aes_Gcm Ccmp_Gcmp Ie_Search Ie_Parse Recv_Mpdu Ap_Pwrsave Recv_Validate Aes_Omac Mgmt_Protect Recv_Path_Inv Xmit_Recv
begin

text \<open>
  \<^bold>\<open>The Realtek RTL8192EU wireless driver\<close> (\<^verbatim>\<open>src/driver\<close>), verified in the parts that hold its own logic.

  The driver has a hardware-independent core (\<^verbatim>\<open>core/\<close>: receive and transmit paths, station table, security,
  information elements, access point functions), chip support (\<^verbatim>\<open>hal/\<close>) and the operating system's side
  (\<^verbatim>\<open>os_dep/\<close>). Received frames come from USB, are checked, decrypted, deduplicated, reassembled, reordered
  per station and traffic identifier, and handed up; frames to send are classified into queues per station
  and access category, fetched by a scheduler, encrypted in software where the hardware cannot, and written
  to USB. Stations are found through a hash table; each owns reorder windows, fragment queues and caches,
  and has a MAC id and key entries in the chip's CAM. Management frames are series of information elements.

  \<^bold>\<open>Conventions.\<close> The configuration is the one the repository builds: HT on, access point mode on, management
  frame protection on, USB transmit aggregation on; mesh, P2P, TDLS, WAPI and concurrent mode off; code under
  other switches is not translated. Integers whose width matters are words (\<open>u8\<close>, \<open>u16\<close>, \<open>u32\<close>, \<open>u64\<close>); byte
  buffers are lists; a pointer into a buffer is an offset. An access outside a buffer is the outer \<open>None\<close> of a
  result, a null pointer an inner one; error returns are values of \<^typ>\<open>ret\<close>. Locks are taken around whole
  operations, so an operation is one function on the state and interleavings are sequences of operations
  (\<open>invariant_system\<close> in \<open>Driver_Prelude\<close> has the induction over them). Allocation may fail: where it does
  the model has a flag. Printing and statistics counters that nothing reads are left out.

  \<^bold>\<open>The theories\<close>, in the order of their dependencies:

  \<^item> \<open>Driver_Prelude\<close>: types, buffer access, byte order, shared lemmas on words and lists, the interfaces
    \<open>invariant_system\<close> and \<open>aead\<close>.
  \<^item> \<open>Recv_Frame\<close> (\<^verbatim>\<open>core/rtw_recv.c\<close>, \<^verbatim>\<open>include/rtw_recv.h\<close>): the frame header with its data and tail pointers,
    the pull, push and put helpers, the free queue.
  \<^item> \<open>Recv_Reorder\<close> (\<^verbatim>\<open>core/rtw_recv.c\<close>): the reorder window. Over every admissible run of arrivals and timeouts
    frames are handed up in sequence order, none is lost or duplicated, pending frames stay in the window,
    and repeated timeouts drain the queue.
  \<^item> \<open>Id_Maps\<close>, \<open>Sec_Cam\<close>, \<open>Macid\<close> (\<^verbatim>\<open>core/rtw_wlan_util.c\<close>): bitmaps with one interface \<open>id_map\<close>, the key CAM
    with its cache (exclusive and complete allocation, round trip through the table's words, swap), MAC ids.
  \<^item> \<open>Xmit_Queue\<close> (\<^verbatim>\<open>core/rtw_xmit.c\<close>): frame and buffer pools, classifier, station queues and the scheduler;
    the counters and lists stay consistent and access categories are served in strict priority.
  \<^item> \<open>Mac_Acl\<close> (\<^verbatim>\<open>core/rtw_ap.c\<close>, \<^verbatim>\<open>core/rtw_sta_mgt.c\<close>): access control lists, refinement of a set.
  \<^item> \<open>Sta_Mgt\<close> (\<^verbatim>\<open>core/rtw_sta_mgt.c\<close>): station table, refinement of a map from addresses; removal returns all
    frames a station holds; association ids are exclusive.
  \<^item> \<open>Sw_Crypto\<close>, \<open>Wep_Tkip\<close> (\<^verbatim>\<open>core/rtw_security.c\<close>): RC4, CRC-32 and Michael against their definitions, TKIP key
    mixing, WEP and TKIP frames, the TKIP round trip.
  \<^item> \<open>Aes\<close>, \<open>Aes_Ccm\<close>, \<open>Aes_Gcm\<close>, \<open>Ccmp_Gcmp\<close> (\<^verbatim>\<open>core/crypto/\<close>, \<^verbatim>\<open>core/rtw_swcrypto.c\<close>, \<^verbatim>\<open>core/rtw_security.c\<close>): the table
    driven cipher equals FIPS 197, CCM and GCM are authenticated encryption (interface \<open>aead\<close>), frames
    sealed by the transmit path are opened by the receive path.
  \<^item> \<open>Recv_Decache\<close>, \<open>Recv_Defrag\<close> (\<^verbatim>\<open>core/rtw_recv.c\<close>): duplicate and replay filters; reassembly of consecutive
    fragments, conservation of frames, the Michael check and its countermeasures, port control.
  \<^item> \<open>Ie_Search\<close>, \<open>Ie_Parse\<close> (\<^verbatim>\<open>core/rtw_ieee80211.c\<close>): information elements as series; removal is filtering, the
    parser is safe and exact on arbitrary bytes, the RSN element round trip, when the WPS search returns.
  \<^item> \<open>Recv_Mpdu\<close> (\<^verbatim>\<open>core/rtw_recv.c\<close>, \<^verbatim>\<open>core/rtw_ap.c\<close>): from a reassembled frame to Ethernet frames; an A-MSDU
    is taken apart into exactly the frames it was assembled from.
  \<^item> \<open>Ap_Pwrsave\<close> (\<^verbatim>\<open>core/rtw_xmit.c\<close>, \<^verbatim>\<open>core/rtw_recv.c\<close>): frames buffered for dozing stations, the TIM and doze
    maps; over every run of power save events the TIM announces the kept frames that no trigger frame fetches, and
    waking up delivers all of them.
  \<^item> \<open>Recv_Validate\<close> (\<^verbatim>\<open>core/rtw_recv.c\<close>, \<^verbatim>\<open>core/rtw_ap.c\<close>): the checks on a data frame before decryption; only frames
    of known stations pass, and in an encrypting network only protected ones, EAPOL apart.
  \<^item> \<open>Aes_Omac\<close> (\<^verbatim>\<open>core/crypto/aes-omac1.c\<close>, \<^verbatim>\<open>aes-ctr.c\<close>, \<^verbatim>\<open>aes-siv.c\<close>): the message code is CMAC over the concatenated
    elements; synthetic-IV decryption inverts encryption.
  \<^item> \<open>Mgmt_Protect\<close> (\<^verbatim>\<open>core/rtw_xmit.c\<close>, \<^verbatim>\<open>core/rtw_security.c\<close>): robust management frames; a protected group frame is
    accepted by the receiver that holds the key.
  \<^item> \<open>Recv_Path\<close> (\<^verbatim>\<open>core/rtw_recv.c\<close>): \<^verbatim>\<open>rtw_recv_entry\<close> to the network stack, the composition of the receive theories,
    with decryption, management and control frames and the frames that wait for a key.
  \<^item> \<open>Recv_Path_Inv\<close>: every received data or control frame ends in exactly one place, proved from one contract of the stages
    (locale \<open>rx_stage\<close>); a plain data frame is delivered as one Ethernet frame.
  \<^item> \<open>Xmit_Frame\<close> (\<^verbatim>\<open>core/rtw_xmit.c\<close>): \<^verbatim>\<open>rtw_xmitframe_coalesce\<close> with header, LLC header, fragments, Michael code and
    protection mode; what the buffer holds for a packet in one fragment.
  \<^item> \<open>Xmit_Attrib\<close> (\<^verbatim>\<open>core/rtw_xmit.c\<close>, \<^verbatim>\<open>core/rtw_ap.c\<close>): \<^verbatim>\<open>update_attrib\<close> with its helpers and the address code of the access
    point; packet numbers increase over every run of packets.
  \<^item> \<open>Xmit_Recv\<close>: what an access point's transmit path builds, a station's receive path hands up.

  \<^bold>\<open>Bounds and fuel.\<close> Loops are total functions with a measure, except \<open>wps_attr_loop\<close>, which does not always end
  and is a partial function whose domain is characterised exactly. Queue capacities and table sizes are the
  source's constants.

  \<^bold>\<open>Not modelled.\<close> The chip tables, firmware images, radio calibration and register scripts under \<^verbatim>\<open>hal/\<close> (data
  and hardware I/O); the operating system's glue under \<^verbatim>\<open>os_dep/\<close> (ioctl and cfg80211 handlers copy between user
  space and the core); debugging and the \<^verbatim>\<open>/proc\<close> files; Bluetooth coexistence; the frame exchanges of \<^verbatim>\<open>core/rtw_mlme_ext.c\<close>
  and the parts compiled out. The manifest lists each with its reason.
\<close>

end
